(* ===== verification/ClaweePrelude.thy ===== *)
theory ClaweePrelude
  imports Complex_Main "HOL-Library.List_Lexorder" "HOL-Library.Char_ord" "HOL-Library.Product_Lexorder"
begin

text \<open>
  What every theory of the development shares.

  \<^item> Names for the model's base types. A timestamp is its number of milliseconds since the
    epoch: the daemon writes every timestamp with \<^verbatim>\<open>Date.prototype.toISOString\<close>, whose
    fixed-width text orders as the number does, so the SQL comparisons on the text are
    comparisons of the numbers.
  \<^item> The error-state monad the stateful components are written in: a computation takes the
    state and returns an error or a value, and the new state in both cases. A raised error
    keeps the changes made so far, as a JavaScript exception does; \<open>transactE\<close> is the
    better-sqlite3 transaction, which rolls them back.
  \<^item> The Hoare-style facts about it (\<open>keeps\<close>, \<open>hoare\<close>), collected in \<open>keeps_rules\<close>, and
    the equations that run it, collected in \<open>run_simps\<close>.
  \<^item> Association lists with the order of a JavaScript \<^verbatim>\<open>Map\<close> (insertion order; setting a
    present key keeps its place), and tables with the queries the repositories use.
\<close>

section \<open>Base types\<close>

type_synonym ms = int

type_synonym thread_id = string

type_synonym run_id = string

definition is_digit :: "char \<Rightarrow> bool" where
  "is_digit c \<longleftrightarrow> CHR ''0'' \<le> c \<and> c \<le> CHR ''9''"

text \<open>\<^verbatim>\<open>toLowerCase\<close>, for the letters of ASCII\<close>

definition lower_char :: "char \<Rightarrow> char" where
  "lower_char c = (if CHR ''A'' \<le> c \<and> c \<le> CHR ''Z'' then char_of (of_char c + 32 :: nat) else c)"

text \<open>The white space that \<^verbatim>\<open>String.prototype.trim\<close> removes, as far as it lies below 256.\<close>

definition js_space :: "char \<Rightarrow> bool" where
  "js_space c \<longleftrightarrow> (of_char c :: nat) \<in> {9, 10, 11, 12, 13, 32, 160}"

definition js_trim :: "string \<Rightarrow> string" where
  "js_trim s = rev (dropWhile js_space (rev (dropWhile js_space s)))"

lemma js_trim_blank: "js_trim s = [] \<longleftrightarrow> (\<forall>c \<in> set s. js_space c)"
proof -
  have "dropWhile js_space s = [] \<longleftrightarrow> (\<forall>c \<in> set s. js_space c)"
    by simp
  moreover have "(\<forall>c \<in> set (dropWhile js_space s). js_space c) \<longleftrightarrow> (\<forall>c \<in> set s. js_space c)"
    by (induction s) auto
  ultimately show ?thesis by (simp add: js_trim_def)
qed

text \<open>\<^verbatim>\<open>parts.join(separator)\<close>\<close>

fun join_with :: "string \<Rightarrow> string list \<Rightarrow> string" where
  "join_with sep [] = []"
| "join_with sep [p] = p"
| "join_with sep (p # ps) = p @ sep @ join_with sep ps"

text \<open>
  A parsed JSON value, or any other value of type \<^verbatim>\<open>unknown\<close> that a request carries:
  \<open>JUndefined\<close> is \<^verbatim>\<open>undefined\<close> (an absent property). Numbers are finite, hence rational.
\<close>

datatype json =
    JUndefined
  | JNull
  | JBool bool
  | JNum rat
  | JStr string
  | JArr "json list"
  | JObj "(string \<times> json) list"

section \<open>The error-state monad\<close>

named_theorems run_simps
named_theorems keeps_rules

type_synonym ('s, 'e, 'a) act = "'s \<Rightarrow> ('e + 'a) \<times> 's"

definition ret :: "'a \<Rightarrow> ('s, 'e, 'a) act" where
  "ret a = (\<lambda>s. (Inr a, s))"

definition throw :: "'e \<Rightarrow> ('s, 'e, 'a) act" where
  "throw e = (\<lambda>s. (Inl e, s))"

definition bindE :: "('s, 'e, 'a) act \<Rightarrow> ('a \<Rightarrow> ('s, 'e, 'b) act) \<Rightarrow> ('s, 'e, 'b) act" where
  "bindE m f = (\<lambda>s. case m s of (Inl e, s') \<Rightarrow> (Inl e, s') | (Inr a, s') \<Rightarrow> f a s')"

definition thenE :: "('s, 'e, unit) act \<Rightarrow> ('s, 'e, 'b) act \<Rightarrow> ('s, 'e, 'b) act" where
  "thenE m n = bindE m (\<lambda>_. n)"

definition gets :: "('s \<Rightarrow> 'a) \<Rightarrow> ('s, 'e, 'a) act" where
  "gets f = (\<lambda>s. (Inr (f s), s))"

definition modify :: "('s \<Rightarrow> 's) \<Rightarrow> ('s, 'e, unit) act" where
  "modify f = (\<lambda>s. (Inr (), f s))"

definition whenE :: "bool \<Rightarrow> ('s, 'e, unit) act \<Rightarrow> ('s, 'e, unit) act" where
  "whenE b m = (if b then m else ret ())"

definition guardE :: "bool \<Rightarrow> 'e \<Rightarrow> ('s, 'e, unit) act" where
  "guardE b e = (if b then ret () else throw e)"

definition liftE :: "'e + 'a \<Rightarrow> ('s, 'e, 'a) act" where
  "liftE r = (\<lambda>s. (r, s))"

definition someE :: "'e \<Rightarrow> 'a option \<Rightarrow> ('s, 'e, 'a) act" where
  "someE e x = (case x of None \<Rightarrow> throw e | Some a \<Rightarrow> ret a)"

text \<open>\<^verbatim>\<open>try { m } catch (e) { h(e) }\<close>\<close>

definition catchE :: "('s, 'e, 'a) act \<Rightarrow> ('e \<Rightarrow> ('s, 'f, 'a) act) \<Rightarrow> ('s, 'f, 'a) act" where
  "catchE m h = (\<lambda>s. case m s of (Inl e, s') \<Rightarrow> h e s' | (Inr a, s') \<Rightarrow> (Inr a, s'))"

text \<open>
  \<^verbatim>\<open>db.transaction(m)\<close>: an exception leaves the function with the state restored. \<open>restore\<close>
  puts the rolled-back part of the state before \<open>m\<close> into the state after it.
\<close>

definition transactE :: "('s \<Rightarrow> 's \<Rightarrow> 's) \<Rightarrow> ('s, 'e, 'a) act \<Rightarrow> ('s, 'e, 'a) act" where
  "transactE restore m = (\<lambda>s. case m s of (Inl e, s') \<Rightarrow> (Inl e, restore s s') | (Inr a, s') \<Rightarrow> (Inr a, s'))"

text \<open>\<^verbatim>\<open>for (const x of xs) m(x)\<close>\<close>

fun forE :: "'a list \<Rightarrow> ('a \<Rightarrow> ('s, 'e, unit) act) \<Rightarrow> ('s, 'e, unit) act" where
  "forE [] f = ret ()"
| "forE (x # xs) f = thenE (f x) (forE xs f)"

lemma run_ret [run_simps]: "ret a s = (Inr a, s)"
  by (simp add: ret_def)

lemma run_throw [run_simps]: "throw e s = (Inl e, s)"
  by (simp add: throw_def)

lemma run_bindE [run_simps]:
  "bindE m f s = (case m s of (Inl e, s') \<Rightarrow> (Inl e, s') | (Inr a, s') \<Rightarrow> f a s')"
  by (simp add: bindE_def)

lemma run_thenE [run_simps]:
  "thenE m n s = (case m s of (Inl e, s') \<Rightarrow> (Inl e, s') | (Inr _, s') \<Rightarrow> n s')"
  by (simp add: thenE_def bindE_def)

lemma run_gets [run_simps]: "gets f s = (Inr (f s), s)"
  by (simp add: gets_def)

lemma run_modify [run_simps]: "modify f s = (Inr (), f s)"
  by (simp add: modify_def)

lemma run_whenE [run_simps]: "whenE b m s = (if b then m s else (Inr (), s))"
  by (simp add: whenE_def ret_def)

lemma run_guardE [run_simps]: "guardE b e s = (if b then (Inr (), s) else (Inl e, s))"
  by (simp add: guardE_def ret_def throw_def)

lemma run_liftE [run_simps]: "liftE r s = (r, s)"
  by (simp add: liftE_def)

lemma run_someE [run_simps]:
  "someE e x s = (case x of None \<Rightarrow> (Inl e, s) | Some a \<Rightarrow> (Inr a, s))"
  by (simp add: someE_def ret_def throw_def split: option.splits)

lemma run_catchE [run_simps]:
  "catchE m h s = (case m s of (Inl e, s') \<Rightarrow> h e s' | (Inr a, s') \<Rightarrow> (Inr a, s'))"
  by (simp add: catchE_def)

lemma run_transactE [run_simps]:
  "transactE r m s = (case m s of (Inl e, s') \<Rightarrow> (Inl e, r s s') | (Inr a, s') \<Rightarrow> (Inr a, s'))"
  by (simp add: transactE_def)

text \<open>What a returned value says about the steps of a computation; collected in \<open>inr_simps\<close>.\<close>

named_theorems inr_simps

lemma bindE_Inr [inr_simps]:
  "bindE m f s = (Inr b, s') \<longleftrightarrow> (\<exists>a s1. m s = (Inr a, s1) \<and> f a s1 = (Inr b, s'))"
  by (auto simp: bindE_def split: prod.splits sum.splits)

lemma thenE_Inr [inr_simps]:
  "thenE m n s = (Inr b, s') \<longleftrightarrow> (\<exists>s1. m s = (Inr (), s1) \<and> n s1 = (Inr b, s'))"
  by (auto simp: thenE_def bindE_def split: prod.splits sum.splits)

lemma ret_Inr [inr_simps]: "ret a s = (Inr b, s') \<longleftrightarrow> b = a \<and> s' = s"
  by (auto simp: ret_def)

lemma throw_Inr [inr_simps]: "throw e s = (Inr b, s') \<longleftrightarrow> False"
  by (simp add: throw_def)

lemma gets_Inr [inr_simps]: "gets f s = (Inr b, s') \<longleftrightarrow> b = f s \<and> s' = s"
  by (auto simp: gets_def)

lemma guardE_Inr [inr_simps]: "guardE c e s = (Inr b, s') \<longleftrightarrow> c \<and> s' = s"
  by (auto simp: guardE_def ret_def throw_def)

lemma liftE_Inr [inr_simps]: "liftE r s = (Inr b, s') \<longleftrightarrow> r = Inr b \<and> s' = s"
  by (auto simp: liftE_def)

lemma someE_Inr [inr_simps]: "someE e x s = (Inr b, s') \<longleftrightarrow> x = Some b \<and> s' = s"
  by (auto simp: someE_def ret_def throw_def split: option.splits)

lemma whenE_Inr [inr_simps]:
  "whenE c m s = (Inr b, s') \<longleftrightarrow> (if c then m s = (Inr (), s') else s' = s)"
  by (auto simp: whenE_def ret_def)

section \<open>Invariants and outcomes of computations\<close>

text \<open>\<open>keeps P m\<close>: \<open>m\<close> keeps the state predicate \<open>P\<close>, whether it returns or raises.\<close>

definition keeps :: "('s \<Rightarrow> bool) \<Rightarrow> ('s, 'e, 'a) act \<Rightarrow> bool" where
  "keeps P m \<longleftrightarrow> (\<forall>s. P s \<longrightarrow> P (snd (m s)))"

text \<open>
  \<open>hoare P m Q E\<close>: from a state with \<open>P\<close>, a returned value and its state satisfy \<open>Q\<close>, a
  raised error and its state satisfy \<open>E\<close>.
\<close>

definition hoare ::
  "('s \<Rightarrow> bool) \<Rightarrow> ('s, 'e, 'a) act \<Rightarrow> ('a \<Rightarrow> 's \<Rightarrow> bool) \<Rightarrow> ('e \<Rightarrow> 's \<Rightarrow> bool) \<Rightarrow> bool" where
  "hoare P m Q E \<longleftrightarrow>
     (\<forall>s. P s \<longrightarrow> (case m s of (Inr a, s') \<Rightarrow> Q a s' | (Inl e, s') \<Rightarrow> E e s'))"

lemma keepsI: "(\<And>s. P s \<Longrightarrow> P (snd (m s))) \<Longrightarrow> keeps P m"
  by (simp add: keeps_def)

lemma keepsD: "keeps P m \<Longrightarrow> P s \<Longrightarrow> P (snd (m s))"
  by (simp add: keeps_def)

lemma keeps_result: "keeps P m \<Longrightarrow> P s \<Longrightarrow> m s = (r, s') \<Longrightarrow> P s'"
  by (metis keepsD snd_conv)

lemma keeps_ret [keeps_rules]: "keeps P (ret a)"
  by (simp add: keeps_def ret_def)

lemma keeps_throw [keeps_rules]: "keeps P (throw e)"
  by (simp add: keeps_def throw_def)

lemma keeps_gets [keeps_rules]: "keeps P (gets f)"
  by (simp add: keeps_def gets_def)

lemma keeps_liftE [keeps_rules]: "keeps P (liftE r)"
  by (simp add: keeps_def liftE_def)

lemma keeps_someE [keeps_rules]: "keeps P (someE e x)"
  by (simp add: keeps_def run_simps split: option.splits)

lemma keeps_guardE [keeps_rules]: "keeps P (guardE b e)"
  by (simp add: keeps_def run_simps)

lemma keeps_bindE [keeps_rules]:
  "keeps P m \<Longrightarrow> (\<And>a. keeps P (f a)) \<Longrightarrow> keeps P (bindE m f)"
  by (fastforce simp: keeps_def bindE_def split: prod.splits sum.splits)

lemma keeps_thenE [keeps_rules]: "keeps P m \<Longrightarrow> keeps P n \<Longrightarrow> keeps P (thenE m n)"
  by (simp add: thenE_def keeps_bindE)

lemma keeps_whenE [keeps_rules]: "(b \<Longrightarrow> keeps P m) \<Longrightarrow> keeps P (whenE b m)"
  by (simp add: whenE_def keeps_ret)

lemma keeps_catchE [keeps_rules]:
  "keeps P m \<Longrightarrow> (\<And>e. keeps P (h e)) \<Longrightarrow> keeps P (catchE m h)"
  by (fastforce simp: keeps_def catchE_def split: prod.splits sum.splits)

lemma keeps_forE [keeps_rules]:
  "(\<And>x. x \<in> set xs \<Longrightarrow> keeps P (f x)) \<Longrightarrow> keeps P (forE xs f)"
  by (induction xs) (auto intro: keeps_rules)

lemma keeps_if [keeps_rules]:
  "(b \<Longrightarrow> keeps P m) \<Longrightarrow> (\<not> b \<Longrightarrow> keeps P n) \<Longrightarrow> keeps P (if b then m else n)"
  by simp

lemma keeps_modify: "(\<And>s. P s \<Longrightarrow> P (f s)) \<Longrightarrow> keeps P (modify f)"
  by (simp add: keeps_def modify_def)

lemma keeps_transactE:
  "keeps P m \<Longrightarrow> (\<And>s s'. P s \<Longrightarrow> P s' \<Longrightarrow> P (restore s s')) \<Longrightarrow> keeps P (transactE restore m)"
  by (fastforce simp: keeps_def transactE_def split: prod.splits sum.splits)

lemma hoareI:
  "(\<And>s a s'. P s \<Longrightarrow> m s = (Inr a, s') \<Longrightarrow> Q a s') \<Longrightarrow>
   (\<And>s e s'. P s \<Longrightarrow> m s = (Inl e, s') \<Longrightarrow> E e s') \<Longrightarrow> hoare P m Q E"
  by (auto simp: hoare_def split: prod.splits sum.splits)

lemma hoareD: "hoare P m Q E \<Longrightarrow> P s \<Longrightarrow> m s = (Inr a, s') \<Longrightarrow> Q a s'"
  by (fastforce simp: hoare_def)

lemma hoareD_error: "hoare P m Q E \<Longrightarrow> P s \<Longrightarrow> m s = (Inl e, s') \<Longrightarrow> E e s'"
  by (fastforce simp: hoare_def)

lemma hoare_bindE:
  "hoare P m Q' E \<Longrightarrow> (\<And>a. hoare (Q' a) (f a) Q E) \<Longrightarrow> hoare P (bindE m f) Q E"
  by (fastforce simp: hoare_def bindE_def split: prod.splits sum.splits)

lemma hoare_thenE:
  "hoare P m (\<lambda>_. Q') E \<Longrightarrow> hoare Q' n Q E \<Longrightarrow> hoare P (thenE m n) Q E"
  unfolding thenE_def by (rule hoare_bindE)

lemma hoare_ret: "(\<And>s. P s \<Longrightarrow> Q a s) \<Longrightarrow> hoare P (ret a) Q E"
  by (simp add: hoare_def run_simps)

lemma hoare_throw: "(\<And>s. P s \<Longrightarrow> E e s) \<Longrightarrow> hoare P (throw e) Q E"
  by (simp add: hoare_def run_simps)

lemma hoare_gets: "(\<And>s. P s \<Longrightarrow> Q (f s) s) \<Longrightarrow> hoare P (gets f) Q E"
  by (simp add: hoare_def run_simps)

lemma hoare_modify: "(\<And>s. P s \<Longrightarrow> Q () (f s)) \<Longrightarrow> hoare P (modify f) Q E"
  by (simp add: hoare_def run_simps)

lemma hoare_whenE:
  "(b \<Longrightarrow> hoare P m Q E) \<Longrightarrow> (\<And>s. \<not> b \<Longrightarrow> P s \<Longrightarrow> Q () s) \<Longrightarrow> hoare P (whenE b m) Q E"
  by (cases b) (auto simp: hoare_def run_simps)

lemma hoare_weaken:
  "hoare P' m Q' E \<Longrightarrow> (\<And>s. P s \<Longrightarrow> P' s) \<Longrightarrow> (\<And>a s. Q' a s \<Longrightarrow> Q a s) \<Longrightarrow> hoare P m Q E"
  by (fastforce simp: hoare_def split: prod.splits sum.splits)

lemma hoare_pre: "hoare P' m Q E \<Longrightarrow> (\<And>s. P s \<Longrightarrow> P' s) \<Longrightarrow> hoare P m Q E"
  by (erule hoare_weaken)

lemma hoare_forE:
  "(\<And>x. x \<in> set xs \<Longrightarrow> hoare P (f x) (\<lambda>_. P) E) \<Longrightarrow> hoare P (forE xs f) (\<lambda>_. P) E"
  by (induction xs) (auto intro: hoare_ret hoare_thenE)

text \<open>A computation that reads the state first\<close>

lemma hoare_lambda: "(\<And>s. P s \<Longrightarrow> hoare (\<lambda>s'. s' = s) (m s) Q E) \<Longrightarrow> hoare P (\<lambda>s. m s s) Q E"
  by (simp add: hoare_def)

section \<open>Association lists ordered as a JavaScript Map\<close>

type_synonym ('k, 'v) assoc = "('k \<times> 'v) list"

text \<open>\<open>map_put\<close> is \<^verbatim>\<open>Map.prototype.set\<close>, \<open>map_del\<close> is \<^verbatim>\<open>delete\<close>, \<open>map_of\<close> is \<^verbatim>\<open>get\<close>.\<close>

fun map_put :: "'k \<Rightarrow> 'v \<Rightarrow> ('k, 'v) assoc \<Rightarrow> ('k, 'v) assoc" where
  "map_put k v [] = [(k, v)]"
| "map_put k v ((k', v') # m) = (if k' = k then (k, v) # m else (k', v') # map_put k v m)"

definition map_del :: "'k \<Rightarrow> ('k, 'v) assoc \<Rightarrow> ('k, 'v) assoc" where
  "map_del k m = filter (\<lambda>p. fst p \<noteq> k) m"

definition keys_distinct :: "('k, 'v) assoc \<Rightarrow> bool" where
  "keys_distinct m \<longleftrightarrow> distinct (map fst m)"

lemma map_of_put [simp]: "map_of (map_put k v m) = (map_of m)(k \<mapsto> v)"
  by (induction k v m rule: map_put.induct) auto

lemma map_of_del [simp]: "map_of (map_del k m) = (map_of m)(k := None)"
  by (induction m) (auto simp: map_del_def fun_eq_iff)

lemma keys_put [simp]: "fst ` set (map_put k v m) = insert k (fst ` set m)"
  by (induction k v m rule: map_put.induct) auto

lemma keys_del [simp]: "fst ` set (map_del k m) = fst ` set m - {k}"
  by (auto simp: map_del_def)

lemma set_map_put: "set (map_put k v m) \<subseteq> insert (k, v) (set m)"
  by (induction k v m rule: map_put.induct) auto

lemma set_map_del: "set (map_del k m) \<subseteq> set m"
  by (auto simp: map_del_def)

lemma map_of_absent: "map_of m k = None \<longleftrightarrow> k \<notin> fst ` set m"
  by (induction m) auto

lemma map_del_absent [simp]: "k \<notin> fst ` set m \<Longrightarrow> map_del k m = m"
  by (induction m) (auto simp: map_del_def)

lemma keys_distinct_Nil [simp]: "keys_distinct []"
  by (simp add: keys_distinct_def)

lemma keys_distinct_put [simp]: "keys_distinct m \<Longrightarrow> keys_distinct (map_put k v m)"
proof (induction k v m rule: map_put.induct)
  case (2 k v k' v' m)
  then show ?case by (auto simp: keys_distinct_def simp flip: set_map) (simp add: image_iff)
qed (simp add: keys_distinct_def)

lemma keys_distinct_del [simp]: "keys_distinct m \<Longrightarrow> keys_distinct (map_del k m)"
  by (induction m) (auto simp: keys_distinct_def map_del_def)

lemma keys_distinct_get: "keys_distinct m \<Longrightarrow> map_of m k = Some v \<longleftrightarrow> (k, v) \<in> set m"
  by (simp add: keys_distinct_def map_of_eq_Some_iff)

section \<open>Sets and queues kept as lists\<close>

text \<open>\<^verbatim>\<open>Set.prototype.add\<close> and \<^verbatim>\<open>delete\<close> on an insertion-ordered set.\<close>

definition set_add :: "'a \<Rightarrow> 'a list \<Rightarrow> 'a list" where
  "set_add x xs = (if x \<in> set xs then xs else xs @ [x])"

lemma set_set_add [simp]: "set (set_add x xs) = insert x (set xs)"
  by (auto simp: set_add_def)

lemma distinct_set_add [simp]: "distinct xs \<Longrightarrow> distinct (set_add x xs)"
  by (auto simp: set_add_def)

lemma set_add_nonempty [simp]: "set_add x xs \<noteq> []"
  by (auto simp: set_add_def)

section \<open>Tables\<close>

text \<open>
  A table is the list of its rows in rowid order. \<open>update_where\<close> is \<^verbatim>\<open>UPDATE ... WHERE\<close>;
  it also returns the number of changed rows, \<^verbatim>\<open>changes\<close> of better-sqlite3. \<open>first_where\<close>
  is \<^verbatim>\<open>get\<close> of a statement with no order, used on keys only.
\<close>

definition update_where :: "('r \<Rightarrow> bool) \<Rightarrow> ('r \<Rightarrow> 'r) \<Rightarrow> 'r list \<Rightarrow> 'r list" where
  "update_where p f t = map (\<lambda>r. if p r then f r else r) t"

definition changes_where :: "('r \<Rightarrow> bool) \<Rightarrow> 'r list \<Rightarrow> nat" where
  "changes_where p t = length (filter p t)"

definition first_where :: "('r \<Rightarrow> bool) \<Rightarrow> 'r list \<Rightarrow> 'r option" where
  "first_where p t = find p t"

text \<open>\<^verbatim>\<open>ORDER BY key ASC\<close> and \<^verbatim>\<open>ORDER BY key DESC\<close>.\<close>

definition order_asc :: "('r \<Rightarrow> 'k :: linorder) \<Rightarrow> 'r list \<Rightarrow> 'r list" where
  "order_asc k t = sort_key k t"

definition order_desc :: "('r \<Rightarrow> 'k :: linorder) \<Rightarrow> 'r list \<Rightarrow> 'r list" where
  "order_desc k t = rev (sort_key k t)"

lemma set_order [simp]: "set (order_asc k t) = set t" "set (order_desc k t) = set t"
  by (simp_all add: order_asc_def order_desc_def)

lemma length_order [simp]: "length (order_asc k t) = length t" "length (order_desc k t) = length t"
  by (simp_all add: order_asc_def order_desc_def)

lemma set_update_where: "set (update_where p f t) = f ` {r \<in> set t. p r} \<union> {r \<in> set t. \<not> p r}"
  by (auto simp: update_where_def)

lemma length_update_where [simp]: "length (update_where p f t) = length t"
  by (simp add: update_where_def)

lemma map_update_where:
  "(\<And>r. p r \<Longrightarrow> g (f r) = g r) \<Longrightarrow> map g (update_where p f t) = map g t"
  by (simp add: update_where_def)

lemma update_where_none: "(\<And>r. r \<in> set t \<Longrightarrow> \<not> p r) \<Longrightarrow> update_where p f t = t"
  by (simp add: update_where_def map_idI)

lemma first_where_Some: "first_where p t = Some r \<Longrightarrow> r \<in> set t \<and> p r"
  by (auto simp: first_where_def find_Some_iff)

lemma first_where_None: "first_where p t = None \<longleftrightarrow> (\<forall>r \<in> set t. \<not> p r)"
  by (auto simp: first_where_def find_None_iff)

lemma first_where_append:
  "first_where p (xs @ ys) = (case first_where p xs of None \<Rightarrow> first_where p ys | Some r \<Rightarrow> Some r)"
  by (induction xs) (auto simp: first_where_def)

text \<open>Looking a row up by a key column that no two rows share.\<close>

lemma first_where_key:
  assumes "distinct (map k t)" and "r \<in> set t" and "p r" and "\<And>r'. p r' \<Longrightarrow> k r' = k r"
  shows "first_where p t = Some r"
  using assms(1,2)
proof (induction t)
  case Nil
  then show ?case by simp
next
  case (Cons x t)
  show ?case
  proof (cases "p x")
    case True
    from assms(4) [OF True] Cons.prems have "x = r" by (force simp: image_iff)
    with True show ?thesis by (simp add: first_where_def)
  next
    case False
    with assms(3) have "r \<noteq> x" by blast
    with Cons False show ?thesis by (simp add: first_where_def)
  qed
qed

lemma first_where_update:
  assumes "\<And>r. q r \<Longrightarrow> p (f r) = p r"
  shows "first_where p (update_where q f t) =
    map_option (\<lambda>r. if q r then f r else r) (first_where p t)"
  using assms by (induction t) (auto simp: first_where_def update_where_def)

end
