(* ===== verification/Storage.thy ===== *)
theory Storage
  imports ClaweePrelude
begin

text \<open>
  The SQLite database of the daemon and the environment it runs in.

  The rows are those of \<^verbatim>\<open>storage/migrations.ts\<close>, a record per table, a table the list of its
  rows in rowid order. \<open>db_ok\<close> collects the constraints that the migrations declare on the
  modelled tables (primary keys, unique indexes, foreign keys); a statement whose result would
  break one raises \<open>SqliteConstraint\<close> and changes nothing. The run time state \<open>rt\<close> holds the
  database, the file system, and the two sources the daemon reads: the clock and the random
  ids. Both are functions of the number of readings so far, about which nothing is assumed.
  \<open>CURRENT_TIMESTAMP\<close> is a reading with its milliseconds dropped.

  \<open>env\<close> holds what the code calls and this development does not define: \<^verbatim>\<open>node:path\<close>,
  \<^verbatim>\<open>node:fs\<close>, \<^verbatim>\<open>node:crypto\<close>, and the title shortener \<^verbatim>\<open>threads/conversation-title.ts\<close>, whose
  rules are about Chinese text.
\<close>

section \<open>Column types\<close>

datatype sandbox_mode = ReadOnly | WorkspaceWrite | DangerFullAccess

datatype project_sandbox = FollowGlobal | Sandboxed sandbox_mode

datatype workspace_mode = Managed | External

datatype reasoning_effort = RDefault | RLow | RMedium | RHigh | RXhigh

datatype row_status = Active | Archived

datatype thread_origin = ClaweeCreated | CodexDiscovered

datatype thread_purpose = Conversation | KnowledgeConversation | ScheduleDraft | ScheduleTask

datatype public_status = PQueued | PRunning | PSucceeded | PFailed | PCanceled

datatype internal_status =
    ICreated | IQueued | ISpawning | IRunning | ICanceling
  | ISucceeded | IFailed | ICanceledRun | IOrphaned

datatype queue_state = QNone | QQueued | QStarted

datatype submission_mode = Enqueue | InterruptAndEnqueue

datatype resume_mode = Independent | NewThread | ResumeThread

datatype termination_reason =
    TCompleted | TUserCanceled | TTimeout | TSpawnTimeout | TInactivityTimeout | TSpawnFailed
  | TCodexExitNonZero | TStreamError | TDaemonRestart | TProcessKillFailed

datatype run_creator = ByApi | BySchedule

datatype concurrency_policy = CpSkip | CpQueue | CpParallel

datatype schedule_last_status = LsRun public_status | LsSkipped

datatype schedule_operation =
    OpCreate | OpUpdate | OpDelete | OpBindingRepair | OpBindingRepairFailed | OpRunNow
  | OpTimerTrigger | OpSkipMisfire | OpSkipConcurrency | OpQueueTrigger | OpRunQueued

datatype operation_status = OsSucceeded | OsFailed | OsSkipped | OsQueued

datatype actor_type = AtUser | AtAgent | AtTimer | AtMigration

section \<open>Rows\<close>

record project_row =
  pj_id :: string
  pj_name :: string
  pj_cwd :: string
  pj_canonicalCwd :: "string option"
  pj_profile :: string
  pj_model :: "string option"
  pj_reasoning :: "reasoning_effort option"
  pj_sandbox :: project_sandbox
  pj_status :: row_status
  pj_sortOrder :: int
  pj_createdAt :: ms
  pj_updatedAt :: ms
  pj_archivedAt :: "ms option"

record thread_row =
  th_id :: thread_id
  th_title :: "string option"
  th_codexThreadId :: "string option"
  th_projectId :: "string option"
  th_enterpriseSubjectId :: "string option"
  th_origin :: thread_origin
  th_cwd :: string
  th_canonicalCwd :: string
  th_workspaceMode :: workspace_mode
  th_profile :: string
  th_sandbox :: sandbox_mode
  th_model :: "string option"
  th_reasoning :: "reasoning_effort option"
  th_status :: row_status
  th_purpose :: thread_purpose
  th_createdAt :: ms
  th_updatedAt :: ms
  th_archivedAt :: "ms option"
  th_pinnedAt :: "ms option"

record schedule_row =
  sc_id :: string
  sc_threadId :: "thread_id option"
  sc_name :: string
  sc_cron :: string
  sc_timezone :: string
  sc_enabled :: bool
  sc_prompt :: string
  sc_promptHash :: string
  sc_promptPreviewRedacted :: string
  sc_profile :: string
  sc_cwd :: string
  sc_canonicalCwd :: string
  sc_model :: "string option"
  sc_reasoning :: "reasoning_effort option"
  sc_sandbox :: sandbox_mode
  sc_timeoutMs :: "int option"
  sc_concurrencyPolicy :: concurrency_policy
  sc_nextRunAt :: "ms option"
  sc_lastRunAt :: "ms option"
  sc_lastRunId :: "run_id option"
  sc_lastStatus :: "schedule_last_status option"
  sc_pendingTrigger :: bool
  sc_createdAt :: ms
  sc_updatedAt :: ms
  sc_deletedAt :: "ms option"

record operation_row =
  so_id :: string
  so_scheduleId :: string
  so_operation :: schedule_operation
  so_status :: operation_status
  so_runId :: "run_id option"
  so_actorType :: actor_type
  so_actorRunId :: "run_id option"
  so_errorCode :: "string option"
  so_errorMessage :: "string option"
  so_createdAt :: ms

record run_row =
  rn_id :: run_id
  rn_threadId :: "thread_id option"
  rn_codexThreadId :: "string option"
  rn_resumeMode :: "resume_mode option"
  rn_queueState :: queue_state
  rn_submissionMode :: submission_mode
  rn_publicStatus :: public_status
  rn_internalStatus :: internal_status
  rn_createdBy :: run_creator
  rn_sourceId :: "string option"
  rn_publicPrompt :: "string option"
  rn_triggeredAt :: "ms option"
  rn_profile :: string
  rn_cwd :: string
  rn_model :: "string option"
  rn_reasoning :: "reasoning_effort option"
  rn_sandbox :: sandbox_mode
  rn_timeoutMs :: "int option"
  rn_terminationReason :: "termination_reason option"
  rn_exitCode :: "int option"
  rn_signal :: "string option"
  rn_startedAt :: "ms option"
  rn_endedAt :: "ms option"
  rn_createdAt :: ms
  rn_updatedAt :: ms
  rn_errorCode :: "string option"
  rn_errorMessage :: "string option"

text \<open>
  Events of a run. The payload is the value that \<^verbatim>\<open>JSON.stringify\<close> writes and \<^verbatim>\<open>JSON.parse\<close>
  reads back.
\<close>

record event_row =
  ev_id :: string
  ev_runId :: run_id
  ev_seq :: nat
  ev_type :: string
  ev_payload :: json
  ev_createdAt :: ms

text \<open>The value whose JSON text is \<^verbatim>\<open>project_migrations.result_json\<close>\<close>

record migration_result =
  mr_projectIdMap :: "(string, string) assoc"
  mr_assignedThreadIds :: "thread_id list"
  mr_unassignedThreadIds :: "thread_id list"

text \<open>
  Of the other tables only the columns that deleting a thread looks at: the thread and the run
  of the rows of \<^verbatim>\<open>notification_outbox\<close> and \<^verbatim>\<open>attachments\<close>, the thread of the
  \<^verbatim>\<open>conversation_summaries\<close>, scope and scope key of the \<^verbatim>\<open>memories\<close>.
\<close>

record db =
  db_projects :: "project_row list"
  db_migrations :: "(string \<times> string \<times> migration_result) list" \<comment> \<open>key, request hash, result\<close>
  db_threads :: "thread_row list"
  db_runs :: "run_row list"
  db_runEvents :: "event_row list"
  db_schedules :: "schedule_row list"
  db_operations :: "operation_row list"
  db_outbox :: "(thread_id \<times> run_id) list"
  db_attachments :: "(thread_id option \<times> run_id option) list"
  db_summaries :: "thread_id list"
  db_memories :: "(string \<times> string option) list"

section \<open>Errors\<close>

datatype constraint_kind = CkPrimaryKey | CkUnique | CkForeignKey

text \<open>
  The exceptions: \<open>PlainError\<close> is \<^verbatim>\<open>new Error(message)\<close>, the classes with a code carry it first.
  The messages of \<open>ProjectManagerError\<close>, partly Chinese text, are left out.
\<close>

datatype err =
    PlainError string
  | ThreadManagerError string string
  | ProjectManagerError string
  | SchedulerError string string
  | SqliteConstraint constraint_kind string
  | NodeError string string

text \<open>\<^verbatim>\<open>error.message\<close>; that of a \<open>ProjectManagerError\<close> is not modelled and stands as its code.\<close>

fun err_message :: "err \<Rightarrow> string" where
  "err_message (PlainError m) = m"
| "err_message (ThreadManagerError c m) = m"
| "err_message (ProjectManagerError c) = c"
| "err_message (SchedulerError c m) = m"
| "err_message (SqliteConstraint k m) = m"
| "err_message (NodeError c m) = m"

text \<open>\<^verbatim>\<open>error.code\<close>, where it is a string\<close>

fun err_code :: "err \<Rightarrow> string option" where
  "err_code (PlainError m) = None"
| "err_code (ThreadManagerError c m) = Some c"
| "err_code (ProjectManagerError c) = Some c"
| "err_code (SchedulerError c m) = Some c"
| "err_code (SqliteConstraint CkPrimaryKey m) = Some ''SQLITE_CONSTRAINT_PRIMARYKEY''"
| "err_code (SqliteConstraint CkUnique m) = Some ''SQLITE_CONSTRAINT_UNIQUE''"
| "err_code (SqliteConstraint CkForeignKey m) = Some ''SQLITE_CONSTRAINT_FOREIGNKEY''"
| "err_code (NodeError c m) = Some c"

section \<open>Constraints\<close>

definition somes :: "'a option list \<Rightarrow> 'a list" where
  "somes xs = map the (filter (\<lambda>x. x \<noteq> None) xs)"

lemma set_somes: "set (somes xs) = {v. Some v \<in> set xs}"
  by (auto simp: somes_def image_iff) force

lemma somes_simps [simp]:
  "somes [] = []" "somes (None # xs) = somes xs" "somes (Some a # xs) = a # somes xs"
  "somes (xs @ ys) = somes xs @ somes ys"
  by (simp_all add: somes_def)

definition live_schedules :: "db \<Rightarrow> schedule_row list" where
  "live_schedules d = filter (\<lambda>s. sc_deletedAt s = None) (db_schedules d)"

text \<open>
  The first constraint that a database breaks, as the error SQLite raises: the primary keys,
  the unique indexes \<^verbatim>\<open>idx_projects_active_canonical_cwd\<close>,
  \<^verbatim>\<open>idx_threads_unique_codex_thread_id\<close>, \<^verbatim>\<open>idx_schedules_thread_id\<close> and
  \<^verbatim>\<open>UNIQUE(run_id, seq)\<close>, and the foreign keys.
\<close>

definition db_check :: "db \<Rightarrow> err option" where
  "db_check d =
     (if \<not> distinct (map pj_id (db_projects d)) then
        Some (SqliteConstraint CkPrimaryKey ''UNIQUE constraint failed: projects.id'')
      else if \<not> distinct (map fst (db_migrations d)) then
        Some (SqliteConstraint CkPrimaryKey ''UNIQUE constraint failed: project_migrations.migration_key'')
      else if \<not> distinct (map th_id (db_threads d)) then
        Some (SqliteConstraint CkPrimaryKey ''UNIQUE constraint failed: threads.id'')
      else if \<not> distinct (map rn_id (db_runs d)) then
        Some (SqliteConstraint CkPrimaryKey ''UNIQUE constraint failed: runs.id'')
      else if \<not> distinct (map ev_id (db_runEvents d)) then
        Some (SqliteConstraint CkPrimaryKey ''UNIQUE constraint failed: run_events.id'')
      else if \<not> distinct (map sc_id (db_schedules d)) then
        Some (SqliteConstraint CkPrimaryKey ''UNIQUE constraint failed: schedules.id'')
      else if \<not> distinct (map so_id (db_operations d)) then
        Some (SqliteConstraint CkPrimaryKey ''UNIQUE constraint failed: schedule_operations.id'')
      else if \<not> distinct (somes (map pj_canonicalCwd (filter (\<lambda>p. pj_status p = Active) (db_projects d)))) then
        Some (SqliteConstraint CkUnique ''UNIQUE constraint failed: projects.canonical_cwd'')
      else if \<not> distinct (somes (map th_codexThreadId (db_threads d))) then
        Some (SqliteConstraint CkUnique ''UNIQUE constraint failed: threads.codex_thread_id'')
      else if \<not> distinct (somes (map sc_threadId (live_schedules d))) then
        Some (SqliteConstraint CkUnique ''UNIQUE constraint failed: schedules.thread_id'')
      else if \<not> distinct (map (\<lambda>e. (ev_runId e, ev_seq e)) (db_runEvents d)) then
        Some (SqliteConstraint CkUnique ''UNIQUE constraint failed: run_events.run_id, run_events.seq'')
      else if \<not> list_all (\<lambda>t. th_projectId t = None \<or> the (th_projectId t) \<in> pj_id ` set (db_projects d)) (db_threads d)
            \<or> \<not> list_all (\<lambda>e. ev_runId e \<in> rn_id ` set (db_runs d)) (db_runEvents d)
            \<or> \<not> list_all (\<lambda>so. so_scheduleId so \<in> sc_id ` set (db_schedules d)) (db_operations d) then
        Some (SqliteConstraint CkForeignKey ''FOREIGN KEY constraint failed'')
      else None)"

definition db_ok :: "db \<Rightarrow> bool" where
  "db_ok d \<longleftrightarrow> db_check d = None"

text \<open>The database that the migrations leave in a new file.\<close>

definition empty_db :: db where
  "empty_db =
     \<lparr>db_projects = [], db_migrations = [], db_threads = [], db_runs = [], db_runEvents = [],
      db_schedules = [], db_operations = [], db_outbox = [], db_attachments = [], db_summaries = [],
      db_memories = []\<rparr>"

section \<open>Environment and state\<close>

text \<open>
  \<open>'fs\<close> is the file system, opaque: the code only queries it. The functions of \<^verbatim>\<open>node:fs\<close> may
  raise (\<open>Inl\<close>). \<open>env_title\<close> is \<^verbatim>\<open>createConversationTitle\<close>; the two names are the Chinese
  texts the project manager falls back to.
\<close>

record 'fs env =
  env_homeDir :: string
  env_processCwd :: string
  env_dataDir :: string
  env_join :: "string \<Rightarrow> string \<Rightarrow> string"
  env_resolve :: "string list \<Rightarrow> string"
  env_basename :: "string \<Rightarrow> string"
  env_existsSync :: "'fs \<Rightarrow> string \<Rightarrow> bool"
  env_isDirectory :: "'fs \<Rightarrow> string \<Rightarrow> err + bool" \<comment> \<open>\<^verbatim>\<open>statSync(p).isDirectory()\<close>\<close>
  env_realpathSync :: "'fs \<Rightarrow> string \<Rightarrow> err + string"
  env_mkdirSync :: "bool \<Rightarrow> string \<Rightarrow> 'fs \<Rightarrow> err + 'fs" \<comment> \<open>the flag is \<^verbatim>\<open>recursive\<close>\<close>
  env_rmdirSync :: "string \<Rightarrow> 'fs \<Rightarrow> err + 'fs"
  env_sha256 :: "string \<Rightarrow> string" \<comment> \<open>hex digest\<close>
  env_title :: "string \<Rightarrow> string"
  env_defaultProjectName :: string
  env_unnamedProject :: string

record 'fs rt =
  rt_db :: db
  rt_fs :: 'fs
  rt_now :: "nat \<Rightarrow> ms"
  rt_tick :: nat
  rt_ids :: "nat \<Rightarrow> string"
  rt_nextId :: nat

type_synonym ('fs, 'x, 'a) io = "(('fs, 'x) rt_scheme, err, 'a) act"

text \<open>\<^verbatim>\<open>new Date()\<close>, \<^verbatim>\<open>CURRENT_TIMESTAMP\<close> and \<^verbatim>\<open>nanoid()\<close>\<close>

definition date_now :: "('fs, 'x, ms) io" where
  "date_now = (\<lambda>s. (Inr (rt_now s (rt_tick s)), s\<lparr>rt_tick := Suc (rt_tick s)\<rparr>))"

definition sql_now :: "('fs, 'x, ms) io" where
  "sql_now = bindE date_now (\<lambda>t. ret (t div 1000 * 1000))"

definition nanoid :: "('fs, 'x, string) io" where
  "nanoid = (\<lambda>s. (Inr (rt_ids s (rt_nextId s)), s\<lparr>rt_nextId := Suc (rt_nextId s)\<rparr>))"

text \<open>A statement: it has effect unless the result breaks a constraint.\<close>

definition write_db :: "(db \<Rightarrow> db) \<Rightarrow> ('fs, 'x, unit) io" where
  "write_db f = (\<lambda>s.
     (case db_check (f (rt_db s)) of
        Some e \<Rightarrow> (Inl e, s)
      | None \<Rightarrow> (Inr (), s\<lparr>rt_db := f (rt_db s)\<rparr>)))"

definition read_db :: "(db \<Rightarrow> 'a) \<Rightarrow> ('fs, 'x, 'a) io" where
  "read_db q = gets (\<lambda>s. q (rt_db s))"

definition db_transaction :: "('fs, 'x, 'a) io \<Rightarrow> ('fs, 'x, 'a) io" where
  "db_transaction m = transactE (\<lambda>s s'. s'\<lparr>rt_db := rt_db s\<rparr>) m"

text \<open>A call into \<^verbatim>\<open>node:fs\<close> that changes the file system, and one that reads it.\<close>

definition write_fs :: "('fs \<Rightarrow> err + 'fs) \<Rightarrow> ('fs, 'x, unit) io" where
  "write_fs f = (\<lambda>s.
     (case f (rt_fs s) of
        Inl e \<Rightarrow> (Inl e, s)
      | Inr fs \<Rightarrow> (Inr (), s\<lparr>rt_fs := fs\<rparr>)))"

definition read_fs :: "('fs \<Rightarrow> err + 'a) \<Rightarrow> ('fs, 'x, 'a) io" where
  "read_fs f = (\<lambda>s. (f (rt_fs s), s))"

text \<open>\<^verbatim>\<open>expandHome\<close> of \<^verbatim>\<open>platform/paths.ts\<close>\<close>

definition expandHome :: "('fs, 'e) env_scheme \<Rightarrow> string \<Rightarrow> string" where
  "expandHome E input =
     (if input = ''~'' then env_homeDir E
      else if take 2 input = ''~/'' then env_join E (env_homeDir E) (drop 2 input)
      else input)"

text \<open>
  A concrete environment and run time state, for the instances of the theorems: the file system
  is the list of its directories, every path is its own canonical path, the clock advances a
  second at each reading, ids are counted in unary.
\<close>

definition sample_env :: "string list env" where
  "sample_env =
     \<lparr>env_homeDir = ''/home'', env_processCwd = ''/work'', env_dataDir = ''/data'',
      env_join = (\<lambda>a b. a @ ''/'' @ b), env_resolve = (\<lambda>ps. concat (map (\<lambda>p. CHR ''/'' # dropWhile (\<lambda>c. c = CHR ''/'') p) ps)), env_basename = (\<lambda>p. p),
      env_existsSync = (\<lambda>fs p. List.member fs p),
      env_isDirectory = (\<lambda>fs p. if List.member fs p then Inr True else Inl (NodeError ''ENOENT'' p)),
      env_realpathSync = (\<lambda>fs p. if List.member fs p then Inr p else Inl (NodeError ''ENOENT'' p)),
      env_mkdirSync = (\<lambda>_ p fs. Inr (p # fs)), env_rmdirSync = (\<lambda>p fs. Inr (removeAll p fs)),
      env_sha256 = (\<lambda>s. s), env_title = (\<lambda>s. s), env_defaultProjectName = ''Default'',
      env_unnamedProject = ''Project''\<rparr>"

definition sample_rt :: "db \<Rightarrow> string list rt" where
  "sample_rt d =
     \<lparr>rt_db = d, rt_fs = [''/a'', ''/b'', ''/work''], rt_now = (\<lambda>n. 1000 * int n), rt_tick = 0,
      rt_ids = (\<lambda>n. replicate n CHR ''x''), rt_nextId = 0\<rparr>"

section \<open>Laws of the statements\<close>

abbreviation ok_state :: "('fs, 'x) rt_scheme \<Rightarrow> bool" where
  "ok_state s \<equiv> db_ok (rt_db s)"

lemma run_date_now [run_simps]:
  "date_now s = (Inr (rt_now s (rt_tick s)), s\<lparr>rt_tick := Suc (rt_tick s)\<rparr>)"
  by (simp add: date_now_def)

lemma run_sql_now [run_simps]:
  "sql_now s = (Inr (rt_now s (rt_tick s) div 1000 * 1000), s\<lparr>rt_tick := Suc (rt_tick s)\<rparr>)"
  by (simp add: sql_now_def run_simps)

lemma run_nanoid [run_simps]:
  "nanoid s = (Inr (rt_ids s (rt_nextId s)), s\<lparr>rt_nextId := Suc (rt_nextId s)\<rparr>)"
  by (simp add: nanoid_def)

lemma run_read_db [run_simps]: "read_db q s = (Inr (q (rt_db s)), s)"
  by (simp add: read_db_def run_simps)

lemma run_write_db [run_simps]:
  "write_db f s =
     (case db_check (f (rt_db s)) of Some e \<Rightarrow> (Inl e, s) | None \<Rightarrow> (Inr (), s\<lparr>rt_db := f (rt_db s)\<rparr>))"
  by (simp add: write_db_def)

lemma run_read_fs [run_simps]: "read_fs f s = (f (rt_fs s), s)"
  by (simp add: read_fs_def)

lemma run_write_fs [run_simps]:
  "write_fs f s = (case f (rt_fs s) of Inl e \<Rightarrow> (Inl e, s) | Inr fs \<Rightarrow> (Inr (), s\<lparr>rt_fs := fs\<rparr>))"
  by (simp add: write_fs_def)

lemma date_now_Inr [inr_simps]:
  "date_now s = (Inr b, s') \<longleftrightarrow> b = rt_now s (rt_tick s) \<and> s' = s\<lparr>rt_tick := Suc (rt_tick s)\<rparr>"
  by (auto simp: run_simps)

lemma nanoid_Inr [inr_simps]:
  "nanoid s = (Inr b, s') \<longleftrightarrow> b = rt_ids s (rt_nextId s) \<and> s' = s\<lparr>rt_nextId := Suc (rt_nextId s)\<rparr>"
  by (auto simp: run_simps)

lemma read_db_Inr [inr_simps]: "read_db q s = (Inr b, s') \<longleftrightarrow> b = q (rt_db s) \<and> s' = s"
  by (auto simp: run_simps)

lemma read_fs_Inr [inr_simps]: "read_fs f s = (Inr b, s') \<longleftrightarrow> f (rt_fs s) = Inr b \<and> s' = s"
  by (auto simp: run_simps)

lemma write_db_Inr [inr_simps]:
  "write_db f s = (Inr b, s') \<longleftrightarrow> db_ok (f (rt_db s)) \<and> s' = s\<lparr>rt_db := f (rt_db s)\<rparr>"
  by (auto simp: run_simps db_ok_def split: option.splits)

text \<open>
  \<open>db_keeps P m\<close>: \<open>m\<close> keeps the property \<open>P\<close> of the database. A transaction keeps what its body
  keeps.
\<close>

definition db_keeps :: "(db \<Rightarrow> bool) \<Rightarrow> ('fs, 'x, 'a) io \<Rightarrow> bool" where
  "db_keeps P m \<longleftrightarrow> keeps (\<lambda>s. P (rt_db s)) m"

lemma db_keepsD: "db_keeps P m \<Longrightarrow> P (rt_db s) \<Longrightarrow> P (rt_db (snd (m s)))"
  by (simp add: db_keeps_def keeps_def)

lemma db_keeps_simple [keeps_rules]:
  "db_keeps P (ret a)" "db_keeps P (throw e)" "db_keeps P (gets f)" "db_keeps P (liftE r)"
  "db_keeps P (someE e x)" "db_keeps P (guardE b e)"
  by (simp_all add: db_keeps_def keeps_rules)

lemma db_keeps_readers [keeps_rules]:
  "db_keeps P date_now" "db_keeps P sql_now" "db_keeps P nanoid" "db_keeps P (read_db q)"
  "db_keeps P (read_fs g)" "db_keeps P (write_fs h)"
  by (simp_all add: db_keeps_def keeps_def run_simps split: sum.splits)

lemma db_keeps_bindE [keeps_rules]:
  "db_keeps P m \<Longrightarrow> (\<And>a. db_keeps P (f a)) \<Longrightarrow> db_keeps P (bindE m f)"
  by (simp add: db_keeps_def keeps_rules)

lemma db_keeps_thenE [keeps_rules]: "db_keeps P m \<Longrightarrow> db_keeps P n \<Longrightarrow> db_keeps P (thenE m n)"
  by (simp add: db_keeps_def keeps_rules)

lemma db_keeps_whenE [keeps_rules]: "(b \<Longrightarrow> db_keeps P m) \<Longrightarrow> db_keeps P (whenE b m)"
  by (simp add: db_keeps_def keeps_rules)

lemma db_keeps_catchE [keeps_rules]:
  "db_keeps P m \<Longrightarrow> (\<And>e. db_keeps P (h e)) \<Longrightarrow> db_keeps P (catchE m h)"
  by (simp add: db_keeps_def keeps_rules)

lemma db_keeps_forE [keeps_rules]:
  "(\<And>x. x \<in> set xs \<Longrightarrow> db_keeps P (f x)) \<Longrightarrow> db_keeps P (forE xs f)"
  by (simp add: db_keeps_def keeps_rules)

lemma db_keeps_if [keeps_rules]:
  "(b \<Longrightarrow> db_keeps P m) \<Longrightarrow> (\<not> b \<Longrightarrow> db_keeps P n) \<Longrightarrow> db_keeps P (if b then m else n)"
  by simp

lemma db_keeps_option [keeps_rules]:
  "(x = None \<Longrightarrow> db_keeps P m) \<Longrightarrow> (\<And>a. x = Some a \<Longrightarrow> db_keeps P (n a)) \<Longrightarrow>
   db_keeps P (case x of None \<Rightarrow> m | Some a \<Rightarrow> n a)"
  by (cases x) auto

lemma db_keeps_transaction [keeps_rules]: "db_keeps P m \<Longrightarrow> db_keeps P (db_transaction m)"
  by (simp add: db_keeps_def db_transaction_def keeps_transactE)

lemma db_keeps_conj: "db_keeps P m \<Longrightarrow> db_keeps Q m \<Longrightarrow> db_keeps (\<lambda>d. P d \<and> Q d) m"
  by (simp add: db_keeps_def keeps_def)

lemma db_keeps_write_ok: "(\<And>d. P d \<Longrightarrow> db_ok (f d) \<Longrightarrow> P (f d)) \<Longrightarrow> db_keeps P (write_db f)"
  by (simp add: db_keeps_def keeps_def run_simps db_ok_def split: option.splits)

lemma db_keeps_write: "(\<And>d. P d \<Longrightarrow> P (f d)) \<Longrightarrow> db_keeps P (write_db f)"
  by (simp add: db_keeps_def keeps_def run_simps split: option.splits)

text \<open>No statement breaks a constraint.\<close>

lemma db_ok_write [keeps_rules]: "db_keeps db_ok (write_db f)"
  by (simp add: db_keeps_def keeps_def run_simps db_ok_def split: option.splits)

text \<open>A transaction that raises leaves the database as it was.\<close>

lemma db_transaction_error:
  "db_transaction m s = (Inl e, s') \<Longrightarrow> rt_db s' = rt_db s"
  by (auto simp: db_transaction_def transactE_def split: prod.splits sum.splits)

lemma db_transaction_ok:
  "db_transaction m s = (Inr a, s') \<longleftrightarrow> m s = (Inr a, s')"
  by (auto simp: db_transaction_def transactE_def split: prod.splits sum.splits)

lemma db_transaction_keeps:
  "(\<And>s a s'. P (rt_db s) \<Longrightarrow> m s = (Inr a, s') \<Longrightarrow> P (rt_db s')) \<Longrightarrow> db_keeps P (db_transaction m)"
  by (auto simp: db_keeps_def keeps_def db_transaction_def transactE_def split: prod.splits sum.splits)

text \<open>What the constraints give.\<close>

lemma db_ok_iff:
  "db_ok d \<longleftrightarrow>
     distinct (map pj_id (db_projects d)) \<and> distinct (map fst (db_migrations d)) \<and>
     distinct (map th_id (db_threads d)) \<and> distinct (map rn_id (db_runs d)) \<and>
     distinct (map ev_id (db_runEvents d)) \<and> distinct (map sc_id (db_schedules d)) \<and>
     distinct (map so_id (db_operations d)) \<and>
     distinct (somes (map pj_canonicalCwd (filter (\<lambda>p. pj_status p = Active) (db_projects d)))) \<and>
     distinct (somes (map th_codexThreadId (db_threads d))) \<and>
     distinct (somes (map sc_threadId (live_schedules d))) \<and>
     distinct (map (\<lambda>e. (ev_runId e, ev_seq e)) (db_runEvents d)) \<and>
     list_all (\<lambda>t. th_projectId t = None \<or> the (th_projectId t) \<in> pj_id ` set (db_projects d)) (db_threads d) \<and>
     list_all (\<lambda>e. ev_runId e \<in> rn_id ` set (db_runs d)) (db_runEvents d) \<and>
     list_all (\<lambda>so. so_scheduleId so \<in> sc_id ` set (db_schedules d)) (db_operations d)"
  by (simp add: db_ok_def db_check_def)

lemma somes_distinct:
  assumes "distinct (somes (map k t))" and "r \<in> set t" and "r' \<in> set t"
    and "k r = Some v" and "k r' = Some v"
  shows "r = r'"
  using assms
proof (induction t)
  case Nil
  then show ?case by simp
next
  case (Cons x t)
  have mem: "q \<in> set t \<Longrightarrow> k q = Some v \<Longrightarrow> v \<in> set (somes (map k t))" for q
    by (force simp: somes_def image_iff)
  show ?case
  proof (cases "k x")
    case None
    with Cons show ?thesis by (auto simp: somes_def)
  next
    case (Some w)
    with Cons.prems(1) have "w \<notin> set (somes (map k t))" "distinct (somes (map k t))"
      by (auto simp: somes_def)
    with Cons mem Some show ?thesis by auto
  qed
qed

lemma somes_update:
  "(\<And>r. r \<in> set t \<Longrightarrow> p r \<Longrightarrow> k (f r) = k r) \<Longrightarrow> map k (update_where p f t) = map k t"
  by (simp add: update_where_def)

end
