(* ===== verification/CodexArgs.thy ===== *)
theory CodexArgs
  imports Storage
begin

text \<open>
  The command lines of the Codex process: \<^verbatim>\<open>codex/argv.ts\<close> and \<^verbatim>\<open>buildCodexAppServerArgs\<close> of
  \<^verbatim>\<open>codex/app-server-host-2026-07-28.ts\<close>. Numbers of seconds are integers, \<open>json_string\<close> is
  \<^verbatim>\<open>JSON.stringify\<close> of a string whose code units lie below 256.
\<close>

section \<open>Text\<close>

text \<open>\<^verbatim>\<open>String(n)\<close> of a non-negative and of an arbitrary integer\<close>

definition digit :: "nat \<Rightarrow> char" where
  "digit n = char_of (48 + n)"

fun nat_text :: "nat \<Rightarrow> string" where
  "nat_text n = (if n < 10 then [digit n] else nat_text (n div 10) @ [digit (n mod 10)])"

declare nat_text.simps [simp del]

definition int_text :: "int \<Rightarrow> string" where
  "int_text i = (if i < 0 then CHR ''-'' # nat_text (nat (- i)) else nat_text (nat i))"

definition hex_digit :: "nat \<Rightarrow> char" where
  "hex_digit n = (if n < 10 then digit n else char_of (87 + n))"

definition json_char :: "char \<Rightarrow> string" where
  "json_char c =
     (let n = of_char c :: nat in
      if c = CHR 0x22 then [CHR 0x5C, CHR 0x22]
      else if c = CHR 0x5C then [CHR 0x5C, CHR 0x5C]
      else if n = 8 then [CHR 0x5C, CHR ''b'']
      else if n = 9 then [CHR 0x5C, CHR ''t'']
      else if n = 10 then [CHR 0x5C, CHR ''n'']
      else if n = 12 then [CHR 0x5C, CHR ''f'']
      else if n = 13 then [CHR 0x5C, CHR ''r'']
      else if n < 32 then CHR 0x5C # ''u00'' @ [hex_digit (n div 16), hex_digit (n mod 16)]
      else [c])"

definition json_string :: "string \<Rightarrow> string" where
  "json_string s = [CHR 0x22] @ concat (map json_char s) @ [CHR 0x22]"

text \<open>\<^verbatim>\<open>xs.join(sep)\<close>\<close>

fun js_join :: "string \<Rightarrow> string list \<Rightarrow> string" where
  "js_join sep [] = []"
| "js_join sep [x] = x"
| "js_join sep (x # xs) = x @ sep @ js_join sep xs"

definition json_strings :: "string list \<Rightarrow> string" where
  "json_strings xs = ''['' @ js_join '','' (map json_string xs) @ '']''"

definition bool_text :: "bool \<Rightarrow> string" where
  "bool_text b = (if b then ''true'' else ''false'')"

section \<open>Configuration\<close>

record tool_policy =
  tp_shell :: bool
  tp_fileRead :: bool
  tp_fileWrite :: bool
  tp_applyPatch :: bool
  tp_webSearch :: bool

text \<open>
  The union of \<^verbatim>\<open>CodexMcpServerConfig\<close>: a disabled server has no transport, the others a command
  or an URL.
\<close>

datatype mcp_transport =
    McpNone
  | McpCommand string "string list option" "string list option"
  | McpUrl string "string option"

record mcp_server =
  ms_name :: string
  ms_transport :: mcp_transport
  ms_enabled :: "bool option"
  ms_enabledTools :: "string list option"
  ms_required :: "bool option"
  ms_startupTimeoutSec :: "int option"
  ms_toolTimeoutSec :: "int option"

fun sandbox_text :: "sandbox_mode \<Rightarrow> string" where
  "sandbox_text ReadOnly = ''read-only''"
| "sandbox_text WorkspaceWrite = ''workspace-write''"
| "sandbox_text DangerFullAccess = ''danger-full-access''"

fun reasoning_text :: "reasoning_effort \<Rightarrow> string" where
  "reasoning_text RDefault = ''default''"
| "reasoning_text RLow = ''low''"
| "reasoning_text RMedium = ''medium''"
| "reasoning_text RHigh = ''high''"
| "reasoning_text RXhigh = ''xhigh''"

section \<open>Arguments\<close>

definition disabled_features :: "string list" where
  "disabled_features =
     [''hooks'', ''plugins'', ''apps'', ''multi_agent'', ''browser_use'', ''computer_use'',
      ''in_app_browser'', ''image_generation'', ''tool_suggest'', ''shell_tool'', ''unified_exec'',
      ''shell_snapshot'']"

definition codexToolIsolationArgs :: "tool_policy \<Rightarrow> err + string list" where
  "codexToolIsolationArgs p =
     (if tp_shell p \<or> tp_fileRead p \<or> tp_fileWrite p \<or> tp_applyPatch p \<or> tp_webSearch p
      then Inl (PlainError ''Built-in tool policy must disable every tool'')
      else Inr ([''-c'', ''mcp_servers={}'', ''-c'', ''plugins={}'',
                 ''-c'', ''web_search='' @ json_string ''disabled'', ''-c'', ''notify=[]''] @
                concat (map (\<lambda>f. [''--disable'', f]) disabled_features)))"

definition pushConfig :: "string \<Rightarrow> string \<Rightarrow> string list" where
  "pushConfig key v = [''-c'', key @ ''='' @ v]"

definition opt_args :: "'a option \<Rightarrow> ('a \<Rightarrow> string list) \<Rightarrow> string list" where
  "opt_args x f = (case x of None \<Rightarrow> [] | Some v \<Rightarrow> f v)"

definition server_name_ok :: "string \<Rightarrow> bool" where
  "server_name_ok s \<longleftrightarrow>
     s \<noteq> [] \<and> list_all (\<lambda>c. let n = of_char c :: nat in
       65 \<le> n \<and> n \<le> 90 \<or> 97 \<le> n \<and> n \<le> 122 \<or> 48 \<le> n \<and> n \<le> 57 \<or> c = CHR ''_'' \<or> c = CHR ''-'') s"

definition server_args :: "mcp_server \<Rightarrow> string list" where
  "server_args m =
     (let p = ''mcp_servers.'' @ ms_name m in
      (case ms_transport m of
         McpUrl url token \<Rightarrow>
           pushConfig (p @ ''.url'') (json_string url) @
           opt_args token (\<lambda>t. pushConfig (p @ ''.bearer_token_env_var'') (json_string t))
       | McpCommand command args envVars \<Rightarrow>
           pushConfig (p @ ''.command'') (json_string command) @
           opt_args args (\<lambda>a. pushConfig (p @ ''.args'') (json_strings a)) @
           opt_args envVars (\<lambda>e. pushConfig (p @ ''.env_vars'') (json_strings e))
       | McpNone \<Rightarrow> []) @
      opt_args (ms_enabled m) (\<lambda>b. pushConfig (p @ ''.enabled'') (bool_text b)) @
      opt_args (ms_enabledTools m) (\<lambda>t. pushConfig (p @ ''.enabled_tools'') (json_strings t)) @
      opt_args (ms_required m) (\<lambda>b. pushConfig (p @ ''.required'') (bool_text b)) @
      opt_args (ms_startupTimeoutSec m) (\<lambda>n. pushConfig (p @ ''.startup_timeout_sec'') (int_text n)) @
      opt_args (ms_toolTimeoutSec m) (\<lambda>n. pushConfig (p @ ''.tool_timeout_sec'') (int_text n)))"

fun buildCodexMcpConfigArgs :: "mcp_server list \<Rightarrow> err + string list" where
  "buildCodexMcpConfigArgs [] = Inr []"
| "buildCodexMcpConfigArgs (m # ms) =
     (if \<not> server_name_ok (ms_name m) then Inl (PlainError (''Invalid MCP server name: '' @ ms_name m))
      else (case buildCodexMcpConfigArgs ms of Inl e \<Rightarrow> Inl e | Inr as \<Rightarrow> Inr (server_args m @ as)))"

definition isolation :: "tool_policy option \<Rightarrow> err + string list" where
  "isolation p = (case p of None \<Rightarrow> Inr [] | Some p \<Rightarrow> codexToolIsolationArgs p)"

text \<open>An option that is \<^verbatim>\<open>undefined\<close> or the empty string pushes nothing.\<close>

definition model_args :: "string option \<Rightarrow> string list" where
  "model_args m = opt_args m (\<lambda>v. if v = [] then [] else [''--model'', v])"

definition reasoning_args :: "reasoning_effort option \<Rightarrow> string list" where
  "reasoning_args r =
     opt_args r (\<lambda>v. if v = RDefault then []
       else [''-c'', ''model_reasoning_effort='' @ [CHR 0x22] @ reasoning_text v @ [CHR 0x22]])"

definition image_args :: "string list \<Rightarrow> string list" where
  "image_args ps = concat (map (\<lambda>p. [''--image'', p]) ps)"

definition buildCodexExecArgs ::
  "string option \<Rightarrow> string \<Rightarrow> sandbox_mode \<Rightarrow> string option \<Rightarrow> reasoning_effort option \<Rightarrow> string list \<Rightarrow>
   mcp_server list \<Rightarrow> tool_policy option \<Rightarrow> err + string list" where
  "buildCodexExecArgs profile cwd sandbox model reasoning images servers tools =
     (case isolation tools of
        Inl e \<Rightarrow> Inl e
      | Inr isoArgs \<Rightarrow>
          (case buildCodexMcpConfigArgs servers of
             Inl e \<Rightarrow> Inl e
           | Inr mcp \<Rightarrow>
               Inr ([''exec'', ''--json'', ''--skip-git-repo-check''] @
                    (if tools = None then [] else ''--ignore-user-config'' # isoArgs) @
                    opt_args profile (\<lambda>p. if p = [] then [] else [''-p'', p]) @
                    [''-C'', cwd, ''--sandbox'', sandbox_text sandbox] @
                    model_args model @ reasoning_args reasoning @ mcp @ image_args images)))"

definition buildCodexResumeArgs ::
  "string \<Rightarrow> sandbox_mode \<Rightarrow> string option \<Rightarrow> reasoning_effort option \<Rightarrow> string list \<Rightarrow>
   mcp_server list \<Rightarrow> tool_policy option \<Rightarrow> err + string list" where
  "buildCodexResumeArgs codexThreadId sandbox model reasoning images servers tools =
     (case isolation tools of
        Inl e \<Rightarrow> Inl e
      | Inr isoArgs \<Rightarrow>
          (case buildCodexMcpConfigArgs servers of
             Inl e \<Rightarrow> Inl e
           | Inr mcp \<Rightarrow>
               Inr ([''exec''] @ (if tools = None then [] else ''--ignore-user-config'' # isoArgs) @
                    [''resume'', ''--json'', ''--skip-git-repo-check'',
                     ''-c'', ''sandbox_mode='' @ [CHR 0x22] @ sandbox_text sandbox @ [CHR 0x22]] @
                    model_args model @ reasoning_args reasoning @ mcp @ image_args images @
                    [codexThreadId])))"

definition normalizeAppServerProfile :: "string \<Rightarrow> string" where
  "normalizeAppServerProfile profile =
     (let n = js_trim profile in if n = [] \<or> n = ''default'' then ''default'' else n)"

definition buildCodexAppServerArgs ::
  "string \<Rightarrow> mcp_server list \<Rightarrow> tool_policy option \<Rightarrow> err + string list" where
  "buildCodexAppServerArgs profile servers tools =
     (case isolation tools of
        Inl e \<Rightarrow> Inl e
      | Inr isoArgs \<Rightarrow>
          (case buildCodexMcpConfigArgs servers of
             Inl e \<Rightarrow> Inl e
           | Inr mcp \<Rightarrow>
               Inr (isoArgs @
                    (if normalizeAppServerProfile profile = ''default'' then []
                     else [''--profile'', normalizeAppServerProfile profile]) @
                    mcp @ [''app-server'', ''--stdio''])))"

section \<open>Properties\<close>

text \<open>The text of a number determines it.\<close>

lemma digit_inj: "m < 10 \<Longrightarrow> n < 10 \<Longrightarrow> digit m = digit n \<longleftrightarrow> m = n"
  by (simp add: digit_def)

lemma nat_text_nonempty [simp]: "nat_text n \<noteq> []"
  by (subst nat_text.simps) simp

lemma nat_text_inj [simp]: "nat_text m = nat_text n \<longleftrightarrow> m = n"
proof
  show "nat_text m = nat_text n \<Longrightarrow> m = n"
  proof (induction m arbitrary: n rule: nat_text.induct)
    case (1 m)
    show ?case
    proof (cases "m < 10")
      case m: True
      show ?thesis
      proof (cases "n < 10")
        case True
        with m 1(2) show ?thesis by (simp add: nat_text.simps [of m] nat_text.simps [of n] digit_inj)
      next
        case False
        with m 1(2) show ?thesis by (simp add: nat_text.simps [of m] nat_text.simps [of n] Cons_eq_append_conv)
      qed
    next
      case m: False
      show ?thesis
      proof (cases "n < 10")
        case True
        with m 1(2) show ?thesis by (simp add: nat_text.simps [of m] nat_text.simps [of n] append_eq_Cons_conv)
      next
        case False
        with m 1(2) have "nat_text (m div 10) = nat_text (n div 10)" "m mod 10 = n mod 10"
          by (simp_all add: nat_text.simps [of m] nat_text.simps [of n] digit_inj)
        with 1(1) [OF m] have "m div 10 = n div 10" "m mod 10 = n mod 10" by auto
        then show ?thesis by (metis div_mult_mod_eq)
      qed
    qed
  qed
qed simp

end
