(* ===== verification/Repositories.thy ===== *)
theory Repositories
  imports Storage
begin

text \<open>
  The statements of \<^verbatim>\<open>storage/repositories.ts\<close> on the tables \<^verbatim>\<open>projects\<close>, \<^verbatim>\<open>threads\<close>,
  \<^verbatim>\<open>runs\<close> and \<^verbatim>\<open>run_events\<close>. A \<open>SELECT\<close> is a function of the database, any other statement a
  computation. The triggers that keep \<^verbatim>\<open>feedback_runtime_threads\<close> are not modelled: nothing
  here reads that table.
\<close>

section \<open>Projects\<close>

text \<open>\<^verbatim>\<open>(SELECT COALESCE(MIN(sort_order), 1) - 1 FROM projects WHERE status = 'active')\<close>\<close>

definition first_sort_order :: "db \<Rightarrow> int" where
  "first_sort_order d =
     (case map pj_sortOrder (filter (\<lambda>p. pj_status p = Active) (db_projects d)) of
        [] \<Rightarrow> 0
      | x # xs \<Rightarrow> fold min xs x - 1)"

text \<open>
  \<open>insertProject\<close> fills the time columns and the sort order where the input has none; the
  fields of \<open>row\<close> for them are ignored.
\<close>

definition insertProject :: "project_row \<Rightarrow> int option \<Rightarrow> ('fs, 'x, unit) io" where
  "insertProject row sortOrder =
     bindE sql_now (\<lambda>t.
     write_db (\<lambda>d. d\<lparr>db_projects := db_projects d @
       [row\<lparr>pj_sortOrder := (case sortOrder of None \<Rightarrow> first_sort_order d | Some n \<Rightarrow> n),
            pj_createdAt := t, pj_updatedAt := t, pj_archivedAt := None\<rparr>]\<rparr>))"

definition getProjectRow :: "string \<Rightarrow> db \<Rightarrow> project_row option" where
  "getProjectRow i d = first_where (\<lambda>p. pj_id p = i) (db_projects d)"

text \<open>The status filter is \<open>None\<close> for \<^verbatim>\<open>'all'\<close>.\<close>

definition order_projects :: "project_row list \<Rightarrow> project_row list" where
  "order_projects ps = order_asc pj_sortOrder (order_desc (\<lambda>p. (pj_updatedAt p, pj_id p)) ps)"

definition findProjectRowsByName :: "string \<Rightarrow> row_status option \<Rightarrow> db \<Rightarrow> project_row list" where
  "findProjectRowsByName name st d =
     order_projects
       (filter (\<lambda>p. pj_name p = name \<and> (st = None \<or> st = Some (pj_status p))) (db_projects d))"

definition getProjectByActiveCanonicalCwd :: "string \<Rightarrow> db \<Rightarrow> project_row option" where
  "getProjectByActiveCanonicalCwd c d =
     first_where (\<lambda>p. pj_status p = Active \<and> pj_canonicalCwd p = Some c) (db_projects d)"

definition listProjectRows :: "row_status option \<Rightarrow> db \<Rightarrow> project_row list" where
  "listProjectRows st d =
     order_projects (filter (\<lambda>p. st = None \<or> st = Some (pj_status p)) (db_projects d))"

definition update_project :: "string \<Rightarrow> (db \<Rightarrow> project_row \<Rightarrow> project_row) \<Rightarrow> db \<Rightarrow> db" where
  "update_project i f d = d\<lparr>db_projects := update_where (\<lambda>p. pj_id p = i) (f d) (db_projects d)\<rparr>"

definition updateProjectConfig ::
  "string \<Rightarrow> string \<Rightarrow> string \<Rightarrow> string option \<Rightarrow> reasoning_effort option \<Rightarrow> project_sandbox \<Rightarrow>
   ('fs, 'x, unit) io" where
  "updateProjectConfig i name profile model reasoning sandbox =
     bindE sql_now (\<lambda>t.
     write_db (update_project i (\<lambda>_ p. p\<lparr>pj_name := name, pj_profile := profile, pj_model := model,
       pj_reasoning := reasoning, pj_sandbox := sandbox, pj_updatedAt := t\<rparr>)))"

definition updateProjectSortOrder :: "string \<Rightarrow> int \<Rightarrow> ('fs, 'x, unit) io" where
  "updateProjectSortOrder i n = write_db (update_project i (\<lambda>_ p. p\<lparr>pj_sortOrder := n\<rparr>))"

definition archiveProjectRow :: "string \<Rightarrow> ('fs, 'x, unit) io" where
  "archiveProjectRow i =
     bindE sql_now (\<lambda>t.
     write_db (update_project i (\<lambda>_ p. p\<lparr>pj_status := Archived,
       pj_archivedAt := (case pj_archivedAt p of None \<Rightarrow> Some t | Some a \<Rightarrow> Some a),
       pj_updatedAt := t\<rparr>)))"

definition restoreProjectRow :: "string \<Rightarrow> ('fs, 'x, unit) io" where
  "restoreProjectRow i =
     bindE sql_now (\<lambda>t.
     write_db (update_project i (\<lambda>d p. p\<lparr>pj_status := Active, pj_sortOrder := first_sort_order d,
       pj_archivedAt := None, pj_updatedAt := t\<rparr>)))"

definition replaceProjectDirectoryRow :: "string \<Rightarrow> string \<Rightarrow> string \<Rightarrow> ('fs, 'x, unit) io" where
  "replaceProjectDirectoryRow i cwd canonical =
     bindE sql_now (\<lambda>t.
     write_db (update_project i (\<lambda>_ p. p\<lparr>pj_cwd := cwd, pj_canonicalCwd := Some canonical,
       pj_updatedAt := t\<rparr>)))"

definition getMigration :: "string \<Rightarrow> db \<Rightarrow> migration_result option" where
  "getMigration key d = map_option (\<lambda>m. snd (snd m)) (first_where (\<lambda>m. fst m = key) (db_migrations d))"

definition saveMigration :: "string \<Rightarrow> string \<Rightarrow> migration_result \<Rightarrow> ('fs, 'x, unit) io" where
  "saveMigration key hash result =
     write_db (\<lambda>d. d\<lparr>db_migrations := db_migrations d @ [(key, hash, result)]\<rparr>)"

section \<open>Threads\<close>

text \<open>
  A \<^verbatim>\<open>ThreadRow\<close> is a row of \<^verbatim>\<open>threads\<close> with the id of the live schedule bound to it:
  \<^verbatim>\<open>threadSelect\<close>, a left join.
\<close>

type_synonym joined_thread = "thread_row \<times> string option"

definition schedule_ids_of :: "db \<Rightarrow> thread_id \<Rightarrow> string list" where
  "schedule_ids_of d i = map sc_id (filter (\<lambda>s. sc_threadId s = Some i) (live_schedules d))"

definition join_thread :: "db \<Rightarrow> thread_row \<Rightarrow> joined_thread list" where
  "join_thread d t =
     (case schedule_ids_of d (th_id t) of
        [] \<Rightarrow> [(t, None)]
      | is \<Rightarrow> map (\<lambda>i. (t, Some i)) is)"

definition threadSelect :: "db \<Rightarrow> joined_thread list" where
  "threadSelect d = concat (map (join_thread d) (db_threads d))"

definition newest_first :: "joined_thread list \<Rightarrow> joined_thread list" where
  "newest_first ts = order_desc (\<lambda>j. (th_updatedAt (fst j), th_id (fst j))) ts"

text \<open>As for projects, the statement sets the time columns of the row; \<^verbatim>\<open>archived_at\<close> and
  \<^verbatim>\<open>pinned_at\<close> start as \<^verbatim>\<open>NULL\<close>.\<close>

definition insertThread :: "thread_row \<Rightarrow> ('fs, 'x, unit) io" where
  "insertThread row =
     bindE sql_now (\<lambda>t.
     write_db (\<lambda>d. d\<lparr>db_threads := db_threads d @
       [row\<lparr>th_createdAt := t, th_updatedAt := t, th_archivedAt := None, th_pinnedAt := None\<rparr>]\<rparr>))"

definition getThreadRow :: "thread_id \<Rightarrow> db \<Rightarrow> joined_thread option" where
  "getThreadRow i d = first_where (\<lambda>j. th_id (fst j) = i) (threadSelect d)"

definition getThreadRowByCodexThreadId :: "string \<Rightarrow> db \<Rightarrow> joined_thread option" where
  "getThreadRowByCodexThreadId c d =
     first_where (\<lambda>_. True)
       (newest_first (filter (\<lambda>j. th_codexThreadId (fst j) = Some c) (threadSelect d)))"

record thread_filter =
  tf_status :: "row_status option" \<comment> \<open>\<open>None\<close> is \<^verbatim>\<open>'all'\<close>\<close>
  tf_purpose :: "thread_purpose option"
  tf_excludePurpose :: "thread_purpose option"
  tf_limit :: nat

definition default_thread_filter :: thread_filter where
  "default_thread_filter =
     \<lparr>tf_status = Some Active, tf_purpose = None, tf_excludePurpose = None, tf_limit = 50\<rparr>"

definition matches_filter :: "thread_filter \<Rightarrow> thread_row \<Rightarrow> bool" where
  "matches_filter f t \<longleftrightarrow>
     (tf_status f = None \<or> tf_status f = Some (th_status t)) \<and>
     (tf_purpose f = None \<or> tf_purpose f = Some (th_purpose t)) \<and>
     (tf_excludePurpose f = None \<or> tf_excludePurpose f \<noteq> Some (th_purpose t))"

definition listThreadRows :: "thread_filter \<Rightarrow> db \<Rightarrow> joined_thread list" where
  "listThreadRows f d =
     take (tf_limit f) (newest_first (filter (\<lambda>j. matches_filter f (fst j)) (threadSelect d)))"

definition listKnowledgeThreadRows ::
  "string \<Rightarrow> row_status option \<Rightarrow> nat \<Rightarrow> db \<Rightarrow> joined_thread list" where
  "listKnowledgeThreadRows subject st limit d =
     take limit (newest_first
       (filter (\<lambda>j. th_enterpriseSubjectId (fst j) = Some subject \<and>
                    (st = None \<or> st = Some (th_status (fst j)))) (threadSelect d)))"

datatype assignment = Assigned | Unassigned

fun matches_assignment :: "assignment \<Rightarrow> thread_row \<Rightarrow> bool" where
  "matches_assignment Assigned t \<longleftrightarrow>
     th_purpose t \<noteq> Conversation \<or> th_origin t = ClaweeCreated \<and> th_projectId t \<noteq> None"
| "matches_assignment Unassigned t \<longleftrightarrow>
     th_purpose t = Conversation \<and> th_origin t = ClaweeCreated \<and> th_projectId t = None"

definition listPublicThreadRows :: "thread_filter \<Rightarrow> assignment \<Rightarrow> db \<Rightarrow> joined_thread list" where
  "listPublicThreadRows f a d =
     take (tf_limit f) (newest_first
       (filter (\<lambda>j. matches_filter f (fst j) \<and> th_purpose (fst j) \<noteq> KnowledgeConversation \<and>
                    matches_assignment a (fst j)) (threadSelect d)))"

definition listUnassignedClaweeConversationThreads :: "db \<Rightarrow> joined_thread list" where
  "listUnassignedClaweeConversationThreads d =
     order_asc (\<lambda>j. th_id (fst j))
       (filter (\<lambda>j. th_purpose (fst j) = Conversation \<and> th_origin (fst j) = ClaweeCreated \<and>
                    th_projectId (fst j) = None) (threadSelect d))"

definition listThreadProfileReferences :: "string \<Rightarrow> db \<Rightarrow> (thread_id \<times> string option) list" where
  "listThreadProfileReferences profile d =
     map (\<lambda>t. (th_id t, th_title t))
       (order_desc (\<lambda>t. (th_updatedAt t, th_id t)) (filter (\<lambda>t. th_profile t = profile) (db_threads d)))"

definition update_threads :: "(db \<Rightarrow> thread_row \<Rightarrow> bool) \<Rightarrow> (thread_row \<Rightarrow> thread_row) \<Rightarrow> db \<Rightarrow> db" where
  "update_threads p f d = d\<lparr>db_threads := update_where (p d) f (db_threads d)\<rparr>"

definition archived_thread :: "ms \<Rightarrow> thread_row \<Rightarrow> thread_row" where
  "archived_thread t row = row\<lparr>th_status := Archived,
     th_archivedAt := (case th_archivedAt row of None \<Rightarrow> Some t | Some a \<Rightarrow> Some a), th_updatedAt := t\<rparr>"

definition archiveThreadRow :: "thread_id \<Rightarrow> ('fs, 'x, unit) io" where
  "archiveThreadRow i =
     bindE sql_now (\<lambda>t. write_db (update_threads (\<lambda>_ r. th_id r = i) (archived_thread t)))"

definition archiveLegacyScheduleThreads :: "('fs, 'x, unit) io" where
  "archiveLegacyScheduleThreads =
     bindE sql_now (\<lambda>t. write_db (update_threads
       (\<lambda>d r. th_status r \<noteq> Archived \<and> th_purpose r \<noteq> ScheduleTask \<and> th_codexThreadId r \<noteq> None \<and>
              list_ex (\<lambda>run. rn_createdBy run = BySchedule \<and> rn_threadId run = None \<and>
                             rn_codexThreadId run = th_codexThreadId r) (db_runs d))
       (archived_thread t)))"

text \<open>\<^verbatim>\<open>deleteThreadTransaction\<close>; deleting the runs deletes their events.\<close>

definition delete_thread_rows :: "thread_id \<Rightarrow> db \<Rightarrow> db" where
  "delete_thread_rows i d =
     (let runIds = map rn_id (filter (\<lambda>r. rn_threadId r = Some i) (db_runs d)) in
      d\<lparr>db_outbox := filter (\<lambda>(t, r). \<not> (t = i \<or> r \<in> set runIds)) (db_outbox d),
        db_attachments := filter (\<lambda>(t, r). \<not> (t = Some i \<or> r \<in> Some ` set runIds)) (db_attachments d),
        db_summaries := filter (\<lambda>t. t \<noteq> i) (db_summaries d),
        db_memories := filter (\<lambda>m. m \<noteq> (''thread'', Some i)) (db_memories d),
        db_runs := filter (\<lambda>r. rn_threadId r \<noteq> Some i) (db_runs d),
        db_runEvents := filter (\<lambda>e. ev_runId e \<notin> set runIds) (db_runEvents d),
        db_threads := filter (\<lambda>t. th_id t \<noteq> i) (db_threads d)\<rparr>)"

definition deleteThreadRow :: "thread_id \<Rightarrow> ('fs, 'x, unit) io" where
  "deleteThreadRow i = db_transaction (write_db (delete_thread_rows i))"

text \<open>An argument \<open>None\<close> of \<open>updateThreadRow\<close> is \<^verbatim>\<open>undefined\<close>: the column stays.\<close>

definition updateThreadRow ::
  "thread_id \<Rightarrow> string option \<Rightarrow> string option option \<Rightarrow> reasoning_effort option option \<Rightarrow>
   ms option option \<Rightarrow> ('fs, 'x, unit) io" where
  "updateThreadRow i title model reasoning pinnedAt =
     bindE sql_now (\<lambda>t. write_db (update_threads (\<lambda>_ r. th_id r = i) (\<lambda>r. r\<lparr>
       th_title := (case title of None \<Rightarrow> th_title r | Some x \<Rightarrow> Some x),
       th_model := (case model of None \<Rightarrow> th_model r | Some x \<Rightarrow> x),
       th_reasoning := (case reasoning of None \<Rightarrow> th_reasoning r | Some x \<Rightarrow> x),
       th_pinnedAt := (case pinnedAt of None \<Rightarrow> th_pinnedAt r | Some x \<Rightarrow> x),
       th_updatedAt := t\<rparr>)))"

definition assignable :: "thread_id \<Rightarrow> thread_row \<Rightarrow> bool" where
  "assignable i r \<longleftrightarrow>
     th_id r = i \<and> th_purpose r = Conversation \<and> th_origin r = ClaweeCreated \<and> th_projectId r = None"

definition assignProjectRow :: "thread_id \<Rightarrow> string \<Rightarrow> ('fs, 'x, bool) io" where
  "assignProjectRow i projectId =
     bindE sql_now (\<lambda>t.
     bindE (read_db (\<lambda>d. changes_where (assignable i) (db_threads d))) (\<lambda>changes.
     thenE (write_db (update_threads (\<lambda>_. assignable i)
              (\<lambda>r. r\<lparr>th_projectId := Some projectId, th_updatedAt := t\<rparr>)))
       (ret (changes = 1))))"

definition updateThreadSandbox :: "thread_id \<Rightarrow> sandbox_mode \<Rightarrow> ('fs, 'x, unit) io" where
  "updateThreadSandbox i sandbox =
     bindE sql_now (\<lambda>t. write_db (update_threads (\<lambda>_ r. th_id r = i)
       (\<lambda>r. r\<lparr>th_sandbox := sandbox, th_updatedAt := t\<rparr>)))"

definition updateScheduleThreadRow ::
  "thread_id \<Rightarrow> string \<Rightarrow> string \<Rightarrow> string \<Rightarrow> string \<Rightarrow> string option \<Rightarrow> reasoning_effort option \<Rightarrow>
   sandbox_mode \<Rightarrow> ('fs, 'x, unit) io" where
  "updateScheduleThreadRow i title cwd canonical profile model reasoning sandbox =
     bindE sql_now (\<lambda>t. write_db (update_threads (\<lambda>_ r. th_id r = i) (\<lambda>r. r\<lparr>
       th_title := Some title, th_cwd := cwd, th_canonicalCwd := canonical,
       th_workspaceMode := External, th_profile := profile, th_model := model,
       th_reasoning := reasoning, th_sandbox := sandbox, th_updatedAt := t\<rparr>)))"

definition setThreadPurpose :: "thread_id \<Rightarrow> thread_purpose \<Rightarrow> ('fs, 'x, unit) io" where
  "setThreadPurpose i purpose =
     bindE sql_now (\<lambda>t. write_db (update_threads (\<lambda>_ r. th_id r = i)
       (\<lambda>r. r\<lparr>th_purpose := purpose, th_updatedAt := t\<rparr>)))"

definition setThreadCodexId :: "thread_id \<Rightarrow> string \<Rightarrow> ('fs, 'x, unit) io" where
  "setThreadCodexId i codex =
     bindE sql_now (\<lambda>t. write_db (update_threads (\<lambda>_ r. th_id r = i)
       (\<lambda>r. r\<lparr>th_codexThreadId := Some codex, th_updatedAt := t\<rparr>)))"

definition touchThreadRow :: "thread_id \<Rightarrow> ('fs, 'x, unit) io" where
  "touchThreadRow i =
     bindE sql_now (\<lambda>t. write_db (update_threads (\<lambda>_ r. th_id r = i) (\<lambda>r. r\<lparr>th_updatedAt := t\<rparr>)))"

text \<open>
  \<^verbatim>\<open>listCodexBindingRepairCandidates\<close>: for an unbound thread, the Codex ids of its runs that no
  other thread is bound to and no run outside the thread has; the thread is a candidate when
  there is exactly one. The order of the groups is the order of the table.
\<close>

definition repairable_codex_ids :: "db \<Rightarrow> thread_row \<Rightarrow> string list" where
  "repairable_codex_ids d t =
     remdups (filter
       (\<lambda>c. \<not> list_ex (\<lambda>m. th_codexThreadId m = Some c \<and> th_id m \<noteq> th_id t) (db_threads d) \<and>
            \<not> list_ex (\<lambda>r. rn_codexThreadId r = Some c \<and>
                 (rn_threadId r = None \<or> rn_threadId r \<noteq> Some (th_id t))) (db_runs d))
       (somes (map rn_codexThreadId (filter (\<lambda>r. rn_threadId r = Some (th_id t)) (db_runs d)))))"

definition listCodexBindingRepairCandidates :: "db \<Rightarrow> (thread_id \<times> string) list" where
  "listCodexBindingRepairCandidates d =
     concat (map (\<lambda>t. case repairable_codex_ids d t of [c] \<Rightarrow> [(th_id t, c)] | _ \<Rightarrow> [])
       (filter (\<lambda>t. th_codexThreadId t = None) (db_threads d)))"

definition listUnresolvedCodexBindingThreadIds :: "db \<Rightarrow> thread_id list" where
  "listUnresolvedCodexBindingThreadIds d =
     order_asc (\<lambda>i. i) (map th_id (filter
       (\<lambda>t. th_codexThreadId t = None \<and>
            list_ex (\<lambda>r. rn_threadId r = Some (th_id t) \<and> rn_codexThreadId r \<noteq> None) (db_runs d))
       (db_threads d)))"

definition listCodexMigrationBindings :: "db \<Rightarrow> (thread_id \<times> string) list" where
  "listCodexMigrationBindings d =
     map (\<lambda>t. (th_id t, the (th_codexThreadId t)))
       (order_asc th_id (filter (\<lambda>t. th_codexThreadId t \<noteq> None) (db_threads d)))"

definition updateProjectThreadsDirectory :: "string \<Rightarrow> string \<Rightarrow> string \<Rightarrow> ('fs, 'x, unit) io" where
  "updateProjectThreadsDirectory projectId cwd canonical =
     bindE sql_now (\<lambda>t. write_db (update_threads
       (\<lambda>_ r. th_projectId r = Some projectId \<and> th_purpose r = Conversation \<and> th_origin r = ClaweeCreated)
       (\<lambda>r. r\<lparr>th_cwd := cwd, th_canonicalCwd := canonical, th_updatedAt := t\<rparr>)))"

section \<open>Runs\<close>

text \<open>
  The columns of \<^verbatim>\<open>runs\<close> that only record the environment of a run (the canonical directory, the
  prompt hash and preview, the Codex binary and version) or that no code writes are left out
  of \<open>run_row\<close>.
\<close>

definition insertRun :: "run_row \<Rightarrow> ('fs, 'x, unit) io" where
  "insertRun row =
     bindE sql_now (\<lambda>t.
     write_db (\<lambda>d. d\<lparr>db_runs := db_runs d @
       [row\<lparr>rn_terminationReason := None, rn_exitCode := None, rn_signal := None,
            rn_startedAt := None, rn_endedAt := None, rn_createdAt := t, rn_updatedAt := t,
            rn_errorCode := None, rn_errorMessage := None\<rparr>]\<rparr>))"

definition getRunRow :: "run_id \<Rightarrow> db \<Rightarrow> run_row option" where
  "getRunRow i d = first_where (\<lambda>r. rn_id r = i) (db_runs d)"

definition listRunRows :: "nat \<Rightarrow> db \<Rightarrow> run_row list" where
  "listRunRows limit d = take limit (order_desc (\<lambda>r. (rn_createdAt r, rn_id r)) (db_runs d))"

definition listRunRowsByThread :: "thread_id \<Rightarrow> nat \<Rightarrow> db \<Rightarrow> run_row list" where
  "listRunRowsByThread i limit d =
     take limit (order_desc (\<lambda>r. (rn_createdAt r, rn_id r))
       (filter (\<lambda>r. rn_threadId r = Some i) (db_runs d)))"

definition isLegacyScheduleCodexThread :: "string \<Rightarrow> db \<Rightarrow> bool" where
  "isLegacyScheduleCodexThread c d =
     list_ex (\<lambda>r. rn_codexThreadId r = Some c \<and> rn_createdBy r = BySchedule \<and> rn_threadId r = None)
       (db_runs d)"

definition non_terminal :: "run_row \<Rightarrow> bool" where
  "non_terminal r \<longleftrightarrow>
     rn_publicStatus r \<in> {PQueued, PRunning} \<or>
     rn_internalStatus r \<in> {ICreated, IQueued, ISpawning, IRunning, ICanceling}"

definition listNonTerminalRuns :: "db \<Rightarrow> run_row list" where
  "listNonTerminalRuns d = order_asc (\<lambda>r. (rn_createdAt r, rn_id r)) (filter non_terminal (db_runs d))"

record run_status_update =
  us_publicStatus :: public_status
  us_internalStatus :: internal_status
  us_terminationReason :: "termination_reason option"
  us_exitCode :: "int option"
  us_signal :: "string option"
  us_errorCode :: "string option"
  us_errorMessage :: "string option"
  us_startedAt :: "ms option"
  us_endedAt :: "ms option"

text \<open>The update with every optional field at its default, \<^verbatim>\<open>null\<close>.\<close>

definition run_status :: "public_status \<Rightarrow> internal_status \<Rightarrow> run_status_update" where
  "run_status p i =
     \<lparr>us_publicStatus = p, us_internalStatus = i, us_terminationReason = None, us_exitCode = None,
      us_signal = None, us_errorCode = None, us_errorMessage = None, us_startedAt = None,
      us_endedAt = None\<rparr>"

definition apply_run_status :: "run_status_update \<Rightarrow> ms \<Rightarrow> run_row \<Rightarrow> run_row" where
  "apply_run_status u t r = r\<lparr>
     rn_publicStatus := us_publicStatus u, rn_internalStatus := us_internalStatus u,
     rn_terminationReason := us_terminationReason u, rn_exitCode := us_exitCode u,
     rn_signal := us_signal u, rn_errorCode := us_errorCode u, rn_errorMessage := us_errorMessage u,
     rn_startedAt := (case rn_startedAt r of None \<Rightarrow> us_startedAt u | Some x \<Rightarrow> Some x),
     rn_endedAt := us_endedAt u, rn_updatedAt := t\<rparr>"

definition update_run :: "run_id \<Rightarrow> (run_row \<Rightarrow> run_row) \<Rightarrow> db \<Rightarrow> db" where
  "update_run i f d = d\<lparr>db_runs := update_where (\<lambda>r. rn_id r = i) f (db_runs d)\<rparr>"

definition updateRunStatus :: "run_id \<Rightarrow> run_status_update \<Rightarrow> ('fs, 'x, unit) io" where
  "updateRunStatus i u = bindE sql_now (\<lambda>t. write_db (update_run i (apply_run_status u t)))"

definition setRunCodexThreadId :: "run_id \<Rightarrow> string \<Rightarrow> ('fs, 'x, unit) io" where
  "setRunCodexThreadId i codex =
     bindE sql_now (\<lambda>t.
     write_db (update_run i (\<lambda>r. r\<lparr>rn_codexThreadId := Some codex, rn_updatedAt := t\<rparr>)))"

definition setRunResumeMode :: "run_id \<Rightarrow> resume_mode \<Rightarrow> ('fs, 'x, unit) io" where
  "setRunResumeMode i m =
     bindE sql_now (\<lambda>t.
     write_db (update_run i (\<lambda>r. r\<lparr>rn_resumeMode := Some m, rn_updatedAt := t\<rparr>)))"

definition setRunQueueState :: "run_id \<Rightarrow> queue_state \<Rightarrow> ('fs, 'x, unit) io" where
  "setRunQueueState i q =
     bindE sql_now (\<lambda>t.
     write_db (update_run i (\<lambda>r. r\<lparr>rn_queueState := q, rn_updatedAt := t\<rparr>)))"

text \<open>\<^verbatim>\<open>INSERT OR REPLACE\<close> removes the rows the new one conflicts with.\<close>

definition insertRunEvent :: "event_row \<Rightarrow> ('fs, 'x, unit) io" where
  "insertRunEvent e =
     bindE sql_now (\<lambda>t.
     write_db (\<lambda>d. d\<lparr>db_runEvents :=
       filter (\<lambda>o1. \<not> (ev_id o1 = ev_id e \<or> ev_runId o1 = ev_runId e \<and> ev_seq o1 = ev_seq e))
         (db_runEvents d) @ [e\<lparr>ev_createdAt := t\<rparr>]\<rparr>))"

definition getLastRunEventSeq :: "run_id \<Rightarrow> db \<Rightarrow> nat" where
  "getLastRunEventSeq i d = fold max (map ev_seq (filter (\<lambda>e. ev_runId e = i) (db_runEvents d))) 0"

definition listRunEvents :: "run_id \<Rightarrow> nat \<Rightarrow> db \<Rightarrow> event_row list" where
  "listRunEvents i afterSeq d =
     order_asc ev_seq (filter (\<lambda>e. ev_runId e = i \<and> ev_seq e > afterSeq) (db_runEvents d))"

end
