(* ===== verification/Projects.thy ===== *)
theory Projects
  imports Repositories
begin

text \<open>
  The project manager of \<^verbatim>\<open>projects/manager.ts\<close> over the tables of theory \<open>Repositories\<close>: a
  project is a directory, and no two active projects have the same canonical directory.

  The manager's options are at their defaults except \<open>managedProjectRoot\<close>, an argument. The
  request hash that a migration stores is an argument too: it is never read back.
\<close>

section \<open>Data\<close>

datatype directory_state = Available | Missing

record project_response =
  pr_row :: project_row
  pr_directoryState :: directory_state

record create_project =
  cp_cwd :: string
  cp_name :: "string option"
  cp_profile :: "string option"
  cp_model :: "string option"
  cp_reasoning :: "reasoning_effort option"
  cp_sandbox :: "project_sandbox option"

record update_project_request =
  up_name :: "string option"
  up_profile :: "string option"
  up_model :: "string option option"
  up_reasoning :: "reasoning_effort option option"
  up_sandbox :: "project_sandbox option"

definition directory_unavailable :: err where
  "directory_unavailable = ProjectManagerError ''PROJECT_DIRECTORY_UNAVAILABLE''"

definition directory_conflict :: err where
  "directory_conflict = ProjectManagerError ''PROJECT_DIRECTORY_CONFLICT''"

section \<open>Directories and names\<close>

definition normalizeProjectPath :: "('fs, 'e) env_scheme \<Rightarrow> string \<Rightarrow> err + string" where
  "normalizeProjectPath E v =
     (let trimmed = js_trim v in
      if trimmed = [] then Inl directory_unavailable
      else Inr (env_resolve E [expandHome E trimmed]))"

definition requireAvailableDirectory :: "('fs, 'e) env_scheme \<Rightarrow> string \<Rightarrow> ('fs, 'x, string \<times> string) io" where
  "requireAvailableDirectory E v =
     bindE (liftE (normalizeProjectPath E v)) (\<lambda>cwd.
     catchE
       (bindE (read_fs (\<lambda>fs. env_isDirectory E fs cwd)) (\<lambda>isDir.
        thenE (guardE isDir (PlainError ''not a directory''))
        (bindE (read_fs (\<lambda>fs. env_realpathSync E fs cwd)) (\<lambda>canonical. ret (cwd, canonical)))))
       (\<lambda>_. throw directory_unavailable))"

definition readMigratedDirectory :: "('fs, 'e) env_scheme \<Rightarrow> string \<Rightarrow> ('fs, 'x, string \<times> string option) io" where
  "readMigratedDirectory E v =
     bindE (liftE (normalizeProjectPath E v)) (\<lambda>cwd.
     catchE
       (bindE (read_fs (\<lambda>fs. env_isDirectory E fs cwd)) (\<lambda>isDir.
        if \<not> isDir then ret (cwd, None)
        else bindE (read_fs (\<lambda>fs. env_realpathSync E fs cwd)) (\<lambda>canonical. ret (cwd, Some canonical))))
       (\<lambda>_. ret (cwd, None)))"

text \<open>\<^verbatim>\<open>a || b\<close> on strings\<close>

definition or_else :: "string \<Rightarrow> string \<Rightarrow> string" where
  "or_else a b = (if a = [] then b else a)"

definition normalizeProjectName :: "('fs, 'e) env_scheme \<Rightarrow> string option \<Rightarrow> string \<Rightarrow> err + string" where
  "normalizeProjectName E v cwd =
     (let name = or_else (case v of None \<Rightarrow> [] | Some x \<Rightarrow> js_trim x)
                   (or_else (env_basename E cwd) (env_unnamedProject E)) in
      if name = [] then Inl (PlainError ''Project name is required'') else Inr name)"

definition name_invalid :: err where
  "name_invalid = ProjectManagerError ''PROJECT_NAME_INVALID''"

definition normalizeManagedProjectName :: "string \<Rightarrow> err + string" where
  "normalizeManagedProjectName v =
     (let name = js_trim v in
      if name = [] then Inl name_invalid
      else if length name > 80 then Inl name_invalid
      else if name = ''.'' \<or> name = ''..'' \<or> CHR ''/'' \<in> set name \<or> CHR 0x5C \<in> set name \<or> CHR 0x00 \<in> set name
      then Inl name_invalid
      else Inr name)"

definition normalizeProfile :: "string option \<Rightarrow> string" where
  "normalizeProfile v = or_else (case v of None \<Rightarrow> [] | Some x \<Rightarrow> js_trim x) ''default''"

definition hasSameProjectIds :: "string list \<Rightarrow> string list \<Rightarrow> bool" where
  "hasSameProjectIds current requested \<longleftrightarrow>
     (if length current \<noteq> length requested then False
      else length (remdups requested) = length current \<and> list_all (\<lambda>i. i \<in> set requested) current)"

definition readDirectoryState :: "('fs, 'e) env_scheme \<Rightarrow> 'fs \<Rightarrow> project_row \<Rightarrow> directory_state" where
  "readDirectoryState E fs row =
     (case pj_canonicalCwd row of
        None \<Rightarrow> Missing
      | Some canonical \<Rightarrow>
          if env_isDirectory E fs (pj_cwd row) = Inr True \<and>
             env_realpathSync E fs (pj_cwd row) = Inr canonical
          then Available else Missing)"

definition mapProjectRow :: "('fs, 'e) env_scheme \<Rightarrow> 'fs \<Rightarrow> project_row \<Rightarrow> project_response" where
  "mapProjectRow E fs row = \<lparr>pr_row = row, pr_directoryState = readDirectoryState E fs row\<rparr>"

section \<open>Operations\<close>

definition getProject :: "('fs, 'e) env_scheme \<Rightarrow> string \<Rightarrow> ('fs, 'x) rt_scheme \<Rightarrow> project_response option" where
  "getProject E i s = map_option (mapProjectRow E (rt_fs s)) (getProjectRow i (rt_db s))"

definition findProjectsByName ::
  "('fs, 'e) env_scheme \<Rightarrow> string \<Rightarrow> row_status option \<Rightarrow> ('fs, 'x) rt_scheme \<Rightarrow> project_response list" where
  "findProjectsByName E name st s =
     map (mapProjectRow E (rt_fs s)) (findProjectRowsByName name st (rt_db s))"

definition listProjects ::
  "('fs, 'e) env_scheme \<Rightarrow> row_status option \<Rightarrow> ('fs, 'x) rt_scheme \<Rightarrow> project_response list" where
  "listProjects E st s = map (mapProjectRow E (rt_fs s)) (listProjectRows st (rt_db s))"

text \<open>\<^verbatim>\<open>mapProjectRow(projects.getProject(id)!)\<close>\<close>

definition readProject :: "('fs, 'e) env_scheme \<Rightarrow> string \<Rightarrow> ('fs, 'x, project_response) io" where
  "readProject E i = bindE (gets (getProject E i)) (someE (PlainError ''undefined row''))"

definition getRequiredProject :: "string \<Rightarrow> ('fs, 'x, project_row) io" where
  "getRequiredProject i =
     bindE (read_db (getProjectRow i)) (someE (ProjectManagerError ''PROJECT_NOT_FOUND''))"

fun nextAvailableIdLoop :: "nat \<Rightarrow> ('fs, 'x, string) io" where
  "nextAvailableIdLoop 0 = throw (PlainError ''Unable to allocate a unique project id'')"
| "nextAvailableIdLoop (Suc n) =
     bindE nanoid (\<lambda>suffix.
     (let i = ''project_'' @ suffix in
      bindE (read_db (getProjectRow i)) (\<lambda>existing.
      if js_trim i \<noteq> [] \<and> existing = None then ret i else nextAvailableIdLoop n)))"

definition nextAvailableId :: "('fs, 'x, string) io" where
  "nextAvailableId = nextAvailableIdLoop 100"

definition new_project_row ::
  "string \<Rightarrow> string \<Rightarrow> string \<Rightarrow> string option \<Rightarrow> create_project \<Rightarrow> project_row" where
  "new_project_row i name cwd canonical q =
     \<lparr>pj_id = i, pj_name = name, pj_cwd = cwd, pj_canonicalCwd = canonical,
      pj_profile = normalizeProfile (cp_profile q), pj_model = cp_model q,
      pj_reasoning = cp_reasoning q,
      pj_sandbox = (case cp_sandbox q of None \<Rightarrow> FollowGlobal | Some x \<Rightarrow> x),
      pj_status = Active, pj_sortOrder = 0, pj_createdAt = 0, pj_updatedAt = 0, pj_archivedAt = None\<rparr>"

definition createProjectRecord :: "('fs, 'e) env_scheme \<Rightarrow> create_project \<Rightarrow> ('fs, 'x, project_response) io" where
  "createProjectRecord E q =
     bindE (requireAvailableDirectory E (cp_cwd q)) (\<lambda>(cwd, canonical).
     bindE (read_db (getProjectByActiveCanonicalCwd canonical)) (\<lambda>duplicate.
     thenE (guardE (duplicate = None) directory_conflict)
     (bindE nextAvailableId (\<lambda>i.
      bindE (liftE (normalizeProjectName E (cp_name q) cwd)) (\<lambda>name.
      thenE (insertProject (new_project_row i name cwd (Some canonical) q) None)
      (readProject E i))))))"

definition create_request :: "string \<Rightarrow> string \<Rightarrow> create_project" where
  "create_request cwd name =
     \<lparr>cp_cwd = cwd, cp_name = Some name, cp_profile = None, cp_model = None, cp_reasoning = None,
      cp_sandbox = None\<rparr>"

text \<open>\<^verbatim>\<open>try { return m } catch (e) { try { rmdirSync(cwd) } catch {} throw e }\<close>\<close>

definition removing_on_error ::
  "('fs, 'e) env_scheme \<Rightarrow> bool \<Rightarrow> string \<Rightarrow> ('fs, 'x, 'a) io \<Rightarrow> ('fs, 'x, 'a) io" where
  "removing_on_error E created cwd m =
     catchE m (\<lambda>e. thenE (whenE created (catchE (write_fs (env_rmdirSync E cwd)) (\<lambda>_. ret ()))) (throw e))"

definition ensureManagedProjectRoot :: "('fs, 'e) env_scheme \<Rightarrow> string \<Rightarrow> ('fs, 'x, string) io" where
  "ensureManagedProjectRoot E rootDir =
     catchE (thenE (write_fs (env_mkdirSync E True rootDir)) (ret rootDir)) (\<lambda>_. throw directory_unavailable)"

definition ensureDefaultProject :: "('fs, 'e) env_scheme \<Rightarrow> string \<Rightarrow> ('fs, 'x, project_response) io" where
  "ensureDefaultProject E rootDir =
     thenE (catchE (write_fs (env_mkdirSync E True rootDir)) (\<lambda>_. throw directory_unavailable))
     (let cwd = env_join E rootDir ''Default Project'' in
      bindE (gets (\<lambda>s. env_existsSync E (rt_fs s) cwd)) (\<lambda>present.
      bindE (if present then ret False
             else catchE (thenE (write_fs (env_mkdirSync E False cwd)) (ret True))
               (\<lambda>_. bindE (gets (\<lambda>s. env_existsSync E (rt_fs s) cwd)) (\<lambda>now_present.
                  if \<not> now_present then throw directory_unavailable else ret False))) (\<lambda>created.
      bindE (requireAvailableDirectory E cwd) (\<lambda>(dir, canonical).
      bindE (read_db (getProjectByActiveCanonicalCwd canonical)) (\<lambda>existing.
      case existing of
        Some row \<Rightarrow> gets (\<lambda>s. mapProjectRow E (rt_fs s) row)
      | None \<Rightarrow> removing_on_error E created cwd
          (createProjectRecord E (create_request dir (env_defaultProjectName E))))))))"

definition createManagedProject ::
  "('fs, 'e) env_scheme \<Rightarrow> string \<Rightarrow> string \<Rightarrow> string option \<Rightarrow> ('fs, 'x, project_response) io" where
  "createManagedProject E rootDir requested parentCwd =
     bindE (liftE (normalizeManagedProjectName requested)) (\<lambda>name.
     bindE (case parentCwd of
              None \<Rightarrow> ensureManagedProjectRoot E rootDir
            | Some p \<Rightarrow> bindE (requireAvailableDirectory E p) (\<lambda>(_, canonical). ret canonical)) (\<lambda>parent.
     (let cwd = env_join E parent name in
      bindE (gets (\<lambda>s. env_existsSync E (rt_fs s) cwd)) (\<lambda>present.
      thenE (guardE (\<not> present) directory_conflict)
      (thenE (catchE (write_fs (env_mkdirSync E False cwd))
               (\<lambda>_. bindE (gets (\<lambda>s. env_existsSync E (rt_fs s) cwd)) (\<lambda>now_present.
                  throw (if now_present then directory_conflict else directory_unavailable))))
      (removing_on_error E True cwd (createProjectRecord E (create_request cwd name))))))))"

definition createMigratedProjectRecord ::
  "('fs, 'e) env_scheme \<Rightarrow> create_project \<Rightarrow> string option \<Rightarrow> ('fs, 'x, project_response) io" where
  "createMigratedProjectRecord E q preferredId =
     bindE (readMigratedDirectory E (cp_cwd q)) (\<lambda>(cwd, canonical).
     bindE (read_db (\<lambda>d. Option.bind canonical (\<lambda>c. getProjectByActiveCanonicalCwd c d))) (\<lambda>duplicate.
     case duplicate of
       Some row \<Rightarrow> gets (\<lambda>s. mapProjectRow E (rt_fs s) row)
     | None \<Rightarrow>
         bindE (read_db (\<lambda>d. case map_option js_trim preferredId of
                  Some p \<Rightarrow> if p \<noteq> [] \<and> getProjectRow p d = None then Some p else None
                | None \<Rightarrow> None)) (\<lambda>preferred.
         bindE (case preferred of Some p \<Rightarrow> ret p | None \<Rightarrow> nextAvailableId) (\<lambda>i.
         bindE (liftE (normalizeProjectName E (cp_name q) cwd)) (\<lambda>name.
         thenE (insertProject (new_project_row i name cwd canonical q) None)
         (readProject E i))))))"

definition LOCAL_STORAGE_V1_MIGRATION_KEY :: string where
  "LOCAL_STORAGE_V1_MIGRATION_KEY = ''local-storage-v1''"

definition LOCAL_HOME_PROJECT_ID :: string where
  "LOCAL_HOME_PROJECT_ID = ''local-home''"

text \<open>
  The two loops of the migration: over the legacy projects, collecting the ids and the map from
  canonical directory to project, and over the unassigned threads.
\<close>

type_synonym legacy_project = "string \<times> create_project"

fun migrateProjects ::
  "('fs, 'e) env_scheme \<Rightarrow> legacy_project list \<Rightarrow> (string, string) assoc \<Rightarrow> (string, string) assoc \<Rightarrow>
   ('fs, 'x, (string, string) assoc \<times> (string, string) assoc) io" where
  "migrateProjects E [] ids dirs = ret (ids, dirs)"
| "migrateProjects E ((i, q) # rest) ids dirs =
     (if i = LOCAL_HOME_PROJECT_ID then migrateProjects E rest ids dirs
      else
        bindE (createMigratedProjectRecord E q (Some i)) (\<lambda>p.
        migrateProjects E rest (map_put i (pj_id (pr_row p)) ids)
          (case pj_canonicalCwd (pr_row p) of
             None \<Rightarrow> dirs
           | Some c \<Rightarrow> map_put c (pj_id (pr_row p)) dirs)))"

fun migrateThreads ::
  "(string, string) assoc \<Rightarrow> joined_thread list \<Rightarrow> thread_id list \<Rightarrow> thread_id list \<Rightarrow>
   ('fs, 'x, thread_id list \<times> thread_id list) io" where
  "migrateThreads dirs [] assigned unassigned = ret (assigned, unassigned)"
| "migrateThreads dirs ((t, _) # rest) assigned unassigned =
     (case map_of dirs (th_canonicalCwd t) of
        None \<Rightarrow> migrateThreads dirs rest assigned (unassigned @ [th_id t])
      | Some projectId \<Rightarrow>
          bindE (assignProjectRow (th_id t) projectId) (\<lambda>changed.
          if changed then migrateThreads dirs rest (assigned @ [th_id t]) unassigned
          else migrateThreads dirs rest assigned (unassigned @ [th_id t])))"

datatype migration_status = MigrationApplied | MigrationAlreadyApplied

definition migrateLocalStorageV1 ::
  "('fs, 'e) env_scheme \<Rightarrow> (legacy_project list \<Rightarrow> string) \<Rightarrow> legacy_project list \<Rightarrow>
   ('fs, 'x, migration_status \<times> migration_result) io" where
  "migrateLocalStorageV1 E hash request =
     db_transaction
       (bindE (read_db (getMigration LOCAL_STORAGE_V1_MIGRATION_KEY)) (\<lambda>existing.
        case existing of
          Some r \<Rightarrow> ret (MigrationAlreadyApplied, r)
        | None \<Rightarrow>
            bindE (migrateProjects E request [] []) (\<lambda>(ids, dirs).
            bindE (read_db listUnassignedClaweeConversationThreads) (\<lambda>threads.
            bindE (migrateThreads dirs threads [] []) (\<lambda>(assigned, unassigned).
            (let result = \<lparr>mr_projectIdMap = ids, mr_assignedThreadIds = assigned,
                           mr_unassignedThreadIds = unassigned\<rparr> in
             thenE (saveMigration LOCAL_STORAGE_V1_MIGRATION_KEY (hash request) result)
             (ret (MigrationApplied, result))))))))"

fun saveOrder :: "string list \<Rightarrow> int \<Rightarrow> ('fs, 'x, unit) io" where
  "saveOrder [] n = ret ()"
| "saveOrder (i # is) n = thenE (updateProjectSortOrder i n) (saveOrder is (n + 1))"

definition reorderProjects :: "('fs, 'e) env_scheme \<Rightarrow> string list \<Rightarrow> ('fs, 'x, project_response list) io" where
  "reorderProjects E ids =
     bindE (read_db (\<lambda>d. map pj_id (listProjectRows (Some Active) d))) (\<lambda>active.
     thenE (guardE (hasSameProjectIds active ids) (ProjectManagerError ''PROJECT_ORDER_CONFLICT''))
     (thenE (db_transaction (saveOrder ids 0))
     (gets (listProjects E (Some Active)))))"

definition updateProject ::
  "('fs, 'e) env_scheme \<Rightarrow> string \<Rightarrow> update_project_request \<Rightarrow> ('fs, 'x, project_response) io" where
  "updateProject E i q =
     bindE (getRequiredProject i) (\<lambda>existing.
     bindE (liftE (case up_name q of
                     None \<Rightarrow> Inr (pj_name existing)
                   | Some n \<Rightarrow> normalizeProjectName E (Some n) (pj_cwd existing))) (\<lambda>name.
     thenE (updateProjectConfig i name
              (case up_profile q of None \<Rightarrow> pj_profile existing | Some p \<Rightarrow> normalizeProfile (Some p))
              (case up_model q of None \<Rightarrow> pj_model existing | Some m \<Rightarrow> m)
              (case up_reasoning q of None \<Rightarrow> pj_reasoning existing | Some r \<Rightarrow> r)
              (case up_sandbox q of None \<Rightarrow> pj_sandbox existing | Some x \<Rightarrow> x))
     (readProject E i)))"

definition archiveProject :: "('fs, 'e) env_scheme \<Rightarrow> string \<Rightarrow> ('fs, 'x, project_response) io" where
  "archiveProject E i =
     bindE (getRequiredProject i) (\<lambda>_. thenE (archiveProjectRow i) (readProject E i))"

text \<open>The check that \<^verbatim>\<open>restoreProject\<close> and \<^verbatim>\<open>replaceProjectDirectory\<close> make\<close>

definition free_for :: "string \<Rightarrow> string \<Rightarrow> db \<Rightarrow> bool" where
  "free_for i canonical d =
     (case getProjectByActiveCanonicalCwd canonical d of None \<Rightarrow> True | Some p \<Rightarrow> pj_id p = i)"

definition restoreProject :: "('fs, 'e) env_scheme \<Rightarrow> string \<Rightarrow> ('fs, 'x, project_response) io" where
  "restoreProject E i =
     bindE (getRequiredProject i) (\<lambda>existing.
     bindE (requireAvailableDirectory E (pj_cwd existing)) (\<lambda>(cwd, canonical).
     bindE (read_db (free_for i canonical)) (\<lambda>free.
     thenE (guardE free directory_conflict)
     (thenE (db_transaction (thenE (replaceProjectDirectoryRow i cwd canonical) (restoreProjectRow i)))
     (readProject E i)))))"

definition replaceProjectDirectory ::
  "('fs, 'e) env_scheme \<Rightarrow> string \<Rightarrow> string \<Rightarrow> ('fs, 'x, project_response) io" where
  "replaceProjectDirectory E i requested =
     bindE (getRequiredProject i) (\<lambda>existing.
     bindE (requireAvailableDirectory E requested) (\<lambda>(cwd, canonical).
     bindE (read_db (free_for i canonical)) (\<lambda>free.
     thenE (guardE free directory_conflict)
     (thenE (db_transaction
        (thenE (replaceProjectDirectoryRow i cwd canonical)
               (updateProjectThreadsDirectory (pj_id existing) cwd canonical)))
     (readProject E i)))))"

section \<open>The constraints hold\<close>

lemmas project_ops =
  requireAvailableDirectory_def readMigratedDirectory_def readProject_def getRequiredProject_def
  nextAvailableId_def createProjectRecord_def removing_on_error_def ensureManagedProjectRoot_def
  ensureDefaultProject_def createManagedProject_def createMigratedProjectRecord_def
  migrateLocalStorageV1_def reorderProjects_def updateProject_def archiveProject_def
  restoreProject_def replaceProjectDirectory_def

lemma nextAvailableIdLoop_db [keeps_rules]: "db_keeps P (nextAvailableIdLoop n)"
  by (induction n) (auto simp: Let_def intro!: keeps_rules)

text \<open>
  An update of project rows that keeps ids, canonical directories and statuses breaks no
  constraint, so the statement has effect.
\<close>

lemma db_check_update_project:
  assumes "\<And>p. pj_id (f d p) = pj_id p" "\<And>p. pj_canonicalCwd (f d p) = pj_canonicalCwd p"
    "\<And>p. pj_status (f d p) = pj_status p"
  shows "db_check (update_project i f d) = db_check d"
proof -
  let ?t = "update_where (\<lambda>p. pj_id p = i) (f d) (db_projects d)"
  have ids: "map pj_id ?t = map pj_id (db_projects d)"
    by (simp add: map_update_where assms)
  have cwds: "map pj_canonicalCwd (filter (\<lambda>p. pj_status p = Active) ?t) =
      map pj_canonicalCwd (filter (\<lambda>p. pj_status p = Active) (db_projects d))"
    by (induction "db_projects d") (auto simp: update_where_def filter_map comp_def assms)
  have "pj_id ` set ?t = pj_id ` set (db_projects d)"
    using ids by (metis list.set_map)
  then show ?thesis
    by (simp add: db_check_def update_project_def ids cwds live_schedules_def)
qed

section \<open>Reordering\<close>

fun order_rows :: "string list \<Rightarrow> int \<Rightarrow> project_row list \<Rightarrow> project_row list" where
  "order_rows [] n ps = ps"
| "order_rows (i # is) n ps =
     order_rows is (n + 1) (update_where (\<lambda>p. pj_id p = i) (\<lambda>p. p\<lparr>pj_sortOrder := n\<rparr>) ps)"

lemma run_saveOrder:
  "ok_state s \<Longrightarrow>
   saveOrder is n s =
     (Inr (), s\<lparr>rt_db := rt_db s\<lparr>db_projects := order_rows is n (db_projects (rt_db s))\<rparr>\<rparr>)"
proof (induction "is" n arbitrary: s rule: saveOrder.induct)
  case (1 n)
  then show ?case by (simp add: run_simps)
next
  case (2 i "is" n)
  let ?f = "\<lambda>(_::db) p. p\<lparr>pj_sortOrder := n\<rparr>"
  have c: "db_check (update_project i ?f (rt_db s)) = None"
    using 2(2) by (simp add: db_check_update_project db_ok_def)
  then have "ok_state (s\<lparr>rt_db := update_project i ?f (rt_db s)\<rparr>)" by (simp add: db_ok_def)
  from 2(1) [OF this] c show ?case
    by (simp add: run_simps updateProjectSortOrder_def) (simp add: update_project_def)
qed

text \<open>\<open>order_rows\<close> is one pass over the rows.\<close>

lemma order_rows_map:
  "distinct is \<Longrightarrow>
   order_rows is n ps =
     map (\<lambda>p. if pj_id p \<in> set is
              then p\<lparr>pj_sortOrder := n + int (length (takeWhile (\<lambda>j. j \<noteq> pj_id p) is))\<rparr> else p) ps"
proof (induction "is" n ps rule: order_rows.induct)
  case (2 i "is" n ps)
  then have d: "distinct is" "i \<notin> set is" by auto
  then show ?case using 2(1) [OF d(1)]
    by (auto simp: update_where_def comp_def)
qed simp

lemma takeWhile_index:
  "distinct is \<Longrightarrow> k < length is \<Longrightarrow> length (takeWhile (\<lambda>j. j \<noteq> is ! k) is) = k"
proof (induction "is" arbitrary: k)
  case (Cons x xs)
  then show ?case by (cases k) auto
qed simp

lemma listProjectRows_unique:
  assumes "distinct ps" and "set ps = set (filter (\<lambda>p. pj_status p = st) (db_projects d))"
    and "sorted (map pj_sortOrder ps)" and "inj_on pj_sortOrder (set ps)"
    and "distinct (db_projects d)"
  shows "listProjectRows (Some st) d = ps"
proof -
  let ?l = "listProjectRows (Some st) d"
  have set: "set ?l = set ps"
    by (auto simp: listProjectRows_def order_projects_def assms(2))
  have dist: "distinct ?l"
    by (simp add: listProjectRows_def order_projects_def order_asc_def order_desc_def assms(5))
  have sorted: "sorted (map pj_sortOrder ?l)"
    by (simp add: listProjectRows_def order_projects_def order_asc_def)
  show ?thesis
    using map_sorted_distinct_set_unique [of pj_sortOrder ?l ps] assms(1,3,4) set dist sorted
    by (simp add: distinct_map)
qed

lemma hasSameProjectIds_iff:
  "distinct current \<Longrightarrow>
   hasSameProjectIds current requested \<longleftrightarrow> distinct requested \<and> set requested = set current"
proof
  assume d: "distinct current" and h: "hasSameProjectIds current requested"
  then have len: "length current = length requested" "length (remdups requested) = length requested"
    and sub: "set current \<subseteq> set requested"
    by (auto simp: hasSameProjectIds_def list_all_iff split: if_splits)
  from len(2) have "distinct requested"
    by (metis distinct_remdups length_remdups_eq)
  moreover from this d len(1) have "card (set current) = card (set requested)"
    by (simp add: distinct_card)
  ultimately show "distinct requested \<and> set requested = set current"
    using card_subset_eq [OF _ sub] by simp
next
  assume "distinct current" and "distinct requested \<and> set requested = set current"
  then show "hasSameProjectIds current requested"
    by (auto simp: hasSameProjectIds_def list_all_iff distinct_remdups_id dest: distinct_card)
       (metis distinct_card)
qed

text \<open>The order of the listing after the ranks are written is the requested one.\<close>

lemma listProjectRows_reordered:
  assumes ok: "db_ok d" and dist: "distinct is"
    and active: "set is = pj_id ` set (filter (\<lambda>p. pj_status p = Active) (db_projects d))"
  shows "map pj_id (listProjectRows (Some Active)
           (d\<lparr>db_projects := order_rows is 0 (db_projects d)\<rparr>)) = is"
proof -
  let ?rank = "\<lambda>i. int (length (takeWhile (\<lambda>j. j \<noteq> i) is))"
  let ?f = "\<lambda>p. if pj_id p \<in> set is then p\<lparr>pj_sortOrder := ?rank (pj_id p)\<rparr> else p"
  let ?t = "order_rows is 0 (db_projects d)"
  have t: "?t = map ?f (db_projects d)" by (simp add: order_rows_map [OF dist])
  have ids: "map pj_id ?t = map pj_id (db_projects d)" by (simp add: t comp_def)
  then have dist_t: "distinct (map pj_id ?t)" using ok by (simp add: db_ok_iff)
  define row where "row i = the (first_where (\<lambda>p. pj_id p = i) ?t)" for i
  have row: "row i \<in> set ?t \<and> pj_id (row i) = i \<and> pj_status (row i) = Active \<and>
             pj_sortOrder (row i) = ?rank i" if "i \<in> set is" for i
  proof -
    from that active obtain p where p: "p \<in> set (db_projects d)" "pj_id p = i" "pj_status p = Active"
      by auto
    from p(1) have "?f p \<in> set ?t" by (simp add: t)
    moreover have "pj_id (?f p) = i" by (simp add: p)
    ultimately have "row i = ?f p"
      using first_where_key [of pj_id ?t "?f p" "\<lambda>p. pj_id p = i"] dist_t by (simp add: row_def)
    with \<open>?f p \<in> set ?t\<close> that p show ?thesis by simp
  qed
  let ?ps = "map row is"
  have "listProjectRows (Some Active) (d\<lparr>db_projects := ?t\<rparr>) = ?ps"
  proof (rule listProjectRows_unique)
    show "distinct ?ps" using dist row by (auto simp: distinct_map inj_on_def) metis
    show "set ?ps = set (filter (\<lambda>p. pj_status p = Active) (db_projects (d\<lparr>db_projects := ?t\<rparr>)))"
    proof
      show "set ?ps \<subseteq> set (filter (\<lambda>p. pj_status p = Active) (db_projects (d\<lparr>db_projects := ?t\<rparr>)))"
        using row by auto
      show "set (filter (\<lambda>p. pj_status p = Active) (db_projects (d\<lparr>db_projects := ?t\<rparr>))) \<subseteq> set ?ps"
      proof
        fix q assume "q \<in> set (filter (\<lambda>p. pj_status p = Active) (db_projects (d\<lparr>db_projects := ?t\<rparr>)))"
        then have q: "q \<in> set ?t" "pj_status q = Active" by auto
        then obtain p where "p \<in> set (db_projects d)" "q = ?f p" by (auto simp: t)
        with q active have "pj_id q \<in> set is" by (auto split: if_splits)
        moreover have "row (pj_id q) = q"
          using first_where_key [of pj_id ?t q "\<lambda>p. pj_id p = pj_id q"] dist_t q by (simp add: row_def)
        ultimately show "q \<in> set ?ps" by (metis imageI list.set_map)
      qed
    qed
    have ranks: "map pj_sortOrder ?ps = map int [0..<length is]"
      by (rule nth_equalityI) (auto simp: row takeWhile_index dist)
    show "sorted (map pj_sortOrder ?ps)" unfolding ranks by (simp add: sorted_iff_nth_mono)
    have "distinct (map pj_sortOrder ?ps)" unfolding ranks by (simp add: distinct_map)
    then show "inj_on pj_sortOrder (set ?ps)" by (simp only: distinct_map)
    show "distinct (db_projects (d\<lparr>db_projects := ?t\<rparr>))" using dist_t by (simp add: distinct_map)
  qed
  then show ?thesis by (simp add: comp_def row cong: map_cong)
qed

definition without_sort_order :: "project_row \<Rightarrow> project_row" where
  "without_sort_order p = p\<lparr>pj_sortOrder := 0\<rparr>"

text \<open>
  Reordering takes effect exactly when the request names every active project once. Then
  the active projects are listed in the requested order, and no row has changed otherwise; in
  the other case the request is refused with \<open>PROJECT_ORDER_CONFLICT\<close> and nothing has changed.
\<close>
lemma reorderProjects_order:
  assumes "ok_state s"
  shows "let active = map pj_id (listProjectRows (Some Active) (rt_db s)) in
    (if distinct ids \<and> set ids = set active then
       \<exists>s'. reorderProjects E ids s = (Inr (listProjects E (Some Active) s'), s') \<and>
            map pj_id (listProjectRows (Some Active) (rt_db s')) = ids \<and>
            map without_sort_order (db_projects (rt_db s')) =
              map without_sort_order (db_projects (rt_db s)) \<and>
            rt_db s' = rt_db s\<lparr>db_projects := db_projects (rt_db s')\<rparr>
     else reorderProjects E ids s = (Inl (ProjectManagerError ''PROJECT_ORDER_CONFLICT''), s))"
proof -
  let ?active = "map pj_id (listProjectRows (Some Active) (rt_db s))"
  let ?s' = "s\<lparr>rt_db := rt_db s\<lparr>db_projects := order_rows ids 0 (db_projects (rt_db s))\<rparr>\<rparr>"
  have set_active: "set ?active = pj_id ` set (filter (\<lambda>p. pj_status p = Active) (db_projects (rt_db s)))"
    by (auto simp: listProjectRows_def order_projects_def)
  have "distinct ?active"
    using assms by (simp add: db_ok_iff listProjectRows_def order_projects_def order_asc_def
      order_desc_def distinct_map inj_on_def)
  note same = hasSameProjectIds_iff [OF this, of ids]
  show ?thesis
  proof (cases "distinct ids \<and> set ids = set ?active")
    case True
    have run: "reorderProjects E ids s = (Inr (listProjects E (Some Active) ?s'), ?s')"
      using True by (simp add: reorderProjects_def run_simps same run_saveOrder [OF assms]
        db_transaction_def)
    have "map pj_id (listProjectRows (Some Active) (rt_db ?s')) = ids"
      using listProjectRows_reordered [OF assms] True set_active by simp
    moreover have "map without_sort_order (db_projects (rt_db ?s')) =
        map without_sort_order (db_projects (rt_db s))"
      using True by (auto simp: order_rows_map without_sort_order_def)
    ultimately show ?thesis using True run by (auto simp: Let_def)
  next
    case False
    then show ?thesis by (auto simp: reorderProjects_def run_simps same)
  qed
qed

section \<open>Creating\<close>

lemma run_requireAvailableDirectory:
  "requireAvailableDirectory E v s = (r, s') \<Longrightarrow>
   s' = s \<and>
   (case r of
      Inl e \<Rightarrow> e = directory_unavailable
    | Inr (cwd, canonical) \<Rightarrow>
        env_isDirectory E (rt_fs s) cwd = Inr True \<and> env_realpathSync E (rt_fs s) cwd = Inr canonical)"
  by (auto simp: requireAvailableDirectory_def normalizeProjectPath_def run_simps Let_def
      split: sum.splits prod.splits if_splits)

lemma run_nextAvailableIdLoop:
  "nextAvailableIdLoop n s = (r, s') \<Longrightarrow>
   rt_db s' = rt_db s \<and> rt_fs s' = rt_fs s \<and>
   (case r of
      Inl e \<Rightarrow> e = PlainError ''Unable to allocate a unique project id''
    | Inr i \<Rightarrow> getProjectRow i (rt_db s) = None)"
proof (induction n arbitrary: s)
  case (Suc n)
  from Suc.prems show ?case
    by (auto simp: run_simps Let_def split: if_splits sum.splits dest!: Suc.IH)
qed (auto simp: run_simps)

lemma first_sort_order_le:
  "p \<in> set (db_projects d) \<Longrightarrow> pj_status p = Active \<Longrightarrow> first_sort_order d < pj_sortOrder p"
proof -
  assume p: "p \<in> set (db_projects d)" "pj_status p = Active"
  let ?os = "map pj_sortOrder (filter (\<lambda>p. pj_status p = Active) (db_projects d))"
  have m': "fold min xs x \<le> x \<and> (\<forall>y \<in> set xs. fold min xs x \<le> y)" for x :: int and xs
  proof (induction xs arbitrary: x)
    case (Cons a xs)
    from Cons.IH [of "min a x"] show ?case by auto
  qed simp
  have m: "y \<in> set (x # xs) \<Longrightarrow> fold min xs x \<le> y" for x :: int and xs y
    using m' [where x = x and xs = xs] by auto
  from p have "pj_sortOrder p \<in> set ?os" by simp
  then obtain x xs where os: "?os = x # xs" and "pj_sortOrder p \<in> set (x # xs)"
    by (cases ?os) auto
  from m [OF this(2)] os show ?thesis by (simp add: first_sort_order_def)
qed

lemma hd_sort_key:
  assumes "x \<in> set l" and "\<And>y. y \<in> set l \<Longrightarrow> y \<noteq> x \<Longrightarrow> k x < k y"
  shows "hd (sort_key k l) = x"
proof (rule ccontr)
  assume neq: "hd (sort_key k l) \<noteq> x"
  obtain h t where ht: "sort_key k l = h # t"
    using assms(1) by (metis length_pos_if_in_set length_sort list.exhaust_sel list.size(3) not_less0)
  have "sorted (map k (h # t))" by (metis ht sorted_sort_key)
  moreover have "x \<in> set (h # t)" "h \<in> set l" using assms(1) ht by (metis set_sort, metis list.set_intros(1) set_sort)
  ultimately have "k h \<le> k x" by auto
  with assms(2) [OF \<open>h \<in> set l\<close>] neq ht show False by simp
qed

lemma getProjectRow_None: "getProjectRow i d = None \<longleftrightarrow> i \<notin> pj_id ` set (db_projects d)"
  by (auto simp: getProjectRow_def first_where_None)

lemma getProjectByActiveCanonicalCwd_None:
  "getProjectByActiveCanonicalCwd c d = None \<longleftrightarrow>
   c \<notin> set (somes (map pj_canonicalCwd (filter (\<lambda>p. pj_status p = Active) (db_projects d))))"
  by (auto simp: getProjectByActiveCanonicalCwd_def first_where_None set_somes image_iff)

lemma db_check_insert_project:
  assumes "db_ok d" and "getProjectRow (pj_id row) d = None" and "pj_canonicalCwd row = Some c"
    and "getProjectByActiveCanonicalCwd c d = None"
  shows "db_check (d\<lparr>db_projects := db_projects d @ [row]\<rparr>) = None"
proof -
  have "db_ok (d\<lparr>db_projects := db_projects d @ [row]\<rparr>)"
    using assms by (auto simp: db_ok_iff live_schedules_def getProjectRow_None
      getProjectByActiveCanonicalCwd_None list_all_iff)
  then show ?thesis by (simp add: db_ok_def)
qed

text \<open>
  C39. Creating a project for a directory either fails and leaves the database as it was, because
  the directory is not available, because an active project has the same canonical directory
  already, or because no name or free id was found, but never on a constraint of the database;
  or it appends one row with a new id, whose canonical directory no active project had, whose
  directory is available, and which heads the list of the active projects.
\<close>
theorem createProject_outcome:
  assumes "ok_state s"
  shows "case createProjectRecord E q s of
      (Inl e, s') \<Rightarrow> rt_db s' = rt_db s \<and>
        (e = directory_unavailable \<or>
         e = directory_conflict \<and>
           (\<exists>p \<in> set (db_projects (rt_db s)). \<exists>cwd. pj_status p = Active \<and> pj_canonicalCwd p \<noteq> None \<and>
              env_realpathSync E (rt_fs s) cwd = Inr (the (pj_canonicalCwd p))) \<or>
         (\<exists>m. e = PlainError m))
    | (Inr p, s') \<Rightarrow>
        getProjectRow (pj_id (pr_row p)) (rt_db s) = None \<and>
        db_projects (rt_db s') = db_projects (rt_db s) @ [pr_row p] \<and>
        (\<forall>o1 \<in> set (db_projects (rt_db s)).
           pj_status o1 = Active \<longrightarrow> pj_canonicalCwd o1 \<noteq> pj_canonicalCwd (pr_row p)) \<and>
        pr_directoryState p = Available \<and>
        hd (listProjectRows (Some Active) (rt_db s')) = pr_row p"
proof -
  obtain r1 s1 where dir: "requireAvailableDirectory E (cp_cwd q) s = (r1, s1)" by fastforce
  note dir' = run_requireAvailableDirectory [OF dir]
  show ?thesis
  proof (cases r1)
    case (Inl e)
    with dir dir' show ?thesis by (simp add: createProjectRecord_def run_simps)
  next
    case (Inr dc)
    obtain cwd canonical where dc: "dc = (cwd, canonical)" by fastforce
    from dir' Inr dc have s1: "s1 = s" and avail: "env_isDirectory E (rt_fs s) cwd = Inr True"
      "env_realpathSync E (rt_fs s) cwd = Inr canonical" by auto
    note start = dir [unfolded s1 Inr dc]
    show ?thesis
    proof (cases "getProjectByActiveCanonicalCwd canonical (rt_db s)")
      case (Some p)
      then have "p \<in> set (db_projects (rt_db s))" "pj_status p = Active" "pj_canonicalCwd p = Some canonical"
        by (auto simp: getProjectByActiveCanonicalCwd_def dest: first_where_Some)
      with Some start avail show ?thesis
        by (auto simp: createProjectRecord_def run_simps directory_conflict_def intro!: bexI [of _ p])
    next
      case None
      obtain r2 s2 where ids: "nextAvailableIdLoop 100 s = (r2, s2)" by fastforce
      note ids' = run_nextAvailableIdLoop [OF ids]
      show ?thesis
      proof (cases r2)
        case (Inl e)
        with None start ids ids' show ?thesis
          by (simp add: createProjectRecord_def run_simps nextAvailableId_def)
      next
        case (Inr i)
        show ?thesis
        proof (cases "normalizeProjectName E (cp_name q) cwd")
          case (Inl e)
          then have "\<exists>m. e = PlainError m"
            by (auto simp: normalizeProjectName_def Let_def split: if_splits)
          with None start ids ids' \<open>r2 = Inr i\<close> Inl show ?thesis
            by (simp add: createProjectRecord_def run_simps nextAvailableId_def)
        next
          case name: (Inr name)
          let ?t = "rt_now s2 (rt_tick s2) div 1000 * 1000"
          let ?d = "rt_db s"
          define row where "row = (new_project_row i name cwd (Some canonical) q)
            \<lparr>pj_sortOrder := first_sort_order ?d, pj_createdAt := ?t, pj_updatedAt := ?t, pj_archivedAt := None\<rparr>"
          have row: "pj_id row = i" "pj_canonicalCwd row = Some canonical" "pj_status row = Active"
            "pj_cwd row = cwd" "pj_sortOrder row = first_sort_order ?d"
            by (simp_all add: row_def new_project_row_def)
          have fresh: "getProjectRow i ?d = None" using ids' Inr by simp
          have check: "db_check (?d\<lparr>db_projects := db_projects ?d @ [row]\<rparr>) = None"
            using assms fresh None row by (intro db_check_insert_project) auto
          let ?s' = "s2\<lparr>rt_tick := Suc (rt_tick s2), rt_db := ?d\<lparr>db_projects := db_projects ?d @ [row]\<rparr>\<rparr>"
          have found: "getProjectRow i (rt_db ?s') = Some row"
            using fresh row by (simp add: getProjectRow_def first_where_append) (simp add: first_where_def)
          have run: "createProjectRecord E q s = (Inr (mapProjectRow E (rt_fs s) row), ?s')"
            using None start ids ids' Inr name check found row_def
            by (simp add: createProjectRecord_def run_simps nextAvailableId_def insertProject_def
                readProject_def getProject_def)
          have "hd (listProjectRows (Some Active) (rt_db ?s')) = row"
            unfolding listProjectRows_def order_projects_def order_asc_def
          proof (rule hd_sort_key)
            fix y assume "y \<in> set (order_desc (\<lambda>p. (pj_updatedAt p, pj_id p))
              (filter (\<lambda>p. Some Active = None \<or> Some Active = Some (pj_status p)) (db_projects (rt_db ?s'))))"
              and "y \<noteq> row"
            then have "y \<in> set (db_projects ?d)" "pj_status y = Active" by (auto split: if_splits)
            then show "pj_sortOrder row < pj_sortOrder y" by (simp add: row first_sort_order_le)
          qed (simp add: row)
          moreover have "\<forall>o1 \<in> set (db_projects ?d). pj_status o1 = Active \<longrightarrow> pj_canonicalCwd o1 \<noteq> Some canonical"
            using None by (auto simp: getProjectByActiveCanonicalCwd_def first_where_None)
          ultimately show ?thesis
            using run fresh row avail by (simp add: mapProjectRow_def readDirectoryState_def)
        qed
      qed
    qed
  qed
qed

section \<open>The migration of the projects a browser kept\<close>

lemma migrations_stable [keeps_rules]:
  "db_keeps (\<lambda>d. db_migrations d = M) (insertProject row so)"
  "db_keeps (\<lambda>d. db_migrations d = M) (assignProjectRow t p)"
  by (auto simp: insertProject_def assignProjectRow_def update_threads_def intro!: keeps_rules db_keeps_write)

lemma migrateProjects_migrations [keeps_rules]:
  "db_keeps (\<lambda>d. db_migrations d = M) (migrateProjects E ps ids dirs)"
  by (induction E ps ids dirs rule: migrateProjects.induct)
     (auto simp: createMigratedProjectRecord_def readMigratedDirectory_def readProject_def
        nextAvailableId_def intro!: keeps_rules split: prod.splits)

lemma migrateThreads_migrations [keeps_rules]:
  "db_keeps (\<lambda>d. db_migrations d = M) (migrateThreads dirs ts a u)"
  by (induction dirs ts a u rule: migrateThreads.induct) (auto intro!: keeps_rules)

lemma migrate_stored:
  assumes "getMigration LOCAL_STORAGE_V1_MIGRATION_KEY (rt_db s) = Some r"
  shows "migrateLocalStorageV1 E hash request s = (Inr (MigrationAlreadyApplied, r), s)"
  using assms by (simp add: migrateLocalStorageV1_def db_transaction_def run_simps)

lemma migrate_first:
  assumes "getMigration LOCAL_STORAGE_V1_MIGRATION_KEY (rt_db s) = None"
    and "migrateLocalStorageV1 E hash request s = (Inr (st, r), s')"
  shows "st = MigrationApplied \<and> getMigration LOCAL_STORAGE_V1_MIGRATION_KEY (rt_db s') = Some r"
proof -
  let ?M = "db_migrations (rt_db s)"
  from assms obtain ids dirs s1 a u s2 where
    1: "migrateProjects E request [] [] s = (Inr (ids, dirs), s1)" and
    2: "migrateThreads dirs (listUnassignedClaweeConversationThreads (rt_db s1)) [] [] s1 = (Inr (a, u), s2)" and
    r: "r = \<lparr>mr_projectIdMap = ids, mr_assignedThreadIds = a, mr_unassignedThreadIds = u\<rparr>" and
    st: "st = MigrationApplied" and
    s': "rt_db s' = rt_db s2\<lparr>db_migrations :=
          db_migrations (rt_db s2) @ [(LOCAL_STORAGE_V1_MIGRATION_KEY, hash request, r)]\<rparr>"
    by (auto simp: migrateLocalStorageV1_def db_transaction_def run_simps saveMigration_def Let_def
        split: sum.splits prod.splits option.splits)
  have "db_migrations (rt_db s1) = ?M"
    using db_keepsD [OF migrateProjects_migrations, of s ?M E request "[]" "[]"] 1 by simp
  then have "db_migrations (rt_db s2) = ?M"
    using db_keepsD [OF migrateThreads_migrations, of s1 ?M dirs _ "[]" "[]"] 2
    by (metis (no_types) snd_conv)
  with assms(1) s' st show ?thesis
    by (auto simp: getMigration_def first_where_append) (simp add: first_where_def)
qed

text \<open>
  C40. The migration of the projects kept in the browser's local storage happens once: a call that
  raises leaves the database as it was; after a call that returns, every later call, with any
  request, returns the stored result of the first and changes nothing.
\<close>
theorem migrateLocalStorageV1_once:
  "case migrateLocalStorageV1 E hash request s of
     (Inl e, s') \<Rightarrow> rt_db s' = rt_db s
   | (Inr (st, r), s') \<Rightarrow>
       (st = MigrationApplied \<or> s' = s) \<and>
       (\<forall>E' hash' request'. migrateLocalStorageV1 E' hash' request' s' = (Inr (MigrationAlreadyApplied, r), s'))"
proof (cases "migrateLocalStorageV1 E hash request s")
  case (Pair x s')
  show ?thesis
  proof (cases x)
    case (Inl e)
    with Pair show ?thesis by (auto simp: migrateLocalStorageV1_def dest: db_transaction_error)
  next
    case (Inr y)
    obtain st r where y: "y = (st, r)" by fastforce
    note run = Pair [unfolded Inr y]
    show ?thesis
    proof (cases "getMigration LOCAL_STORAGE_V1_MIGRATION_KEY (rt_db s)")
      case None
      from migrate_first [OF None run] have "st = MigrationApplied"
        "getMigration LOCAL_STORAGE_V1_MIGRATION_KEY (rt_db s') = Some r" by auto
      then show ?thesis by (simp add: run migrate_stored)
    next
      case (Some q)
      from run migrate_stored [OF Some, of E hash request] have "s' = s" "r = q" by auto
      with Some run show ?thesis by (simp add: migrate_stored)
    qed
  qed
qed

section \<open>Instances\<close>

definition sample_project :: "string \<Rightarrow> int \<Rightarrow> project_row" where
  "sample_project i n =
     (new_project_row i i (''/'' @ i) (Some (''/'' @ i)) (create_request i i))\<lparr>pj_sortOrder := n\<rparr>"

definition sample_projects :: "string list rt" where
  "sample_projects =
     sample_rt (empty_db\<lparr>db_projects := [sample_project ''a'' 0, sample_project ''c'' 1]\<rparr>)"

lemmas sample_simps =
  sample_projects_def sample_rt_def sample_project_def empty_db_def new_project_row_def
  create_request_def

lemma reorderProjects_order_witness:
  "map pj_id (listProjectRows (Some Active) (rt_db sample_projects)) = [''a'', ''c''] \<and>
   map pj_id (listProjectRows (Some Active)
     (rt_db (snd (reorderProjects sample_env [''c'', ''a''] sample_projects)))) = [''c'', ''a'']"
proof -
  have ok: "ok_state sample_projects" by (simp add: db_ok_iff sample_simps live_schedules_def)
  have l: "map pj_id (listProjectRows (Some Active) (rt_db sample_projects)) = [''a'', ''c'']"
    by (simp add: sample_simps listProjectRows_def order_projects_def order_asc_def order_desc_def)
  have same: "{''c'', ''a''} = {''a'', ''c''}" by (rule insert_commute)
  from reorderProjects_order [OF ok, of "[''c'', ''a'']" sample_env] show ?thesis
    unfolding l by (auto simp: Let_def l same)
qed

lemma createProject_outcome_witness:
  "case createProjectRecord sample_env (create_request ''/b'' ''b'') sample_projects of
     (Inl e, s') \<Rightarrow> False
   | (Inr p, s') \<Rightarrow> hd (listProjectRows (Some Active) (rt_db s')) = pr_row p \<and> pr_directoryState p = Available"
proof -
  have ok: "ok_state sample_projects" by (simp add: db_ok_iff sample_simps live_schedules_def)
  let ?run = "createProjectRecord sample_env (create_request ''/b'' ''b'') sample_projects"
  have "case fst ?run of Inl _ \<Rightarrow> False | Inr _ \<Rightarrow> True" by code_simp
  then obtain p s' where run: "?run = (Inr p, s')" by (cases ?run) (auto split: sum.splits)
  from createProject_outcome [OF ok, of sample_env "create_request ''/b'' ''b''"] show ?thesis
    unfolding run by simp
qed

end
