(* ===== verification/Threads.thy ===== *)
theory Threads
  imports Projects
begin

text \<open>
  The thread manager of \<^verbatim>\<open>threads/manager.ts\<close>. A thread is a conversation, the draft of a
  schedule or the thread that a schedule's runs use; \<^verbatim>\<open>codex_thread_id\<close> binds it to the Codex
  thread it continues. A request's absent optional fields are \<open>None\<close>.
\<close>

section \<open>Data\<close>

text \<open>\<^verbatim>\<open>RuntimeThread\<close>: the columns of the row and the id of the schedule bound to it.\<close>

record runtime_thread = thread_row +
  th_scheduleId :: "string option"

record create_thread =
  ct_title :: "string option"
  ct_cwd :: "string option"
  ct_canonicalCwd :: "string option"
  ct_workspaceMode :: "workspace_mode option"
  ct_profile :: "string option"
  ct_model :: "string option"
  ct_reasoning :: "reasoning_effort option"
  ct_sandbox :: "sandbox_mode option"
  ct_purpose :: "thread_purpose option"
  ct_projectId :: "string option"
  ct_origin :: thread_origin
  ct_enterpriseSubjectId :: "string option"

record conversation_request =
  cr_projectId :: string
  cr_title :: "string option"
  cr_profile :: "string option"
  cr_model :: "string option"
  cr_reasoning :: "reasoning_effort option"
  cr_sandbox :: "sandbox_mode option"

record update_thread_request =
  ut_title :: "string option"
  ut_model :: "string option option"
  ut_reasoning :: "reasoning_effort option option"
  ut_sandbox :: "sandbox_mode option"
  ut_pinned :: "bool option"

record update_schedule_thread =
  us_title :: string
  us_cwd :: string
  us_profile :: string
  us_model :: "string option"
  us_reasoning :: "reasoning_effort option"
  us_sandbox :: sandbox_mode

definition thread_not_found :: err where
  "thread_not_found = ThreadManagerError ''THREAD_NOT_FOUND'' ''Thread not found''"

definition project_not_found :: err where
  "project_not_found = ThreadManagerError ''PROJECT_NOT_FOUND'' ''Project not found''"

definition project_archived :: err where
  "project_archived = ThreadManagerError ''PROJECT_ARCHIVED'' ''Project is archived''"

definition project_directory_unavailable :: err where
  "project_directory_unavailable =
     ThreadManagerError ''PROJECT_DIRECTORY_UNAVAILABLE''
       ''Project directory does not exist or is not accessible''"

definition already_assigned :: err where
  "already_assigned =
     ThreadManagerError ''THREAD_ALREADY_ASSIGNED'' ''Thread is already assigned to a project''"

definition codex_id_conflict :: err where
  "codex_id_conflict =
     ThreadManagerError ''THREAD_CODEX_ID_CONFLICT''
       ''Codex thread id is already bound to another thread''"

section \<open>Reading\<close>

definition mapThreadRow :: "('fs, 'e) env_scheme \<Rightarrow> joined_thread \<Rightarrow> runtime_thread" where
  "mapThreadRow E j =
     thread_row.extend ((fst j)\<lparr>th_title := map_option (env_title E) (th_title (fst j))\<rparr>)
       \<lparr>th_scheduleId = snd j\<rparr>"

definition getThread :: "('fs, 'e) env_scheme \<Rightarrow> thread_id \<Rightarrow> db \<Rightarrow> runtime_thread option" where
  "getThread E i d = map_option (mapThreadRow E) (getThreadRow i d)"

definition isHiddenDiscoveredConversation :: "thread_row \<Rightarrow> bool" where
  "isHiddenDiscoveredConversation r \<longleftrightarrow> th_purpose r = Conversation \<and> th_origin r = CodexDiscovered"

definition getPublicThread :: "('fs, 'e) env_scheme \<Rightarrow> thread_id \<Rightarrow> db \<Rightarrow> runtime_thread option" where
  "getPublicThread E i d =
     (case getThreadRow i d of
        None \<Rightarrow> None
      | Some j \<Rightarrow> if isHiddenDiscoveredConversation (fst j) then None else Some (mapThreadRow E j))"

definition getThreadByCodexThreadId :: "('fs, 'e) env_scheme \<Rightarrow> string \<Rightarrow> db \<Rightarrow> runtime_thread option" where
  "getThreadByCodexThreadId E c d = map_option (mapThreadRow E) (getThreadRowByCodexThreadId c d)"

definition listThreads :: "('fs, 'e) env_scheme \<Rightarrow> thread_filter \<Rightarrow> db \<Rightarrow> runtime_thread list" where
  "listThreads E f d = map (mapThreadRow E) (listThreadRows f d)"

definition listKnowledgeThreads ::
  "('fs, 'e) env_scheme \<Rightarrow> string \<Rightarrow> row_status option \<Rightarrow> nat \<Rightarrow> db \<Rightarrow> runtime_thread list" where
  "listKnowledgeThreads E subject st limit d =
     map (mapThreadRow E) (listKnowledgeThreadRows subject st limit d)"

definition listPublicThreads ::
  "('fs, 'e) env_scheme \<Rightarrow> thread_filter \<Rightarrow> assignment \<Rightarrow> db \<Rightarrow> runtime_thread list" where
  "listPublicThreads E f a d = map (mapThreadRow E) (listPublicThreadRows f a d)"

text \<open>\<^verbatim>\<open>mapThreadRow(threads.getThread(id)!)\<close>\<close>

definition readThread :: "('fs, 'e) env_scheme \<Rightarrow> thread_id \<Rightarrow> ('fs, 'x, runtime_thread) io" where
  "readThread E i = bindE (read_db (getThread E i)) (someE (PlainError ''undefined row''))"

definition getRequiredThread :: "thread_id \<Rightarrow> ('fs, 'x, thread_row) io" where
  "getRequiredThread i =
     bindE (read_db (getThreadRow i)) (\<lambda>j.
     someE (PlainError ''THREAD_NOT_FOUND'') (map_option fst j))"

section \<open>Creating\<close>

definition normalizeExternalCwd :: "('fs, 'e) env_scheme \<Rightarrow> string \<Rightarrow> string" where
  "normalizeExternalCwd E cwd = expandHome E cwd"

definition option_or :: "'a option \<Rightarrow> 'a \<Rightarrow> 'a" where
  "option_or x y = (case x of None \<Rightarrow> y | Some v \<Rightarrow> v)"

definition new_thread_row ::
  "('fs, 'e) env_scheme \<Rightarrow> thread_id \<Rightarrow> string \<Rightarrow> string \<Rightarrow> create_thread \<Rightarrow> thread_row" where
  "new_thread_row E i cwd canonical q =
     \<lparr>th_id = i, th_title = map_option (env_title E) (ct_title q), th_codexThreadId = None,
      th_projectId = ct_projectId q, th_enterpriseSubjectId = ct_enterpriseSubjectId q,
      th_origin = ct_origin q, th_cwd = cwd, th_canonicalCwd = canonical,
      th_workspaceMode = option_or (ct_workspaceMode q) Managed,
      th_profile = option_or (ct_profile q) ''default'', th_sandbox = option_or (ct_sandbox q) WorkspaceWrite,
      th_model = ct_model q, th_reasoning = ct_reasoning q, th_status = Active,
      th_purpose = option_or (ct_purpose q) Conversation, th_createdAt = 0, th_updatedAt = 0,
      th_archivedAt = None, th_pinnedAt = None\<rparr>"

definition createRuntimeThread :: "('fs, 'e) env_scheme \<Rightarrow> create_thread \<Rightarrow> ('fs, 'x, runtime_thread) io" where
  "createRuntimeThread E q =
     bindE nanoid (\<lambda>suffix.
     (let i = ''thread_'' @ suffix;
          cwd = (case option_or (ct_workspaceMode q) Managed of
                   Managed \<Rightarrow> env_resolve E [env_resolve E [env_dataDir E, ''workspaces''], i]
                 | External \<Rightarrow> normalizeExternalCwd E (option_or (ct_cwd q) (env_processCwd E))) in
      thenE (write_fs (env_mkdirSync E True cwd))
      (bindE (case ct_canonicalCwd q of
                Some c \<Rightarrow> ret c
              | None \<Rightarrow> read_fs (\<lambda>fs. env_realpathSync E fs cwd)) (\<lambda>canonical.
       thenE (insertThread (new_thread_row E i cwd canonical q)) (readThread E i)))))"

text \<open>
  The checks of a project that \<^verbatim>\<open>createConversationThread\<close>, \<^verbatim>\<open>createKnowledgeThread\<close> and
  \<^verbatim>\<open>assertRunnableThread\<close> make, in their order.
\<close>

definition usable_project :: "project_response option \<Rightarrow> err + project_response" where
  "usable_project p =
     (case p of
        None \<Rightarrow> Inl project_not_found
      | Some p \<Rightarrow>
          if pj_status (pr_row p) = Archived then Inl project_archived
          else if pr_directoryState p \<noteq> Available \<or> pj_canonicalCwd (pr_row p) = None
          then Inl project_directory_unavailable
          else Inr p)"

definition orElse :: "'a option \<Rightarrow> 'a option \<Rightarrow> 'a option" where
  "orElse x y = (case x of None \<Rightarrow> y | Some v \<Rightarrow> Some v)"

definition createConversationThread ::
  "('fs, 'e) env_scheme \<Rightarrow> conversation_request \<Rightarrow> ('fs, 'x, runtime_thread) io" where
  "createConversationThread E q =
     bindE (gets (getProject E (cr_projectId q))) (\<lambda>found.
     bindE (liftE (usable_project found)) (\<lambda>p.
     createRuntimeThread E
       \<lparr>ct_title = cr_title q, ct_cwd = Some (pj_cwd (pr_row p)),
        ct_canonicalCwd = pj_canonicalCwd (pr_row p), ct_workspaceMode = Some External,
        ct_profile = Some (option_or (cr_profile q) (pj_profile (pr_row p))),
        ct_model = orElse (cr_model q) (pj_model (pr_row p)),
        ct_reasoning = orElse (cr_reasoning q) (pj_reasoning (pr_row p)),
        ct_sandbox = Some (option_or (cr_sandbox q)
          (if pj_sandbox (pr_row p) = Sandboxed WorkspaceWrite then WorkspaceWrite else DangerFullAccess)),
        ct_purpose = Some Conversation, ct_projectId = Some (pj_id (pr_row p)),
        ct_origin = ClaweeCreated, ct_enterpriseSubjectId = None\<rparr>))"

definition createKnowledgeThread ::
  "('fs, 'e) env_scheme \<Rightarrow> string \<Rightarrow> string \<Rightarrow> string option \<Rightarrow> ('fs, 'x, runtime_thread) io" where
  "createKnowledgeThread E subject projectId title =
     bindE (gets (getProject E projectId)) (\<lambda>found.
     bindE (liftE (usable_project found)) (\<lambda>p.
     createRuntimeThread E
       \<lparr>ct_title = title, ct_cwd = Some (pj_cwd (pr_row p)),
        ct_canonicalCwd = pj_canonicalCwd (pr_row p), ct_workspaceMode = Some External,
        ct_profile = Some (pj_profile (pr_row p)), ct_model = pj_model (pr_row p),
        ct_reasoning = pj_reasoning (pr_row p), ct_sandbox = Some ReadOnly,
        ct_purpose = Some Conversation, ct_projectId = Some (pj_id (pr_row p)),
        ct_origin = ClaweeCreated, ct_enterpriseSubjectId = Some subject\<rparr>))"

text \<open>
  \<^verbatim>\<open>createThread\<close> and \<^verbatim>\<open>createScheduleThread\<close> have the same body: no project, created here.
\<close>

definition createThread :: "('fs, 'e) env_scheme \<Rightarrow> create_thread \<Rightarrow> ('fs, 'x, runtime_thread) io" where
  "createThread E q = createRuntimeThread E (q\<lparr>ct_projectId := None, ct_origin := ClaweeCreated\<rparr>)"

definition createScheduleThread :: "('fs, 'e) env_scheme \<Rightarrow> create_thread \<Rightarrow> ('fs, 'x, runtime_thread) io" where
  "createScheduleThread E q = createRuntimeThread E (q\<lparr>ct_projectId := None, ct_origin := ClaweeCreated\<rparr>)"

definition assertRunnableThread :: "('fs, 'e) env_scheme \<Rightarrow> thread_id \<Rightarrow> ('fs, 'x, runtime_thread) io" where
  "assertRunnableThread E i =
     bindE (read_db (getThreadRow i)) (\<lambda>row.
     bindE (someE thread_not_found (map_option (mapThreadRow E) row)) (\<lambda>thread.
     if th_purpose thread \<noteq> Conversation then ret thread
     else
       case th_projectId thread of
         None \<Rightarrow> throw (ThreadManagerError ''PROJECT_NOT_FOUND'' ''Thread is not assigned to a project'')
       | Some projectId \<Rightarrow>
           bindE (gets (getProject E projectId)) (\<lambda>found.
           bindE (liftE (usable_project found)) (\<lambda>_. ret thread))))"

section \<open>Changing\<close>

definition assignProject :: "('fs, 'e) env_scheme \<Rightarrow> thread_id \<Rightarrow> string \<Rightarrow> ('fs, 'x, runtime_thread) io" where
  "assignProject E i projectId =
     bindE (read_db (getThreadRow i)) (\<lambda>row.
     bindE (someE thread_not_found (map_option fst row)) (\<lambda>existing.
     thenE (guardE (th_origin existing = ClaweeCreated \<and> th_purpose existing = Conversation) thread_not_found)
     (thenE (guardE (th_projectId existing = None) already_assigned)
     (bindE (gets (getProject E projectId)) (\<lambda>found.
      bindE (someE project_not_found found) (\<lambda>p.
      thenE (guardE (pj_status (pr_row p) \<noteq> Archived) project_archived)
      (bindE (assignProjectRow i projectId) (\<lambda>changed.
       thenE (guardE changed already_assigned)
       (readThread E i)))))))))"

definition updateThread ::
  "('fs, 'e) env_scheme \<Rightarrow> thread_id \<Rightarrow> update_thread_request \<Rightarrow> ('fs, 'x, runtime_thread) io" where
  "updateThread E i q =
     bindE (getRequiredThread i) (\<lambda>existing.
     thenE (guardE (th_purpose existing \<noteq> ScheduleTask) (PlainError ''THREAD_MANAGED_BY_SCHEDULE''))
     (thenE (case ut_sandbox q of None \<Rightarrow> ret () | Some x \<Rightarrow> updateThreadSandbox i x)
     (thenE
       (whenE (ut_title q \<noteq> None \<or> ut_model q \<noteq> None \<or> ut_reasoning q \<noteq> None \<or> ut_pinned q \<noteq> None)
         (bindE (case ut_pinned q of
                   None \<Rightarrow> ret None
                 | Some True \<Rightarrow> bindE date_now (\<lambda>t. ret (Some (Some t)))
                 | Some False \<Rightarrow> ret (Some None)) (\<lambda>pinnedAt.
          updateThreadRow i (map_option (env_title E) (ut_title q)) (ut_model q) (ut_reasoning q) pinnedAt)))
     (readThread E i))))"

definition updateScheduleThread ::
  "('fs, 'e) env_scheme \<Rightarrow> thread_id \<Rightarrow> update_schedule_thread \<Rightarrow> ('fs, 'x, runtime_thread) io" where
  "updateScheduleThread E i q =
     bindE (getRequiredThread i) (\<lambda>existing.
     thenE (guardE (th_purpose existing = ScheduleTask) (PlainError ''THREAD_NOT_SCHEDULE_TASK''))
     (let cwd = normalizeExternalCwd E (us_cwd q) in
      thenE (write_fs (env_mkdirSync E True cwd))
      (bindE (read_fs (\<lambda>fs. env_realpathSync E fs cwd)) (\<lambda>canonical.
       thenE (updateScheduleThreadRow i (env_title E (us_title q)) cwd canonical (us_profile q)
                (us_model q) (us_reasoning q) (us_sandbox q))
       (readThread E i)))))"

definition setPurpose :: "('fs, 'e) env_scheme \<Rightarrow> thread_id \<Rightarrow> thread_purpose \<Rightarrow> ('fs, 'x, runtime_thread) io" where
  "setPurpose E i purpose =
     bindE (getRequiredThread i) (\<lambda>_. thenE (setThreadPurpose i purpose) (readThread E i))"

definition archiveThread :: "('fs, 'e) env_scheme \<Rightarrow> thread_id \<Rightarrow> ('fs, 'x, runtime_thread) io" where
  "archiveThread E i =
     bindE (getRequiredThread i) (\<lambda>existing.
     thenE (guardE (th_purpose existing \<noteq> ScheduleTask) (PlainError ''THREAD_MANAGED_BY_SCHEDULE''))
     (thenE (archiveThreadRow i) (readThread E i)))"

definition deleteThread :: "thread_id \<Rightarrow> ('fs, 'x, unit) io" where
  "deleteThread i =
     bindE (getRequiredThread i) (\<lambda>existing.
     thenE (guardE (th_purpose existing \<noteq> ScheduleTask) (PlainError ''THREAD_MANAGED_BY_SCHEDULE''))
     (deleteThreadRow i))"

definition archiveScheduleThread :: "('fs, 'e) env_scheme \<Rightarrow> thread_id \<Rightarrow> ('fs, 'x, runtime_thread) io" where
  "archiveScheduleThread E i =
     bindE (getRequiredThread i) (\<lambda>existing.
     thenE (guardE (th_purpose existing = ScheduleTask) (PlainError ''THREAD_NOT_SCHEDULE_TASK''))
     (thenE (archiveThreadRow i) (readThread E i)))"

definition archiveCodexThread :: "('fs, 'e) env_scheme \<Rightarrow> string \<Rightarrow> ('fs, 'x, runtime_thread option) io" where
  "archiveCodexThread E codex =
     bindE (read_db (getThreadRowByCodexThreadId codex)) (\<lambda>existing.
     case existing of
       None \<Rightarrow> ret None
     | Some j \<Rightarrow>
         thenE (archiveThreadRow (th_id (fst j)))
         (bindE (readThread E (th_id (fst j))) (\<lambda>t. ret (Some t))))"

definition isSqliteUniqueConstraintError :: "err \<Rightarrow> bool" where
  "isSqliteUniqueConstraintError e = (case e of SqliteConstraint _ _ \<Rightarrow> True | _ \<Rightarrow> False)"

text \<open>\<open>bound_elsewhere\<close>: \<^verbatim>\<open>owner !== undefined && owner.id !== threadId\<close>\<close>

definition bound_elsewhere :: "thread_id \<Rightarrow> string \<Rightarrow> db \<Rightarrow> bool" where
  "bound_elsewhere i codex d =
     (case getThreadRowByCodexThreadId codex d of None \<Rightarrow> False | Some j \<Rightarrow> th_id (fst j) \<noteq> i)"

fun repairLoop :: "(thread_id \<times> string) list \<Rightarrow> thread_id list \<Rightarrow> ('fs, 'x, thread_id list) io" where
  "repairLoop [] repaired = ret repaired"
| "repairLoop ((i, codex) # rest) repaired =
     bindE
       (catchE
         (bindE (read_db (bound_elsewhere i codex)) (\<lambda>taken.
          if taken then ret repaired
          else thenE (setThreadCodexId i codex) (ret (repaired @ [i]))))
         (\<lambda>e. if isSqliteUniqueConstraintError e then ret repaired else throw e))
       (repairLoop rest)"

definition repairCodexThreadBindings :: "('fs, 'x, thread_id list \<times> thread_id list) io" where
  "repairCodexThreadBindings =
     bindE (read_db listCodexBindingRepairCandidates) (\<lambda>candidates.
     bindE (repairLoop candidates []) (\<lambda>repaired.
     bindE (read_db listUnresolvedCodexBindingThreadIds) (\<lambda>unresolved.
     ret (repaired, unresolved))))"

definition setCodexThreadId :: "thread_id \<Rightarrow> string \<Rightarrow> ('fs, 'x, unit) io" where
  "setCodexThreadId i codex =
     bindE (read_db (bound_elsewhere i codex)) (\<lambda>taken.
     thenE (guardE (\<not> taken) codex_id_conflict)
     (catchE (setThreadCodexId i codex)
       (\<lambda>e. throw (if isSqliteUniqueConstraintError e then codex_id_conflict else e))))"

definition touchThread :: "thread_id \<Rightarrow> ('fs, 'x, unit) io" where
  "touchThread i = touchThreadRow i"

section \<open>Lookups\<close>

lemma fst_join_thread: "j \<in> set (join_thread d t) \<Longrightarrow> fst j = t"
  by (auto simp: join_thread_def split: list.splits)

lemma join_thread_nonempty: "join_thread d t \<noteq> []"
  by (auto simp: join_thread_def split: list.splits)

lemma threads_of_threadSelect: "fst ` set (threadSelect d) = set (db_threads d)"
proof
  show "fst ` set (threadSelect d) \<subseteq> set (db_threads d)"
    by (auto simp: threadSelect_def dest: fst_join_thread)
  show "set (db_threads d) \<subseteq> fst ` set (threadSelect d)"
  proof
    fix t assume "t \<in> set (db_threads d)"
    moreover obtain j where "j \<in> set (join_thread d t)"
      using join_thread_nonempty [of d t] by (cases "join_thread d t") auto
    ultimately show "t \<in> fst ` set (threadSelect d)"
      by (force simp: threadSelect_def dest: fst_join_thread)
  qed
qed

lemma getThreadRow_Some:
  "getThreadRow i d = Some j \<Longrightarrow> fst j \<in> set (db_threads d) \<and> th_id (fst j) = i"
  using threads_of_threadSelect [of d] by (auto simp: getThreadRow_def dest!: first_where_Some)

lemma getThreadRow_None: "getThreadRow i d = None \<longleftrightarrow> i \<notin> th_id ` set (db_threads d)"
  by (auto simp: getThreadRow_def first_where_None simp flip: threads_of_threadSelect)

lemma getThreadRow_fst:
  assumes "distinct (map th_id (db_threads d))" and "t \<in> set (db_threads d)" and "th_id t = i"
  shows "map_option fst (getThreadRow i d) = Some t"
proof -
  from assms obtain j where j: "getThreadRow i d = Some j"
    by (metis getThreadRow_None image_eqI not_None_eq)
  from getThreadRow_Some [OF j] assms have "fst j = t"
    by (metis distinct_map inj_onD)
  with j show ?thesis by simp
qed

lemma bound_elsewhere_iff:
  assumes "db_ok d"
  shows "bound_elsewhere i c d \<longleftrightarrow> (\<exists>t \<in> set (db_threads d). th_codexThreadId t = Some c \<and> th_id t \<noteq> i)"
proof -
  let ?js = "newest_first (filter (\<lambda>j. th_codexThreadId (fst j) = Some c) (threadSelect d))"
  have set: "fst ` set ?js = {t \<in> set (db_threads d). th_codexThreadId t = Some c}"
    by (auto simp: newest_first_def simp flip: threads_of_threadSelect)
  have same: "t = t'" if "t \<in> fst ` set ?js" "t' \<in> fst ` set ?js" for t t'
    using that assms unfolding set by (auto simp: db_ok_iff intro: somes_distinct)
  show ?thesis
  proof (cases ?js)
    case Nil
    with set have "\<not> (\<exists>t \<in> set (db_threads d). th_codexThreadId t = Some c)" by auto
    with Nil show ?thesis
      by (auto simp: bound_elsewhere_def getThreadRowByCodexThreadId_def first_where_def)
  next
    case (Cons j js)
    then have "getThreadRowByCodexThreadId c d = Some j"
      by (simp add: getThreadRowByCodexThreadId_def first_where_def)
    moreover have "fst j \<in> fst ` set ?js" using Cons by simp
    ultimately show ?thesis using same set by (auto simp: bound_elsewhere_def)
  qed
qed

section \<open>Binding Codex threads\<close>

definition bind_codex :: "thread_id \<Rightarrow> string \<Rightarrow> ms \<Rightarrow> db \<Rightarrow> db" where
  "bind_codex i c t =
     update_threads (\<lambda>_ r. th_id r = i) (\<lambda>r. r\<lparr>th_codexThreadId := Some c, th_updatedAt := t\<rparr>)"

lemma map_bind_codex:
  "(\<And>r. g (r\<lparr>th_codexThreadId := Some c, th_updatedAt := t\<rparr>) = g r) \<Longrightarrow>
   map g (db_threads (bind_codex i c t d)) = map g (db_threads d)"
  by (simp add: bind_codex_def update_threads_def map_update_where)

lemma list_all_update_where:
  "(\<And>r. P (f r) = P r) \<Longrightarrow> list_all P (update_where p f ts) = list_all P ts"
  by (induction ts) (auto simp: update_where_def)

lemma somes_bind:
  assumes "distinct (map th_id ts)" and "distinct (somes (map th_codexThreadId ts))"
    and "\<forall>t \<in> set ts. th_codexThreadId t = Some c \<longrightarrow> th_id t = i"
  shows "distinct (somes (map th_codexThreadId
    (update_where (\<lambda>r. th_id r = i) (\<lambda>r. r\<lparr>th_codexThreadId := Some c, th_updatedAt := u\<rparr>) ts)))"
  using assms
proof (induction ts)
  case (Cons t ts)
  let ?up = "update_where (\<lambda>r. th_id r = i) (\<lambda>r. r\<lparr>th_codexThreadId := Some c, th_updatedAt := u\<rparr>)"
  have IH: "distinct (somes (map th_codexThreadId (?up ts)))"
    using Cons by (cases "th_codexThreadId t") auto
  have up: "?up (t # ts) = (if th_id t = i then t\<lparr>th_codexThreadId := Some c, th_updatedAt := u\<rparr> else t) # ?up ts"
    by (simp add: update_where_def)
  show ?case
  proof (cases "th_id t = i")
    case True
    with Cons.prems(1) have others: "\<forall>r \<in> set ts. th_id r \<noteq> i" by (auto simp: image_iff)
    then have same: "?up ts = ts" by (intro update_where_none) auto
    from others Cons.prems(3) have "c \<notin> set (somes (map th_codexThreadId ts))"
      by (auto simp: set_somes image_iff)
    with True IH show ?thesis unfolding up same by simp
  next
    case False
    show ?thesis
    proof (cases "th_codexThreadId t")
      case None
      with False IH show ?thesis unfolding up by simp
    next
      case (Some v)
      with False Cons.prems have "v \<noteq> c" "\<forall>r \<in> set ts. th_codexThreadId r \<noteq> Some v"
        by (auto simp: set_somes image_iff)
      then have "v \<notin> set (somes (map th_codexThreadId (?up ts)))"
        by (auto simp: set_somes update_where_def image_iff split: if_splits)
      with False Some IH show ?thesis unfolding up by simp
    qed
  qed
qed (simp add: update_where_def)

lemma db_ok_bind_codex:
  assumes ok: "db_ok d" and free: "\<not> bound_elsewhere i c d"
  shows "db_ok (bind_codex i c t d)"
proof -
  have "distinct (somes (map th_codexThreadId (db_threads (bind_codex i c t d))))"
    using somes_bind [of "db_threads d" c i t] ok free [unfolded bound_elsewhere_iff [OF ok]]
    by (auto simp: db_ok_iff bind_codex_def update_threads_def)
  moreover have "map th_id (db_threads (bind_codex i c t d)) = map th_id (db_threads d)"
    by (simp add: map_bind_codex)
  ultimately show ?thesis
    using ok by (simp add: db_ok_iff bind_codex_def update_threads_def live_schedules_def
      list_all_update_where)
qed

lemma run_setThreadCodexId:
  assumes "ok_state s" and "\<not> bound_elsewhere i c (rt_db s)"
  shows "setThreadCodexId i c s =
    (Inr (), s\<lparr>rt_tick := Suc (rt_tick s),
      rt_db := bind_codex i c (rt_now s (rt_tick s) div 1000 * 1000) (rt_db s)\<rparr>)"
  using db_ok_bind_codex [OF assms]
  by (simp add: setThreadCodexId_def run_simps db_ok_def bind_codex_def)

text \<open>
  C35. Binding a thread to a Codex thread is refused with \<open>THREAD_CODEX_ID_CONFLICT\<close> exactly when
  another thread has that Codex id, and then changes nothing; no other error can come out, the
  unique index of the database included. Otherwise the thread, and only it, gets the Codex id,
  and it is the only one that has it.
\<close>
theorem setCodexThreadId_binding:
  assumes "ok_state s"
  shows "case setCodexThreadId i c s of
      (Inl e, s') \<Rightarrow>
        e = codex_id_conflict \<and> s' = s \<and>
        (\<exists>t \<in> set (db_threads (rt_db s)). th_codexThreadId t = Some c \<and> th_id t \<noteq> i)
    | (Inr _, s') \<Rightarrow>
        ok_state s' \<and>
        (\<exists>now. db_threads (rt_db s') =
           map (\<lambda>t. if th_id t = i then t\<lparr>th_codexThreadId := Some c, th_updatedAt := now\<rparr> else t)
             (db_threads (rt_db s))) \<and>
        (\<forall>t \<in> set (db_threads (rt_db s')). th_codexThreadId t = Some c \<longrightarrow> th_id t = i)"
proof (cases "bound_elsewhere i c (rt_db s)")
  case True
  with assms show ?thesis by (simp add: setCodexThreadId_def run_simps bound_elsewhere_iff)
next
  case False
  let ?t = "rt_now s (rt_tick s) div 1000 * 1000"
  let ?s' = "s\<lparr>rt_tick := Suc (rt_tick s), rt_db := bind_codex i c ?t (rt_db s)\<rparr>"
  have run: "setCodexThreadId i c s = (Inr (), ?s')"
    using False by (simp add: setCodexThreadId_def run_simps run_setThreadCodexId [OF assms False])
  have rows: "db_threads (rt_db ?s') =
      map (\<lambda>t. if th_id t = i then t\<lparr>th_codexThreadId := Some c, th_updatedAt := ?t\<rparr> else t)
        (db_threads (rt_db s))"
    by (simp add: bind_codex_def update_threads_def update_where_def)
  have "\<forall>t \<in> set (db_threads (rt_db ?s')). th_codexThreadId t = Some c \<longrightarrow> th_id t = i"
  proof
    fix t assume "t \<in> set (db_threads (rt_db ?s'))"
    then obtain r where "r \<in> set (db_threads (rt_db s))" and
      "t = (if th_id r = i then r\<lparr>th_codexThreadId := Some c, th_updatedAt := ?t\<rparr> else r)"
      unfolding rows by auto
    with False [unfolded bound_elsewhere_iff [OF assms]]
    show "th_codexThreadId t = Some c \<longrightarrow> th_id t = i" by (cases "th_id r = i") simp_all
  qed
  moreover have "ok_state ?s'" using db_ok_bind_codex [OF assms False, of ?t] by simp
  ultimately show ?thesis using rows unfolding run prod.case sum.case by blast
qed

section \<open>Repairing the bindings\<close>

lemma repairLoop_binds:
  assumes "ok_state s" and "distinct (map fst cs)" and "distinct (map snd cs)"
    and "\<forall>(i, c) \<in> set cs. \<forall>t \<in> set (db_threads (rt_db s)). th_codexThreadId t \<noteq> Some c"
  shows "\<exists>s'. repairLoop cs acc s = (Inr (acc @ map fst cs), s') \<and> ok_state s' \<and>
    map (\<lambda>t. (th_id t, th_codexThreadId t)) (db_threads (rt_db s')) =
    map (\<lambda>t. (th_id t, orElse (map_of cs (th_id t)) (th_codexThreadId t))) (db_threads (rt_db s))"
  using assms
proof (induction cs arbitrary: s acc)
  case Nil
  then show ?case by (simp add: run_simps orElse_def)
next
  case (Cons x cs)
  obtain i c where x: "x = (i, c)" by fastforce
  let ?t = "rt_now s (rt_tick s) div 1000 * 1000"
  let ?s1 = "s\<lparr>rt_tick := Suc (rt_tick s), rt_db := bind_codex i c ?t (rt_db s)\<rparr>"
  have free: "\<not> bound_elsewhere i c (rt_db s)"
    using Cons.prems x by (auto simp: bound_elsewhere_iff)
  have ok1: "ok_state ?s1" using db_ok_bind_codex [OF Cons.prems(1) free] by simp
  have rows: "db_threads (rt_db ?s1) =
      map (\<lambda>t. if th_id t = i then t\<lparr>th_codexThreadId := Some c, th_updatedAt := ?t\<rparr> else t)
        (db_threads (rt_db s))"
    by (simp add: bind_codex_def update_threads_def update_where_def)
  have d: "distinct (map fst cs)" "distinct (map snd cs)" "c \<notin> snd ` set cs"
    using Cons.prems x by auto
  have free1: "\<forall>(j, e) \<in> set cs. \<forall>t \<in> set (db_threads (rt_db ?s1)). th_codexThreadId t \<noteq> Some e"
  proof (intro ballI, clarify)
    fix j e t assume "(j, e) \<in> set cs" and "t \<in> set (db_threads (rt_db ?s1))" and "th_codexThreadId t = Some e"
    moreover from this d(3) have "e \<noteq> c" by (force simp: image_iff)
    ultimately show False using Cons.prems(4) unfolding rows by (force simp: x split: if_splits)
  qed
  from Cons.IH [OF ok1 d(1,2) free1, of "acc @ [i]"] obtain s' where
    s': "repairLoop cs (acc @ [i]) ?s1 = (Inr ((acc @ [i]) @ map fst cs), s')" "ok_state s'"
    "map (\<lambda>t. (th_id t, th_codexThreadId t)) (db_threads (rt_db s')) =
     map (\<lambda>t. (th_id t, orElse (map_of cs (th_id t)) (th_codexThreadId t))) (db_threads (rt_db ?s1))"
    by blast
  have "repairLoop (x # cs) acc s = (Inr (acc @ map fst (x # cs)), s')"
    using s'(1) free by (simp add: x run_simps run_setThreadCodexId [OF Cons.prems(1) free])
  moreover have "map_of cs i = None"
    using Cons.prems(2) x by (simp add: map_of_absent)
  then have "map (\<lambda>t. (th_id t, orElse (map_of cs (th_id t)) (th_codexThreadId t))) (db_threads (rt_db ?s1)) =
     map (\<lambda>t. (th_id t, orElse (map_of (x # cs) (th_id t)) (th_codexThreadId t))) (db_threads (rt_db s))"
    unfolding rows by (auto simp: x orElse_def)
  ultimately show ?case using s' by auto
qed

lemma repair_candidate:
  "(i, c) \<in> set (listCodexBindingRepairCandidates d) \<Longrightarrow>
   \<exists>t \<in> set (db_threads d). th_id t = i \<and> th_codexThreadId t = None \<and> repairable_codex_ids d t = [c]"
  by (force simp: listCodexBindingRepairCandidates_def split: list.splits)

lemma repairable_codex_id:
  assumes "c \<in> set (repairable_codex_ids d t)"
  shows "\<exists>r \<in> set (db_runs d). rn_threadId r = Some (th_id t) \<and> rn_codexThreadId r = Some c"
    and "\<forall>m \<in> set (db_threads d). th_codexThreadId m = Some c \<longrightarrow> th_id m = th_id t"
    and "\<forall>r \<in> set (db_runs d). rn_codexThreadId r = Some c \<longrightarrow> rn_threadId r = Some (th_id t)"
  using assms by (auto simp: repairable_codex_ids_def set_somes list_ex_iff image_iff)

lemma distinct_groups:
  "distinct (map k ts) \<Longrightarrow>
   distinct (map fst (concat (map (\<lambda>t. case g t of [c] \<Rightarrow> [(k t, c)] | _ \<Rightarrow> []) ts)))"
  by (induction ts) (auto split: list.splits)

lemma repair_candidates_distinct:
  assumes "db_ok d"
  shows "distinct (map fst (listCodexBindingRepairCandidates d))"
    and "distinct (map snd (listCodexBindingRepairCandidates d))"
proof -
  let ?cs = "listCodexBindingRepairCandidates d"
  have "distinct (map th_id (filter (\<lambda>t. th_codexThreadId t = None) (db_threads d)))"
    using assms by (simp add: db_ok_iff distinct_map_filter)
  from distinct_groups [OF this, of "repairable_codex_ids d"]
  show fsts: "distinct (map fst ?cs)" by (simp add: listCodexBindingRepairCandidates_def)
  have "i = j" if "(i, c) \<in> set ?cs" "(j, c) \<in> set ?cs" for i j c
  proof -
    from that obtain t u where t: "th_id t = i" "repairable_codex_ids d t = [c]"
      and u: "th_id u = j" "repairable_codex_ids d u = [c]" by (blast dest: repair_candidate)
    from t u repairable_codex_id(1,3) [of c d t] repairable_codex_id(3) [of c d u] show "i = j" by auto
  qed
  then have "inj_on snd (set ?cs)" by (auto simp: inj_on_def)
  moreover have "distinct ?cs" using fsts by (simp add: distinct_map)
  ultimately show "distinct (map snd ?cs)" by (simp add: distinct_map)
qed

text \<open>
  C36. The repair of lost Codex bindings never fails and misses no candidate: it binds every thread
  that has exactly one Codex id in its runs which no other thread and no other run claims, to
  that id, keeps every other binding, and reports the threads it has bound.
\<close>
theorem repairCodexThreadBindings_complete:
  assumes "ok_state s"
  shows "let cs = listCodexBindingRepairCandidates (rt_db s) in
    \<exists>s'. repairCodexThreadBindings s =
           (Inr (map fst cs, listUnresolvedCodexBindingThreadIds (rt_db s')), s') \<and>
         ok_state s' \<and>
         map (\<lambda>t. (th_id t, th_codexThreadId t)) (db_threads (rt_db s')) =
         map (\<lambda>t. (th_id t, orElse (map_of cs (th_id t)) (th_codexThreadId t))) (db_threads (rt_db s))"
proof -
  let ?cs = "listCodexBindingRepairCandidates (rt_db s)"
  have "\<forall>(i, c) \<in> set ?cs. \<forall>t \<in> set (db_threads (rt_db s)). th_codexThreadId t \<noteq> Some c"
  proof (intro ballI, clarify)
    fix i c t assume "(i, c) \<in> set ?cs" and t: "t \<in> set (db_threads (rt_db s))" "th_codexThreadId t = Some c"
    then obtain u where u: "u \<in> set (db_threads (rt_db s))" "th_id u = i" "th_codexThreadId u = None"
      "repairable_codex_ids (rt_db s) u = [c]" by (blast dest: repair_candidate)
    with repairable_codex_id(2) [of c "rt_db s" u] t have "th_id t = th_id u" by auto
    moreover have "distinct (map th_id (db_threads (rt_db s)))" using assms by (simp add: db_ok_iff)
    ultimately have "t = u" using t(1) u(1) by (metis distinct_map inj_onD)
    with t(2) u(3) show False by simp
  qed
  from repairLoop_binds [OF assms repair_candidates_distinct [OF assms] this, of "[]"]
  show ?thesis by (auto simp: repairCodexThreadBindings_def run_simps Let_def)
qed

section \<open>Runnable threads\<close>

text \<open>
  A thread may run exactly when it exists and is either no conversation, or assigned to an
  active project whose directory exists and still is the one that was registered. The check
  returns the thread and changes nothing, in both cases.
\<close>
lemma assertRunnableThread_iff:
  "snd (assertRunnableThread E i s) = s \<and>
   (fst (assertRunnableThread E i s) = Inr t \<longleftrightarrow>
      getThread E i (rt_db s) = Some t \<and>
      (th_purpose t = Conversation \<longrightarrow>
        (\<exists>p. Option.bind (th_projectId t) (\<lambda>j. getProjectRow j (rt_db s)) = Some p \<and>
             pj_status p = Active \<and>
             env_isDirectory E (rt_fs s) (pj_cwd p) = Inr True \<and>
             (\<exists>canonical. pj_canonicalCwd p = Some canonical \<and>
                env_realpathSync E (rt_fs s) (pj_cwd p) = Inr canonical))))"
proof (cases "getThreadRow i (rt_db s)")
  case None
  then show ?thesis by (simp add: assertRunnableThread_def run_simps getThread_def)
next
  case (Some j)
  let ?t = "mapThreadRow E j"
  show ?thesis
  proof (cases "th_purpose ?t = Conversation \<and> th_projectId ?t \<noteq> None")
    case False
    with Some show ?thesis by (auto simp: assertRunnableThread_def run_simps getThread_def)
  next
    case True
    then obtain k where k: "th_projectId ?t = Some k" by auto
    have arch: "pj_status p \<noteq> Archived \<longleftrightarrow> pj_status p = Active" for p
      by (cases "pj_status p") auto
    from True Some k show ?thesis
      by (cases "getProjectRow k (rt_db s)")
         (auto simp: assertRunnableThread_def run_simps getThread_def getProject_def usable_project_def
            mapProjectRow_def readDirectoryState_def arch split: if_splits option.splits)
  qed
qed

section \<open>The project of a thread\<close>

text \<open>
  \<open>thread_step E i\<close>: one operation of the thread manager, or of the project manager on the
  threads, other than the deletion of thread \<open>i\<close>.
\<close>

inductive thread_step :: "('fs, 'e) env_scheme \<Rightarrow> thread_id \<Rightarrow> ('fs, 'x) rt_scheme \<Rightarrow> ('fs, 'x) rt_scheme \<Rightarrow> bool"
  for E i where
  create: "thread_step E i s (snd (createThread E q s))"
| createSchedule: "thread_step E i s (snd (createScheduleThread E q s))"
| createConversation: "thread_step E i s (snd (createConversationThread E cq s))"
| createKnowledge: "thread_step E i s (snd (createKnowledgeThread E subject projectId title s))"
| assign: "thread_step E i s (snd (assignProject E j projectId s))"
| update: "thread_step E i s (snd (updateThread E j uq s))"
| updateSchedule: "thread_step E i s (snd (updateScheduleThread E j sq s))"
| setPurpose: "thread_step E i s (snd (setPurpose E j purpose s))"
| archive: "thread_step E i s (snd (archiveThread E j s))"
| archiveSchedule: "thread_step E i s (snd (archiveScheduleThread E j s))"
| archiveCodex: "thread_step E i s (snd (archiveCodexThread E codex s))"
| delete: "j \<noteq> i \<Longrightarrow> thread_step E i s (snd (deleteThread j s))"
| repair: "thread_step E i s (snd (repairCodexThreadBindings s))"
| setCodex: "thread_step E i s (snd (setCodexThreadId j codex s))"
| touch: "thread_step E i s (snd (touchThread j s))"
| replaceDirectory: "thread_step E i s (snd (replaceProjectDirectory E projectId dir s))"
| migrate: "thread_step E i s (snd (migrateLocalStorageV1 E hash request s))"

definition assigned :: "thread_id \<Rightarrow> string \<Rightarrow> db \<Rightarrow> bool" where
  "assigned i p d \<longleftrightarrow> (\<exists>t \<in> set (db_threads d). th_id t = i \<and> th_projectId t = Some p)"

lemma assigned_write:
  "(\<And>d t. t \<in> set (db_threads d) \<Longrightarrow> th_id t = i \<Longrightarrow> th_projectId t = Some p \<Longrightarrow>
      \<exists>u \<in> set (db_threads (f d)). th_id u = i \<and> th_projectId u = Some p) \<Longrightarrow>
   db_keeps (assigned i p) (write_db f)"
  by (rule db_keeps_write) (auto simp: assigned_def)

lemma assigned_update:
  assumes "\<And>d t. q d t \<Longrightarrow> th_id t = i \<Longrightarrow> th_projectId t = Some p \<Longrightarrow>
      th_id (f t) = i \<and> th_projectId (f t) = Some p"
  shows "db_keeps (assigned i p) (write_db (update_threads q f))"
proof (rule assigned_write)
  fix d :: db and t assume "t \<in> set (db_threads d)" "th_id t = i" "th_projectId t = Some p"
  with assms [of d t] show "\<exists>u \<in> set (db_threads (update_threads q f d)). th_id u = i \<and> th_projectId u = Some p"
    by (cases "q d t") (force simp: update_threads_def set_update_where)+
qed

lemma assigned_statements [keeps_rules]:
  "db_keeps (assigned i p) (insertThread row)"
  "db_keeps (assigned i p) (archiveThreadRow j)"
  "db_keeps (assigned i p) (updateThreadRow j title model reasoning pinned)"
  "db_keeps (assigned i p) (assignProjectRow j projectId)"
  "db_keeps (assigned i p) (updateThreadSandbox j sandbox)"
  "db_keeps (assigned i p) (updateScheduleThreadRow j ti cwd ca pr mo re sa)"
  "db_keeps (assigned i p) (setThreadPurpose j purpose)"
  "db_keeps (assigned i p) (setThreadCodexId j codex)"
  "db_keeps (assigned i p) (touchThreadRow j)"
  "db_keeps (assigned i p) (updateProjectThreadsDirectory pj cwd ca)"
  "db_keeps (assigned i p) (insertProject prow so)"
  "db_keeps (assigned i p) (replaceProjectDirectoryRow k cwd ca)"
  "db_keeps (assigned i p) (saveMigration key h result)"
  unfolding insertThread_def archiveThreadRow_def updateThreadRow_def assignProjectRow_def
    updateThreadSandbox_def updateScheduleThreadRow_def setThreadPurpose_def setThreadCodexId_def
    touchThreadRow_def updateProjectThreadsDirectory_def insertProject_def
    replaceProjectDirectoryRow_def saveMigration_def
  by (intro keeps_rules assigned_update assigned_write;
      force simp: archived_thread_def assignable_def update_project_def)+

lemma assigned_delete [keeps_rules]: "j \<noteq> i \<Longrightarrow> db_keeps (assigned i p) (deleteThreadRow j)"
  unfolding deleteThreadRow_def
  by (intro keeps_rules assigned_write) (auto simp: delete_thread_rows_def Let_def)

lemma assigned_migration [keeps_rules]:
  "db_keeps (assigned i p) (migrateProjects E ps ids dirs)"
  "db_keeps (assigned i p) (migrateThreads dirs ts a u)"
proof -
  show "db_keeps (assigned i p) (migrateProjects E ps ids dirs)"
    by (induction E ps ids dirs rule: migrateProjects.induct)
       (auto simp: createMigratedProjectRecord_def readMigratedDirectory_def readProject_def
          nextAvailableId_def intro!: keeps_rules split: prod.splits)
  show "db_keeps (assigned i p) (migrateThreads dirs ts a u)"
    by (induction dirs ts a u rule: migrateThreads.induct) (auto intro!: keeps_rules)
qed

lemma assigned_repairLoop [keeps_rules]: "db_keeps (assigned i p) (repairLoop cs acc)"
  by (induction cs acc rule: repairLoop.induct) (auto intro!: keeps_rules)

lemma assigned_create [keeps_rules]: "db_keeps (assigned i p) (createRuntimeThread E q)"
  by (auto simp: createRuntimeThread_def readThread_def Let_def intro!: keeps_rules)

lemma assigned_step:
  assumes "thread_step E i s s'" and "assigned i p (rt_db s)"
  shows "assigned i p (rt_db s')"
  using assms
  by (cases rule: thread_step.cases)
     (auto intro!: db_keepsD [where P = "assigned i p"] keeps_rules
       simp: createThread_def createScheduleThread_def createConversationThread_def
         createKnowledgeThread_def assignProject_def updateThread_def updateScheduleThread_def
         setPurpose_def archiveThread_def archiveScheduleThread_def archiveCodexThread_def
         deleteThread_def repairCodexThreadBindings_def setCodexThreadId_def touchThread_def
         replaceProjectDirectory_def migrateLocalStorageV1_def readThread_def getRequiredThread_def
         getRequiredProject_def requireAvailableDirectory_def readProject_def Let_def
       split: option.splits bool.splits prod.splits)

text \<open>
  C37. A conversation belongs to one project for good: once a thread is assigned to a project, no
  sequence of operations moves it to another project or takes it out, as long as the thread
  itself is not deleted.
\<close>
theorem assigned_project_kept:
  "(thread_step E i)\<^sup>*\<^sup>* s s' \<Longrightarrow> t \<in> set (db_threads (rt_db s)) \<Longrightarrow> th_id t = i \<Longrightarrow>
   th_projectId t = Some p \<Longrightarrow>
   \<exists>t' \<in> set (db_threads (rt_db s')). th_id t' = i \<and> th_projectId t' = Some p"
proof -
  assume "(thread_step E i)\<^sup>*\<^sup>* s s'" and "t \<in> set (db_threads (rt_db s))" "th_id t = i" "th_projectId t = Some p"
  then have "assigned i p (rt_db s')"
    by (induction rule: rtranclp_induct) (auto simp: assigned_def [of i p "rt_db s"] intro: assigned_step)
  then show ?thesis by (simp add: assigned_def)
qed

section \<open>Instances\<close>

definition sample_thread :: "thread_id \<Rightarrow> string option \<Rightarrow> string option \<Rightarrow> thread_row" where
  "sample_thread i codex project =
     (new_thread_row sample_env i ''/a'' ''/a''
       \<lparr>ct_title = None, ct_cwd = None, ct_canonicalCwd = None, ct_workspaceMode = None,
        ct_profile = None, ct_model = None, ct_reasoning = None, ct_sandbox = None, ct_purpose = None,
        ct_projectId = project, ct_origin = ClaweeCreated, ct_enterpriseSubjectId = None\<rparr>)
     \<lparr>th_codexThreadId := codex\<rparr>"

definition sample_run :: "run_id \<Rightarrow> thread_id option \<Rightarrow> string option \<Rightarrow> run_row" where
  "sample_run i thread codex =
     \<lparr>rn_id = i, rn_threadId = thread, rn_codexThreadId = codex, rn_resumeMode = None,
      rn_queueState = QNone, rn_submissionMode = Enqueue, rn_publicStatus = PSucceeded,
      rn_internalStatus = ISucceeded, rn_createdBy = ByApi, rn_sourceId = None, rn_publicPrompt = None,
      rn_triggeredAt = None, rn_profile = ''default'', rn_cwd = ''/a'', rn_model = None,
      rn_reasoning = None, rn_sandbox = WorkspaceWrite, rn_timeoutMs = None,
      rn_terminationReason = None, rn_exitCode = None, rn_signal = None, rn_startedAt = None,
      rn_endedAt = None, rn_createdAt = 0, rn_updatedAt = 0, rn_errorCode = None, rn_errorMessage = None\<rparr>"

definition sample_threads :: "string list rt" where
  "sample_threads =
     sample_rt (empty_db\<lparr>db_projects := [sample_project ''a'' 0],
       db_threads := [sample_thread ''t1'' None None, sample_thread ''t2'' (Some ''c2'') None,
                      sample_thread ''t3'' None (Some ''a'')],
       db_runs := [sample_run ''r1'' (Some ''t1'') (Some ''c1'')]\<rparr>)"

lemma sample_threads_ok: "ok_state sample_threads"
  unfolding db_ok_def by (simp only: sample_threads_def sample_rt_def rt.simps) code_simp

lemma setCodexThreadId_binding_witness:
  "fst (setCodexThreadId ''t1'' ''c2'' sample_threads) = Inl codex_id_conflict \<and>
   (\<exists>t \<in> set (db_threads (rt_db sample_threads)). th_codexThreadId t = Some ''c2'' \<and> th_id t \<noteq> ''t1'')"
proof -
  let ?run = "setCodexThreadId ''t1'' ''c2'' sample_threads"
  have "fst ?run = Inl codex_id_conflict" by code_simp
  then obtain s' where run: "?run = (Inl codex_id_conflict, s')" by (cases ?run) auto
  from setCodexThreadId_binding [OF sample_threads_ok, where i = "''t1''" and c = "''c2''"] show ?thesis
    unfolding run by simp
qed

lemma repairCodexThreadBindings_complete_witness:
  "\<exists>unresolved s'. repairCodexThreadBindings sample_threads = (Inr ([''t1''], unresolved), s') \<and>
     map (\<lambda>t. (th_id t, th_codexThreadId t)) (db_threads (rt_db s')) =
       [(''t1'', Some ''c1''), (''t2'', Some ''c2''), (''t3'', None)]"
proof -
  have cs: "listCodexBindingRepairCandidates (rt_db sample_threads) = [(''t1'', ''c1'')]" by code_simp
  have rows: "map (\<lambda>t. (th_id t, orElse (map_of [(''t1'', ''c1'')] (th_id t)) (th_codexThreadId t)))
      (db_threads (rt_db sample_threads)) = [(''t1'', Some ''c1''), (''t2'', Some ''c2''), (''t3'', None)]"
    by code_simp
  from repairCodexThreadBindings_complete [OF sample_threads_ok] show ?thesis
    unfolding Let_def cs rows by auto
qed

lemma assertRunnableThread_iff_witness:
  "\<exists>t. fst (assertRunnableThread sample_env ''t3'' sample_threads) = Inr t \<and>
       getThread sample_env ''t3'' (rt_db sample_threads) = Some t"
proof -
  let ?r = "fst (assertRunnableThread sample_env ''t3'' sample_threads)"
  have "case ?r of Inl _ \<Rightarrow> False | Inr _ \<Rightarrow> True" by code_simp
  then obtain t where "?r = Inr t" by (cases ?r) auto
  with assertRunnableThread_iff [of sample_env "''t3''" sample_threads t] show ?thesis by blast
qed

lemma assigned_project_kept_witness:
  "\<exists>t' \<in> set (db_threads (rt_db (snd (archiveThread sample_env ''t3'' sample_threads)))).
     th_id t' = ''t3'' \<and> th_projectId t' = Some ''a''"
proof (rule assigned_project_kept)
  show "(thread_step sample_env ''t3'')\<^sup>*\<^sup>* sample_threads (snd (archiveThread sample_env ''t3'' sample_threads))"
    by (rule r_into_rtranclp, rule thread_step.archive)
  show "sample_thread ''t3'' None (Some ''a'') \<in> set (db_threads (rt_db sample_threads))"
    by (simp add: sample_threads_def sample_rt_def)
qed (simp_all add: sample_thread_def new_thread_row_def)

end
