(* ===== verification/RunOutcome.thy ===== *)
theory RunOutcome
  imports CodexArgs Threads
begin

text \<open>
  The decisions of the run manager \<^verbatim>\<open>runs/manager.ts\<close> that depend on a run's request and on what
  its Codex process reported, and on nothing else: the resume mode, the timeouts, and for each
  way a process ends whether the run starts over in a new Codex thread or how it is finished.

  The handlers \<^verbatim>\<open>handleExecResult\<close>, \<^verbatim>\<open>handleExecError\<close>, \<^verbatim>\<open>handleAppServerResult\<close> and
  \<^verbatim>\<open>handleAppServerError\<close> first compute such a decision, a \<open>verdict\<close>, and then carry it out;
  theory \<open>RunManager\<close> has the second half. An error value is a \<open>js_error\<close>: whether it is a
  \<^verbatim>\<open>CodexExecError\<close> and with which reason, its \<^verbatim>\<open>code\<close> when that is a string, its message, and its
  \<^verbatim>\<open>cause\<close>.
\<close>

section \<open>Requests\<close>

datatype resume_request = RrAuto | RrNewThread | RrResumeThread

record context_item =
  ci_kind :: string
  ci_sourceId :: string
  ci_content :: string
  ci_order :: int

record run_base =
  rb_prompt :: string
  rb_executionPrompt :: "string option"
  rb_publicPrompt :: "string option"
  rb_triggeredAt :: "ms option"
  rb_contextItems :: "context_item list"
  rb_resumeMode :: "resume_request option"
  rb_createdBy :: "run_creator option"
  rb_sourceId :: "string option"
  rb_timeoutMs :: "int option"
  rb_imagePaths :: "string list"
  rb_attachmentIds :: "string list"
  rb_submissionMode :: "submission_mode option"
  rb_threadId :: "thread_id option"

text \<open>
  \<^verbatim>\<open>CreateRunInput\<close>; of model and reasoning, \<open>None\<close> is an absent property and \<open>Some None\<close> one
  that is \<^verbatim>\<open>undefined\<close>.
\<close>

record create_run = run_base +
  cr_cwd :: "string option"
  cr_profile :: "string option"
  cr_sandbox :: "sandbox_mode option"
  cr_model :: "string option option"
  cr_reasoning :: "reasoning_effort option option"

text \<open>\<^verbatim>\<open>ResolvedCreateRunInput\<close>\<close>

record resolved_run = run_base +
  ri_cwd :: string
  ri_profile :: string
  ri_sandbox :: sandbox_mode
  ri_model :: "string option"
  ri_reasoning :: "reasoning_effort option"

definition submission_of :: "'x run_base_scheme \<Rightarrow> submission_mode" where
  "submission_of q = option_or (rb_submissionMode q) Enqueue"

definition creator_of :: "'x run_base_scheme \<Rightarrow> run_creator" where
  "creator_of q = option_or (rb_createdBy q) ByApi"

section \<open>Text\<close>

text \<open>\<^verbatim>\<open>toLowerCase\<close> and \<^verbatim>\<open>includes\<close>, for code units below 256\<close>

definition js_lower_char :: "char \<Rightarrow> char" where
  "js_lower_char c =
     (let n = of_char c :: nat in
      if 65 \<le> n \<and> n \<le> 90 \<or> 192 \<le> n \<and> n \<le> 222 \<and> n \<noteq> 215 then char_of (n + 32) else c)"

definition js_lower :: "string \<Rightarrow> string" where
  "js_lower s = map js_lower_char s"

fun starts_with :: "string \<Rightarrow> string \<Rightarrow> bool" where
  "starts_with [] s = True"
| "starts_with (p # ps) [] = False"
| "starts_with (p # ps) (c # s) = (p = c \<and> starts_with ps s)"

fun js_includes :: "string \<Rightarrow> string \<Rightarrow> bool" where
  "js_includes [] sub = starts_with sub []"
| "js_includes (c # s) sub = (starts_with sub (c # s) \<or> js_includes s sub)"

section \<open>Resuming\<close>

text \<open>An empty string is falsy, as \<^verbatim>\<open>undefined\<close> is.\<close>

definition truthy :: "string option \<Rightarrow> bool" where
  "truthy x \<longleftrightarrow> x \<noteq> None \<and> x \<noteq> Some []"

definition resolveResumeMode :: "'x run_base_scheme \<Rightarrow> 'y thread_row_scheme option \<Rightarrow> resume_mode" where
  "resolveResumeMode q thread =
     (if \<not> truthy (rb_threadId q) then Independent
      else if rb_resumeMode q = Some RrNewThread then NewThread
      else if rb_resumeMode q = Some RrResumeThread then ResumeThread
      else if truthy (case thread of None \<Rightarrow> None | Some t \<Rightarrow> th_codexThreadId t) then ResumeThread
      else NewThread)"

definition shouldAutomaticallyRotateRun :: "'x run_base_scheme \<Rightarrow> bool" where
  "shouldAutomaticallyRotateRun q \<longleftrightarrow>
     \<not> (rb_threadId q = None \<or> rb_resumeMode q \<noteq> None \<and> rb_resumeMode q \<noteq> Some RrAuto) \<and>
     rb_createdBy q = Some BySchedule"

definition shouldRecoverMissingAutoResume :: "'x run_base_scheme \<Rightarrow> bool" where
  "shouldRecoverMissingAutoResume q \<longleftrightarrow>
     rb_threadId q \<noteq> None \<and> (rb_resumeMode q = None \<or> rb_resumeMode q = Some RrAuto)"

definition DEFAULT_CODEX_THREAD_ROTATION_RUN_THRESHOLD :: nat where
  "DEFAULT_CODEX_THREAD_ROTATION_RUN_THRESHOLD = 50"

text \<open>A number of the configuration: \<open>None\<close> is an infinity or \<^verbatim>\<open>NaN\<close>.\<close>

definition normalizeRotationRunThreshold :: "rat option option \<Rightarrow> nat" where
  "normalizeRotationRunThreshold v =
     (case v of
        None \<Rightarrow> DEFAULT_CODEX_THREAD_ROTATION_RUN_THRESHOLD
      | Some None \<Rightarrow> DEFAULT_CODEX_THREAD_ROTATION_RUN_THRESHOLD
      | Some (Some r) \<Rightarrow> nat (max 0 \<lfloor>r\<rfloor>))"

section \<open>Timeouts\<close>

definition INTERACTIVE_RUN_TIMEOUT_MS :: int where "INTERACTIVE_RUN_TIMEOUT_MS = 2 * 60 * 60 * 1000"

definition SCHEDULED_RUN_TIMEOUT_MS :: int where "SCHEDULED_RUN_TIMEOUT_MS = 30 * 60 * 1000"

definition EXEC_INACTIVITY_TIMEOUT_MS :: int where "EXEC_INACTIVITY_TIMEOUT_MS = 10 * 60 * 1000"

definition EXEC_SPAWN_TIMEOUT_MS :: int where "EXEC_SPAWN_TIMEOUT_MS = 30000"

record run_timeouts =
  rt_timeoutMs :: int
  rt_spawnTimeoutMs :: int
  rt_inactivityTimeoutMs :: int

definition resolveRunTimeouts ::
  "'x run_base_scheme \<Rightarrow> int option \<Rightarrow> int option \<Rightarrow> int option \<Rightarrow> run_timeouts" where
  "resolveRunTimeouts q timeoutMs spawnTimeoutMs inactivityTimeoutMs =
     (let default = (if rb_createdBy q = Some BySchedule then SCHEDULED_RUN_TIMEOUT_MS
                     else INTERACTIVE_RUN_TIMEOUT_MS) in
      \<lparr>rt_timeoutMs = option_or (rb_timeoutMs q) (option_or timeoutMs default),
       rt_spawnTimeoutMs = option_or spawnTimeoutMs EXEC_SPAWN_TIMEOUT_MS,
       rt_inactivityTimeoutMs = option_or inactivityTimeoutMs EXEC_INACTIVITY_TIMEOUT_MS\<rparr>)"

section \<open>What a process reports\<close>

datatype exec_reason =
    ErCompleted | ErCanceled | ErTimeout | ErSpawnTimeout | ErInactivityTimeout | ErSpawnFailed
  | ErStdinError | ErStreamHandlerFailed

record exec_result =
  er_exitCode :: "int option"
  er_signal :: "string option"
  er_terminationReason :: exec_reason

datatype turn_status = TurnCompleted | TurnInterrupted | TurnFailed

record app_result =
  ar_turnStatus :: turn_status
  ar_canceled :: bool \<comment> \<open>\<^verbatim>\<open>terminationReason === 'canceled'\<close>\<close>

datatype js_error = JsError (je_exec: "exec_reason option") (je_code: "string option")
    (je_message: string) (je_cause: "js_error option")

fun isThreadCodexIdConflict :: "js_error \<Rightarrow> bool" where
  "isThreadCodexIdConflict (JsError x code m cause) \<longleftrightarrow>
     code = Some ''THREAD_CODEX_ID_CONFLICT'' \<or>
     (case cause of None \<Rightarrow> False | Some e \<Rightarrow> isThreadCodexIdConflict e)"

definition runtimeInjectionErrorCode :: "js_error \<Rightarrow> string option" where
  "runtimeInjectionErrorCode e = je_code e"

section \<open>Classification\<close>

definition classifyResumeFailure :: "string list \<Rightarrow> string \<Rightarrow> string" where
  "classifyResumeFailure stdoutLines stderr =
     (let output = js_lower (js_join [CHR 0x0A] stdoutLines @ [CHR 0x0A] @ stderr) in
      if js_includes output ''not found'' \<or> js_includes output ''no rollout found'' \<or>
         js_includes output ''no session'' \<or> js_includes output ''unknown session''
      then ''RESUME_TARGET_NOT_FOUND'' else ''RESUME_FAILED'')"

definition isAppServerResumeFailure :: "string \<Rightarrow> bool" where
  "isAppServerResumeFailure message =
     (let normalized = js_lower message in
      js_includes normalized ''not found'' \<or> js_includes normalized ''no session'' \<or>
      js_includes normalized ''unknown session'' \<or> js_includes normalized ''thread/resume'')"

definition isMissingResumeTargetFailure :: "string \<Rightarrow> bool" where
  "isMissingResumeTargetFailure message =
     (let normalized = js_lower message in
      js_includes normalized ''no rollout found for thread id'' \<or>
      js_includes normalized ''no session found for thread id'' \<or>
      js_includes normalized ''unknown session'')"

definition isShutdownTimeoutAfterCompletedTurn ::
  "js_error \<Rightarrow> bool \<Rightarrow> bool \<Rightarrow> thread_id option \<Rightarrow> bool" where
  "isShutdownTimeoutAfterCompletedTurn e sawTurnCompleted sawCodexThreadId threadId \<longleftrightarrow>
     je_exec e = Some ErTimeout \<and> sawTurnCompleted \<and> (threadId = None \<or> sawCodexThreadId)"

definition errorToTerminationReason :: "js_error \<Rightarrow> termination_reason" where
  "errorToTerminationReason e =
     (case je_exec e of
        Some ErCanceled \<Rightarrow> TUserCanceled
      | Some ErTimeout \<Rightarrow> TTimeout
      | Some ErSpawnTimeout \<Rightarrow> TSpawnTimeout
      | Some ErInactivityTimeout \<Rightarrow> TInactivityTimeout
      | Some ErSpawnFailed \<Rightarrow> TSpawnFailed
      | _ \<Rightarrow> TStreamError)"

definition appServerErrorToTerminationReason :: "string \<Rightarrow> termination_reason" where
  "appServerErrorToTerminationReason message =
     (let normalized = js_lower message in
      if js_includes normalized ''canceled'' then TUserCanceled
      else if js_includes normalized ''spawn timeout'' then TSpawnTimeout
      else if js_includes normalized ''inactivity timeout'' then TInactivityTimeout
      else if js_includes normalized '' timeout after'' then TTimeout
      else TStreamError)"

definition resultToTerminationReason :: "exec_result \<Rightarrow> termination_reason" where
  "resultToTerminationReason r =
     (if er_terminationReason r = ErCanceled then TUserCanceled
      else if er_exitCode r = Some 0 then TCompleted
      else TCodexExitNonZero)"

fun errorCodeForTermination :: "termination_reason \<Rightarrow> string" where
  "errorCodeForTermination TTimeout = ''CODEX_EXEC_TIMEOUT''"
| "errorCodeForTermination TInactivityTimeout = ''CODEX_EXEC_INACTIVITY_TIMEOUT''"
| "errorCodeForTermination TSpawnTimeout = ''CODEX_EXEC_SPAWN_TIMEOUT''"
| "errorCodeForTermination TSpawnFailed = ''SPAWN_FAILED''"
| "errorCodeForTermination _ = ''CODEX_STREAM_ERROR''"

section \<open>Verdicts\<close>

text \<open>
  The variables of \<^verbatim>\<open>startExistingRun\<close> that live as long as the run: \<open>ar_seq\<close> is \<^verbatim>\<open>seq\<close>,
  \<open>ar_rotation\<close> is the reason and the previous and next Codex thread of \<^verbatim>\<open>rotation\<close>,
  \<open>ar_finishing\<close> the finish that waits for the log writer to close.
\<close>

datatype rotation_reason = ResumeFailed | RunThreshold

record rotation =
  ro_reason :: rotation_reason
  ro_previous :: string
  ro_next :: "string option"
  ro_announced :: bool

datatype run_notice = NoticeError string string | NoticeDiagnostic string string

record run_finish =
  fi_status :: public_status
  fi_reason :: termination_reason
  fi_exitCode :: "int option"
  fi_signal :: "string option"
  fi_errorCode :: "string option"
  fi_errorMessage :: "string option"
  fi_notices :: "run_notice list" \<comment> \<open>published before the run is finished\<close>

datatype verdict = Rotate | Finish run_finish

record active_run =
  ar_input :: resolved_run
  ar_runDir :: string
  ar_thread :: "runtime_thread option" \<comment> \<open>\<^verbatim>\<open>thread\<close>, read when the run started\<close>
  ar_persistent :: bool
  ar_resumeMode :: resume_mode
  ar_codexThreadId :: "string option"
  ar_rotation :: "rotation option"
  ar_seq :: nat
  ar_stdoutLines :: "string list"
  ar_stderr :: string
  ar_sawTurnCompleted :: bool
  ar_sawCodexThreadId :: bool
  ar_established :: bool
  ar_turnStarted :: bool
  ar_cancelRequested :: bool
  ar_finishing :: "run_finish option"

definition CODEX_THREAD_ID_MISSING_MESSAGE :: string where
  "CODEX_THREAD_ID_MISSING_MESSAGE = ''Codex stream ended without thread.started thread_id''"

definition exec_result_verdict :: "active_run \<Rightarrow> exec_result \<Rightarrow> verdict" where
  "exec_result_verdict a r =
     (let exitedSuccessfully = er_exitCode r = Some 0 \<and> er_terminationReason r \<noteq> ErCanceled;
          missing = exitedSuccessfully \<and> rb_threadId (ar_input a) \<noteq> None \<and> \<not> ar_sawCodexThreadId a;
          streamError = exitedSuccessfully \<and> (\<not> ar_sawTurnCompleted a \<or> missing);
          resumeFailureCode =
            (if ar_resumeMode a = ResumeThread \<and> er_terminationReason r \<noteq> ErCanceled \<and>
                er_exitCode r \<noteq> Some 0 \<and> \<not> streamError
             then Some (classifyResumeFailure (ar_stdoutLines a) (ar_stderr a)) else None)
      in
      if resumeFailureCode \<noteq> None \<and> ar_rotation a = None \<and>
         (shouldAutomaticallyRotateRun (ar_input a) \<or>
          resumeFailureCode = Some ''RESUME_TARGET_NOT_FOUND'' \<and>
          shouldRecoverMissingAutoResume (ar_input a))
      then Rotate
      else
        (let status = (if er_terminationReason r = ErCanceled then PCanceled
                       else if er_exitCode r = Some 0 \<and> \<not> streamError then PSucceeded
                       else PFailed);
             code = (if missing then Some ''CODEX_THREAD_ID_MISSING''
                     else (case resumeFailureCode of
                             Some c \<Rightarrow> Some c
                           | None \<Rightarrow> if ar_rotation a = None \<or> status \<noteq> PFailed then None
                                     else Some ''THREAD_CODEX_ROTATION_FAILED''));
             message = (if missing then Some CODEX_THREAD_ID_MISSING_MESSAGE
                        else if resumeFailureCode \<noteq> None then Some ''Codex resume failed''
                        else if streamError then Some ''Codex stream ended without turn.completed''
                        else if code = Some ''THREAD_CODEX_ROTATION_FAILED''
                        then Some ''Codex thread rotation failed''
                        else None)
         in Finish
           \<lparr>fi_status = status,
            fi_reason = (if streamError then TStreamError else resultToTerminationReason r),
            fi_exitCode = er_exitCode r, fi_signal = er_signal r,
            fi_errorCode = code, fi_errorMessage = message,
            fi_notices =
              (if missing then [NoticeError ''CODEX_THREAD_ID_MISSING'' CODEX_THREAD_ID_MISSING_MESSAGE]
               else if streamError
               then [NoticeDiagnostic ''CODEX_STREAM_ERROR'' ''Codex stream ended without turn.completed'']
               else [])\<rparr>))"

definition exec_error_verdict :: "active_run \<Rightarrow> js_error \<Rightarrow> verdict" where
  "exec_error_verdict a e =
     (if isShutdownTimeoutAfterCompletedTurn e (ar_sawTurnCompleted a) (ar_sawCodexThreadId a)
           (rb_threadId (ar_input a))
      then Finish \<lparr>fi_status = PSucceeded, fi_reason = TCompleted, fi_exitCode = None, fi_signal = None,
                   fi_errorCode = None, fi_errorMessage = None, fi_notices = []\<rparr>
      else
        (let missing = rb_threadId (ar_input a) \<noteq> None \<and> ar_sawTurnCompleted a \<and> \<not> ar_sawCodexThreadId a;
             conflict = isThreadCodexIdConflict e;
             reason = (if missing then TStreamError else errorToTerminationReason e);
             code = (case runtimeInjectionErrorCode e of
                       Some c \<Rightarrow> c
                     | None \<Rightarrow>
                         if missing then ''CODEX_THREAD_ID_MISSING''
                         else if conflict then ''THREAD_CODEX_ID_CONFLICT''
                         else if ar_rotation a = None then errorCodeForTermination reason
                         else ''THREAD_CODEX_ROTATION_FAILED'');
             message = (if missing then CODEX_THREAD_ID_MISSING_MESSAGE
                        else if conflict then ''Codex thread id is already bound to another thread''
                        else je_message e)
         in Finish
           \<lparr>fi_status = (if reason = TUserCanceled then PCanceled else PFailed), fi_reason = reason,
            fi_exitCode = None, fi_signal = None, fi_errorCode = Some code, fi_errorMessage = Some message,
            fi_notices =
              (if missing then [NoticeError ''CODEX_THREAD_ID_MISSING'' CODEX_THREAD_ID_MISSING_MESSAGE]
               else [])\<rparr>))"

definition turn_status_text :: "turn_status \<Rightarrow> string" where
  "turn_status_text t =
     (case t of TurnCompleted \<Rightarrow> ''completed'' | TurnInterrupted \<Rightarrow> ''interrupted'' | TurnFailed \<Rightarrow> ''failed'')"

definition app_result_verdict :: "app_result \<Rightarrow> verdict" where
  "app_result_verdict r =
     (let status = (if ar_canceled r then PCanceled
                    else if ar_turnStatus r = TurnCompleted then PSucceeded else PFailed)
      in Finish
        \<lparr>fi_status = status,
         fi_reason = (if ar_canceled r then TUserCanceled
                      else if ar_turnStatus r = TurnCompleted then TCompleted else TStreamError),
         fi_exitCode = None, fi_signal = None,
         fi_errorCode = (if status = PFailed then Some ''CODEX_STREAM_ERROR'' else None),
         fi_errorMessage = (if status = PFailed
           then Some (''Codex turn ended with status '' @ turn_status_text (ar_turnStatus r)) else None),
         fi_notices = []\<rparr>)"

definition app_error_verdict :: "active_run \<Rightarrow> js_error \<Rightarrow> verdict" where
  "app_error_verdict a e =
     (if ar_resumeMode a = ResumeThread \<and> ar_rotation a = None \<and> \<not> ar_established a \<and>
         \<not> ar_turnStarted a \<and>
         (shouldAutomaticallyRotateRun (ar_input a) \<and> isAppServerResumeFailure (je_message e) \<or>
          shouldRecoverMissingAutoResume (ar_input a) \<and> isMissingResumeTargetFailure (je_message e))
      then Rotate
      else
        (let reason = appServerErrorToTerminationReason (je_message e);
             code = (case runtimeInjectionErrorCode e of
                       Some c \<Rightarrow> c
                     | None \<Rightarrow>
                         if isThreadCodexIdConflict e then ''THREAD_CODEX_ID_CONFLICT''
                         else if ar_rotation a = None then errorCodeForTermination reason
                         else ''THREAD_CODEX_ROTATION_FAILED'')
         in Finish
           \<lparr>fi_status = (if reason = TUserCanceled then PCanceled else PFailed), fi_reason = reason,
            fi_exitCode = None, fi_signal = None, fi_errorCode = Some code,
            fi_errorMessage = Some (je_message e), fi_notices = [NoticeError code (je_message e)]\<rparr>))"

text \<open>The four ways a process of a run ends, and the handler each goes to\<close>

datatype report =
    ExecExit exec_result
  | ExecFailure js_error
  | AppExit app_result
  | AppFailure js_error

fun verdict_of :: "active_run \<Rightarrow> report \<Rightarrow> verdict" where
  "verdict_of a (ExecExit r) = exec_result_verdict a r"
| "verdict_of a (ExecFailure e) = exec_error_verdict a e"
| "verdict_of a (AppExit r) = app_result_verdict r"
| "verdict_of a (AppFailure e) = app_error_verdict a e"

section \<open>Properties\<close>

lemma errorToTerminationReason_not_completed [simp]: "errorToTerminationReason e \<noteq> TCompleted"
  by (simp add: errorToTerminationReason_def split: option.splits exec_reason.splits)

lemma appServerErrorToTerminationReason_not_completed [simp]:
  "appServerErrorToTerminationReason m \<noteq> TCompleted"
  by (simp add: appServerErrorToTerminationReason_def Let_def)

lemma resultToTerminationReason_iff:
  "resultToTerminationReason r = TUserCanceled \<longleftrightarrow> er_terminationReason r = ErCanceled"
  "resultToTerminationReason r = TCompleted \<longleftrightarrow> er_terminationReason r \<noteq> ErCanceled \<and> er_exitCode r = Some 0"
  by (simp_all add: resultToTerminationReason_def)

definition finish_consistent :: "run_finish \<Rightarrow> bool" where
  "finish_consistent f \<longleftrightarrow>
     fi_status f \<in> {PSucceeded, PFailed, PCanceled} \<and>
     (fi_status f = PSucceeded \<longleftrightarrow> fi_reason f = TCompleted) \<and>
     (fi_status f = PCanceled \<longleftrightarrow> fi_reason f = TUserCanceled) \<and>
     (fi_status f = PSucceeded \<longrightarrow> fi_errorCode f = None \<and> fi_errorMessage f = None)"

lemma exec_result_finish:
  assumes "exec_result_verdict a r = Finish f"
  shows "finish_consistent f"
    and "fi_status f = PSucceeded \<Longrightarrow>
      er_terminationReason r \<noteq> ErCanceled \<and> er_exitCode r = Some 0 \<and> ar_sawTurnCompleted a \<and>
      (rb_threadId (ar_input a) \<noteq> None \<longrightarrow> ar_sawCodexThreadId a)"
  using assms
  by (auto simp: exec_result_verdict_def Let_def finish_consistent_def resultToTerminationReason_iff
      split: if_splits)

lemma exec_error_finish:
  assumes "exec_error_verdict a e = Finish f"
  shows "finish_consistent f"
    and "fi_status f = PSucceeded \<Longrightarrow>
      je_exec e = Some ErTimeout \<and> ar_sawTurnCompleted a \<and>
      (rb_threadId (ar_input a) \<noteq> None \<longrightarrow> ar_sawCodexThreadId a)"
proof -
  let ?late = "isShutdownTimeoutAfterCompletedTurn e (ar_sawTurnCompleted a) (ar_sawCodexThreadId a)
    (rb_threadId (ar_input a))"
  have "fi_status f = (if fi_reason f = TUserCanceled then PCanceled else PFailed)"
      "fi_reason f \<noteq> TCompleted" if "\<not> ?late"
    using assms that by (auto simp only: exec_error_verdict_def Let_def if_False verdict.inject
        run_finish.simps errorToTerminationReason_not_completed termination_reason.distinct split: if_splits)
  then have failed: "finish_consistent f \<and> fi_status f \<noteq> PSucceeded" if "\<not> ?late"
    using that by (auto simp: finish_consistent_def)
  have late: "finish_consistent f" if "?late"
    using assms that by (auto simp: exec_error_verdict_def finish_consistent_def)
  from failed late show "finish_consistent f" by blast
  assume "fi_status f = PSucceeded"
  with failed have "?late" by blast
  then show "je_exec e = Some ErTimeout \<and> ar_sawTurnCompleted a \<and>
      (rb_threadId (ar_input a) \<noteq> None \<longrightarrow> ar_sawCodexThreadId a)"
    by (auto simp: isShutdownTimeoutAfterCompletedTurn_def)
qed

lemma app_finish:
  shows "app_result_verdict r = Finish f \<Longrightarrow> finish_consistent f"
    and "app_error_verdict a e = Finish f \<Longrightarrow> finish_consistent f \<and> fi_status f \<noteq> PSucceeded"
    and "app_result_verdict r = Finish f \<Longrightarrow> fi_status f = PSucceeded \<longleftrightarrow>
      \<not> ar_canceled r \<and> ar_turnStatus r = TurnCompleted"
  by (auto simp: app_result_verdict_def app_error_verdict_def Let_def finish_consistent_def
      split: if_splits turn_status.splits)

lemma verdict_finish_consistent: "verdict_of a p = Finish f \<Longrightarrow> finish_consistent f"
  by (cases p) (auto intro: exec_result_finish exec_error_finish app_finish(1) dest: app_finish(2))

text \<open>
  Whatever a Codex process reports, the run it finishes gets a terminal status that agrees
  with its termination reason: succeeded exactly with \<^verbatim>\<open>completed\<close>, canceled exactly with
  \<^verbatim>\<open>user_canceled\<close>, and a succeeded run carries no error.
\<close>
lemma verdict_consistent:
  "verdict_of a p = Finish f \<Longrightarrow>
   fi_status f \<in> {PSucceeded, PFailed, PCanceled} \<and>
   (fi_status f = PSucceeded \<longleftrightarrow> fi_reason f = TCompleted) \<and>
   (fi_status f = PCanceled \<longleftrightarrow> fi_reason f = TUserCanceled) \<and>
   (fi_status f = PSucceeded \<longrightarrow> fi_errorCode f = None \<and> fi_errorMessage f = None)"
  unfolding finish_consistent_def [symmetric] by (rule verdict_finish_consistent)


text \<open>
  A run starts over in a new Codex thread at most once, and only when it resumed one on its
  own: the run belongs to a thread, its request did not ask for a resume mode, nothing was
  rotated before, and the process ended in an error, not in success or a cancelation.
\<close>
lemma rotation_justified:
  "verdict_of a p = Rotate \<Longrightarrow>
   ar_rotation a = None \<and> ar_resumeMode a = ResumeThread \<and> rb_threadId (ar_input a) \<noteq> None \<and>
   (rb_resumeMode (ar_input a) = None \<or> rb_resumeMode (ar_input a) = Some RrAuto) \<and>
   (case p of
      ExecExit r \<Rightarrow> er_terminationReason r \<noteq> ErCanceled \<and> er_exitCode r \<noteq> Some 0
    | AppFailure e \<Rightarrow> \<not> ar_established a \<and> \<not> ar_turnStarted a
    | _ \<Rightarrow> False)"
  by (cases p)
     (auto simp: exec_result_verdict_def exec_error_verdict_def app_result_verdict_def app_error_verdict_def
        Let_def shouldAutomaticallyRotateRun_def shouldRecoverMissingAutoResume_def split: if_splits)

section \<open>Instances\<close>

definition sample_request :: "thread_id option \<Rightarrow> run_creator \<Rightarrow> create_run" where
  "sample_request thread creator =
     \<lparr>rb_prompt = ''Go'', rb_executionPrompt = None, rb_publicPrompt = None, rb_triggeredAt = None,
      rb_contextItems = [], rb_resumeMode = None, rb_createdBy = Some creator, rb_sourceId = None,
      rb_timeoutMs = None, rb_imagePaths = [], rb_attachmentIds = [], rb_submissionMode = None,
      rb_threadId = thread, cr_cwd = Some ''/a'', cr_profile = Some ''default'',
      cr_sandbox = Some WorkspaceWrite, cr_model = None, cr_reasoning = None\<rparr>"

definition sample_resolved :: "thread_id option \<Rightarrow> run_creator \<Rightarrow> resolved_run" where
  "sample_resolved thread creator =
     run_base.extend (run_base.truncate (sample_request thread creator))
       \<lparr>ri_cwd = ''/a'', ri_profile = ''default'', ri_sandbox = WorkspaceWrite, ri_model = None,
        ri_reasoning = None\<rparr>"

definition sample_active :: "thread_id option \<Rightarrow> run_creator \<Rightarrow> resume_mode \<Rightarrow> active_run" where
  "sample_active thread creator mode =
     \<lparr>ar_input = sample_resolved thread creator, ar_runDir = ''/data'', ar_thread = None,
      ar_persistent = False, ar_resumeMode = mode, ar_codexThreadId = None, ar_rotation = None,
      ar_seq = 0, ar_stdoutLines = [], ar_stderr = ''No session'', ar_sawTurnCompleted = True,
      ar_sawCodexThreadId = True, ar_established = False, ar_turnStarted = False,
      ar_cancelRequested = False, ar_finishing = None\<rparr>"

definition sample_exit :: "int \<Rightarrow> exec_result" where
  "sample_exit c = \<lparr>er_exitCode = Some c, er_signal = None, er_terminationReason = ErCompleted\<rparr>"

lemma verdict_consistent_witness:
  "\<exists>f. verdict_of (sample_active (Some ''t'') ByApi NewThread) (ExecExit (sample_exit 1)) = Finish f \<and>
     fi_status f = PFailed \<and> fi_reason f \<noteq> TCompleted"
proof -
  let ?v = "verdict_of (sample_active (Some ''t'') ByApi NewThread) (ExecExit (sample_exit 1))"
  have "case ?v of Rotate \<Rightarrow> False | Finish f \<Rightarrow> fi_status f = PFailed" by code_simp
  then obtain f where f: "?v = Finish f" "fi_status f = PFailed" by (auto split: verdict.splits)
  from verdict_consistent [OF f(1)] f show ?thesis by auto
qed


lemma rotation_justified_witness:
  "ar_rotation (sample_active (Some ''t'') BySchedule ResumeThread) = None \<and>
   ar_resumeMode (sample_active (Some ''t'') BySchedule ResumeThread) = ResumeThread"
proof -
  let ?a = "sample_active (Some ''t'') BySchedule ResumeThread"
  have "case verdict_of ?a (ExecExit (sample_exit 1)) of Rotate \<Rightarrow> True | Finish _ \<Rightarrow> False" by code_simp
  then have "verdict_of ?a (ExecExit (sample_exit 1)) = Rotate" by (auto split: verdict.splits)
  from rotation_justified [OF this] show ?thesis by blast
qed

end
