(* ===== verification/Redaction.thy ===== *)
theory Redaction
  imports ClaweePrelude
begin

text \<open>
  Secrets in texts, \<^verbatim>\<open>security/redaction.ts\<close>: the keys, passwords and tokens that a text may hold are
  replaced before it is stored or sent.

  \<^item> \<open>regex\<close> has the regular expressions that the file uses, and \<open>matches\<close> their meaning: the lengths of
    all matches at a place, in the order in which a backtracking matcher finds them.
  \<^item> \<open>replace_all\<close> is \<^verbatim>\<open>String.replace\<close> with the flag \<^verbatim>\<open>g\<close>.
  \<^item> The main lemma: whatever the text is, no capability token and no key of OpenAI is left in it at the
    beginning of a word. Of a JSON value this is said of the texts in it: the names of properties are not
    redacted (lemma \<open>names_stay\<close>).
\<close>

section \<open>Regular expressions\<close>

datatype regex =
    Empty
  | One "char \<Rightarrow> bool"
  | Seq regex regex
  | Either regex regex
  | Many regex
  | Boundary
  | NotAhead regex

definition is_letter :: "char \<Rightarrow> bool" where
  "is_letter c \<longleftrightarrow> CHR ''A'' \<le> c \<and> c \<le> CHR ''Z'' \<or> CHR ''a'' \<le> c \<and> c \<le> CHR ''z''"

definition word_char :: "char \<Rightarrow> bool" where
  "word_char c \<longleftrightarrow> is_letter c \<or> is_digit c \<or> c = CHR ''_''"

definition word_before :: "char option \<Rightarrow> bool" where
  "word_before p = (case p of None \<Rightarrow> False | Some c \<Rightarrow> word_char c)"

definition word_ahead :: "string \<Rightarrow> bool" where
  "word_ahead s = (case s of [] \<Rightarrow> False | c # cs \<Rightarrow> word_char c)"

text \<open>The character before a place: \<open>n\<close> characters on from the beginning of \<open>s\<close>, which \<open>p\<close> stands before\<close>

definition char_before :: "nat \<Rightarrow> char option \<Rightarrow> string \<Rightarrow> char option" where
  "char_before n p s = (if n = 0 then p else Some (s ! (n - 1)))"

text \<open>Repetitions are greedy. A repetition that takes nothing is not tried again.\<close>

function (sequential) matches :: "regex \<Rightarrow> char option \<Rightarrow> string \<Rightarrow> nat list" where
  "matches Empty p s = [0]"
| "matches (One f) p s = (case s of [] \<Rightarrow> [] | c # cs \<Rightarrow> if f c then [1] else [])"
| "matches (Seq r q) p s =
     concat (map (\<lambda>n. map ((+) n) (matches q (char_before n p s) (drop n s))) (matches r p s))"
| "matches (Either r q) p s = matches r p s @ matches q p s"
| "matches (Many r) p s =
     concat (map (\<lambda>n. if 0 < n \<and> n \<le> length s then map ((+) n) (matches (Many r) (char_before n p s) (drop n s)) else [])
       (matches r p s)) @ [0]"
| "matches Boundary p s = (if word_before p \<noteq> word_ahead s then [0] else [])"
| "matches (NotAhead r) p s = (if matches r p s = [] then [0] else [])"
  by pat_completeness auto

termination
  by (relation "measures [\<lambda>(r, p, s). size r, \<lambda>(r, p, s). length s]") auto

text \<open>The first match at a place of \<open>r\<close> and then \<open>q\<close>: where \<open>r\<close> ends, and where all ends\<close>

definition match_here :: "regex \<Rightarrow> regex \<Rightarrow> char option \<Rightarrow> string \<Rightarrow> (nat \<times> nat) option" where
  "match_here r q p s =
     (case concat (map (\<lambda>n. map (\<lambda>m. (n, n + m)) (matches q (char_before n p s) (drop n s))) (matches r p s)) of
        [] \<Rightarrow> None
      | x # xs \<Rightarrow> Some x)"

text \<open>\<open>r\<close> is the group whose text \<open>f\<close> takes. No expression of the file matches the empty text.\<close>

function replace_all :: "regex \<Rightarrow> regex \<Rightarrow> (string \<Rightarrow> string) \<Rightarrow> char option \<Rightarrow> string \<Rightarrow> string" where
  "replace_all r q f p s =
     (case s of
        [] \<Rightarrow> []
      | c # cs \<Rightarrow>
          (case match_here r q p s of
             Some (n, Suc m) \<Rightarrow> f (take n s) @ replace_all r q f (char_before (Suc m) p s) (drop (Suc m) s)
           | _ \<Rightarrow> c # replace_all r q f (Some c) cs))"
  by pat_completeness auto

termination
  by (relation "measure (\<lambda>(r, q, f, p, s). length s)") auto

declare replace_all.simps [simp del]

fun seqs :: "regex list \<Rightarrow> regex" where
  "seqs [] = Empty"
| "seqs [r] = r"
| "seqs (r # rs) = Seq r (seqs rs)"

definition lit :: "string \<Rightarrow> regex" where
  "lit s = seqs (map (\<lambda>x. One (\<lambda>c. c = x)) s)"

text \<open>With the flag \<^verbatim>\<open>i\<close>; the text is in lower case.\<close>

definition lit_i :: "string \<Rightarrow> regex" where
  "lit_i s = seqs (map (\<lambda>x. One (\<lambda>c. lower_char c = x)) s)"

definition one_of :: "string list \<Rightarrow> regex" where
  "one_of ss = foldr (\<lambda>s r. Either (lit_i s) r) (butlast ss) (lit_i (last ss))"

definition some_of :: "(char \<Rightarrow> bool) \<Rightarrow> regex" where
  "some_of f = Seq (One f) (Many (One f))"

definition blanks :: regex where
  "blanks = Many (One js_space)"

section \<open>The patterns\<close>

definition REDACTED_TEXT :: string where
  "REDACTED_TEXT = ''[REDACTED]''"

definition secret_char :: "char \<Rightarrow> bool" where
  "secret_char c \<longleftrightarrow> \<not> js_space c \<and> c \<noteq> CHR 0x22 \<and> c \<noteq> CHR 0x27 \<and> c \<noteq> CHR '','' \<and> c \<noteq> CHR ''}'' \<and> c \<noteq> CHR '']''"

definition not_redacted :: regex where
  "not_redacted = NotAhead (lit_i ''[redacted]'')"

definition assignment_name :: regex where
  "assignment_name =
     seqs [Boundary, Many (One word_char), one_of [''key'', ''token'', ''secret'', ''password'', ''cookie'', ''auth''],
       Many (One word_char)]"

definition assignment_value :: regex where
  "assignment_value = seqs [lit ''='', not_redacted, some_of secret_char]"

definition label_name :: regex where
  "label_name =
     seqs [Boundary,
       Either (lit_i ''password'') (Either (lit_i ''passwd'') (Either (lit_i ''token'')
         (Either (seqs [lit_i ''api'', Either (One (\<lambda>c. js_space c \<or> c = CHR ''_'' \<or> c = CHR ''-'')) Empty, lit_i ''key''])
           (lit_i ''secret'')))),
       Boundary, blanks, One (\<lambda>c. c = CHR '':'' \<or> c = CHR ''=''), blanks]"

definition label_value :: regex where
  "label_value = Seq not_redacted (some_of secret_char)"

definition authorization_name :: regex where
  "authorization_name =
     seqs [lit_i ''authorization:'', blanks, One is_letter,
       Many (One (\<lambda>c. is_letter c \<or> is_digit c \<or> c \<in> set ''._~-'')), some_of js_space]"

definition cookie_name :: regex where
  "cookie_name = seqs [Either (lit_i ''set-'') Empty, lit_i ''cookie:'', blanks]"

definition cookie_value :: regex where
  "cookie_value = Seq not_redacted (some_of (\<lambda>c. c \<noteq> CHR 0x0D \<and> c \<noteq> CHR 0x0A))"

definition key_char :: "char \<Rightarrow> bool" where
  "key_char c \<longleftrightarrow> word_char c \<or> c = CHR ''-''"

text \<open>A name, at least so many characters of a key, and both ends are ends of words\<close>

definition key_pattern :: "string \<Rightarrow> nat \<Rightarrow> regex" where
  "key_pattern name least =
     Seq Boundary (Seq (lit name) (Seq (seqs (replicate least (One key_char))) (Seq (Many (One key_char)) Boundary)))"

definition agentCapabilityPattern :: regex where
  "agentCapabilityPattern = key_pattern ''clwcap_'' 1"

definition standaloneOpenAiKeyPattern :: regex where
  "standaloneOpenAiKeyPattern = key_pattern ''sk-'' 8"

definition redact_keys :: "regex \<Rightarrow> string \<Rightarrow> string" where
  "redact_keys r = replace_all r Empty (\<lambda>t. REDACTED_TEXT) None"

definition redactText :: "string \<Rightarrow> string" where
  "redactText s =
     (let s1 = replace_all assignment_name assignment_value (\<lambda>key. key @ ''=[REDACTED]'') None s;
          s2 = replace_all label_name label_value (\<lambda>prefix. prefix @ ''[REDACTED]'') None s1;
          s3 = replace_all authorization_name (some_of secret_char) (\<lambda>prefix. prefix @ ''[REDACTED]'') None s2;
          s4 = replace_all cookie_name cookie_value (\<lambda>prefix. prefix @ ''[REDACTED]'') None s3;
          s5 = redact_keys agentCapabilityPattern s4
      in redact_keys standaloneOpenAiKeyPattern s5)"

section \<open>JSON values\<close>

definition isSensitiveField :: "string \<Rightarrow> bool" where
  "isSensitiveField key \<longleftrightarrow>
     filter (\<lambda>c. CHR ''a'' \<le> c \<and> c \<le> CHR ''z'' \<or> is_digit c) (map lower_char key)
       \<in> set [''accesstoken'', ''authorization'', ''cookie'', ''expiresat'', ''password'', ''passwd'', ''setcookie'']"

definition isAlreadyRedacted :: "json \<Rightarrow> bool" where
  "isAlreadyRedacted v =
     (case v of
        JStr s \<Rightarrow> list_ex (\<lambda>i. take (length REDACTED_TEXT) (drop i s) = REDACTED_TEXT) [0..<length s]
      | _ \<Rightarrow> False)"

lemma size_in_list: "x \<in> set xs \<Longrightarrow> size x < Suc (size_list size xs)"
  by (induction xs) auto

lemma size_in_record: "(k, x) \<in> set r \<Longrightarrow> size x < Suc (size_list (size_prod (\<lambda>k. 0) size) r)"
  by (induction r) auto

function (sequential) redactValue :: "json \<Rightarrow> json" where
  "redactValue (JStr s) = JStr (redactText s)"
| "redactValue (JArr xs) = JArr (map redactValue xs)"
| "redactValue (JObj r) = JObj (map (\<lambda>(key, v).
     (key, if isSensitiveField key \<and> \<not> isAlreadyRedacted v then JStr REDACTED_TEXT else redactValue v)) r)"
| "redactValue v = v"
  by pat_completeness auto

termination
  by (relation "measure size") (auto intro: size_in_list size_in_record)

section \<open>Keys\<close>

text \<open>
  A key in a text: its name at the beginning of a word, and characters of a key with a letter or digit at
  or after the least length
\<close>

definition key_at :: "string \<Rightarrow> nat \<Rightarrow> char option \<Rightarrow> string \<Rightarrow> bool" where
  "key_at name least p s \<longleftrightarrow>
     \<not> word_before p \<and> take (length name) s = name \<and>
     list_ex word_char (drop (least - 1) (takeWhile key_char (drop (length name) s)))"

fun holds_key :: "string \<Rightarrow> nat \<Rightarrow> char option \<Rightarrow> string \<Rightarrow> bool" where
  "holds_key name least p [] \<longleftrightarrow> False"
| "holds_key name least p (c # cs) \<longleftrightarrow> key_at name least p (c # cs) \<or> holds_key name least (Some c) cs"

lemma word_key_char: "word_char c \<Longrightarrow> key_char c"
  by (simp add: key_char_def)

lemma char_before_add: "char_before n (char_before m p s) (drop m s) = char_before (m + n) p s" if "m \<le> length s"
  using that by (cases n) (auto simp: char_before_def nth_drop)

declare matches.simps(5) [simp del]

lemma matches_ones:
  "matches (seqs (map One fs)) p s = (if list_all2 (\<lambda>f c. f c) fs (take (length fs) s) then [length fs] else [])"
proof (induction fs arbitrary: p s)
  case (Cons f fs)
  show ?case
  proof (cases "fs = []")
    case True
    then show ?thesis by (cases s) auto
  next
    case False
    then have "seqs (map One (f # fs)) = Seq (One f) (seqs (map One fs))" by (cases fs) auto
    then show ?thesis using Cons by (cases s) (simp_all add: char_before_def)
  qed
qed simp

lemma all_these: "list_all2 (\<lambda>f c. f c) (map (\<lambda>x c. c = x) xs) ys \<longleftrightarrow> ys = xs"
proof (induction xs arbitrary: ys)
  case (Cons x xs)
  then show ?case by (cases ys) auto
qed simp

lemma all_such: "list_all2 (\<lambda>f c. f c) (replicate n f) ys \<longleftrightarrow> length ys = n \<and> list_all f ys"
proof (induction n arbitrary: ys)
  case (Suc n)
  then show ?case by (cases ys) auto
qed auto

lemma matches_lit: "matches (lit name) p s = (if take (length name) s = name then [length name] else [])"
  using matches_ones [of "map (\<lambda>x c. c = x) name" p s] by (simp add: lit_def o_def all_these)

lemma matches_repeated:
  "matches (seqs (replicate n (One f))) p s = (if n \<le> length s \<and> list_all f (take n s) then [n] else [])"
  using matches_ones [of "replicate n f" p s] by (simp add: all_such min_def)

lemma upt_Suc_map: "[0..<Suc n] = 0 # map Suc [0..<n]"
  by (simp only: map_Suc_upt upt_conv_Cons [of 0 "Suc n"] zero_less_Suc)

lemma matches_many: "matches (Many (One f)) p s = rev [0..<Suc (length (takeWhile f s))]"
proof (induction s arbitrary: p)
  case Nil
  show ?case by (subst matches.simps) simp
next
  case (Cons c cs)
  show ?case
  proof (cases "f c")
    case True
    have "matches (Many (One f)) p (c # cs) = map Suc (matches (Many (One f)) (Some c) cs) @ [0]"
      using True by (subst matches.simps) (simp add: char_before_def)
    also have "\<dots> = rev (0 # map Suc [0..<Suc (length (takeWhile f cs))])" by (simp only: Cons rev_map rev.simps)
    also have "0 # map Suc [0..<Suc (length (takeWhile f cs))] = [0..<Suc (length (takeWhile f (c # cs)))]"
      using True by (simp only: upt_Suc_map [symmetric] takeWhile.simps if_True list.size add_0_right add_Suc_right)
    finally show ?thesis .
  next
    case False
    then show ?thesis by (subst matches.simps) simp
  qed
qed

definition word_end :: "nat \<Rightarrow> char option \<Rightarrow> string \<Rightarrow> bool" where
  "word_end n p s \<longleftrightarrow> word_before (char_before n p s) \<noteq> word_ahead (drop n s)"

lemma matches_key:
  "matches (key_pattern name least) p s =
     (let u = drop (length name) s in
      if word_end 0 p s \<and> take (length name) s = name \<and> least \<le> length u \<and> list_all key_char (take least u)
      then map (\<lambda>k. length name + (least + k))
        (filter (\<lambda>k. word_end (length name + (least + k)) p s) (rev [0..<Suc (length (takeWhile key_char (drop least u)))]))
      else [])"
proof -
  let ?u = "drop (length name) s" and ?q = "char_before (length name) p s"
  have filtered: "concat (map (\<lambda>n. map ((+) n) (if f n then [0] else [])) xs) = filter f xs" for f :: "nat \<Rightarrow> bool" and xs
    by (induction xs) auto
  have end_of: "matches Boundary (char_before k (char_before least q u) (drop least u)) (drop k (drop least u)) =
      (if word_end (least + k) q u then [0] else [])" if "least \<le> length u" for k q u
    using that char_before_add [OF that, of k q] by (simp add: word_end_def add.commute)
  have rest: "matches (Seq (seqs (replicate least (One key_char))) (Seq (Many (One key_char)) Boundary)) q u =
      (if least \<le> length u \<and> list_all key_char (take least u)
       then map ((+) least) (filter (\<lambda>k. word_end (least + k) q u) (rev [0..<Suc (length (takeWhile key_char (drop least u)))]))
       else [])" for q u
  proof (cases "least \<le> length u")
    case True
    have "matches (Seq (Many (One key_char)) Boundary) (char_before least q u) (drop least u) =
        filter (\<lambda>k. word_end (least + k) q u) (rev [0..<Suc (length (takeWhile key_char (drop least u)))])"
      by (simp only: matches.simps(3) matches_many end_of [OF True] filtered)
    then show ?thesis using True by (simp add: matches_repeated del: upt_Suc matches.simps(3)) (simp add: matches_repeated)
  next
    case False
    then show ?thesis by (simp add: matches_repeated)
  qed
  have "word_end (length name + k) p s = word_end k ?q ?u" if "take (length name) s = name" for k
  proof -
    have "length name \<le> length s" using arg_cong [OF that, of length] by simp
    then show ?thesis using char_before_add [of "length name" s k p] by (simp add: word_end_def add.commute)
  qed
  note shifted = this
  define r where "r = Seq (seqs (replicate least (One key_char))) (Seq (Many (One key_char)) Boundary)"
  have "matches (Seq (lit name) r) p s = (if take (length name) s = name then map ((+) (length name)) (matches r ?q ?u) else [])"
    by (simp add: matches_lit)
  moreover have "matches (key_pattern name least) p s = (if word_end 0 p s then matches (Seq (lit name) r) p s else [])"
  proof -
    have "matches (Seq Boundary q) p s = (if word_end 0 p s then matches q p s else [])" for q
    proof -
      have "map ((+) 0) xs = xs" for xs :: "nat list" by (induction xs) simp_all
      then show ?thesis by (simp add: word_end_def char_before_def)
    qed
    then show ?thesis unfolding key_pattern_def r_def .
  qed
  ultimately show ?thesis
    using rest [of ?q ?u] shifted by (simp add: r_def [symmetric] Let_def o_def del: upt_Suc drop_drop)
qed

lemma first_of_filter:
  "filter f (rev [0..<n]) = x # xs \<Longrightarrow> x < n \<and> f x \<and> (\<forall>k. x < k \<and> k < n \<longrightarrow> \<not> f k)"
proof (induction n)
  case (Suc n)
  show ?case
  proof (cases "f n")
    case True
    then have "x = n" using Suc.prems by simp
    then show ?thesis using True by auto
  next
    case False
    then have "filter f (rev [0..<n]) = x # xs" using Suc.prems by simp
    note ih = Suc.IH [OF this]
    have x: "x < n" "f x" using ih by simp_all
    have later: "\<not> f k" if "x < k" "k < n" for k using ih that by blast
    have "\<not> f k" if "x < k" "k < Suc n" for k using later [of k] that False by (cases "k = n") simp_all
    then show ?thesis using x(1,2) by simp
  qed
qed simp

lemma run_ends: "k = length (takeWhile key_char u) \<Longrightarrow> \<not> word_ahead (drop k u)"
proof (induction u arbitrary: k)
  case (Cons c cs)
  then show ?case using word_key_char [of c] by (cases "key_char c") (auto simp: word_ahead_def)
qed (simp add: word_ahead_def)

lemma run_char: "k < length (takeWhile key_char u) \<Longrightarrow> takeWhile key_char u ! k = u ! k \<and> k < length u"
  by (simp add: takeWhile_nth less_le_trans [OF _ length_takeWhile_le])

lemma word_in_run: "word_ahead (drop k u) \<Longrightarrow> k \<le> length (takeWhile key_char u) \<Longrightarrow> k < length (takeWhile key_char u) \<and> word_char (u ! k)"
proof -
  assume w: "word_ahead (drop k u)" and k: "k \<le> length (takeWhile key_char u)"
  have "k \<noteq> length (takeWhile key_char u)" using run_ends w by blast
  then have "k < length (takeWhile key_char u)" using k by simp
  moreover have "word_char (u ! k)" using w by (cases "k < length u") (auto simp: word_ahead_def Cons_nth_drop_Suc [symmetric])
  ultimately show ?thesis by simp
qed

text \<open>The last end of a word in the run is the end of a word that is in it.\<close>

lemma last_boundary:
  assumes "word_end k q u" and "0 < k" and "k \<le> length (takeWhile key_char u)"
    and "\<And>j. k < j \<Longrightarrow> j \<le> length (takeWhile key_char u) \<Longrightarrow> \<not> word_end j q u"
  shows "word_char (u ! (k - 1)) \<and> \<not> word_ahead (drop k u)"
proof (rule ccontr)
  assume no: "\<not> ?thesis"
  have "word_before (char_before j q u) \<longleftrightarrow> word_char (u ! (j - 1))" if "0 < j" for j
    using that by (simp add: char_before_def word_before_def)
  note b = this
  have start: "word_ahead (drop k u)" using no assms(1) b [OF assms(2)] by (simp add: word_end_def)
  have "word_ahead (drop (k + d) u)" if "k + d \<le> length (takeWhile key_char u)" for d
    using that
  proof (induction d)
    case (Suc d)
    then have "word_char (u ! (k + d))" using word_in_run [of "k + d" u] by simp
    moreover have "\<not> word_end (k + Suc d) q u" using assms(4) [of "k + Suc d"] Suc.prems by simp
    ultimately show ?case using b [of "k + Suc d"] by (simp add: word_end_def)
  qed (simp add: start)
  from this [of "length (takeWhile key_char u) - k"] show False using run_ends assms(3) by simp
qed

lemma first_match:
  assumes "matches (key_pattern name least) p s = m # ms" and "0 < least" and "name = c # cs" and "word_char c"
  shows "0 < m \<and> m \<le> length s \<and> word_char (s ! (m - 1)) \<and> \<not> word_ahead (drop m s)"
proof -
  let ?u = "drop (length name) s"
  let ?n = "Suc (length (takeWhile key_char (drop least ?u)))"
  let ?f = "\<lambda>k. word_end (length name + (least + k)) p s"
  have parts: "take (length name) s = name" "least \<le> length ?u" "list_all key_char (take least ?u)"
    and m: "m # ms = map (\<lambda>k. length name + (least + k)) (filter ?f (rev [0..<?n]))"
    using assms(1) by (simp_all add: matches_key Let_def split: if_splits del: upt_Suc)
  from m obtain k ks where k: "filter ?f (rev [0..<?n]) = k # ks" "m = length name + (least + k)"
    by (cases "filter ?f (rev [0..<?n])") (auto simp del: upt_Suc)
  have fits: "length name \<le> length s" using arg_cong [OF parts(1), of length] by simp
  have run: "length (takeWhile key_char ?u) = least + length (takeWhile key_char (drop least ?u))"
  proof -
    have "takeWhile key_char (take least ?u @ drop least ?u) = take least ?u @ takeWhile key_char (drop least ?u)"
      by (rule takeWhile_append2) (use parts(3) in \<open>simp add: list_all_iff\<close>)
    then have "length (takeWhile key_char ?u) = length (take least ?u @ takeWhile key_char (drop least ?u))"
      by (simp only: append_take_drop_id)
    then show ?thesis using parts(2) by simp
  qed
  have eq: "word_end j (char_before (length name) p s) ?u \<longleftrightarrow> word_end (length name + j) p s" for j
    using char_before_add [OF fits, of j p] by (simp add: word_end_def add.commute)
  note f = first_of_filter [OF k(1)]
  have "word_char (?u ! (least + k - 1)) \<and> \<not> word_ahead (drop (least + k) ?u)"
  proof (rule last_boundary)
    show "word_end (least + k) (char_before (length name) p s) ?u" using f eq by simp
    show "\<not> word_end j (char_before (length name) p s) ?u" if "least + k < j" "j \<le> length (takeWhile key_char ?u)" for j
      using f that eq [of j] run by (auto dest!: spec [of _ "j - least"])
  qed (use assms(2) run f in auto)
  moreover have "least + k \<le> length (takeWhile key_char ?u)" using f run by simp
  then have "least + k \<le> length ?u" using length_takeWhile_le [of key_char ?u] by linarith
  ultimately show ?thesis using assms(2) k(2) fits by (auto simp: add.commute nth_drop)
qed

text \<open>A match is found exactly where a key is.\<close>

lemma no_match:
  assumes "matches (key_pattern name least) p s = []" and "0 < least" and "name = c # cs" and "word_char c"
  shows "\<not> key_at name least p s"
proof
  let ?u = "drop (length name) s" and ?q = "char_before (length name) p s"
  let ?r = "takeWhile key_char ?u"
  assume key: "key_at name least p s"
  then have starts: "\<not> word_before p" "take (length name) s = name" by (simp_all add: key_at_def)
  then have "word_end 0 p s" using assms(3,4) by (cases s) (auto simp: word_end_def char_before_def word_ahead_def)
  have fits: "length name \<le> length s" using arg_cong [OF starts(2), of length] by simp
  have eq: "word_end j ?q ?u \<longleftrightarrow> word_end (length name + j) p s" for j
    using char_before_add [OF fits, of j p] by (simp add: word_end_def add.commute)
  obtain w where w: "w \<in> set (drop (least - 1) ?r)" "word_char w" using key by (auto simp: key_at_def list_ex_iff)
  then obtain j where j: "least - 1 + j < length ?r" "word_char (?r ! (least - 1 + j))"
    by (auto simp: in_set_conv_nth less_diff_conv add.commute)
  have long: "least \<le> length ?r" using j(1) by linarith
  have len: "length ?r \<le> length ?u" by (rule length_takeWhile_le)
  have keys: "list_all key_char (take least ?u)"
  proof -
    have "take (length ?r) ?u = ?r" by (rule takeWhile_eq_take [symmetric])
    then have "take least ?u = take least ?r" using long by (metis min.absorb1 take_take)
    then show ?thesis by (auto simp: list_all_iff dest!: in_set_takeD set_takeWhileD)
  qed
  have run: "length ?r = least + length (takeWhile key_char (drop least ?u))"
  proof -
    have "takeWhile key_char (take least ?u @ drop least ?u) = take least ?u @ takeWhile key_char (drop least ?u)"
      by (rule takeWhile_append2) (use keys in \<open>simp add: list_all_iff\<close>)
    then have "length ?r = length (take least ?u @ takeWhile key_char (drop least ?u))" by (simp only: append_take_drop_id)
    then show ?thesis using long len by simp
  qed
  have none: "\<not> word_end (least + k) ?q ?u" if "least + k \<le> length ?r" for k
    using assms(1) \<open>word_end 0 p s\<close> starts(2) long len keys that run eq
    by (auto simp: matches_key Let_def filter_empty_conv simp del: upt_Suc)
  have "word_char (?u ! (least - 1 + j + d))" if "least - 1 + j + d < length ?r" for d
    using that
  proof (induction d)
    case 0
    then show ?case using j(2) run_char [of "least - 1 + j" ?u] by simp
  next
    case (Suc d)
    have "\<not> word_end (least + (j + d)) ?q ?u" using none [of "j + d"] Suc.prems assms(2) by simp
    moreover have "word_before (char_before (least + (j + d)) ?q ?u)"
      using Suc assms(2) by (simp add: char_before_def word_before_def add.assoc)
    ultimately have ahead: "word_ahead (drop (least + (j + d)) ?u)" by (simp add: word_end_def)
    have i: "least - 1 + j + Suc d = least + (j + d)" using assms(2) by simp
    then have "least + (j + d) \<le> length ?r" using Suc.prems by linarith
    then show ?case using word_in_run [OF ahead] by (simp only: i)
  qed
  from this [of "length ?r - 1 - (least - 1 + j)"] j(1) have "word_char (?u ! (length ?r - 1))" by simp
  then have "word_before (char_before (length ?r) ?q ?u)" using j(1) by (auto simp: char_before_def word_before_def)
  moreover have "\<not> word_ahead (drop (length ?r) ?u)" by (rule run_ends) simp
  ultimately have "word_end (length ?r) ?q ?u" by (simp add: word_end_def)
  then show False using none [of "length ?r - least"] long by simp
qed

section \<open>What replacing leaves\<close>

lemma replace_here:
  "match_here r q p (c # cs) = Some (n, Suc m) \<Longrightarrow>
   replace_all r q f p (c # cs) = f (take n (c # cs)) @ replace_all r q f (Some ((c # cs) ! m)) (drop m cs)"
  by (subst replace_all.simps) (simp add: char_before_def)

lemma replace_next:
  "\<forall>n m. match_here r q p (c # cs) \<noteq> Some (n, Suc m) \<Longrightarrow> replace_all r q f p (c # cs) = c # replace_all r q f (Some c) cs"
  by (subst replace_all.simps) (auto split: option.split nat.split)

lemma replace_Nil [simp]: "replace_all r q f p [] = []"
  by (subst replace_all.simps) simp

text \<open>Until the first difference, which is a bracket, the result is the text.\<close>

lemma replaced_prefix:
  "CHR ''['' \<notin> set (take k (replace_all r Empty (\<lambda>t. REDACTED_TEXT) p s)) \<Longrightarrow>
   k \<le> length (replace_all r Empty (\<lambda>t. REDACTED_TEXT) p s) \<Longrightarrow>
   take k (replace_all r Empty (\<lambda>t. REDACTED_TEXT) p s) = take k s"
proof (induction k arbitrary: p s)
  case (Suc k)
  show ?case
  proof (cases s)
    case Nil
    then show ?thesis using Suc.prems by simp
  next
    case (Cons c cs)
    show ?thesis
    proof (cases "\<exists>n m. match_here r Empty p (c # cs) = Some (n, Suc m)")
      case True
      then obtain n m where "match_here r Empty p (c # cs) = Some (n, Suc m)" by blast
      from replace_here [OF this] show ?thesis using Suc.prems Cons by (simp add: REDACTED_TEXT_def)
    next
      case False
      then have eq: "replace_all r Empty f p (c # cs) = c # replace_all r Empty f (Some c) cs" for f
        using replace_next by blast
      show ?thesis unfolding Cons eq
        using Suc.prems [unfolded Cons eq] Suc.IH [of "Some c" cs] by simp
    qed
  qed
qed simp

lemma key_prefix:
  "list_all key_char (take k (replace_all r Empty (\<lambda>t. REDACTED_TEXT) p s)) \<Longrightarrow>
   k \<le> length (replace_all r Empty (\<lambda>t. REDACTED_TEXT) p s) \<Longrightarrow>
   take k (replace_all r Empty (\<lambda>t. REDACTED_TEXT) p s) = take k s"
proof -
  have "\<not> key_char (CHR ''['')" by code_simp
  then show "list_all key_char (take k (replace_all r Empty (\<lambda>t. REDACTED_TEXT) p s)) \<Longrightarrow>
      k \<le> length (replace_all r Empty (\<lambda>t. REDACTED_TEXT) p s) \<Longrightarrow> ?thesis"
    by (intro replaced_prefix) (auto simp: list_all_iff)
qed

lemma key_at_mono:
  assumes "key_at name least p t" and "list_all key_char name"
    and "\<And>k. list_all key_char (take k t) \<Longrightarrow> k \<le> length t \<Longrightarrow> take k t = take k s"
  shows "key_at name least p s"
proof -
  let ?r = "takeWhile key_char (drop (length name) t)"
  let ?k = "length name + length ?r"
  have starts: "\<not> word_before p" "take (length name) t = name" using assms(1) by (simp_all add: key_at_def)
  have fits: "length name \<le> length t" using arg_cong [OF starts(2), of length] by simp
  have "take (length ?r) (drop (length name) t) = ?r" by (rule takeWhile_eq_take [symmetric])
  then have t: "take ?k t = name @ ?r" using starts(2) by (simp add: take_add)
  have "list_all key_char ?r" by (auto dest!: set_takeWhileD simp: list_all_iff)
  then have "list_all key_char (take ?k t)" using assms(2) by (simp add: t)
  moreover have "?k \<le> length t" using length_takeWhile_le [of key_char "drop (length name) t"] fits by simp
  ultimately have "take ?k s = name @ ?r" using assms(3) t by simp
  then have s: "s = (name @ ?r) @ drop ?k s" by (metis append_take_drop_id)
  have "takeWhile key_char (?r @ drop ?k s) = ?r @ takeWhile key_char (drop ?k s)"
    by (rule takeWhile_append2) (auto dest: set_takeWhileD)
  moreover have "take (length name) s = name" "drop (length name) s = ?r @ drop ?k s" by (subst s, simp)+
  ultimately show ?thesis using assms(1) by (auto simp: key_at_def list_ex_iff)
qed

lemma holds_later: "m \<le> length s \<Longrightarrow> holds_key name least (char_before m p s) (drop m s) \<Longrightarrow> holds_key name least p s"
proof (induction m arbitrary: p s)
  case (Suc m)
  then show ?case by (cases s) (auto simp: char_before_def nth_Cons split: if_splits nat.splits)
qed (simp add: char_before_def)

lemma holds_skip:
  "a \<notin> set t \<Longrightarrow> t \<noteq> [] \<Longrightarrow> holds_key (a # as) least p (t @ u) \<longleftrightarrow> holds_key (a # as) least (Some (last t)) u"
proof (induction t arbitrary: p)
  case (Cons x t)
  then have "\<not> key_at (a # as) least p (x # t @ u)" by (auto simp: key_at_def)
  then show ?case using Cons by (cases "t = []") simp_all
qed simp

lemma match_here_empty: "match_here r Empty p s = (case matches r p s of [] \<Rightarrow> None | n # ns \<Rightarrow> Some (n, n))"
proof -
  have "concat (map (\<lambda>n. [(n, n)]) xs) = map (\<lambda>n. (n, n)) xs" for xs :: "nat list" by (induction xs) simp_all
  then show ?thesis by (cases "matches r p s") (simp_all add: match_here_def)
qed

text \<open>A name of keys that is not part of the replacement\<close>

definition key_name :: "string \<Rightarrow> bool" where
  "key_name name \<longleftrightarrow> name \<noteq> [] \<and> word_char (hd name) \<and> hd name \<notin> set REDACTED_TEXT \<and> list_all key_char name"

lemma replaced_no_key:
  assumes "key_name name" and "key_name other" and "0 < least'" and "(other, least') = (name, least) \<or> \<not> holds_key name least p s"
  shows "\<not> holds_key name least p (replace_all (key_pattern other least') Empty (\<lambda>t. REDACTED_TEXT) p s)"
  using assms(4)
proof (induction s arbitrary: p rule: length_induct)
  case (1 s p)
  let ?r = "key_pattern other least'"
  obtain a as where name: "name = a # as" "word_char a" "a \<notin> set REDACTED_TEXT"
    using assms(1) by (cases name) (auto simp: key_name_def)
  obtain b bs where other: "other = b # bs" "word_char b" using assms(2) by (cases other) (auto simp: key_name_def)
  have no_match_here: "match_here ?r Empty q (c # cs) = None" if "\<not> word_char c" for q c cs
    using that other by (auto simp: match_here_empty matches_key Let_def)
  show ?case
  proof (cases s)
    case Nil
    then show ?thesis by simp
  next
    case (Cons c cs)
    show ?thesis
    proof (cases "\<exists>n m. match_here ?r Empty p (c # cs) = Some (n, Suc m)")
      case True
      then obtain n m where m: "match_here ?r Empty p (c # cs) = Some (n, Suc m)" by blast
      then obtain ms where "matches ?r p (c # cs) = Suc m # ms" by (auto simp: match_here_empty split: list.splits)
      from first_match [OF this assms(3) other]
      have end_of: "m \<le> length cs" "word_char ((c # cs) ! m)" "\<not> word_ahead (drop m cs)" by simp_all
      let ?out = "replace_all ?r Empty (\<lambda>t. REDACTED_TEXT) (Some ((c # cs) ! m)) (drop m cs)"
      have "\<not> holds_key name least (Some ((c # cs) ! m)) (drop m cs) \<or> (other, least') = (name, least)"
        using 1(2) holds_later [of "Suc m" s name least p] end_of(1) Cons by (auto simp: char_before_def)
      then have ih: "\<not> holds_key name least (Some ((c # cs) ! m)) ?out" using 1(1) Cons by (auto simp del: nth_Cons')
      have "\<not> holds_key name least (Some (CHR '']'')) ?out"
      proof (cases "drop m cs")
        case (Cons e es)
        then have "\<not> word_char e" using end_of(3) by (simp add: word_ahead_def)
        then have "?out = e # replace_all ?r Empty (\<lambda>t. REDACTED_TEXT) (Some e) es"
          using replace_next no_match_here Cons by (metis option.distinct(1))
        moreover have "e \<noteq> a" using \<open>\<not> word_char e\<close> name by auto
        ultimately show ?thesis using ih name by (auto simp: key_at_def)
      qed simp
      moreover have "last REDACTED_TEXT = CHR '']''" by (simp add: REDACTED_TEXT_def)
      moreover have "REDACTED_TEXT \<noteq> []" by (simp add: REDACTED_TEXT_def)
      ultimately have "\<not> holds_key name least p (REDACTED_TEXT @ ?out)" using holds_skip [OF name(3)] name(1) by simp
      then show ?thesis using replace_here [OF m] Cons by simp
    next
      case False
      let ?out = "replace_all ?r Empty (\<lambda>t. REDACTED_TEXT) (Some c) cs"
      have out: "replace_all ?r Empty (\<lambda>t. REDACTED_TEXT) p s = c # ?out" using replace_next False Cons by blast
      have "\<not> holds_key name least (Some c) cs \<or> (other, least') = (name, least)" using 1(2) Cons by auto
      then have ih: "\<not> holds_key name least (Some c) ?out" using 1(1) Cons by auto
      have "matches ?r p s = []"
      proof (cases "matches ?r p s")
        case (Cons m ms)
        then show ?thesis using False first_match [OF Cons assms(3) other] \<open>s = c # cs\<close> by (cases m) (auto simp: match_here_empty)
      qed
      then have "\<not> key_at name least p s" using no_match [OF _ assms(3) other] 1(2) Cons by auto
      then have "\<not> key_at name least p (c # ?out)"
        using key_at_mono [of name least p "c # ?out" s] key_prefix [of _ ?r p s] assms(1)
        by (auto simp: out key_name_def)
      then show ?thesis using ih by (simp add: out)
    qed
  qed
qed

text \<open>Neither does a text get a key when its end is replaced by one that begins with another character.\<close>

lemma cut_no_key:
  assumes "holds_key name least p (take j s @ z)" and "key_name name" and "hd name \<notin> set z" and "z = e # es" and "\<not> key_char e"
  shows "holds_key name least p s"
  using assms(1)
proof (induction j arbitrary: p s)
  case 0
  have "name = hd name # tl name" using assms(2) by (simp add: key_name_def)
  then have "\<not> holds_key name least p (z @ [])"
    using holds_skip [OF assms(3), of "tl name" least p "[]"] assms(4) by simp
  then show ?case using 0 by simp
next
  case (Suc j)
  show ?case
  proof (cases s)
    case Nil
    then show ?thesis using Suc.IH [of p "[]"] Suc.prems by simp
  next
    case (Cons c cs)
    let ?t = "take (Suc j) s @ z"
    have "key_at name least p s" if "key_at name least p ?t"
    proof (rule key_at_mono [OF that])
      show "list_all key_char name" using assms(2) by (simp add: key_name_def)
      show "take k ?t = take k s" if "list_all key_char (take k ?t)" "k \<le> length ?t" for k
      proof -
        have "k \<le> length (take (Suc j) s)"
        proof (rule ccontr)
          assume "\<not> ?thesis"
          then have "e \<in> set (take k ?t)" using assms(4) by (cases "k - length (take (Suc j) s)") auto
          then show False using that(1) assms(5) by (simp add: list_all_iff)
        qed
        then have "k \<le> length s" "k \<le> Suc j" by simp_all
        then show ?thesis by simp
      qed
    qed
    then have here: "key_at name least p (c # take j cs @ z) \<Longrightarrow> key_at name least p (c # cs)" by (simp add: Cons)
    have "key_at name least p (c # take j cs @ z) \<or> holds_key name least (Some c) (take j cs @ z)"
      using Suc.prems by (simp add: Cons)
    then show ?thesis unfolding Cons holds_key.simps using here Suc.IH by blast
  qed
qed

section \<open>No key is left\<close>

text \<open>
  Neither of the two stands at the beginning of a word of the text. In a JSON value the texts count, at any
  depth, but not the names of properties, which the code leaves as they are.
\<close>

definition no_keys :: "string \<Rightarrow> bool" where
  "no_keys s \<longleftrightarrow> \<not> holds_key ''clwcap_'' 1 None s \<and> \<not> holds_key ''sk-'' 8 None s"

function (sequential) keyless :: "json \<Rightarrow> bool" where
  "keyless (JStr s) \<longleftrightarrow> no_keys s"
| "keyless (JArr xs) \<longleftrightarrow> list_all keyless xs"
| "keyless (JObj r) \<longleftrightarrow> list_all (\<lambda>(k, v). keyless v) r"
| "keyless v \<longleftrightarrow> True"
  by pat_completeness auto

termination
  by (relation "measure size") (auto intro: size_in_list size_in_record)

lemma key_names: "key_name ''clwcap_''" "key_name ''sk-''"
  by code_simp+

lemma redactText_no_keys: "no_keys (redactText s)"
  using replaced_no_key [OF key_names(1) key_names(2), of 8 1] replaced_no_key [OF key_names(1) key_names(1), of 1 1]
    replaced_no_key [OF key_names(2) key_names(2), of 8 8]
  by (simp add: no_keys_def redactText_def Let_def redact_keys_def agentCapabilityPattern_def standaloneOpenAiKeyPattern_def)

lemma REDACTED_TEXT_no_keys: "no_keys REDACTED_TEXT"
  by code_simp

lemma redactValue_keyless: "keyless (redactValue v)"
  by (induction v rule: redactValue.induct)
    (auto simp: redactText_no_keys REDACTED_TEXT_no_keys list_all_iff)

text \<open>
  C18. What has gone through the redaction holds no capability token and no key of OpenAI in its texts. In a
  text that was redacted, and in each text value of a redacted JSON value at any depth, no word begins with
  \<^verbatim>\<open>clwcap_\<close> and characters of a key with a letter, digit or underscore among them, nor with \<^verbatim>\<open>sk-\<close> and such
  characters of which the eighth or a later one is a letter, digit or underscore, whatever the replacements
  before have made of the text. The names of the properties of a JSON object stay as they are, so of them
  this is not said.
\<close>

theorem keys_redacted:
  "no_keys (redactText s) \<and> keyless (redactValue v) \<and>
   (\<exists>r'. redactValue (JObj r) = JObj r' \<and> map fst r' = map fst r)"
  by (simp add: redactText_no_keys redactValue_keyless case_prod_beta o_def)

text \<open>A name that is a token is left, and so is a token that a letter or an underscore stands before.\<close>

lemma names_stay:
  "redactValue (JObj [(''clwcap_a'', JStr ''clwcap_b'')]) = JObj [(''clwcap_a'', JStr ''[REDACTED]'')]"
  "redactText ''x_clwcap_a'' = ''x_clwcap_a''"
  by code_simp+

lemma redaction_examples:
  "redactText ''a TOKEN=x'' = ''a TOKEN=[REDACTED]''" "redactText ''b clwcap_a-'' = ''b [REDACTED]-''"
  "\<not> no_keys ''b clwcap_a-''"
  by code_simp+

end
