(* ===== verification/RunManager.thy ===== *)
theory RunManager
  imports RunOutcome Redaction
begin

text \<open>
  The run manager, \<^verbatim>\<open>runs/manager.ts\<close>: it starts the runs of the daemon, queues those that have
  to wait, cancels and reorders them, follows their Codex processes and finishes them.

  \<^item> The state is the run time state of theory \<open>Storage\<close> extended with the manager's maps and
    queues (\<open>run_state\<close>). A run that has been launched is an entry of \<open>rm_active\<close> with the local
    variables of \<^verbatim>\<open>startExistingRun\<close>; theory \<open>RunOutcome\<close> declares them.
  \<^item> What the manager is given (\<^verbatim>\<open>RunManagerOptions\<close>) is \<open>run_options\<close>: functions of the thread
    manager, the callbacks, the executor's \<^verbatim>\<open>canStart\<close>, and the limits.
  \<^item> JavaScript runs one event at a time, so each operation and each continuation of a promise is
    one function of the model: the requests (\<open>startRun\<close>, \<open>cancelRun\<close>, \<open>steerRun\<close>, \<open>cancelAll\<close>,
    \<open>close_manager\<close>), what a process reports (\<open>thread_started\<close>, \<open>stdout_line\<close>, \<open>notification\<close>, \<open>process_report\<close>),
    and the two continuations that wait for a log file to close (\<open>finish_run\<close>,
    \<open>finish_queued_cancel\<close>).
  \<^item> \<^verbatim>\<open>startExistingRun\<close>, \<^verbatim>\<open>completeThreadRun\<close> and the two functions that take the next run from a
    queue call each other. They carry the depth of the call stack that is left, as fuel; a
    stack that is used up is JavaScript's \<^verbatim>\<open>RangeError\<close>. \<open>stack_for\<close> is what the queues can need.

  Not modelled: the contents of the files \<^verbatim>\<open>meta.json\<close> and \<^verbatim>\<open>diagnostics.json\<close> (their writing is,
  since it may fail), the log files, the optional activity reporter of the enterprise part. The
  translation of Codex events (theory \<open>EventNormalizer\<close>) is known here by its result, an argument of
  the steps that publish it.
\<close>

section \<open>State and options\<close>

record queued_run =
  qr_id :: run_id
  qr_input :: resolved_run
  qr_runDir :: string
  qr_persistent :: bool
  qr_submissionSequence :: "nat option"

record created_run =
  cn_id :: run_id
  cn_threadId :: "thread_id option"
  cn_status :: public_status
  cn_submissionMode :: submission_mode
  cn_queuePosition :: "nat option"

text \<open>
  \<open>rm_resolvers\<close> are the keys of \<^verbatim>\<open>queuedCompletionResolvers\<close>, \<open>rm_resolved\<close> the values the
  promises were resolved with; \<open>rm_cancelSignals\<close> the processes told to cancel,
  \<open>rm_published\<close> the events handed to log and subscribers, \<open>rm_canceling\<close> the canceled queued
  runs whose log file is closing.
\<close>

record 'fs run_state = "'fs rt" +
  rm_active :: "(run_id, active_run) assoc"
  rm_resolvers :: "run_id list"
  rm_resolved :: "created_run list"
  rm_threadQueues :: "(thread_id, queued_run list) assoc"
  rm_persistentQueue :: "queued_run list"
  rm_runningThread :: "(thread_id, run_id) assoc"
  rm_runningPersistent :: "run_id list"
  rm_submissions :: nat
  rm_closing :: bool
  rm_cancelSignals :: "run_id list"
  rm_published :: "event_row list"
  rm_canceling :: "(queued_run \<times> thread_id) list"

type_synonym ('fs, 'x, 'a) rio = "(('fs, 'x) run_state_scheme, err, 'a) act"

record ('fs, 'x) thread_access =
  ta_getThread :: "thread_id \<Rightarrow> db \<Rightarrow> runtime_thread option"
  ta_assertRunnableThread :: "(thread_id \<Rightarrow> ('fs, 'x, runtime_thread) rio) option"
  ta_repairCodexThreadBindings :: "('fs, 'x, thread_id list \<times> thread_id list) rio option"
  ta_setCodexThreadId :: "thread_id \<Rightarrow> string \<Rightarrow> ('fs, 'x, unit) rio"

text \<open>
  \<open>op_executor\<close> is \<^verbatim>\<open>maxConcurrency\<close> of the persistent executor, if there is one;
  \<open>op_canStart\<close> may depend on everything. \<open>op_writeFile\<close> is \<^verbatim>\<open>writeFileSync\<close> to a path.
\<close>

record ('fs, 'x) run_options =
  op_env :: "'fs env"
  op_writeFile :: "string \<Rightarrow> 'fs \<Rightarrow> err + 'fs"
  op_appServer :: bool
  op_executor :: "nat option"
  op_canStart :: "thread_id \<Rightarrow> ('fs, 'x) run_state_scheme \<Rightarrow> bool"
  op_resumeCapabilityVerified :: bool
  op_validateProfile :: "string \<Rightarrow> (string \<times> string) option"
  op_rotationThreshold :: "rat option option"
  op_timeoutMs :: "int option"
  op_spawnTimeoutMs :: "int option"
  op_inactivityTimeoutMs :: "int option"
  op_threads :: "('fs, 'x) thread_access option"
  op_prepareRotation :: "(string \<Rightarrow> thread_id \<Rightarrow> ('fs, 'x, string \<times> context_item list) rio) option"
  op_recordContext :: "run_id \<Rightarrow> context_item list \<Rightarrow> ('fs, 'x, unit) rio"
  op_onRunTerminal :: "run_id \<Rightarrow> ('fs, 'x, unit) rio"
  op_cancelApprovals :: "run_id \<Rightarrow> string \<Rightarrow> ('fs, 'x, unit) rio"
  op_limitText :: "nat \<Rightarrow> string" \<comment> \<open>three messages in Chinese\<close>
  op_rotatedText :: string
  op_contextText :: string

definition thread_of :: "('fs, 'x) run_options \<Rightarrow> thread_id option \<Rightarrow> db \<Rightarrow> runtime_thread option" where
  "thread_of R t d =
     (case t of None \<Rightarrow> None
      | Some i \<Rightarrow> (case op_threads R of None \<Rightarrow> None | Some T \<Rightarrow> ta_getThread T i d))"

definition run_dir :: "('fs, 'x) run_options \<Rightarrow> run_id \<Rightarrow> string" where
  "run_dir R i = env_join (op_env R) (env_join (op_env R) (env_dataDir (op_env R)) ''runs'') i"

definition write_file :: "('fs, 'x) run_options \<Rightarrow> string \<Rightarrow> string \<Rightarrow> ('fs, 'x, unit) rio" where
  "write_file R dir name = write_fs (op_writeFile R (env_join (op_env R) dir name))"

section \<open>Publishing events\<close>

definition publish :: "event_row \<Rightarrow> ('fs, 'x, unit) rio" where
  "publish e = thenE (insertRunEvent e) (modify (\<lambda>s. s\<lparr>rm_published := rm_published s @ [e]\<rparr>))"

definition event :: "run_id \<Rightarrow> nat \<Rightarrow> ms \<Rightarrow> string \<Rightarrow> json \<Rightarrow> event_row" where
  "event runId seq ts kind payload =
     \<lparr>ev_id = ''evt_'' @ runId @ ''_'' @ nat_text seq, ev_runId = runId, ev_seq = seq, ev_type = kind,
      ev_payload = payload, ev_createdAt = ts\<rparr>"

definition publish_now :: "run_id \<Rightarrow> nat \<Rightarrow> string \<Rightarrow> json \<Rightarrow> ('fs, 'x, unit) rio" where
  "publish_now runId seq kind payload =
     bindE date_now (\<lambda>ts. publish (event runId seq ts kind payload))"

definition opt_field :: "string \<Rightarrow> string option \<Rightarrow> (string \<times> json) list" where
  "opt_field k v = (case v of None \<Rightarrow> [] | Some x \<Rightarrow> [(k, JStr x)])"

definition publishStatus ::
  "run_id \<Rightarrow> nat \<Rightarrow> string \<Rightarrow> string option \<Rightarrow> string option \<Rightarrow> ('fs, 'x, unit) rio" where
  "publishStatus runId seq label threadId codexThreadId =
     publish_now runId seq ''status''
       (JObj ([(''type'', JStr ''status''), (''label'', JStr label)] @
              opt_field ''threadId'' threadId @ opt_field ''codexThreadId'' codexThreadId))"

definition publishScheduleTrigger :: "run_id \<Rightarrow> nat \<Rightarrow> string \<Rightarrow> ms \<Rightarrow> ('fs, 'x, unit) rio" where
  "publishScheduleTrigger runId seq prompt triggeredAt =
     publish (event runId seq triggeredAt ''schedule_trigger''
       (JObj [(''type'', JStr ''schedule_trigger''), (''prompt'', JStr prompt),
              (''triggeredAt'', JNum (of_int triggeredAt))]))"

definition publishDiagnostic ::
  "run_id \<Rightarrow> nat \<Rightarrow> string \<Rightarrow> string \<Rightarrow> json option \<Rightarrow> ('fs, 'x, unit) rio" where
  "publishDiagnostic runId seq code message details =
     publish_now runId seq ''diagnostic''
       (JObj ([(''type'', JStr ''diagnostic''), (''code'', JStr code), (''severity'', JStr ''warning''),
               (''message'', JStr message)] @
              (case details of None \<Rightarrow> [] | Some d \<Rightarrow> [(''details'', d)])))"

definition publishError :: "run_id \<Rightarrow> nat \<Rightarrow> string \<Rightarrow> string \<Rightarrow> ('fs, 'x, unit) rio" where
  "publishError runId seq code message =
     publish_now runId seq ''error''
       (JObj [(''type'', JStr ''error''), (''code'', JStr code), (''message'', JStr message)])"

fun status_text :: "public_status \<Rightarrow> string" where
  "status_text PQueued = ''queued''"
| "status_text PRunning = ''running''"
| "status_text PSucceeded = ''succeeded''"
| "status_text PFailed = ''failed''"
| "status_text PCanceled = ''canceled''"

fun reason_text :: "termination_reason \<Rightarrow> string" where
  "reason_text TCompleted = ''completed''"
| "reason_text TUserCanceled = ''user_canceled''"
| "reason_text TTimeout = ''timeout''"
| "reason_text TSpawnTimeout = ''spawn_timeout''"
| "reason_text TInactivityTimeout = ''inactivity_timeout''"
| "reason_text TSpawnFailed = ''spawn_failed''"
| "reason_text TCodexExitNonZero = ''codex_exit_non_zero''"
| "reason_text TStreamError = ''stream_error''"
| "reason_text TDaemonRestart = ''daemon_restart''"
| "reason_text TProcessKillFailed = ''process_kill_failed''"

definition publishDone :: "run_id \<Rightarrow> nat \<Rightarrow> public_status \<Rightarrow> termination_reason \<Rightarrow> ('fs, 'x, unit) rio" where
  "publishDone runId seq status reason =
     publish_now runId seq ''done''
       (JObj [(''type'', JStr ''done''), (''status'', JStr (status_text status)),
              (''terminationReason'', JStr (reason_text reason))])"

definition publish_notice :: "run_id \<Rightarrow> nat \<Rightarrow> run_notice \<Rightarrow> ('fs, 'x, unit) rio" where
  "publish_notice i seq n =
     (case n of
        NoticeError code message \<Rightarrow> publishError i seq code message
      | NoticeDiagnostic code message \<Rightarrow> publishDiagnostic i seq code message None)"

definition nextSeqForRun :: "run_id \<Rightarrow> ('fs, 'x, nat) rio" where
  "nextSeqForRun i = read_db (\<lambda>d. getLastRunEventSeq i d + 1)"

definition hasDoneEvent :: "run_id \<Rightarrow> db \<Rightarrow> bool" where
  "hasDoneEvent i d = list_ex (\<lambda>e. ev_type e = ''done'') (listRunEvents i 0 d)"

text \<open>A callback whose exception is only logged\<close>

definition swallow :: "('fs, 'x, unit) rio \<Rightarrow> ('fs, 'x, unit) rio" where
  "swallow m = catchE m (\<lambda>_. ret ())"

definition notifyRunTerminal :: "('fs, 'x) run_options \<Rightarrow> run_id \<Rightarrow> ('fs, 'x, unit) rio" where
  "notifyRunTerminal R i = swallow (op_onRunTerminal R i)"

section \<open>The request\<close>

text \<open>
  \<^verbatim>\<open>resolveCreateRunInput\<close>. For a schedule's run the clock is read only when \<^verbatim>\<open>triggeredAt\<close> is
  missing.
\<close>

definition normalized_input :: "create_run \<Rightarrow> ('fs, 'x, create_run) rio" where
  "normalized_input q =
     (if rb_createdBy q = Some BySchedule then
        bindE (case rb_triggeredAt q of Some t \<Rightarrow> ret t | None \<Rightarrow> date_now) (\<lambda>t.
        ret (q\<lparr>rb_publicPrompt := Some (option_or (rb_publicPrompt q) (rb_prompt q)),
               rb_triggeredAt := Some t\<rparr>))
      else
        ret (q\<lparr>rb_publicPrompt :=
                 (if rb_executionPrompt q \<noteq> None \<and> rb_executionPrompt q \<noteq> Some (rb_prompt q)
                  then Some (rb_prompt q) else None),
               rb_triggeredAt := None\<rparr>))"

definition resolved_of ::
  "create_run \<Rightarrow> string \<Rightarrow> string \<Rightarrow> sandbox_mode \<Rightarrow> string option \<Rightarrow> reasoning_effort option \<Rightarrow> resolved_run" where
  "resolved_of q cwd profile sandbox model reasoning =
     run_base.extend (run_base.truncate q)
       \<lparr>ri_cwd = cwd, ri_profile = profile, ri_sandbox = sandbox, ri_model = model, ri_reasoning = reasoning\<rparr>"

definition runnable_thread :: "('fs, 'x) thread_access \<Rightarrow> thread_id \<Rightarrow> ('fs, 'x, runtime_thread) rio" where
  "runnable_thread T i =
     bindE (case ta_assertRunnableThread T of
              Some check \<Rightarrow> bindE (check i) (\<lambda>t. ret (Some t))
            | None \<Rightarrow> read_db (ta_getThread T i)) (\<lambda>found.
     bindE (someE (PlainError (''Thread not found: '' @ i)) found) (\<lambda>t.
     thenE (guardE (th_status t \<noteq> Archived) (PlainError (''Thread is archived: '' @ i))) (ret t)))"

definition resolveCreateRunInput ::
  "('fs, 'x) run_options \<Rightarrow> create_run \<Rightarrow> ('fs, 'x, resolved_run) rio" where
  "resolveCreateRunInput R input =
     bindE (normalized_input input) (\<lambda>q.
     case (rb_threadId q, op_threads R) of
       (Some i, Some T) \<Rightarrow>
         bindE (runnable_thread T i) (\<lambda>t.
         ret (resolved_of q
           (if th_workspaceMode t = Managed then th_canonicalCwd t else expandHome (op_env R) (th_cwd t))
           (th_profile t) (th_sandbox t)
           (case cr_model q of Some m \<Rightarrow> m | None \<Rightarrow> th_model t)
           (case cr_reasoning q of Some r \<Rightarrow> r | None \<Rightarrow> th_reasoning t)))
     | _ \<Rightarrow>
         (case (cr_cwd q, cr_profile q, cr_sandbox q) of
            (Some cwd, Some profile, Some sandbox) \<Rightarrow>
              ret (resolved_of q (expandHome (op_env R) cwd) profile sandbox
                (case cr_model q of Some m \<Rightarrow> m | None \<Rightarrow> None)
                (case cr_reasoning q of Some r \<Rightarrow> r | None \<Rightarrow> None))
          | _ \<Rightarrow> throw (PlainError ''Run execution configuration is required when thread access is unavailable'')))"

text \<open>\<open>None\<close>: the arguments cannot be built, a Codex thread to resume is missing.\<close>

definition buildRunArgv :: "resolved_run \<Rightarrow> resume_mode \<Rightarrow> string option \<Rightarrow> (err + string list) option" where
  "buildRunArgv q mode codexThreadId =
     (if mode = ResumeThread then
        map_option (\<lambda>c. buildCodexResumeArgs c (ri_sandbox q) (ri_model q) (ri_reasoning q)
          (rb_imagePaths q) [] None) codexThreadId
      else Some (buildCodexExecArgs (Some (ri_profile q)) (ri_cwd q) (ri_sandbox q) (ri_model q)
        (ri_reasoning q) (rb_imagePaths q) [] None))"

definition buildRuntimeArgv ::
  "bool \<Rightarrow> resolved_run \<Rightarrow> resume_mode \<Rightarrow> string option \<Rightarrow> (err + string list) option" where
  "buildRuntimeArgv appServer q mode codexThreadId =
     (if appServer then Some (buildCodexAppServerArgs (ri_profile q) [] None)
      else buildRunArgv q mode codexThreadId)"

definition new_run_row :: "run_id \<Rightarrow> resolved_run \<Rightarrow> resume_mode \<Rightarrow> string option \<Rightarrow> run_row" where
  "new_run_row i q mode codexThreadId =
     \<lparr>rn_id = i, rn_threadId = rb_threadId q,
      rn_codexThreadId = (if mode = ResumeThread then codexThreadId else None),
      rn_resumeMode = Some mode, rn_queueState = QNone, rn_submissionMode = submission_of q,
      rn_publicStatus = PQueued, rn_internalStatus = ICreated, rn_createdBy = creator_of q,
      rn_sourceId = rb_sourceId q, rn_publicPrompt = rb_publicPrompt q,
      rn_triggeredAt = (if rb_createdBy q = Some BySchedule then rb_triggeredAt q else None),
      rn_profile = ri_profile q, rn_cwd = ri_cwd q, rn_model = ri_model q,
      rn_reasoning = ri_reasoning q, rn_sandbox = ri_sandbox q, rn_timeoutMs = rb_timeoutMs q,
      rn_terminationReason = None, rn_exitCode = None, rn_signal = None, rn_startedAt = None,
      rn_endedAt = None, rn_createdAt = 0, rn_updatedAt = 0, rn_errorCode = None,
      rn_errorMessage = None\<rparr>"

definition insertInitialRun ::
  "('fs, 'x) run_options \<Rightarrow> resolved_run \<Rightarrow> resume_mode \<Rightarrow> string option \<Rightarrow> ('fs, 'x, run_id) rio" where
  "insertInitialRun R q mode codexThreadId =
     bindE nanoid (\<lambda>suffix.
     let i = ''run_'' @ suffix; dir = run_dir R i in
     thenE (write_fs (env_mkdirSync (op_env R) True dir))
     (thenE (write_file R dir ''raw.redacted.ndjson'')
     (thenE (write_file R dir ''events.ndjson'')
     (thenE (write_file R dir ''stderr.redacted.log'')
     (thenE (insertRun (new_run_row i q mode codexThreadId))
     (thenE (whenE (rb_contextItems q \<noteq> []) (op_recordContext R i (rb_contextItems q)))
     (thenE (write_file R dir ''meta.json'')
     (ret i))))))))"

section \<open>Completions\<close>

definition resolveRunCompletion :: "created_run \<Rightarrow> ('fs, 'x, unit) rio" where
  "resolveRunCompletion c =
     modify (\<lambda>s. if cn_id c \<in> set (rm_resolvers s)
       then s\<lparr>rm_resolvers := removeAll (cn_id c) (rm_resolvers s), rm_resolved := rm_resolved s @ [c]\<rparr>
       else s)"

definition created_run_of :: "run_id \<Rightarrow> resolved_run \<Rightarrow> public_status \<Rightarrow> created_run" where
  "created_run_of i q status =
     \<lparr>cn_id = i, cn_threadId = rb_threadId q, cn_status = status, cn_submissionMode = submission_of q,
      cn_queuePosition = None\<rparr>"

section \<open>Launching\<close>

text \<open>The number of finished runs of the thread in its current Codex thread\<close>

definition countTerminalRunsByCodexThread :: "thread_id \<Rightarrow> string \<Rightarrow> db \<Rightarrow> nat" where
  "countTerminalRunsByCodexThread t c d =
     length (filter (\<lambda>r. rn_threadId r = Some t \<and> rn_codexThreadId r = Some c \<and>
       rn_publicStatus r \<in> {PSucceeded, PFailed, PCanceled}) (db_runs d))"

text \<open>
  \<^verbatim>\<open>prepareRotationRunInput\<close>. \<open>seq\<close> is \<open>None\<close> where the function runs before the declaration of
  the variable \<^verbatim>\<open>seq\<close>: increasing it there is a \<^verbatim>\<open>ReferenceError\<close>. Returns the new request and
  the value of \<^verbatim>\<open>seq\<close>.
\<close>

definition redact_item :: "context_item \<Rightarrow> context_item" where
  "redact_item c = c\<lparr>ci_content := redactText (ci_content c)\<rparr>"

definition context_unavailable :: "('fs, 'x) run_options \<Rightarrow> run_id \<Rightarrow> nat option \<Rightarrow> ('fs, 'x, nat option) rio" where
  "context_unavailable R i seq =
     (case seq of
        None \<Rightarrow> throw (PlainError ''Cannot access 'seq' before initialization'')
      | Some n \<Rightarrow>
          thenE (publishDiagnostic i (Suc n) ''THREAD_ROTATION_CONTEXT_UNAVAILABLE'' (op_contextText R) None)
            (ret (Some (Suc n))))"

definition prepareRotationRunInput ::
  "('fs, 'x) run_options \<Rightarrow> run_id \<Rightarrow> resolved_run \<Rightarrow> nat option \<Rightarrow> ('fs, 'x, resolved_run \<times> nat option) rio" where
  "prepareRotationRunInput R i q seq =
     (let prompt = redactText (option_or (rb_publicPrompt q) (rb_prompt q)) in
      bindE (case (rb_threadId q, op_prepareRotation R) of
               (Some t, Some prepare) \<Rightarrow>
                 catchE (bindE (prepare prompt t) (\<lambda>p. ret (Some p, seq)))
                   (\<lambda>_. bindE (context_unavailable R i seq) (\<lambda>seq'. ret (None, seq')))
             | _ \<Rightarrow> ret (None, seq)) (\<lambda>(prepared, seq').
      let items = (case prepared of None \<Rightarrow> [] | Some p \<Rightarrow> map redact_item (snd p));
          execution = (case prepared of None \<Rightarrow> prompt | Some p \<Rightarrow> fst p) in
      thenE (whenE (items \<noteq> []) (swallow (op_recordContext R i items)))
      (ret (q\<lparr>rb_executionPrompt := Some (redactText execution), rb_contextItems := items\<rparr>, seq'))))"

text \<open>What the first half of \<^verbatim>\<open>startExistingRun\<close> settles before it may refuse the run\<close>

record launch_plan =
  lp_thread :: "runtime_thread option"
  lp_mode :: resume_mode
  lp_codexThreadId :: "string option" \<comment> \<open>\<^verbatim>\<open>resolvedCodexThreadId\<close>\<close>
  lp_rotation :: "rotation option"
  lp_input :: resolved_run \<comment> \<open>\<^verbatim>\<open>executionRunInput\<close>\<close>

definition codex_of :: "runtime_thread option \<Rightarrow> string option" where
  "codex_of t = (case t of None \<Rightarrow> None | Some t \<Rightarrow> th_codexThreadId t)"

text \<open>Whether the Codex thread is due for a new one\<close>

definition rotation_due :: "('fs, 'x) run_options \<Rightarrow> resolved_run \<Rightarrow> runtime_thread option \<Rightarrow> db \<Rightarrow> bool" where
  "rotation_due R q thread d \<longleftrightarrow>
     (let threshold = normalizeRotationRunThreshold (op_rotationThreshold R) in
      resolveResumeMode q thread = ResumeThread \<and> shouldAutomaticallyRotateRun q \<and> threshold > 0 \<and>
      (case (codex_of thread, rb_threadId q) of
         (Some c, Some t) \<Rightarrow> countTerminalRunsByCodexThread t c d \<ge> threshold
       | _ \<Rightarrow> False))"

definition plan_launch :: "('fs, 'x) run_options \<Rightarrow> queued_run \<Rightarrow> ('fs, 'x, launch_plan) rio" where
  "plan_launch R q =
     (let input = qr_input q in
      bindE (read_db (thread_of R (rb_threadId input))) (\<lambda>thread.
      let mode = resolveResumeMode input thread; codex = codex_of thread in
      bindE (read_db (rotation_due R input thread)) (\<lambda>due.
      if due then
        bindE (prepareRotationRunInput R (qr_id q) input None) (\<lambda>(input', _).
        ret \<lparr>lp_thread = thread, lp_mode = NewThread, lp_codexThreadId = None,
             lp_rotation = Some \<lparr>ro_reason = RunThreshold, ro_previous = the codex, ro_next = None,
                                ro_announced = False\<rparr>,
             lp_input = input'\<rparr>)
      else
        ret \<lparr>lp_thread = thread, lp_mode = mode,
             lp_codexThreadId = (if mode = ResumeThread then codex else None),
             lp_rotation = None, lp_input = input\<rparr>)))"

text \<open>The reason to refuse a run before its process is spawned\<close>

definition refusal :: "('fs, 'x) run_options \<Rightarrow> resolved_run \<Rightarrow> launch_plan \<Rightarrow> (string \<times> string) option" where
  "refusal R input p =
     (if buildRuntimeArgv (op_appServer R) (lp_input p) (lp_mode p) (lp_codexThreadId p) = None \<or>
         lp_mode p = ResumeThread \<and> lp_codexThreadId p = None
      then Some (''CODEX_THREAD_ID_MISSING'', ''resume_thread requires a persisted codexThreadId'')
      else if lp_mode p = ResumeThread \<and> \<not> op_resumeCapabilityVerified R
      then Some (''RESUME_CAPABILITY_UNVERIFIED'', ''Codex resume capability has not been verified'')
      else if rb_threadId input \<noteq> None then op_validateProfile R (ri_profile input)
      else None)"

text \<open>The run takes its thread and, with the executor, one of the places.\<close>

definition claim :: "queued_run \<Rightarrow> ('fs, 'x) run_state_scheme \<Rightarrow> ('fs, 'x) run_state_scheme" where
  "claim q s =
     s\<lparr>rm_runningPersistent := (if qr_persistent q then set_add (qr_id q) (rm_runningPersistent s)
                               else rm_runningPersistent s),
       rm_runningThread := (case rb_threadId (qr_input q) of
                              Some t \<Rightarrow> map_put t (qr_id q) (rm_runningThread s)
                            | None \<Rightarrow> rm_runningThread s)\<rparr>"

definition active_of :: "queued_run \<Rightarrow> launch_plan \<Rightarrow> nat \<Rightarrow> active_run" where
  "active_of q p seq =
     \<lparr>ar_input = lp_input p, ar_runDir = qr_runDir q, ar_thread = lp_thread p,
      ar_persistent = qr_persistent q, ar_resumeMode = lp_mode p, ar_codexThreadId = lp_codexThreadId p,
      ar_rotation = lp_rotation p, ar_seq = seq, ar_stdoutLines = [], ar_stderr = [],
      ar_sawTurnCompleted = False, ar_sawCodexThreadId = (lp_mode p = ResumeThread),
      ar_established = False, ar_turnStarted = False, ar_cancelRequested = False, ar_finishing = None\<rparr>"

text \<open>From the checks to the entry in \<^verbatim>\<open>activeRuns\<close>\<close>

definition spawn :: "('fs, 'x) run_options \<Rightarrow> queued_run \<Rightarrow> launch_plan \<Rightarrow> ('fs, 'x, created_run) rio" where
  "spawn R q p =
     (let i = qr_id q; input = qr_input q; codex = codex_of (lp_thread p) in
      bindE (read_db (getLastRunEventSeq i)) (\<lambda>seq.
      thenE (case lp_codexThreadId p of
               Some c \<Rightarrow> whenE (lp_mode p = ResumeThread) (setRunCodexThreadId i c) | None \<Rightarrow> ret ())
      (thenE (write_file R (qr_runDir q) ''meta.json'')
      (bindE (if lp_mode p = NewThread \<and> codex \<noteq> None \<and> lp_rotation p = None then
                thenE (publishDiagnostic i (Suc seq) ''THREAD_CODEX_SESSION_RESET''
                         ''Starting a new Codex session for a thread that already had a Codex session''
                         (Some (JObj (opt_field ''previousCodexThreadId'' codex))))
                  (ret (Suc seq))
              else ret seq) (\<lambda>seq'.
       bindE date_now (\<lambda>startedAt.
       thenE (updateRunStatus i ((run_status PRunning IRunning)\<lparr>us_startedAt := Some startedAt\<rparr>))
       (thenE (modify (\<lambda>s. s\<lparr>rm_active := map_put i (active_of q p seq') (rm_active s)\<rparr>))
       (ret (created_run_of i input PRunning)))))))))"

text \<open>\<^verbatim>\<open>failRunBeforeSpawn\<close>\<close>

definition failRunBeforeSpawn ::
  "('fs, 'x) run_options \<Rightarrow> queued_run \<Rightarrow> string \<Rightarrow> string \<Rightarrow> ('fs, 'x, created_run) rio" where
  "failRunBeforeSpawn R q code message =
     (let i = qr_id q in
      bindE date_now (\<lambda>endedAt.
      thenE (write_file R (qr_runDir q) ''diagnostics.json'')
      (thenE (updateRunStatus i ((run_status PFailed IFailed)
         \<lparr>us_terminationReason := Some TStreamError, us_errorCode := Some code,
          us_errorMessage := Some message, us_endedAt := Some endedAt\<rparr>))
      (thenE (notifyRunTerminal R i)
      (bindE (nextSeqForRun i) (\<lambda>seq.
       thenE (publishError i seq code message)
       (thenE (publishDone i (seq + 1) PFailed TStreamError)
       (ret (created_run_of i (qr_input q) PFailed)))))))))"

text \<open>The first run of the queue that may start now, and the queue without it\<close>

definition startable :: "('fs, 'x) run_options \<Rightarrow> ('fs, 'x) run_state_scheme \<Rightarrow> queued_run \<Rightarrow> bool" where
  "startable R s q \<longleftrightarrow>
     (case rb_threadId (qr_input q) of
        None \<Rightarrow> False
      | Some t \<Rightarrow> map_of (rm_runningThread s) t = None \<and> op_canStart R t s)"

fun take_first :: "('a \<Rightarrow> bool) \<Rightarrow> 'a list \<Rightarrow> ('a \<times> 'a list) option" where
  "take_first p [] = None"
| "take_first p (x # xs) =
     (if p x then Some (x, xs) else map_option (\<lambda>(y, ys). (y, x # ys)) (take_first p xs))"

text \<open>Whether \<^verbatim>\<open>startNextPersistentRuns\<close> has a run to start, and the state without it\<close>

definition next_persistent ::
  "('fs, 'x) run_options \<Rightarrow> ('fs, 'x) run_state_scheme \<Rightarrow> (queued_run \<times> ('fs, 'x) run_state_scheme) option" where
  "next_persistent R s =
     (case op_executor R of
        None \<Rightarrow> None
      | Some maximum \<Rightarrow>
          if rm_closing s \<or> maximum \<le> length (rm_runningPersistent s) then None
          else map_option (\<lambda>(q, rest). (q, s\<lparr>rm_persistentQueue := rest\<rparr>))
                 (take_first (startable R s) (rm_persistentQueue s)))"

definition next_of_thread ::
  "thread_id \<Rightarrow> ('fs, 'x) run_state_scheme \<Rightarrow> (queued_run \<times> ('fs, 'x) run_state_scheme) option" where
  "next_of_thread t s =
     (if rm_closing s \<or> map_of (rm_runningThread s) t \<noteq> None then None
      else (case map_of (rm_threadQueues s) t of
              Some (q # rest) \<Rightarrow>
                Some (q, s\<lparr>rm_threadQueues := (if rest = [] then map_del t (rm_threadQueues s)
                                              else map_put t rest (rm_threadQueues s))\<rparr>)
            | _ \<Rightarrow> None))"

definition release :: "thread_id option \<Rightarrow> run_id \<Rightarrow> ('fs, 'x) run_state_scheme \<Rightarrow> ('fs, 'x) run_state_scheme" where
  "release threadId i s =
     s\<lparr>rm_runningPersistent := removeAll i (rm_runningPersistent s),
       rm_runningThread := (case threadId of
         Some t \<Rightarrow> if map_of (rm_runningThread s) t = Some i then map_del t (rm_runningThread s)
                   else rm_runningThread s
       | None \<Rightarrow> rm_runningThread s)\<rparr>"

definition call_stack_exceeded :: err where
  "call_stack_exceeded = NodeError ''RangeError'' ''Maximum call stack size exceeded''"

text \<open>Up to the point where a refused run is told apart: \<open>Inl\<close> the refusal\<close>

definition try_launch ::
  "('fs, 'x) run_options \<Rightarrow> queued_run \<Rightarrow> ('fs, 'x, (string \<times> string) + created_run) rio" where
  "try_launch R q =
     (let i = qr_id q; input = qr_input q in
      bindE date_now (\<lambda>_.
      thenE (modify (claim q))
      (bindE (plan_launch R q) (\<lambda>p.
       thenE (setRunResumeMode i (lp_mode p))
       (thenE (whenE (rb_threadId input \<noteq> None) (setRunQueueState i QStarted))
       (case refusal R input p of
          Some f \<Rightarrow> ret (Inl f)
        | None \<Rightarrow> bindE (spawn R q p) (\<lambda>c. ret (Inr c))))))))"

fun startExistingRun :: "nat \<Rightarrow> ('fs, 'x) run_options \<Rightarrow> queued_run \<Rightarrow> ('fs, 'x, created_run) rio"
and completeThreadRun :: "nat \<Rightarrow> ('fs, 'x) run_options \<Rightarrow> thread_id option \<Rightarrow> run_id \<Rightarrow> ('fs, 'x, unit) rio"
and startNextPersistentRuns :: "nat \<Rightarrow> ('fs, 'x) run_options \<Rightarrow> ('fs, 'x, unit) rio"
and startNextQueuedThreadRun :: "nat \<Rightarrow> ('fs, 'x) run_options \<Rightarrow> thread_id \<Rightarrow> ('fs, 'x, unit) rio"
where
  "startExistingRun 0 R q = throw call_stack_exceeded"
| "startExistingRun (Suc n) R q =
     bindE (try_launch R q) (\<lambda>r. case r of
       Inr c \<Rightarrow> ret c
     | Inl (code, message) \<Rightarrow>
         bindE (failRunBeforeSpawn R q code message) (\<lambda>run.
         thenE (resolveRunCompletion run)
         (thenE (whenE (rb_threadId (qr_input q) \<noteq> None) (setRunQueueState (qr_id q) QNone))
         (thenE (completeThreadRun n R (rb_threadId (qr_input q)) (qr_id q))
         (ret run)))))"
| "completeThreadRun 0 R threadId i = throw call_stack_exceeded"
| "completeThreadRun (Suc n) R threadId i =
     thenE (modify (release threadId i))
     (thenE (startNextPersistentRuns n R)
     (case threadId of Some t \<Rightarrow> startNextQueuedThreadRun n R t | None \<Rightarrow> ret ()))"
| "startNextPersistentRuns 0 R = throw call_stack_exceeded"
| "startNextPersistentRuns (Suc n) R = (\<lambda>s.
     (case next_persistent R s of
        None \<Rightarrow> (Inr (), s)
      | Some (q, s') \<Rightarrow>
          bindE (startExistingRun n R q) (\<lambda>_. startNextPersistentRuns n R) s'))"
| "startNextQueuedThreadRun 0 R t = throw call_stack_exceeded"
| "startNextQueuedThreadRun (Suc n) R t = (\<lambda>s.
     (case next_of_thread t s of
        None \<Rightarrow> (Inr (), s)
      | Some (q, s') \<Rightarrow> bindE (startExistingRun n R q) (\<lambda>_. ret ()) s'))"

text \<open>What the queues can need: every nested launch takes a queued run.\<close>

definition queued_count :: "('fs, 'x) run_state_scheme \<Rightarrow> nat" where
  "queued_count s =
     length (rm_persistentQueue s) + sum_list (map (\<lambda>p. length (snd p)) (rm_threadQueues s))"

definition stack_for :: "('fs, 'x) run_state_scheme \<Rightarrow> nat" where
  "stack_for s = 3 * queued_count s + 4"

definition with_stack :: "(nat \<Rightarrow> ('fs, 'x, 'a) rio) \<Rightarrow> ('fs, 'x, 'a) rio" where
  "with_stack m = (\<lambda>s. m (stack_for s) s)"

section \<open>Canceling\<close>

definition isCanceling :: "run_id \<Rightarrow> db \<Rightarrow> bool" where
  "isCanceling i d = (map_option rn_internalStatus (getRunRow i d) = Some ICanceling)"

definition update_active :: "run_id \<Rightarrow> (active_run \<Rightarrow> active_run) \<Rightarrow> ('fs, 'x, unit) rio" where
  "update_active i f =
     modify (\<lambda>s. s\<lparr>rm_active := map (\<lambda>(j, a). (j, if j = i then f a else a)) (rm_active s)\<rparr>)"

text \<open>\<^verbatim>\<open>++seq\<close> of run \<open>i\<close>\<close>

definition bump_seq :: "run_id \<Rightarrow> ('fs, 'x, nat) rio" where
  "bump_seq i =
     bindE (gets (\<lambda>s. case map_of (rm_active s) i of None \<Rightarrow> 0 | Some a \<Rightarrow> ar_seq a)) (\<lambda>n.
     thenE (update_active i (\<lambda>a. a\<lparr>ar_seq := Suc n\<rparr>)) (ret (Suc n)))"

text \<open>\<^verbatim>\<open>active.cancel()\<close>\<close>

definition cancel_active :: "('fs, 'x) run_options \<Rightarrow> run_id \<Rightarrow> ('fs, 'x, unit) rio" where
  "cancel_active R i =
     thenE (update_active i (\<lambda>a. a\<lparr>ar_cancelRequested := True\<rparr>))
     (thenE (updateRunStatus i (run_status PRunning ICanceling))
     (thenE (whenE (op_appServer R) (op_cancelApprovals R i ''run_canceled''))
     (bindE (bump_seq i) (\<lambda>seq.
      thenE (publishStatus i seq ''canceling'' None None)
      (modify (\<lambda>s. s\<lparr>rm_cancelSignals := rm_cancelSignals s @ [i]\<rparr>))))))"

text \<open>
  \<^verbatim>\<open>removeQueuedRun\<close>: the queued run with its thread. A run of the executor's queue without
  a thread is removed, but not returned.
\<close>

definition remove_from_threads ::
  "run_id \<Rightarrow> (thread_id, queued_run list) assoc \<Rightarrow>
   (queued_run \<times> thread_id) option \<times> (thread_id, queued_run list) assoc" where
  "remove_from_threads i m =
     (case first_where (\<lambda>p. list_ex (\<lambda>q. qr_id q = i) (snd p)) m of
        None \<Rightarrow> (None, m)
      | Some (t, queue) \<Rightarrow>
          (case take_first (\<lambda>q. qr_id q = i) queue of
             None \<Rightarrow> (None, m)
           | Some (q, rest) \<Rightarrow>
               (Some (q, t), if rest = [] then map_del t m else map_put t rest m)))"

definition removeQueuedRun :: "run_id \<Rightarrow> ('fs, 'x, (queued_run \<times> thread_id) option) rio" where
  "removeQueuedRun i = (\<lambda>s.
     (case take_first (\<lambda>q. qr_id q = i) (rm_persistentQueue s) of
        Some (q, rest) \<Rightarrow>
          (Inr (map_option (\<lambda>t. (q, t)) (rb_threadId (qr_input q))), s\<lparr>rm_persistentQueue := rest\<rparr>)
      | None \<Rightarrow>
          (let (found, m) = remove_from_threads i (rm_threadQueues s) in
           (Inr found, s\<lparr>rm_threadQueues := m\<rparr>))))"

definition writeQueuedCancelDiagnostics :: "('fs, 'x) run_options \<Rightarrow> queued_run \<Rightarrow> ('fs, 'x, unit) rio" where
  "writeQueuedCancelDiagnostics R q = write_file R (qr_runDir q) ''diagnostics.json''"

text \<open>A run that is still queued\<close>

definition cancel_queued :: "('fs, 'x) run_options \<Rightarrow> queued_run \<Rightarrow> thread_id \<Rightarrow> ('fs, 'x, unit) rio" where
  "cancel_queued R q t =
     (let i = qr_id q in
      bindE date_now (\<lambda>endedAt.
      bindE (nextSeqForRun i) (\<lambda>seq.
      thenE (writeQueuedCancelDiagnostics R q)
      (thenE (updateRunStatus i ((run_status PCanceled ICanceledRun)
         \<lparr>us_terminationReason := Some TUserCanceled, us_endedAt := Some endedAt\<rparr>))
      (thenE (notifyRunTerminal R i)
      (thenE (setRunQueueState i QNone)
      (thenE (with_stack (\<lambda>n. startNextPersistentRuns n R))
      (swallow
        (thenE (publishStatus i seq ''canceling'' (Some t) None)
        (thenE (publishDone i (seq + 1) PCanceled TUserCanceled)
        (modify (\<lambda>s. s\<lparr>rm_canceling := rm_canceling s @ [(q, t)]\<rparr>))))))))))))"

definition cancelRun :: "('fs, 'x) run_options \<Rightarrow> run_id \<Rightarrow> ('fs, 'x, bool) rio" where
  "cancelRun R i =
     bindE (gets (\<lambda>s. map_of (rm_active s) i \<noteq> None)) (\<lambda>active.
     if active then thenE (cancel_active R i) (ret True)
     else
       bindE (removeQueuedRun i) (\<lambda>queued.
       case queued of
         None \<Rightarrow> ret False
       | Some (q, t) \<Rightarrow> thenE (cancel_queued R q t) (ret True)))"

text \<open>The log file of a canceled queued run is closed.\<close>

definition finish_queued_cancel :: "('fs, 'x) run_options \<Rightarrow> queued_run \<Rightarrow> thread_id \<Rightarrow> ('fs, 'x, unit) rio" where
  "finish_queued_cancel R q t =
     thenE (modify (\<lambda>s. s\<lparr>rm_canceling := removeAll (q, t) (rm_canceling s)\<rparr>))
     (thenE (writeQueuedCancelDiagnostics R q)
     (resolveRunCompletion ((created_run_of (qr_id q) (qr_input q) PCanceled)\<lparr>cn_threadId := Some t\<rparr>)))"

text \<open>The run in front of a steered or interrupting one is canceled, unless it already is.\<close>

definition interrupt_thread :: "('fs, 'x) run_options \<Rightarrow> thread_id \<Rightarrow> ('fs, 'x, unit) rio" where
  "interrupt_thread R t =
     bindE (gets (\<lambda>s. map_of (rm_runningThread s) t)) (\<lambda>running.
     case running of
       None \<Rightarrow> ret ()
     | Some i \<Rightarrow>
         bindE (read_db (isCanceling i)) (\<lambda>canceling.
         if canceling then ret () else bindE (cancelRun R i) (\<lambda>_. ret ())))"

text \<open>\<^verbatim>\<open>cancelAll\<close> looks at each queue of a thread when it comes to it.\<close>

definition cancel_each :: "('fs, 'x) run_options \<Rightarrow> run_id list \<Rightarrow> ('fs, 'x, unit) rio" where
  "cancel_each R is = forE is (\<lambda>i. bindE (cancelRun R i) (\<lambda>_. ret ()))"

definition cancelAll :: "('fs, 'x) run_options \<Rightarrow> ('fs, 'x, unit) rio" where
  "cancelAll R =
     bindE (gets (\<lambda>s. map fst (rm_threadQueues s))) (\<lambda>threads.
     thenE (forE threads (\<lambda>t.
       bindE (gets (\<lambda>s. case map_of (rm_threadQueues s) t of None \<Rightarrow> [] | Some q \<Rightarrow> map qr_id q))
         (cancel_each R)))
     (thenE (bindE (gets (\<lambda>s. map qr_id (rm_persistentQueue s))) (cancel_each R))
     (bindE (gets (\<lambda>s. map fst (rm_active s))) (cancel_each R))))"

text \<open>The part of \<^verbatim>\<open>close\<close> that runs at once\<close>

definition close_manager :: "('fs, 'x) run_options \<Rightarrow> ('fs, 'x, unit) rio" where
  "close_manager R =
     bindE (gets rm_closing) (\<lambda>closing.
     if closing then ret ()
     else thenE (modify (\<lambda>s. s\<lparr>rm_closing := True\<rparr>)) (cancelAll R))"

section \<open>Starting and steering\<close>

text \<open>
  The place of a new run: an interrupting run goes in front of the first regular one. Returns
  the queue and the position, counted from 1.
\<close>

definition enqueue :: "queued_run \<Rightarrow> queued_run list \<Rightarrow> queued_run list \<times> nat" where
  "enqueue q queue =
     (if submission_of (qr_input q) = InterruptAndEnqueue then
        (let ahead = takeWhile (\<lambda>r. submission_of (qr_input r) \<noteq> Enqueue) queue in
         (ahead @ q # drop (length ahead) queue, length ahead + 1))
      else (queue @ [q], length queue + 1))"

text \<open>\<^verbatim>\<open>runtimeTransport === 'app-server'\<close>, an executor, a request of a user, and a thread\<close>

definition uses_executor :: "('fs, 'x) run_options \<Rightarrow> resolved_run \<Rightarrow> runtime_thread option \<Rightarrow> bool" where
  "uses_executor R q thread \<longleftrightarrow>
     op_appServer R \<and> op_executor R \<noteq> None \<and> creator_of q = ByApi \<and> thread \<noteq> None"

definition queued_response :: "run_id \<Rightarrow> resolved_run \<Rightarrow> nat \<Rightarrow> created_run" where
  "queued_response i q position = (created_run_of i q PQueued)\<lparr>cn_queuePosition := Some position\<rparr>"

definition waits :: "run_id \<Rightarrow> ('fs, 'x, unit) rio" where
  "waits i =
     thenE (updateRunStatus i (run_status PQueued IQueued))
     (thenE (setRunQueueState i QQueued) (ret ()))"

definition start_with_executor ::
  "('fs, 'x) run_options \<Rightarrow> resolved_run \<Rightarrow> run_id \<Rightarrow> thread_id \<Rightarrow> string option \<Rightarrow> ('fs, 'x, created_run) rio" where
  "start_with_executor R q i t codex =
     bindE (gets rm_submissions) (\<lambda>submissions.
     let queued = \<lparr>qr_id = i, qr_input = q, qr_runDir = run_dir R i, qr_persistent = True,
                   qr_submissionSequence = Some (Suc submissions)\<rparr>;
         maximum = the (op_executor R) in
     thenE (modify (\<lambda>s. s\<lparr>rm_submissions := Suc submissions\<rparr>))
     (bindE (gets (\<lambda>s. (map_of (rm_runningThread s) t \<noteq> None,
                        maximum \<le> length (rm_runningPersistent s), \<not> op_canStart R t s)))
      (\<lambda>(threadBlocked, capacityBlocked, executorBlocked).
      if \<not> threadBlocked \<and> \<not> capacityBlocked \<and> \<not> executorBlocked
      then with_stack (\<lambda>n. startExistingRun n R queued)
      else
        thenE (waits i)
        (thenE (modify (\<lambda>s. s\<lparr>rm_resolvers := set_add i (rm_resolvers s)\<rparr>))
        (bindE (gets (\<lambda>s. enqueue queued (rm_persistentQueue s))) (\<lambda>(queue, position).
         thenE (modify (\<lambda>s. s\<lparr>rm_persistentQueue := queue\<rparr>))
         (thenE (whenE (submission_of q = InterruptAndEnqueue) (interrupt_thread R t))
         (bindE (nextSeqForRun i) (\<lambda>seq.
          thenE (publishStatus i seq ''queued'' (rb_threadId q) codex)
          (thenE (whenE (capacityBlocked \<and> \<not> threadBlocked)
             (publishDiagnostic i (seq + 1) ''RUN_CONCURRENCY_LIMIT'' (op_limitText R maximum)
               (Some (JObj [(''maxConcurrency'', JNum (of_nat maximum)),
                            (''queuePosition'', JNum (of_nat position))]))))
          (ret (queued_response i q position))))))))))))"

definition wait_for_thread ::
  "('fs, 'x) run_options \<Rightarrow> resolved_run \<Rightarrow> run_id \<Rightarrow> thread_id \<Rightarrow> string option \<Rightarrow> ('fs, 'x, created_run) rio" where
  "wait_for_thread R q i t codex =
     thenE (waits i)
     (bindE (nextSeqForRun i) (\<lambda>seq.
      thenE (publishStatus i seq ''queued'' (rb_threadId q) codex)
      (thenE (modify (\<lambda>s. s\<lparr>rm_resolvers := set_add i (rm_resolvers s)\<rparr>))
      (bindE (gets (\<lambda>s. enqueue \<lparr>qr_id = i, qr_input = q, qr_runDir = run_dir R i,
                                 qr_persistent = False, qr_submissionSequence = None\<rparr>
                (case map_of (rm_threadQueues s) t of None \<Rightarrow> [] | Some queue \<Rightarrow> queue))) (\<lambda>(queue, position).
       thenE (modify (\<lambda>s. s\<lparr>rm_threadQueues := map_put t queue (rm_threadQueues s)\<rparr>))
       (thenE (whenE (submission_of q = InterruptAndEnqueue) (interrupt_thread R t))
       (ret (queued_response i q position))))))))"

text \<open>The thread of the run, if it is busy\<close>

definition busy_thread :: "resolved_run \<Rightarrow> ('fs, 'x) run_state_scheme \<Rightarrow> thread_id option" where
  "busy_thread q s =
     (case rb_threadId q of
        None \<Rightarrow> None
      | Some t \<Rightarrow> if map_of (rm_runningThread s) t = None then None else Some t)"

definition start_without_executor ::
  "('fs, 'x) run_options \<Rightarrow> resolved_run \<Rightarrow> run_id \<Rightarrow> string option \<Rightarrow> ('fs, 'x, created_run) rio" where
  "start_without_executor R q i codex =
     bindE (gets (busy_thread q)) (\<lambda>busy.
     case busy of
       Some t \<Rightarrow> wait_for_thread R q i t codex
     | None \<Rightarrow>
         with_stack (\<lambda>n. startExistingRun n R
           \<lparr>qr_id = i, qr_input = q, qr_runDir = run_dir R i, qr_persistent = False,
            qr_submissionSequence = None\<rparr>))"

definition publish_trigger :: "run_id \<Rightarrow> resolved_run \<Rightarrow> ('fs, 'x, unit) rio" where
  "publish_trigger i q =
     (case (rb_publicPrompt q, rb_triggeredAt q) of
        (Some prompt, Some triggeredAt) \<Rightarrow>
          whenE (rb_createdBy q = Some BySchedule) (publishScheduleTrigger i 1 prompt triggeredAt)
      | _ \<Rightarrow> ret ())"

definition startRun :: "('fs, 'x) run_options \<Rightarrow> create_run \<Rightarrow> ('fs, 'x, created_run) rio" where
  "startRun R input =
     bindE (gets rm_closing) (\<lambda>closing.
     thenE (guardE (\<not> closing) (PlainError ''Run manager is closing''))
     (bindE (resolveCreateRunInput R input) (\<lambda>q.
      bindE (read_db (thread_of R (rb_threadId q))) (\<lambda>thread.
      bindE (insertInitialRun R q (resolveResumeMode q thread) (codex_of thread)) (\<lambda>i.
      thenE (publish_trigger i q)
      (case rb_threadId q of
         Some t \<Rightarrow>
           if uses_executor R q thread then start_with_executor R q i t (codex_of thread)
           else start_without_executor R q i (codex_of thread)
       | None \<Rightarrow> start_without_executor R q i (codex_of thread)))))))"

text \<open>A run is moved to the front of the executor's queue, or of the queue of its thread.\<close>

definition steer_persistent :: "('fs, 'x) run_options \<Rightarrow> queued_run \<Rightarrow> queued_run list \<Rightarrow> ('fs, 'x, bool) rio" where
  "steer_persistent R q rest =
     thenE (modify (\<lambda>s. s\<lparr>rm_persistentQueue := q # rest\<rparr>))
     (thenE (case rb_threadId (qr_input q) of Some t \<Rightarrow> interrupt_thread R t | None \<Rightarrow> ret ())
     (thenE (with_stack (\<lambda>n. startNextPersistentRuns n R)) (ret True)))"

definition steer_thread ::
  "('fs, 'x) run_options \<Rightarrow> run_id \<Rightarrow> thread_id \<Rightarrow> queued_run list \<Rightarrow> ('fs, 'x, bool) rio" where
  "steer_thread R i t queue =
     (case take_first (\<lambda>q. qr_id q = i) queue of
        None \<Rightarrow> ret False
      | Some (q, rest) \<Rightarrow>
          thenE (modify (\<lambda>s. s\<lparr>rm_threadQueues := map_put t (q # rest) (rm_threadQueues s)\<rparr>))
          (thenE (interrupt_thread R t) (ret True)))"

definition queue_with :: "run_id \<Rightarrow> ('fs, 'x) run_state_scheme \<Rightarrow> (thread_id \<times> queued_run list) option" where
  "queue_with i s = first_where (\<lambda>p. list_ex (\<lambda>q. qr_id q = i) (snd p)) (rm_threadQueues s)"

definition steerRun :: "('fs, 'x) run_options \<Rightarrow> run_id \<Rightarrow> ('fs, 'x, bool) rio" where
  "steerRun R i =
     bindE (gets (\<lambda>s. take_first (\<lambda>q. qr_id q = i) (rm_persistentQueue s))) (\<lambda>found.
     case found of
       Some (q, rest) \<Rightarrow> steer_persistent R q rest
     | None \<Rightarrow>
         bindE (gets (queue_with i)) (\<lambda>place.
         case place of None \<Rightarrow> ret False | Some (t, queue) \<Rightarrow> steer_thread R i t queue))"

section \<open>What a process reports\<close>

text \<open>\<^verbatim>\<open>bindStartedCodexThread\<close>\<close>

definition bindStartedCodexThread :: "('fs, 'x) run_options \<Rightarrow> run_id \<Rightarrow> active_run \<Rightarrow> string \<Rightarrow> ('fs, 'x, unit) rio" where
  "bindStartedCodexThread R i a c =
     thenE (setRunCodexThreadId i c)
     (case (rb_threadId (ar_input a), op_threads R) of
        (Some t, Some T) \<Rightarrow>
          catchE (ta_setCodexThreadId T t c) (\<lambda>e.
            thenE (whenE (err_code e = Some ''THREAD_CODEX_ID_CONFLICT'')
              (bindE (bump_seq i) (\<lambda>seq. publishDiagnostic i seq ''THREAD_CODEX_ID_CONFLICT''
                 ''Codex thread id is already bound to another thread''
                 (Some (JObj [(''threadId'', JStr t), (''codexThreadId'', JStr c)])))))
            (throw e))
      | _ \<Rightarrow> ret ())"

fun rotation_text :: "rotation_reason \<Rightarrow> string" where
  "rotation_text ResumeFailed = ''resume_failed''"
| "rotation_text RunThreshold = ''run_threshold''"

definition announceRotation :: "('fs, 'x) run_options \<Rightarrow> run_id \<Rightarrow> active_run \<Rightarrow> string \<Rightarrow> ('fs, 'x, unit) rio" where
  "announceRotation R i a c =
     (case ar_rotation a of
        None \<Rightarrow> ret ()
      | Some r \<Rightarrow>
          if ro_announced r then ret ()
          else
            thenE (update_active i (\<lambda>a. a\<lparr>ar_rotation := Some (r\<lparr>ro_next := Some c, ro_announced := True\<rparr>)\<rparr>))
            (bindE (bump_seq i) (\<lambda>seq.
             publishDiagnostic i seq ''THREAD_CODEX_SESSION_ROTATED'' (op_rotatedText R)
               (Some (JObj [(''reason'', JStr (rotation_text (ro_reason r))),
                            (''previousCodexThreadId'', JStr (ro_previous r)),
                            (''nextCodexThreadId'', JStr c)])))))"

text \<open>
  The first event of a process names its Codex thread: \<^verbatim>\<open>onThreadStarted\<close> of an app server, the
  \<^verbatim>\<open>thread.started\<close> line of \<^verbatim>\<open>codex exec\<close>.
\<close>

definition thread_started :: "('fs, 'x) run_options \<Rightarrow> run_id \<Rightarrow> active_run \<Rightarrow> string \<Rightarrow> ('fs, 'x, unit) rio" where
  "thread_started R i a c =
     (if op_appServer R then
        thenE (update_active i (\<lambda>a. a\<lparr>ar_established := True, ar_sawCodexThreadId := True,
                                     ar_codexThreadId := Some c\<rparr>))
        (thenE (bindStartedCodexThread R i a c)
        (bindE (bump_seq i) (\<lambda>seq.
         thenE (publishStatus i seq ''initializing'' (rb_threadId (ar_input a)) (Some c))
         (announceRotation R i a c))))
      else
        bindE (bump_seq i) (\<lambda>seq.
        thenE (update_active i (\<lambda>a. a\<lparr>ar_sawCodexThreadId := True, ar_codexThreadId := Some c\<rparr>))
        (thenE (bindStartedCodexThread R i a c)
        (thenE (publishStatus i seq ''initializing'' (rb_threadId (ar_input a)) (Some c))
        (announceRotation R i a c)))))"

text \<open>
  Any other line of \<^verbatim>\<open>codex exec\<close>: one that is no JSON (\<open>Inl\<close> the error), or an event with the
  type and payload the normalizer gives it; \<open>turnCompleted\<close> when it is \<^verbatim>\<open>turn.completed\<close>.
\<close>

definition stdout_line ::
  "run_id \<Rightarrow> string \<Rightarrow> bool \<Rightarrow> string + string \<times> json \<Rightarrow> ('fs, 'x, unit) rio" where
  "stdout_line i redactedLine turnCompleted parsed =
     thenE (update_active i (\<lambda>a. a\<lparr>ar_stdoutLines := ar_stdoutLines a @ [redactedLine]\<rparr>))
     (bindE (bump_seq i) (\<lambda>seq.
      case parsed of
        Inl e \<Rightarrow> publishDiagnostic i seq ''CODEX_STREAM_ERROR'' e (Some (JObj [(''line'', JStr redactedLine)]))
      | Inr (kind, payload) \<Rightarrow>
          thenE (whenE turnCompleted (update_active i (\<lambda>a. a\<lparr>ar_sawTurnCompleted := True\<rparr>)))
          (publish_now i seq kind payload)))"

text \<open>A notification of the app server\<close>

definition notification ::
  "run_id \<Rightarrow> string \<Rightarrow> bool \<Rightarrow> bool \<Rightarrow> string \<Rightarrow> json \<Rightarrow> ('fs, 'x, unit) rio" where
  "notification i redactedLine turnStarted turnCompleted kind payload =
     thenE (update_active i (\<lambda>a. a\<lparr>ar_stdoutLines := ar_stdoutLines a @ [redactedLine],
       ar_turnStarted := (ar_turnStarted a \<or> turnStarted),
       ar_sawTurnCompleted := (ar_sawTurnCompleted a \<or> turnCompleted)\<rparr>))
     (bindE (bump_seq i) (\<lambda>seq. publish_now i seq kind payload))"

definition stderr_chunk :: "run_id \<Rightarrow> string \<Rightarrow> ('fs, 'x, unit) rio" where
  "stderr_chunk i redactedChunk = update_active i (\<lambda>a. a\<lparr>ar_stderr := ar_stderr a @ redactedChunk\<rparr>)"

text \<open>\<^verbatim>\<open>rotateExecAfterResumeFailure\<close>, \<^verbatim>\<open>rotateAppServerAfterResumeFailure\<close>\<close>

definition rotate_run :: "('fs, 'x) run_options \<Rightarrow> run_id \<Rightarrow> active_run \<Rightarrow> ('fs, 'x, unit) rio" where
  "rotate_run R i a =
     thenE (update_active i (\<lambda>a. a\<lparr>ar_rotation := Some \<lparr>ro_reason = ResumeFailed,
         ro_previous = (case codex_of (ar_thread a) of Some c \<Rightarrow> c | None \<Rightarrow> []), ro_next = None,
         ro_announced = False\<rparr>,
       ar_resumeMode := NewThread, ar_codexThreadId := None\<rparr>))
     (bindE (prepareRotationRunInput R i (ar_input a) (Some (ar_seq a))) (\<lambda>(input, seq).
      thenE (update_active i (\<lambda>b. b\<lparr>ar_input := input,
         ar_seq := (case seq of Some n \<Rightarrow> n | None \<Rightarrow> ar_seq b), ar_stdoutLines := [], ar_stderr := [],
         ar_sawTurnCompleted := False, ar_sawCodexThreadId := False, ar_established := False,
         ar_turnStarted := False\<rparr>))
      (thenE (setRunResumeMode i NewThread)
      (write_file R (ar_runDir a) ''meta.json''))))"

text \<open>
  The end of the handlers and the first half of \<^verbatim>\<open>finalizeRun\<close>: up to where it waits for the log
  file to close. \<open>logFailures\<close> is the number of failed log writes so far.
\<close>

definition publish_seq :: "run_id \<Rightarrow> (nat \<Rightarrow> ('fs, 'x, unit) rio) \<Rightarrow> ('fs, 'x, unit) rio" where
  "publish_seq i m = bindE (bump_seq i) m"

definition begin_finish :: "run_id \<Rightarrow> run_finish \<Rightarrow> nat \<Rightarrow> ('fs, 'x, unit) rio" where
  "begin_finish i f logFailures =
     thenE (forE (fi_notices f) (\<lambda>n. publish_seq i (\<lambda>seq. publish_notice i seq n)))
     (thenE (whenE (logFailures > 0) (publish_seq i (\<lambda>seq.
        publishDiagnostic i seq ''RUN_LOG_WRITE_FAILED'' ''One or more run log writes failed''
          (Some (JObj [(''failureCount'', JNum (of_nat logFailures))])))))
     (bindE (read_db (hasDoneEvent i)) (\<lambda>done.
      thenE (whenE (\<not> done) (publish_seq i (\<lambda>seq. publishDone i seq (fi_status f) (fi_reason f))))
      (update_active i (\<lambda>a. a\<lparr>ar_finishing := Some f\<rparr>)))))"

definition is_app_failure :: "report \<Rightarrow> bool" where
  "is_app_failure p = (case p of AppFailure _ \<Rightarrow> True | _ \<Rightarrow> False)"

definition process_report ::
  "('fs, 'x) run_options \<Rightarrow> run_id \<Rightarrow> active_run \<Rightarrow> report \<Rightarrow> nat \<Rightarrow> ('fs, 'x, unit) rio" where
  "process_report R i a p logFailures =
     (case verdict_of a p of
        Rotate \<Rightarrow> rotate_run R i a
      | Finish f \<Rightarrow>
          thenE (whenE (is_app_failure p) (op_cancelApprovals R i ''run_failed''))
          (begin_finish i f logFailures))"

fun internal_of :: "public_status \<Rightarrow> internal_status" where
  "internal_of PQueued = IQueued"
| "internal_of PRunning = IRunning"
| "internal_of PSucceeded = ISucceeded"
| "internal_of PFailed = IFailed"
| "internal_of PCanceled = ICanceledRun"

text \<open>The second half of \<^verbatim>\<open>finalizeRun\<close>, and the promise \<^verbatim>\<open>done\<close>\<close>

definition finish_run :: "('fs, 'x) run_options \<Rightarrow> run_id \<Rightarrow> active_run \<Rightarrow> run_finish \<Rightarrow> ('fs, 'x, unit) rio" where
  "finish_run R i a f =
     thenE (write_file R (ar_runDir a) ''diagnostics.json'')
     (bindE date_now (\<lambda>endedAt.
      thenE (updateRunStatus i ((run_status (fi_status f) (internal_of (fi_status f)))
        \<lparr>us_terminationReason := Some (fi_reason f), us_exitCode := fi_exitCode f,
         us_signal := fi_signal f, us_errorCode := fi_errorCode f,
         us_errorMessage := fi_errorMessage f, us_endedAt := Some endedAt\<rparr>))
      (thenE (notifyRunTerminal R i)
      (thenE (modify (\<lambda>s. s\<lparr>rm_active := map_del i (rm_active s)\<rparr>))
      (thenE (whenE (rb_threadId (ar_input a) \<noteq> None) (setRunQueueState i QNone))
      (thenE (with_stack (\<lambda>n. completeThreadRun n R (rb_threadId (ar_input a)) i))
      (resolveRunCompletion (created_run_of i (ar_input a) (fi_status f)))))))))"

section \<open>Queries\<close>

record runtime_run =
  ru_id :: run_id
  ru_threadId :: "thread_id option"
  ru_codexThreadId :: "string option"
  ru_status :: public_status
  ru_submissionMode :: submission_mode
  ru_queuePosition :: "nat option"
  ru_cwd :: string
  ru_profile :: string
  ru_sandbox :: sandbox_mode
  ru_createdBy :: run_creator
  ru_sourceId :: "string option"
  ru_publicPrompt :: "string option"
  ru_triggeredAt :: "ms option"
  ru_timeoutMs :: "int option"
  ru_createdAt :: ms
  ru_updatedAt :: ms
  ru_terminationReason :: "termination_reason option"
  ru_exitCode :: "int option"
  ru_signal :: "string option"
  ru_errorCode :: "string option"
  ru_errorMessage :: "string option"

definition mapRunRow :: "run_row \<Rightarrow> runtime_run" where
  "mapRunRow r =
     \<lparr>ru_id = rn_id r, ru_threadId = rn_threadId r, ru_codexThreadId = rn_codexThreadId r,
      ru_status = rn_publicStatus r, ru_submissionMode = rn_submissionMode r, ru_queuePosition = None,
      ru_cwd = rn_cwd r, ru_profile = rn_profile r, ru_sandbox = rn_sandbox r,
      ru_createdBy = rn_createdBy r, ru_sourceId = rn_sourceId r, ru_publicPrompt = rn_publicPrompt r,
      ru_triggeredAt = rn_triggeredAt r, ru_timeoutMs = rn_timeoutMs r, ru_createdAt = rn_createdAt r,
      ru_updatedAt = rn_updatedAt r, ru_terminationReason = rn_terminationReason r,
      ru_exitCode = rn_exitCode r, ru_signal = rn_signal r, ru_errorCode = rn_errorCode r,
      ru_errorMessage = rn_errorMessage r\<rparr>"

text \<open>The index of a run in a queue, \<^verbatim>\<open>findIndex\<close>\<close>

fun queue_index :: "run_id \<Rightarrow> queued_run list \<Rightarrow> nat option" where
  "queue_index i [] = None"
| "queue_index i (q # qs) = (if qr_id q = i then Some 0 else map_option Suc (queue_index i qs))"

definition decorateQueuePosition :: "('fs, 'x) run_state_scheme \<Rightarrow> runtime_run \<Rightarrow> runtime_run" where
  "decorateQueuePosition s r =
     (case ru_threadId r of
        None \<Rightarrow> r
      | Some t \<Rightarrow>
          if ru_status r \<noteq> PQueued then r
          else (case queue_index (ru_id r) (rm_persistentQueue s) of
                  Some n \<Rightarrow> r\<lparr>ru_queuePosition := Some (n + 1)\<rparr>
                | None \<Rightarrow>
                    (case queue_index (ru_id r)
                            (case map_of (rm_threadQueues s) t of None \<Rightarrow> [] | Some queue \<Rightarrow> queue) of
                       Some n \<Rightarrow> r\<lparr>ru_queuePosition := Some (n + 1)\<rparr>
                     | None \<Rightarrow> r)))"

definition getRun :: "run_id \<Rightarrow> ('fs, 'x) run_state_scheme \<Rightarrow> runtime_run option" where
  "getRun i s = map_option (\<lambda>r. decorateQueuePosition s (mapRunRow r)) (getRunRow i (rt_db s))"

definition active_status :: "run_row \<Rightarrow> bool" where
  "active_status r \<longleftrightarrow>
     rn_publicStatus r \<in> {PQueued, PRunning} \<or> rn_internalStatus r \<in> {IQueued, IRunning, ICanceling}"

definition hasActiveRunForThread :: "thread_id \<Rightarrow> ('fs, 'x) run_state_scheme \<Rightarrow> bool" where
  "hasActiveRunForThread t s \<longleftrightarrow>
     map_of (rm_runningThread s) t \<noteq> None \<or>
     (case map_of (rm_threadQueues s) t of None \<Rightarrow> False | Some queue \<Rightarrow> length queue > 0) \<or>
     list_ex active_status (listRunRowsByThread t 10000 (rt_db s))"

definition hasActiveRunForProject :: "string \<Rightarrow> db \<Rightarrow> bool" where
  "hasActiveRunForProject p d =
     list_ex (\<lambda>r. active_status r \<and>
       list_ex (\<lambda>t. rn_threadId r = Some (th_id t) \<and> th_projectId t = Some p) (db_threads d)) (db_runs d)"

definition listRuns :: "nat \<Rightarrow> ('fs, 'x) run_state_scheme \<Rightarrow> runtime_run list" where
  "listRuns limit s = map (\<lambda>r. decorateQueuePosition s (mapRunRow r)) (listRunRows limit (rt_db s))"

text \<open>\<^verbatim>\<open>ORDER BY created_at DESC, rowid DESC\<close>\<close>

definition listRunsByThread :: "thread_id \<Rightarrow> nat \<Rightarrow> ('fs, 'x) run_state_scheme \<Rightarrow> runtime_run list" where
  "listRunsByThread t limit s =
     map (\<lambda>r. decorateQueuePosition s (mapRunRow r))
       (take limit (order_desc rn_createdAt (filter (\<lambda>r. rn_threadId r = Some t) (db_runs (rt_db s)))))"

section \<open>The start of the daemon\<close>

text \<open>
  \<^verbatim>\<open>recoverOrphanedRuns\<close>: a run that the daemon left behind is failed, and its event log gets the
  error and the end it lacks.
\<close>

definition orphan_code :: "run_row \<Rightarrow> string" where
  "orphan_code r = (if rn_threadId r = None then ''DAEMON_RESTART'' else ''THREAD_RUN_ORPHANED'')"

definition orphan_message :: "run_row \<Rightarrow> string" where
  "orphan_message r =
     (if rn_threadId r = None then ''Run was still active when daemon restarted''
      else ''Thread run was still active when daemon restarted'')"

definition has_type :: "string \<Rightarrow> event_row list \<Rightarrow> bool" where
  "has_type k es = list_ex (\<lambda>e. ev_type e = k) es"

definition recoverOrphanedRun :: "('fs, 'x) run_options \<Rightarrow> run_row \<Rightarrow> ('fs, 'x, unit) rio" where
  "recoverOrphanedRun R r =
     (let i = rn_id r in
      thenE (write_fs (env_mkdirSync (op_env R) True (run_dir R i)))
      (bindE (read_db (listRunEvents i 0)) (\<lambda>existing.
       let nextSeq = (if existing = [] then 0 else ev_seq (last existing)) + 1 in
       bindE date_now (\<lambda>endedAt.
       thenE (updateRunStatus i ((run_status PFailed IOrphaned)
         \<lparr>us_terminationReason := Some TDaemonRestart, us_errorCode := Some (orphan_code r),
          us_errorMessage := Some (orphan_message r), us_endedAt := Some endedAt\<rparr>))
       (thenE (notifyRunTerminal R i)
       (thenE (write_file R (run_dir R i) ''diagnostics.json'')
       (thenE (whenE (\<not> has_type ''error'' existing)
                (publishError i nextSeq (orphan_code r) (orphan_message r)))
       (whenE (\<not> has_type ''done'' existing)
         (publishDone i (if has_type ''error'' existing then nextSeq else nextSeq + 1) PFailed TDaemonRestart)))))))))"

definition recoverOrphanedRuns :: "('fs, 'x) run_options \<Rightarrow> ('fs, 'x, unit) rio" where
  "recoverOrphanedRuns R = bindE (read_db listNonTerminalRuns) (\<lambda>rs. forE rs (recoverOrphanedRun R))"

text \<open>The manager starts with empty maps and queues.\<close>

definition fresh_manager :: "('fs, 'x) run_state_scheme \<Rightarrow> bool" where
  "fresh_manager s \<longleftrightarrow>
     rm_active s = [] \<and> rm_resolvers s = [] \<and> rm_resolved s = [] \<and> rm_threadQueues s = [] \<and>
     rm_persistentQueue s = [] \<and> rm_runningThread s = [] \<and> rm_runningPersistent s = [] \<and>
     rm_submissions s = 0 \<and> \<not> rm_closing s \<and> rm_cancelSignals s = [] \<and> rm_published s = [] \<and>
     rm_canceling s = []"

definition createRunManager :: "('fs, 'x) run_options \<Rightarrow> ('fs, 'x, unit) rio" where
  "createRunManager R =
     thenE (case op_threads R of
              None \<Rightarrow> ret ()
            | Some T \<Rightarrow> (case ta_repairCodexThreadBindings T of
                          None \<Rightarrow> ret () | Some repair \<Rightarrow> bindE repair (\<lambda>_. ret ())))
     (recoverOrphanedRuns R)"

end
