(* ===== verification/RunCallbacks.thy ===== *)
theory RunCallbacks
  imports RunManager
begin

text \<open>
  What the run manager asks of the functions it is given, and the parts of the manager that keep
  to the same rule.

  Most of what the manager does leaves its maps and queues alone; that is \<open>quiet\<close>, and the rules
  in \<open>quiet_rules\<close> find it. The locales \<open>quiet_threads\<close> and \<open>run_callbacks\<close> state it of the thread
  manager's functions and of the callbacks.
\<close>

section \<open>Computations that leave the queues alone\<close>

text \<open>Of an active run only its thread and whether the executor runs it matter here.\<close>

definition active_view :: "('fs, 'x) run_state_scheme \<Rightarrow> (run_id \<times> thread_id option \<times> bool) list" where
  "active_view s = map (\<lambda>(i, a). (i, rb_threadId (ar_input a), ar_persistent a)) (rm_active s)"

definition same_memory :: "('fs, 'x) run_state_scheme \<Rightarrow> ('fs, 'x) run_state_scheme \<Rightarrow> bool" where
  "same_memory s s' \<longleftrightarrow>
     active_view s' = active_view s \<and> rm_threadQueues s' = rm_threadQueues s \<and>
     rm_persistentQueue s' = rm_persistentQueue s \<and> rm_runningThread s' = rm_runningThread s \<and>
     rm_runningPersistent s' = rm_runningPersistent s \<and> rm_closing s' = rm_closing s \<and>
     rt_ids s' = rt_ids s \<and> rt_nextId s \<le> rt_nextId s'"

lemma same_memory_refl [simp]: "same_memory s s"
  by (simp add: same_memory_def)

lemma same_memory_trans: "same_memory s s' \<Longrightarrow> same_memory s' s'' \<Longrightarrow> same_memory s s''"
  by (auto simp: same_memory_def)

definition quiet :: "('fs, 'x, 'a) rio \<Rightarrow> bool" where
  "quiet m \<longleftrightarrow> (\<forall>s. same_memory s (snd (m s)))"

named_theorems quiet_rules

lemma quietD: "quiet m \<Longrightarrow> m s = (r, s') \<Longrightarrow> same_memory s s'"
  by (metis quiet_def snd_conv)

lemma quiet_ret [quiet_rules]: "quiet (ret a)" and quiet_throw [quiet_rules]: "quiet (throw e)"
  and quiet_gets [quiet_rules]: "quiet (gets f)" and quiet_liftE [quiet_rules]: "quiet (liftE r)"
  and quiet_someE [quiet_rules]: "quiet (someE e x)" and quiet_guardE [quiet_rules]: "quiet (guardE b e)"
  by (simp_all add: quiet_def run_simps split: option.splits)

lemma quiet_bindE [quiet_rules]: "quiet m \<Longrightarrow> (\<And>a. quiet (f a)) \<Longrightarrow> quiet (bindE m f)"
  unfolding quiet_def
proof
  fix s assume m: "\<forall>s. same_memory s (snd (m s))" and f: "\<And>a. \<forall>s. same_memory s (snd (f a s))"
  show "same_memory s (snd (bindE m f s))"
  proof (cases "m s")
    case (Pair r s')
    with m have s': "same_memory s s'" by (metis snd_conv)
    have "same_memory s (snd (f a s'))" for a by (rule same_memory_trans [OF s']) (use f in blast)
    with s' show ?thesis by (cases r) (simp_all add: bindE_def Pair)
  qed
qed

lemma quiet_thenE [quiet_rules]: "quiet m \<Longrightarrow> quiet n \<Longrightarrow> quiet (thenE m n)"
  by (simp add: thenE_def quiet_bindE)

lemma quiet_whenE [quiet_rules]: "(b \<Longrightarrow> quiet m) \<Longrightarrow> quiet (whenE b m)"
  by (simp add: whenE_def quiet_ret)

lemma quiet_if [quiet_rules]: "(b \<Longrightarrow> quiet m) \<Longrightarrow> (\<not> b \<Longrightarrow> quiet n) \<Longrightarrow> quiet (if b then m else n)"
  by simp

lemma quiet_catchE [quiet_rules]: "quiet m \<Longrightarrow> (\<And>e. quiet (h e)) \<Longrightarrow> quiet (catchE m h)"
  unfolding quiet_def
proof
  fix s assume m: "\<forall>s. same_memory s (snd (m s))" and h: "\<And>e. \<forall>s. same_memory s (snd (h e s))"
  show "same_memory s (snd (catchE m h s))"
  proof (cases "m s")
    case (Pair r s')
    with m have s': "same_memory s s'" by (metis snd_conv)
    have "same_memory s (snd (h e s'))" for e by (rule same_memory_trans [OF s']) (use h in blast)
    with s' show ?thesis by (cases r) (simp_all add: catchE_def Pair)
  qed
qed

lemma quiet_forE [quiet_rules]: "(\<And>x. x \<in> set xs \<Longrightarrow> quiet (f x)) \<Longrightarrow> quiet (forE xs f)"
  by (induction xs) (auto intro: quiet_rules)

lemma quiet_option [quiet_rules]:
  "(x = None \<Longrightarrow> quiet m) \<Longrightarrow> (\<And>a. x = Some a \<Longrightarrow> quiet (f a)) \<Longrightarrow>
   quiet (case x of None \<Rightarrow> m | Some a \<Rightarrow> f a)"
  by (cases x) auto

lemma quiet_modify: "(\<And>s. same_memory s (f s)) \<Longrightarrow> quiet (modify f)"
  by (simp add: quiet_def modify_def)

lemma quiet_io [quiet_rules]:
  fixes f :: "db \<Rightarrow> db" and g :: "'fs \<Rightarrow> err + 'fs" and h :: "'fs \<Rightarrow> err + 'a"
  shows "quiet (write_db f :: ('fs, 'x, unit) rio)" and "quiet (read_db q :: ('fs, 'x, 'b) rio)"
    and "quiet (write_fs g :: ('fs, 'x, unit) rio)" and "quiet (read_fs h :: ('fs, 'x, 'a) rio)"
    and "quiet (date_now :: ('fs, 'x, ms) rio)" and "quiet (sql_now :: ('fs, 'x, ms) rio)"
    and "quiet (nanoid :: ('fs, 'x, string) rio)"
proof -
  show "quiet (write_db f :: ('fs, 'x, unit) rio)"
    by (simp add: quiet_def same_memory_def active_view_def write_db_def split: option.splits)
  show "quiet (read_db q :: ('fs, 'x, 'b) rio)" unfolding read_db_def by (intro quiet_rules)
  show "quiet (write_fs g :: ('fs, 'x, unit) rio)"
    by (simp add: quiet_def same_memory_def active_view_def write_fs_def split: sum.splits)
  show "quiet (read_fs h :: ('fs, 'x, 'a) rio)" by (simp add: quiet_def read_fs_def)
  show d: "quiet (date_now :: ('fs, 'x, ms) rio)"
    by (simp add: quiet_def same_memory_def active_view_def date_now_def)
  show "quiet (sql_now :: ('fs, 'x, ms) rio)" unfolding sql_now_def by (intro quiet_rules d)
  show "quiet (nanoid :: ('fs, 'x, string) rio)"
    by (simp add: quiet_def same_memory_def active_view_def nanoid_def)
qed

lemma quiet_db_transaction [quiet_rules]: "quiet m \<Longrightarrow> quiet (db_transaction m)"
  unfolding quiet_def
proof
  fix s assume "\<forall>s. same_memory s (snd (m s))"
  then have m: "same_memory s (snd (m s))" by blast
  obtain r s' where "m s = (r, s')" by fastforce
  with m show "same_memory s (snd (db_transaction m s))"
    by (cases r) (simp_all add: db_transaction_def run_transactE same_memory_def active_view_def)
qed

text \<open>The statements of the repositories and the manager's own helpers\<close>

lemma quiet_statements [quiet_rules]:
  "quiet (insertRun row)" "quiet (updateRunStatus i u)" "quiet (setRunCodexThreadId i c)"
  "quiet (setRunResumeMode i mode)" "quiet (setRunQueueState i q)" "quiet (insertRunEvent e)"
  "quiet (write_file R dir name)"
  unfolding insertRun_def updateRunStatus_def setRunCodexThreadId_def setRunResumeMode_def
    setRunQueueState_def insertRunEvent_def write_file_def
  by (intro quiet_rules)+

lemma quiet_publish [quiet_rules]: "quiet (publish e)"
  unfolding publish_def
  by (intro quiet_rules quiet_modify) (simp add: same_memory_def active_view_def)

lemma quiet_publishers [quiet_rules]:
  "quiet (publish_now i n k p)" "quiet (publishStatus i n l t c)" "quiet (publishScheduleTrigger i n pt tm)"
  "quiet (publishDiagnostic i n code m d)" "quiet (publishError i n code m)" "quiet (publishDone i n st r)"
  "quiet (nextSeqForRun i)"
  unfolding publish_now_def publishStatus_def publishScheduleTrigger_def publishDiagnostic_def
    publishError_def publishDone_def nextSeqForRun_def
  by (intro quiet_rules)+

lemma quiet_publish_notice [quiet_rules]: "quiet (publish_notice i n x)"
  by (cases x) (auto simp: publish_notice_def intro: quiet_rules)

lemma quiet_swallow [quiet_rules]: "quiet m \<Longrightarrow> quiet (swallow m)"
  unfolding swallow_def by (intro quiet_rules)

lemma quiet_update_active [quiet_rules]:
  "(\<And>a. rb_threadId (ar_input (f a)) = rb_threadId (ar_input a) \<and> ar_persistent (f a) = ar_persistent a) \<Longrightarrow>
   quiet (update_active i f)"
  unfolding update_active_def
  by (rule quiet_modify) (auto simp: same_memory_def active_view_def split: prod.splits)

lemma quiet_bump_seq [quiet_rules]: "quiet (bump_seq i)"
  unfolding bump_seq_def by (intro quiet_rules) simp

lemma quiet_resolveRunCompletion [quiet_rules]: "quiet (resolveRunCompletion c)"
  unfolding resolveRunCompletion_def
  by (rule quiet_modify) (simp add: same_memory_def active_view_def)

lemma quiet_begin_finish [quiet_rules]: "quiet (begin_finish i f n)"
  unfolding begin_finish_def publish_seq_def by (intro quiet_rules) simp

lemma quiet_waits [quiet_rules]: "quiet (waits i)"
  unfolding waits_def by (intro quiet_rules)

section \<open>What the manager is given\<close>

text \<open>The manager may be given any functions that leave its queues alone.\<close>

locale quiet_threads =
  fixes T :: "('fs, 'x) thread_access"
  assumes quiet_assert: "ta_assertRunnableThread T = Some check \<Longrightarrow> quiet (check i)"
    and quiet_set: "quiet (ta_setCodexThreadId T i c)"
    and quiet_repair: "ta_repairCodexThreadBindings T = Some repair \<Longrightarrow> quiet repair"

locale run_callbacks =
  fixes R :: "('fs, 'x) run_options"
  assumes quiet_access: "op_threads R = Some T \<Longrightarrow> quiet_threads T"
    and quiet_prepare: "op_prepareRotation R = Some prepare \<Longrightarrow> quiet (prepare p t)"
    and quiet_context: "quiet (op_recordContext R i items)"
    and quiet_terminal: "quiet (op_onRunTerminal R i)"
    and quiet_approvals: "quiet (op_cancelApprovals R i reason)"

context run_callbacks begin

lemmas callback_rules = quiet_context quiet_terminal quiet_approvals

lemma quiet_notify: "quiet (notifyRunTerminal R i)"
  unfolding notifyRunTerminal_def by (intro quiet_rules callback_rules)

lemma quiet_prepareRotation: "quiet (prepareRotationRunInput R i q seq)"
  unfolding prepareRotationRunInput_def Let_def context_unavailable_def
  by (auto intro!: quiet_rules callback_rules quiet_prepare split: option.splits prod.splits)

lemma quiet_plan_launch: "quiet (plan_launch R q)"
  unfolding plan_launch_def Let_def
  by (auto intro!: quiet_rules quiet_prepareRotation split: prod.splits)

lemma quiet_failRunBeforeSpawn: "quiet (failRunBeforeSpawn R q code message)"
  unfolding failRunBeforeSpawn_def Let_def by (intro quiet_rules quiet_notify)

lemma quiet_runnable_thread:
  assumes "op_threads R = Some T"
  shows "quiet (runnable_thread T i)"
proof -
  have q: "quiet (check i)" if "ta_assertRunnableThread T = Some check" for check
    using quiet_threads.quiet_assert [OF quiet_access [OF assms] that] .
  show ?thesis
    unfolding runnable_thread_def
    by (cases "ta_assertRunnableThread T"; simp; intro quiet_rules; simp add: q)
qed

lemma quiet_normalized_input: "quiet (normalized_input q :: ('fs, 'x, create_run) rio)"
  unfolding normalized_input_def by (auto intro!: quiet_rules split: option.splits)

lemma quiet_resolveCreateRunInput: "quiet (resolveCreateRunInput R q)"
  unfolding resolveCreateRunInput_def
  by (auto intro!: quiet_rules quiet_normalized_input quiet_runnable_thread
      split: option.splits prod.splits)

lemma quiet_insertInitialRun: "quiet (insertInitialRun R q mode c)"
  unfolding insertInitialRun_def Let_def by (intro quiet_rules callback_rules)

lemma quiet_cancel_active: "quiet (cancel_active R i)"
  unfolding cancel_active_def
  by (intro quiet_rules callback_rules quiet_modify) (simp_all add: same_memory_def active_view_def)

lemma quiet_bindStarted: "quiet (bindStartedCodexThread R i a c)"
  unfolding bindStartedCodexThread_def
  by (auto intro!: quiet_rules quiet_threads.quiet_set [OF quiet_access] split: option.splits)

lemma quiet_announce: "quiet (announceRotation R i a c)"
  unfolding announceRotation_def by (auto intro!: quiet_rules split: option.splits)

lemma quiet_thread_started: "quiet (thread_started R i a c)"
  unfolding thread_started_def by (intro quiet_rules quiet_bindStarted quiet_announce) simp_all

lemma quiet_stdout_line: "quiet (stdout_line i l tc p)"
  unfolding stdout_line_def by (auto intro!: quiet_rules split: sum.splits)

lemma quiet_notification: "quiet (notification i l ts tc k p)"
  unfolding notification_def by (intro quiet_rules) simp

lemma quiet_stderr_chunk: "quiet (stderr_chunk i l)"
  unfolding stderr_chunk_def by (intro quiet_rules) simp

end

end
