(* ===== verification/RunInvariants.thy ===== *)
theory RunInvariants
  imports RunCallbacks "HOL-Library.Multiset"
begin

text \<open>
  The invariants of the run manager's memory.

  \<open>base\<close> holds always, whatever is raised on the way: no run is in two places, a thread has at most
  one active run, the executor runs at most \<^verbatim>\<open>maxConcurrency\<close>. \<open>fronted\<close> holds as long as
  nothing is raised: a claim of a thread or of a place of the executor belongs to an active run, and
  a run that waits for its thread has such a claim in front of it. Its parameters are the threads and
  the claims that are exempt in the middle of an operation.
\<close>

section \<open>Queues as multisets\<close>

definition queue_ids :: "queued_run list \<Rightarrow> run_id multiset" where
  "queue_ids qs = mset (map qr_id qs)"

definition queue_of :: "thread_id \<Rightarrow> (thread_id, queued_run list) assoc \<Rightarrow> queued_run list" where
  "queue_of t m = (case map_of m t of None \<Rightarrow> [] | Some qs \<Rightarrow> qs)"

definition thread_ids :: "(thread_id, queued_run list) assoc \<Rightarrow> run_id multiset" where
  "thread_ids m = sum_list (map (\<lambda>p. queue_ids (snd p)) m)"

lemma queue_ids_simps [simp]:
  "queue_ids [] = {#}" "queue_ids (q # qs) = add_mset (qr_id q) (queue_ids qs)"
  "queue_ids (qs @ rs) = queue_ids qs + queue_ids rs"
  by (simp_all add: queue_ids_def)

lemma thread_ids_Nil [simp]: "thread_ids [] = {#}"
  and thread_ids_Cons [simp]: "thread_ids (p # m) = queue_ids (snd p) + thread_ids m"
  by (simp_all add: thread_ids_def)

lemma queue_of_Some [simp]: "map_of m t = Some qs \<Longrightarrow> queue_of t m = qs"
  by (simp add: queue_of_def)

lemma thread_ids_put:
  "thread_ids (map_put t qs m) + queue_ids (queue_of t m) = thread_ids m + queue_ids qs"
  by (induction t qs m rule: map_put.induct) (auto simp: queue_of_def)

lemma map_del_Cons: "map_del k (p # m) = (if fst p = k then map_del k m else p # map_del k m)"
  by (simp add: map_del_def)

lemma thread_ids_del:
  "keys_distinct m \<Longrightarrow> thread_ids (map_del t m) + queue_ids (queue_of t m) = thread_ids m"
proof (induction m)
  case (Cons p m)
  then have "map_of m (fst p) = None" "keys_distinct m"
    by (simp_all add: keys_distinct_def map_of_absent)
  with Cons.IH show ?case
    by (cases p; cases "fst p = t") (simp_all add: map_del_Cons queue_of_def map_of_absent)
qed (simp add: map_del_def queue_of_def)

lemma take_first_split:
  "take_first p xs = Some (x, ys) \<Longrightarrow> \<exists>as bs. xs = as @ x # bs \<and> ys = as @ bs \<and> p x"
proof (induction xs arbitrary: ys)
  case (Cons a xs)
  show ?case
  proof (cases "p a")
    case True
    with Cons.prems show ?thesis by (auto intro: exI [of _ "[]"])
  next
    case False
    with Cons.prems obtain zs where "take_first p xs = Some (x, zs)" "ys = a # zs" by auto
    with Cons.IH obtain as bs where "xs = as @ x # bs" "zs = as @ bs" "p x" by blast
    with \<open>ys = a # zs\<close> show ?thesis by (intro exI [of _ "a # as"] exI [of _ bs]) simp
  qed
qed simp

lemma take_first_ids:
  "take_first p xs = Some (x, ys) \<Longrightarrow>
   queue_ids xs = add_mset (qr_id x) (queue_ids ys) \<and> p x \<and> x \<in> set xs \<and> set ys \<subseteq> set xs \<and>
   length xs = Suc (length ys)"
  by (auto dest!: take_first_split)

lemma enqueue_ids: "enqueue q qs = (qs', n) \<Longrightarrow> queue_ids qs' = add_mset (qr_id q) (queue_ids qs)"
proof -
  have "queue_ids (takeWhile p qs) + queue_ids (drop (length (takeWhile p qs)) qs) = queue_ids qs" for p
    by (simp flip: queue_ids_simps(3) dropWhile_eq_drop)
  then show "enqueue q qs = (qs', n) \<Longrightarrow> ?thesis"
    by (auto simp: enqueue_def Let_def split: if_splits)
qed

lemma enqueue_set: "enqueue q qs = (qs', n) \<Longrightarrow> set qs' = insert q (set qs)"
proof -
  have "set (takeWhile p qs) \<union> set (drop (length (takeWhile p qs)) qs) = set qs" for p
    by (simp flip: set_append dropWhile_eq_drop)
  then show "enqueue q qs = (qs', n) \<Longrightarrow> ?thesis"
    by (auto simp: enqueue_def Let_def split: if_splits)
qed

lemma count_distinct:
  assumes "\<And>i. count (mset xs) i \<le> 1"
  shows "distinct xs"
proof -
  have "count (mset xs) j = 1" if "j \<in> set xs" for j
    using assms [of j] that by (metis count_mset_0_iff less_one linorder_neqE_nat linorder_not_le)
  then show ?thesis
    unfolding distinct_count_atmost_1 using count_mset_0_iff by metis
qed

section \<open>The invariants\<close>

definition live :: "('fs, 'x) run_state_scheme \<Rightarrow> run_id multiset" where
  "live s = mset (map fst (active_view s)) + queue_ids (rm_persistentQueue s) +
     thread_ids (rm_threadQueues s)"

definition used :: "('fs, 'x) run_state_scheme \<Rightarrow> run_id set" where
  "used s = {''run_'' @ rt_ids s n | n. n < rt_nextId s}"

definition places :: "('fs, 'x) run_options \<Rightarrow> nat" where
  "places R = (case op_executor R of None \<Rightarrow> 0 | Some maximum \<Rightarrow> maximum)"

definition persistent_entry :: "queued_run \<Rightarrow> bool" where
  "persistent_entry q \<longleftrightarrow> qr_persistent q \<and> rb_threadId (qr_input q) \<noteq> None"

definition thread_entry :: "thread_id \<Rightarrow> queued_run \<Rightarrow> bool" where
  "thread_entry t q \<longleftrightarrow> \<not> qr_persistent q \<and> rb_threadId (qr_input q) = Some t"

definition one_place :: "('fs, 'x) run_state_scheme \<Rightarrow> bool" where
  "one_place s \<longleftrightarrow> (\<forall>i. count (live s) i \<le> 1) \<and> set_mset (live s) \<subseteq> used s \<and> inj (rt_ids s)"

definition queues_ok :: "('fs, 'x) run_state_scheme \<Rightarrow> bool" where
  "queues_ok s \<longleftrightarrow>
     keys_distinct (rm_threadQueues s) \<and>
     (\<forall>q \<in> set (rm_persistentQueue s). persistent_entry q) \<and>
     (\<forall>(t, qs) \<in> set (rm_threadQueues s). qs \<noteq> [] \<and> (\<forall>q \<in> set qs. thread_entry t q))"

definition claims_ok :: "('fs, 'x) run_options \<Rightarrow> ('fs, 'x) run_state_scheme \<Rightarrow> bool" where
  "claims_ok R s \<longleftrightarrow>
     keys_distinct (rm_runningThread s) \<and> distinct (rm_runningPersistent s) \<and>
     length (rm_runningPersistent s) \<le> places R \<and>
     (\<forall>(i, t, p) \<in> set (active_view s).
        (\<forall>u. t = Some u \<longrightarrow> map_of (rm_runningThread s) u = Some i) \<and>
        (p \<longrightarrow> i \<in> set (rm_runningPersistent s)))"

definition base :: "('fs, 'x) run_options \<Rightarrow> ('fs, 'x) run_state_scheme \<Rightarrow> bool" where
  "base R s \<longleftrightarrow> one_place s \<and> queues_ok s \<and> claims_ok R s"

type_synonym claim_view = "run_id \<times> thread_id option \<times> bool"

definition backed :: "claim_view set \<Rightarrow> ('fs, 'x) run_state_scheme \<Rightarrow> bool" where
  "backed I s \<longleftrightarrow>
     (\<forall>t i. map_of (rm_runningThread s) t = Some i \<longrightarrow> (\<exists>p. (i, Some t, p) \<in> set (active_view s) \<union> I)) \<and>
     (\<forall>i \<in> set (rm_runningPersistent s). \<exists>t. (i, t, True) \<in> set (active_view s) \<union> I)"

definition in_front :: "thread_id set \<Rightarrow> ('fs, 'x) run_state_scheme \<Rightarrow> bool" where
  "in_front X s \<longleftrightarrow>
     (\<forall>t. map_of (rm_threadQueues s) t \<noteq> None \<longrightarrow>
        map_of (rm_runningThread s) t \<noteq> None \<or> rm_closing s \<or> t \<in> X)"

definition sound ::
  "('fs, 'x) run_options \<Rightarrow> bool \<Rightarrow> thread_id set \<Rightarrow> claim_view set \<Rightarrow>
   ('fs, 'x) run_state_scheme \<Rightarrow> bool" where
  "sound R c X I s \<longleftrightarrow> base R s \<and> (c \<longrightarrow> backed I s \<and> in_front X s)"

lemma sound_base: "sound R c X I s \<Longrightarrow> base R s"
  by (simp add: sound_def)

lemma sound_exempt: "sound R c X I s \<Longrightarrow> X \<subseteq> Y \<Longrightarrow> sound R c Y I s"
  by (auto simp: sound_def in_front_def)

text \<open>What happens outside of the queues keeps the invariants.\<close>

definition stable :: "(('fs, 'x) run_state_scheme \<Rightarrow> bool) \<Rightarrow> bool" where
  "stable P \<longleftrightarrow> (\<forall>s s'. P s \<longrightarrow> same_memory s s' \<longrightarrow> P s')"

named_theorems stable_rules

lemma same_memory_live: "same_memory s s' \<Longrightarrow> live s' = live s"
  by (simp add: live_def same_memory_def)

lemma same_memory_used: "same_memory s s' \<Longrightarrow> used s \<subseteq> used s'"
  by (auto simp: used_def same_memory_def)

lemma same_memory_parts:
  assumes "same_memory s s'"
  shows "one_place s \<Longrightarrow> one_place s'" and "queues_ok s' = queues_ok s"
    and "claims_ok R s' = claims_ok R s" and "backed I s' = backed I s" and "in_front X s' = in_front X s"
proof -
  show "one_place s \<Longrightarrow> one_place s'"
    using same_memory_live [OF assms] same_memory_used [OF assms] assms
    by (auto simp: one_place_def same_memory_def)
  have "active_view s' = active_view s" "rm_threadQueues s' = rm_threadQueues s"
    "rm_persistentQueue s' = rm_persistentQueue s" "rm_runningThread s' = rm_runningThread s"
    "rm_runningPersistent s' = rm_runningPersistent s" "rm_closing s' = rm_closing s"
    using assms by (simp_all add: same_memory_def)
  then show "queues_ok s' = queues_ok s" "claims_ok R s' = claims_ok R s"
    "backed I s' = backed I s" "in_front X s' = in_front X s"
    by (simp_all only: queues_ok_def claims_ok_def backed_def in_front_def)
qed

lemma stable_inv [stable_rules]: "stable (sound R c X I)"
  by (auto simp: stable_def sound_def base_def same_memory_parts)

lemma sound_same: "sound R c X I s \<Longrightarrow> same_memory s s' \<Longrightarrow> sound R c X I s'"
  using stable_inv unfolding stable_def by blast

lemma stable_base [stable_rules]: "stable (base R)"
  using stable_inv [of R False "{}" "{}"] by (simp add: sound_def stable_def)

lemma stable_conj [stable_rules]: "stable P \<Longrightarrow> stable Q \<Longrightarrow> stable (\<lambda>s. P s \<and> Q s)"
  by (auto simp: stable_def)

lemma stable_const [stable_rules]: "stable (\<lambda>_. b)"
  by (simp add: stable_def)

lemma stable_running [stable_rules]: "stable (\<lambda>s. P (map_of (rm_runningThread s) t))"
  by (simp add: stable_def same_memory_def)

lemma stable_fresh [stable_rules]: "stable (\<lambda>s. i \<in> used s \<and> i \<notin># live s)"
  using same_memory_live same_memory_used by (fastforce simp: stable_def)

lemma hoare_quiet:
  "quiet m \<Longrightarrow> stable P \<Longrightarrow> (\<And>s. P s \<Longrightarrow> E s) \<Longrightarrow> hoare P m (\<lambda>_. P) (\<lambda>_. E)"
  by (auto simp: quiet_def stable_def hoare_def split: prod.splits sum.splits) (metis snd_conv)+

text \<open>
  The run may take its thread and, with the executor, a place (\<open>ready\<close>); it has taken them
  (\<open>claimed\<close>).
\<close>

definition ready :: "('fs, 'x) run_options \<Rightarrow> queued_run \<Rightarrow> ('fs, 'x) run_state_scheme \<Rightarrow> bool" where
  "ready R q s \<longleftrightarrow>
     (qr_id q \<in> used s \<and> qr_id q \<notin># live s) \<and>
     (\<forall>t. rb_threadId (qr_input q) = Some t \<longrightarrow> map_of (rm_runningThread s) t = None) \<and>
     (qr_persistent q \<longrightarrow> length (rm_runningPersistent s) < places R)"

definition claimed :: "queued_run \<Rightarrow> ('fs, 'x) run_state_scheme \<Rightarrow> bool" where
  "claimed q s \<longleftrightarrow>
     (qr_id q \<in> used s \<and> qr_id q \<notin># live s) \<and>
     (\<forall>t. rb_threadId (qr_input q) = Some t \<longrightarrow> map_of (rm_runningThread s) t = Some (qr_id q)) \<and>
     (qr_persistent q \<longrightarrow> qr_id q \<in> set (rm_runningPersistent s))"

definition claim_of :: "queued_run \<Rightarrow> claim_view set" where
  "claim_of q = {(qr_id q, rb_threadId (qr_input q), qr_persistent q)}"

lemma stable_claimed [stable_rules]: "stable (claimed q)"
proof -
  have "claimed q s'" if "same_memory s s'" "claimed q s" for s s' :: "('a, 'b) run_state_scheme"
    using same_memory_live [OF that(1)] same_memory_used [OF that(1)] that
    by (auto simp: claimed_def same_memory_def)
  then show ?thesis by (auto simp: stable_def)
qed

lemma active_ids: "fst ` set (active_view s) = fst ` set (rm_active s)"
  by (force simp: active_view_def)

lemma active_live: "i \<in> fst ` set (active_view s) \<Longrightarrow> i \<in># live s"
  by (auto simp: live_def)

lemma claimed_new: "claimed q s \<Longrightarrow> qr_id q \<notin> fst ` set (active_view s)"
  using active_live by (auto simp: claimed_def simp del: image_iff)

lemma set_add_length: "length (set_add a xs) \<le> Suc (length xs)"
  by (simp add: set_add_def)

lemma set_add_set [simp]: "set (set_add a xs) = insert a (set xs)"
  by (auto simp: set_add_def)

lemma set_add_distinct: "distinct xs \<Longrightarrow> distinct (set_add a xs)"
  by (auto simp: set_add_def)

lemma claim_view:
  "active_view (claim q s) = active_view s" "live (claim q s) = live s" "used (claim q s) = used s"
  "one_place (claim q s) = one_place s" "queues_ok (claim q s) = queues_ok s"
  by (simp_all add: active_view_def live_def used_def claim_def one_place_def queues_ok_def
      cong: option.case_cong split: option.splits)

lemma claim_inv:
  assumes "sound R c (X \<union> set_option (rb_threadId (qr_input q))) {} s" and "ready R q s"
  shows "sound R c X (claim_of q) (claim q s)" and "claimed q (claim q s)"
proof -
  have view: "(i, t, p) \<in> set (active_view s) \<Longrightarrow> i \<noteq> qr_id q" for i t p
    using assms(2) active_live [of i s] by (force simp: ready_def)
  have claims: "claims_ok R s" and ok: "one_place s" "queues_ok s"
    using assms(1) by (simp_all add: sound_def base_def)
  have "length (rm_runningPersistent (claim q s)) \<le> places R"
    using claims assms(2) set_add_length [of "qr_id q" "rm_runningPersistent s"]
    by (auto simp: claims_ok_def ready_def claim_def)
  then have "claims_ok R (claim q s)"
    using claims assms(2)
    by (auto simp: claims_ok_def claim_view set_add_distinct)
       (auto simp: claim_def ready_def set_add_distinct split: option.splits)
  moreover have "backed (claim_of q) (claim q s)" if "backed {} s"
    using that unfolding backed_def claim_view
    by (auto simp: claim_def claim_of_def split: option.splits if_splits)
  moreover have "in_front X (claim q s)" if "in_front (X \<union> set_option (rb_threadId (qr_input q))) s"
    using that by (auto simp: in_front_def claim_def split: option.splits)
  ultimately show "sound R c X (claim_of q) (claim q s)"
    using assms(1) ok by (simp add: sound_def base_def claim_view)
  show "claimed q (claim q s)"
    using assms(2) by (auto simp: claimed_def ready_def claim_view) (simp_all add: claim_def)
qed

lemma map_put_absent: "k \<notin> fst ` set m \<Longrightarrow> map_put k v m = m @ [(k, v)]"
  by (induction k v m rule: map_put.induct) auto

lemma activate_inv:
  assumes "sound R c X (claim_of q) s" and "claimed q s"
    and "rb_threadId (ar_input a) = rb_threadId (qr_input q)" and "ar_persistent a = qr_persistent q"
  shows "sound R c X {} (s\<lparr>rm_active := map_put (qr_id q) a (rm_active s)\<rparr>)" (is "sound R c X {} ?s")
proof -
  have new: "qr_id q \<notin># live s" using assms(2) by (simp add: claimed_def)
  then have "qr_id q \<notin> fst ` set (rm_active s)" using active_live active_ids by blast
  then have view: "active_view ?s =
      active_view s @ [(qr_id q, rb_threadId (qr_input q), qr_persistent q)]"
    by (simp add: active_view_def map_put_absent assms(3,4))
  have live: "live ?s = add_mset (qr_id q) (live s)"
    unfolding live_def view by simp
  have "one_place ?s"
    using assms(1,2) new unfolding sound_def base_def one_place_def live claimed_def
    by (auto simp: used_def not_in_iff)
  moreover have "claims_ok R ?s"
    using assms(1,2) unfolding sound_def base_def claims_ok_def claimed_def view by auto
  moreover have "queues_ok ?s"
    using assms(1) by (simp add: sound_def base_def queues_ok_def)
  moreover have "backed {} ?s = backed (claim_of q) s"
    unfolding backed_def view by (simp add: claim_of_def Un_insert_right)
  moreover have "in_front X ?s" if "in_front X s"
    using that by (simp add: in_front_def)
  ultimately show ?thesis using assms(1) by (simp add: sound_def base_def)
qed

lemma release_view:
  "active_view (release t i s) = active_view s" "live (release t i s) = live s"
  "one_place (release t i s) = one_place s" "queues_ok (release t i s) = queues_ok s"
  by (simp_all add: active_view_def live_def used_def release_def one_place_def queues_ok_def
      cong: option.case_cong split: option.splits)

lemma release_inv:
  assumes "sound R c X {(i, t, p)} s" and "i \<notin> fst ` set (active_view s)"
  shows "sound R c (X \<union> set_option t) {} (release t i s)"
proof -
  have other: "(j, u, b) \<in> set (active_view s) \<Longrightarrow> j \<noteq> i" for j u b
    using assms(2) by force
  have "claims_ok R (release t i s)"
    using assms(1) other unfolding sound_def base_def claims_ok_def release_view
    by (auto simp: release_def distinct_removeAll split: option.splits simp: removeAll_filter_not_eq intro: order_trans [OF length_filter_le])
  moreover have "backed {} (release t i s)" if "backed {(i, t, p)} s"
    using that unfolding backed_def release_view
    by (cases t) (force simp: release_def split: if_splits)+
  moreover have "in_front (X \<union> set_option t) (release t i s)" if "in_front X s"
    using that by (auto simp: in_front_def release_def split: option.splits)
  ultimately show ?thesis using assms(1) by (simp add: sound_def base_def release_view)
qed

text \<open>Changes of the queues\<close>

definition with_queues ::
  "queued_run list \<Rightarrow> (thread_id, queued_run list) assoc \<Rightarrow> ('fs, 'x) run_state_scheme \<Rightarrow> ('fs, 'x) run_state_scheme" where
  "with_queues qs m s = s\<lparr>rm_persistentQueue := qs, rm_threadQueues := m\<rparr>"

lemma with_queues_live:
  "live (with_queues qs m s) = mset (map fst (active_view s)) + queue_ids qs + thread_ids m"
  "used (with_queues qs m s) = used s"
  by (simp_all add: with_queues_def live_def active_view_def used_def)

lemma with_queues_inv:
  assumes "sound R c X I s" and "queues_ok (with_queues qs m s)"
    and live: "live (with_queues qs m s) \<subseteq># live s \<or>
      (\<exists>i. i \<in> used s \<and> i \<notin># live s \<and> live (with_queues qs m s) = add_mset i (live s))"
    and front: "c \<Longrightarrow> \<forall>t. map_of m t \<noteq> None \<longrightarrow>
      map_of (rm_threadQueues s) t \<noteq> None \<or> map_of (rm_runningThread s) t \<noteq> None \<or> t \<in> X"
  shows "sound R c X I (with_queues qs m s)"
proof -
  have one: "one_place s" using assms(1) by (simp add: sound_def base_def)
  have "count (live (with_queues qs m s)) j \<le> 1" for j
    using live
  proof
    assume "live (with_queues qs m s) \<subseteq># live s"
    then show ?thesis
      using one by (metis one_place_def mset_subset_eq_count order_trans)
  next
    assume "\<exists>i. i \<in> used s \<and> i \<notin># live s \<and> live (with_queues qs m s) = add_mset i (live s)"
    then show ?thesis using one by (auto simp: one_place_def not_in_iff)
  qed
  moreover have "set_mset (live (with_queues qs m s)) \<subseteq> used s"
    using live one by (auto simp: one_place_def dest: mset_subset_eqD)
  ultimately have "one_place (with_queues qs m s)"
    using one by (simp add: one_place_def with_queues_live(2)) (simp add: with_queues_def)
  moreover have "claims_ok R (with_queues qs m s) = claims_ok R s"
    "backed I (with_queues qs m s) = backed I s"
    by (simp_all add: claims_ok_def backed_def with_queues_def active_view_def)
  moreover have "in_front X (with_queues qs m s)" if "c" "in_front X s"
    using that front by (force simp: in_front_def with_queues_def)
  ultimately show ?thesis using assms(1,2) by (simp add: sound_def base_def)
qed

text \<open>A run leaves the executor's queue, or the queue of its thread.\<close>

lemma leave_persistent:
  assumes s: "sound R c X I s" and "take_first p (rm_persistentQueue s) = Some (q, rest)"
    and s': "s' = s\<lparr>rm_persistentQueue := rest\<rparr>"
  shows "sound R c X I s' \<and> qr_id q \<in> used s' \<and> qr_id q \<notin># live s' \<and> persistent_entry q"
proof -
  have eq: "s' = with_queues rest (rm_threadQueues s) s" by (simp add: s' with_queues_def)
  note q = take_first_ids [OF assms(2)]
  have live: "live s = add_mset (qr_id q) (live s')"
    using q by (simp add: eq with_queues_live) (simp add: live_def)
  have one: "one_place s" and ok: "queues_ok s" using s by (simp_all add: sound_def base_def)
  have "queues_ok s'" using ok q by (auto simp: queues_ok_def s')
  then have "sound R c X I s'"
    unfolding eq by (intro with_queues_inv [OF s]) (auto simp: live [unfolded eq])
  moreover have "count (live s) (qr_id q) \<le> 1" and "qr_id q \<in> used s"
    using one unfolding one_place_def by (blast, auto simp: live)
  ultimately show ?thesis
    using ok q unfolding live by (auto simp: queues_ok_def used_def s' not_in_iff)
qed

definition set_queue :: "thread_id \<Rightarrow> queued_run list \<Rightarrow> (thread_id, queued_run list) assoc \<Rightarrow> (thread_id, queued_run list) assoc" where
  "set_queue t rest m = (if rest = [] then map_del t m else map_put t rest m)"

lemma set_queue_ids:
  "keys_distinct m \<Longrightarrow> thread_ids (set_queue t qs m) + queue_ids (queue_of t m) = thread_ids m + queue_ids qs"
  using thread_ids_put [of t qs m] thread_ids_del [of m t] by (simp add: set_queue_def)

lemma set_queue_ok:
  assumes "queues_ok s" and "\<forall>q \<in> set qs. thread_entry t q"
  shows "queues_ok (with_queues (rm_persistentQueue s) (set_queue t qs (rm_threadQueues s)) s)"
proof -
  have "set (set_queue t qs (rm_threadQueues s)) \<subseteq> (if qs = [] then {} else {(t, qs)}) \<union> set (rm_threadQueues s)"
    using set_map_put [of t qs "rm_threadQueues s"] set_map_del [of t "rm_threadQueues s"]
    by (auto simp: set_queue_def)
  then show ?thesis
    using assms by (fastforce simp: queues_ok_def with_queues_def set_queue_def split: if_splits)
qed

lemma queue_entries: "queues_ok s \<Longrightarrow> q \<in> set (queue_of t (rm_threadQueues s)) \<Longrightarrow> thread_entry t q"
  by (cases "map_of (rm_threadQueues s) t") (auto simp: queues_ok_def queue_of_def dest!: map_of_SomeD)

lemma leave_thread:
  assumes s: "sound R c X I s" and "take_first p (queue_of t (rm_threadQueues s)) = Some (q, rest)"
    and s': "s' = s\<lparr>rm_threadQueues := set_queue t rest (rm_threadQueues s)\<rparr>"
  shows "sound R c X I s' \<and> qr_id q \<in> used s' \<and> qr_id q \<notin># live s' \<and> thread_entry t q"
proof -
  have eq: "s' = with_queues (rm_persistentQueue s) (set_queue t rest (rm_threadQueues s)) s"
    by (simp add: s' with_queues_def)
  note q = take_first_ids [OF assms(2)]
  have one: "one_place s" and ok: "queues_ok s" using s by (simp_all add: sound_def base_def)
  have "thread_ids (rm_threadQueues s) = add_mset (qr_id q) (thread_ids (set_queue t rest (rm_threadQueues s)))"
    using set_queue_ids [of "rm_threadQueues s" t rest] ok q by (auto simp: queues_ok_def)
  then have live: "live s = add_mset (qr_id q) (live s')"
    by (simp add: eq with_queues_live) (simp add: live_def)
  have entry: "\<forall>r \<in> insert q (set rest). thread_entry t r" using queue_entries [OF ok] q by blast
  then have "queues_ok s'" unfolding eq by (intro set_queue_ok ok) simp
  moreover have "map_of (rm_threadQueues s) t \<noteq> None" using q by (auto simp: queue_of_def split: option.splits)
  ultimately have "sound R c X I s'"
    unfolding eq by (intro with_queues_inv [OF s]) (auto simp: live [unfolded eq] set_queue_def split: if_splits)
  moreover have "count (live s) (qr_id q) \<le> 1" and "qr_id q \<in> used s"
    using one unfolding one_place_def by (blast, auto simp: live)
  ultimately show ?thesis
    using entry unfolding live by (auto simp: used_def s' not_in_iff)
qed

lemma next_persistent_inv:
  assumes "sound R c X {} s" and "next_persistent R s = Some (q, s')"
  shows "sound R c X {} s' \<and> ready R q s'"
proof -
  obtain maximum rest where m: "op_executor R = Some maximum" "length (rm_runningPersistent s) < maximum"
    and q: "take_first (startable R s) (rm_persistentQueue s) = Some (q, rest)"
    and s': "s' = s\<lparr>rm_persistentQueue := rest\<rparr>"
    using assms(2) by (auto simp: next_persistent_def split: option.splits if_splits)
  moreover have "startable R s q" using take_first_ids [OF q] by blast
  ultimately show ?thesis
    using leave_persistent [OF assms(1) q s']
    by (auto simp: ready_def places_def startable_def split: option.splits)
qed

lemma next_of_thread_inv:
  assumes "sound R c X {} s" and "next_of_thread t s = Some (q, s')"
  shows "sound R c X {} s' \<and> ready R q s' \<and> rb_threadId (qr_input q) = Some t"
proof -
  obtain rest where free: "map_of (rm_runningThread s) t = None"
    and q: "take_first (\<lambda>_. True) (queue_of t (rm_threadQueues s)) = Some (q, rest)"
    and s': "s' = s\<lparr>rm_threadQueues := set_queue t rest (rm_threadQueues s)\<rparr>"
    using assms(2) by (auto simp: next_of_thread_def set_queue_def split: option.splits if_splits list.splits)
  then show ?thesis
    using leave_thread [OF assms(1) q s'] by (simp add: ready_def thread_entry_def)
qed

lemma next_of_thread_none:
  assumes "sound R c (insert t X) {} s" and "next_of_thread t s = None"
  shows "sound R c X {} s"
proof -
  have "queues_ok s" using assms(1) by (simp add: sound_def base_def)
  then have "map_of (rm_threadQueues s) t \<noteq> Some []"
    by (auto simp: queues_ok_def dest: map_of_SomeD)
  then show ?thesis
    using assms by (auto simp: sound_def in_front_def next_of_thread_def split: if_splits option.splits list.splits)
qed

section \<open>Launching keeps the invariants\<close>

text \<open>A computation that takes the next run, if there is one\<close>

lemma hoare_next:
  assumes "\<And>s q s'. P s \<Longrightarrow> next_run s = Some (q, s') \<Longrightarrow> P' q s'"
    and "\<And>s. P s \<Longrightarrow> next_run s = None \<Longrightarrow> Q s" and "\<And>q. hoare (P' q) (m q) (\<lambda>_. Q) E"
  shows "hoare P (\<lambda>s. case next_run s of None \<Rightarrow> (Inr (), s) | Some (q, s') \<Rightarrow> m q s') (\<lambda>_. Q) E"
proof -
  have "case m q s' of (Inl e, s') \<Rightarrow> E e s' | (Inr _, s') \<Rightarrow> Q s'" if "P s" "next_run s = Some (q, s')" for s q s'
    using assms(1,3) that by (fastforce simp: hoare_def)
  then show ?thesis using assms(2) by (auto simp: hoare_def split: option.splits)
qed

context run_callbacks begin

lemma prepare_thread:
  "hoare P (prepareRotationRunInput R i q seq) (\<lambda>r _. rb_threadId (fst r) = rb_threadId q) (\<lambda>_ _. True)"
  unfolding prepareRotationRunInput_def Let_def
  by (auto simp: hoare_def run_simps split: prod.splits sum.splits option.splits)

lemma plan_thread:
  "hoare P (plan_launch R q) (\<lambda>p _. rb_threadId (lp_input p) = rb_threadId (qr_input q)) (\<lambda>_ _. True)"
proof -
  have "rb_threadId (fst r) = rb_threadId (qr_input q)"
    if "prepareRotationRunInput R (qr_id q) (qr_input q) None s = (Inr r, s')" for r s s'
    using hoareD [OF prepare_thread [of "\<lambda>_. True"] _ that] by simp
  then show ?thesis
    by (force simp: plan_launch_def Let_def hoare_def run_simps split: prod.splits sum.splits)
qed

lemma hoare_both: "hoare P m Q E \<Longrightarrow> hoare P m Q' (\<lambda>_ _. True) \<Longrightarrow> hoare P m (\<lambda>a s. Q a s \<and> Q' a s) E"
  by (fastforce simp: hoare_def split: prod.splits sum.splits)

abbreviation claimed_inv :: "bool \<Rightarrow> thread_id set \<Rightarrow> queued_run \<Rightarrow> ('fs, 'x) run_state_scheme \<Rightarrow> bool" where
  "claimed_inv c X q s \<equiv> sound R c X (claim_of q) s \<and> claimed q s"

lemma hoare_quiet_claimed:
  "quiet m \<Longrightarrow> hoare (claimed_inv c X q) m (\<lambda>_. claimed_inv c X q) (\<lambda>_. base R)"
  by (rule hoare_quiet) (auto intro: stable_rules simp: sound_base)

lemma hoare_quiet_inv:
  "quiet m \<Longrightarrow> hoare (sound R c X I) m (\<lambda>_. sound R c X I) (\<lambda>_. base R)"
  by (rule hoare_quiet) (auto intro: stable_rules simp: sound_base)

lemma spawn_inv:
  assumes "rb_threadId (lp_input p) = rb_threadId (qr_input q)"
  shows "hoare (claimed_inv c X q) (spawn R q p) (\<lambda>_. sound R c X {}) (\<lambda>_. base R)"
proof -
  have activate: "hoare (claimed_inv c X q)
      (modify (\<lambda>s. s\<lparr>rm_active := map_put (qr_id q) (active_of q p n) (rm_active s)\<rparr>))
      (\<lambda>_. sound R c X {}) (\<lambda>_. base R)" for n
    by (rule hoare_modify) (auto simp: active_of_def assms intro: activate_inv)
  show ?thesis
    unfolding spawn_def Let_def
    by (rule hoare_bindE hoare_thenE activate hoare_ret hoare_quiet_claimed | assumption |
        intro quiet_rules quiet_option)+
qed

lemma try_launch_inv:
  "hoare (\<lambda>s. sound R c (X \<union> set_option (rb_threadId (qr_input q))) {} s \<and> ready R q s) (try_launch R q)
     (\<lambda>r s. case r of Inl _ \<Rightarrow> claimed_inv c X q s | Inr _ \<Rightarrow> sound R c X {} s) (\<lambda>_. base R)"
proof -
  let ?start = "\<lambda>s. sound R c (X \<union> set_option (rb_threadId (qr_input q))) {} s \<and> ready R q s"
  have stable_start: "stable ?start"
  proof -
    have "ready R q s'" if "same_memory s s'" "ready R q s" for s s' :: "('fs, 'x) run_state_scheme"
      using same_memory_live [OF that(1)] same_memory_used [OF that(1)] that
      by (auto simp: ready_def same_memory_def)
    then have "stable (ready R q)" by (auto simp: stable_def)
    then show ?thesis by (intro stable_rules)
  qed
  have date: "hoare ?start date_now (\<lambda>_. ?start) (\<lambda>_. base R)"
    by (rule hoare_quiet [OF quiet_io(5) stable_start]) (blast dest: sound_base)
  have claim: "hoare ?start (modify (claim q)) (\<lambda>_. claimed_inv c X q) (\<lambda>_. base R)"
    by (rule hoare_modify) (auto intro: claim_inv)
  have plan: "hoare (claimed_inv c X q) (plan_launch R q)
      (\<lambda>p s. claimed_inv c X q s \<and> rb_threadId (lp_input p) = rb_threadId (qr_input q)) (\<lambda>_. base R)"
    by (intro hoare_both hoare_quiet_claimed quiet_plan_launch plan_thread)
  have rest: "hoare (\<lambda>s. claimed_inv c X q s \<and> rb_threadId (lp_input p) = rb_threadId (qr_input q))
      (thenE (setRunResumeMode (qr_id q) (lp_mode p))
      (thenE (whenE (rb_threadId (qr_input q) \<noteq> None) (setRunQueueState (qr_id q) QStarted))
      (case refusal R (qr_input q) p of
         Some f \<Rightarrow> ret (Inl f) | None \<Rightarrow> bindE (spawn R q p) (\<lambda>c. ret (Inr c)))))
      (\<lambda>r s. case r of Inl _ \<Rightarrow> claimed_inv c X q s | Inr _ \<Rightarrow> sound R c X {} s) (\<lambda>_. base R)" for p
  proof (cases "rb_threadId (lp_input p) = rb_threadId (qr_input q)")
    case True
    have launch: "hoare (claimed_inv c X q)
        (case refusal R (qr_input q) p of
           Some f \<Rightarrow> ret (Inl f) | None \<Rightarrow> bindE (spawn R q p) (\<lambda>c. ret (Inr c)))
        (\<lambda>r s. case r of Inl _ \<Rightarrow> claimed_inv c X q s | Inr _ \<Rightarrow> sound R c X {} s) (\<lambda>_. base R)"
      using spawn_inv [OF True]
      by (cases "refusal R (qr_input q) p") (auto intro!: hoare_ret hoare_bindE)
    show ?thesis
      unfolding True simp_thms
      by (rule hoare_thenE launch hoare_quiet_claimed | intro quiet_rules)+
  qed (simp add: hoare_def)
  show ?thesis
    unfolding try_launch_def Let_def
    by (rule hoare_bindE [OF date], rule hoare_thenE [OF claim], rule hoare_bindE [OF plan rest])
qed

text \<open>The four functions that call each other, together\<close>

lemma launch_inv:
  shows startExistingRun_inv: "hoare (\<lambda>s. sound R c (X \<union> set_option (rb_threadId (qr_input q))) {} s \<and> ready R q s)
      (startExistingRun n R q) (\<lambda>_. sound R c X {}) (\<lambda>_. base R)"
    and completeThreadRun_inv: "hoare (\<lambda>s. sound R c X {(i, t, p)} s \<and> i \<notin> fst ` set (active_view s))
      (completeThreadRun n R t i) (\<lambda>_. sound R c X {}) (\<lambda>_. base R)"
    and startNextPersistentRuns_inv: "hoare (sound R c X {}) (startNextPersistentRuns n R) (\<lambda>_. sound R c X {}) (\<lambda>_. base R)"
    and startNextQueuedThreadRun_inv: "hoare (sound R c (insert u X) {}) (startNextQueuedThreadRun n R u) (\<lambda>_. sound R c X {}) (\<lambda>_. base R)"
proof (induction n arbitrary: c X q i t p u)
  case 0
  { case 1 show ?case by (auto intro: hoare_throw dest: sound_base) }
  { case 2 show ?case by (auto intro: hoare_throw dest: sound_base) }
  { case 3 show ?case by (auto intro: hoare_throw dest: sound_base) }
  { case 4 show ?case by (auto intro: hoare_throw dest: sound_base) }
next
  case (Suc n)
  { case 1
    have complete: "hoare (claimed_inv c X q) (completeThreadRun n R (rb_threadId (qr_input q)) (qr_id q))
        (\<lambda>_. sound R c X {}) (\<lambda>_. base R)"
      by (rule hoare_pre [OF Suc.IH(2) [where p = "qr_persistent q"]]) (simp add: claim_of_def claimed_new)
    have "hoare (claimed_inv c X q)
        (bindE (failRunBeforeSpawn R q code message) (\<lambda>run.
         thenE (resolveRunCompletion run)
         (thenE (whenE (rb_threadId (qr_input q) \<noteq> None) (setRunQueueState (qr_id q) QNone))
         (thenE (completeThreadRun n R (rb_threadId (qr_input q)) (qr_id q))
         (ret run))))) (\<lambda>_. sound R c X {}) (\<lambda>_. base R)" for code message
      by (rule hoare_bindE hoare_thenE complete hoare_ret hoare_quiet_claimed quiet_failRunBeforeSpawn | assumption |
        intro quiet_rules)+
    then show ?case
      by (auto intro!: hoare_bindE [OF try_launch_inv] hoare_ret split: sum.splits) }
  { case 2
    have next_run: "hoare (sound R c (X \<union> set_option t) {})
        (case t of Some u \<Rightarrow> startNextQueuedThreadRun n R u | None \<Rightarrow> ret ()) (\<lambda>_. sound R c X {}) (\<lambda>_. base R)"
      using Suc.IH(4) by (cases t) (auto intro: hoare_ret)
    have "hoare (\<lambda>s. sound R c X {(i, t, p)} s \<and> i \<notin> fst ` set (active_view s)) (modify (release t i))
        (\<lambda>_. sound R c (X \<union> set_option t) {}) (\<lambda>_. base R)"
      by (rule hoare_modify) (blast intro: release_inv)
    then show ?case
      unfolding completeThreadRun.simps by (rule hoare_thenE [OF _ hoare_thenE [OF Suc.IH(3) next_run]]) }
  { case 3
    have step: "hoare (\<lambda>s. sound R c X {} s \<and> ready R q s)
        (bindE (startExistingRun n R q) (\<lambda>_. startNextPersistentRuns n R)) (\<lambda>_. sound R c X {}) (\<lambda>_. base R)" for q
      by (rule hoare_bindE [OF hoare_pre [OF Suc.IH(1)] Suc.IH(3)]) (auto intro: sound_exempt)
    show ?case
      unfolding startNextPersistentRuns.simps
      by (rule hoare_next [OF _ _ step]) (auto dest: next_persistent_inv) }
  { case 4
    have step: "hoare (\<lambda>s. sound R c (insert u X) {} s \<and> ready R q s \<and> rb_threadId (qr_input q) = Some u)
        (bindE (startExistingRun n R q) (\<lambda>_. ret ())) (\<lambda>_. sound R c X {}) (\<lambda>_. base R)" for q
      by (rule hoare_bindE [OF hoare_pre [OF Suc.IH(1)] hoare_ret]) auto
    show ?case
      unfolding startNextQueuedThreadRun.simps
      by (rule hoare_next [OF _ _ step]) (auto dest: next_of_thread_inv next_of_thread_none) }
qed

end

end
