(* ===== verification/RunSteps.thy ===== *)
theory RunSteps
  imports RunInvariants
begin

text \<open>
  Every operation of the run manager keeps its invariants, and what follows for the runs of the
  daemon: \<open>run_step\<close> is whatever can happen to the manager, \<open>run_history\<close> what can have happened.
\<close>

lemma hoare_returns:
  "(\<And>s. P s \<Longrightarrow> \<exists>r s'. m s = (Inr r, s') \<and> Q r s') \<Longrightarrow> hoare P m Q E"
  by (fastforce simp: hoare_def)

lemma hoare_read:
  "(\<And>x. hoare (\<lambda>s. P s \<and> f s = x) (g x) Q E) \<Longrightarrow> hoare P (bindE (gets f) g) Q E"
  by (simp add: hoare_def run_simps)

lemma hoare_with_stack: "(\<And>n. hoare P (m n) Q E) \<Longrightarrow> hoare P (with_stack m) Q E"
  by (simp add: hoare_def with_stack_def)

lemma hoare_imp_pre: "(b \<Longrightarrow> hoare P m Q E) \<Longrightarrow> hoare (\<lambda>s. P s \<and> b) m Q E"
  by (auto simp: hoare_def)

lemma stable_view [stable_rules]: "stable (\<lambda>s. v \<in> set (active_view s))"
  by (simp add: stable_def same_memory_def)

definition fresh_id :: "run_id \<Rightarrow> ('fs, 'x) run_state_scheme \<Rightarrow> bool" where
  "fresh_id i s \<longleftrightarrow> i \<in> used s \<and> i \<notin># live s"

lemma stable_fresh_id [stable_rules]: "stable (fresh_id i)"
  using stable_fresh [of i] by (simp add: fresh_id_def stable_def)

context run_callbacks begin

abbreviation kept :: "bool \<Rightarrow> ('fs, 'x) run_state_scheme \<Rightarrow> bool" where
  "kept c \<equiv> sound R c {} {}"

definition keeps_sound :: "('fs, 'x, 'a) rio \<Rightarrow> bool" where
  "keeps_sound m \<longleftrightarrow> (\<forall>c. hoare (kept c) m (\<lambda>_. kept c) (\<lambda>_. base R))"

lemma keeps_soundD: "keeps_sound m \<Longrightarrow> hoare (kept c) m (\<lambda>_. kept c) (\<lambda>_. base R)"
  by (simp add: keeps_sound_def)

lemma keeps_sound_quiet: "quiet m \<Longrightarrow> keeps_sound m"
  by (simp add: keeps_sound_def hoare_quiet_inv)

lemma keeps_sound_bindE: "keeps_sound m \<Longrightarrow> (\<And>a. keeps_sound (f a)) \<Longrightarrow> keeps_sound (bindE m f)"
  unfolding keeps_sound_def by (blast intro: hoare_bindE)

lemma keeps_sound_thenE: "keeps_sound m \<Longrightarrow> keeps_sound n \<Longrightarrow> keeps_sound (thenE m n)"
  unfolding keeps_sound_def by (blast intro: hoare_thenE)

lemma keeps_sound_if: "(b \<Longrightarrow> keeps_sound m) \<Longrightarrow> (\<not> b \<Longrightarrow> keeps_sound n) \<Longrightarrow> keeps_sound (if b then m else n)"
  by simp

lemma keeps_sound_whenE: "(b \<Longrightarrow> keeps_sound m) \<Longrightarrow> keeps_sound (whenE b m)"
  by (cases b) (auto simp: whenE_def intro: keeps_sound_quiet quiet_ret)

lemma keeps_sound_option:
  "(x = None \<Longrightarrow> keeps_sound m) \<Longrightarrow> (\<And>a. x = Some a \<Longrightarrow> keeps_sound (f a)) \<Longrightarrow>
   keeps_sound (case x of None \<Rightarrow> m | Some a \<Rightarrow> f a)"
  by (cases x) auto

lemma keeps_sound_forE: "(\<And>x. keeps_sound (f x)) \<Longrightarrow> keeps_sound (forE xs f)"
  unfolding keeps_sound_def by (blast intro: hoare_forE)

lemmas keeps_sound_rules =
  keeps_sound_bindE keeps_sound_thenE keeps_sound_if keeps_sound_whenE keeps_sound_option keeps_sound_forE

lemma startNext_sound: "keeps_sound (with_stack (\<lambda>n. startNextPersistentRuns n R))"
  unfolding keeps_sound_def by (blast intro: hoare_with_stack startNextPersistentRuns_inv)

text \<open>Canceling\<close>

lemma removeQueuedRun_sound: "keeps_sound (removeQueuedRun i)"
proof -
  have leave: "sound R c {} {} (snd (removeQueuedRun i s))" if s: "sound R c {} {} s" for c s
  proof (cases "take_first (\<lambda>q. qr_id q = i) (rm_persistentQueue s)")
    case (Some p)
    then show ?thesis
      using leave_persistent [OF s] by (cases p) (simp add: removeQueuedRun_def)
  next
    case none: None
    have keys: "keys_distinct (rm_threadQueues s)" using s by (simp add: sound_def base_def queues_ok_def)
    show ?thesis
    proof (cases "first_where (\<lambda>p. list_ex (\<lambda>q. qr_id q = i) (snd p)) (rm_threadQueues s)")
      case None
      with none s show ?thesis by (simp add: removeQueuedRun_def remove_from_threads_def)
    next
      case found: (Some p)
      obtain t qs where p: "p = (t, qs)" by fastforce
      with found have "(t, qs) \<in> set (rm_threadQueues s)"
        by (auto simp: first_where_def find_Some_iff)
      with keys have q: "queue_of t (rm_threadQueues s) = qs" by (simp add: keys_distinct_def queue_of_def)
      show ?thesis
      proof (cases "take_first (\<lambda>q. qr_id q = i) qs")
        case None
        with none found p s show ?thesis by (simp add: removeQueuedRun_def remove_from_threads_def)
      next
        case (Some r)
        obtain x rest where r: "r = (x, rest)" by fastforce
        from leave_thread [OF s Some [folded q, unfolded r] refl] none found p Some r show ?thesis
          by (simp add: removeQueuedRun_def remove_from_threads_def set_queue_def)
      qed
    qed
  qed
  moreover have "\<exists>r s'. removeQueuedRun i s = (Inr r, s')" for s :: "('fs, 'x) run_state_scheme"
    by (simp add: removeQueuedRun_def split: option.splits prod.splits)
  ultimately show ?thesis
    unfolding keeps_sound_def by (intro allI hoare_returns) (metis snd_conv)
qed

lemma cancel_queued_sound: "keeps_sound (cancel_queued R q t)"
  unfolding cancel_queued_def Let_def writeQueuedCancelDiagnostics_def
  by (intro keeps_sound_bindE keeps_sound_thenE startNext_sound; rule keeps_sound_quiet;
      intro quiet_rules quiet_notify quiet_modify) (simp add: same_memory_def active_view_def)

lemma cancelRun_sound: "keeps_sound (cancelRun R i)"
  unfolding cancelRun_def
  by (intro keeps_sound_rules removeQueuedRun_sound keeps_sound_quiet [OF quiet_cancel_active]
      keeps_sound_quiet [OF quiet_ret] keeps_sound_quiet [OF quiet_gets])
     (auto split: prod.splits intro!: keeps_sound_thenE cancel_queued_sound keeps_sound_quiet [OF quiet_ret])

lemma interrupt_sound: "keeps_sound (interrupt_thread R t)"
  unfolding interrupt_thread_def
  by (intro keeps_sound_rules cancelRun_sound; intro keeps_sound_quiet quiet_rules)

lemma cancelAll_sound: "keeps_sound (cancelAll R)"
  unfolding cancelAll_def cancel_each_def
  by (intro keeps_sound_rules cancelRun_sound; intro keeps_sound_quiet quiet_rules)

lemma stable_kept_fresh: "stable (\<lambda>s. kept c s \<and> fresh_id i s)"
  by (intro stable_rules)

lemma close_manager_sound: "keeps_sound (close_manager R)"
proof -
  have close: "keeps_sound (modify (\<lambda>s. s\<lparr>rm_closing := True\<rparr>))"
    unfolding keeps_sound_def
    by (intro allI hoare_modify)
       (simp add: sound_def base_def one_place_def queues_ok_def claims_ok_def backed_def in_front_def
         live_def used_def active_view_def)
  show ?thesis
    unfolding close_manager_def
    by (intro keeps_sound_rules cancelAll_sound close; intro keeps_sound_quiet quiet_rules)
qed

text \<open>Starting\<close>

lemma insertInitialRun_fresh:
  "hoare (kept c) (insertInitialRun R q mode codex) (\<lambda>i s. kept c s \<and> fresh_id i s) (\<lambda>_. base R)"
proof -
  have id: "hoare (kept c) nanoid (\<lambda>a s. kept c s \<and> fresh_id (''run_'' @ a) s) (\<lambda>_. base R)"
  proof (rule hoareI)
    fix s a and s' :: "('fs, 'x) run_state_scheme"
    assume s: "kept c s" and "nanoid s = (Inr a, s')"
    then have a: "a = rt_ids s (rt_nextId s)" and s': "s' = s\<lparr>rt_nextId := Suc (rt_nextId s)\<rparr>"
      by (auto simp: nanoid_def)
    have same: "same_memory s s'" by (simp add: s' same_memory_def active_view_def)
    have "inj (rt_ids s)" and live: "set_mset (live s) \<subseteq> used s"
      using s by (simp_all add: sound_def base_def one_place_def)
    then have "''run_'' @ a \<notin> used s" by (auto simp: used_def a dest: injD)
    moreover have "''run_'' @ a \<in> used s'" by (auto simp: used_def s' a)
    ultimately have "fresh_id (''run_'' @ a) s'"
      using live same_memory_live [OF same] by (auto simp: fresh_id_def)
    moreover have "kept c s'" using s same by (rule sound_same)
    ultimately show "kept c s' \<and> fresh_id (''run_'' @ a) s'" by blast
  qed (simp add: nanoid_def)
  have step: "quiet m \<Longrightarrow> hoare (\<lambda>s. kept c s \<and> fresh_id i s) m (\<lambda>_ s. kept c s \<and> fresh_id i s) (\<lambda>_. base R)"
    for i and m :: "('fs, 'x, unit) rio"
    by (rule hoare_quiet) (auto intro: stable_kept_fresh sound_base)
  show ?thesis
    unfolding insertInitialRun_def Let_def
    by (rule hoare_bindE [OF id] hoare_thenE step | intro quiet_rules callback_rules | rule hoare_ret | assumption)+
qed

lemma enter_persistent:
  assumes "kept c s" and "fresh_id (qr_id q) s" and "persistent_entry q"
    and "enqueue q (rm_persistentQueue s) = (queue, position)"
  shows "kept c (s\<lparr>rm_persistentQueue := queue\<rparr>)"
proof -
  have eq: "s\<lparr>rm_persistentQueue := queue\<rparr> = with_queues queue (rm_threadQueues s) s"
    by (simp add: with_queues_def)
  have "queues_ok s" using assms(1) by (simp add: sound_def base_def)
  then have "queues_ok (with_queues queue (rm_threadQueues s) s)"
    using enqueue_set [OF assms(4)] assms(3) by (simp add: queues_ok_def with_queues_def)
  moreover have "live (with_queues queue (rm_threadQueues s) s) = add_mset (qr_id q) (live s)"
    unfolding with_queues_live by (simp add: enqueue_ids [OF assms(4)] live_def)
  ultimately show ?thesis
    unfolding eq using assms(2) by (intro with_queues_inv [OF assms(1)]) (auto simp: fresh_id_def)
qed

lemma enter_thread:
  assumes "kept c s" and "fresh_id (qr_id q) s" and "thread_entry t q"
    and "map_of (rm_runningThread s) t \<noteq> None"
    and "enqueue q (queue_of t (rm_threadQueues s)) = (queue, position)"
  shows "kept c (s\<lparr>rm_threadQueues := map_put t queue (rm_threadQueues s)\<rparr>)"
proof -
  have ok: "queues_ok s" using assms(1) by (simp add: sound_def base_def)
  have some: "queue \<noteq> []" using enqueue_set [OF assms(5)] by auto
  then have eq: "s\<lparr>rm_threadQueues := map_put t queue (rm_threadQueues s)\<rparr> =
      with_queues (rm_persistentQueue s) (set_queue t queue (rm_threadQueues s)) s"
    by (simp add: with_queues_def set_queue_def)
  have "queues_ok (with_queues (rm_persistentQueue s) (set_queue t queue (rm_threadQueues s)) s)"
    using enqueue_set [OF assms(5)] assms(3) queue_entries [OF ok] by (intro set_queue_ok ok) auto
  moreover have "thread_ids (set_queue t queue (rm_threadQueues s)) = add_mset (qr_id q) (thread_ids (rm_threadQueues s))"
    using set_queue_ids [of "rm_threadQueues s" t queue] ok enqueue_ids [OF assms(5)] by (simp add: queues_ok_def)
  then have "live (with_queues (rm_persistentQueue s) (set_queue t queue (rm_threadQueues s)) s) = add_mset (qr_id q) (live s)"
    unfolding with_queues_live by (simp add: live_def)
  ultimately show ?thesis
    unfolding eq using assms(2,4) some
    by (intro with_queues_inv [OF assms(1)]) (auto simp: fresh_id_def set_queue_def)
qed

lemma hoare_quiet_fresh:
  "quiet m \<Longrightarrow> hoare (\<lambda>s. kept c s \<and> fresh_id i s) m (\<lambda>_ s. kept c s \<and> fresh_id i s) (\<lambda>_. base R)"
  by (rule hoare_quiet) (auto intro: stable_kept_fresh sound_base)

lemma launch_fresh:
  assumes "\<And>s. P s \<Longrightarrow> kept c s \<and> fresh_id (qr_id q) s \<and>
      (\<forall>t. rb_threadId (qr_input q) = Some t \<longrightarrow> map_of (rm_runningThread s) t = None) \<and>
      (qr_persistent q \<longrightarrow> length (rm_runningPersistent s) < places R)"
  shows "hoare P (with_stack (\<lambda>n. startExistingRun n R q)) (\<lambda>_. kept c) (\<lambda>_. base R)"
proof (intro hoare_with_stack hoare_pre [OF startExistingRun_inv])
  fix s assume "P s"
  from assms [OF this] show "sound R c ({} \<union> set_option (rb_threadId (qr_input q))) {} s \<and> ready R q s"
    by (auto simp: ready_def fresh_id_def intro: sound_exempt)
qed

lemma start_with_executor_sound:
  assumes "op_executor R = Some maximum" and "rb_threadId q = Some t"
  shows "hoare (\<lambda>s. kept c s \<and> fresh_id i s) (start_with_executor R q i t codex) (\<lambda>_. kept c) (\<lambda>_. base R)"
proof -
  define queued where "queued n = \<lparr>qr_id = i, qr_input = q, qr_runDir = run_dir R i, qr_persistent = True,
    qr_submissionSequence = Some (Suc n)\<rparr>" for n
  have places: "places R = maximum" by (simp add: places_def assms(1))
  have submit: "quiet (modify (\<lambda>s. s\<lparr>rm_submissions := n\<rparr>))"
    and resolver: "quiet (modify (\<lambda>s. s\<lparr>rm_resolvers := set_add i (rm_resolvers s)\<rparr>))" for n
    by (simp_all add: quiet_modify same_memory_def active_view_def)
  have launch: "hoare (\<lambda>s. (kept c s \<and> fresh_id i s) \<and>
        (map_of (rm_runningThread s) t \<noteq> None, maximum \<le> length (rm_runningPersistent s), \<not> op_canStart R t s) =
          (False, False, False))
      (with_stack (\<lambda>m. startExistingRun m R (queued n))) (\<lambda>_. kept c) (\<lambda>_. base R)" for n
    by (rule launch_fresh) (auto simp: queued_def places assms(2))
  have after: "keeps_sound (thenE (whenE (submission_of q = InterruptAndEnqueue) (interrupt_thread R t))
      (bindE (nextSeqForRun i) (\<lambda>seq.
       thenE (publishStatus i seq ''queued'' (rb_threadId q) codex)
       (thenE (whenE warn (publishDiagnostic i (succ seq) ''RUN_CONCURRENCY_LIMIT'' (op_limitText R maximum) d))
       (ret r)))))" for warn d r and succ :: "nat \<Rightarrow> nat"
    by (intro keeps_sound_bindE keeps_sound_thenE keeps_sound_whenE interrupt_sound; rule keeps_sound_quiet;
        intro quiet_rules)
  have wait: "hoare (\<lambda>s. kept c s \<and> fresh_id i s)
      (bindE (gets (\<lambda>s. enqueue (queued n) (rm_persistentQueue s))) (\<lambda>(queue, position).
         thenE (modify (\<lambda>s. s\<lparr>rm_persistentQueue := queue\<rparr>)) (rest position)))
      (\<lambda>_. kept c) (\<lambda>_. base R)" if "\<And>p. keeps_sound (rest p)" for rest :: "nat \<Rightarrow> ('fs, 'x, created_run) rio" and n
  proof (rule hoare_read)
    fix x :: "queued_run list \<times> nat"
    obtain queue position where x: "x = (queue, position)" by fastforce
    show "hoare (\<lambda>s. (kept c s \<and> fresh_id i s) \<and> enqueue (queued n) (rm_persistentQueue s) = x)
        (case x of (queue, position) \<Rightarrow>
           thenE (modify (\<lambda>s. s\<lparr>rm_persistentQueue := queue\<rparr>)) (rest position)) (\<lambda>_. kept c) (\<lambda>_. base R)"
      unfolding x prod.case
      by (rule hoare_thenE [OF hoare_modify keeps_soundD [OF that]])
         (rule enter_persistent; auto simp: queued_def persistent_entry_def assms(2))
  qed
  show ?thesis
    unfolding start_with_executor_def Let_def option.sel assms(1)
    apply (rule hoare_read)
    apply (rule hoare_thenE)
     apply (rule hoare_pre [OF hoare_quiet_fresh [OF submit]], blast)
    apply (rule hoare_read)
    subgoal for n flags
      using launch [of n]
      by (cases flags)
         (auto simp: queued_def intro!: hoare_thenE [OF hoare_pre [OF hoare_quiet_fresh [OF quiet_waits]]]
           hoare_thenE [OF hoare_quiet_fresh [OF resolver]] wait [unfolded queued_def] after)
    done
qed

lemma wait_for_thread_sound:
  assumes "rb_threadId q = Some t"
  shows "hoare (\<lambda>s. (kept c s \<and> fresh_id i s) \<and> map_of (rm_runningThread s) t \<noteq> None)
    (wait_for_thread R q i t codex) (\<lambda>_. kept c) (\<lambda>_. base R)"
proof -
  let ?P = "\<lambda>s. (kept c s \<and> fresh_id i s) \<and> map_of (rm_runningThread s) t \<noteq> None"
  have step: "quiet m \<Longrightarrow> hoare ?P m (\<lambda>_. ?P) (\<lambda>_. base R)" for m :: "('fs, 'x, 'b) rio"
    by (rule hoare_quiet, assumption, intro stable_rules) (blast dest: sound_base)
  have resolver: "quiet (modify (\<lambda>s. s\<lparr>rm_resolvers := set_add i (rm_resolvers s)\<rparr>))"
    by (simp add: quiet_modify same_memory_def active_view_def)
  define queued where "queued = \<lparr>qr_id = i, qr_input = q, qr_runDir = run_dir R i, qr_persistent = False,
    qr_submissionSequence = None\<rparr>"
  have enter: "hoare ?P
      (bindE (gets (\<lambda>s. enqueue queued (case map_of (rm_threadQueues s) t of None \<Rightarrow> [] | Some queue \<Rightarrow> queue)))
        (\<lambda>(queue, position).
         thenE (modify (\<lambda>s. s\<lparr>rm_threadQueues := map_put t queue (rm_threadQueues s)\<rparr>))
         (thenE (whenE (submission_of q = InterruptAndEnqueue) (interrupt_thread R t))
         (ret (queued_response i q position)))))
      (\<lambda>_. kept c) (\<lambda>_. base R)"
  proof (rule hoare_read)
    fix x :: "queued_run list \<times> nat"
    obtain queue position where x: "x = (queue, position)" by fastforce
    have "keeps_sound (thenE (whenE (submission_of q = InterruptAndEnqueue) (interrupt_thread R t))
         (ret (queued_response i q position)))"
      by (intro keeps_sound_rules interrupt_sound keeps_sound_quiet [OF quiet_ret])
    then show "hoare (\<lambda>s. ?P s \<and> enqueue queued (case map_of (rm_threadQueues s) t of None \<Rightarrow> [] | Some queue \<Rightarrow> queue) = x)
        (case x of (queue, position) \<Rightarrow>
         thenE (modify (\<lambda>s. s\<lparr>rm_threadQueues := map_put t queue (rm_threadQueues s)\<rparr>))
         (thenE (whenE (submission_of q = InterruptAndEnqueue) (interrupt_thread R t))
         (ret (queued_response i q position)))) (\<lambda>_. kept c) (\<lambda>_. base R)"
      unfolding x prod.case
      by (intro hoare_thenE [OF hoare_modify keeps_soundD])
         (rule enter_thread; auto simp: queued_def thread_entry_def assms queue_of_def)
  qed
  show ?thesis
    unfolding wait_for_thread_def
    by (rule hoare_thenE hoare_bindE step quiet_waits quiet_publishers resolver enter [unfolded queued_def])+
qed

lemma start_without_executor_sound:
  "hoare (\<lambda>s. kept c s \<and> fresh_id i s) (start_without_executor R q i codex) (\<lambda>_. kept c) (\<lambda>_. base R)"
  unfolding start_without_executor_def
proof (rule hoare_read)
  fix busy
  show "hoare (\<lambda>s. (kept c s \<and> fresh_id i s) \<and> busy_thread q s = busy)
      (case busy of
         Some t \<Rightarrow> wait_for_thread R q i t codex
       | None \<Rightarrow>
           with_stack (\<lambda>n. startExistingRun n R
             \<lparr>qr_id = i, qr_input = q, qr_runDir = run_dir R i, qr_persistent = False,
              qr_submissionSequence = None\<rparr>)) (\<lambda>_. kept c) (\<lambda>_. base R)"
  proof (cases busy)
    case None
    then show ?thesis
      by (simp, intro launch_fresh) (auto simp: busy_thread_def split: option.splits if_splits)
  next
    case (Some t)
    show ?thesis
    proof (cases "rb_threadId q = Some t")
      case True
      then show ?thesis
        unfolding Some option.case
        by (intro hoare_pre [OF wait_for_thread_sound]) (auto simp: busy_thread_def split: if_splits)
    next
      case False
      then show ?thesis by (auto simp: hoare_def Some busy_thread_def split: option.splits if_splits)
    qed
  qed
qed

lemma startRun_sound: "keeps_sound (startRun R input)"
proof -
  have step: "hoare (\<lambda>s. kept c s \<and> fresh_id i s)
      (case rb_threadId q of
         Some t \<Rightarrow>
           if uses_executor R q thread then start_with_executor R q i t (codex_of thread)
           else start_without_executor R q i (codex_of thread)
       | None \<Rightarrow> start_without_executor R q i (codex_of thread)) (\<lambda>_. kept c) (\<lambda>_. base R)" for c i q thread
    using start_without_executor_sound start_with_executor_sound [of _ q _ c i]
    by (auto simp: uses_executor_def split: option.splits)
  have trigger: "quiet (publish_trigger i q)" for q i
    unfolding publish_trigger_def by (auto intro!: quiet_rules split: option.splits)
  show ?thesis
    unfolding startRun_def keeps_sound_def
    by (intro allI; (rule hoare_bindE hoare_thenE hoare_quiet_inv insertInitialRun_fresh step
          hoare_quiet_fresh [OF trigger] quiet_resolveCreateRunInput | intro quiet_rules)+)
qed

text \<open>Steering moves a run to the front of its queue.\<close>

lemma front_persistent:
  assumes "kept c s" and "take_first p (rm_persistentQueue s) = Some (q, rest)"
  shows "kept c (s\<lparr>rm_persistentQueue := q # rest\<rparr>)"
proof -
  have eq: "s\<lparr>rm_persistentQueue := q # rest\<rparr> = with_queues (q # rest) (rm_threadQueues s) s"
    by (simp add: with_queues_def)
  note q = take_first_ids [OF assms(2)]
  have "queues_ok s" using assms(1) by (simp add: sound_def base_def)
  then have "queues_ok (with_queues (q # rest) (rm_threadQueues s) s)"
    using q by (auto simp: queues_ok_def with_queues_def)
  moreover have "live (with_queues (q # rest) (rm_threadQueues s) s) = live s"
    unfolding with_queues_live using q by (simp add: live_def)
  ultimately show ?thesis
    unfolding eq by (intro with_queues_inv [OF assms(1)]) auto
qed

lemma front_thread:
  assumes "kept c s" and "take_first p (queue_of t (rm_threadQueues s)) = Some (q, rest)"
  shows "kept c (s\<lparr>rm_threadQueues := map_put t (q # rest) (rm_threadQueues s)\<rparr>)"
proof -
  have eq: "s\<lparr>rm_threadQueues := map_put t (q # rest) (rm_threadQueues s)\<rparr> =
      with_queues (rm_persistentQueue s) (set_queue t (q # rest) (rm_threadQueues s)) s"
    by (simp add: with_queues_def set_queue_def)
  note q = take_first_ids [OF assms(2)]
  have ok: "queues_ok s" using assms(1) by (simp add: sound_def base_def)
  then have "queues_ok (with_queues (rm_persistentQueue s) (set_queue t (q # rest) (rm_threadQueues s)) s)"
    using q queue_entries [OF ok, of _ t] by (intro set_queue_ok) auto
  moreover have "live (with_queues (rm_persistentQueue s) (set_queue t (q # rest) (rm_threadQueues s)) s) = live s"
    unfolding with_queues_live using set_queue_ids [of "rm_threadQueues s" t "q # rest"] ok q
    by (simp add: live_def queues_ok_def)
  moreover have "map_of (rm_threadQueues s) t \<noteq> None"
    using q by (auto simp: queue_of_def split: option.splits)
  ultimately show ?thesis
    unfolding eq by (intro with_queues_inv [OF assms(1)]) (auto simp: set_queue_def)
qed

lemma steer_persistent_sound:
  "hoare (\<lambda>s. kept c s \<and> take_first p (rm_persistentQueue s) = Some (q, rest)) (steer_persistent R q rest)
     (\<lambda>_. kept c) (\<lambda>_. base R)"
proof -
  have "keeps_sound (thenE (case rb_threadId (qr_input q) of Some t \<Rightarrow> interrupt_thread R t | None \<Rightarrow> ret ())
      (thenE (with_stack (\<lambda>n. startNextPersistentRuns n R)) (ret True)))"
    by (intro keeps_sound_rules interrupt_sound startNext_sound keeps_sound_quiet [OF quiet_ret])
  then show ?thesis
    unfolding steer_persistent_def
    by (intro hoare_thenE [OF hoare_modify keeps_soundD]) (auto intro: front_persistent)
qed

lemma queue_with_place:
  assumes "kept c s" and "queue_with i s = Some (t, queue)"
  shows "queue_of t (rm_threadQueues s) = queue"
proof -
  have "keys_distinct (rm_threadQueues s)" using assms(1) by (simp add: sound_def base_def queues_ok_def)
  moreover have "(t, queue) \<in> set (rm_threadQueues s)"
    using assms(2) by (auto simp: queue_with_def first_where_def find_Some_iff)
  ultimately show ?thesis by (simp add: keys_distinct_def queue_of_def)
qed

lemma steer_thread_sound:
  "hoare (\<lambda>s. kept c s \<and> queue_with i s = Some (t, queue)) (steer_thread R i t queue) (\<lambda>_. kept c) (\<lambda>_. base R)"
proof -
  have after: "keeps_sound (thenE (interrupt_thread R t) (ret True))"
    by (intro keeps_sound_rules interrupt_sound keeps_sound_quiet [OF quiet_ret])
  show ?thesis
    unfolding steer_thread_def
    by (auto intro!: hoare_ret hoare_thenE [OF hoare_modify keeps_soundD [OF after]] front_thread
        simp: queue_with_place split: option.splits)
qed

lemma steerRun_sound: "keeps_sound (steerRun R i)"
proof -
  have place: "hoare (\<lambda>s. kept c s \<and> queue_with i s = place)
      (case place of None \<Rightarrow> ret False | Some (t, queue) \<Rightarrow> steer_thread R i t queue) (\<lambda>_. kept c) (\<lambda>_. base R)" for c place
    using steer_thread_sound by (auto intro: hoare_ret split: option.splits)
  have threads: "keeps_sound (bindE (gets (queue_with i)) (\<lambda>place.
      case place of None \<Rightarrow> ret False | Some (t, queue) \<Rightarrow> steer_thread R i t queue))"
    unfolding keeps_sound_def by (intro allI hoare_read place)
  have found: "hoare (\<lambda>s. kept c s \<and> take_first (\<lambda>q. qr_id q = i) (rm_persistentQueue s) = found)
      (case found of
         Some (q, rest) \<Rightarrow> steer_persistent R q rest
       | None \<Rightarrow> bindE (gets (queue_with i)) (\<lambda>place.
           case place of None \<Rightarrow> ret False | Some (t, queue) \<Rightarrow> steer_thread R i t queue)) (\<lambda>_. kept c) (\<lambda>_. base R)"
    for c found
  proof (cases found)
    case None
    then show ?thesis using keeps_soundD [OF threads] by (simp add: hoare_def)
  next
    case (Some p)
    then show ?thesis using steer_persistent_sound by (cases p) simp
  qed
  show ?thesis
    unfolding steerRun_def keeps_sound_def by (intro allI hoare_read found)
qed

text \<open>What the process of an active run does\<close>

definition active_entry :: "run_id \<Rightarrow> active_run \<Rightarrow> claim_view" where
  "active_entry i a = (i, rb_threadId (ar_input a), ar_persistent a)"

lemma entry_of_active: "map_of (rm_active s) i = Some a \<Longrightarrow> active_entry i a \<in> set (active_view s)"
  by (force simp: active_view_def active_entry_def dest: map_of_SomeD)

lemma one_place_view:
  assumes "one_place s"
  shows "distinct (map fst (active_view s))"
proof -
  have "count (mset (map fst (active_view s))) j \<le> count (live s) j" for j by (simp add: live_def)
  then show ?thesis using assms by (intro count_distinct) (metis one_place_def order_trans)
qed

lemma view_unique:
  assumes "one_place s" and "(i, t, p) \<in> set (active_view s)" and "(i, u, b) \<in> set (active_view s)"
  shows "u = t \<and> b = p"
  using one_place_view [OF assms(1)] assms(2,3) by (metis eq_key_imp_eq_value prod.inject)

lemma keeps_entry:
  "quiet m \<Longrightarrow> hoare (\<lambda>s. kept c s \<and> e \<in> set (active_view s)) m (\<lambda>_ s. kept c s \<and> e \<in> set (active_view s)) (\<lambda>_. base R)"
  by (rule hoare_quiet, assumption, intro stable_rules) (blast dest: sound_base)

lemma replace_input_sound:
  assumes "rb_threadId input = rb_threadId (ar_input a)"
    and "\<And>b. ar_input (f b) = input \<and> ar_persistent (f b) = ar_persistent b"
  shows "hoare (\<lambda>s. kept c s \<and> active_entry i a \<in> set (active_view s)) (update_active i f)
    (\<lambda>_. kept c) (\<lambda>_. base R)"
  unfolding update_active_def
proof (rule hoare_modify)
  fix s assume s: "kept c s \<and> active_entry i a \<in> set (active_view s)"
  then have one: "one_place s" by (simp add: sound_def base_def)
  have "(j, rb_threadId (ar_input (if j = i then f b else b)), ar_persistent (if j = i then f b else b)) =
      (j, rb_threadId (ar_input b), ar_persistent b)" if "(j, b) \<in> set (rm_active s)" for j b
  proof (cases "j = i")
    case True
    have "(i, rb_threadId (ar_input b), ar_persistent b) \<in> set (active_view s)"
      using that True by (force simp: active_view_def)
    then have "rb_threadId (ar_input b) = rb_threadId (ar_input a)"
      using view_unique [OF one] s by (auto simp: active_entry_def)
    then show ?thesis by (simp add: True assms)
  qed simp
  then have "active_view (s\<lparr>rm_active := map (\<lambda>(j, a). (j, if j = i then f a else a)) (rm_active s)\<rparr>) = active_view s"
    by (auto simp: active_view_def)
  then have "same_memory s (s\<lparr>rm_active := map (\<lambda>(j, a). (j, if j = i then f a else a)) (rm_active s)\<rparr>)"
    by (simp add: same_memory_def)
  with s show "kept c (s\<lparr>rm_active := map (\<lambda>(j, a). (j, if j = i then f a else a)) (rm_active s)\<rparr>)"
    by (blast intro: sound_same)
qed

lemma rotate_run_sound:
  "hoare (\<lambda>s. kept c s \<and> active_entry i a \<in> set (active_view s)) (rotate_run R i a) (\<lambda>_. kept c) (\<lambda>_. base R)"
proof -
  have prepare: "hoare (\<lambda>s. kept c s \<and> active_entry i a \<in> set (active_view s))
      (prepareRotationRunInput R i (ar_input a) seq)
      (\<lambda>r s. (kept c s \<and> active_entry i a \<in> set (active_view s)) \<and> rb_threadId (fst r) = rb_threadId (ar_input a))
      (\<lambda>_. base R)" for seq
    by (intro hoare_both keeps_entry quiet_prepareRotation prepare_thread)
  have rest: "hoare (\<lambda>s. (kept c s \<and> active_entry i a \<in> set (active_view s)) \<and> rb_threadId (fst r) = rb_threadId (ar_input a))
      (case r of (input, seq) \<Rightarrow>
      thenE (update_active i (\<lambda>b. b\<lparr>ar_input := input,
         ar_seq := (case seq of Some n \<Rightarrow> n | None \<Rightarrow> ar_seq b), ar_stdoutLines := [], ar_stderr := [],
         ar_sawTurnCompleted := False, ar_sawCodexThreadId := False, ar_established := False,
         ar_turnStarted := False\<rparr>))
      (thenE (setRunResumeMode i NewThread)
      (write_file R (ar_runDir a) ''meta.json''))) (\<lambda>_. kept c) (\<lambda>_. base R)" for r
    by (cases r; rule hoare_imp_pre; simp;
        intro hoare_thenE [OF replace_input_sound] hoare_thenE hoare_quiet_inv quiet_rules) auto
  show ?thesis
    unfolding rotate_run_def
    by (rule hoare_thenE [OF keeps_entry hoare_bindE [OF prepare rest]], intro quiet_rules) simp
qed

lemma process_report_sound:
  "hoare (\<lambda>s. kept c s \<and> active_entry i a \<in> set (active_view s)) (process_report R i a p n) (\<lambda>_. kept c) (\<lambda>_. base R)"
proof (cases "verdict_of a p")
  case Rotate
  then show ?thesis using rotate_run_sound by (simp add: process_report_def)
next
  case (Finish f)
  have "keeps_sound (process_report R i a p n)"
    unfolding process_report_def Finish verdict.case
    by (intro keeps_sound_quiet quiet_rules callback_rules)
  then show ?thesis by (blast intro: hoare_pre keeps_soundD)
qed

text \<open>The end of a run\<close>

lemma deactivate:
  assumes "kept c s" and "(i, t, p) \<in> set (active_view s)"
  shows "sound R c {} {(i, t, p)} (s\<lparr>rm_active := map_del i (rm_active s)\<rparr>)"
    and "i \<notin> fst ` set (active_view (s\<lparr>rm_active := map_del i (rm_active s)\<rparr>))"
proof -
  let ?s = "s\<lparr>rm_active := map_del i (rm_active s)\<rparr>"
  have one: "one_place s" using assms(1) by (simp add: sound_def base_def)
  have view: "active_view ?s = filter (\<lambda>v. fst v \<noteq> i) (active_view s)"
    by (simp add: active_view_def map_del_def filter_map o_def case_prod_beta)
  then show "i \<notin> fst ` set (active_view ?s)" by auto
  have "mset (map fst (active_view ?s)) \<subseteq># mset (map fst (active_view s))"
    unfolding view by (simp add: image_mset_subseteq_mono multiset_filter_subset)
  then have "live ?s \<subseteq># live s" by (simp add: live_def)
  then have count: "count (live ?s) j \<le> count (live s) j" and set: "set_mset (live ?s) \<subseteq> set_mset (live s)" for j
    by (simp_all add: mset_subset_eq_count set_mset_mono)
  have "count (live ?s) j \<le> 1" for j using one count [of j] by (metis one_place_def order_trans)
  moreover have "used ?s = used s" by (simp add: used_def)
  ultimately have "one_place ?s" using one set unfolding one_place_def by auto
  moreover have "claims_ok R ?s"
    using assms(1) by (auto simp: sound_def base_def claims_ok_def view)
  moreover have "backed {(i, t, p)} ?s" if "backed {} s"
  proof -
    have "v \<in> set (active_view ?s) \<union> {(i, t, p)}" if "v \<in> set (active_view s)" for v
    proof (cases v)
      case (fields j u b)
      then show ?thesis using that view_unique [OF one assms(2), of u b] by (cases "j = i") (auto simp: view)
    qed
    then show ?thesis
      using that unfolding backed_def by (simp del: Un_insert_right) blast
  qed
  ultimately show "sound R c {} {(i, t, p)} ?s"
    using assms(1) by (simp add: sound_def base_def queues_ok_def in_front_def)
qed

lemma finish_run_sound:
  "hoare (\<lambda>s. kept c s \<and> active_entry i a \<in> set (active_view s)) (finish_run R i a f) (\<lambda>_. kept c) (\<lambda>_. base R)"
proof -
  let ?t = "rb_threadId (ar_input a)"
  let ?gone = "\<lambda>s. sound R c {} {active_entry i a} s \<and> i \<notin> fst ` set (active_view s)"
  have delete: "hoare (\<lambda>s. kept c s \<and> active_entry i a \<in> set (active_view s))
      (modify (\<lambda>s. s\<lparr>rm_active := map_del i (rm_active s)\<rparr>)) (\<lambda>_. ?gone) (\<lambda>_. base R)"
    unfolding active_entry_def by (rule hoare_modify, intro conjI; elim conjE) (rule deactivate; assumption)+
  have "stable ?gone" by (intro stable_rules) (simp add: stable_def same_memory_def)
  then have gone: "quiet m \<Longrightarrow> hoare ?gone m (\<lambda>_. ?gone) (\<lambda>_. base R)" for m :: "('fs, 'x, unit) rio"
    by (rule hoare_quiet [rotated]) (auto dest: sound_base)
  have complete: "hoare ?gone (with_stack (\<lambda>n. completeThreadRun n R ?t i)) (\<lambda>_. kept c) (\<lambda>_. base R)"
    unfolding active_entry_def by (intro hoare_with_stack completeThreadRun_inv)
  show ?thesis
    unfolding finish_run_def
    by (rule hoare_thenE [OF keeps_entry] hoare_bindE [OF keeps_entry] hoare_thenE [OF delete] hoare_thenE [OF gone]
          hoare_thenE [OF complete] hoare_quiet_inv quiet_notify | intro quiet_rules)+
qed

lemma process_events_sound:
  "keeps_sound (thread_started R i a c)" "keeps_sound (stdout_line i l b parsed)"
  "keeps_sound (notification i l ts tc kind payload)" "keeps_sound (stderr_chunk i l)"
  "keeps_sound (finish_queued_cancel R q t)"
  by (intro keeps_sound_quiet quiet_thread_started quiet_stdout_line quiet_notification quiet_stderr_chunk)+
     (auto simp: finish_queued_cancel_def writeQueuedCancelDiagnostics_def same_memory_def active_view_def
       intro!: keeps_sound_quiet quiet_rules quiet_modify)

lemma quiet_repair: "op_threads R = Some T \<Longrightarrow> ta_repairCodexThreadBindings T = Some repair \<Longrightarrow> quiet repair"
  using quiet_threads.quiet_repair quiet_access by blast

lemma quiet_createRunManager: "quiet (createRunManager R)"
  unfolding createRunManager_def recoverOrphanedRuns_def recoverOrphanedRun_def Let_def
  by (auto intro!: quiet_rules quiet_notify dest: quiet_repair split: option.splits)

end

section \<open>Everything that can happen\<close>

fun error_of :: "err + 'a \<Rightarrow> err option" where
  "error_of (Inl e) = Some e"
| "error_of (Inr _) = None"

text \<open>What the rest of the daemon does: files, the other tables, the clock, random ids\<close>

definition elsewhere :: "('fs, 'x) run_state_scheme \<Rightarrow> ('fs, 'x) run_state_scheme \<Rightarrow> bool" where
  "elsewhere s s' \<longleftrightarrow>
     rm_active s' = rm_active s \<and> rm_threadQueues s' = rm_threadQueues s \<and>
     rm_persistentQueue s' = rm_persistentQueue s \<and> rm_runningThread s' = rm_runningThread s \<and>
     rm_runningPersistent s' = rm_runningPersistent s \<and> rm_closing s' = rm_closing s \<and>
     rt_ids s' = rt_ids s \<and> rt_nextId s \<le> rt_nextId s'"

text \<open>One event, with the error that leaves it\<close>

inductive run_step ::
  "('fs, 'x) run_options \<Rightarrow> ('fs, 'x) run_state_scheme \<Rightarrow> err option \<Rightarrow> ('fs, 'x) run_state_scheme \<Rightarrow> bool"
  for R where
  step_start: "startRun R q s = (r, s') \<Longrightarrow> run_step R s (error_of r) s'"
| step_cancel: "cancelRun R i s = (r, s') \<Longrightarrow> run_step R s (error_of r) s'"
| step_steer: "steerRun R i s = (r, s') \<Longrightarrow> run_step R s (error_of r) s'"
| step_cancelAll: "cancelAll R s = (r, s') \<Longrightarrow> run_step R s (error_of r) s'"
| step_close: "close_manager R s = (r, s') \<Longrightarrow> run_step R s (error_of r) s'"
| step_started:
    "map_of (rm_active s) i = Some a \<Longrightarrow> ar_finishing a = None \<Longrightarrow>
     thread_started R i a codex s = (r, s') \<Longrightarrow> run_step R s (error_of r) s'"
| step_line:
    "map_of (rm_active s) i = Some a \<Longrightarrow> ar_finishing a = None \<Longrightarrow>
     stdout_line i l tc parsed s = (r, s') \<Longrightarrow> run_step R s (error_of r) s'"
| step_notification:
    "map_of (rm_active s) i = Some a \<Longrightarrow> ar_finishing a = None \<Longrightarrow>
     notification i l ts tc kind payload s = (r, s') \<Longrightarrow> run_step R s (error_of r) s'"
| step_stderr:
    "map_of (rm_active s) i = Some a \<Longrightarrow> ar_finishing a = None \<Longrightarrow>
     stderr_chunk i l s = (r, s') \<Longrightarrow> run_step R s (error_of r) s'"
| step_report:
    "map_of (rm_active s) i = Some a \<Longrightarrow> ar_finishing a = None \<Longrightarrow>
     process_report R i a p failures s = (r, s') \<Longrightarrow> run_step R s (error_of r) s'"
| step_finish:
    "map_of (rm_active s) i = Some a \<Longrightarrow> ar_finishing a = Some f \<Longrightarrow>
     finish_run R i a f s = (r, s') \<Longrightarrow> run_step R s (error_of r) s'"
| step_finish_cancel:
    "(q, t) \<in> set (rm_canceling s) \<Longrightarrow> finish_queued_cancel R q t s = (r, s') \<Longrightarrow>
     run_step R s (error_of r) s'"
| step_elsewhere: "elsewhere s s' \<Longrightarrow> run_step R s None s'"

text \<open>
  The states of the manager since its start; the Boolean says that no event has raised so far.
  \<open>inj\<close>: \<^verbatim>\<open>nanoid\<close> does not repeat itself.
\<close>

inductive run_history :: "('fs, 'x) run_options \<Rightarrow> bool \<Rightarrow> ('fs, 'x) run_state_scheme \<Rightarrow> bool" for R where
  history_start:
    "fresh_manager s0 \<Longrightarrow> inj (rt_ids s0) \<Longrightarrow> createRunManager R s0 = (Inr (), s) \<Longrightarrow> run_history R True s"
| history_step:
    "run_history R c s \<Longrightarrow> run_step R s e s' \<Longrightarrow> run_history R (c \<and> e = None) s'"

lemma fresh_sound: "fresh_manager s \<Longrightarrow> inj (rt_ids s) \<Longrightarrow> sound R c {} {} s"
  by (auto simp: sound_def base_def one_place_def queues_ok_def claims_ok_def backed_def in_front_def
      fresh_manager_def live_def active_view_def)

context run_callbacks begin

lemma kept_result:
  assumes "hoare P m (\<lambda>_. kept c) (\<lambda>_. base R)" and "P s" and "m s = (r, s')"
  shows "kept (c \<and> error_of r = None) s'"
  using hoareD [OF assms(1,2)] hoareD_error [OF assms(1,2)] assms(3)
  by (cases r) (auto simp: sound_def)

lemma step_sound:
  assumes "run_step R s e s'" and s: "kept c s"
  shows "kept (c \<and> e = None) s'"
  using assms(1)
proof cases
  case (step_start q r)
  then show ?thesis using kept_result [OF keeps_soundD [OF startRun_sound] s] by simp
next
  case (step_cancel i r)
  then show ?thesis using kept_result [OF keeps_soundD [OF cancelRun_sound] s] by simp
next
  case (step_steer i r)
  then show ?thesis using kept_result [OF keeps_soundD [OF steerRun_sound] s] by simp
next
  case (step_cancelAll r)
  then show ?thesis using kept_result [OF keeps_soundD [OF cancelAll_sound] s] by simp
next
  case (step_close r)
  then show ?thesis using kept_result [OF keeps_soundD [OF close_manager_sound] s] by simp
next
  case (step_started i a codex r)
  then show ?thesis using kept_result [OF keeps_soundD [OF process_events_sound(1)] s] by simp
next
  case (step_line i a l tc parsed r)
  then show ?thesis using kept_result [OF keeps_soundD [OF process_events_sound(2)] s] by simp
next
  case (step_notification i a l ts tc kind payload r)
  then show ?thesis using kept_result [OF keeps_soundD [OF process_events_sound(3)] s] by simp
next
  case (step_stderr i a l r)
  then show ?thesis using kept_result [OF keeps_soundD [OF process_events_sound(4)] s] by simp
next
  case (step_report i a p failures r)
  then show ?thesis using kept_result [OF process_report_sound] s entry_of_active by blast
next
  case (step_finish i a f r)
  then show ?thesis using kept_result [OF finish_run_sound] s entry_of_active by blast
next
  case (step_finish_cancel q t r)
  then show ?thesis using kept_result [OF keeps_soundD [OF process_events_sound(5)] s] by simp
next
  case step_elsewhere
  then have "same_memory s s'" by (simp add: elsewhere_def same_memory_def active_view_def)
  with s have "kept c s'" by (rule sound_same)
  then show ?thesis by (auto simp: sound_def)
qed

lemma history_sound: "run_history R c s \<Longrightarrow> kept c s"
proof (induction rule: run_history.induct)
  case (history_start s0 s)
  then have "same_memory s0 s" using quietD [OF quiet_createRunManager] by blast
  with fresh_sound history_start(1,2) show ?case by (blast intro: sound_same)
next
  case (history_step c s e s')
  then show ?case using step_sound by blast
qed

text \<open>What the invariants say\<close>

lemma one_run_per_thread:
  assumes "run_history R c s" and "map_of (rm_active s) i = Some a" and "map_of (rm_active s) j = Some b"
    and "rb_threadId (ar_input a) = Some t" and "rb_threadId (ar_input b) = Some t"
  shows "i = j"
proof -
  have "claims_ok R s" using history_sound [OF assms(1)] by (simp add: sound_def base_def)
  then have front: "(k, Some t, p) \<in> set (active_view s) \<Longrightarrow> map_of (rm_runningThread s) t = Some k" for k p
    by (auto simp: claims_ok_def)
  have "map_of (rm_runningThread s) t = Some i"
    by (rule front) (use entry_of_active [OF assms(2)] assms(4) in \<open>simp add: active_entry_def\<close>)
  moreover have "map_of (rm_runningThread s) t = Some j"
    by (rule front) (use entry_of_active [OF assms(3)] assms(5) in \<open>simp add: active_entry_def\<close>)
  ultimately show ?thesis by simp
qed

lemma executor_bound:
  assumes "run_history R c s"
  shows "length (filter (\<lambda>(i, a). ar_persistent a) (rm_active s)) \<le> places R"
proof -
  have claims: "claims_ok R s" and one: "one_place s"
    using history_sound [OF assms] by (simp_all add: sound_def base_def)
  let ?ids = "map fst (filter (\<lambda>(i, a). ar_persistent a) (rm_active s))"
  have "map fst (rm_active s) = map fst (active_view s)" by (simp add: active_view_def case_prod_beta o_def)
  then have "distinct (map fst (rm_active s))" using one_place_view [OF one] by simp
  then have "distinct ?ids" by (rule distinct_map_filter)
  moreover have "set ?ids \<subseteq> set (rm_runningPersistent s)"
    using claims by (force simp: claims_ok_def active_view_def)
  ultimately have "length ?ids \<le> length (rm_runningPersistent s)"
    by (metis card_mono distinct_card finite_set claims claims_ok_def)
  then show ?thesis using claims by (simp add: claims_ok_def)
qed

lemma waiting_behind_active:
  assumes "run_history R True s" and "\<not> rm_closing s" and "map_of (rm_threadQueues s) t = Some queue"
  shows "\<exists>i a. map_of (rm_runningThread s) t = Some i \<and> map_of (rm_active s) i = Some a \<and>
           rb_threadId (ar_input a) = Some t"
proof -
  have "backed {} s" "in_front {} s" "one_place s"
    using history_sound [OF assms(1)] by (simp_all add: sound_def base_def)
  with assms(2,3) obtain i p where i: "map_of (rm_runningThread s) t = Some i" "(i, Some t, p) \<in> set (active_view s)"
    by (fastforce simp: backed_def in_front_def)
  then obtain a where a: "(i, a) \<in> set (rm_active s)" "rb_threadId (ar_input a) = Some t"
    by (auto simp: active_view_def)
  have "map fst (rm_active s) = map fst (active_view s)" by (simp add: active_view_def case_prod_beta o_def)
  then have "distinct (map fst (rm_active s))" using one_place_view [OF \<open>one_place s\<close>] by simp
  with a i show ?thesis by (auto intro: map_of_is_SomeI)
qed

end

end
