(* ===== verification/RunSurroundings.thy ===== *)
theory RunSurroundings
  imports RunSteps
begin

text \<open>
  What the run manager leaves alone: a property of the state that does not depend on the manager's
  own memory, the clock, the files and the tables of runs, events and threads. If the callbacks of
  the manager keep such a property then so does every operation of the manager.

  The locale \<open>outside_property\<close> says what these properties have in common; a property of the fields
  that extend the manager's state is one, and so is that the tables of the scheduler did not change.
\<close>

section \<open>Properties of the surroundings\<close>

definition outside_same :: "('fs, 'x) run_state_scheme \<Rightarrow> ('fs, 'x) run_state_scheme \<Rightarrow> bool" where
  "outside_same s s' \<longleftrightarrow>
     run_state.more s' = run_state.more s \<and> db_schedules (rt_db s') = db_schedules (rt_db s) \<and>
     db_operations (rt_db s') = db_operations (rt_db s) \<and> rt_ids s' = rt_ids s \<and> rt_nextId s \<le> rt_nextId s' \<and>
     (db_ok (rt_db s) \<longrightarrow> db_ok (rt_db s'))"

named_theorems more_rules

lemmas [more_rules] =
  keeps_ret keeps_throw keeps_gets keeps_liftE keeps_someE keeps_guardE keeps_bindE keeps_thenE
  keeps_whenE keeps_catchE keeps_forE keeps_if

lemma keeps_option [more_rules]:
  "(x = None \<Longrightarrow> keeps P m) \<Longrightarrow> (\<And>a. x = Some a \<Longrightarrow> keeps P (f a)) \<Longrightarrow>
   keeps P (case x of None \<Rightarrow> m | Some a \<Rightarrow> f a)"
  by (cases x) auto

lemma keeps_prod [more_rules]: "(\<And>a b. p = (a, b) \<Longrightarrow> keeps P (f a b)) \<Longrightarrow> keeps P (case p of (a, b) \<Rightarrow> f a b)"
  by (cases p) auto

lemma keeps_sum [more_rules]:
  "(\<And>a. x = Inl a \<Longrightarrow> keeps P (f a)) \<Longrightarrow> (\<And>b. x = Inr b \<Longrightarrow> keeps P (g b)) \<Longrightarrow>
   keeps P (case x of Inl a \<Rightarrow> f a | Inr b \<Rightarrow> g b)"
  by (cases x) auto

lemma keeps_with_stack [more_rules]: "(\<And>n. keeps P (m n)) \<Longrightarrow> keeps P (with_stack m)"
  by (simp add: keeps_def with_stack_def)

lemma keeps_swallow [more_rules]: "keeps P m \<Longrightarrow> keeps P (swallow m)"
  unfolding swallow_def by (intro more_rules)

locale outside_property =
  fixes P :: "('fs, 'x) run_state_scheme \<Rightarrow> bool"
  assumes same: "P s \<Longrightarrow> outside_same s s' \<Longrightarrow> P s'"
    and restored: "P s \<Longrightarrow> P s' \<Longrightarrow> P (s'\<lparr>rt_db := rt_db s\<rparr>)"

context outside_property begin

lemma more_modify: "(\<And>s. outside_same s (f s)) \<Longrightarrow> keeps P (modify f)"
  using same by (auto intro: keeps_modify)

lemma more_write_db:
  "(\<And>d. db_schedules (f d) = db_schedules d \<and> db_operations (f d) = db_operations d) \<Longrightarrow> keeps P (write_db f)"
  using same by (auto simp: keeps_def write_db_def outside_same_def db_ok_def split: option.splits)

lemma more_io [more_rules]:
  "keeps P (read_db q)" "keeps P (write_fs g)" "keeps P (read_fs h)" "keeps P date_now" "keeps P sql_now"
  "keeps P nanoid"
proof -
  show "keeps P (read_db q)" unfolding read_db_def by (intro more_rules)
  show "keeps P (write_fs g)" "keeps P (read_fs h)" "keeps P nanoid"
    using same by (auto simp: keeps_def write_fs_def read_fs_def nanoid_def outside_same_def split: sum.splits)
  show now: "keeps P date_now" using same by (auto simp: keeps_def date_now_def outside_same_def)
  show "keeps P sql_now" unfolding sql_now_def by (intro more_rules now)
qed

lemma more_transaction [more_rules]: "keeps P m \<Longrightarrow> keeps P (db_transaction m)"
  unfolding db_transaction_def by (rule keeps_transactE) (simp_all add: restored)

lemma more_statements [more_rules]:
  "keeps P (insertRun row)" "keeps P (updateRunStatus i u)" "keeps P (setRunCodexThreadId i c)"
  "keeps P (setRunResumeMode i mode)" "keeps P (setRunQueueState i q)" "keeps P (insertRunEvent e)"
  "keeps P (write_file R dir name)" "keeps P (setThreadCodexId i codex)"
  unfolding insertRun_def updateRunStatus_def setRunCodexThreadId_def setRunResumeMode_def
    setRunQueueState_def insertRunEvent_def write_file_def setThreadCodexId_def
  by (intro more_rules more_write_db; simp add: update_run_def update_threads_def)+

lemma more_publish [more_rules]: "keeps P (publish e)"
  unfolding publish_def by (intro more_rules more_modify) (simp add: outside_same_def)

lemma more_publishers [more_rules]:
  "keeps P (publish_now i n k p)" "keeps P (publishStatus i n l t c)"
  "keeps P (publishScheduleTrigger i n pt tm)" "keeps P (publishDiagnostic i n code m d)"
  "keeps P (publishError i n code m)" "keeps P (publishDone i n st r)" "keeps P (nextSeqForRun i)"
  unfolding publish_now_def publishStatus_def publishScheduleTrigger_def publishDiagnostic_def
    publishError_def publishDone_def nextSeqForRun_def
  by (intro more_rules)+

lemma more_publish_notice [more_rules]: "keeps P (publish_notice i n x)"
  by (cases x) (auto simp: publish_notice_def intro: more_rules)

lemma more_memory [more_rules]:
  "keeps P (update_active i f)" "keeps P (resolveRunCompletion c)"
  unfolding update_active_def resolveRunCompletion_def
  by (intro more_modify; simp add: outside_same_def)+

lemma more_small [more_rules]:
  "keeps P (bump_seq i)" "keeps P (waits i)"
  "keeps P (begin_finish i f n)" "keeps P (publish_trigger i q)"
  unfolding bump_seq_def waits_def begin_finish_def publish_seq_def publish_trigger_def
  by (intro more_rules; simp)+

end

section \<open>The run manager keeps them\<close>

locale callbacks_keep = outside_property P for P :: "('fs, 'x) run_state_scheme \<Rightarrow> bool" +
  fixes R :: "('fs, 'x) run_options"
  assumes more_access: "op_threads R = Some T \<Longrightarrow>
      (\<forall>check i. ta_assertRunnableThread T = Some check \<longrightarrow> keeps P (check i)) \<and>
      (\<forall>i c. keeps P (ta_setCodexThreadId T i c)) \<and>
      (\<forall>repair. ta_repairCodexThreadBindings T = Some repair \<longrightarrow> keeps P repair)"
    and more_prepare: "op_prepareRotation R = Some prepare \<Longrightarrow> keeps P (prepare p t)"
    and more_context: "keeps P (op_recordContext R i items)"
    and more_terminal: "keeps P (op_onRunTerminal R i)"
    and more_approvals: "keeps P (op_cancelApprovals R i reason)"

context callbacks_keep begin

lemmas more_callbacks = more_context more_terminal more_approvals more_prepare

lemma more_notify: "keeps P (notifyRunTerminal R i)"
  unfolding notifyRunTerminal_def by (intro more_rules more_callbacks)

lemma more_prepareRotation: "keeps P (prepareRotationRunInput R i q seq)"
proof -
  have "keeps P (context_unavailable R i seq)"
    unfolding context_unavailable_def by (intro more_rules)
  then show ?thesis
    unfolding prepareRotationRunInput_def Let_def
    by (auto intro!: more_rules more_callbacks split: option.splits prod.splits)
qed

lemma more_launch_parts:
  "keeps P (plan_launch R q)" "keeps P (failRunBeforeSpawn R q code message)" "keeps P (spawn R q p)"
proof -
  show "keeps P (plan_launch R q)"
    unfolding plan_launch_def Let_def by (auto intro!: more_rules more_prepareRotation split: prod.splits)
  show "keeps P (failRunBeforeSpawn R q code message)"
    unfolding failRunBeforeSpawn_def Let_def by (intro more_rules more_notify)
  show "keeps P (spawn R q p)"
    unfolding spawn_def Let_def by (intro more_rules more_modify; simp add: outside_same_def)
qed

lemma more_try_launch: "keeps P (try_launch R q)"
  unfolding try_launch_def Let_def
  by (intro more_rules more_launch_parts more_modify; simp add: claim_def outside_same_def)

lemma more_next:
  assumes "\<And>s q s'. next_run s = Some (q, s') \<Longrightarrow> outside_same s s'" and "\<And>q. keeps P (m q)"
  shows "keeps P (\<lambda>s. case next_run s of None \<Rightarrow> (Inr (), s) | Some (q, s') \<Rightarrow> m q s')"
  using assms same unfolding keeps_def by (auto split: option.splits)

lemma next_more:
  "next_persistent R s = Some (q, s') \<Longrightarrow> outside_same s s'"
  "next_of_thread t s = Some (q, s') \<Longrightarrow> outside_same s s'"
  by (auto simp: next_persistent_def next_of_thread_def outside_same_def split: option.splits if_splits list.splits)

lemma more_launch:
  "keeps P (startExistingRun n R q)" "keeps P (completeThreadRun n R t i)"
  "keeps P (startNextPersistentRuns n R)" "keeps P (startNextQueuedThreadRun n R u)"
proof (induction n arbitrary: q t i u)
  case 0
  { case 1 show ?case by (simp add: more_rules) }
  { case 2 show ?case by (simp add: more_rules) }
  { case 3 show ?case by (simp add: more_rules) }
  { case 4 show ?case by (simp add: more_rules) }
next
  case (Suc n)
  { case 1 show ?case
      unfolding startExistingRun.simps by (intro more_rules more_try_launch more_launch_parts Suc.IH) }
  { case 2 show ?case
      unfolding completeThreadRun.simps by (intro more_rules more_modify Suc.IH) (simp add: release_def outside_same_def) }
  { case 3 show ?case
      unfolding startNextPersistentRuns.simps by (intro more_next more_rules Suc.IH next_more) }
  { case 4 show ?case
      unfolding startNextQueuedThreadRun.simps by (intro more_next more_rules Suc.IH next_more) }
qed

lemma more_removeQueuedRun: "keeps P (removeQueuedRun i)"
  using same by (auto simp: keeps_def removeQueuedRun_def outside_same_def split: option.splits prod.splits)

lemma more_cancelRun: "keeps P (cancelRun R i)"
  unfolding cancelRun_def cancel_active_def cancel_queued_def Let_def writeQueuedCancelDiagnostics_def
  by (intro more_rules more_callbacks more_notify more_launch more_removeQueuedRun more_modify)
    (simp_all add: outside_same_def)

lemma more_interrupt: "keeps P (interrupt_thread R t)"
  unfolding interrupt_thread_def by (intro more_rules more_cancelRun)

lemma more_cancelAll: "keeps P (cancelAll R)" and more_close: "keeps P (close_manager R)"
proof -
  show all: "keeps P (cancelAll R)"
    unfolding cancelAll_def cancel_each_def by (intro more_rules more_cancelRun)
  show "keeps P (close_manager R)"
    unfolding close_manager_def by (intro more_rules all more_modify) (simp add: outside_same_def)
qed

lemma more_startRun: "keeps P (startRun R input)"
proof -
  have runnable: "keeps P (runnable_thread T i)" if T: "op_threads R = Some T" for T i
    unfolding runnable_thread_def
    by (cases "ta_assertRunnableThread T"; simp; intro more_rules; use more_access [OF T] in blast)
  have normalized: "keeps P (normalized_input q)" for q
    unfolding normalized_input_def by (intro more_rules)
  have resolve: "keeps P (resolveCreateRunInput R input)"
    unfolding resolveCreateRunInput_def
    by (auto intro!: more_rules normalized runnable split: option.splits prod.splits)
  have insert: "keeps P (insertInitialRun R q mode codex)" for q mode codex
    unfolding insertInitialRun_def Let_def by (intro more_rules more_callbacks)
  have start: "keeps P (start_with_executor R q i t codex)" "keeps P (start_without_executor R q i codex)" for q i t codex
    unfolding start_with_executor_def start_without_executor_def wait_for_thread_def Let_def
    by (intro more_rules more_launch more_interrupt more_modify; simp add: outside_same_def)+
  show ?thesis
    unfolding startRun_def by (intro more_rules resolve insert start)
qed

lemma more_steerRun: "keeps P (steerRun R i)"
  unfolding steerRun_def steer_persistent_def steer_thread_def
  by (intro more_rules more_launch more_interrupt more_modify; simp add: outside_same_def)

lemma more_process:
  "keeps P (thread_started R i a c)" "keeps P (stdout_line i l b parsed)"
  "keeps P (notification i l ts tc kind payload)" "keeps P (stderr_chunk i l)"
  "keeps P (process_report R i a p n)" "keeps P (finish_queued_cancel R q t)"
proof -
  have bind: "keeps P (bindStartedCodexThread R i a c)"
    unfolding bindStartedCodexThread_def using more_access
    by (auto intro!: more_rules split: option.splits)
  have announce: "keeps P (announceRotation R i a c)"
    unfolding announceRotation_def by (intro more_rules)
  show "keeps P (thread_started R i a c)"
    unfolding thread_started_def by (intro more_rules bind announce)
  show "keeps P (stdout_line i l b parsed)" "keeps P (notification i l ts tc kind payload)"
    "keeps P (stderr_chunk i l)"
    unfolding stdout_line_def notification_def stderr_chunk_def by (intro more_rules)+
  have rotate: "keeps P (rotate_run R i a)"
    unfolding rotate_run_def by (intro more_rules more_prepareRotation)
  show "keeps P (process_report R i a p n)"
    unfolding process_report_def
    by (cases "verdict_of a p") (auto intro!: more_rules rotate more_callbacks)
  show "keeps P (finish_queued_cancel R q t)"
    unfolding finish_queued_cancel_def writeQueuedCancelDiagnostics_def
    by (intro more_rules more_modify) (simp add: outside_same_def)
qed

lemma more_after_terminal:
  "keeps P (thenE (modify (\<lambda>s. s\<lparr>rm_active := map_del i (rm_active s)\<rparr>))
      (thenE (whenE b (setRunQueueState i QNone))
      (thenE (with_stack (\<lambda>n. completeThreadRun n R t i)) (resolveRunCompletion c))))"
  by (intro more_rules more_launch more_modify) (simp add: outside_same_def)

lemma more_finish_run: "keeps P (finish_run R i a f)"
  unfolding finish_run_def by (intro more_rules more_notify more_after_terminal)

text \<open>Whatever happens, the property is kept, unless it is broken elsewhere.\<close>

lemma more_step:
  assumes "run_step R s e s'" and "P s" and "elsewhere s s' \<Longrightarrow> P s'"
  shows "P s'"
proof -
  have result: "keeps P m \<Longrightarrow> m s = (r, s') \<Longrightarrow> P s'" for m :: "('fs, 'x, 'b) rio" and r
    by (rule keeps_result [where P = P and s = s, OF _ assms(2)])
  note results = more_startRun [THEN result] more_cancelRun [THEN result] more_steerRun [THEN result]
    more_cancelAll [THEN result] more_close [THEN result] more_process [THEN result] more_finish_run [THEN result]
  from assms(1) show ?thesis by (cases rule: run_step.cases) (simp_all only: results assms(3))
qed

end

end
