(* ===== verification/RunLiveness.thy ===== *)
theory RunLiveness
  imports RunSteps
begin

text \<open>
  The launching functions without a stack (\<open>start_yields\<close> and its companions, rules that have no depth
  and no error of an exhausted stack) and their progress: every call has exactly one result, which the
  functions compute with what \<open>stack_for\<close> allows; launching only ever takes runs from the queues, and a
  run that ends hands its thread over.
\<close>

section \<open>Launching takes runs from the queues\<close>

definition waiting :: "('fs, 'x) run_state_scheme \<Rightarrow> run_id multiset" where
  "waiting s = queue_ids (rm_persistentQueue s) + thread_ids (rm_threadQueues s)"

definition active_set :: "('fs, 'x) run_state_scheme \<Rightarrow> run_id set" where
  "active_set s = fst ` set (rm_active s)"

text \<open>No run starts to wait, and those that become active have waited, or are in \<open>A\<close>.\<close>

definition draws :: "run_id set \<Rightarrow> ('fs, 'x) run_state_scheme \<Rightarrow> ('fs, 'x) run_state_scheme \<Rightarrow> bool" where
  "draws A s s' \<longleftrightarrow>
     waiting s' \<subseteq># waiting s \<and> active_set s' \<subseteq> active_set s \<union> set_mset (waiting s) \<union> A"

definition grows :: "run_id set \<Rightarrow> ('fs, 'x, 'a) rio \<Rightarrow> bool" where
  "grows A m \<longleftrightarrow> (\<forall>s. draws A s (snd (m s)))"

lemma size_queue_ids: "size (queue_ids qs) = length qs"
  by (simp add: queue_ids_def)

lemma queued_count_waiting: "queued_count s = size (waiting s)"
proof -
  have "sum_list (map (\<lambda>p. length (snd p)) m) = size (thread_ids m)" for m :: "(thread_id, queued_run list) assoc"
    by (induction m) (simp_all add: size_queue_ids)
  then show ?thesis by (simp add: queued_count_def waiting_def size_queue_ids)
qed

lemma draws_refl [simp]: "draws A s s"
  by (auto simp: draws_def)

lemma draws_mono: "draws A s s' \<Longrightarrow> A \<subseteq> B \<Longrightarrow> draws B s s'"
  by (auto simp: draws_def)

lemma draws_trans:
  assumes "draws A s s'" and "draws A s' s''"
  shows "draws A s s''"
proof -
  have "waiting s'' \<subseteq># waiting s" and w: "set_mset (waiting s') \<subseteq> set_mset (waiting s)"
    using assms by (auto simp: draws_def intro: subset_mset.order_trans dest: mset_subset_eqD)
  then show ?thesis using assms by (auto simp: draws_def)
qed

lemma draws_count: "draws A s s' \<Longrightarrow> queued_count s' \<le> queued_count s"
  by (simp add: draws_def queued_count_waiting size_mset_mono)

lemma same_memory_draws:
  assumes "same_memory s s'"
  shows "draws A s s'"
proof -
  have "active_set s' = active_set s"
    using assms unfolding active_set_def active_ids [symmetric] by (simp add: same_memory_def)
  moreover have "waiting s' = waiting s" using assms by (simp add: waiting_def same_memory_def)
  ultimately show ?thesis by (auto simp: draws_def)
qed

lemma growsD: "grows A m \<Longrightarrow> m s = (r, s') \<Longrightarrow> draws A s s'"
  by (metis grows_def snd_conv)

lemma grows_quiet: "quiet m \<Longrightarrow> grows A m"
  by (simp add: quiet_def grows_def same_memory_draws)

lemma grows_bindE:
  assumes "grows A m" and "\<And>a. grows A (f a)"
  shows "grows A (bindE m f)"
  unfolding grows_def
proof
  fix s
  obtain r s' where m: "m s = (r, s')" by fastforce
  then have s': "draws A s s'" using growsD [OF assms(1)] by blast
  have "draws A s (snd (f a s'))" for a
    using draws_trans [OF s'] assms(2) unfolding grows_def by blast
  with s' show "draws A s (snd (bindE m f s))" by (cases r) (simp_all add: bindE_def m)
qed

lemma grows_thenE: "grows A m \<Longrightarrow> grows A n \<Longrightarrow> grows A (thenE m n)"
  unfolding thenE_def by (rule grows_bindE)

lemma grows_ret: "grows A (ret a)" and grows_throw: "grows A (throw e)"
  by (simp_all add: grows_def run_simps)

lemma grows_option:
  "(x = None \<Longrightarrow> grows A m) \<Longrightarrow> (\<And>a. x = Some a \<Longrightarrow> grows A (f a)) \<Longrightarrow>
   grows A (case x of None \<Rightarrow> m | Some a \<Rightarrow> f a)"
  by (cases x) auto

lemma grows_modify: "(\<And>s. draws A s (f s)) \<Longrightarrow> grows A (modify f)"
  by (simp add: grows_def run_simps)

lemma grows_mono: "grows A m \<Longrightarrow> A \<subseteq> B \<Longrightarrow> grows B m"
  by (auto simp: grows_def intro: draws_mono)

lemma claim_draws: "draws A s (claim q s)" and release_draws: "draws A s (release t i s)"
  and activate_draws: "draws {i} s (s\<lparr>rm_active := map_put i a (rm_active s)\<rparr>)"
  by (auto simp: draws_def waiting_def active_set_def claim_def release_def)

text \<open>The next run is taken from the queues.\<close>

lemma next_persistent_waiting:
  assumes "next_persistent R s = Some (q, s')"
  shows "add_mset (qr_id q) (waiting s') \<subseteq># waiting s \<and> active_set s' = active_set s"
  using assms
  by (auto simp: next_persistent_def waiting_def active_set_def dest!: take_first_ids
      split: option.splits if_splits)

lemma thread_ids_del_subset: "thread_ids (map_del t m) + queue_ids (queue_of t m) \<subseteq># thread_ids m"
proof (induction m)
  case (Cons p m)
  obtain k qs where p: "p = (k, qs)" by fastforce
  show ?case
  proof (cases "k = t")
    case True
    have "thread_ids (map_del t m) \<subseteq># thread_ids (map_del t m) + queue_ids (queue_of t m)" by simp
    with Cons.IH have "thread_ids (map_del t m) \<subseteq># thread_ids m" by (blast intro: subset_mset.order_trans)
    with p True show ?thesis by (simp add: map_del_Cons queue_of_def)
  next
    case False
    with p Cons.IH show ?thesis by (simp add: map_del_Cons queue_of_def ac_simps)
  qed
qed (simp add: map_del_def queue_of_def)

lemma next_of_thread_waiting:
  assumes "next_of_thread t s = Some (q, s')"
  shows "add_mset (qr_id q) (waiting s') \<subseteq># waiting s \<and> active_set s' = active_set s"
proof -
  obtain rest where q: "queue_of t (rm_threadQueues s) = q # rest"
    and s': "s' = s\<lparr>rm_threadQueues := set_queue t rest (rm_threadQueues s)\<rparr>"
    using assms by (auto simp: next_of_thread_def set_queue_def split: option.splits if_splits list.splits)
  have "add_mset (qr_id q) (thread_ids (set_queue t rest (rm_threadQueues s))) \<subseteq># thread_ids (rm_threadQueues s)"
  proof (cases "rest = []")
    case True
    then show ?thesis using thread_ids_del_subset [of t "rm_threadQueues s"] q by (simp add: set_queue_def)
  next
    case False
    then show ?thesis using thread_ids_put [of t rest "rm_threadQueues s"] q by (simp add: set_queue_def)
  qed
  then show ?thesis by (simp add: s' waiting_def active_set_def)
qed

text \<open>The state from which a run has been taken\<close>

lemma draws_taken:
  assumes "add_mset i (waiting s1) \<subseteq># waiting s \<and> active_set s1 = active_set s" and "draws {i} s1 s'"
  shows "draws {} s s'" and "queued_count s' < queued_count s"
proof -
  have w: "waiting s1 \<subseteq># waiting s" and i: "i \<in># waiting s"
    using assms(1) by (auto dest: mset_subset_eqD mset_subset_eq_insertD intro: subset_mset.order_trans [rotated])
  then show "draws {} s s'"
    using assms by (auto simp: draws_def dest: mset_subset_eqD intro: subset_mset.order_trans)
  have "queued_count s1 < queued_count s"
    using size_mset_mono [of "add_mset i (waiting s1)" "waiting s"] assms(1) by (simp add: queued_count_waiting)
  then show "queued_count s' < queued_count s" using draws_count [OF assms(2)] by simp
qed

section \<open>Launching without a stack\<close>

text \<open>What is done for a refused run before its thread is released\<close>

definition refuse_run ::
  "('fs, 'x) run_options \<Rightarrow> queued_run \<Rightarrow> string \<Rightarrow> string \<Rightarrow> ('fs, 'x, created_run) rio" where
  "refuse_run R q code message =
     bindE (failRunBeforeSpawn R q code message) (\<lambda>run.
     thenE (resolveRunCompletion run)
     (thenE (whenE (rb_threadId (qr_input q) \<noteq> None) (setRunQueueState (qr_id q) QNone)) (ret run)))"

text \<open>
  The four functions that call each other, as an evaluation relation between a call, its state, and its
  result with the state after it: a call is related to a result if there is a finite evaluation of it.
\<close>

inductive start_yields ::
  "('fs, 'x) run_options \<Rightarrow> queued_run \<Rightarrow> ('fs, 'x) run_state_scheme \<Rightarrow> (err + created_run) \<times> ('fs, 'x) run_state_scheme \<Rightarrow> bool"
and complete_yields ::
  "('fs, 'x) run_options \<Rightarrow> thread_id option \<Rightarrow> run_id \<Rightarrow> ('fs, 'x) run_state_scheme \<Rightarrow> (err + unit) \<times> ('fs, 'x) run_state_scheme \<Rightarrow> bool"
and persistent_yields ::
  "('fs, 'x) run_options \<Rightarrow> ('fs, 'x) run_state_scheme \<Rightarrow> (err + unit) \<times> ('fs, 'x) run_state_scheme \<Rightarrow> bool"
and thread_yields ::
  "('fs, 'x) run_options \<Rightarrow> thread_id \<Rightarrow> ('fs, 'x) run_state_scheme \<Rightarrow> (err + unit) \<times> ('fs, 'x) run_state_scheme \<Rightarrow> bool"
for R :: "('fs, 'x) run_options"
where
  start_raises: "try_launch R q s = (Inl e, s1) \<Longrightarrow> start_yields R q s (Inl e, s1)"
| start_launched: "try_launch R q s = (Inr (Inr run), s1) \<Longrightarrow> start_yields R q s (Inr run, s1)"
| start_refusal_raises:
    "try_launch R q s = (Inr (Inl (code, message)), s1) \<Longrightarrow> refuse_run R q code message s1 = (Inl e, s2) \<Longrightarrow>
     start_yields R q s (Inl e, s2)"
| start_refused:
    "try_launch R q s = (Inr (Inl (code, message)), s1) \<Longrightarrow> refuse_run R q code message s1 = (Inr run, s2) \<Longrightarrow>
     complete_yields R (rb_threadId (qr_input q)) (qr_id q) s2 (Inr (), s3) \<Longrightarrow> start_yields R q s (Inr run, s3)"
| start_next_raises:
    "try_launch R q s = (Inr (Inl (code, message)), s1) \<Longrightarrow> refuse_run R q code message s1 = (Inr run, s2) \<Longrightarrow>
     complete_yields R (rb_threadId (qr_input q)) (qr_id q) s2 (Inl e, s3) \<Longrightarrow> start_yields R q s (Inl e, s3)"
| complete_raises: "persistent_yields R (release t i s) (Inl e, s1) \<Longrightarrow> complete_yields R t i s (Inl e, s1)"
| complete_alone: "persistent_yields R (release None i s) (Inr (), s1) \<Longrightarrow> complete_yields R None i s (Inr (), s1)"
| complete_thread:
    "persistent_yields R (release (Some t) i s) (Inr (), s1) \<Longrightarrow> thread_yields R t s1 x \<Longrightarrow>
     complete_yields R (Some t) i s x"
| persistent_none: "next_persistent R s = None \<Longrightarrow> persistent_yields R s (Inr (), s)"
| persistent_raises:
    "next_persistent R s = Some (q, s1) \<Longrightarrow> start_yields R q s1 (Inl e, s2) \<Longrightarrow> persistent_yields R s (Inl e, s2)"
| persistent_more:
    "next_persistent R s = Some (q, s1) \<Longrightarrow> start_yields R q s1 (Inr run, s2) \<Longrightarrow> persistent_yields R s2 x \<Longrightarrow>
     persistent_yields R s x"
| thread_none: "next_of_thread t s = None \<Longrightarrow> thread_yields R t s (Inr (), s)"
| thread_raises:
    "next_of_thread t s = Some (q, s1) \<Longrightarrow> start_yields R q s1 (Inl e, s2) \<Longrightarrow> thread_yields R t s (Inl e, s2)"
| thread_starts:
    "next_of_thread t s = Some (q, s1) \<Longrightarrow> start_yields R q s1 (Inr run, s2) \<Longrightarrow> thread_yields R t s (Inr (), s2)"

inductive_cases start_yieldsE: "start_yields R q s x"
inductive_cases complete_yieldsE: "complete_yields R t i s x"
inductive_cases persistent_yieldsE: "persistent_yields R s x"
inductive_cases thread_yieldsE: "thread_yields R t s x"

text \<open>A call has at most one result.\<close>

lemma yields_deterministic:
  "start_yields R q s x \<Longrightarrow> (\<And>y. start_yields R q s y \<Longrightarrow> y = x)"
  "complete_yields R t i s' x' \<Longrightarrow> (\<And>y. complete_yields R t i s' y \<Longrightarrow> y = x')"
  "persistent_yields R s' x' \<Longrightarrow> (\<And>y. persistent_yields R s' y \<Longrightarrow> y = x')"
  "thread_yields R u s' x' \<Longrightarrow> (\<And>y. thread_yields R u s' y \<Longrightarrow> y = x')"
proof (induction rule: start_yields_complete_yields_persistent_yields_thread_yields.inducts)
  case (start_raises q s e s1)
  from start_raises.prems show ?case by (rule start_yieldsE) (auto simp: start_raises(1))
next
  case (start_launched q s run s1)
  from start_launched.prems show ?case by (rule start_yieldsE) (auto simp: start_launched(1))
next
  case (start_refusal_raises q s code message s1 e s2)
  from start_refusal_raises.prems show ?case by (rule start_yieldsE) (auto simp: start_refusal_raises(1,2))
next
  case (start_refused q s code message s1 run s2 s3)
  from start_refused.prems show ?case by (rule start_yieldsE) (auto simp: start_refused(1,2) dest!: start_refused(4))
next
  case (start_next_raises q s code message s1 run s2 e s3)
  from start_next_raises.prems show ?case by (rule start_yieldsE) (auto simp: start_next_raises(1,2) dest!: start_next_raises(4))
next
  case (complete_raises t i s e s1)
  from complete_raises.prems show ?case by (rule complete_yieldsE) (use complete_raises(2) in fastforce)+
next
  case (complete_alone i s s1)
  from complete_alone.prems show ?case by (rule complete_yieldsE) (auto dest!: complete_alone(2))
next
  case (complete_thread t i s s1 x)
  from complete_thread.prems show ?case by (rule complete_yieldsE) (auto dest!: complete_thread(2,4))
next
  case (persistent_none s)
  from persistent_none.prems show ?case by (rule persistent_yieldsE) (auto simp: persistent_none(1))
next
  case (persistent_raises s q s1 e s2)
  from persistent_raises.prems show ?case by (rule persistent_yieldsE) (auto simp: persistent_raises(1) dest!: persistent_raises(3))
next
  case (persistent_more s q s1 run s2 x)
  from persistent_more.prems show ?case by (rule persistent_yieldsE) (auto simp: persistent_more(1) dest!: persistent_more(3,5))
next
  case (thread_none t s)
  from thread_none.prems show ?case by (rule thread_yieldsE) (auto simp: thread_none(1))
next
  case (thread_raises t s q s1 e s2)
  from thread_raises.prems show ?case by (rule thread_yieldsE) (auto simp: thread_raises(1) dest!: thread_raises(3))
next
  case (thread_starts t s q s1 run s2)
  from thread_starts.prems show ?case by (rule thread_yieldsE) (auto simp: thread_starts(1) dest!: thread_starts(3))
qed

text \<open>The functions of the model by what they call\<close>

lemma startExistingRun_refuse:
  "startExistingRun (Suc n) R q =
     bindE (try_launch R q) (\<lambda>r. case r of
       Inr c \<Rightarrow> ret c
     | Inl (code, message) \<Rightarrow>
         bindE (refuse_run R q code message) (\<lambda>run.
         thenE (completeThreadRun n R (rb_threadId (qr_input q)) (qr_id q)) (ret run)))"
  by (rule ext) (simp add: refuse_run_def bindE_def thenE_def run_simps split: sum.splits prod.splits)

context run_callbacks begin

lemma spawn_draws: "grows {qr_id q} (spawn R q p)"
  unfolding spawn_def Let_def
  by (intro grows_bindE grows_thenE grows_ret grows_modify activate_draws; rule grows_quiet; intro quiet_rules quiet_option)

lemma try_launch_draws: "grows {qr_id q} (try_launch R q)"
  unfolding try_launch_def Let_def
  by (intro grows_bindE grows_thenE grows_option grows_ret grows_modify claim_draws spawn_draws
      grows_quiet [OF quiet_plan_launch]; rule grows_quiet; intro quiet_rules)

lemma grows_next:
  assumes "\<And>s q s'. next_run s = Some (q, s') \<Longrightarrow> add_mset (qr_id q) (waiting s') \<subseteq># waiting s \<and> active_set s' = active_set s"
    and "\<And>q. grows {qr_id q} (m q)"
  shows "grows {} (\<lambda>s. case next_run s of None \<Rightarrow> (Inr (), s) | Some (q, s') \<Rightarrow> m q s')"
  using assms(2) draws_taken(1) [OF assms(1)] unfolding grows_def by (auto split: option.splits)

lemma launch_draws:
  "grows {qr_id q} (startExistingRun n R q)" "grows {} (completeThreadRun n R t i)"
  "grows {} (startNextPersistentRuns n R)" "grows {} (startNextQueuedThreadRun n R u)"
proof (induction n arbitrary: q t i u)
  case 0
  { case 1 show ?case by (simp add: grows_throw) }
  { case 2 show ?case by (simp add: grows_throw) }
  { case 3 show ?case by (simp add: grows_throw) }
  { case 4 show ?case by (simp add: grows_throw) }
next
  case (Suc n)
  have complete: "grows A (completeThreadRun n R t i)" for A t i using Suc.IH(2) by (rule grows_mono) simp
  have next_runs: "grows A (startNextPersistentRuns n R)" for A using Suc.IH(3) by (rule grows_mono) simp
  { case 1
    have "grows {qr_id q} (bindE (failRunBeforeSpawn R q code message) (\<lambda>run.
         thenE (resolveRunCompletion run)
         (thenE (whenE (rb_threadId (qr_input q) \<noteq> None) (setRunQueueState (qr_id q) QNone))
         (thenE (completeThreadRun n R (rb_threadId (qr_input q)) (qr_id q))
         (ret run)))))" for code message
      by (intro grows_bindE grows_thenE complete grows_ret grows_quiet [OF quiet_failRunBeforeSpawn];
          rule grows_quiet; intro quiet_rules)
    then show ?case
      by (auto intro!: grows_bindE try_launch_draws grows_ret split: sum.splits) }
  { case 2 show ?case
      unfolding completeThreadRun.simps
      by (intro grows_thenE grows_option grows_ret grows_modify release_draws Suc.IH) }
  { case 3 show ?case
      unfolding startNextPersistentRuns.simps
      by (intro grows_next grows_bindE Suc.IH(1) next_runs) (rule next_persistent_waiting) }
  { case 4 show ?case
      unfolding startNextQueuedThreadRun.simps
      by (intro grows_next grows_bindE Suc.IH(1) grows_ret) (rule next_of_thread_waiting) }
qed

text \<open>
  A stack that is deep enough for the runs that wait: a deeper one makes no difference. Every run
  that is launched in turn takes three calls.
\<close>

definition agree :: "nat \<Rightarrow> ('fs, 'x, 'a) rio \<Rightarrow> ('fs, 'x, 'a) rio \<Rightarrow> bool" where
  "agree c f g \<longleftrightarrow> (\<forall>s. queued_count s \<le> c \<longrightarrow> f s = g s)"

lemma agree_refl: "agree c f f"
  by (simp add: agree_def)

lemma agree_bindE:
  fixes f :: "('fs, 'x, 'a) rio"
  assumes "agree c f f'" and "grows A f'" and "\<And>a. agree c (k a) (k' a)"
  shows "agree c (bindE f k) (bindE f' k')"
  unfolding agree_def
proof (intro allI impI)
  fix s :: "('fs, 'x) run_state_scheme" assume s: "queued_count s \<le> c"
  obtain r s' where f: "f' s = (r, s')" by fastforce
  then have "queued_count s' \<le> c" using s draws_count [OF growsD [OF assms(2)]] by (meson order_trans)
  with assms(3) have "k a s' = k' a s'" for a by (simp add: agree_def)
  with assms(1) s f show "bindE f k s = bindE f' k' s" by (cases r) (simp_all add: agree_def bindE_def)
qed

lemma agree_thenE:
  "agree c f f' \<Longrightarrow> grows A f' \<Longrightarrow> agree c k k' \<Longrightarrow> agree c (thenE f k) (thenE f' k')"
  unfolding thenE_def by (rule agree_bindE)

lemma agree_next:
  fixes m :: "'q \<Rightarrow> ('fs, 'x, unit) rio"
  assumes "\<And>s q s'. next_run s = Some (q, s') \<Longrightarrow> queued_count s' < queued_count s"
    and "\<And>q d. c = Suc d \<Longrightarrow> agree d (m q) (n q)"
  shows "agree c (\<lambda>s. case next_run s of None \<Rightarrow> (Inr (), s) | Some (q, s') \<Rightarrow> m q s')
     (\<lambda>s. case next_run s of None \<Rightarrow> (Inr (), s) | Some (q, s') \<Rightarrow> n q s')"
  unfolding agree_def
proof (intro allI impI)
  fix s :: "('fs, 'x) run_state_scheme" assume s: "queued_count s \<le> c"
  have "m q s' = n q s'" if "next_run s = Some (q, s')" for q s'
  proof -
    have "queued_count s' < c" using assms(1) [OF that] s by simp
    then obtain d where "c = Suc d" "queued_count s' \<le> d" by (cases c) auto
    with assms(2) show ?thesis by (simp add: agree_def)
  qed
  then show "(case next_run s of None \<Rightarrow> (Inr (), s) | Some (q, s') \<Rightarrow> m q s') =
      (case next_run s of None \<Rightarrow> (Inr (), s) | Some (q, s') \<Rightarrow> n q s')"
    by (auto split: option.splits)
qed

lemma next_count:
  "next_persistent R s = Some (q, s') \<Longrightarrow> queued_count s' < queued_count s"
  "next_of_thread t s = Some (q, s') \<Longrightarrow> queued_count s' < queued_count s"
  using draws_taken(2) [OF next_persistent_waiting draws_refl] draws_taken(2) [OF next_of_thread_waiting draws_refl]
  by blast+

lemma deeper_stack:
  shows deeper_start: "3 * c + 3 \<le> n \<Longrightarrow> n \<le> m \<Longrightarrow> agree c (startExistingRun m R q) (startExistingRun n R q)"
    and deeper_complete: "3 * c + 2 \<le> n \<Longrightarrow> n \<le> m \<Longrightarrow> agree c (completeThreadRun m R t i) (completeThreadRun n R t i)"
    and deeper_persistent: "3 * c + 1 \<le> n \<Longrightarrow> n \<le> m \<Longrightarrow> agree c (startNextPersistentRuns m R) (startNextPersistentRuns n R)"
    and deeper_thread: "3 * c + 1 \<le> n \<Longrightarrow> n \<le> m \<Longrightarrow> agree c (startNextQueuedThreadRun m R u) (startNextQueuedThreadRun n R u)"
proof (induction n arbitrary: c m q t i u)
  case (Suc n)
  have grows: "grows {} (completeThreadRun n R t i)" "grows {} (startNextPersistentRuns n R)" for t i
    by (rule launch_draws)+
  { case 1
    then obtain k where m: "m = Suc k" and k: "n \<le> k" "3 * c + 2 \<le> n" by (cases m) auto
    have complete: "agree c (completeThreadRun k R t i) (completeThreadRun n R t i)" for t i using Suc.IH(2) k by blast
    have refused: "agree c
        (bindE (failRunBeforeSpawn R q code message) (\<lambda>run.
         thenE (resolveRunCompletion run)
         (thenE (whenE (rb_threadId (qr_input q) \<noteq> None) (setRunQueueState (qr_id q) QNone))
         (thenE (completeThreadRun k R (rb_threadId (qr_input q)) (qr_id q)) (ret run)))))
        (bindE (failRunBeforeSpawn R q code message) (\<lambda>run.
         thenE (resolveRunCompletion run)
         (thenE (whenE (rb_threadId (qr_input q) \<noteq> None) (setRunQueueState (qr_id q) QNone))
         (thenE (completeThreadRun n R (rb_threadId (qr_input q)) (qr_id q)) (ret run)))))" for code message
      by (intro agree_bindE [OF agree_refl grows_quiet [where A = "{}", OF quiet_failRunBeforeSpawn]]
            agree_thenE [OF agree_refl grows_quiet [where A = "{}"]]
            agree_thenE [OF complete grows(1) agree_refl] quiet_rules)
    show ?case
      unfolding m startExistingRun.simps
      by (rule agree_bindE [OF agree_refl try_launch_draws]) (auto intro: agree_refl refused [simplified] split: sum.splits) }
  { case 2
    then obtain k where m: "m = Suc k" and k: "n \<le> k" "3 * c + 1 \<le> n" by (cases m) auto
    then have "agree c (startNextPersistentRuns k R) (startNextPersistentRuns n R)"
      "agree c (startNextQueuedThreadRun k R u) (startNextQueuedThreadRun n R u)" for u using Suc.IH(3,4) by blast+
    then show ?case
      unfolding m completeThreadRun.simps
      by (intro agree_thenE [OF agree_refl grows_modify [where A = "{}", OF release_draws]] agree_thenE [OF _ grows(2)])
         (auto intro: agree_refl split: option.splits) }
  { case 3
    then obtain k where m: "m = Suc k" and k: "n \<le> k" "3 * c \<le> n" by (cases m) auto
    have "agree d (bindE (startExistingRun k R q) (\<lambda>_. startNextPersistentRuns k R))
        (bindE (startExistingRun n R q) (\<lambda>_. startNextPersistentRuns n R))" if "c = Suc d" for d q
      by (rule agree_bindE [OF _ launch_draws(1)]) (use Suc.IH(1,3) k that in auto)
    then show ?case
      unfolding m startNextPersistentRuns.simps by (intro agree_next next_count(1)) }
  { case 4
    then obtain k where m: "m = Suc k" and k: "n \<le> k" "3 * c \<le> n" by (cases m) auto
    have "agree d (bindE (startExistingRun k R q) (\<lambda>_. ret ())) (bindE (startExistingRun n R q) (\<lambda>_. ret ()))"
      if "c = Suc d" for d q
      by (rule agree_bindE [OF _ launch_draws(1) agree_refl]) (use Suc.IH(1) k that in auto)
    then show ?case
      unfolding m startNextQueuedThreadRun.simps by (intro agree_next next_count(2)) }
qed simp_all

text \<open>The stack that the model provides\<close>

lemma stack_suffices:
  assumes "stack_for s \<le> n"
  shows "startExistingRun n R q s = startExistingRun (stack_for s) R q s"
    and "completeThreadRun n R t i s = completeThreadRun (stack_for s) R t i s"
    and "startNextPersistentRuns n R s = startNextPersistentRuns (stack_for s) R s"
  using deeper_start [of "queued_count s" "stack_for s" n q] deeper_complete [of "queued_count s" "stack_for s" n t i]
    deeper_persistent [of "queued_count s" "stack_for s" n] assms
  by (simp_all add: agree_def stack_for_def)

text \<open>With that stack the functions compute the result of a call, if the queues are not longer.\<close>

lemma refuse_run_draws: "grows {} (refuse_run R q code message)"
  unfolding refuse_run_def
  by (intro grows_bindE grows_thenE grows_ret grows_quiet [OF quiet_failRunBeforeSpawn]; rule grows_quiet; intro quiet_rules)

lemma grown_count: "grows A m \<Longrightarrow> m s = (r, s') \<Longrightarrow> queued_count s \<le> c \<Longrightarrow> queued_count s' \<le> c"
  using draws_count [OF growsD] by (meson order_trans)

lemma computes_yields:
  shows computes_start: "3 * c + 3 \<le> n \<Longrightarrow> queued_count s \<le> c \<Longrightarrow> start_yields R q s (startExistingRun n R q s)"
    and computes_complete: "3 * c + 2 \<le> n \<Longrightarrow> queued_count s \<le> c \<Longrightarrow> complete_yields R t i s (completeThreadRun n R t i s)"
    and computes_persistent: "3 * c + 1 \<le> n \<Longrightarrow> queued_count s \<le> c \<Longrightarrow> persistent_yields R s (startNextPersistentRuns n R s)"
    and computes_thread: "3 * c + 1 \<le> n \<Longrightarrow> queued_count s \<le> c \<Longrightarrow> thread_yields R u s (startNextQueuedThreadRun n R u s)"
proof (induction n arbitrary: c s q t i u)
  case (Suc n)
  { case 1
    then have n: "3 * c + 2 \<le> n" by simp
    obtain r s1 where launch: "try_launch R q s = (r, s1)" by fastforce
    have s1: "queued_count s1 \<le> c" by (rule grown_count [OF try_launch_draws launch 1(2)])
    consider e where "r = Inl e" | run where "r = Inr (Inr run)" | code message where "r = Inr (Inl (code, message))"
      by (metis old.sum.exhaust surj_pair)
    then show ?case
    proof cases
      case 1
      then show ?thesis using launch by (simp add: startExistingRun_refuse bindE_def start_raises del: startExistingRun.simps)
    next
      case 2
      then show ?thesis using launch
        by (simp add: startExistingRun_refuse bindE_def run_simps start_launched del: startExistingRun.simps)
    next
      case 3
      obtain r2 s2 where refuse: "refuse_run R q code message s1 = (r2, s2)" by fastforce
      have s2: "queued_count s2 \<le> c" by (rule grown_count [OF refuse_run_draws refuse s1])
      show ?thesis
      proof (cases r2)
        case (Inl e)
        then have "startExistingRun (Suc n) R q s = (Inl e, s2)"
          using launch refuse by (simp add: startExistingRun_refuse bindE_def 3 del: startExistingRun.simps)
        then show ?thesis using start_refusal_raises launch refuse 3 Inl by simp
      next
        case (Inr run)
        obtain r3 s3 where complete: "completeThreadRun n R (rb_threadId (qr_input q)) (qr_id q) s2 = (r3, s3)" by fastforce
        have yields: "complete_yields R (rb_threadId (qr_input q)) (qr_id q) s2 (r3, s3)"
          using Suc.IH(2) [OF n s2] complete by metis
        have "startExistingRun (Suc n) R q s = (case r3 of Inl e \<Rightarrow> (Inl e, s3) | Inr _ \<Rightarrow> (Inr run, s3))"
          using launch refuse complete
          by (cases r3) (simp_all add: startExistingRun_refuse bindE_def thenE_def run_simps 3 Inr del: startExistingRun.simps)
        then show ?thesis
          using start_refused [of R q s code message s1 run s2 s3] start_next_raises [of R q s code message s1 run s2 _ s3]
            launch refuse yields 3 Inr by (cases r3) simp_all
      qed
    qed }
  { case 2
    then have n: "3 * c + 1 \<le> n" by simp
    have s1: "queued_count (release t i s) \<le> c" using 2(2) draws_count [OF release_draws] by (meson order_trans)
    obtain r s2 where next_runs: "startNextPersistentRuns n R (release t i s) = (r, s2)" by fastforce
    have yields: "persistent_yields R (release t i s) (r, s2)" using Suc.IH(3) [OF n s1] next_runs by metis
    have s2: "queued_count s2 \<le> c" by (rule grown_count [OF launch_draws(3) next_runs s1])
    show ?case
      using complete_raises [of R t i s _ s2] complete_alone [of R i s s2] complete_thread [OF _ Suc.IH(4) [OF n s2]]
        next_runs yields
      by (cases r; cases t) (simp_all add: bindE_def thenE_def run_simps) }
  { case 3
    show ?case
    proof (cases "next_persistent R s")
      case None
      then show ?thesis by (simp add: persistent_none)
    next
      case (Some p)
      then obtain q s1 where p: "next_persistent R s = Some (q, s1)" by (cases p) auto
      then have "queued_count s1 < c" using next_count(1) 3(2) by (meson less_le_trans)
      then obtain d where c: "c = Suc d" and s1: "queued_count s1 \<le> d" by (cases c) auto
      then have n: "3 * d + 3 \<le> n" "3 * d + 1 \<le> n" using 3(1) by simp_all
      obtain r s2 where start: "startExistingRun n R q s1 = (r, s2)" by fastforce
      have yields: "start_yields R q s1 (r, s2)" using Suc.IH(1) [OF n(1) s1] start by metis
      have s2: "queued_count s2 \<le> d" by (rule grown_count [OF launch_draws(1) start s1])
      show ?thesis
        using persistent_raises [OF p, of _ s2] persistent_more [OF p _ Suc.IH(3) [OF n(2) s2]] start yields
        by (cases r) (simp_all add: p bindE_def)
    qed }
  { case 4
    show ?case
    proof (cases "next_of_thread u s")
      case None
      then show ?thesis by (simp add: thread_none)
    next
      case (Some p)
      then obtain q s1 where p: "next_of_thread u s = Some (q, s1)" by (cases p) auto
      then have "queued_count s1 < c" using next_count(2) 4(2) by (meson less_le_trans)
      then obtain d where c: "c = Suc d" and s1: "queued_count s1 \<le> d" by (cases c) auto
      then have n: "3 * d + 3 \<le> n" using 4(1) by simp
      obtain r s2 where start: "startExistingRun n R q s1 = (r, s2)" by fastforce
      have yields: "start_yields R q s1 (r, s2)" using Suc.IH(1) [OF n s1] start by metis
      show ?thesis
        using thread_raises [OF p, of R _ s2] thread_starts [OF p, of R _ s2] start yields
        by (cases r) (simp_all add: p bindE_def run_simps)
    qed }
qed simp_all

text \<open>A call has exactly one result, the one that the model computes with its stack or a deeper one.\<close>

lemma yields_computed:
  "start_yields R q s x \<longleftrightarrow> x = startExistingRun (stack_for s + n) R q s"
  "complete_yields R t i s y \<longleftrightarrow> y = completeThreadRun (stack_for s + n) R t i s"
  "persistent_yields R s y \<longleftrightarrow> y = startNextPersistentRuns (stack_for s + n) R s"
  "thread_yields R u s y \<longleftrightarrow> y = startNextQueuedThreadRun (stack_for s + n) R u s"
proof -
  have "3 * queued_count s + 3 \<le> stack_for s + n" "3 * queued_count s + 2 \<le> stack_for s + n"
    "3 * queued_count s + 1 \<le> stack_for s + n" by (simp_all add: stack_for_def)
  note computed = computes_start [OF this(1) order_refl] computes_complete [OF this(2) order_refl]
    computes_persistent [OF this(3) order_refl] computes_thread [OF this(3) order_refl]
  show "start_yields R q s x \<longleftrightarrow> x = startExistingRun (stack_for s + n) R q s"
    using computed(1) yields_deterministic(1) [OF computed(1)] by metis
  show "complete_yields R t i s y \<longleftrightarrow> y = completeThreadRun (stack_for s + n) R t i s"
    using computed(2) yields_deterministic(2) [OF computed(2)] by metis
  show "persistent_yields R s y \<longleftrightarrow> y = startNextPersistentRuns (stack_for s + n) R s"
    using computed(3) yields_deterministic(3) [OF computed(3)] by metis
  show "thread_yields R u s y \<longleftrightarrow> y = startNextQueuedThreadRun (stack_for s + n) R u s"
    using computed(4) yields_deterministic(4) [OF computed(4)] by metis
qed

section \<open>A run that ends leaves nothing that could start\<close>

text \<open>What keeps the queue of the executor from starting a run does so in the second state, too.\<close>

definition no_freer :: "('fs, 'x) run_state_scheme \<Rightarrow> ('fs, 'x) run_state_scheme \<Rightarrow> bool" where
  "no_freer s s' \<longleftrightarrow>
     rm_closing s' = rm_closing s \<and> rm_persistentQueue s' = rm_persistentQueue s \<and>
     length (rm_runningPersistent s) \<le> length (rm_runningPersistent s') \<and>
     (\<forall>t. map_of (rm_runningThread s) t \<noteq> None \<longrightarrow> map_of (rm_runningThread s') t \<noteq> None)"

lemma take_first_None: "take_first p xs = None \<longleftrightarrow> (\<forall>x \<in> set xs. \<not> p x)"
  by (induction xs) auto

lemma next_persistent_None:
  "next_persistent R s = None \<longleftrightarrow>
     (case op_executor R of None \<Rightarrow> True
      | Some maximum \<Rightarrow> rm_closing s \<or> maximum \<le> length (rm_runningPersistent s) \<or>
          (\<forall>q \<in> set (rm_persistentQueue s). \<not> startable R s q))"
  by (auto simp: next_persistent_def take_first_None split: option.splits)

lemma no_freer_next:
  assumes "next_persistent R s = None" and "no_freer s s'" and "\<And>t. op_canStart R t s' = op_canStart R t s"
  shows "next_persistent R s' = None"
proof -
  have "startable R s q" if "startable R s' q" for q
    using that assms(2,3) by (fastforce simp: startable_def no_freer_def split: option.splits)
  then show ?thesis using assms(1,2) by (auto simp: next_persistent_None no_freer_def split: option.splits)
qed

lemma no_freer_trans: "no_freer s s' \<Longrightarrow> no_freer s' s'' \<Longrightarrow> no_freer s s''"
  by (fastforce simp: no_freer_def)

lemma no_freer_refl [simp]: "no_freer s s"
  by (simp add: no_freer_def)

lemma no_freer_quiet: "quiet m \<Longrightarrow> keeps (no_freer s0) m"
  by (fastforce simp: quiet_def keeps_def no_freer_def same_memory_def)

lemma no_freer_claim: "no_freer s (claim q s)"
  by (auto simp: no_freer_def claim_def set_add_def split: option.splits)

lemma no_freer_try_launch: "keeps (no_freer s0) (try_launch R q)"
proof -
  have modify: "keeps (no_freer s0) (modify f)" if "\<And>s. no_freer s (f s)" for f
    using that no_freer_trans by (blast intro: keeps_modify)
  have spawn: "keeps (no_freer s0) (spawn R q p)" for p
    unfolding spawn_def Let_def
    by (intro keeps_bindE keeps_thenE keeps_ret modify; (rule no_freer_quiet, intro quiet_rules quiet_option)?)
       (simp add: no_freer_def)
  have decided: "keeps (no_freer s0) (case x of Some f \<Rightarrow> ret (Inl f) | None \<Rightarrow> bindE (spawn R q p) (\<lambda>c. ret (Inr c)))"
    for p and x :: "(string \<times> string) option"
    by (cases x) (auto intro!: keeps_bindE keeps_ret spawn)
  show ?thesis
    unfolding try_launch_def Let_def
    by (intro keeps_bindE keeps_thenE keeps_ret modify no_freer_claim spawn decided
        no_freer_quiet [OF quiet_plan_launch]; (rule no_freer_quiet, intro quiet_rules)?)
qed

text \<open>
  Let the executor's answer depend on nothing that a launch changes. When a call returns without an
  error then nothing in the queue of the executor could start; a launch leaves this so.
\<close>

lemma leaves_drained:
  assumes "\<And>q s x s' t. try_launch R q s = (x, s') \<Longrightarrow> op_canStart R t s' = op_canStart R t s"
    and "\<And>t s q s' u. next_of_thread t s = Some (q, s') \<Longrightarrow> op_canStart R u s' = op_canStart R u s"
  shows "start_yields R q s x \<Longrightarrow> next_persistent R s = None \<longrightarrow> (\<forall>c s'. x = (Inr c, s') \<longrightarrow> next_persistent R s' = None)"
    and "complete_yields R t i s1 y \<Longrightarrow> \<forall>s'. y = (Inr (), s') \<longrightarrow> next_persistent R s' = None"
    and "persistent_yields R s1 y \<Longrightarrow> \<forall>s'. y = (Inr (), s') \<longrightarrow> next_persistent R s' = None"
    and "thread_yields R u s1 y \<Longrightarrow> next_persistent R s1 = None \<longrightarrow> (\<forall>s'. y = (Inr (), s') \<longrightarrow> next_persistent R s' = None)"
proof (induction rule: start_yields_complete_yields_persistent_yields_thread_yields.inducts)
  case (start_launched q s run s1)
  have "no_freer s s1" by (rule keeps_result [OF no_freer_try_launch no_freer_refl start_launched(1)])
  then show ?case using no_freer_next [OF _ _ assms(1) [OF start_launched(1)]] by simp
next
  case (thread_starts t s q s1 run s2)
  have "no_freer s s1" using thread_starts(1) by (auto simp: next_of_thread_def no_freer_def split: option.splits list.splits if_splits)
  then have "next_persistent R s = None \<Longrightarrow> next_persistent R s1 = None"
    using no_freer_next [OF _ _ assms(2) [OF thread_starts(1)]] by blast
  then show ?case using thread_starts(3) by simp
qed simp_all

lemma finish_run_drained:
  assumes canStart: "\<And>q s x s' t. try_launch R q s = (x, s') \<Longrightarrow> op_canStart R t s' = op_canStart R t s"
      "\<And>t s q s' u. next_of_thread t s = Some (q, s') \<Longrightarrow> op_canStart R u s' = op_canStart R u s"
      "\<And>c s x s' t. resolveRunCompletion c s = (x, s') \<Longrightarrow> op_canStart R t s' = op_canStart R t s"
    and finish: "finish_run R i a f s = (Inr (), s')"
  shows "next_persistent R s' = None"
proof -
  obtain s5 s6 where s6: "completeThreadRun (stack_for s5) R (rb_threadId (ar_input a)) i s5 = (Inr (), s6)"
    and s': "resolveRunCompletion (created_run_of i (ar_input a) (fi_status f)) s6 = (Inr (), s')"
    using finish unfolding finish_run_def bindE_Inr thenE_Inr with_stack_def by blast
  have yields: "complete_yields R (rb_threadId (ar_input a)) i s5 (Inr (), s6)"
    using yields_computed(2) [where n = 0] s6 by simp
  have "\<forall>s'. (Inr (), s6) = (Inr () :: err + unit, s') \<longrightarrow> next_persistent R s' = None"
    by (rule leaves_drained(2) [OF _ _ yields]; erule canStart)
  then have "next_persistent R s6 = None" by simp
  moreover have "no_freer s6 s'"
    by (rule keeps_result [OF no_freer_quiet [OF quiet_resolveRunCompletion] no_freer_refl s'])
  ultimately show ?thesis using canStart(3) [OF s'] by (rule no_freer_next)
qed

section \<open>A run that ends hands its thread over\<close>

definition absent :: "run_id \<Rightarrow> ('fs, 'x) run_state_scheme \<Rightarrow> bool" where
  "absent i s \<longleftrightarrow> i \<notin> active_set s \<and> i \<notin># waiting s"

lemma draws_absent: "absent i s \<Longrightarrow> draws {} s s' \<Longrightarrow> absent i s'"
  by (auto simp: absent_def draws_def dest: mset_subset_eqD)

lemma finish_run_gone:
  assumes "kept c s" and "map_of (rm_active s) i = Some a" and "finish_run R i a f s = (Inr (), s')"
  shows "i \<notin> active_set s' \<and> i \<notin># waiting s'"
proof -
  obtain n s1 s2 s3 s4 s5 s6 where s1: "write_file R (ar_runDir a) ''diagnostics.json'' s = (Inr (), s1)"
    and s2: "date_now s1 = (Inr n, s2)"
    and s3: "updateRunStatus i ((run_status (fi_status f) (internal_of (fi_status f)))
        \<lparr>us_terminationReason := Some (fi_reason f), us_exitCode := fi_exitCode f,
         us_signal := fi_signal f, us_errorCode := fi_errorCode f,
         us_errorMessage := fi_errorMessage f, us_endedAt := Some n\<rparr>) s2 = (Inr (), s3)"
    and s4: "notifyRunTerminal R i s3 = (Inr (), s4)"
    and s5: "whenE (rb_threadId (ar_input a) \<noteq> None) (setRunQueueState i QNone)
        (s4\<lparr>rm_active := map_del i (rm_active s4)\<rparr>) = (Inr (), s5)"
    and s6: "completeThreadRun (stack_for s5) R (rb_threadId (ar_input a)) i s5 = (Inr (), s6)"
    and s': "resolveRunCompletion (created_run_of i (ar_input a) (fi_status f)) s6 = (Inr (), s')"
    using assms(3) unfolding finish_run_def bindE_Inr thenE_Inr run_modify with_stack_def by auto
  have "same_memory s s4"
    using quietD [OF quiet_statements(7) s1] quietD [OF quiet_io(5) s2] quietD [OF quiet_statements(2) s3]
      quietD [OF quiet_notify s4] by (blast intro: same_memory_trans)
  then have w4: "waiting s4 = waiting s" by (simp add: waiting_def same_memory_def)
  have "count (mset (map fst (active_view s))) i \<ge> 1"
    using entry_of_active [OF assms(2)] by (force simp: active_entry_def)
  moreover have "count (live s) i \<le> 1" using assms(1) by (simp add: sound_def base_def one_place_def)
  then have "count (mset (map fst (active_view s))) i + count (waiting s) i \<le> 1"
    by (simp add: live_def waiting_def)
  ultimately have "count (waiting s) i = 0" by linarith
  then have "i \<notin># waiting s" by (simp add: not_in_iff)
  then have "absent i (s4\<lparr>rm_active := map_del i (rm_active s4)\<rparr>)"
    using w4 by (simp add: absent_def active_set_def waiting_def)
  moreover have "quiet (whenE (rb_threadId (ar_input a) \<noteq> None) (setRunQueueState i QNone) :: ('fs, 'x, unit) rio)"
    by (intro quiet_rules)
  ultimately have "absent i s5" using s5 by (blast intro: draws_absent same_memory_draws quietD)
  then have "absent i s6" using growsD [OF launch_draws(2) s6] by (rule draws_absent)
  then show ?thesis
    using s' by (fold absent_def) (blast intro: draws_absent same_memory_draws quietD quiet_resolveRunCompletion)
qed

text \<open>A taken thread and a taken place belong to an active run, when nothing has raised.\<close>

lemma taken_by_active:
  assumes "run_history R True s"
  shows "map_of (rm_runningThread s) t = Some i \<Longrightarrow> \<exists>a. map_of (rm_active s) i = Some a \<and> rb_threadId (ar_input a) = Some t"
    and "length (rm_runningPersistent s) \<le> length (filter (\<lambda>(i, a). ar_persistent a) (rm_active s))"
proof -
  have inv: "backed {} s" "one_place s" "claims_ok R s"
    using history_sound [OF assms] by (simp_all add: sound_def base_def)
  have "map fst (rm_active s) = map fst (active_view s)" by (simp add: active_view_def case_prod_beta o_def)
  then have d: "distinct (map fst (rm_active s))" using one_place_view [OF inv(2)] by simp
  show "\<exists>a. map_of (rm_active s) i = Some a \<and> rb_threadId (ar_input a) = Some t" if taken: "map_of (rm_runningThread s) t = Some i"
  proof -
    have "\<exists>p. (i, Some t, p) \<in> set (active_view s) \<union> {}" using taken inv(1) unfolding backed_def by blast
    then obtain p where "(i, Some t, p) \<in> set (active_view s)" by blast
    then obtain a where "(i, a) \<in> set (rm_active s)" "rb_threadId (ar_input a) = Some t" by (auto simp: active_view_def)
    with d show ?thesis by (auto intro: map_of_is_SomeI)
  qed
  have "set (rm_runningPersistent s) \<subseteq> set (map fst (filter (\<lambda>(i, a). ar_persistent a) (rm_active s)))"
    using inv(1) by (force simp: backed_def active_view_def)
  then have "card (set (rm_runningPersistent s)) \<le> card (set (map fst (filter (\<lambda>(i, a). ar_persistent a) (rm_active s))))"
    by (rule card_mono [OF finite_set])
  also have "\<dots> \<le> length (map fst (filter (\<lambda>(i, a). ar_persistent a) (rm_active s)))" by (rule card_length)
  finally show "length (rm_runningPersistent s) \<le> length (filter (\<lambda>(i, a). ar_persistent a) (rm_active s))"
    using inv(3) by (simp add: claims_ok_def distinct_card)
qed

text \<open>A run that waits for the executor and may not start: there is no place, or its thread is taken.\<close>

lemma executor_waits:
  assumes "run_history R True s" and "next_persistent R s = None" and "op_executor R = Some maximum"
    and "\<not> rm_closing s" and "q \<in> set (rm_persistentQueue s)" and "rb_threadId (qr_input q) = Some t"
  shows "maximum \<le> length (filter (\<lambda>(i, a). ar_persistent a) (rm_active s)) \<or> \<not> op_canStart R t s \<or>
    (\<exists>i a. map_of (rm_active s) i = Some a \<and> rb_threadId (ar_input a) = Some t)"
proof -
  have "maximum \<le> length (rm_runningPersistent s) \<or> \<not> startable R s q"
    using assms(2-5) by (auto simp: next_persistent_None)
  then show ?thesis
  proof
    assume "maximum \<le> length (rm_runningPersistent s)"
    then show ?thesis using taken_by_active(2) [OF assms(1)] by simp
  next
    assume "\<not> startable R s q"
    then show ?thesis using taken_by_active(1) [OF assms(1)] assms(6) by (fastforce simp: startable_def)
  qed
qed

lemma finish_run_history:
  assumes "run_history R True s" and "map_of (rm_active s) i = Some a" and "ar_finishing a = Some f"
    and "finish_run R i a f s = (Inr (), s')"
  shows "run_history R True s'"
proof -
  have "run_history R (True \<and> error_of (Inr ()) = (None :: err option)) s'"
    using history_step [OF assms(1) step_finish [OF assms(2-4)]] .
  then show ?thesis by simp
qed

text \<open>Afterwards another run of the thread is active, if any still waits for the thread.\<close>

lemma finish_run_hands_over:
  assumes "run_history R True s" and "map_of (rm_active s) i = Some a" and "ar_finishing a = Some f"
    and finish: "finish_run R i a f s = (Inr (), s')" and "rb_threadId (ar_input a) = Some t"
  shows "map_of (rm_active s') i = None \<and>
    (map_of (rm_threadQueues s') t = None \<or> rm_closing s' \<or>
     (\<exists>j b. j \<noteq> i \<and> map_of (rm_runningThread s') t = Some j \<and> map_of (rm_active s') j = Some b \<and>
        rb_threadId (ar_input b) = Some t))"
proof -
  have gone: "map_of (rm_active s') i = None"
    using finish_run_gone [OF history_sound [OF assms(1)] assms(2) finish]
    by (simp add: active_set_def map_of_absent)
  have history: "run_history R True s'" by (rule finish_run_history [OF assms(1-3) finish])
  show ?thesis
  proof (cases "map_of (rm_threadQueues s') t = None \<or> rm_closing s'")
    case False
    then obtain queue where "map_of (rm_threadQueues s') t = Some queue" by auto
    with waiting_behind_active [OF history] False gone show ?thesis by fastforce
  qed (use gone in blast)
qed

end

end
