(* ===== verification/ExecutorSlots.thy ===== *)
theory ExecutorSlots
  imports CodexArgs
begin

text \<open>
  The persistent app-server executor, \<^verbatim>\<open>runs/persistent-app-server-executor-2026-07-28.ts\<close>: a pool
  of at most \<^verbatim>\<open>maxConcurrency\<close> slots, each with one Codex app server that it keeps between runs.

  \<^item> \<open>pool\<close> is the state of \<^verbatim>\<open>createPersistentAppServerExecutor\<close>, \<open>slot\<close> an entry of its list with the
    state of \<^verbatim>\<open>createPersistentAppServerSlotExecutor\<close>. An executor of one slot is that slot alone.
  \<^item> While \<^verbatim>\<open>prepareExecution\<close> waits, the slot may be invalidated or told to close; a list of these
    calls is an argument of the model at each wait (\<open>awaited\<close>).
  \<^item> The host (\<^verbatim>\<open>codex/app-server-host-2026-07-28.ts\<close>) is known by what the slot asks of it: whether
    it may be reused, and whether it starts.

  Not modelled: the environment and the tools that are injected into the host, the pids and times of
  the lifecycle events.
\<close>

section \<open>A slot\<close>

record host_state =
  ho_profile :: string
  ho_fingerprint :: string
  ho_reusable :: bool

datatype lifecycle =
    LcRunAssigned run_id
  | LcProcessReused run_id
  | LcProfileRestarted string string
  | LcRunCleared run_id
  | LcHostClosed string \<comment> \<open>\<^verbatim>\<open>host.close(reason)\<close>\<close>

record slot =
  sl_host :: "host_state option"
  sl_activeRun :: "run_id option"
  sl_busy :: bool
  sl_closing :: bool
  sl_stale :: "string option"
  sl_log :: "lifecycle list"

definition new_slot :: slot where
  "new_slot = \<lparr>sl_host = None, sl_activeRun = None, sl_busy = False, sl_closing = False, sl_stale = None,
     sl_log = []\<rparr>"

definition executor_closing :: err where
  "executor_closing = PlainError ''Persistent app-server executor is closing''"

definition executor_busy :: err where
  "executor_busy = PlainError ''Persistent app-server executor is busy''"

definition slot_start :: "run_id \<Rightarrow> (slot, err, unit) act" where
  "slot_start runId =
     bindE (gets id) (\<lambda>s.
     thenE (guardE (\<not> sl_closing s) executor_closing)
     (thenE (guardE (\<not> sl_busy s) executor_busy)
     (modify (\<lambda>s. s\<lparr>sl_busy := True, sl_activeRun := Some runId\<rparr>))))"

definition slot_canStart :: "slot \<Rightarrow> bool" where
  "slot_canStart s \<longleftrightarrow> \<not> sl_closing s \<and> \<not> sl_busy s"

definition emitLifecycle :: "lifecycle \<Rightarrow> (slot, err, unit) act" where
  "emitLifecycle e = modify (\<lambda>s. s\<lparr>sl_log := sl_log s @ [e]\<rparr>)"

definition assertOpen :: "(slot, err, unit) act" where
  "assertOpen = bindE (gets sl_closing) (\<lambda>c. guardE (\<not> c) executor_closing)"

definition clearHost :: "string \<Rightarrow> (slot, err, unit) act" where
  "clearHost reason =
     bindE (gets sl_host) (\<lambda>h.
     thenE (modify (\<lambda>s. s\<lparr>sl_host := None\<rparr>))
     (whenE (h \<noteq> None) (emitLifecycle (LcHostClosed reason))))"

text \<open>
  The calls that reach a busy slot while it waits: \<^verbatim>\<open>invalidate\<close> notes the reason, \<^verbatim>\<open>close\<close> begins
  to close.
\<close>

datatype slot_call = CallInvalidate string | CallClose

fun receive :: "slot_call \<Rightarrow> slot \<Rightarrow> slot" where
  "receive (CallInvalidate reason) s =
     (if sl_closing s then s else s\<lparr>sl_stale := Some reason\<rparr>)"
| "receive CallClose s = s\<lparr>sl_closing := True\<rparr>"

definition awaited :: "slot_call list \<Rightarrow> (slot, err, unit) act" where
  "awaited calls = modify (fold receive calls)"

text \<open>\<^verbatim>\<open>invalidate\<close> of a slot that may be idle\<close>

definition slot_invalidate :: "string \<Rightarrow> (slot, err, unit) act" where
  "slot_invalidate reason =
     bindE (gets id) (\<lambda>s.
     if sl_closing s then ret ()
     else if sl_busy s then modify (\<lambda>s. s\<lparr>sl_stale := Some reason\<rparr>)
     else clearHost reason)"

text \<open>
  \<^verbatim>\<open>prepareExecution\<close>, from the beginning to the host that runs the turn. \<open>fingerprint\<close> is what the
  runtime injector prepares, or its error; \<open>calls k\<close> arrive during the \<open>k\<close>-th wait; \<open>started\<close> is
  the error with which the host fails to start or to run the turn, if it does.
\<close>

definition same_host :: "string \<Rightarrow> string \<Rightarrow> host_state \<Rightarrow> bool" where
  "same_host profile fp h \<longleftrightarrow> ho_reusable h \<and> ho_profile h = profile \<and> ho_fingerprint h = fp"

definition drop_stale :: "slot_call list \<Rightarrow> (slot, err, unit) act" where
  "drop_stale calls =
     bindE (gets id) (\<lambda>s.
     case (sl_host s, sl_stale s) of
       (Some _, Some reason) \<Rightarrow>
         thenE (modify (\<lambda>s. s\<lparr>sl_stale := None\<rparr>))
         (thenE (clearHost reason) (thenE (awaited calls) assertOpen))
     | _ \<Rightarrow> ret ())"

definition drop_different :: "run_id \<Rightarrow> string \<Rightarrow> string \<Rightarrow> slot_call list \<Rightarrow> (slot, err, unit) act" where
  "drop_different runId profile fp calls =
     bindE (gets sl_host) (\<lambda>h.
     case h of
       None \<Rightarrow> ret ()
     | Some h \<Rightarrow>
         if same_host profile fp h then ret ()
         else
           thenE (clearHost (if ho_profile h \<noteq> profile then ''profile_changed''
                             else ''runtime_configuration_changed''))
           (thenE (awaited calls)
           (thenE assertOpen
           (whenE (ho_profile h \<noteq> profile) (emitLifecycle (LcProfileRestarted (ho_profile h) profile))))))"

definition run_turn :: "slot_call list \<Rightarrow> err option \<Rightarrow> (slot, err, unit) act" where
  "run_turn calls started =
     thenE (awaited calls)
     (thenE assertOpen (case started of None \<Rightarrow> ret () | Some e \<Rightarrow> throw e))"

definition prepareExecution ::
  "run_id \<Rightarrow> string \<Rightarrow> err + string \<Rightarrow> (nat \<Rightarrow> slot_call list) \<Rightarrow> err option \<Rightarrow> (slot, err, bool) act" where
  "prepareExecution runId runProfile fingerprint calls started =
     (let profile = normalizeAppServerProfile runProfile in
      thenE assertOpen
      (thenE (awaited (calls 0))
      (thenE assertOpen
      (thenE (awaited (calls 1))
      (bindE (liftE fingerprint) (\<lambda>fp.
      thenE (drop_stale (calls 2))
      (thenE (drop_different runId profile fp (calls 3))
      (bindE (gets sl_host) (\<lambda>h.
       if h = None then
         thenE assertOpen
         (catchE
           (thenE (modify (\<lambda>s. s\<lparr>sl_host :=
              Some \<lparr>ho_profile = profile, ho_fingerprint = fp, ho_reusable = True\<rparr>\<rparr>))
           (thenE (run_turn (calls 4) started)
           (thenE (emitLifecycle (LcRunAssigned runId)) (ret False))))
           (\<lambda>e. thenE (clearHost ''start_failed'') (throw e)))
       else
         thenE (run_turn (calls 4) started)
         (thenE (emitLifecycle (LcProcessReused runId))
         (thenE (emitLifecycle (LcRunAssigned runId)) (ret True))))))))))))"

text \<open>The \<^verbatim>\<open>finally\<close> of the execution; \<open>calls\<close> arrive while a host is closed.\<close>

definition slot_finish :: "run_id \<Rightarrow> slot_call list \<Rightarrow> slot_call list \<Rightarrow> (slot, err, unit) act" where
  "slot_finish runId calls1 calls2 =
     bindE (gets sl_host) (\<lambda>h.
     thenE (whenE (\<exists>x. h = Some x \<and> \<not> ho_reusable x)
              (thenE (clearHost ''host_not_reusable'') (awaited calls1)))
     (bindE (gets id) (\<lambda>s.
      thenE (case (sl_host s, sl_stale s) of
               (Some _, Some reason) \<Rightarrow>
                 thenE (modify (\<lambda>s. s\<lparr>sl_stale := None\<rparr>)) (thenE (clearHost reason) (awaited calls2))
             | _ \<Rightarrow> ret ())
      (thenE (emitLifecycle (LcRunCleared runId))
      (modify (\<lambda>s. s\<lparr>sl_activeRun := None, sl_busy := False\<rparr>))))))"

section \<open>The pool\<close>

text \<open>\<open>ps_busy\<close> is cleared after the slot's own \<open>sl_busy\<close>, in the \<^verbatim>\<open>finally\<close> of the pool.\<close>

record pool_slot =
  ps_slot :: slot
  ps_busy :: bool
  ps_threads :: "thread_id list" \<comment> \<open>a \<^verbatim>\<open>Set\<close>\<close>

record pool =
  po_slots :: "pool_slot list"
  po_max :: nat
  po_closing :: bool

definition MAX_PERSISTENT_APP_SERVER_MAX_CONCURRENCY :: int where
  "MAX_PERSISTENT_APP_SERVER_MAX_CONCURRENCY = 10"

text \<open>A number is a rational, as elsewhere; a safe integer lies within \<open>2 ^ 53\<close>.\<close>

definition isSafeInteger :: "rat \<Rightarrow> bool" where
  "isSafeInteger x \<longleftrightarrow> x = of_int \<lfloor>x\<rfloor> \<and> \<bar>\<lfloor>x\<rfloor>\<bar> \<le> 2 ^ 53 - 1"

definition normalizeMaxConcurrency :: "rat option \<Rightarrow> int" where
  "normalizeMaxConcurrency v =
     (case v of
        None \<Rightarrow> 1
      | Some x \<Rightarrow> if \<not> isSafeInteger x \<or> x < 1 then 1 else min \<lfloor>x\<rfloor> MAX_PERSISTENT_APP_SERVER_MAX_CONCURRENCY)"

text \<open>The index of the first element with the property\<close>

fun index_where :: "('a \<Rightarrow> bool) \<Rightarrow> 'a list \<Rightarrow> nat option" where
  "index_where p [] = None"
| "index_where p (x # xs) = (if p x then Some 0 else map_option Suc (index_where p xs))"

definition findOwner :: "thread_id \<Rightarrow> pool \<Rightarrow> nat option" where
  "findOwner t p = index_where (\<lambda>s. t \<in> set (ps_threads s)) (po_slots p)"

text \<open>The idle slot with the fewest threads, the first of them: JavaScript's sort is stable.\<close>

definition idle_indexes :: "pool \<Rightarrow> nat list" where
  "idle_indexes p = filter (\<lambda>k. \<not> ps_busy (po_slots p ! k)) [0..<length (po_slots p)]"

definition least_loaded :: "pool \<Rightarrow> nat option" where
  "least_loaded p =
     (case sort_key (\<lambda>k. length (ps_threads (po_slots p ! k))) (idle_indexes p) of
        [] \<Rightarrow> None | k # _ \<Rightarrow> Some k)"

definition selectSlot :: "thread_id \<Rightarrow> pool \<Rightarrow> nat option \<times> pool" where
  "selectSlot t p =
     (case findOwner t p of
        Some k \<Rightarrow> (if ps_busy (po_slots p ! k) then None else Some k, p)
      | None \<Rightarrow>
          (case least_loaded p of
             Some k \<Rightarrow> (Some k, p)
           | None \<Rightarrow>
               if length (po_slots p) < po_max p
               then (Some (length (po_slots p)),
                     p\<lparr>po_slots := po_slots p @ [\<lparr>ps_slot = new_slot, ps_busy = False, ps_threads = []\<rparr>]\<rparr>)
               else (None, p)))"

definition set_slot :: "nat \<Rightarrow> pool_slot \<Rightarrow> pool \<Rightarrow> pool" where
  "set_slot k x p = p\<lparr>po_slots := (po_slots p)[k := x]\<rparr>"

text \<open>\<^verbatim>\<open>start\<close> of a pool; returns the slot.\<close>

definition pool_start :: "thread_id \<Rightarrow> run_id \<Rightarrow> (pool, err, nat) act" where
  "pool_start t runId = (\<lambda>p.
     if po_closing p then (Inl executor_closing, p)
     else
       (let (selected, p) = selectSlot t p in
        case selected of
          None \<Rightarrow> (Inl executor_busy, p)
        | Some k \<Rightarrow>
            let x = po_slots p ! k in
            (case slot_start runId (ps_slot x) of
               (Inl e, _) \<Rightarrow> (Inl e, p)
             | (Inr _, s) \<Rightarrow>
                 (Inr k, set_slot k \<lparr>ps_slot = s, ps_busy = True,
                                    ps_threads = (if t \<in> set (ps_threads x) then ps_threads x
                                                  else ps_threads x @ [t])\<rparr> p))))"

text \<open>The slot finishes its execution, then the pool notes it.\<close>

definition pool_slot_finish :: "nat \<Rightarrow> run_id \<Rightarrow> slot_call list \<Rightarrow> slot_call list \<Rightarrow> pool \<Rightarrow> pool" where
  "pool_slot_finish k runId calls1 calls2 p =
     (let x = po_slots p ! k in
      set_slot k (x\<lparr>ps_slot := snd (slot_finish runId calls1 calls2 (ps_slot x))\<rparr>) p)"

definition pool_finish :: "nat \<Rightarrow> pool \<Rightarrow> pool" where
  "pool_finish k p = set_slot k ((po_slots p ! k)\<lparr>ps_busy := False\<rparr>) p"

definition pool_isBusy :: "pool \<Rightarrow> bool" where
  "pool_isBusy p \<longleftrightarrow>
     po_closing p \<or> length (po_slots p) \<ge> po_max p \<and> list_all ps_busy (po_slots p)"

definition pool_canStart :: "thread_id \<Rightarrow> pool \<Rightarrow> bool" where
  "pool_canStart t p \<longleftrightarrow>
     \<not> po_closing p \<and>
     (case findOwner t p of
        Some k \<Rightarrow> \<not> ps_busy (po_slots p ! k)
      | None \<Rightarrow> list_ex (\<lambda>s. \<not> ps_busy s) (po_slots p) \<or> length (po_slots p) < po_max p)"

definition pool_invalidate :: "string \<Rightarrow> pool \<Rightarrow> pool" where
  "pool_invalidate reason p =
     (if po_closing p then p
      else p\<lparr>po_slots := map (\<lambda>x. x\<lparr>ps_slot := snd (slot_invalidate reason (ps_slot x))\<rparr>) (po_slots p)\<rparr>)"

text \<open>The part of \<^verbatim>\<open>close\<close> that runs at once\<close>

definition pool_close :: "pool \<Rightarrow> pool" where
  "pool_close p =
     p\<lparr>po_closing := True,
       po_slots := map (\<lambda>x. x\<lparr>ps_slot := (ps_slot x)\<lparr>sl_closing := True\<rparr>\<rparr>) (po_slots p)\<rparr>"

text \<open>The executor: with one place the slot alone, otherwise a pool\<close>

datatype executor = SlotExecutor slot | PoolExecutor pool

definition new_pool :: "nat \<Rightarrow> pool" where
  "new_pool maximum = \<lparr>po_slots = [], po_max = maximum, po_closing = False\<rparr>"

definition createPersistentAppServerExecutor :: "rat option \<Rightarrow> executor" where
  "createPersistentAppServerExecutor v =
     (let maximum = normalizeMaxConcurrency v in
      if maximum = 1 then SlotExecutor new_slot else PoolExecutor (new_pool (nat maximum)))"

fun executor_max :: "executor \<Rightarrow> nat" where
  "executor_max (SlotExecutor s) = 1"
| "executor_max (PoolExecutor p) = po_max p"

fun executor_canStart :: "thread_id \<Rightarrow> executor \<Rightarrow> bool" where
  "executor_canStart t (SlotExecutor s) = slot_canStart s"
| "executor_canStart t (PoolExecutor p) = pool_canStart t p"

fun executor_isBusy :: "executor \<Rightarrow> bool" where
  "executor_isBusy (SlotExecutor s) = sl_busy s"
| "executor_isBusy (PoolExecutor p) = pool_isBusy p"

fun executor_start :: "thread_id \<Rightarrow> run_id \<Rightarrow> executor \<Rightarrow> (err + nat) \<times> executor" where
  "executor_start t r (SlotExecutor s) =
     (case slot_start r s of (Inl e, s') \<Rightarrow> (Inl e, SlotExecutor s') | (Inr _, s') \<Rightarrow> (Inr 0, SlotExecutor s'))"
| "executor_start t r (PoolExecutor p) = (let (x, p') = pool_start t r p in (x, PoolExecutor p'))"

section \<open>The pool keeps its slots apart\<close>

definition slot_ok :: "bool \<Rightarrow> pool_slot \<Rightarrow> bool" where
  "slot_ok closing x \<longleftrightarrow>
     (sl_busy (ps_slot x) \<longrightarrow> ps_busy x) \<and> (sl_closing (ps_slot x) \<longrightarrow> closing) \<and> distinct (ps_threads x)"

definition pool_ok :: "pool \<Rightarrow> bool" where
  "pool_ok p \<longleftrightarrow>
     length (po_slots p) \<le> po_max p \<and> list_all (slot_ok (po_closing p)) (po_slots p) \<and>
     (\<forall>j k t. j < length (po_slots p) \<longrightarrow> k < length (po_slots p) \<longrightarrow>
        t \<in> set (ps_threads (po_slots p ! j)) \<longrightarrow> t \<in> set (ps_threads (po_slots p ! k)) \<longrightarrow> j = k)"

lemma index_where_Some: "index_where p xs = Some k \<Longrightarrow> k < length xs \<and> p (xs ! k)"
  by (induction xs arbitrary: k) (auto split: if_splits)

lemma index_where_None: "index_where p xs = None \<longleftrightarrow> (\<forall>x \<in> set xs. \<not> p x)"
  by (induction xs) auto

lemma findOwner_Some: "findOwner t p = Some k \<Longrightarrow> k < length (po_slots p) \<and> t \<in> set (ps_threads (po_slots p ! k))"
  unfolding findOwner_def by (drule index_where_Some) simp

lemma findOwner_None: "findOwner t p = None \<longleftrightarrow> (\<forall>x \<in> set (po_slots p). t \<notin> set (ps_threads x))"
  by (simp add: findOwner_def index_where_None)

lemma least_loaded_Some:
  assumes "least_loaded p = Some k"
  shows "k < length (po_slots p) \<and> \<not> ps_busy (po_slots p ! k) \<and>
    (\<forall>j < length (po_slots p). \<not> ps_busy (po_slots p ! j) \<longrightarrow>
       length (ps_threads (po_slots p ! k)) \<le> length (ps_threads (po_slots p ! j)))"
proof -
  let ?f = "\<lambda>k. length (ps_threads (po_slots p ! k))"
  obtain ks where ks: "sort_key ?f (idle_indexes p) = k # ks"
    using assms by (auto simp: least_loaded_def split: list.splits)
  have set: "set (k # ks) = set (idle_indexes p)" by (simp flip: ks)
  have "sorted (map ?f (k # ks))" by (simp flip: ks)
  then have "\<forall>j \<in> set (k # ks). ?f k \<le> ?f j" by auto
  then show ?thesis using set by (fastforce simp: idle_indexes_def)
qed

lemma least_loaded_None: "least_loaded p = None \<longleftrightarrow> list_all ps_busy (po_slots p)"
proof -
  let ?sorted = "sort_key (\<lambda>k. length (ps_threads (po_slots p ! k))) (idle_indexes p)"
  have "set ?sorted = set (idle_indexes p)" by (rule set_sort)
  then have "least_loaded p = None \<longleftrightarrow> set (idle_indexes p) = {}"
    by (cases ?sorted) (auto simp: least_loaded_def)
  then show ?thesis by (auto simp: idle_indexes_def list_all_length)
qed

text \<open>Every slot that is selected is idle, and nobody else's for this thread.\<close>

lemma selectSlot_Some:
  assumes ok: "pool_ok p" and "selectSlot t p = (Some k, p')"
  shows "pool_ok p' \<and> k < length (po_slots p') \<and> \<not> ps_busy (po_slots p' ! k) \<and>
    po_closing p' = po_closing p \<and> po_max p' = po_max p \<and> length (po_slots p) \<le> length (po_slots p') \<and>
    (\<forall>j < length (po_slots p). po_slots p' ! j = po_slots p ! j) \<and>
    (\<forall>j < length (po_slots p'). t \<in> set (ps_threads (po_slots p' ! j)) \<longrightarrow> j = k)"
proof (cases "findOwner t p")
  case (Some j)
  with assms(2) have eq: "p' = p" "j = k" "\<not> ps_busy (po_slots p ! k)"
    by (auto simp: selectSlot_def split: if_splits)
  have "k < length (po_slots p)" "t \<in> set (ps_threads (po_slots p ! k))"
    using findOwner_Some [OF Some] eq by simp_all
  with ok eq show ?thesis unfolding pool_ok_def by blast
next
  case None
  then have absent: "j < length (po_slots p) \<Longrightarrow> t \<notin> set (ps_threads (po_slots p ! j))" for j
    by (simp add: findOwner_None)
  show ?thesis
  proof (cases "least_loaded p")
    case (Some j)
    with None assms(2) have "p' = p" "j = k" by (auto simp: selectSlot_def)
    with least_loaded_Some [OF Some] ok absent show ?thesis by blast
  next
    case none: None
    with None assms(2) have p': "p' = p\<lparr>po_slots := po_slots p @ [\<lparr>ps_slot = new_slot, ps_busy = False, ps_threads = []\<rparr>]\<rparr>"
      and k: "k = length (po_slots p)" "length (po_slots p) < po_max p"
      by (auto simp: selectSlot_def split: if_splits)
    have "pool_ok p'"
      using ok k unfolding p' pool_ok_def
      by (auto simp: slot_ok_def new_slot_def nth_append less_Suc_eq)
    moreover have "j = k" if "j < length (po_slots p')" "t \<in> set (ps_threads (po_slots p' ! j))" for j
      using that absent by (cases "j < length (po_slots p)") (auto simp: p' k nth_append)
    ultimately show ?thesis by (simp add: p' k nth_append)
  qed
qed

lemma selectSlot_None: "selectSlot t p = (None, p') \<Longrightarrow> p' = p"
  by (auto simp: selectSlot_def split: option.splits if_splits)

lemma pool_ok_set_slot:
  assumes "pool_ok p" and "k < length (po_slots p)" and "slot_ok (po_closing p) x"
    and "\<And>t j. t \<in> set (ps_threads x) \<Longrightarrow> j < length (po_slots p) \<Longrightarrow> t \<in> set (ps_threads (po_slots p ! j)) \<Longrightarrow> j = k"
  shows "pool_ok (set_slot k x p)"
proof -
  have "list_all (slot_ok (po_closing p)) ((po_slots p)[k := x])"
    using assms(1,3) set_update_subset_insert [of "po_slots p" k x]
    by (auto simp: pool_ok_def list_all_iff)
  moreover have "i = j" if ij: "i < length (po_slots p)" "j < length (po_slots p)"
    and ti: "t \<in> set (ps_threads ((po_slots p)[k := x] ! i))" and tj: "t \<in> set (ps_threads ((po_slots p)[k := x] ! j))" for i j t
  proof (cases "i = k"; cases "j = k")
    assume "i = k" "j \<noteq> k"
    then show ?thesis using assms(4) [of t j] ij ti tj by simp
  next
    assume "i \<noteq> k" "j = k"
    then show ?thesis using assms(4) [of t i] ij ti tj by simp
  next
    assume "i \<noteq> k" "j \<noteq> k"
    then show ?thesis using assms(1) ij ti tj unfolding pool_ok_def by simp
  qed simp
  ultimately show ?thesis using assms(1) by (simp add: pool_ok_def set_slot_def)
qed

lemma slot_start_result:
  "slot_start r s = (if sl_closing s then (Inl executor_closing, s)
     else if sl_busy s then (Inl executor_busy, s)
     else (Inr (), s\<lparr>sl_busy := True, sl_activeRun := Some r\<rparr>))"
  by (simp add: slot_start_def run_simps)

lemma pool_start_cases:
  assumes ok: "pool_ok p"
  obtains (refused) e p' where "pool_start t r p = (Inl e, p')" "pool_ok p'" "\<not> pool_canStart t p"
  | (started) k p' where "pool_start t r p = (Inr k, p')" "pool_ok p'" "pool_canStart t p"
      "k < length (po_slots p')" "ps_busy (po_slots p' ! k)" "t \<in> set (ps_threads (po_slots p' ! k))"
      "\<And>j. j < length (po_slots p) \<Longrightarrow> t \<in> set (ps_threads (po_slots p ! j)) \<Longrightarrow> j = k"
      "\<And>j. j < length (po_slots p) \<Longrightarrow> set (ps_threads (po_slots p ! j)) \<subseteq> set (ps_threads (po_slots p' ! j))"
      "length (po_slots p) \<le> length (po_slots p')"
      "k < length (po_slots p) \<Longrightarrow> \<not> ps_busy (po_slots p ! k)"
proof (cases "po_closing p")
  case True
  then show ?thesis using refused ok by (simp add: pool_start_def pool_canStart_def)
next
  case open_pool: False
  obtain selected p' where sel: "selectSlot t p = (selected, p')" by fastforce
  show ?thesis
  proof (cases selected)
    case None
    with sel have p': "p' = p" using selectSlot_None by blast
    have "\<not> pool_canStart t p"
      using sel None least_loaded_None [of p] open_pool
      by (auto simp: selectSlot_def pool_canStart_def list_ex_iff list_all_iff split: option.splits if_splits)
    with open_pool sel None ok p' show ?thesis by (intro refused) (auto simp: pool_start_def)
  next
    case (Some k)
    note sel = sel [unfolded Some]
    have ok': "pool_ok p'" and k: "k < length (po_slots p')" and idle_k: "\<not> ps_busy (po_slots p' ! k)"
      and same: "po_closing p' = po_closing p" and more: "length (po_slots p) \<le> length (po_slots p')"
      and old: "\<And>j. j < length (po_slots p) \<Longrightarrow> po_slots p' ! j = po_slots p ! j"
      and own: "\<And>j. j < length (po_slots p') \<Longrightarrow> t \<in> set (ps_threads (po_slots p' ! j)) \<Longrightarrow> j = k"
      using selectSlot_Some [OF ok sel] by blast+
    let ?x = "po_slots p' ! k"
    have "slot_ok False ?x" using ok' k same open_pool by (auto simp: pool_ok_def list_all_length)
    then have idle: "\<not> sl_closing (ps_slot ?x)" "\<not> sl_busy (ps_slot ?x)" "distinct (ps_threads ?x)"
      using idle_k by (auto simp: slot_ok_def)
    define x' where "x' = \<lparr>ps_slot = (ps_slot ?x)\<lparr>sl_busy := True, sl_activeRun := Some r\<rparr>, ps_busy = True,
      ps_threads = (if t \<in> set (ps_threads ?x) then ps_threads ?x else ps_threads ?x @ [t])\<rparr>"
    have threads: "set (ps_threads x') = insert t (set (ps_threads ?x))" by (auto simp: x'_def)
    have start: "pool_start t r p = (Inr k, set_slot k x' p')"
      using open_pool sel idle by (simp add: pool_start_def slot_start_result Let_def x'_def)
    have "pool_ok (set_slot k x' p')"
    proof (rule pool_ok_set_slot [OF ok' k])
      show "slot_ok (po_closing p') x'" using idle by (simp add: slot_ok_def x'_def)
      fix u j assume "u \<in> set (ps_threads x')" and j: "j < length (po_slots p')" "u \<in> set (ps_threads (po_slots p' ! j))"
      then consider "u = t" | "u \<in> set (ps_threads ?x)" by (auto simp: threads)
      then show "j = k" using own ok' k j by cases (auto simp: pool_ok_def)
    qed
    moreover have "pool_canStart t p"
      using sel least_loaded_None [of p] open_pool
      by (auto simp: selectSlot_def pool_canStart_def list_ex_iff list_all_iff split: option.splits if_splits)
    moreover have "set (ps_threads (po_slots p ! j)) \<subseteq> set (ps_threads (po_slots (set_slot k x' p') ! j))"
      if "j < length (po_slots p)" for j
      using that more old [OF that] by (cases "j = k") (auto simp: set_slot_def threads)
    moreover have "j = k" if "j < length (po_slots p)" "t \<in> set (ps_threads (po_slots p ! j))" for j
      using own [of j] old [of j] that more by simp
    moreover have "k < length (po_slots p) \<Longrightarrow> \<not> ps_busy (po_slots p ! k)" using idle_k old [of k] by simp
    moreover have "length (po_slots (set_slot k x' p')) = length (po_slots p')"
      "ps_busy (po_slots (set_slot k x' p') ! k)" "t \<in> set (ps_threads (po_slots (set_slot k x' p') ! k))"
      using k by (simp_all add: set_slot_def threads) (simp add: x'_def)
    ultimately show ?thesis
      using start k more by (intro started [of k "set_slot k x' p'"]) simp_all
  qed
qed

section \<open>What can happen to a pool\<close>

text \<open>
  The host of a slot may die (\<open>pool_host\<close>), and its run may be prepared, finish in the slot, and be
  noted as finished by the pool, in this order.
\<close>

definition with_slot :: "nat \<Rightarrow> slot \<Rightarrow> pool \<Rightarrow> pool" where
  "with_slot k s p = set_slot k ((po_slots p ! k)\<lparr>ps_slot := s\<rparr>) p"

text \<open>A call to close that arrives during a wait reaches the whole pool.\<close>

definition close_if :: "bool \<Rightarrow> pool \<Rightarrow> pool" where
  "close_if b p = (if b then pool_close p else p)"

inductive pool_step :: "pool \<Rightarrow> pool \<Rightarrow> bool" where
  pool_starts: "pool_start t r p = (x, p') \<Longrightarrow> pool_step p p'"
| pool_prepares:
    "k < length (po_slots p) \<Longrightarrow> sl_busy (ps_slot (po_slots p ! k)) \<Longrightarrow>
     prepareExecution r profile fp calls e (ps_slot (po_slots p ! k)) = (x, s) \<Longrightarrow>
     pool_step p (close_if (\<exists>n. CallClose \<in> set (calls n)) (with_slot k s p))"
| pool_host:
    "k < length (po_slots p) \<Longrightarrow> sl_host (ps_slot (po_slots p ! k)) = Some h \<Longrightarrow>
     pool_step p (with_slot k ((ps_slot (po_slots p ! k))\<lparr>sl_host := Some (h\<lparr>ho_reusable := False\<rparr>)\<rparr>) p)"
| pool_slot_finishes:
    "k < length (po_slots p) \<Longrightarrow> sl_busy (ps_slot (po_slots p ! k)) \<Longrightarrow>
     pool_step p (close_if (CallClose \<in> set c1 \<union> set c2) (pool_slot_finish k r c1 c2 p))"
| pool_finishes:
    "k < length (po_slots p) \<Longrightarrow> \<not> sl_busy (ps_slot (po_slots p ! k)) \<Longrightarrow> pool_step p (pool_finish k p)"
| pool_invalidates: "pool_step p (pool_invalidate reason p)"
| pool_closes: "pool_step p (pool_close p)"

inductive pool_history :: "pool \<Rightarrow> bool" where
  pool_created: "createPersistentAppServerExecutor v = PoolExecutor p \<Longrightarrow> pool_history p"
| pool_continues: "pool_history p \<Longrightarrow> pool_step p p' \<Longrightarrow> pool_history p'"

text \<open>What a computation of a slot does to its flags\<close>

definition flags_kept :: "bool \<Rightarrow> slot \<Rightarrow> slot \<Rightarrow> bool" where
  "flags_kept shut s s' \<longleftrightarrow> (sl_busy s' \<longrightarrow> sl_busy s) \<and> (sl_closing s' \<longrightarrow> sl_closing s \<or> shut)"

definition keeps_flags :: "bool \<Rightarrow> (slot, err, 'a) act \<Rightarrow> bool" where
  "keeps_flags shut m \<longleftrightarrow> (\<forall>b c. keeps (\<lambda>s. (sl_busy s \<longrightarrow> b) \<and> (sl_closing s \<longrightarrow> c \<or> shut)) m)"

lemma keeps_flagsD: "keeps_flags shut m \<Longrightarrow> m s = (x, s') \<Longrightarrow> flags_kept shut s s'"
  unfolding keeps_flags_def flags_kept_def
  by (drule spec [of _ "sl_busy s"], drule spec [of _ "sl_closing s"], drule keeps_result [of _ m s]) auto

lemma receive_flags:
  "(CallClose \<in> set calls \<Longrightarrow> shut) \<Longrightarrow>
   sl_busy (fold receive calls s) = sl_busy s \<and> (sl_closing (fold receive calls s) \<longrightarrow> sl_closing s \<or> shut)"
proof (induction calls arbitrary: s)
  case (Cons a calls)
  have "sl_busy (receive a s) = sl_busy s" "sl_closing (receive a s) \<longrightarrow> sl_closing s \<or> a = CallClose"
    by (cases a; simp)+
  then show ?case using Cons.IH [of "receive a s"] Cons.prems by auto
qed simp

lemma keeps_flags_awaited: "(CallClose \<in> set calls \<Longrightarrow> shut) \<Longrightarrow> keeps_flags shut (awaited calls)"
  unfolding keeps_flags_def awaited_def by (intro allI keeps_modify) (auto dest: receive_flags)

lemma keeps_flags_parts:
  "keeps_flags shut (emitLifecycle e)" "keeps_flags shut assertOpen" "keeps_flags shut (clearHost r)"
  unfolding keeps_flags_def emitLifecycle_def assertOpen_def clearHost_def
  by (intro allI keeps_rules keeps_modify; simp)+

lemma keeps_flags_drop_stale:
  "(CallClose \<in> set calls \<Longrightarrow> shut) \<Longrightarrow> keeps_flags shut (drop_stale calls)"
  using keeps_flags_awaited [of calls shut] keeps_flags_parts [of shut]
  unfolding keeps_flags_def drop_stale_def
  by (auto intro!: keeps_rules keeps_modify split: option.splits)

lemma keeps_flags_drop_different:
  "(CallClose \<in> set calls \<Longrightarrow> shut) \<Longrightarrow> keeps_flags shut (drop_different r profile fp calls)"
  using keeps_flags_awaited [of calls shut] keeps_flags_parts [of shut]
  unfolding keeps_flags_def drop_different_def
  by (auto intro!: keeps_rules split: option.splits)

lemma keeps_flags_run_turn:
  "(CallClose \<in> set calls \<Longrightarrow> shut) \<Longrightarrow> keeps_flags shut (run_turn calls e)"
  using keeps_flags_awaited [of calls shut] keeps_flags_parts [of shut]
  unfolding keeps_flags_def run_turn_def
  by (auto intro!: keeps_rules split: option.splits)

lemma keeps_flags_prepare:
  "keeps_flags (\<exists>n. CallClose \<in> set (calls n)) (prepareExecution r profile fp calls e)"
proof -
  let ?c = "\<exists>n. CallClose \<in> set (calls n)"
  have calls: "CallClose \<in> set (calls n) \<Longrightarrow> ?c" for n by blast
  note parts = keeps_flags_awaited [OF calls] keeps_flags_parts [of ?c] keeps_flags_drop_stale [OF calls]
    keeps_flags_drop_different [OF calls] keeps_flags_run_turn [OF calls]
  show ?thesis
    using parts unfolding keeps_flags_def prepareExecution_def Let_def
    by (intro allI keeps_rules keeps_modify; blast?; simp)
qed

lemma keeps_flags_finish: "keeps_flags (CallClose \<in> set c1 \<union> set c2) (slot_finish r c1 c2)"
proof -
  let ?c = "CallClose \<in> set c1 \<union> set c2"
  have "keeps_flags ?c (awaited c1)" "keeps_flags ?c (awaited c2)" by (rule keeps_flags_awaited; simp)+
  with keeps_flags_parts [of ?c] show ?thesis
    unfolding keeps_flags_def slot_finish_def
    by (auto intro!: keeps_rules keeps_modify split: option.splits)
qed

lemma keeps_flags_invalidate: "keeps_flags False (slot_invalidate reason)"
  using keeps_flags_parts(3) [of False]
  unfolding keeps_flags_def slot_invalidate_def by (auto intro!: keeps_rules keeps_modify)

lemma pool_ok_slot: "pool_ok p \<Longrightarrow> k < length (po_slots p) \<Longrightarrow> slot_ok (po_closing p) (po_slots p ! k)"
  by (simp add: pool_ok_def list_all_length)

lemma pool_ok_with_slot:
  assumes "pool_ok p" and "k < length (po_slots p)" and "flags_kept c (ps_slot (po_slots p ! k)) s"
  shows "pool_ok (close_if c (with_slot k s p))"
proof -
  let ?x = "(po_slots p ! k)\<lparr>ps_slot := s\<rparr>"
  have same: "t \<in> set (ps_threads (po_slots p ! k)) \<Longrightarrow> j < length (po_slots p) \<Longrightarrow>
      t \<in> set (ps_threads (po_slots p ! j)) \<Longrightarrow> j = k" for t j
    using assms(1,2) by (auto simp: pool_ok_def)
  show ?thesis
  proof (cases c)
    case False
    have "slot_ok (po_closing p) ?x"
      using pool_ok_slot [OF assms(1,2)] assms(3) False by (auto simp: slot_ok_def flags_kept_def)
    then have "pool_ok (set_slot k ?x p)" using same by (intro pool_ok_set_slot [OF assms(1,2)]) simp_all
    with False show ?thesis by (simp add: close_if_def with_slot_def)
  next
    case True
    have closing: "pool_ok (p\<lparr>po_closing := True\<rparr>)"
      using assms(1) by (auto simp: pool_ok_def slot_ok_def list_all_iff)
    have "slot_ok True ?x"
      using pool_ok_slot [OF assms(1,2)] assms(3) by (auto simp: slot_ok_def flags_kept_def)
    then have "pool_ok (set_slot k ?x (p\<lparr>po_closing := True\<rparr>))"
      using same assms(2) by (intro pool_ok_set_slot [OF closing]) simp_all
    moreover have "pool_close q = (q\<lparr>po_closing := True\<rparr>)\<lparr>po_slots :=
        map (\<lambda>x. x\<lparr>ps_slot := (ps_slot x)\<lparr>sl_closing := True\<rparr>\<rparr>) (po_slots q)\<rparr>" for q
      by (simp add: pool_close_def)
    ultimately show ?thesis
      using True by (simp add: close_if_def with_slot_def set_slot_def)
        (auto simp: pool_ok_def slot_ok_def list_all_iff)
  qed
qed

lemma pool_start_ok:
  assumes "pool_ok p" and "pool_start t r p = (x, p')"
  shows "pool_ok p'"
proof (cases rule: pool_start_cases [OF assms(1), of t r])
  case (1 e q)
  with assms(2) show ?thesis by simp
next
  case (2 k q)
  with assms(2) show ?thesis by simp
qed

lemma pool_step_ok:
  assumes "pool_step p p'" and "pool_ok p"
  shows "pool_ok p'"
  using assms(1)
proof cases
  case (pool_starts t r x)
  then show ?thesis using pool_start_ok assms(2) by blast
next
  case (pool_prepares k calls r profile fp e x s)
  then show ?thesis using pool_ok_with_slot assms(2) keeps_flagsD [OF keeps_flags_prepare] by metis
next
  case (pool_host k h)
  have "flags_kept False (ps_slot (po_slots p ! k))
      ((ps_slot (po_slots p ! k))\<lparr>sl_host := Some (h\<lparr>ho_reusable := False\<rparr>)\<rparr>)"
    by (simp add: flags_kept_def)
  then have "pool_ok (close_if False p')"
    unfolding pool_host(1) by (rule pool_ok_with_slot [OF assms(2) pool_host(2)])
  then show ?thesis by (simp add: close_if_def)
next
  case (pool_slot_finishes k c1 c2 r)
  have "flags_kept (CallClose \<in> set c1 \<union> set c2) (ps_slot (po_slots p ! k))
      (snd (slot_finish r c1 c2 (ps_slot (po_slots p ! k))))"
    using keeps_flagsD [OF keeps_flags_finish] by (metis prod.collapse)
  then show ?thesis
    using pool_ok_with_slot [OF assms(2) pool_slot_finishes(2)] pool_slot_finishes(1)
    by (simp add: pool_slot_finish_def with_slot_def Let_def)
next
  case (pool_finishes k)
  have "slot_ok (po_closing p) ((po_slots p ! k)\<lparr>ps_busy := False\<rparr>)"
    using pool_ok_slot [OF assms(2) pool_finishes(2)] pool_finishes(3) by (simp add: slot_ok_def)
  then show ?thesis
    unfolding pool_finishes(1) pool_finish_def
    using assms(2) pool_finishes(2) by (intro pool_ok_set_slot) (auto simp: pool_ok_def)
next
  case (pool_invalidates reason)
  have "slot_ok c (x\<lparr>ps_slot := snd (slot_invalidate reason (ps_slot x))\<rparr>)" if "slot_ok c x" for c x
    using that keeps_flagsD [OF keeps_flags_invalidate, of reason "ps_slot x"]
    by (cases "slot_invalidate reason (ps_slot x)") (auto simp: slot_ok_def flags_kept_def)
  then show ?thesis using assms(2) by (auto simp: pool_invalidates pool_invalidate_def pool_ok_def list_all_iff)
next
  case pool_closes
  then show ?thesis using assms(2) by (auto simp: pool_close_def pool_ok_def slot_ok_def list_all_iff)
qed

lemma pool_history_ok: "pool_history p \<Longrightarrow> pool_ok p"
proof (induction rule: pool_history.induct)
  case (pool_created v p)
  then have "p = new_pool (nat (normalizeMaxConcurrency v))"
    by (auto simp: createPersistentAppServerExecutor_def Let_def split: if_splits)
  then show ?case by (simp add: pool_ok_def new_pool_def)
next
  case (pool_continues p p')
  then show ?case by (blast intro: pool_step_ok)
qed

lemma normalizeMax_range: "1 \<le> normalizeMaxConcurrency v \<and> normalizeMaxConcurrency v \<le> 10"
proof (cases v)
  case (Some x)
  then show ?thesis
    by (auto simp: normalizeMaxConcurrency_def MAX_PERSISTENT_APP_SERVER_MAX_CONCURRENCY_def not_less)
qed (simp add: normalizeMaxConcurrency_def)

lemma pool_step_max: "pool_step p p' \<Longrightarrow> po_max p' = po_max p"
  by (induction rule: pool_step.induct)
     (auto simp: pool_start_def selectSlot_def set_slot_def with_slot_def close_if_def pool_close_def
       pool_slot_finish_def pool_finish_def pool_invalidate_def Let_def split: if_splits option.splits prod.splits sum.splits)

lemma pool_history_limit: "pool_history p \<Longrightarrow> \<exists>v. po_max p = nat (normalizeMaxConcurrency v)"
proof (induction rule: pool_history.induct)
  case (pool_created v p)
  then have "po_max p = nat (normalizeMaxConcurrency v)"
    by (auto simp: createPersistentAppServerExecutor_def new_pool_def Let_def split: if_splits)
  then show ?case by blast
next
  case (pool_continues p p')
  then show ?case by (simp add: pool_step_max)
qed

lemma pool_history_max: "pool_history p \<Longrightarrow> po_max p \<le> 10"
proof (induction rule: pool_history.induct)
  case (pool_created v p)
  then show ?case
    using normalizeMax_range [of v]
    by (auto simp: createPersistentAppServerExecutor_def new_pool_def Let_def split: if_splits)
next
  case (pool_continues p p')
  then show ?case by (simp add: pool_step_max)
qed

text \<open>A pool with room for one slot that has the slot \<open>s\<close>, or none yet\<close>

definition pool_of_one :: "slot \<Rightarrow> pool \<Rightarrow> bool" where
  "pool_of_one s p \<longleftrightarrow>
     po_max p = 1 \<and>
     (po_slots p = [] \<and> s = new_slot \<and> \<not> po_closing p \<or>
      (\<exists>x. po_slots p = [x] \<and> ps_slot x = s \<and> ps_busy x = sl_busy s \<and> po_closing p = sl_closing s))"

section \<open>The host that a run gets\<close>

lemma modify_Inr [inr_simps]: "modify f s = (Inr b, s') \<longleftrightarrow> b = () \<and> s' = f s"
  by (auto simp: modify_def)

lemma catch_throw_Inr:
  "catchE m (\<lambda>e. thenE (n e) (throw (f e))) s = (Inr a, s') \<longleftrightarrow> m s = (Inr a, s')"
  by (auto simp: catchE_def thenE_Inr throw_Inr split: prod.splits sum.splits)

lemma receive_open:
  "\<not> sl_closing (fold receive calls s) \<Longrightarrow> \<not> sl_closing s \<and> CallClose \<notin> set calls"
proof (induction calls arbitrary: s)
  case (Cons a calls)
  have "sl_closing s \<or> a = CallClose \<longrightarrow> sl_closing (receive a s)" by (cases a) auto
  then show ?case using Cons.IH [of "receive a s"] Cons.prems by auto
qed simp

lemma receive_host: "sl_host (fold receive calls s) = sl_host s"
proof (induction calls arbitrary: s)
  case (Cons a calls)
  have "sl_host (receive a s) = sl_host s" by (cases a) auto
  then show ?case using Cons.IH [of "receive a s"] by simp
qed simp

lemma receive_fresh:
  "\<not> sl_closing (fold receive calls s) \<Longrightarrow> sl_stale (fold receive calls s) = None \<Longrightarrow>
   sl_stale s = None \<and> (\<forall>reason. CallInvalidate reason \<notin> set calls)"
proof (induction calls arbitrary: s)
  case (Cons a calls)
  have "\<not> sl_closing (receive a s)" using receive_open [of calls "receive a s"] Cons.prems by simp
  then have "\<not> sl_closing s" using receive_open [of "[a]" s] by simp
  then show ?case using Cons.IH [of "receive a s"] Cons.prems by (cases a) auto
qed simp

lemma assertOpen_Inr [inr_simps]: "assertOpen s = (Inr b, s') \<longleftrightarrow> \<not> sl_closing s \<and> s' = s"
  by (auto simp: assertOpen_def inr_simps)

lemma awaited_Inr [inr_simps]: "awaited calls s = (Inr b, s') \<longleftrightarrow> s' = fold receive calls s"
  by (auto simp: awaited_def inr_simps)

lemma emitLifecycle_Inr [inr_simps]: "emitLifecycle e s = (Inr b, s') \<longleftrightarrow> s' = s\<lparr>sl_log := sl_log s @ [e]\<rparr>"
  by (auto simp: emitLifecycle_def inr_simps)

lemma clearHost_Inr: "clearHost reason s = (Inr b, s') \<Longrightarrow> sl_host s' = None"
  by (auto simp: clearHost_def inr_simps split: if_splits)

lemma drop_stale_Inr:
  "drop_stale calls s = (Inr (), s') \<Longrightarrow> s' = s \<and> (sl_host s = None \<or> sl_stale s = None) \<or> sl_host s' = None"
  by (auto simp: drop_stale_def inr_simps receive_host split: option.splits dest: clearHost_Inr)

lemma drop_different_Inr:
  "drop_different r profile fp calls s = (Inr (), s') \<Longrightarrow>
   s' = s \<and> (\<forall>h. sl_host s = Some h \<longrightarrow> same_host profile fp h) \<or> sl_host s' = None"
  by (auto simp: drop_different_def inr_simps receive_host split: option.splits if_splits dest!: clearHost_Inr)

lemma run_turn_Inr:
  "run_turn calls e s = (Inr (), s') \<Longrightarrow> s' = fold receive calls s \<and> \<not> sl_closing s' \<and> e = None"
  by (auto simp: run_turn_def inr_simps split: option.splits)

section \<open>Properties\<close>

text \<open>
  C33. \<^verbatim>\<open>canStart\<close> tells the truth: in every state a pool can reach, it says yes to a thread exactly
  when \<^verbatim>\<open>start\<close> would take a run of the thread, and otherwise \<^verbatim>\<open>start\<close> raises.
\<close>

theorem canStart_decides_start:
  assumes "pool_history p"
  shows "pool_canStart t p \<longleftrightarrow> (\<exists>k p'. pool_start t r p = (Inr k, p'))"
proof (cases rule: pool_start_cases [OF pool_history_ok [OF assms], of t r])
  case (1 e p')
  then show ?thesis by simp
next
  case (2 k p')
  then show ?thesis by simp
qed

text \<open>
  C34. A pool never runs more than its limit at a time, and never two runs in one slot. The limit is the one
  it was created with, \<^verbatim>\<open>normalizeMaxConcurrency\<close> of the configured number, and at most 10; a thread belongs to at most one slot, a new run of the thread goes to that slot, and no
  slot loses a thread.
\<close>

theorem pool_slots_apart:
  assumes "pool_history p" and "pool_start t r p = (Inr k, p')"
  shows "length (filter ps_busy (po_slots p')) \<le> po_max p' \<and>
    po_max p' = po_max p \<and> (\<exists>v. po_max p = nat (normalizeMaxConcurrency v)) \<and> po_max p \<le> 10 \<and>
    (k < length (po_slots p) \<longrightarrow> \<not> ps_busy (po_slots p ! k)) \<and>
    (\<forall>j < length (po_slots p). t \<in> set (ps_threads (po_slots p ! j)) \<longrightarrow> j = k) \<and>
    t \<in> set (ps_threads (po_slots p' ! k)) \<and>
    (\<forall>i j u. i < length (po_slots p') \<longrightarrow> j < length (po_slots p') \<longrightarrow>
       u \<in> set (ps_threads (po_slots p' ! i)) \<longrightarrow> u \<in> set (ps_threads (po_slots p' ! j)) \<longrightarrow> i = j) \<and>
    (\<forall>j < length (po_slots p). set (ps_threads (po_slots p ! j)) \<subseteq> set (ps_threads (po_slots p' ! j)))"
proof (cases rule: pool_start_cases [OF pool_history_ok [OF assms(1)], of t r])
  case (1 e q)
  with assms(2) show ?thesis by simp
next
  case (2 j q)
  then have eq: "q = p'" "j = k" using assms(2) by simp_all
  have "length (po_slots p') \<le> po_max p'" using 2(2) eq by (simp add: pool_ok_def)
  then have "length (filter ps_busy (po_slots p')) \<le> po_max p'" using length_filter_le order_trans by blast
  moreover have "po_max p' = po_max p" using pool_step_max [OF pool_starts [OF assms(2)]] .
  moreover have "\<exists>v. po_max p = nat (normalizeMaxConcurrency v)" "po_max p \<le> 10"
    using pool_history_limit [OF assms(1)] pool_history_max [OF assms(1)] by blast+
  moreover have "\<forall>i j u. i < length (po_slots p') \<longrightarrow> j < length (po_slots p') \<longrightarrow>
       u \<in> set (ps_threads (po_slots p' ! i)) \<longrightarrow> u \<in> set (ps_threads (po_slots p' ! j)) \<longrightarrow> i = j"
    using 2(2) eq by (simp add: pool_ok_def)
  ultimately show ?thesis using 2 eq by blast
qed

text \<open>
  A run that finds its slot with a server gets that server only when it still fits: it can be
  reused, it has the run's profile and configuration, and it was not invalidated before the run or
  while its configuration was prepared. In every case the server that runs the turn has the run's
  profile and configuration, and the slot is not closing.
\<close>

lemma host_of_run_fits:
  assumes "prepareExecution r runProfile (Inr fp) calls e s = (Inr reused, s')"
  shows "\<not> sl_closing s' \<and>
    (\<exists>h. sl_host s' = Some h \<and> same_host (normalizeAppServerProfile runProfile) fp h \<and> (reused \<longrightarrow> sl_host s = Some h)) \<and>
    (reused \<longrightarrow> sl_stale s = None \<and> (\<forall>reason. CallInvalidate reason \<notin> set (calls 0) \<union> set (calls 1)))"
proof -
  let ?profile = "normalizeAppServerProfile runProfile"
  define s1 where "s1 = fold receive (calls 1) (fold receive (calls 0) s)"
  obtain s2 s3 where s2: "drop_stale (calls 2) s1 = (Inr (), s2)"
    and s3: "drop_different r ?profile fp (calls 3) s2 = (Inr (), s3)"
    and last: "(if sl_host s3 = None then
         thenE assertOpen
         (catchE
           (thenE (modify (\<lambda>s. s\<lparr>sl_host :=
              Some \<lparr>ho_profile = ?profile, ho_fingerprint = fp, ho_reusable = True\<rparr>\<rparr>))
           (thenE (run_turn (calls 4) e)
           (thenE (emitLifecycle (LcRunAssigned r)) (ret False))))
           (\<lambda>e. thenE (clearHost ''start_failed'') (throw e)))
       else
         thenE (run_turn (calls 4) e)
         (thenE (emitLifecycle (LcProcessReused r))
         (thenE (emitLifecycle (LcRunAssigned r)) (ret True)))) s3 = (Inr reused, s')"
    using assms unfolding prepareExecution_def Let_def s1_def by (auto simp only: inr_simps simp_thms sum.inject)
  show ?thesis
  proof (cases "sl_host s3")
    case None
    with last show ?thesis
      by (auto simp: inr_simps catch_throw_Inr receive_host same_host_def dest!: run_turn_Inr)
  next
    case (Some h)
    obtain s4 where s4: "run_turn (calls 4) e s3 = (Inr (), s4)"
      and s': "reused" "sl_host s' = sl_host s4" "sl_closing s' = sl_closing s4"
      using last Some by (auto simp: inr_simps)
    note open4 = run_turn_Inr [OF s4]
    have eq: "s3 = s2" "s2 = s1" and h: "same_host ?profile fp h"
      using drop_stale_Inr [OF s2] drop_different_Inr [OF s3] Some by auto
    have "\<not> sl_closing s1" using open4 receive_open eq by metis
    moreover have "sl_stale s1 = None" using drop_stale_Inr [OF s2] Some eq by auto
    ultimately have fresh: "sl_stale s = None \<and> (\<forall>reason. CallInvalidate reason \<notin> set (calls 0) \<union> set (calls 1))"
      using receive_fresh [of "calls 0 @ calls 1" s] by (auto simp: s1_def)
    have "sl_host s' = Some h" "sl_host s = Some h"
      using s' open4 Some eq by (simp_all add: receive_host s1_def)
    moreover have "\<not> sl_closing s'" unfolding s'(3) using open4 by blast
    ultimately show ?thesis using h fresh by blast
  qed
qed

text \<open>
  The executor for \<^verbatim>\<open>maxConcurrency\<close> 1, which is a slot without a pool, answers and starts as a
  pool of one slot would, with the same errors, and the two remain equal.
\<close>

lemma one_slot_as_pool:
  assumes "pool_of_one s p"
  shows "slot_canStart s = pool_canStart t p \<and>
    fst (executor_start t r (SlotExecutor s)) = fst (executor_start t r (PoolExecutor p)) \<and>
    pool_of_one (snd (slot_start r s)) (snd (pool_start t r p))"
proof (cases "po_slots p = []")
  case True
  then have "s = new_slot" "\<not> po_closing p" "po_max p = 1" using assms by (auto simp: pool_of_one_def)
  with True show ?thesis
    by (simp add: pool_of_one_def slot_canStart_def pool_canStart_def findOwner_def slot_start_result pool_start_def
        selectSlot_def least_loaded_def idle_indexes_def set_slot_def new_slot_def)
next
  case False
  then obtain x where x: "po_slots p = [x]" and s: "ps_slot x = s" "ps_busy x = sl_busy s"
    "po_closing p = sl_closing s" "po_max p = 1"
    using assms by (auto simp: pool_of_one_def)
  show ?thesis
    using s by (cases "t \<in> set (ps_threads x)"; cases "sl_closing s"; cases "sl_busy s")
      (simp_all add: x pool_of_one_def slot_canStart_def pool_canStart_def findOwner_def slot_start_result
        pool_start_def selectSlot_def least_loaded_def idle_indexes_def set_slot_def)
qed

section \<open>Witnesses\<close>

definition sample_pool :: pool where
  "sample_pool = snd (pool_start ''t1'' ''r1'' (new_pool 2))"

lemma sample_pool_history: "pool_history sample_pool"
proof -
  have "createPersistentAppServerExecutor (Some 2) = PoolExecutor (new_pool 2)"
    by (simp add: createPersistentAppServerExecutor_def normalizeMaxConcurrency_def isSafeInteger_def
        MAX_PERSISTENT_APP_SERVER_MAX_CONCURRENCY_def)
  then have "pool_history (new_pool 2)" by (rule pool_created)
  moreover have "pool_step (new_pool 2) sample_pool"
    unfolding sample_pool_def by (rule pool_starts) (rule prod.collapse [symmetric])
  ultimately show ?thesis by (rule pool_continues)
qed

lemma canStart_decides_start_witness:
  "pool_canStart ''t2'' sample_pool \<and> (\<exists>k p'. pool_start ''t2'' ''r2'' sample_pool = (Inr k, p')) \<and>
   \<not> pool_canStart ''t1'' sample_pool \<and> \<not> (\<exists>k p'. pool_start ''t1'' ''r2'' sample_pool = (Inr k, p'))"
proof -
  have "pool_canStart ''t2'' sample_pool" "\<not> pool_canStart ''t1'' sample_pool" by code_simp+
  then show ?thesis using canStart_decides_start [OF sample_pool_history] by blast
qed

lemma pool_slots_apart_witness:
  "\<exists>p'. pool_start ''t2'' ''r2'' sample_pool = (Inr 1, p') \<and> length (filter ps_busy (po_slots p')) \<le> 2 \<and>
     ''t2'' \<in> set (ps_threads (po_slots p' ! 1))"
proof -
  have "fst (pool_start ''t2'' ''r2'' sample_pool) = Inr 1" by code_simp
  then obtain p' where "pool_start ''t2'' ''r2'' sample_pool = (Inr 1, p')" by (metis prod.collapse)
  moreover have "po_max sample_pool = 2" by code_simp
  ultimately show ?thesis using pool_slots_apart [OF sample_pool_history, of "''t2''" "''r2''" 1 p'] by auto
qed

lemma host_of_run_fits_witness:
  "\<exists>s'. prepareExecution ''r'' ''default'' (Inr ''f'') (\<lambda>_. []) None
      (new_slot\<lparr>sl_busy := True, sl_host := Some \<lparr>ho_profile = ''default'', ho_fingerprint = ''f'', ho_reusable = True\<rparr>\<rparr>)
      = (Inr True, s') \<and> \<not> sl_closing s'"
proof -
  let ?run = "prepareExecution ''r'' ''default'' (Inr ''f'') (\<lambda>_. []) None
      (new_slot\<lparr>sl_busy := True, sl_host := Some \<lparr>ho_profile = ''default'', ho_fingerprint = ''f'', ho_reusable = True\<rparr>\<rparr>)"
  have "fst ?run = Inr True" by code_simp
  then obtain s' where "?run = (Inr True, s')" by (metis prod.collapse)
  then show ?thesis using host_of_run_fits by blast
qed

lemma one_slot_as_pool_witness:
  "fst (executor_start ''t'' ''r'' (SlotExecutor new_slot)) = fst (executor_start ''t'' ''r'' (PoolExecutor (new_pool 1)))"
proof -
  have "pool_of_one new_slot (new_pool 1)" by (simp add: pool_of_one_def new_pool_def)
  then show ?thesis using one_slot_as_pool by blast
qed

end
