(* ===== verification/CapabilityTokens.thy ===== *)
theory CapabilityTokens
  imports ClaweePrelude
begin

text \<open>
  The capability tokens of \<^verbatim>\<open>agent-tools/capability-token.ts\<close>: what an agent run may do with
  the schedule tools. The store keeps, under the digest of each secret, a run capability (one
  grant for its life) or a process lease (a maximum scope set and at most one active grant),
  and an index from run to digests that \<open>revokeRun\<close> uses.

  The random secret, the SHA-256 digest and the readings of the clock are arguments: \<open>dg\<close> is
  \<^verbatim>\<open>digestToken\<close> and each \<open>now\<close> is what \<^verbatim>\<open>clock.now()\<close> returns at that call. The lease
  object's methods are functions of the lease's digest. Messages are kept as the code has
  them; the interval timer is the flag \<open>cap_timer\<close>.
\<close>

section \<open>Data\<close>

datatype created_by = ByApi | BySchedule

definition AGENT_CAPABILITY_SCOPES :: "string list" where
  "AGENT_CAPABILITY_SCOPES =
     [''schedule:get'', ''schedule:create'', ''schedule:update'', ''schedule:pause'',
      ''schedule:resume'', ''schedule:run_now'']"

definition MUTATION_SCOPES :: "string list" where
  "MUTATION_SCOPES =
     [''schedule:create'', ''schedule:update'', ''schedule:pause'', ''schedule:resume'',
      ''schedule:run_now'']"

definition CAPABILITY_PREFIX :: string where
  "CAPABILITY_PREFIX = ''clwcap_''"

definition MAX_TOKEN_LENGTH :: nat where
  "MAX_TOKEN_LENGTH = 512"

definition DEFAULT_TTL_MS :: ms where
  "DEFAULT_TTL_MS = 5 * 60 * 1000"

record cap_grant =
  g_runId :: run_id
  g_threadId :: thread_id
  g_createdBy :: created_by
  g_scopes :: "string list"
  g_issuedAt :: ms
  g_expiresAt :: ms

record active_grant = cap_grant +
  g_expiresAtMs :: ms

datatype cap_record =
    RunCap active_grant bool \<comment> \<open>the grant; revoked\<close>
  | ProcessCap "string list" "active_grant option" bool \<comment> \<open>maxScopes; active; revoked\<close>

datatype cap_code =
    CAPABILITY_STORE_CLOSED
  | CAPABILITY_TOKEN_MISSING
  | CAPABILITY_TOKEN_INVALID
  | CAPABILITY_TOKEN_EXPIRED
  | CAPABILITY_TOKEN_REVOKED
  | CAPABILITY_CONTEXT_INACTIVE
  | CAPABILITY_CONTEXT_ACTIVE
  | CAPABILITY_SCOPE_FORBIDDEN
  | CAPABILITY_RUN_FORBIDDEN
  | CAPABILITY_THREAD_FORBIDDEN

datatype cap_error = CapError cap_code nat string \<comment> \<open>code, HTTP status, message\<close>

record cap_store =
  cap_records :: "(string, cap_record) assoc"
  cap_digestsByRun :: "(run_id, string list) assoc"
  cap_closed :: bool
  cap_timer :: bool
  cap_ttlMs :: ms

definition new_store :: "ms option \<Rightarrow> cap_store" where
  "new_store ttl =
     \<lparr>cap_records = [], cap_digestsByRun = [], cap_closed = False, cap_timer = True,
      cap_ttlMs = (case ttl of None \<Rightarrow> DEFAULT_TTL_MS | Some t \<Rightarrow> t)\<rparr>"

section \<open>Helpers\<close>

fun uniqueScopesLoop :: "string list \<Rightarrow> string list \<Rightarrow> cap_error + string list" where
  "uniqueScopesLoop [] result = Inr result"
| "uniqueScopesLoop (s # ss) result =
     (if s \<notin> set AGENT_CAPABILITY_SCOPES
      then Inl (CapError CAPABILITY_SCOPE_FORBIDDEN 403 ''Capability scope is not recognized'')
      else uniqueScopesLoop ss (if s \<in> set result then result else result @ [s]))"

definition uniqueScopes :: "string list \<Rightarrow> cap_error + string list" where
  "uniqueScopes scopes = uniqueScopesLoop scopes []"

definition cloneGrant :: "active_grant \<Rightarrow> cap_grant" where
  "cloneGrant g =
     \<lparr>g_runId = g_runId g, g_threadId = g_threadId g, g_createdBy = g_createdBy g,
      g_scopes = g_scopes g, g_issuedAt = g_issuedAt g, g_expiresAt = g_expiresAt g\<rparr>"

definition createGrant ::
  "cap_store \<Rightarrow> ms \<Rightarrow> run_id \<Rightarrow> thread_id \<Rightarrow> created_by \<Rightarrow> string list \<Rightarrow> active_grant" where
  "createGrant s now runId threadId createdBy scopes =
     \<lparr>g_runId = runId, g_threadId = threadId, g_createdBy = createdBy, g_scopes = scopes,
      g_issuedAt = now, g_expiresAt = now + cap_ttlMs s, g_expiresAtMs = now + cap_ttlMs s\<rparr>"

definition linkDigestToRun :: "run_id \<Rightarrow> string \<Rightarrow> cap_store \<Rightarrow> cap_store" where
  "linkDigestToRun runId d s =
     (let runDigests = (case map_of (cap_digestsByRun s) runId of None \<Rightarrow> [] | Some ds \<Rightarrow> ds)
      in s\<lparr>cap_digestsByRun := map_put runId (set_add d runDigests) (cap_digestsByRun s)\<rparr>)"

definition unlinkDigestFromRun :: "run_id \<Rightarrow> string \<Rightarrow> cap_store \<Rightarrow> cap_store" where
  "unlinkDigestFromRun runId d s =
     (case map_of (cap_digestsByRun s) runId of
        None \<Rightarrow> s
      | Some ds \<Rightarrow>
          (let ds' = removeAll d ds
           in if ds' = [] then s\<lparr>cap_digestsByRun := map_del runId (cap_digestsByRun s)\<rparr>
              else s\<lparr>cap_digestsByRun := map_put runId ds' (cap_digestsByRun s)\<rparr>))"

definition removeRecord :: "string \<Rightarrow> cap_record \<Rightarrow> cap_store \<Rightarrow> cap_store" where
  "removeRecord d r s =
     (let s' = s\<lparr>cap_records := map_del d (cap_records s)\<rparr>;
          runId = (case r of RunCap g _ \<Rightarrow> Some (g_runId g)
                           | ProcessCap _ a _ \<Rightarrow> map_option g_runId a)
      in case runId of None \<Rightarrow> s' | Some i \<Rightarrow> unlinkDigestFromRun i d s')"

definition clearProcessGrant :: "string \<Rightarrow> cap_store \<Rightarrow> cap_store" where
  "clearProcessGrant d s =
     (case map_of (cap_records s) d of
        Some (ProcessCap ms active rv) \<Rightarrow>
          (let s' = s\<lparr>cap_records := map_put d (ProcessCap ms None rv) (cap_records s)\<rparr>
           in case active of None \<Rightarrow> s' | Some g \<Rightarrow> unlinkDigestFromRun (g_runId g) d s')
      | _ \<Rightarrow> s)"

definition expireProcessGrant :: "ms \<Rightarrow> string \<Rightarrow> cap_store \<Rightarrow> cap_store" where
  "expireProcessGrant now d s =
     (case map_of (cap_records s) d of
        Some (ProcessCap ms (Some g) rv) \<Rightarrow>
          (if g_expiresAtMs g \<le> now then clearProcessGrant d s else s)
      | _ \<Rightarrow> s)"

definition assertStoreOpen :: "(cap_store, cap_error, unit) act" where
  "assertStoreOpen =
     bindE (gets cap_closed) (\<lambda>closed.
       guardE (\<not> closed)
         (CapError CAPABILITY_STORE_CLOSED 503 ''Capability token store is closed''))"

definition tokenInvalid :: cap_error where
  "tokenInvalid = CapError CAPABILITY_TOKEN_INVALID 401 ''Capability token is invalid''"

definition bindingInvalid :: cap_error where
  "bindingInvalid = CapError CAPABILITY_TOKEN_INVALID 400 ''Capability binding is invalid''"

definition getProcessRecord :: "string \<Rightarrow> (cap_store, cap_error, string list) act" where
  "getProcessRecord d =
     thenE assertStoreOpen
       (bindE (gets (\<lambda>s. map_of (cap_records s) d)) (\<lambda>r.
          case r of Some (ProcessCap ms _ False) \<Rightarrow> ret ms | _ \<Rightarrow> throw tokenInvalid))"

section \<open>Operations\<close>

definition issue ::
  "(string \<Rightarrow> string) \<Rightarrow> string \<Rightarrow> ms \<Rightarrow> run_id \<Rightarrow> thread_id \<Rightarrow> created_by \<Rightarrow> string list \<Rightarrow>
   (cap_store, cap_error, string \<times> ms) act" where
  "issue dg secret now runId threadId createdBy scopes =
     thenE assertStoreOpen
     (thenE (guardE (js_trim runId \<noteq> [] \<and> js_trim threadId \<noteq> []) bindingInvalid)
     (bindE (liftE (uniqueScopes scopes)) (\<lambda>us.
      thenE (guardE (us \<noteq> [])
        (CapError CAPABILITY_SCOPE_FORBIDDEN 403 ''At least one capability scope is required''))
     (thenE (guardE (\<not> (createdBy = BySchedule \<and> list_ex (\<lambda>x. x \<in> set MUTATION_SCOPES) us))
        (CapError CAPABILITY_SCOPE_FORBIDDEN 403
           ''Automatic schedule runs cannot receive mutation scopes''))
     (bindE (gets (\<lambda>s. createGrant s now runId threadId createdBy us)) (\<lambda>grant.
      thenE (modify (\<lambda>s. linkDigestToRun runId (dg secret)
               (s\<lparr>cap_records := map_put (dg secret) (RunCap grant False) (cap_records s)\<rparr>)))
        (ret (secret, g_expiresAt grant))))))))"

text \<open>\<open>issueProcess\<close> returns the secret; the lease is the digest of it.\<close>

definition issueProcess ::
  "(string \<Rightarrow> string) \<Rightarrow> string \<Rightarrow> created_by \<Rightarrow> string list \<Rightarrow> (cap_store, cap_error, string) act" where
  "issueProcess dg secret createdBy maxScopes =
     thenE assertStoreOpen
     (thenE (guardE (createdBy = ByApi)
        (CapError CAPABILITY_SCOPE_FORBIDDEN 403
           ''Automatic schedule runs cannot create process capability leases''))
     (bindE (liftE (uniqueScopes maxScopes)) (\<lambda>ms.
      thenE (guardE (ms \<noteq> [])
        (CapError CAPABILITY_SCOPE_FORBIDDEN 403
           ''At least one maximum capability scope is required''))
     (thenE (modify (\<lambda>s. s\<lparr>cap_records :=
                map_put (dg secret) (ProcessCap ms None False) (cap_records s)\<rparr>))
        (ret secret)))))"

text \<open>\<open>now1\<close> is the reading of \<open>expireProcessGrant\<close>, \<open>now2\<close> that of \<open>createGrant\<close>.\<close>

definition leaseActive :: "string \<Rightarrow> cap_store \<Rightarrow> active_grant option" where
  "leaseActive d s =
     (case map_of (cap_records s) d of Some (ProcessCap _ a _) \<Rightarrow> a | _ \<Rightarrow> None)"

definition lease_activate ::
  "string \<Rightarrow> ms \<Rightarrow> ms \<Rightarrow> run_id \<Rightarrow> thread_id \<Rightarrow> created_by \<Rightarrow> string list \<Rightarrow>
   (cap_store, cap_error, cap_grant) act" where
  "lease_activate d now1 now2 runId threadId createdBy scopes =
     bindE (getProcessRecord d) (\<lambda>maxScopes.
     thenE (modify (expireProcessGrant now1 d))
     (bindE (gets (leaseActive d)) (\<lambda>active.
      thenE (guardE (active = None)
        (CapError CAPABILITY_CONTEXT_ACTIVE 409
           ''Capability process lease already has an active run''))
     (thenE (guardE (createdBy = ByApi \<and> js_trim runId \<noteq> [] \<and> js_trim threadId \<noteq> []) bindingInvalid)
     (bindE (liftE (uniqueScopes scopes)) (\<lambda>us.
      thenE (guardE (us \<noteq> [] \<and> \<not> list_ex (\<lambda>x. x \<notin> set maxScopes) us)
        (CapError CAPABILITY_SCOPE_FORBIDDEN 403 ''Capability scope exceeds the process lease''))
     (bindE (gets (\<lambda>s. createGrant s now2 runId threadId createdBy us)) (\<lambda>grant.
      thenE (modify (\<lambda>s. linkDigestToRun runId d
               (s\<lparr>cap_records := map_put d (ProcessCap maxScopes (Some grant) False) (cap_records s)\<rparr>)))
        (ret (cloneGrant grant))))))))))"

definition lease_deactivate :: "string \<Rightarrow> ms \<Rightarrow> run_id \<Rightarrow> cap_store \<Rightarrow> bool \<times> cap_store" where
  "lease_deactivate d now runId s =
     (case map_of (cap_records s) d of
        Some (ProcessCap _ _ False) \<Rightarrow>
          (let s' = expireProcessGrant now d s
           in if map_option g_runId (leaseActive d s') \<noteq> Some runId then (False, s')
              else (True, clearProcessGrant d s'))
      | _ \<Rightarrow> (False, s))"

definition lease_revoke :: "string \<Rightarrow> cap_store \<Rightarrow> bool \<times> cap_store" where
  "lease_revoke d s =
     (case map_of (cap_records s) d of
        Some (ProcessCap _ _ False) \<Rightarrow>
          (let s' = clearProcessGrant d s
           in (True, s'\<lparr>cap_records := map_del d (cap_records s')\<rparr>))
      | _ \<Rightarrow> (False, s))"

definition starts_with :: "string \<Rightarrow> string \<Rightarrow> bool" where
  "starts_with p s \<longleftrightarrow> take (length p) s = p"

definition inspect ::
  "(string \<Rightarrow> string) \<Rightarrow> ms \<Rightarrow> string option \<Rightarrow> (cap_store, cap_error, cap_grant) act" where
  "inspect dg now token =
     (if token = None \<or> token = Some [] then
        throw (CapError CAPABILITY_TOKEN_MISSING 401 ''Capability token is required'')
      else if length (the token) > MAX_TOKEN_LENGTH \<or> \<not> starts_with CAPABILITY_PREFIX (the token) then
        throw tokenInvalid
      else
        (let d = dg (the token) in
         bindE (gets (\<lambda>s. map_of (cap_records s) d)) (\<lambda>found.
           case found of
             None \<Rightarrow> throw tokenInvalid
           | Some (RunCap g True) \<Rightarrow>
               throw (CapError CAPABILITY_TOKEN_REVOKED 401 ''Capability token has been revoked'')
           | Some (ProcessCap _ _ True) \<Rightarrow>
               throw (CapError CAPABILITY_TOKEN_REVOKED 401 ''Capability token has been revoked'')
           | Some (RunCap g False) \<Rightarrow>
               (if g_expiresAtMs g \<le> now
                then thenE (modify (removeRecord d (RunCap g False)))
                       (throw (CapError CAPABILITY_TOKEN_EXPIRED 401 ''Capability token has expired''))
                else ret (cloneGrant g))
           | Some (ProcessCap _ _ False) \<Rightarrow>
               thenE (modify (expireProcessGrant now d))
                 (bindE (gets (leaseActive d)) (\<lambda>active.
                    case active of
                      None \<Rightarrow> throw (CapError CAPABILITY_CONTEXT_INACTIVE 403
                                ''Capability process lease has no active run'')
                    | Some g \<Rightarrow> ret (cloneGrant g))))))"

definition authorize ::
  "(string \<Rightarrow> string) \<Rightarrow> ms \<Rightarrow> string option \<Rightarrow> string \<Rightarrow> run_id option \<Rightarrow> thread_id option \<Rightarrow>
   (cap_store, cap_error, cap_grant) act" where
  "authorize dg now token scope runId threadId =
     bindE (inspect dg now token) (\<lambda>grant.
     thenE (guardE (scope \<in> set (g_scopes grant))
       (CapError CAPABILITY_SCOPE_FORBIDDEN 403 ''Capability scope is not allowed''))
     (thenE (guardE (\<not> (runId \<noteq> None \<and> runId \<noteq> Some (g_runId grant)))
       (CapError CAPABILITY_RUN_FORBIDDEN 403 ''Capability run binding does not match''))
     (thenE (guardE (\<not> (threadId \<noteq> None \<and> threadId \<noteq> Some (g_threadId grant)))
       (CapError CAPABILITY_THREAD_FORBIDDEN 403 ''Capability thread binding does not match''))
       (ret grant))))"

fun revokeStep :: "run_id \<Rightarrow> string \<Rightarrow> cap_store \<times> nat \<Rightarrow> cap_store \<times> nat" where
  "revokeStep runId d (s, revoked) =
     (case map_of (cap_records s) d of
        None \<Rightarrow> (s, revoked)
      | Some (ProcessCap ms a rv) \<Rightarrow>
          (if rv then (s, revoked)
           else if map_option g_runId a \<noteq> Some runId then (s, revoked)
           else (clearProcessGrant d s, revoked + 1))
      | Some (RunCap g rv) \<Rightarrow>
          (if rv then (s, revoked)
           else (s\<lparr>cap_records := map_put d (RunCap g True) (cap_records s)\<rparr>, revoked + 1)))"

definition revokeRun :: "run_id \<Rightarrow> cap_store \<Rightarrow> nat \<times> cap_store" where
  "revokeRun runId s =
     (case map_of (cap_digestsByRun s) runId of
        None \<Rightarrow> (0, s)
      | Some ds \<Rightarrow> (let (s', n) = fold (revokeStep runId) ds (s, 0) in (n, s')))"

text \<open>
  The loop of \<open>cleanupExpired\<close> changes no entry but the one it is at, so going over the
  entries as they were at its start visits what the live iteration visits.
\<close>

fun cleanupStep :: "ms \<Rightarrow> string \<times> cap_record \<Rightarrow> cap_store \<times> nat \<Rightarrow> cap_store \<times> nat" where
  "cleanupStep now (d, RunCap g rv) (s, removed) =
     (if g_expiresAtMs g > now then (s, removed)
      else (removeRecord d (RunCap g rv) s, removed + 1))"
| "cleanupStep now (d, ProcessCap ms (Some g) rv) (s, removed) =
     (if g_expiresAtMs g \<le> now then (clearProcessGrant d s, removed + 1) else (s, removed))"
| "cleanupStep now (d, ProcessCap ms None rv) (s, removed) = (s, removed)"

definition cleanupExpired :: "ms \<Rightarrow> cap_store \<Rightarrow> nat \<times> cap_store" where
  "cleanupExpired now s =
     (let (s', n) = fold (cleanupStep now) (cap_records s) (s, 0) in (n, s'))"

definition close_store :: "cap_store \<Rightarrow> cap_store" where
  "close_store s =
     (if cap_closed s then s
      else s\<lparr>cap_closed := True, cap_timer := False, cap_records := [], cap_digestsByRun := []\<rparr>)"

section \<open>The index from runs to digests\<close>

fun binding :: "cap_record \<Rightarrow> run_id option" where
  "binding (RunCap g _) = Some (g_runId g)"
| "binding (ProcessCap _ a _) = map_option g_runId a"

definition bound :: "cap_store \<Rightarrow> string \<Rightarrow> run_id \<Rightarrow> bool" where
  "bound s d r \<longleftrightarrow> (\<exists>c. map_of (cap_records s) d = Some c \<and> binding c = Some r)"

definition linked :: "cap_store \<Rightarrow> string \<Rightarrow> run_id \<Rightarrow> bool" where
  "linked s d r \<longleftrightarrow> (\<exists>ds. map_of (cap_digestsByRun s) r = Some ds \<and> d \<in> set ds)"

definition no_empty_link :: "cap_store \<Rightarrow> bool" where
  "no_empty_link s \<longleftrightarrow> list_all (\<lambda>p. snd p \<noteq> [] \<and> distinct (snd p)) (cap_digestsByRun s)"

definition scopes_ok :: "string list \<Rightarrow> bool" where
  "scopes_ok ss \<longleftrightarrow> ss \<noteq> [] \<and> distinct ss \<and> set ss \<subseteq> set AGENT_CAPABILITY_SCOPES"

fun record_ok :: "cap_record \<Rightarrow> bool" where
  "record_ok (RunCap g _) \<longleftrightarrow>
     scopes_ok (g_scopes g) \<and> g_expiresAt g = g_expiresAtMs g \<and>
     (g_createdBy g = BySchedule \<longrightarrow> set (g_scopes g) \<inter> set MUTATION_SCOPES = {})"
| "record_ok (ProcessCap ms a rv) \<longleftrightarrow>
     scopes_ok ms \<and> \<not> rv \<and>
     (\<forall>g. a = Some g \<longrightarrow>
        scopes_ok (g_scopes g) \<and> set (g_scopes g) \<subseteq> set ms \<and> g_createdBy g = ByApi \<and>
        g_expiresAt g = g_expiresAtMs g)"

text \<open>
  The invariant of the store: the index holds exactly the bindings of the records, without
  empty entries, and every record is well formed.
\<close>

definition cap_inv :: "cap_store \<Rightarrow> bool" where
  "cap_inv s \<longleftrightarrow>
     keys_distinct (cap_records s) \<and> keys_distinct (cap_digestsByRun s) \<and> no_empty_link s \<and>
     (\<forall>d r. linked s d r = bound s d r) \<and>
     (\<forall>d c. map_of (cap_records s) d = Some c \<longrightarrow> record_ok c)"

lemma records_link [simp]: "cap_records (linkDigestToRun r d s) = cap_records s"
  by (simp add: linkDigestToRun_def)

lemma records_unlink [simp]: "cap_records (unlinkDigestFromRun r d s) = cap_records s"
  by (simp add: unlinkDigestFromRun_def Let_def split: option.splits)

lemma linked_link [simp]:
  "linked (linkDigestToRun r d s) d' r' \<longleftrightarrow> linked s d' r' \<or> (d' = d \<and> r' = r)"
  by (cases "map_of (cap_digestsByRun s) r") (auto simp: linked_def linkDigestToRun_def)

lemma linked_unlink [simp]:
  "linked (unlinkDigestFromRun r d s) d' r' \<longleftrightarrow> linked s d' r' \<and> \<not> (d' = d \<and> r' = r)"
  by (cases "map_of (cap_digestsByRun s) r")
    (auto simp: linked_def unlinkDigestFromRun_def Let_def dest!: arg_cong [where f = set])

lemma no_empty_linkD: "no_empty_link s \<Longrightarrow> map_of (cap_digestsByRun s) r = Some ds \<Longrightarrow> distinct ds"
  by (fastforce simp: no_empty_link_def list_all_iff dest: map_of_SomeD)

lemma no_empty_link_put:
  "no_empty_link s \<Longrightarrow> ds \<noteq> [] \<Longrightarrow> distinct ds \<Longrightarrow>
   no_empty_link (s\<lparr>cap_digestsByRun := map_put r ds (cap_digestsByRun s)\<rparr>)"
  using set_map_put [of r ds "cap_digestsByRun s"] by (fastforce simp: no_empty_link_def list_all_iff)

lemma no_empty_link_del:
  "no_empty_link s \<Longrightarrow> no_empty_link (s\<lparr>cap_digestsByRun := map_del r (cap_digestsByRun s)\<rparr>)"
  using set_map_del [of r "cap_digestsByRun s"] by (auto simp: no_empty_link_def list_all_iff)

lemma no_empty_link_link [simp]: "no_empty_link s \<Longrightarrow> no_empty_link (linkDigestToRun r d s)"
  unfolding linkDigestToRun_def Let_def
  by (rule no_empty_link_put) (auto split: option.splits dest: no_empty_linkD)

lemma no_empty_link_unlink [simp]:
  assumes "no_empty_link s"
  shows "no_empty_link (unlinkDigestFromRun r d s)"
proof (cases "map_of (cap_digestsByRun s) r")
  case None
  with assms show ?thesis by (simp add: unlinkDigestFromRun_def)
next
  case (Some ds)
  have "distinct (removeAll d ds)"
    by (rule distinct_removeAll) (rule no_empty_linkD [OF assms Some])
  then have "removeAll d ds \<noteq> [] \<Longrightarrow>
      no_empty_link (s\<lparr>cap_digestsByRun := map_put r (removeAll d ds) (cap_digestsByRun s)\<rparr>)"
    using assms by (intro no_empty_link_put)
  moreover have "no_empty_link (s\<lparr>cap_digestsByRun := map_del r (cap_digestsByRun s)\<rparr>)"
    using assms by (rule no_empty_link_del)
  ultimately show ?thesis by (simp add: unlinkDigestFromRun_def Some Let_def)
qed

lemma keys_link [simp]:
  "keys_distinct (cap_digestsByRun s) \<Longrightarrow> keys_distinct (cap_digestsByRun (linkDigestToRun r d s))"
  by (simp add: linkDigestToRun_def)

lemma keys_unlink [simp]:
  "keys_distinct (cap_digestsByRun s) \<Longrightarrow> keys_distinct (cap_digestsByRun (unlinkDigestFromRun r d s))"
  by (simp add: unlinkDigestFromRun_def Let_def split: option.splits)

lemma linked_records [simp]: "linked (s\<lparr>cap_records := m\<rparr>) d r = linked s d r"
  by (simp add: linked_def)

lemma no_empty_link_records [simp]: "no_empty_link (s\<lparr>cap_records := m\<rparr>) = no_empty_link s"
  by (simp add: no_empty_link_def)

section \<open>Every operation keeps the invariant\<close>

lemma uniqueScopesLoop_ok:
  "uniqueScopesLoop ss result = Inr us \<Longrightarrow> distinct result \<Longrightarrow> set result \<subseteq> set AGENT_CAPABILITY_SCOPES \<Longrightarrow>
   distinct us \<and> set us = set result \<union> set ss \<and> set us \<subseteq> set AGENT_CAPABILITY_SCOPES"
  by (induction ss result rule: uniqueScopesLoop.induct) (auto split: if_splits)

lemma uniqueScopes_ok:
  "uniqueScopes ss = Inr us \<Longrightarrow> distinct us \<and> set us = set ss \<and> set us \<subseteq> set AGENT_CAPABILITY_SCOPES"
  using uniqueScopesLoop_ok [of ss "[]" us] by (auto simp: uniqueScopes_def)

lemma uniqueScopes_scopes_ok: "uniqueScopes ss = Inr us \<Longrightarrow> us \<noteq> [] \<Longrightarrow> scopes_ok us"
  using uniqueScopes_ok by (auto simp: scopes_ok_def)

lemma cap_invD:
  assumes "cap_inv s"
  shows "linked s d r = bound s d r" and "map_of (cap_records s) d = Some c \<Longrightarrow> record_ok c"
  using assms by (auto simp: cap_inv_def)

text \<open>Adding a record under an unused digest and linking it.\<close>

lemma cap_inv_put:
  assumes "cap_inv s" and "record_ok c" and "\<And>r. \<not> bound s d r"
  shows "binding c = None \<Longrightarrow> cap_inv (s\<lparr>cap_records := map_put d c (cap_records s)\<rparr>)"
    and "binding c = Some r \<Longrightarrow>
      cap_inv (linkDigestToRun r d (s\<lparr>cap_records := map_put d c (cap_records s)\<rparr>))"
  using assms by (auto simp: cap_inv_def bound_def)

text \<open>Dropping the binding of a record: with the record or with its active grant.\<close>

lemma cap_inv_remove:
  assumes "cap_inv s" and "map_of (cap_records s) d = Some c"
  shows "cap_inv (removeRecord d c s)"
  using assms
  by (cases c) (auto simp: cap_inv_def removeRecord_def bound_def Let_def split: option.splits if_splits)

lemma cap_inv_clear:
  assumes "cap_inv s"
  shows "cap_inv (clearProcessGrant d s)"
proof (cases "map_of (cap_records s) d")
  case None
  with assms show ?thesis by (simp add: clearProcessGrant_def)
next
  case (Some c)
  with assms have "record_ok c" by (simp add: cap_inv_def)
  with assms Some show ?thesis
    by (cases c)
      (auto simp: cap_inv_def clearProcessGrant_def bound_def Let_def split: option.splits if_splits)
qed

lemma cap_inv_expire: "cap_inv s \<Longrightarrow> cap_inv (expireProcessGrant now d s)"
  by (simp add: expireProcessGrant_def cap_inv_clear split: option.splits cap_record.splits)

lemma cap_inv_revoked:
  "cap_inv s \<Longrightarrow> map_of (cap_records s) d = Some (RunCap g rv) \<Longrightarrow>
   cap_inv (s\<lparr>cap_records := map_put d (RunCap g True) (cap_records s)\<rparr>)"
  using cap_invD(2) [of s d "RunCap g rv"] by (auto simp: cap_inv_def bound_def)

lemma unbound_absent: "map_of (cap_records s) d = None \<Longrightarrow> \<not> bound s d r"
  by (simp add: bound_def)

lemma cap_inv_issue:
  assumes "cap_inv s" and "map_of (cap_records s) (dg secret) = None"
  shows "cap_inv (snd (issue dg secret now runId threadId createdBy scopes s))"
proof (cases "uniqueScopes scopes")
  case (Inl e)
  with assms(1) show ?thesis by (simp add: issue_def assertStoreOpen_def run_simps)
next
  case (Inr us)
  have "cap_inv (linkDigestToRun runId (dg secret) (s\<lparr>cap_records :=
      map_put (dg secret) (RunCap (createGrant s now runId threadId createdBy us) False) (cap_records s)\<rparr>))"
    if "us \<noteq> []" "\<not> (createdBy = BySchedule \<and> list_ex (\<lambda>x. x \<in> set MUTATION_SCOPES) us)"
  proof (rule cap_inv_put(2) [OF assms(1)])
    show "record_ok (RunCap (createGrant s now runId threadId createdBy us) False)"
      using that uniqueScopes_scopes_ok [OF Inr]
      by (auto simp: createGrant_def list_ex_iff)
  qed (use assms(2) in \<open>auto simp: unbound_absent createGrant_def\<close>)
  with assms(1) Inr show ?thesis
    by (auto simp: issue_def assertStoreOpen_def run_simps)
qed

lemma cap_inv_issueProcess:
  assumes "cap_inv s" and "map_of (cap_records s) (dg secret) = None"
  shows "cap_inv (snd (issueProcess dg secret createdBy maxScopes s))"
proof (cases "uniqueScopes maxScopes")
  case (Inl e)
  with assms(1) show ?thesis by (simp add: issueProcess_def assertStoreOpen_def run_simps)
next
  case (Inr ms)
  have "cap_inv (s\<lparr>cap_records := map_put (dg secret) (ProcessCap ms None False) (cap_records s)\<rparr>)"
    if "ms \<noteq> []"
    using assms that uniqueScopes_scopes_ok [OF Inr]
    by (intro cap_inv_put(1)) (auto simp: unbound_absent)
  with assms(1) Inr show ?thesis
    by (auto simp: issueProcess_def assertStoreOpen_def run_simps)
qed

lemma lookup_expire_lease:
  "map_of (cap_records s) d = Some (ProcessCap ms a rv) \<Longrightarrow>
   map_of (cap_records (expireProcessGrant now d s)) d =
     Some (ProcessCap ms (if \<exists>g. a = Some g \<and> g_expiresAtMs g \<le> now then None else a) rv)"
  by (auto simp: expireProcessGrant_def clearProcessGrant_def Let_def split: option.splits)

lemma leaseActive_expire_None:
  "map_of (cap_records s) d = Some (ProcessCap ms a rv) \<Longrightarrow>
   leaseActive d (expireProcessGrant now d s) = None \<Longrightarrow> \<not> bound (expireProcessGrant now d s) d r"
  by (auto simp: leaseActive_def bound_def lookup_expire_lease)

lemma cap_inv_activate:
  assumes inv: "cap_inv s"
  shows "cap_inv (snd (lease_activate d now1 now2 runId threadId createdBy scopes s))"
proof (cases "\<exists>ms a. map_of (cap_records s) d = Some (ProcessCap ms a False)")
  case False
  then show ?thesis using inv
    by (auto simp: lease_activate_def getProcessRecord_def assertStoreOpen_def run_simps
        split: option.splits cap_record.splits bool.splits)
next
  case True
  then obtain ms a where rec: "map_of (cap_records s) d = Some (ProcessCap ms a False)" by blast
  define s1 where "s1 = expireProcessGrant now1 d s"
  have inv1: "cap_inv s1" using inv by (simp add: s1_def cap_inv_expire)
  have new: "cap_inv (linkDigestToRun runId d (s1\<lparr>cap_records :=
      map_put d (ProcessCap ms (Some (createGrant s1 now2 runId threadId createdBy us)) False) (cap_records s1)\<rparr>))"
    if "leaseActive d s1 = None" "createdBy = ByApi" "uniqueScopes scopes = Inr us" "us \<noteq> []"
      "\<not> list_ex (\<lambda>x. x \<notin> set ms) us" for us
  proof (rule cap_inv_put(2) [OF inv1])
    have "record_ok (ProcessCap ms a False)" using inv rec by (rule cap_invD(2))
    then show "record_ok (ProcessCap ms (Some (createGrant s1 now2 runId threadId createdBy us)) False)"
      using that uniqueScopes_scopes_ok [OF that(3)] by (auto simp: createGrant_def list_ex_iff)
    show "\<not> bound s1 d r" for r
      using leaseActive_expire_None [OF rec, of now1 r] that(1) by (simp add: s1_def)
  qed (simp add: createGrant_def)
  show ?thesis
    using inv inv1 new rec
    by (cases "uniqueScopes scopes")
      (auto simp: lease_activate_def getProcessRecord_def assertStoreOpen_def run_simps simp flip: s1_def)
qed

lemma cap_inv_deactivate: "cap_inv s \<Longrightarrow> cap_inv (snd (lease_deactivate d now runId s))"
  by (auto simp: lease_deactivate_def Let_def cap_inv_clear cap_inv_expire
      split: option.splits cap_record.splits bool.splits)

lemma cap_inv_drop_unbound:
  "cap_inv s \<Longrightarrow> (\<And>r. \<not> bound s d r) \<Longrightarrow> cap_inv (s\<lparr>cap_records := map_del d (cap_records s)\<rparr>)"
  by (auto simp: cap_inv_def bound_def)

lemma unbound_clear:
  "map_of (cap_records s) d = Some (ProcessCap ms a rv) \<Longrightarrow> \<not> bound (clearProcessGrant d s) d r"
  by (auto simp: bound_def clearProcessGrant_def Let_def split: option.splits)

lemma cap_inv_lease_revoke: "cap_inv s \<Longrightarrow> cap_inv (snd (lease_revoke d s))"
  by (auto simp: lease_revoke_def Let_def cap_inv_clear unbound_clear intro!: cap_inv_drop_unbound
      split: option.splits cap_record.splits bool.splits)

lemma cap_inv_inspect: "cap_inv s \<Longrightarrow> cap_inv (snd (inspect dg now token s))"
  by (auto simp: inspect_def run_simps Let_def cap_inv_remove cap_inv_expire
      split: option.splits cap_record.splits bool.splits if_splits)

lemma cap_inv_authorize: "cap_inv s \<Longrightarrow> cap_inv (snd (authorize dg now token scope r t s))"
  using cap_inv_inspect [of s dg now token]
  by (auto simp: authorize_def run_simps split: prod.splits sum.splits)

lemma cap_inv_revokeStep: "cap_inv (fst p) \<Longrightarrow> cap_inv (fst (revokeStep runId d p))"
  by (cases p) (auto simp: cap_inv_clear cap_inv_revoked split: option.splits cap_record.splits)

lemma cap_inv_fold_revoke: "cap_inv (fst p) \<Longrightarrow> cap_inv (fst (fold (revokeStep runId) ds p))"
  by (induction ds arbitrary: p) (simp_all add: cap_inv_revokeStep)

lemma cap_inv_revokeRun: "cap_inv s \<Longrightarrow> cap_inv (snd (revokeRun runId s))"
  using cap_inv_fold_revoke [of "(s, 0)" runId]
  by (auto simp: revokeRun_def split: option.splits prod.splits) (metis fst_conv)

lemma lookup_clear_other: "d' \<noteq> d \<Longrightarrow> map_of (cap_records (clearProcessGrant d s)) d' = map_of (cap_records s) d'"
  by (simp add: clearProcessGrant_def Let_def split: option.splits cap_record.splits)

lemma lookup_remove: "map_of (cap_records (removeRecord d c s)) = (map_of (cap_records s))(d := None)"
  by (simp add: removeRecord_def Let_def split: option.splits)

text \<open>\<open>cleanupStep\<close> at an entry that is still there keeps the invariant and the other entries.\<close>

lemma cap_inv_cleanupStep:
  assumes "cap_inv s" and "map_of (cap_records s) d = Some c"
  shows "cap_inv (fst (cleanupStep now (d, c) (s, n)))"
    and "d' \<noteq> d \<Longrightarrow> map_of (cap_records (fst (cleanupStep now (d, c) (s, n)))) d' = map_of (cap_records s) d'"
  using assms
  by (cases "(now, (d, c), (s, n))" rule: cleanupStep.cases;
      simp add: cap_inv_clear cap_inv_remove lookup_clear_other lookup_remove)+

lemma cap_inv_cleanup_fold:
  assumes "cap_inv s" and "distinct (map fst es)"
    and "\<And>d c. (d, c) \<in> set es \<Longrightarrow> map_of (cap_records s) d = Some c"
  shows "cap_inv (fst (fold (cleanupStep now) es (s, n)))"
  using assms
proof (induction es arbitrary: s n)
  case Nil
  then show ?case by simp
next
  case (Cons e es)
  obtain d c where e: "e = (d, c)" by (cases e)
  obtain s1 n1 where s1: "cleanupStep now (d, c) (s, n) = (s1, n1)" by fastforce
  have "map_of (cap_records s) d = Some c" using Cons.prems(3) e by simp
  note step = cap_inv_cleanupStep [OF Cons.prems(1) this, where now = now and n = n, unfolded s1 fst_conv]
  have "map_of (cap_records s1) d' = Some c'" if "(d', c') \<in> set es" for d' c'
  proof -
    have "d' \<noteq> d" using Cons.prems(2) that by (force simp: e)
    with step(2) Cons.prems(3) that show ?thesis by simp
  qed
  with Cons.IH [OF step(1)] Cons.prems(2) show ?case by (simp add: e s1)
qed

lemma cap_inv_cleanupExpired:
  assumes "cap_inv s"
  shows "cap_inv (snd (cleanupExpired now s))"
proof -
  have "cap_inv (fst (fold (cleanupStep now) (cap_records s) (s, 0)))"
    using assms by (intro cap_inv_cleanup_fold) (auto simp: cap_inv_def keys_distinct_def)
  then show ?thesis by (simp add: cleanupExpired_def case_prod_unfold Let_def)
qed

lemma cap_inv_close: "cap_inv s \<Longrightarrow> cap_inv (close_store s)"
  by (simp add: close_store_def cap_inv_def no_empty_link_def linked_def bound_def)

lemma cap_inv_new: "cap_inv (new_store ttl)"
  by (simp add: new_store_def cap_inv_def no_empty_link_def linked_def bound_def)

section \<open>Reachable stores\<close>

text \<open>
  The stores that the operations produce from a new one. \<open>issue\<close> and \<open>issueProcess\<close> draw a
  secret of 256 random bits, whose digest is assumed not to be in use.
\<close>

inductive cap_reach :: "(string \<Rightarrow> string) \<Rightarrow> cap_store \<Rightarrow> bool" for dg where
  start: "cap_reach dg (new_store ttl)"
| issued: "cap_reach dg s \<Longrightarrow> map_of (cap_records s) (dg secret) = None \<Longrightarrow>
     cap_reach dg (snd (issue dg secret now runId threadId createdBy scopes s))"
| leased: "cap_reach dg s \<Longrightarrow> map_of (cap_records s) (dg secret) = None \<Longrightarrow>
     cap_reach dg (snd (issueProcess dg secret createdBy maxScopes s))"
| activated: "cap_reach dg s \<Longrightarrow>
     cap_reach dg (snd (lease_activate d now1 now2 runId threadId createdBy scopes s))"
| deactivated: "cap_reach dg s \<Longrightarrow> cap_reach dg (snd (lease_deactivate d now runId s))"
| lease_revoked: "cap_reach dg s \<Longrightarrow> cap_reach dg (snd (lease_revoke d s))"
| authorized: "cap_reach dg s \<Longrightarrow> cap_reach dg (snd (authorize dg now token scope r t s))"
| inspected: "cap_reach dg s \<Longrightarrow> cap_reach dg (snd (inspect dg now token s))"
| run_revoked: "cap_reach dg s \<Longrightarrow> cap_reach dg (snd (revokeRun runId s))"
| cleaned: "cap_reach dg s \<Longrightarrow> cap_reach dg (snd (cleanupExpired now s))"
| closed: "cap_reach dg s \<Longrightarrow> cap_reach dg (close_store s)"

lemmas cap_inv_intros = cap_inv_new cap_inv_issue cap_inv_issueProcess cap_inv_activate
  cap_inv_deactivate cap_inv_lease_revoke cap_inv_authorize cap_inv_inspect cap_inv_revokeRun
  cap_inv_cleanupExpired cap_inv_close

lemma reach_inv: "cap_reach dg s \<Longrightarrow> cap_inv s"
  by (induction rule: cap_reach.induct) (simp_all add: cap_inv_intros)

section \<open>Live capabilities\<close>

text \<open>\<open>live s d r\<close>: the record under digest \<open>d\<close> is not revoked and its grant is for run \<open>r\<close>.\<close>

definition live :: "cap_store \<Rightarrow> string \<Rightarrow> run_id \<Rightarrow> bool" where
  "live s d r \<longleftrightarrow>
     (case map_of (cap_records s) d of
        Some (RunCap g rv) \<Rightarrow> \<not> rv \<and> g_runId g = r
      | Some (ProcessCap _ a rv) \<Rightarrow> \<not> rv \<and> map_option g_runId a = Some r
      | None \<Rightarrow> False)"

lemma live_bound: "live s d r \<Longrightarrow> bound s d r"
  by (auto simp: live_def bound_def split: option.splits cap_record.splits)

lemma inspect_live:
  assumes "inspect dg now tok s = (Inr g, s')"
  shows "\<exists>token. tok = Some token \<and> starts_with CAPABILITY_PREFIX token \<and>
    live s (dg token) (g_runId g) \<and> (\<exists>ag. g = cloneGrant ag \<and> now < g_expiresAtMs ag \<and>
      (map_of (cap_records s) (dg token) = Some (RunCap ag False) \<or>
       (\<exists>ms. map_of (cap_records s) (dg token) = Some (ProcessCap ms (Some ag) False))))"
  using assms
  by (auto simp: inspect_def run_simps live_def Let_def leaseActive_def lookup_expire_lease cloneGrant_def
      split: option.splits cap_record.splits bool.splits if_splits)

lemma revokeStep_live:
  assumes "\<And>g rv. map_of (cap_records s) d = Some (RunCap g rv) \<Longrightarrow> g_runId g = r"
  shows "live (fst (revokeStep r d (s, n))) d' r' \<longleftrightarrow> live s d' r' \<and> \<not> (d' = d \<and> r' = r)"
    and "snd (revokeStep r d (s, n)) = (if live s d r then n + 1 else n)"
    and "d' \<noteq> d \<Longrightarrow> map_of (cap_records (fst (revokeStep r d (s, n)))) d' = map_of (cap_records s) d'"
  using assms
  by (auto simp: live_def clearProcessGrant_def Let_def split: option.splits cap_record.splits)

lemma revoke_fold_live:
  assumes "distinct ds"
    and "\<And>d g rv. d \<in> set ds \<Longrightarrow> map_of (cap_records s) d = Some (RunCap g rv) \<Longrightarrow> g_runId g = r"
    and "fold (revokeStep r) ds (s, n) = (s', n')"
  shows "(\<forall>d' r'. live s' d' r' \<longleftrightarrow> live s d' r' \<and> \<not> (d' \<in> set ds \<and> r' = r)) \<and>
    n' = n + card {d \<in> set ds. live s d r}"
  using assms
proof (induction ds arbitrary: s n)
  case Nil
  then show ?case by simp
next
  case (Cons d ds)
  obtain s1 n1 where s1: "revokeStep r d (s, n) = (s1, n1)" by fastforce
  note step = revokeStep_live [where s = s and d = d and r = r and n = n, unfolded s1 fst_conv snd_conv]
  have d_run: "map_of (cap_records s) d = Some (RunCap g rv) \<Longrightarrow> g_runId g = r" for g rv
    using Cons.prems(2) [of d g rv] by simp
  note step = step(1,2,3) [OF d_run]
  have "g_runId g = r" if "e \<in> set ds" "map_of (cap_records s1) e = Some (RunCap g rv)" for e g rv
  proof -
    have "e \<noteq> d" using that(1) Cons.prems(1) by auto
    with step(3) that(2) have "map_of (cap_records s) e = Some (RunCap g rv)" by simp
    with Cons.prems(2) [of e g rv] that(1) show ?thesis by simp
  qed
  with Cons.IH [of s1 n1] Cons.prems(1,3) s1
  have rest: "(\<forall>d' r'. live s' d' r' \<longleftrightarrow> live s1 d' r' \<and> \<not> (d' \<in> set ds \<and> r' = r)) \<and>
      n' = n1 + card {e \<in> set ds. live s1 e r}"
    by simp
  have "{e \<in> set (d # ds). live s e r} =
      (if live s d r then insert d {e \<in> set ds. live s1 e r} else {e \<in> set ds. live s1 e r})"
    using Cons.prems(1) step(1) by auto
  moreover have "d \<notin> {e \<in> set ds. live s1 e r}" using Cons.prems(1) by simp
  ultimately have "n' = n + card {e \<in> set (d # ds). live s e r}"
    using rest step(2) by simp
  with rest step(1) show ?case by auto
qed

lemma revokeRun_live:
  assumes inv: "cap_inv s" and r: "revokeRun r s = (n, s')"
  shows "live s' d' r' \<longleftrightarrow> live s d' r' \<and> r' \<noteq> r" and "n = card {d. live s d r}"
proof -
  have link: "live s d r \<Longrightarrow> linked s d r" for d
    using live_bound cap_invD(1) [OF inv] by blast
  have all: "(\<forall>d' r'. live s' d' r' \<longleftrightarrow> live s d' r' \<and> r' \<noteq> r) \<and> n = card {d. live s d r}"
  proof (cases "map_of (cap_digestsByRun s) r")
    case None
    then have "\<not> live s d r" for d using link by (auto simp: linked_def)
    with r None show ?thesis by (auto simp: revokeRun_def)
  next
    case (Some ds)
    then have ds: "d \<in> set ds \<longleftrightarrow> linked s d r" for d by (simp add: linked_def)
    have "distinct ds" using inv Some by (auto simp: cap_inv_def dest: no_empty_linkD)
    moreover have "map_of (cap_records s) d = Some (RunCap g rv) \<Longrightarrow> g_runId g = r"
      if "d \<in> set ds" for d g rv
      using that cap_invD(1) [OF inv, of d r] by (auto simp: ds bound_def)
    moreover have "fold (revokeStep r) ds (s, 0) = (s', n)"
      using r Some by (simp add: revokeRun_def split: prod.splits)
    ultimately have f: "(\<forall>d' r'. live s' d' r' \<longleftrightarrow> live s d' r' \<and> \<not> (d' \<in> set ds \<and> r' = r)) \<and>
        n = 0 + card {d \<in> set ds. live s d r}"
      by (rule revoke_fold_live)
    have "{d \<in> set ds. live s d r} = {d. live s d r}" using ds link by blast
    with f show ?thesis using ds link by auto
  qed
  from all show "live s' d' r' \<longleftrightarrow> live s d' r' \<and> r' \<noteq> r" by blast
  from all show "n = card {d. live s d r}" by blast
qed

section \<open>Properties\<close>

text \<open>
  C3. A grant that \<open>authorize\<close> returns on a reachable store covers the request and nothing
  else: the token carries the capability prefix and is registered unrevoked for the grant's
  run, the grant has not expired at the reading of the clock, the requested scope is one of
  its recognised scopes, the requested run and thread are the grant's, and a grant made for
  an automatic schedule run is never good for a mutating scope.
\<close>

theorem authorize_sound:
  assumes "cap_reach dg s"
    and "authorize dg now tok scope runId threadId s = (Inr g, s')"
  shows "(\<exists>token. tok = Some token \<and> starts_with CAPABILITY_PREFIX token \<and>
        live s (dg token) (g_runId g)) \<and>
    now < g_expiresAt g \<and>
    scope \<in> set (g_scopes g) \<and> set (g_scopes g) \<subseteq> set AGENT_CAPABILITY_SCOPES \<and>
    (runId = None \<or> runId = Some (g_runId g)) \<and>
    (threadId = None \<or> threadId = Some (g_threadId g)) \<and>
    (g_createdBy g = BySchedule \<longrightarrow> scope \<notin> set MUTATION_SCOPES)"
proof -
  have inv: "cap_inv s" using assms(1) by (rule reach_inv)
  from assms(2) obtain s1 where ins: "inspect dg now tok s = (Inr g, s1)"
    and scope: "scope \<in> set (g_scopes g)"
    and run: "runId = None \<or> runId = Some (g_runId g)"
    and thread: "threadId = None \<or> threadId = Some (g_threadId g)"
    by (auto simp: authorize_def run_simps split: prod.splits sum.splits if_splits)
  from inspect_live [OF ins] obtain token ag where tok: "tok = Some token"
    and pre: "starts_with CAPABILITY_PREFIX token" and l: "live s (dg token) (g_runId g)"
    and g: "g = cloneGrant ag" and fresh: "now < g_expiresAtMs ag"
    and rec: "map_of (cap_records s) (dg token) = Some (RunCap ag False) \<or>
       (\<exists>ms. map_of (cap_records s) (dg token) = Some (ProcessCap ms (Some ag) False))"
    by blast
  from rec have ok: "scopes_ok (g_scopes ag) \<and> g_expiresAt ag = g_expiresAtMs ag \<and>
      (g_createdBy ag = BySchedule \<longrightarrow> set (g_scopes ag) \<inter> set MUTATION_SCOPES = {})"
    by (auto dest!: cap_invD(2) [OF inv])
  show ?thesis
    using tok pre l fresh ok scope run thread by (auto simp: g cloneGrant_def scopes_ok_def)
qed

definition ex_store :: cap_store where
  "ex_store = snd (issue id ''clwcap_a'' 0 ''r'' ''t'' BySchedule [''schedule:get''] (new_store None))"

lemma ex_store_reach: "cap_reach id ex_store"
  unfolding ex_store_def by (rule cap_reach.issued [OF cap_reach.start]) (simp add: new_store_def)

lemmas cap_eval = ex_store_def issue_def inspect_def authorize_def assertStoreOpen_def run_simps
  new_store_def uniqueScopes_def AGENT_CAPABILITY_SCOPES_def MUTATION_SCOPES_def js_trim_def
  js_space_def createGrant_def cloneGrant_def linkDigestToRun_def set_add_def starts_with_def
  CAPABILITY_PREFIX_def MAX_TOKEN_LENGTH_def DEFAULT_TTL_MS_def Let_def

lemma authorize_sound_witness:
  "\<exists>g s'. authorize id 10 (Some ''clwcap_a'') ''schedule:get'' (Some ''r'') None ex_store = (Inr g, s') \<and>
     10 < g_expiresAt g \<and> ''schedule:get'' \<notin> set MUTATION_SCOPES"
proof -
  obtain g s' where a:
    "authorize id 10 (Some ''clwcap_a'') ''schedule:get'' (Some ''r'') None ex_store = (Inr g, s')"
    and "g_createdBy g = BySchedule"
    by (simp add: cap_eval)
  with authorize_sound [OF ex_store_reach a] show ?thesis by blast
qed

text \<open>
  \<open>revokeRun\<close> on a reachable store ends every capability of the run, run tokens and active
  process leases alike, and no capability of another run; it returns how many it ended. In
  particular no token shows a grant of that run afterwards.
\<close>

lemma revokeRun_complete:
  assumes "cap_reach dg s" and "revokeRun r s = (n, s')"
  shows "n = card {d. live s d r} \<and>
    (\<forall>d r'. live s' d r' \<longleftrightarrow> live s d r' \<and> r' \<noteq> r) \<and>
    (\<forall>dg' now tok g s''. inspect dg' now tok s' = (Inr g, s'') \<longrightarrow> g_runId g \<noteq> r)"
proof (intro conjI allI impI)
  note rl = revokeRun_live [OF reach_inv [OF assms(1)] assms(2)]
  show "n = card {d. live s d r}" by (rule rl)
  show "live s' d r' = (live s d r' \<and> r' \<noteq> r)" for d r' by (rule rl)
  show "g_runId g \<noteq> r" if "inspect dg' now tok s' = (Inr g, s'')" for dg' now tok g s''
    using inspect_live [OF that] rl(1) by blast
qed

lemma revokeRun_complete_witness:
  "live ex_store ''clwcap_a'' ''r'' \<and> \<not> live (snd (revokeRun ''r'' ex_store)) ''clwcap_a'' ''r''"
  using revokeRun_complete [OF ex_store_reach, of "''r''" "fst (revokeRun ''r'' ex_store)"
      "snd (revokeRun ''r'' ex_store)"]
  by (simp add: cap_eval live_def)

text \<open>
  C30. Issue and inspect: in the store that issuing it leaves, a token issued for a run shows exactly the
  grant it was issued with, its scopes without repetition, as long as its lifetime is not over. The first
  inspection after that gives the error CAPABILITY_TOKEN_EXPIRED and removes the token; every further one,
  at any time, finds it invalid and changes nothing.
\<close>

theorem issue_inspect:
  assumes "issue dg secret now runId threadId createdBy scopes s = (Inr (tok, expires), s')"
    and "starts_with CAPABILITY_PREFIX secret" and "length secret \<le> MAX_TOKEN_LENGTH"
  shows "tok = secret \<and> expires = now + cap_ttlMs s \<and>
    (later < expires \<longrightarrow> (\<exists>us. distinct us \<and> set us = set scopes \<and>
      inspect dg later (Some tok) s' =
        (Inr \<lparr>g_runId = runId, g_threadId = threadId, g_createdBy = createdBy,
          g_scopes = us, g_issuedAt = now, g_expiresAt = expires\<rparr>, s'))) \<and>
    (later \<ge> expires \<longrightarrow>
      fst (inspect dg later (Some tok) s') =
        Inl (CapError CAPABILITY_TOKEN_EXPIRED 401 ''Capability token has expired'') \<and>
      map_of (cap_records (snd (inspect dg later (Some tok) s'))) (dg tok) = None \<and>
      inspect dg again (Some tok) (snd (inspect dg later (Some tok) s')) = (Inl tokenInvalid, snd (inspect dg later (Some tok) s')))"
proof -
  obtain us where us: "uniqueScopes scopes = Inr us"
    using assms(1) by (cases "uniqueScopes scopes")
      (auto simp: issue_def assertStoreOpen_def run_simps split: if_splits)
  have "secret \<noteq> []" using assms(2) by (auto simp: starts_with_def CAPABILITY_PREFIX_def)
  note issued = this us assms uniqueScopes_ok [OF us]
  have 1: "tok = secret" "expires = now + cap_ttlMs s"
    using issued by (auto simp: issue_def assertStoreOpen_def run_simps createGrant_def split: if_splits)
  have 2: "\<exists>us. distinct us \<and> set us = set scopes \<and> inspect dg later (Some tok) s' =
      (Inr \<lparr>g_runId = runId, g_threadId = threadId, g_createdBy = createdBy,
        g_scopes = us, g_issuedAt = now, g_expiresAt = expires\<rparr>, s')" if "later < expires"
    using that issued
    by (intro exI [of _ us]) (auto simp: issue_def inspect_def assertStoreOpen_def run_simps Let_def
        createGrant_def cloneGrant_def split: if_splits)
  have 3: "fst (inspect dg later (Some tok) s') =
        Inl (CapError CAPABILITY_TOKEN_EXPIRED 401 ''Capability token has expired'') \<and>
      map_of (cap_records (snd (inspect dg later (Some tok) s'))) (dg tok) = None" if "later \<ge> expires"
    using that issued
    by (auto simp: issue_def inspect_def assertStoreOpen_def run_simps Let_def
        createGrant_def lookup_remove split: if_splits)
  have "inspect dg again (Some tok) s2 = (Inl tokenInvalid, s2)" if "map_of (cap_records s2) (dg tok) = None" for s2
    using that 1(1) assms(2,3) \<open>secret \<noteq> []\<close> by (simp add: inspect_def Let_def run_simps)
  then have 4: "inspect dg again (Some tok) (snd (inspect dg later (Some tok) s')) =
      (Inl tokenInvalid, snd (inspect dg later (Some tok) s'))" if "later \<ge> expires"
    using conjunct2 [OF 3 [OF that]] .
  show ?thesis by (intro conjI impI 1) (use 2 3 4 in simp_all)
qed

lemma issue_inspect_witness:
  "fst (inspect id 300000 (Some ''clwcap_a'') ex_store) =
     Inl (CapError CAPABILITY_TOKEN_EXPIRED 401 ''Capability token has expired'') \<and>
   fst (inspect id 0 (Some ''clwcap_a'') (snd (inspect id 300000 (Some ''clwcap_a'') ex_store))) = Inl tokenInvalid"
proof -
  have "issue id ''clwcap_a'' 0 ''r'' ''t'' BySchedule [''schedule:get''] (new_store None) =
      (Inr (''clwcap_a'', 300000), ex_store)"
    by (simp add: cap_eval)
  from issue_inspect [OF this, of 300000] show ?thesis
    by (simp add: starts_with_def CAPABILITY_PREFIX_def MAX_TOKEN_LENGTH_def)
qed

text \<open>
  C31. Every reachable store is consistent: the index that \<open>revokeRun\<close> uses holds exactly the
  runs of the registered grants and no empty entry, so it does not grow without bound; an
  active process lease grants a subset of the lease's maximum scopes, to an API run only.
\<close>

theorem capability_store_consistent:
  assumes "cap_reach dg s"
  shows "(\<forall>d r. linked s d r \<longleftrightarrow> bound s d r) \<and>
    (\<forall>r ds. map_of (cap_digestsByRun s) r = Some ds \<longrightarrow> ds \<noteq> []) \<and>
    (\<forall>d ms g rv. map_of (cap_records s) d = Some (ProcessCap ms (Some g) rv) \<longrightarrow>
      \<not> rv \<and> g_scopes g \<noteq> [] \<and> set (g_scopes g) \<subseteq> set ms \<and> g_createdBy g = ByApi)"
proof (intro conjI allI impI)
  have inv: "cap_inv s" using assms by (rule reach_inv)
  show "linked s d r \<longleftrightarrow> bound s d r" for d r using inv by (rule cap_invD)
  show "ds \<noteq> []" if "map_of (cap_digestsByRun s) r = Some ds" for r ds
    using inv map_of_SomeD [OF that] by (fastforce simp: cap_inv_def no_empty_link_def list_all_iff)
  fix d ms g rv
  assume "map_of (cap_records s) d = Some (ProcessCap ms (Some g) rv)"
  from cap_invD(2) [OF inv this]
  show "\<not> rv" and "g_scopes g \<noteq> []" and "set (g_scopes g) \<subseteq> set ms" and "g_createdBy g = ByApi"
    by (simp_all add: scopes_ok_def)
qed

lemma capability_store_consistent_witness:
  "linked ex_store ''clwcap_a'' ''r'' \<and> bound ex_store ''clwcap_a'' ''r''"
proof -
  have "linked ex_store ''clwcap_a'' ''r''" by (simp add: cap_eval linked_def)
  with capability_store_consistent [OF ex_store_reach] show ?thesis by blast
qed

end
