(* ===== verification/Approvals.thy ===== *)
theory Approvals
  imports ClaweePrelude
begin

text \<open>
  The approval manager of \<^verbatim>\<open>approvals/manager.ts\<close>: approvals live in the \<^verbatim>\<open>approvals\<close> table, the
  runtime that asked waits on a promise, and the user, a timer, the end of the run or a daemon
  restart decides.

  \<open>ap_rows\<close> is the table (the columns that are never read back, \<^verbatim>\<open>created_at\<close> and
  \<^verbatim>\<open>updated_at\<close>, are left out), \<open>ap_runs\<close> the ids in the \<^verbatim>\<open>runs\<close> table it refers to.
  \<open>ap_active\<close> is the map \<^verbatim>\<open>active\<close>: for each id the time its timer is due; resolving the
  promise of an id is an entry of the log \<open>ap_decisions\<close>, calling a listener one of
  \<open>ap_notified\<close>. The column \<^verbatim>\<open>details_json\<close> holds what \<^verbatim>\<open>JSON.parse\<close> makes of its text, \<open>None\<close>
  where it throws. Ids and clock readings are arguments.
\<close>

section \<open>Data\<close>

datatype approval_status = APending | AApproved | ARejected | AExpired | ACanceled

datatype approval_decision = DApproved | DRejected | DExpired | DCanceled

fun status_of :: "approval_decision \<Rightarrow> approval_status" where
  "status_of DApproved = AApproved"
| "status_of DRejected = ARejected"
| "status_of DExpired = AExpired"
| "status_of DCanceled = ACanceled"

datatype approval_kind = CommandExecution | FileChange | Permissions

datatype approval_risk = RiskMedium | RiskHigh

record approval_row =
  a_id :: string
  a_runId :: run_id
  a_threadId :: "thread_id option"
  a_codexThreadId :: "string option"
  a_turnId :: string
  a_itemId :: string
  a_requestId :: string
  a_kind :: approval_kind
  a_status :: approval_status
  a_risk :: approval_risk
  a_title :: string
  a_summary :: string
  a_detailsJson :: "json option"
  a_requestedAt :: ms
  a_expiresAt :: ms
  a_resolvedAt :: "ms option"
  a_resolutionReason :: "string option"

text \<open>\<open>RuntimeApproval\<close> is the row with the details parsed.\<close>

record runtime_approval =
  ra_row :: approval_row
  ra_details :: "(string \<times> json) list"

record approval_request =
  q_runId :: run_id
  q_threadId :: "thread_id option"
  q_codexThreadId :: "string option"
  q_turnId :: string
  q_itemId :: string
  q_requestId :: string
  q_kind :: approval_kind
  q_risk :: approval_risk
  q_title :: string
  q_summary :: string
  q_details :: "(string \<times> json) list"
  q_ttlMs :: "ms option"

datatype approval_error = APPROVAL_NOT_FOUND | APPROVAL_SQLITE_CONSTRAINT

record approval_state =
  ap_rows :: "approval_row list"
  ap_runs :: "run_id list"
  ap_active :: "(string, ms) assoc"
  ap_decisions :: "(string \<times> approval_decision) list"
  ap_listeners :: "nat list"
  ap_notified :: "(nat \<times> runtime_approval) list"
  ap_defaultTtlMs :: ms

definition DEFAULT_APPROVAL_TTL_MS :: ms where
  "DEFAULT_APPROVAL_TTL_MS = 10 * 60 * 1000"

section \<open>Reading\<close>

definition parseDetails :: "json option \<Rightarrow> (string \<times> json) list" where
  "parseDetails v = (case v of Some (JObj fs) \<Rightarrow> fs | _ \<Rightarrow> [])"

definition mapApproval :: "approval_row \<Rightarrow> runtime_approval" where
  "mapApproval row = \<lparr>ra_row = row, ra_details = parseDetails (a_detailsJson row)\<rparr>"

definition approval_row_of :: "string \<Rightarrow> approval_state \<Rightarrow> approval_row option" where
  "approval_row_of i s = first_where (\<lambda>r. a_id r = i) (ap_rows s)"

definition getApproval :: "string \<Rightarrow> approval_state \<Rightarrow> runtime_approval option" where
  "getApproval i s = map_option mapApproval (approval_row_of i s)"

record approval_query =
  aq_status :: "approval_status option" \<comment> \<open>\<open>None\<close> is \<^verbatim>\<open>'all'\<close>, the default\<close>
  aq_runId :: "run_id option"
  aq_threadId :: "thread_id option"
  aq_limit :: "nat option"

definition list_approvals :: "approval_query \<Rightarrow> approval_state \<Rightarrow> runtime_approval list" where
  "list_approvals q s =
     map mapApproval
       (take (case aq_limit q of None \<Rightarrow> 100 | Some n \<Rightarrow> n)
         (order_desc (\<lambda>r. (a_requestedAt r, a_id r))
           (filter (\<lambda>r. (aq_status q = None \<or> aq_status q = Some (a_status r)) \<and>
                        (aq_runId q = None \<or> aq_runId q = Some (a_runId r)) \<and>
                        (aq_threadId q = None \<or> aq_threadId q = a_threadId r))
             (ap_rows s))))"

section \<open>Operations\<close>

text \<open>A listener that throws changes nothing: the code swallows its exceptions.\<close>

definition notify :: "runtime_approval \<Rightarrow> approval_state \<Rightarrow> approval_state" where
  "notify a s = s\<lparr>ap_notified := ap_notified s @ map (\<lambda>l. (l, a)) (ap_listeners s)\<rparr>"

definition resolvePending ::
  "string \<Rightarrow> approval_status \<Rightarrow> ms \<Rightarrow> string \<Rightarrow> approval_row list \<Rightarrow> approval_row list" where
  "resolvePending i st resolvedAt reason =
     update_where (\<lambda>r. a_id r = i \<and> a_status r = APending)
       (\<lambda>r. r\<lparr>a_status := st, a_resolvedAt := Some resolvedAt, a_resolutionReason := Some reason\<rparr>)"

definition settle :: "string \<Rightarrow> approval_decision \<Rightarrow> approval_state \<Rightarrow> approval_state" where
  "settle i d s =
     (case map_of (ap_active s) i of
        None \<Rightarrow> s
      | Some _ \<Rightarrow> s\<lparr>ap_active := map_del i (ap_active s), ap_decisions := ap_decisions s @ [(i, d)]\<rparr>)"

definition transition ::
  "string \<Rightarrow> approval_decision \<Rightarrow> string \<Rightarrow> ms \<Rightarrow>
   (approval_state, approval_error, runtime_approval \<times> bool) act" where
  "transition i d reason now =
     bindE (gets (getApproval i)) (\<lambda>found.
     bindE (someE APPROVAL_NOT_FOUND found) (\<lambda>current.
       if a_status (ra_row current) \<noteq> APending then ret (current, False)
       else
         bindE (gets (\<lambda>s. 0 < changes_where (\<lambda>r. a_id r = i \<and> a_status r = APending) (ap_rows s))) (\<lambda>changed.
         thenE (modify (\<lambda>s. s\<lparr>ap_rows := resolvePending i (status_of d) now reason (ap_rows s)\<rparr>))
         (bindE (gets (getApproval i)) (\<lambda>found'.
          bindE (someE APPROVAL_NOT_FOUND found') (\<lambda>approval.
            if \<not> changed then ret (approval, False)
            else thenE (modify (settle i d))
                  (thenE (modify (notify approval))
                    (ret (approval, True)))))))))"

text \<open>
  \<open>now1\<close>, \<open>now2\<close>, \<open>now3\<close>: the readings for \<^verbatim>\<open>requestedAt\<close>, \<^verbatim>\<open>expiresAt\<close> and the timer's delay.
  The insert fails where the table's constraints do: the id is taken, the run is unknown, or
  the run already has an approval for the request.
\<close>

definition request_row :: "string \<Rightarrow> ms \<Rightarrow> ms \<Rightarrow> approval_request \<Rightarrow> approval_row" where
  "request_row i requestedAt expiresAt q =
     \<lparr>a_id = i, a_runId = q_runId q, a_threadId = q_threadId q, a_codexThreadId = q_codexThreadId q,
      a_turnId = q_turnId q, a_itemId = q_itemId q, a_requestId = q_requestId q, a_kind = q_kind q,
      a_status = APending, a_risk = q_risk q, a_title = q_title q, a_summary = q_summary q,
      a_detailsJson = Some (JObj (q_details q)), a_requestedAt = requestedAt,
      a_expiresAt = expiresAt, a_resolvedAt = None, a_resolutionReason = None\<rparr>"

definition insert_allowed :: "approval_row \<Rightarrow> approval_state \<Rightarrow> bool" where
  "insert_allowed r s \<longleftrightarrow>
     a_runId r \<in> set (ap_runs s) \<and>
     list_all (\<lambda>r'. a_id r' \<noteq> a_id r \<and>
       \<not> (a_runId r' = a_runId r \<and> a_requestId r' = a_requestId r)) (ap_rows s)"

definition ttl_of :: "approval_request \<Rightarrow> approval_state \<Rightarrow> ms" where
  "ttl_of q s = (case q_ttlMs q of None \<Rightarrow> ap_defaultTtlMs s | Some t \<Rightarrow> t)"

definition request ::
  "string \<Rightarrow> ms \<Rightarrow> ms \<Rightarrow> ms \<Rightarrow> approval_request \<Rightarrow>
   (approval_state, approval_error, runtime_approval) act" where
  "request i now1 now2 now3 q =
     bindE (gets (ttl_of q)) (\<lambda>ttl.
     bindE (gets (insert_allowed (request_row i now1 (now2 + ttl) q))) (\<lambda>ok.
     thenE (guardE ok APPROVAL_SQLITE_CONSTRAINT)
     (thenE (modify (\<lambda>s. s\<lparr>ap_rows := ap_rows s @ [request_row i now1 (now2 + ttl) q]\<rparr>))
     (bindE (gets (getApproval i)) (\<lambda>found.
      bindE (someE APPROVAL_NOT_FOUND found) (\<lambda>approval.
      thenE (modify (\<lambda>s. s\<lparr>ap_active :=
               map_put i (now3 + max 0 (now2 + ttl - now3)) (ap_active s)\<rparr>))
      (thenE (modify (notify approval))
        (ret approval))))))))"

definition approve :: "string \<Rightarrow> ms \<Rightarrow> (approval_state, approval_error, runtime_approval \<times> bool) act" where
  "approve i now = transition i DApproved ''user_approved'' now"

definition reject :: "string \<Rightarrow> ms \<Rightarrow> (approval_state, approval_error, runtime_approval \<times> bool) act" where
  "reject i now = transition i DRejected ''user_rejected'' now"

text \<open>The timer of an approval: the callback of \<^verbatim>\<open>setTimeout\<close>, not before it is due.\<close>

definition timer_fires :: "string \<Rightarrow> ms \<Rightarrow> (approval_state, approval_error, runtime_approval \<times> bool) act" where
  "timer_fires i now = transition i DExpired ''timeout'' now"

text \<open>\<open>clk i\<close> is the reading of the clock at the transition of \<open>i\<close>.\<close>

fun cancel_rows ::
  "string \<Rightarrow> (string \<Rightarrow> ms) \<Rightarrow> string list \<Rightarrow> (approval_state, approval_error, runtime_approval list) act" where
  "cancel_rows reason clk [] = ret []"
| "cancel_rows reason clk (i # is) =
     bindE (transition i DCanceled reason (clk i)) (\<lambda>r.
     bindE (cancel_rows reason clk is) (\<lambda>rs. ret (fst r # rs)))"

definition cancelRun ::
  "run_id \<Rightarrow> string option \<Rightarrow> (string \<Rightarrow> ms) \<Rightarrow>
   (approval_state, approval_error, runtime_approval list) act" where
  "cancelRun runId reason clk =
     bindE (gets (\<lambda>s. map a_id (filter (\<lambda>r. a_runId r = runId \<and> a_status r = APending) (ap_rows s)))) (\<lambda>is.
       cancel_rows (case reason of None \<Rightarrow> ''run_canceled'' | Some x \<Rightarrow> x) clk is)"

definition detach :: "string \<Rightarrow> approval_state \<Rightarrow> approval_state" where
  "detach i s =
     (case map_of (ap_active s) i of None \<Rightarrow> s | Some _ \<Rightarrow> s\<lparr>ap_active := map_del i (ap_active s)\<rparr>)"

definition subscribe :: "nat \<Rightarrow> approval_state \<Rightarrow> approval_state" where
  "subscribe l s = s\<lparr>ap_listeners := set_add l (ap_listeners s)\<rparr>"

definition unsubscribe :: "nat \<Rightarrow> approval_state \<Rightarrow> approval_state" where
  "unsubscribe l s = s\<lparr>ap_listeners := removeAll l (ap_listeners s)\<rparr>"

text \<open>
  Starting the manager on a database: what was pending cannot be decided any more, since its
  promise died with the previous process, and is canceled.
\<close>

definition createApprovalManager ::
  "approval_row list \<Rightarrow> run_id list \<Rightarrow> ms option \<Rightarrow> ms \<Rightarrow> approval_state" where
  "createApprovalManager rows runs ttl now =
     \<lparr>ap_rows = update_where (\<lambda>r. a_status r = APending)
        (\<lambda>r. r\<lparr>a_status := ACanceled, a_resolvedAt := Some now,
              a_resolutionReason := Some ''daemon_restart''\<rparr>) rows,
      ap_runs = runs, ap_active = [], ap_decisions = [], ap_listeners = [], ap_notified = [],
      ap_defaultTtlMs = (case ttl of None \<Rightarrow> DEFAULT_APPROVAL_TTL_MS | Some t \<Rightarrow> t)\<rparr>"

text \<open>Not the manager's: a run is inserted, or deleted with its approvals (\<^verbatim>\<open>ON DELETE CASCADE\<close>).\<close>

definition run_inserted :: "run_id \<Rightarrow> approval_state \<Rightarrow> approval_state" where
  "run_inserted r s = s\<lparr>ap_runs := set_add r (ap_runs s)\<rparr>"

definition run_deleted :: "run_id \<Rightarrow> approval_state \<Rightarrow> approval_state" where
  "run_deleted r s =
     s\<lparr>ap_runs := removeAll r (ap_runs s), ap_rows := filter (\<lambda>x. a_runId x \<noteq> r) (ap_rows s)\<rparr>"

section \<open>What a transition does\<close>

lemma resolvePending_lookup:
  assumes "first_where (\<lambda>r. a_id r = i) rows = Some row" and "a_status row = APending"
  shows "first_where (\<lambda>r. a_id r = i) (resolvePending i st now reason rows) =
    Some (row\<lparr>a_status := st, a_resolvedAt := Some now, a_resolutionReason := Some reason\<rparr>)"
  using assms first_where_Some [OF assms(1)] by (simp add: resolvePending_def first_where_update)

lemma transition_unknown [run_simps]:
  "approval_row_of i s = None \<Longrightarrow> transition i d reason now s = (Inl APPROVAL_NOT_FOUND, s)"
  by (simp add: transition_def getApproval_def run_simps)

lemma transition_resolved [run_simps]:
  "approval_row_of i s = Some row \<Longrightarrow> a_status row \<noteq> APending \<Longrightarrow>
   transition i d reason now s = (Inr (mapApproval row, False), s)"
  by (simp add: transition_def getApproval_def mapApproval_def run_simps)

definition resolved_row :: "approval_decision \<Rightarrow> string \<Rightarrow> ms \<Rightarrow> approval_row \<Rightarrow> approval_row" where
  "resolved_row d reason now row =
     row\<lparr>a_status := status_of d, a_resolvedAt := Some now, a_resolutionReason := Some reason\<rparr>"

lemma transition_pending [run_simps]:
  assumes "approval_row_of i s = Some row" and "a_status row = APending"
  shows "transition i d reason now s =
    (Inr (mapApproval (resolved_row d reason now row), True),
     notify (mapApproval (resolved_row d reason now row))
       (settle i d (s\<lparr>ap_rows := resolvePending i (status_of d) now reason (ap_rows s)\<rparr>)))"
proof -
  have "row \<in> set (ap_rows s) \<and> a_id row = i"
    using assms(1) by (auto simp: approval_row_of_def dest: first_where_Some)
  then have "0 < changes_where (\<lambda>r. a_id r = i \<and> a_status r = APending) (ap_rows s)"
    using assms(2) by (auto simp: changes_where_def filter_empty_conv)
  with assms resolvePending_lookup [of i "ap_rows s" row "status_of d" now reason] show ?thesis
    by (simp add: transition_def getApproval_def mapApproval_def approval_row_of_def
        resolved_row_def run_simps)
qed

lemma transition_cases:
  obtains (unknown) "approval_row_of i s = None"
      "transition i d reason now s = (Inl APPROVAL_NOT_FOUND, s)"
  | (resolved) row where "approval_row_of i s = Some row" "a_status row \<noteq> APending"
      "transition i d reason now s = (Inr (mapApproval row, False), s)"
  | (pending) row where "approval_row_of i s = Some row" "a_status row = APending"
      "transition i d reason now s =
        (Inr (mapApproval (resolved_row d reason now row), True),
         notify (mapApproval (resolved_row d reason now row))
           (settle i d (s\<lparr>ap_rows := resolvePending i (status_of d) now reason (ap_rows s)\<rparr>)))"
proof (cases "approval_row_of i s")
  case None
  show ?thesis by (rule unknown [OF None transition_unknown [OF None]])
next
  case (Some row)
  show ?thesis
  proof (cases "a_status row = APending")
    case True
    show ?thesis by (rule pending [OF Some True transition_pending [OF Some True]])
  next
    case False
    show ?thesis by (rule resolved [OF Some False transition_resolved [OF Some False]])
  qed
qed

lemma notify_simps [simp]:
  "ap_rows (notify a s) = ap_rows s" "ap_runs (notify a s) = ap_runs s"
  "ap_active (notify a s) = ap_active s" "ap_decisions (notify a s) = ap_decisions s"
  by (simp_all add: notify_def)

lemma settle_simps [simp]:
  "ap_rows (settle i d s) = ap_rows s" "ap_runs (settle i d s) = ap_runs s"
  "ap_active (settle i d s) = map_del i (ap_active s)"
  by (simp_all add: settle_def map_of_absent split: option.splits)

lemma settle_decisions:
  "ap_decisions (settle i d s) =
     (if i \<in> fst ` set (ap_active s) then ap_decisions s @ [(i, d)] else ap_decisions s)"
proof (cases "map_of (ap_active s) i")
  case None
  moreover from None have "i \<notin> fst ` set (ap_active s)" by (simp add: map_of_absent)
  ultimately show ?thesis by (simp add: settle_def)
next
  case (Some t)
  then have "i \<in> fst ` set (ap_active s)" by (metis map_of_absent option.distinct(1))
  with Some show ?thesis by (simp add: settle_def)
qed

section \<open>The invariant\<close>

text \<open>
  An approval whose promise is still open is pending, one whose promise was resolved has the
  status of its decision and no second resolution; a row is open exactly when it has no
  resolution time; a run has one approval for a request.
\<close>

definition ap_inv :: "approval_state \<Rightarrow> bool" where
  "ap_inv s \<longleftrightarrow>
     distinct (map a_id (ap_rows s)) \<and>
     distinct (map (\<lambda>r. (a_runId r, a_requestId r)) (ap_rows s)) \<and>
     keys_distinct (ap_active s) \<and>
     distinct (map fst (ap_decisions s)) \<and>
     fst ` set (ap_active s) \<inter> fst ` set (ap_decisions s) = {} \<and>
     (\<forall>r \<in> set (ap_rows s). a_runId r \<in> set (ap_runs s)) \<and>
     (\<forall>r \<in> set (ap_rows s). a_id r \<in> fst ` set (ap_active s) \<longrightarrow> a_status r = APending) \<and>
     (\<forall>r \<in> set (ap_rows s). \<forall>d. (a_id r, d) \<in> set (ap_decisions s) \<longrightarrow> a_status r = status_of d) \<and>
     (\<forall>r \<in> set (ap_rows s). a_status r = APending \<longleftrightarrow> a_resolvedAt r = None)"

lemma status_of_not_pending [simp]: "status_of d \<noteq> APending" "APending \<noteq> status_of d"
  by (cases d; simp)+

lemma ap_inv_notify [simp]: "ap_inv (notify a s) = ap_inv s"
  by (simp add: ap_inv_def)

lemma map_resolvePending [simp]:
  "map a_id (resolvePending i st now reason rows) = map a_id rows"
  "map (\<lambda>r. (a_runId r, a_requestId r)) (resolvePending i st now reason rows) =
   map (\<lambda>r. (a_runId r, a_requestId r)) rows"
  by (simp_all add: resolvePending_def map_update_where)

lemma in_resolvePending:
  "r \<in> set (resolvePending i st now reason rows) \<Longrightarrow>
   (\<exists>r' \<in> set rows. a_id r' = i \<and> a_status r' = APending \<and>
      r = r'\<lparr>a_status := st, a_resolvedAt := Some now, a_resolutionReason := Some reason\<rparr>) \<or>
   (r \<in> set rows \<and> \<not> (a_id r = i \<and> a_status r = APending))"
  by (auto simp: resolvePending_def set_update_where)

lemma ap_inv_resolve:
  assumes inv: "ap_inv s" and row: "approval_row_of i s = Some row" "a_status row = APending"
  shows "ap_inv (settle i d (s\<lparr>ap_rows := resolvePending i (status_of d) now reason (ap_rows s)\<rparr>))"
proof -
  have row': "row \<in> set (ap_rows s)" "a_id row = i"
    using row(1) by (auto simp: approval_row_of_def dest: first_where_Some)
  have only: "r = row" if "r \<in> set (ap_rows s)" "a_id r = i" for r
    using inv that row' by (auto simp: ap_inv_def distinct_map inj_on_def)
  have undecided: "i \<notin> fst ` set (ap_decisions s)"
    using inv row' row(2) by (fastforce simp: ap_inv_def)
  let ?rows = "resolvePending i (status_of d) now reason (ap_rows s)"
  have old: "(a_id r = i \<and> a_status r = status_of d \<and> a_resolvedAt r \<noteq> None \<and> a_runId r = a_runId row) \<or>
      (r \<in> set (ap_rows s) \<and> a_id r \<noteq> i)" if "r \<in> set ?rows" for r
    using in_resolvePending [OF that] only row(2) by auto
  have pend: "a_status r = APending \<longleftrightarrow> a_resolvedAt r = None" if "r \<in> set ?rows" for r
    using old [OF that] inv by (auto simp: ap_inv_def)
  have act: "a_status r = APending" if "r \<in> set ?rows" "a_id r \<noteq> i" "a_id r \<in> fst ` set (ap_active s)" for r
    using old [OF that(1)] that(2,3) inv unfolding ap_inv_def by blast
  have dec: "a_status r = status_of e" if "r \<in> set ?rows" "(a_id r, e) \<in> set (ap_decisions s)" for r e
  proof -
    have "a_id r \<noteq> i" using that(2) undecided by force
    with old [OF that(1)] that(2) inv show ?thesis unfolding ap_inv_def by blast
  qed
  have own: "a_status r = status_of d" if "r \<in> set ?rows" "a_id r = i" for r
    using old [OF that(1)] that(2) by blast
  have fk: "a_runId r \<in> set (ap_runs s)" if "r \<in> set ?rows" for r
    using old [OF that] row'(1) inv unfolding ap_inv_def by metis
  show ?thesis
    using inv undecided pend act dec own fk unfolding ap_inv_def
    by (auto simp: settle_decisions)
qed

lemma ap_inv_transition: "ap_inv s \<Longrightarrow> ap_inv (snd (transition i d reason now s))"
  by (cases rule: transition_cases [of i s d reason now]) (simp_all add: ap_inv_resolve)

lemma ap_inv_cancel_rows: "ap_inv s \<Longrightarrow> ap_inv (snd (cancel_rows reason clk is s))"
proof (induction "is" arbitrary: s)
  case Nil
  then show ?case by (simp add: run_simps)
next
  case (Cons i "is")
  have "ap_inv (snd (transition i DCanceled reason (clk i) s))"
    using Cons.prems by (rule ap_inv_transition)
  with Cons.IH show ?case
    by (fastforce simp: run_simps split: prod.splits sum.splits)
qed

lemma ap_inv_cancelRun: "ap_inv s \<Longrightarrow> ap_inv (snd (cancelRun runId reason clk s))"
  by (simp add: cancelRun_def run_simps ap_inv_cancel_rows)

lemma request_row_simps [simp]:
  "a_id (request_row i t e q) = i" "a_status (request_row i t e q) = APending"
  "a_runId (request_row i t e q) = q_runId q" "a_requestId (request_row i t e q) = q_requestId q"
  "a_resolvedAt (request_row i t e q) = None"
  by (simp_all add: request_row_def)

lemma request_refused:
  "\<not> insert_allowed (request_row i now1 (now2 + ttl_of q s) q) s \<Longrightarrow>
   request i now1 now2 now3 q s = (Inl APPROVAL_SQLITE_CONSTRAINT, s)"
  by (simp add: request_def run_simps)

lemma request_accepted:
  assumes "insert_allowed (request_row i now1 (now2 + ttl_of q s) q) s"
  shows "request i now1 now2 now3 q s =
    (Inr (mapApproval (request_row i now1 (now2 + ttl_of q s) q)),
     notify (mapApproval (request_row i now1 (now2 + ttl_of q s) q))
       (s\<lparr>ap_rows := ap_rows s @ [request_row i now1 (now2 + ttl_of q s) q],
          ap_active := map_put i (now3 + max 0 (now2 + ttl_of q s - now3)) (ap_active s)\<rparr>))"
proof -
  have "first_where (\<lambda>r. a_id r = i) (ap_rows s) = None"
    using assms by (auto simp: insert_allowed_def list_all_iff first_where_None)
  then have "first_where (\<lambda>r. a_id r = i) (ap_rows s @ [request_row i now1 (now2 + ttl_of q s) q]) =
      Some (request_row i now1 (now2 + ttl_of q s) q)"
    by (simp add: first_where_append) (simp add: first_where_def)
  with assms show ?thesis
    by (simp add: request_def getApproval_def approval_row_of_def run_simps)
qed

lemma ap_inv_request:
  assumes inv: "ap_inv s" and fresh: "i \<notin> fst ` set (ap_decisions s)" "i \<notin> fst ` set (ap_active s)"
  shows "ap_inv (snd (request i now1 now2 now3 q s))"
proof (cases "insert_allowed (request_row i now1 (now2 + ttl_of q s) q) s")
  case False
  with inv show ?thesis by (simp add: request_refused)
next
  case True
  then have new: "q_runId q \<in> set (ap_runs s)" "i \<notin> a_id ` set (ap_rows s)"
    "(q_runId q, q_requestId q) \<notin> (\<lambda>r. (a_runId r, a_requestId r)) ` set (ap_rows s)"
    by (auto simp: insert_allowed_def list_all_iff)
  have "ap_inv (s\<lparr>ap_rows := ap_rows s @ [request_row i now1 (now2 + ttl_of q s) q],
      ap_active := map_put i (now3 + max 0 (now2 + ttl_of q s - now3)) (ap_active s)\<rparr>)"
    using inv new fresh unfolding ap_inv_def
    by (simp add: image_iff) (safe; force)
  with True show ?thesis by (simp add: request_accepted)
qed

lemma ap_inv_detach: "ap_inv s \<Longrightarrow> ap_inv (detach i s)"
  by (auto simp: detach_def ap_inv_def split: option.splits)

lemma ap_inv_listeners [simp]: "ap_inv (subscribe l s) = ap_inv s" "ap_inv (unsubscribe l s) = ap_inv s"
  by (simp_all add: ap_inv_def subscribe_def unsubscribe_def)

lemma ap_inv_run_inserted: "ap_inv s \<Longrightarrow> ap_inv (run_inserted r s)"
  by (auto simp: ap_inv_def run_inserted_def)

lemma ap_inv_run_deleted: "ap_inv s \<Longrightarrow> ap_inv (run_deleted r s)"
  by (auto simp: ap_inv_def run_deleted_def distinct_map_filter)

section \<open>Steps and reachable states\<close>

text \<open>
  One step of the manager, its clients or its timers. The id of a request is
  \<^verbatim>\<open>nanoid(12)\<close>, assumed not to be the id of an earlier approval.
\<close>

inductive ap_step :: "approval_state \<Rightarrow> approval_state \<Rightarrow> bool" where
  requested: "i \<notin> fst ` set (ap_decisions s) \<Longrightarrow> i \<notin> fst ` set (ap_active s) \<Longrightarrow>
     ap_step s (snd (request i now1 now2 now3 q s))"
| approved: "ap_step s (snd (approve i now s))"
| rejected: "ap_step s (snd (reject i now s))"
| timed_out: "map_of (ap_active s) i = Some due \<Longrightarrow> due \<le> now \<Longrightarrow> ap_step s (snd (timer_fires i now s))"
| run_canceled: "ap_step s (snd (cancelRun runId reason clk s))"
| detached: "ap_step s (detach i s)"
| subscribed: "ap_step s (subscribe l s)"
| unsubscribed: "ap_step s (unsubscribe l s)"
| inserted: "ap_step s (run_inserted r s)"
| deleted: "ap_step s (run_deleted r s)"

inductive ap_reach :: "approval_state \<Rightarrow> bool" where
  started: "distinct (map a_id rows) \<Longrightarrow> distinct (map (\<lambda>r. (a_runId r, a_requestId r)) rows) \<Longrightarrow>
     (\<And>r. r \<in> set rows \<Longrightarrow> a_runId r \<in> set runs \<and> (a_status r = APending \<longleftrightarrow> a_resolvedAt r = None)) \<Longrightarrow>
     ap_reach (createApprovalManager rows runs ttl now)"
| stepped: "ap_reach s \<Longrightarrow> ap_step s s' \<Longrightarrow> ap_reach s'"

lemma ap_inv_step: "ap_step s s' \<Longrightarrow> ap_inv s \<Longrightarrow> ap_inv s'"
  by (induction rule: ap_step.induct)
    (simp_all add: ap_inv_request approve_def reject_def timer_fires_def ap_inv_transition
      ap_inv_cancelRun ap_inv_detach ap_inv_run_inserted ap_inv_run_deleted)

lemma ap_inv_start:
  assumes "distinct (map a_id rows)" "distinct (map (\<lambda>r. (a_runId r, a_requestId r)) rows)"
    and "\<And>r. r \<in> set rows \<Longrightarrow> a_runId r \<in> set runs \<and> (a_status r = APending \<longleftrightarrow> a_resolvedAt r = None)"
  shows "ap_inv (createApprovalManager rows runs ttl now)"
  using assms by (auto simp: ap_inv_def createApprovalManager_def map_update_where set_update_where)

lemma ap_reach_inv: "ap_reach s \<Longrightarrow> ap_inv s"
  by (induction rule: ap_reach.induct) (simp_all add: ap_inv_start ap_inv_step)

section \<open>Finality\<close>

lemma resolvePending_keeps:
  "r \<in> set rows \<Longrightarrow> a_status r \<noteq> APending \<Longrightarrow> r \<in> set (resolvePending i st now reason rows)"
  by (simp add: resolvePending_def set_update_where)

lemma transition_keeps_resolved:
  "r \<in> set (ap_rows s) \<Longrightarrow> a_status r \<noteq> APending \<Longrightarrow>
   r \<in> set (ap_rows (snd (transition i d reason now s)))"
  by (cases rule: transition_cases [of i s d reason now]) (simp_all add: resolvePending_keeps)

lemma cancel_rows_keeps_resolved:
  "r \<in> set (ap_rows s) \<Longrightarrow> a_status r \<noteq> APending \<Longrightarrow>
   r \<in> set (ap_rows (snd (cancel_rows reason clk is s)))"
proof (induction "is" arbitrary: s)
  case Nil
  then show ?case by (simp add: run_simps)
next
  case (Cons i "is")
  have "r \<in> set (ap_rows (snd (transition i DCanceled reason (clk i) s)))"
    using Cons.prems by (rule transition_keeps_resolved)
  with Cons.IH Cons.prems(2) show ?case
    by (fastforce simp: run_simps split: prod.splits sum.splits)
qed

section \<open>Canceling the approvals of a run\<close>

definition pending_of :: "run_id \<Rightarrow> approval_state \<Rightarrow> string list" where
  "pending_of r s = map a_id (filter (\<lambda>x. a_runId x = r \<and> a_status x = APending) (ap_rows s))"

lemma row_of_id:
  assumes "ap_inv s" and "row \<in> set (ap_rows s)"
  shows "approval_row_of (a_id row) s = Some row"
  unfolding approval_row_of_def
  by (rule first_where_key [where k = a_id]) (use assms in \<open>auto simp: ap_inv_def\<close>)

text \<open>One cancellation of a pending approval: it alone leaves the list of pending ones.\<close>

lemma transition_pending_of:
  assumes inv: "ap_inv s" and row: "row \<in> set (ap_rows s)" "a_status row = APending"
  shows "pending_of r (snd (transition (a_id row) d reason now s)) = removeAll (a_id row) (pending_of r s)"
    and "\<exists>a. fst (transition (a_id row) d reason now s) = Inr (a, True) \<and>
      ra_row a = resolved_row d reason now row"
proof -
  note t = transition_pending [OF row_of_id [OF inv row(1)] row(2), of d reason now]
  then show "\<exists>a. fst (transition (a_id row) d reason now s) = Inr (a, True) \<and>
      ra_row a = resolved_row d reason now row"
    by (simp add: mapApproval_def)
  have "map a_id (filter (\<lambda>x. a_runId x = r \<and> a_status x = APending)
        (resolvePending i (status_of d) now reason rows)) =
      removeAll i (map a_id (filter (\<lambda>x. a_runId x = r \<and> a_status x = APending) rows))" for i rows
    by (induction rows) (auto simp: resolvePending_def update_where_def)
  with t show "pending_of r (snd (transition (a_id row) d reason now s)) = removeAll (a_id row) (pending_of r s)"
    by (simp add: pending_of_def)
qed

lemma pending_of_row:
  "i \<in> set (pending_of r s) \<Longrightarrow> \<exists>row \<in> set (ap_rows s). a_id row = i \<and> a_status row = APending \<and> a_runId row = r"
  by (auto simp: pending_of_def)

lemma pending_of_distinct: "ap_inv s \<Longrightarrow> distinct (pending_of r s)"
  by (simp add: ap_inv_def pending_of_def distinct_map_filter)

lemma cancel_rows_all:
  assumes "ap_inv s" and "distinct is" and "set is \<subseteq> set (pending_of r s)"
  shows "\<exists>as s'. cancel_rows reason clk is s = (Inr as, s') \<and> length as = length is \<and>
    pending_of r s' = filter (\<lambda>i. i \<notin> set is) (pending_of r s) \<and>
    (\<forall>r'. r' \<noteq> r \<longrightarrow> pending_of r' s' = pending_of r' s)"
  using assms
proof (induction "is" arbitrary: s)
  case Nil
  then show ?case by (simp add: run_simps)
next
  case (Cons i "is")
  then obtain row where row: "row \<in> set (ap_rows s)" "a_id row = i" "a_status row = APending" "a_runId row = r"
    using pending_of_row [of i r s] by auto
  obtain res s1 where t: "transition i DCanceled reason (clk i) s = (res, s1)" by fastforce
  note step = transition_pending_of [OF Cons.prems(1) row(1,3), where d = DCanceled and reason = reason and now = "clk i", unfolded row(2) t snd_conv fst_conv]
  obtain a where res: "res = Inr (a, True)" using step(2) by blast
  have inv1: "ap_inv s1" using ap_inv_transition [OF Cons.prems(1), of i DCanceled reason "clk i"] t by simp
  have "set is \<subseteq> set (pending_of r s1)" using Cons.prems(2,3) step(1) by auto
  with Cons.IH [OF inv1] Cons.prems(2) obtain as s' where
    rec: "cancel_rows reason clk is s1 = (Inr as, s')" "length as = length is"
      "pending_of r s' = filter (\<lambda>i. i \<notin> set is) (pending_of r s1)"
      "\<And>r'. r' \<noteq> r \<Longrightarrow> pending_of r' s' = pending_of r' s1"
    by auto
  have other: "pending_of r' s1 = pending_of r' s" if "r' \<noteq> r" for r'
  proof -
    have "i \<notin> set (pending_of r' s)"
    proof
      assume "i \<in> set (pending_of r' s)"
      then obtain row' where row': "row' \<in> set (ap_rows s)" "a_id row' = i" "a_runId row' = r'"
        using pending_of_row [of i r' s] by blast
      with row Cons.prems(1) have "row' = row" by (auto simp: ap_inv_def distinct_map inj_on_def)
      with row row' that show False by simp
    qed
    with step(1) show ?thesis by simp
  qed
  have "filter (\<lambda>j. j \<notin> set is) (removeAll i (pending_of r s)) = filter (\<lambda>j. j \<notin> set (i # is)) (pending_of r s)"
    by (induction "pending_of r s") (auto simp: removeAll_filter_not_eq intro: filter_cong)
  with t res rec step(1) other show ?case
    by (simp add: run_simps)
qed

section \<open>Properties\<close>

definition ex_request :: approval_request where
  "ex_request =
     \<lparr>q_runId = ''r'', q_threadId = None, q_codexThreadId = None, q_turnId = ''t'', q_itemId = ''i'',
      q_requestId = ''1'', q_kind = CommandExecution, q_risk = RiskHigh, q_title = ''x'',
      q_summary = ''y'', q_details = [], q_ttlMs = None\<rparr>"

definition ex_approvals :: approval_state where
  "ex_approvals = snd (request ''a1'' 0 0 0 ex_request (createApprovalManager [] [''r''] None 0))"

lemma ex_approvals_eq:
  "ex_approvals =
     \<lparr>ap_rows = [request_row ''a1'' 0 600000 ex_request], ap_runs = [''r''],
      ap_active = [(''a1'', 600000)], ap_decisions = [], ap_listeners = [], ap_notified = [],
      ap_defaultTtlMs = 600000\<rparr>"
  by (simp add: ex_approvals_def createApprovalManager_def request_accepted insert_allowed_def
      update_where_def ex_request_def ttl_of_def DEFAULT_APPROVAL_TTL_MS_def notify_def)

lemma ex_approvals_reach: "ap_reach ex_approvals"
  unfolding ex_approvals_def
  by (rule ap_reach.stepped [OF ap_reach.started ap_step.requested])
    (simp_all add: createApprovalManager_def)

text \<open>
  C6. A user's approval acts once: on a pending approval it stores the status, the time and the
  reason, resolves the waiting promise if it is still attached and reports the change; on a
  decided one it returns the stored row and changes nothing; an unknown id is an error and
  changes nothing.
\<close>

theorem approve_effect:
  assumes "ap_reach s"
  shows "(\<forall>i. i \<notin> a_id ` set (ap_rows s) \<longrightarrow> approve i now s = (Inl APPROVAL_NOT_FOUND, s)) \<and>
    (\<forall>row \<in> set (ap_rows s). a_status row \<noteq> APending \<longrightarrow>
      approve (a_id row) now s = (Inr (mapApproval row, False), s)) \<and>
    (\<forall>row \<in> set (ap_rows s). a_status row = APending \<longrightarrow>
      (\<exists>a s'. approve (a_id row) now s = (Inr (a, True), s') \<and>
        ra_row a = row\<lparr>a_status := AApproved, a_resolvedAt := Some now,
                       a_resolutionReason := Some ''user_approved''\<rparr> \<and>
        ra_row a \<in> set (ap_rows s') \<and>
        ap_active s' = map_del (a_id row) (ap_active s) \<and>
        ap_decisions s' = ap_decisions s @
          (if a_id row \<in> fst ` set (ap_active s) then [(a_id row, DApproved)] else [])))"
proof (intro conjI allI impI ballI)
  have inv: "ap_inv s" using assms by (rule ap_reach_inv)
  show "approve i now s = (Inl APPROVAL_NOT_FOUND, s)" if "i \<notin> a_id ` set (ap_rows s)" for i
    using that by (auto simp: approve_def approval_row_of_def first_where_None intro!: transition_unknown)
  fix row
  assume row: "row \<in> set (ap_rows s)"
  show "approve (a_id row) now s = (Inr (mapApproval row, False), s)" if "a_status row \<noteq> APending"
    using row_of_id [OF inv row] that by (simp add: approve_def transition_resolved)
  show "\<exists>a s'. approve (a_id row) now s = (Inr (a, True), s') \<and>
        ra_row a = row\<lparr>a_status := AApproved, a_resolvedAt := Some now,
                       a_resolutionReason := Some ''user_approved''\<rparr> \<and>
        ra_row a \<in> set (ap_rows s') \<and>
        ap_active s' = map_del (a_id row) (ap_active s) \<and>
        ap_decisions s' = ap_decisions s @
          (if a_id row \<in> fst ` set (ap_active s) then [(a_id row, DApproved)] else [])"
    if "a_status row = APending"
    using transition_pending [OF row_of_id [OF inv row] that] row that
    by (force simp: approve_def mapApproval_def resolved_row_def settle_decisions
        resolvePending_def set_update_where)
qed

lemma approve_effect_witness:
  "\<exists>a s'. approve ''a1'' 5 ex_approvals = (Inr (a, True), s') \<and> ap_decisions s' = [(''a1'', DApproved)]"
  using approve_effect [OF ex_approvals_reach, of 5]
  by (auto simp: ex_approvals_eq)

text \<open>
  C29. A decision is final: whatever step follows, a decided row stays in the table as it is,
  unless its run is deleted.
\<close>

theorem decided_approval_final:
  assumes "ap_step s s'" and "r \<in> set (ap_rows s)" and "a_status r \<noteq> APending"
  shows "r \<in> set (ap_rows s') \<or> a_runId r \<notin> set (ap_runs s')"
  using assms
proof (induction rule: ap_step.induct)
  case (requested i s now1 now2 now3 q)
  then show ?case
    by (cases "insert_allowed (request_row i now1 (now2 + ttl_of q s) q) s")
      (simp_all add: request_accepted request_refused)
next
  case (run_canceled s runId reason clk)
  then show ?case by (simp add: cancelRun_def run_simps cancel_rows_keeps_resolved)
qed (auto simp: approve_def reject_def timer_fires_def transition_keeps_resolved detach_def
    subscribe_def unsubscribe_def run_inserted_def run_deleted_def split: option.splits)

lemma decided_approval_final_witness:
  "\<exists>r. r \<in> set (ap_rows (snd (approve ''a1'' 5 ex_approvals))) \<and> a_status r = AApproved \<and>
     r \<in> set (ap_rows (snd (reject ''a1'' 9 (snd (approve ''a1'' 5 ex_approvals)))))"
proof -
  let ?s = "snd (approve ''a1'' 5 ex_approvals)"
  let ?r = "resolved_row DApproved ''user_approved'' 5 (request_row ''a1'' 0 600000 ex_request)"
  have s: "?r \<in> set (ap_rows ?s)" "a_status ?r = AApproved" "a_runId ?r = ''r''"
    "''r'' \<in> set (ap_runs (snd (reject ''a1'' 9 ?s)))"
    by (simp_all add: approve_def reject_def transition_def run_simps ex_approvals_eq getApproval_def
        approval_row_of_def first_where_def mapApproval_def changes_where_def resolvePending_def
        update_where_def settle_def resolved_row_def ex_request_def)
  with decided_approval_final [OF ap_step.rejected s(1), of "''a1''" 9] show ?thesis by auto
qed

text \<open>
  C32. In every reachable state a promise has been resolved at most once, with the decision its
  row shows, and one that still waits belongs to an approval that is still pending; no run has
  two approvals for one request.
\<close>

theorem promise_settled_once:
  assumes "ap_reach s"
  shows "distinct (map fst (ap_decisions s)) \<and>
    (\<forall>r \<in> set (ap_rows s). \<forall>d. (a_id r, d) \<in> set (ap_decisions s) \<longrightarrow> a_status r = status_of d) \<and>
    (\<forall>r \<in> set (ap_rows s). a_id r \<in> fst ` set (ap_active s) \<longrightarrow>
      a_status r = APending \<and> a_id r \<notin> fst ` set (ap_decisions s)) \<and>
    distinct (map (\<lambda>r. (a_runId r, a_requestId r)) (ap_rows s))"
  using ap_reach_inv [OF assms] unfolding ap_inv_def by blast

lemma promise_settled_once_witness:
  "a_status (request_row ''a1'' 0 600000 ex_request) = APending \<and>
   ''a1'' \<notin> fst ` set (ap_decisions ex_approvals)"
  using promise_settled_once [OF ex_approvals_reach]
  by (simp add: ex_approvals_eq)

text \<open>
  Canceling a run never fails, returns one approval for each that was pending, leaves none
  of the run pending and does not touch what is pending for other runs.
\<close>

lemma cancelRun_complete:
  assumes "ap_reach s"
  shows "\<exists>as s'. cancelRun runId reason clk s = (Inr as, s') \<and>
    length as = length (pending_of runId s) \<and> pending_of runId s' = [] \<and>
    (\<forall>r. r \<noteq> runId \<longrightarrow> pending_of r s' = pending_of r s)"
proof -
  have inv: "ap_inv s" using assms by (rule ap_reach_inv)
  have "map a_id (filter (\<lambda>r. a_runId r = runId \<and> a_status r = APending) (ap_rows s)) = pending_of runId s"
    by (simp add: pending_of_def)
  with cancel_rows_all [OF inv pending_of_distinct [OF inv] subset_refl] show ?thesis
    by (fastforce simp: cancelRun_def run_simps)
qed

lemma cancelRun_complete_witness:
  "pending_of ''r'' ex_approvals = [''a1''] \<and>
   (\<exists>as s'. cancelRun ''r'' None (\<lambda>_. 7) ex_approvals = (Inr as, s') \<and> pending_of ''r'' s' = [])"
  using cancelRun_complete [OF ex_approvals_reach, of "''r''" None "\<lambda>_. 7"]
  by (auto simp: pending_of_def ex_approvals_eq ex_request_def)

end
