(* ===== verification/ScheduleRepository.thy ===== *)
theory ScheduleRepository
  imports Repositories
begin

text \<open>
  The repository of schedules, \<^verbatim>\<open>scheduler/repository.ts\<close>, on the tables \<^verbatim>\<open>schedules\<close> and
  \<^verbatim>\<open>schedule_operations\<close>. \<^verbatim>\<open>ScheduleRecord\<close> has the columns of the row, so \<open>schedule_row\<close> stands
  for both; the column \<^verbatim>\<open>misfire_policy\<close> has the one value \<^verbatim>\<open>'skip'\<close> and is left out. The
  repository's clock and id factories are the defaults: the clock and \<^verbatim>\<open>nanoid\<close>.
\<close>

section \<open>Data\<close>

record schedule_insert =
  si_threadId :: "thread_id option"
  si_name :: string
  si_cron :: string
  si_timezone :: string
  si_enabled :: bool
  si_prompt :: string
  si_promptHash :: string
  si_promptPreviewRedacted :: string
  si_profile :: string
  si_cwd :: string
  si_canonicalCwd :: string
  si_model :: "string option"
  si_reasoning :: "reasoning_effort option"
  si_sandbox :: sandbox_mode
  si_timeoutMs :: "int option"
  si_concurrencyPolicy :: concurrency_policy
  si_nextRunAt :: "ms option"

text \<open>
  \<^verbatim>\<open>UpdateScheduleInput\<close>: \<open>None\<close> is a property the object does not have, the inner option is
  \<^verbatim>\<open>null\<close>. \<open>su_misfirePolicy\<close> tells whether the property is there.
\<close>

record schedule_update =
  su_threadId :: "thread_id option option"
  su_name :: "string option"
  su_cron :: "string option"
  su_timezone :: "string option"
  su_enabled :: "bool option"
  su_prompt :: "string option"
  su_promptHash :: "string option"
  su_promptPreviewRedacted :: "string option"
  su_profile :: "string option"
  su_cwd :: "string option"
  su_canonicalCwd :: "string option"
  su_model :: "string option option"
  su_reasoning :: "reasoning_effort option option"
  su_sandbox :: "sandbox_mode option"
  su_timeoutMs :: "int option option"
  su_concurrencyPolicy :: "concurrency_policy option"
  su_misfirePolicy :: bool
  su_nextRunAt :: "ms option option"
  su_lastRunAt :: "ms option option"
  su_lastRunId :: "run_id option option"
  su_lastStatus :: "schedule_last_status option option"
  su_pendingTrigger :: "bool option"

text \<open>The object without properties\<close>

definition no_update :: schedule_update where
  "no_update =
     \<lparr>su_threadId = None, su_name = None, su_cron = None, su_timezone = None, su_enabled = None,
      su_prompt = None, su_promptHash = None, su_promptPreviewRedacted = None, su_profile = None,
      su_cwd = None, su_canonicalCwd = None, su_model = None, su_reasoning = None, su_sandbox = None,
      su_timeoutMs = None, su_concurrencyPolicy = None, su_misfirePolicy = False,
      su_nextRunAt = None, su_lastRunAt = None, su_lastRunId = None, su_lastStatus = None,
      su_pendingTrigger = None\<rparr>"

datatype actor = UserActor | TimerActor | MigrationActor | AgentActor run_id

fun actor_type_of :: "actor \<Rightarrow> actor_type" where
  "actor_type_of UserActor = AtUser"
| "actor_type_of TimerActor = AtTimer"
| "actor_type_of MigrationActor = AtMigration"
| "actor_type_of (AgentActor _) = AtAgent"

fun actor_run_id :: "actor \<Rightarrow> run_id option" where
  "actor_run_id (AgentActor r) = Some r"
| "actor_run_id _ = None"

record operation_input =
  oi_scheduleId :: string
  oi_operation :: schedule_operation
  oi_status :: operation_status
  oi_runId :: "run_id option"
  oi_errorCode :: "string option"
  oi_errorMessage :: "string option"

text \<open>An operation with no run and no error\<close>

definition operation :: "string \<Rightarrow> schedule_operation \<Rightarrow> operation_status \<Rightarrow> operation_input" where
  "operation i kind st =
     \<lparr>oi_scheduleId = i, oi_operation = kind, oi_status = st, oi_runId = None, oi_errorCode = None,
      oi_errorMessage = None\<rparr>"

section \<open>Schedules\<close>

definition live :: "schedule_row \<Rightarrow> bool" where
  "live r \<longleftrightarrow> sc_deletedAt r = None"

definition getById :: "string \<Rightarrow> db \<Rightarrow> schedule_row option" where
  "getById i d = first_where (\<lambda>r. sc_id r = i \<and> live r) (db_schedules d)"

definition schedule_row_of :: "string \<Rightarrow> ms \<Rightarrow> schedule_insert \<Rightarrow> schedule_row" where
  "schedule_row_of i now q =
     \<lparr>sc_id = i, sc_threadId = si_threadId q, sc_name = si_name q, sc_cron = si_cron q,
      sc_timezone = si_timezone q, sc_enabled = si_enabled q, sc_prompt = si_prompt q,
      sc_promptHash = si_promptHash q, sc_promptPreviewRedacted = si_promptPreviewRedacted q,
      sc_profile = si_profile q, sc_cwd = si_cwd q, sc_canonicalCwd = si_canonicalCwd q,
      sc_model = si_model q, sc_reasoning = si_reasoning q, sc_sandbox = si_sandbox q,
      sc_timeoutMs = si_timeoutMs q, sc_concurrencyPolicy = si_concurrencyPolicy q,
      sc_nextRunAt = si_nextRunAt q, sc_lastRunAt = None, sc_lastRunId = None, sc_lastStatus = None,
      sc_pendingTrigger = False, sc_createdAt = now, sc_updatedAt = now, sc_deletedAt = None\<rparr>"

definition createSchedule :: "schedule_insert \<Rightarrow> ('fs, 'x, schedule_row) io" where
  "createSchedule q =
     bindE nanoid (\<lambda>suffix.
     (let i = ''sch_'' @ suffix in
      bindE date_now (\<lambda>now.
      thenE (write_db (\<lambda>d. d\<lparr>db_schedules := db_schedules d @ [schedule_row_of i now q]\<rparr>))
      (bindE (read_db (getById i)) (\<lambda>created.
       someE (PlainError (''Created schedule not found: '' @ i)) created)))))"

definition list_schedules :: "db \<Rightarrow> schedule_row list" where
  "list_schedules d = order_desc (\<lambda>r. (sc_createdAt r, sc_id r)) (live_schedules d)"

definition listScheduleProfileReferences :: "string \<Rightarrow> db \<Rightarrow> (string \<times> string) list" where
  "listScheduleProfileReferences profile d =
     map (\<lambda>r. (sc_id r, sc_name r))
       (order_desc (\<lambda>r. (sc_updatedAt r, sc_id r))
         (filter (\<lambda>r. sc_profile r = profile) (live_schedules d)))"

definition given :: "'a option \<Rightarrow> 'a \<Rightarrow> 'a" where
  "given x old = (case x of None \<Rightarrow> old | Some v \<Rightarrow> v)"

text \<open>\<^verbatim>\<open>updateEntries\<close>: the columns that a property of the input sets.\<close>

definition updateEntries :: "schedule_update \<Rightarrow> schedule_row \<Rightarrow> schedule_row" where
  "updateEntries u r = r\<lparr>
     sc_threadId := given (su_threadId u) (sc_threadId r),
     sc_name := given (su_name u) (sc_name r),
     sc_cron := given (su_cron u) (sc_cron r),
     sc_timezone := given (su_timezone u) (sc_timezone r),
     sc_enabled := given (su_enabled u) (sc_enabled r),
     sc_prompt := given (su_prompt u) (sc_prompt r),
     sc_promptHash := given (su_promptHash u) (sc_promptHash r),
     sc_promptPreviewRedacted := given (su_promptPreviewRedacted u) (sc_promptPreviewRedacted r),
     sc_profile := given (su_profile u) (sc_profile r),
     sc_cwd := given (su_cwd u) (sc_cwd r),
     sc_canonicalCwd := given (su_canonicalCwd u) (sc_canonicalCwd r),
     sc_model := given (su_model u) (sc_model r),
     sc_reasoning := given (su_reasoning u) (sc_reasoning r),
     sc_sandbox := given (su_sandbox u) (sc_sandbox r),
     sc_timeoutMs := given (su_timeoutMs u) (sc_timeoutMs r),
     sc_concurrencyPolicy := given (su_concurrencyPolicy u) (sc_concurrencyPolicy r),
     sc_nextRunAt := given (su_nextRunAt u) (sc_nextRunAt r),
     sc_lastRunAt := given (su_lastRunAt u) (sc_lastRunAt r),
     sc_lastRunId := given (su_lastRunId u) (sc_lastRunId r),
     sc_lastStatus := given (su_lastStatus u) (sc_lastStatus r),
     sc_pendingTrigger := given (su_pendingTrigger u) (sc_pendingTrigger r)\<rparr>"

definition update_schedules :: "(schedule_row \<Rightarrow> bool) \<Rightarrow> (schedule_row \<Rightarrow> schedule_row) \<Rightarrow> db \<Rightarrow> db" where
  "update_schedules p f d = d\<lparr>db_schedules := update_where p f (db_schedules d)\<rparr>"

definition updateSchedule :: "string \<Rightarrow> schedule_update \<Rightarrow> ('fs, 'x, schedule_row option) io" where
  "updateSchedule i u =
     (if u = no_update then read_db (getById i)
      else
        bindE date_now (\<lambda>now.
        thenE (write_db (update_schedules (\<lambda>r. sc_id r = i \<and> live r)
                 (\<lambda>r. (updateEntries u r)\<lparr>sc_updatedAt := now\<rparr>)))
        (read_db (getById i))))"

definition softDelete :: "string \<Rightarrow> ('fs, 'x, bool) io" where
  "softDelete i =
     bindE date_now (\<lambda>now.
     bindE (read_db (\<lambda>d. changes_where (\<lambda>r. sc_id r = i \<and> live r) (db_schedules d))) (\<lambda>changes.
     thenE (write_db (update_schedules (\<lambda>r. sc_id r = i \<and> live r)
              (\<lambda>r. r\<lparr>sc_deletedAt := Some now, sc_updatedAt := now\<rparr>)))
     (ret (changes > 0))))"

definition listDue :: "ms \<Rightarrow> db \<Rightarrow> schedule_row list" where
  "listDue now d =
     order_asc (\<lambda>r. (the (sc_nextRunAt r), sc_id r))
       (filter (\<lambda>r. sc_enabled r \<and> live r \<and> sc_nextRunAt r \<noteq> None \<and> the (sc_nextRunAt r) \<le> now)
         (db_schedules d))"

definition getNextEnabled :: "db \<Rightarrow> schedule_row option" where
  "getNextEnabled d =
     first_where (\<lambda>_. True)
       (order_asc (\<lambda>r. (the (sc_nextRunAt r), sc_id r))
         (filter (\<lambda>r. sc_enabled r \<and> live r \<and> sc_nextRunAt r \<noteq> None) (db_schedules d)))"

definition listPendingTriggers :: "db \<Rightarrow> schedule_row list" where
  "listPendingTriggers d =
     order_asc (\<lambda>r. (sc_updatedAt r, sc_id r))
       (filter (\<lambda>r. sc_enabled r \<and> live r \<and> sc_pendingTrigger r) (db_schedules d))"

definition setPendingTrigger :: "string \<Rightarrow> bool \<Rightarrow> ('fs, 'x, schedule_row option) io" where
  "setPendingTrigger i pending = updateSchedule i (no_update\<lparr>su_pendingTrigger := Some pending\<rparr>)"

definition recordRun ::
  "string \<Rightarrow> run_id \<Rightarrow> ms \<Rightarrow> schedule_last_status \<Rightarrow> ('fs, 'x, schedule_row option) io" where
  "recordRun i runId ranAt status =
     updateSchedule i (no_update\<lparr>su_lastRunAt := Some (Some ranAt), su_lastRunId := Some (Some runId),
       su_lastStatus := Some (Some status), su_pendingTrigger := Some False\<rparr>)"

definition recordSkipped :: "string \<Rightarrow> schedule_last_status \<Rightarrow> ('fs, 'x, schedule_row option) io" where
  "recordSkipped i status = updateSchedule i (no_update\<lparr>su_lastStatus := Some (Some status)\<rparr>)"

text \<open>\<^verbatim>\<open>reconcileLastRunStatuses\<close>: a schedule takes over the final status of its last run.\<close>

definition finished_last_run :: "db \<Rightarrow> schedule_row \<Rightarrow> run_row option" where
  "finished_last_run d r =
     (case sc_lastRunId r of
        None \<Rightarrow> None
      | Some runId \<Rightarrow>
          first_where (\<lambda>run. rn_id run = runId \<and> rn_createdBy run = BySchedule \<and>
            rn_sourceId run = Some (sc_id r) \<and> rn_publicStatus run \<in> {PSucceeded, PFailed, PCanceled})
          (db_runs d))"

definition reconcilable :: "db \<Rightarrow> schedule_row \<Rightarrow> bool" where
  "reconcilable d r \<longleftrightarrow>
     live r \<and> sc_lastStatus r \<in> {Some (LsRun PQueued), Some (LsRun PRunning)} \<and>
     finished_last_run d r \<noteq> None"

definition reconcile_rows :: "ms \<Rightarrow> db \<Rightarrow> db" where
  "reconcile_rows now d = d\<lparr>db_schedules :=
     update_where (reconcilable d)
       (\<lambda>r. r\<lparr>sc_lastStatus := map_option (\<lambda>run. LsRun (rn_publicStatus run)) (finished_last_run d r),
            sc_updatedAt := now\<rparr>) (db_schedules d)\<rparr>"

definition reconcileLastRunStatuses :: "('fs, 'x, nat) io" where
  "reconcileLastRunStatuses =
     bindE date_now (\<lambda>now.
     bindE (read_db (\<lambda>d. changes_where (reconcilable d) (db_schedules d))) (\<lambda>changes.
     thenE (write_db (reconcile_rows now)) (ret changes)))"

section \<open>Operations\<close>

definition operation_row_of :: "string \<Rightarrow> ms \<Rightarrow> operation_input \<Rightarrow> actor \<Rightarrow> operation_row" where
  "operation_row_of i now q a =
     \<lparr>so_id = i, so_scheduleId = oi_scheduleId q, so_operation = oi_operation q,
      so_status = oi_status q, so_runId = oi_runId q, so_actorType = actor_type_of a,
      so_actorRunId = actor_run_id a, so_errorCode = oi_errorCode q,
      so_errorMessage = oi_errorMessage q, so_createdAt = now\<rparr>"

definition insertOperation :: "operation_input \<Rightarrow> actor \<Rightarrow> ('fs, 'x, operation_row) io" where
  "insertOperation q a =
     bindE nanoid (\<lambda>suffix.
     bindE date_now (\<lambda>now.
     (let row = operation_row_of (''schop_'' @ suffix) now q a in
      thenE (write_db (\<lambda>d. d\<lparr>db_operations := db_operations d @ [row]\<rparr>)) (ret row))))"

text \<open>\<^verbatim>\<open>ORDER BY created_at DESC, rowid DESC\<close>\<close>

definition listOperations :: "string \<Rightarrow> nat \<Rightarrow> db \<Rightarrow> operation_row list" where
  "listOperations i limit d =
     take limit (order_desc so_createdAt (filter (\<lambda>so. so_scheduleId so = i) (db_operations d)))"

datatype diagnostic_event =
    ScheduleTriggered | ScheduleTriggerQueued | ScheduleTriggerSkipped | ScheduleThreadRepaired
  | ScheduleThreadRepairFailed | ScheduleRunStarted | ScheduleRunCompleted | ScheduleRunWaitingApproval

fun diagnosticEventForOperation :: "schedule_operation \<Rightarrow> diagnostic_event option" where
  "diagnosticEventForOperation OpRunNow = Some ScheduleTriggered"
| "diagnosticEventForOperation OpTimerTrigger = Some ScheduleTriggered"
| "diagnosticEventForOperation OpRunQueued = Some ScheduleTriggered"
| "diagnosticEventForOperation OpQueueTrigger = Some ScheduleTriggerQueued"
| "diagnosticEventForOperation OpSkipMisfire = Some ScheduleTriggerSkipped"
| "diagnosticEventForOperation OpSkipConcurrency = Some ScheduleTriggerSkipped"
| "diagnosticEventForOperation OpBindingRepair = Some ScheduleThreadRepaired"
| "diagnosticEventForOperation OpBindingRepairFailed = Some ScheduleThreadRepairFailed"
| "diagnosticEventForOperation _ = None"

section \<open>Traces of runs\<close>

text \<open>
  The time of an event is a text. \<^verbatim>\<open>runs.updated_at\<close> is in SQLite's format, with a space where
  the others have a \<^verbatim>\<open>T\<close>: within a day it sorts before them. \<open>time_key\<close> is that order.
\<close>

datatype event_time = IsoTime ms | SqlTime ms

fun time_key :: "event_time \<Rightarrow> int \<times> int \<times> int" where
  "time_key (IsoTime t) = (t div 86400000, 1, t)"
| "time_key (SqlTime t) = (t div 86400000, 0, t)"

record trace_event =
  te_type :: diagnostic_event
  te_occurredAt :: event_time
  te_operationId :: "string option"
  te_errorCode :: "string option"

record run_trace =
  tr_scheduleId :: string
  tr_threadId :: thread_id
  tr_runId :: run_id
  tr_triggerType :: schedule_operation
  tr_actorType :: actor_type
  tr_actorRunId :: "run_id option"
  tr_scheduledAt :: ms
  tr_startedAt :: "ms option"
  tr_endedAt :: "ms option"
  tr_status :: public_status
  tr_queued :: bool \<comment> \<open>\<^verbatim>\<open>queueReason: 'thread_active'\<close>\<close>
  tr_errorCode :: "string option"
  tr_events :: "trace_event list"

definition first_some :: "'a option \<Rightarrow> 'a option \<Rightarrow> 'a option" where
  "first_some x y = (case x of None \<Rightarrow> y | Some v \<Rightarrow> Some v)"

definition isTerminalRunStatus :: "public_status \<Rightarrow> bool" where
  "isTerminalRunStatus p \<longleftrightarrow> p = PSucceeded \<or> p = PFailed \<or> p = PCanceled"

definition trace_events :: "operation_row \<Rightarrow> run_row \<Rightarrow> ms option \<Rightarrow> trace_event list" where
  "trace_events so run approvalAt =
     (case diagnosticEventForOperation (so_operation so) of
        None \<Rightarrow> []
      | Some e \<Rightarrow> [\<lparr>te_type = e, te_occurredAt = IsoTime (so_createdAt so),
                   te_operationId = Some (so_id so), te_errorCode = None\<rparr>]) @
     (case rn_startedAt run of
        None \<Rightarrow> []
      | Some t \<Rightarrow> [\<lparr>te_type = ScheduleRunStarted, te_occurredAt = IsoTime t, te_operationId = None,
                   te_errorCode = None\<rparr>]) @
     (case approvalAt of
        None \<Rightarrow> []
      | Some t \<Rightarrow> [\<lparr>te_type = ScheduleRunWaitingApproval, te_occurredAt = IsoTime t,
                   te_operationId = None, te_errorCode = None\<rparr>]) @
     (if isTerminalRunStatus (rn_publicStatus run)
      then [\<lparr>te_type = ScheduleRunCompleted,
             te_occurredAt = (case rn_endedAt run of Some t \<Rightarrow> IsoTime t | None \<Rightarrow> SqlTime (rn_updatedAt run)),
             te_operationId = None, te_errorCode = first_some (rn_errorCode run) (so_errorCode so)\<rparr>]
      else [])"

definition mapRunTrace :: "operation_row \<Rightarrow> run_row \<Rightarrow> ms option \<Rightarrow> thread_id \<Rightarrow> run_trace" where
  "mapRunTrace so run approvalAt threadId =
     \<lparr>tr_scheduleId = so_scheduleId so, tr_threadId = threadId, tr_runId = rn_id run,
      tr_triggerType = so_operation so, tr_actorType = so_actorType so,
      tr_actorRunId = so_actorRunId so,
      tr_scheduledAt = (case rn_triggeredAt run of None \<Rightarrow> so_createdAt so | Some t \<Rightarrow> t),
      tr_startedAt = rn_startedAt run, tr_endedAt = rn_endedAt run, tr_status = rn_publicStatus run,
      tr_queued = (so_operation so = OpRunQueued \<or> rn_queueState run = QQueued \<or>
                   rn_publicStatus run = PQueued),
      tr_errorCode = first_some (rn_errorCode run) (so_errorCode so),
      tr_events = sort_key (\<lambda>e. time_key (te_occurredAt e)) (trace_events so run approvalAt)\<rparr>"

text \<open>
  \<open>getRunTrace\<close> joins the operation with its schedule and its run. \<open>approvals\<close> are run id and
  request time of the rows of \<^verbatim>\<open>approvals\<close>.
\<close>

definition trace_operations :: "run_id \<Rightarrow> db \<Rightarrow> (operation_row \<times> schedule_row \<times> run_row) list" where
  "trace_operations runId d =
     order_desc (\<lambda>j. so_createdAt (fst j))
       (concat (map (\<lambda>so. concat (map (\<lambda>sc. concat (map (\<lambda>run.
          if so_scheduleId so = sc_id sc \<and> so_runId so = Some (rn_id run) \<and> so_runId so = Some runId \<and>
             so_operation so \<in> {OpRunNow, OpTimerTrigger, OpRunQueued} \<and>
             rn_createdBy run = BySchedule \<and> rn_sourceId run = Some (so_scheduleId so)
          then [(so, sc, run)] else []) (db_runs d))) (db_schedules d))) (db_operations d)))"

definition max_time :: "ms list \<Rightarrow> ms option" where
  "max_time ts = (case ts of [] \<Rightarrow> None | t # ts \<Rightarrow> Some (fold max ts t))"

definition getRunTrace :: "(run_id \<times> ms) list \<Rightarrow> run_id \<Rightarrow> db \<Rightarrow> run_trace option" where
  "getRunTrace approvals runId d =
     (case trace_operations runId d of
        [] \<Rightarrow> None
      | (so, sc, run) # _ \<Rightarrow>
          (case first_some (rn_threadId run) (sc_threadId sc) of
             None \<Rightarrow> None
           | Some threadId \<Rightarrow>
               Some (mapRunTrace so run
                 (max_time (map snd (filter (\<lambda>a. fst a = rn_id run) approvals))) threadId)))"

section \<open>Effects of the statements\<close>

lemma sc_id_updateEntries [simp]:
  "sc_id (updateEntries u r) = sc_id r" "sc_deletedAt (updateEntries u r) = sc_deletedAt r"
  by (simp_all add: updateEntries_def)

lemma live_updateEntries [simp]:
  "live ((updateEntries u r)\<lparr>sc_updatedAt := now\<rparr>) = live r"
  by (simp add: live_def)

lemma live_schedules_update:
  "(\<And>r. sc_deletedAt (f r) = sc_deletedAt r) \<Longrightarrow>
   live_schedules (update_schedules p f d) = update_where p f (live_schedules d)"
proof -
  assume f: "\<And>r. sc_deletedAt (f r) = sc_deletedAt r"
  have "filter (\<lambda>r. sc_deletedAt r = None) (update_where p f ts) =
      update_where p f (filter (\<lambda>r. sc_deletedAt r = None) ts)" for ts
    by (induction ts) (auto simp: update_where_def f)
  then show ?thesis by (simp add: live_schedules_def update_schedules_def)
qed

lemma live_mem: "r \<in> set (live_schedules d) \<Longrightarrow> live r"
  by (simp add: live_schedules_def live_def)

lemma getById_Some: "getById i d = Some r \<Longrightarrow> r \<in> set (live_schedules d) \<and> sc_id r = i"
  by (auto simp: getById_def live_schedules_def live_def dest: first_where_Some)

lemma getById_live:
  assumes "db_ok d" and "r \<in> set (live_schedules d)"
  shows "getById (sc_id r) d = Some r"
  unfolding getById_def
proof (rule first_where_key)
  show "distinct (map sc_id (db_schedules d))" using assms(1) by (simp add: db_ok_iff)
  show "r \<in> set (db_schedules d)" "sc_id r = sc_id r \<and> live r"
    using assms(2) by (auto simp: live_schedules_def live_def)
qed simp

lemma live_schedules_distinct: "db_ok d \<Longrightarrow> distinct (map sc_id (live_schedules d))"
  by (simp add: db_ok_iff live_schedules_def distinct_map_filter)

text \<open>Live schedules are bound to different threads.\<close>

lemma bound_thread_unique:
  assumes "db_ok d" and "r \<in> set (live_schedules d)" and "r' \<in> set (live_schedules d)"
    and "sc_threadId r = Some t" and "sc_threadId r' = Some t"
  shows "r = r'"
  using assms by (auto simp: db_ok_iff intro: somes_distinct)

lemma createSchedule_Inr:
  assumes "createSchedule q s = (Inr r, s')"
  shows "rt_db s' = rt_db s\<lparr>db_schedules := db_schedules (rt_db s) @ [r]\<rparr> \<and>
    ok_state s' \<and> r = schedule_row_of (sc_id r) (sc_createdAt r) q"
proof -
  let ?i = "''sch_'' @ rt_ids s (rt_nextId s)"
  let ?row = "schedule_row_of ?i (rt_now s (rt_tick s)) q"
  let ?d = "rt_db s\<lparr>db_schedules := db_schedules (rt_db s) @ [?row]\<rparr>"
  from assms have ok: "db_ok ?d" and r: "getById ?i ?d = Some r" and s': "rt_db s' = ?d"
    by (auto simp: createSchedule_def inr_simps Let_def)
  have "?row \<in> set (live_schedules ?d)" by (simp add: live_schedules_def schedule_row_of_def)
  from getById_live [OF ok this] r have "r = ?row" by (simp add: schedule_row_of_def)
  with s' ok show ?thesis by (simp add: schedule_row_of_def)
qed

lemma insertOperation_Inr:
  assumes "insertOperation q a s = (Inr so, s')"
  shows "rt_db s' = rt_db s\<lparr>db_operations := db_operations (rt_db s) @ [so]\<rparr> \<and> ok_state s' \<and>
    so = operation_row_of (so_id so) (so_createdAt so) q a"
  using assms by (auto simp: insertOperation_def inr_simps Let_def operation_row_of_def)

lemma updateSchedule_Inr:
  assumes "updateSchedule i u s = (Inr x, s')"
  shows "x = getById i (rt_db s') \<and>
    (\<exists>now. rt_db s' = (if u = no_update then rt_db s
       else update_schedules (\<lambda>r. sc_id r = i \<and> live r) (\<lambda>r. (updateEntries u r)\<lparr>sc_updatedAt := now\<rparr>) (rt_db s))) \<and>
    (ok_state s \<longrightarrow> ok_state s')"
  using assms by (auto simp: updateSchedule_def inr_simps split: if_splits)

lemma softDelete_Inr:
  assumes "softDelete i s = (Inr b, s')"
  shows "\<exists>now. rt_db s' = update_schedules (\<lambda>r. sc_id r = i \<and> live r)
      (\<lambda>r. r\<lparr>sc_deletedAt := Some now, sc_updatedAt := now\<rparr>) (rt_db s) \<and> ok_state s' \<and>
    b = (changes_where (\<lambda>r. sc_id r = i \<and> live r) (db_schedules (rt_db s)) > 0)"
  using assms by (auto simp: softDelete_def inr_simps)

lemma live_schedules_softDelete:
  "live_schedules (update_schedules (\<lambda>r. sc_id r = i \<and> live r)
     (\<lambda>r. r\<lparr>sc_deletedAt := Some now, sc_updatedAt := now\<rparr>) d) =
   filter (\<lambda>r. sc_id r \<noteq> i) (live_schedules d)"
proof -
  have "filter (\<lambda>r. sc_deletedAt r = None)
      (update_where (\<lambda>r. sc_id r = i \<and> live r)
        (\<lambda>r. r\<lparr>sc_deletedAt := Some now, sc_updatedAt := now\<rparr>) ts) =
    filter (\<lambda>r. sc_id r \<noteq> i) (filter (\<lambda>r. sc_deletedAt r = None) ts)" for ts
    by (induction ts) (auto simp: update_where_def live_def)
  then show ?thesis by (simp add: live_schedules_def update_schedules_def)
qed

text \<open>The statements on schedules leave the threads and the runs alone.\<close>

lemma schedule_statements_frame [keeps_rules]:
  "db_keeps (\<lambda>d. P (db_threads d) (db_runs d)) (createSchedule q)"
  "db_keeps (\<lambda>d. P (db_threads d) (db_runs d)) (updateSchedule i u)"
  "db_keeps (\<lambda>d. P (db_threads d) (db_runs d)) (softDelete i)"
  "db_keeps (\<lambda>d. P (db_threads d) (db_runs d)) (insertOperation oi a)"
  "db_keeps (\<lambda>d. P (db_threads d) (db_runs d)) reconcileLastRunStatuses"
  unfolding createSchedule_def updateSchedule_def softDelete_def insertOperation_def
    reconcileLastRunStatuses_def Let_def
  by (intro keeps_rules db_keeps_write; simp add: update_schedules_def reconcile_rows_def)+

lemma schedule_statements_ok [keeps_rules]:
  "db_keeps db_ok (createSchedule q)" "db_keeps db_ok (updateSchedule i u)"
  "db_keeps db_ok (softDelete i)" "db_keeps db_ok (insertOperation oi a)"
  "db_keeps db_ok reconcileLastRunStatuses"
  unfolding createSchedule_def updateSchedule_def softDelete_def insertOperation_def
    reconcileLastRunStatuses_def Let_def
  by (intro keeps_rules)+

end
