(* ===== verification/ScheduleValidator.thy ===== *)
theory ScheduleValidator
  imports ScheduleRepository Redaction
begin

text \<open>
  Parsing the requests that create and change schedules: \<^verbatim>\<open>scheduler/validator.ts\<close>, with
  \<^verbatim>\<open>scheduler/cron.ts\<close>. A request body is a \<open>json\<close> value; a result is the code and message of
  the first check that fails, or the normalized input, in which a property is present exactly
  when the code assigns it.

  \<open>sched_env\<close> adds to the environment what the parser calls: the library \<^verbatim>\<open>cron-parser\<close>, the
  time zones of \<^verbatim>\<open>Intl\<close> and the check of Codex profiles.
\<close>

section \<open>Environment\<close>

record 'fs sched_env = "'fs env" +
  se_cronNext :: "string \<Rightarrow> string \<Rightarrow> ms \<Rightarrow> err + ms option"
    \<comment> \<open>\<^verbatim>\<open>CronExpressionParser.parse(cron, {tz, currentDate}).next().toISOString()\<close>\<close>
  se_timezoneKnown :: "string \<Rightarrow> bool"
  se_localTimezone :: string
  se_validateProfile :: "string \<Rightarrow> (string \<times> string) option" \<comment> \<open>\<open>None\<close> is \<^verbatim>\<open>ok: true\<close>\<close>

section \<open>Cron\<close>

definition computeNextRunAt :: "'fs sched_env \<Rightarrow> string \<Rightarrow> string \<Rightarrow> ms \<Rightarrow> err + ms" where
  "computeNextRunAt E cron timezone now =
     (case se_cronNext E cron timezone now of
        Inl e \<Rightarrow> Inl e
      | Inr None \<Rightarrow> Inl (PlainError ''cron expression did not produce an ISO timestamp'')
      | Inr (Some t) \<Rightarrow> Inr t)"

text \<open>The expression is tried at 2026-01-01T00:00:00.000Z; \<open>Some\<close> is the message of the failure.\<close>

definition validateCronExpression :: "'fs sched_env \<Rightarrow> string \<Rightarrow> string option" where
  "validateCronExpression E cron =
     (case computeNextRunAt E cron ''UTC'' 1767225600000 of Inl e \<Rightarrow> Some (err_message e) | Inr _ \<Rightarrow> None)"

definition getDefaultTimezone :: "'fs sched_env \<Rightarrow> string" where
  "getDefaultTimezone E = (if se_localTimezone E \<noteq> [] then se_localTimezone E else ''UTC'')"

section \<open>Results\<close>

type_synonym 'a parsed = "(string \<times> string) + 'a"

definition and_then :: "'a parsed \<Rightarrow> ('a \<Rightarrow> 'b parsed) \<Rightarrow> 'b parsed" where
  "and_then r f = (case r of Inl e \<Rightarrow> Inl e | Inr a \<Rightarrow> f a)"

definition VALIDATION_FAILED :: "string \<Rightarrow> 'a parsed" where
  "VALIDATION_FAILED message = Inl (''VALIDATION_FAILED'', message)"

definition SCHEDULE_INVALID :: "string \<Rightarrow> 'a parsed" where
  "SCHEDULE_INVALID message = Inl (''SCHEDULE_INVALID'', message)"

type_synonym body = "(string \<times> json) list"

text \<open>\<^verbatim>\<open>body.key\<close>\<close>

definition property :: "body \<Rightarrow> string \<Rightarrow> json" where
  "property b key = (case map_of b key of None \<Rightarrow> JUndefined | Some v \<Rightarrow> v)"

definition requireString :: "json \<Rightarrow> string \<Rightarrow> string parsed" where
  "requireString v field =
     (case v of
        JStr (c # cs) \<Rightarrow> Inr (c # cs)
      | _ \<Rightarrow> VALIDATION_FAILED (field @ '' must be a non-empty string''))"

section \<open>Enumerations\<close>

definition SANDBOX_MODES :: "(string \<times> sandbox_mode) list" where
  "SANDBOX_MODES =
     [(''read-only'', ReadOnly), (''workspace-write'', WorkspaceWrite),
      (''danger-full-access'', DangerFullAccess)]"

definition REASONING_EFFORTS :: "(string \<times> reasoning_effort) list" where
  "REASONING_EFFORTS =
     [(''default'', RDefault), (''low'', RLow), (''medium'', RMedium), (''high'', RHigh), (''xhigh'', RXhigh)]"

definition CONCURRENCY_POLICIES :: "(string \<times> concurrency_policy) list" where
  "CONCURRENCY_POLICIES = [(''skip'', CpSkip), (''queue'', CpQueue)]"

definition MIN_TIMEOUT_MS :: int where "MIN_TIMEOUT_MS = 1000"

definition MAX_TIMEOUT_MS :: int where "MAX_TIMEOUT_MS = 86400000"

text \<open>\<^verbatim>\<open>isOneOf\<close>: the option that the value names\<close>

definition isOneOf :: "json \<Rightarrow> (string \<times> 'a) list \<Rightarrow> 'a option" where
  "isOneOf v options = (case v of JStr s \<Rightarrow> map_of options s | _ \<Rightarrow> None)"

definition timeout_of :: "json \<Rightarrow> int option option" where
  "timeout_of v =
     (case v of
        JNull \<Rightarrow> Some None
      | JNum q \<Rightarrow>
          if of_int (floor q) = q \<and> MIN_TIMEOUT_MS \<le> floor q \<and> floor q \<le> MAX_TIMEOUT_MS
          then Some (Some (floor q)) else None
      | _ \<Rightarrow> None)"

section \<open>Fields common to creating and changing\<close>

definition parseName :: "bool \<Rightarrow> body \<Rightarrow> schedule_update \<Rightarrow> schedule_update parsed" where
  "parseName defaults b u =
     (if \<not> (defaults \<or> property b ''name'' \<noteq> JUndefined) then Inr u
      else
        and_then (requireString (property b ''name'') ''name'') (\<lambda>name.
        if length name > 120 then SCHEDULE_INVALID ''name must be at most 120 characters''
        else Inr (u\<lparr>su_name := Some name\<rparr>)))"

definition parseEnabled :: "bool \<Rightarrow> body \<Rightarrow> schedule_update \<Rightarrow> schedule_update parsed" where
  "parseEnabled defaults b u =
     (if \<not> (defaults \<or> property b ''enabled'' \<noteq> JUndefined) then Inr u
      else
        case property b ''enabled'' of
          JUndefined \<Rightarrow> Inr (u\<lparr>su_enabled := Some True\<rparr>)
        | JBool v \<Rightarrow> Inr (u\<lparr>su_enabled := Some v\<rparr>)
        | _ \<Rightarrow> VALIDATION_FAILED ''enabled must be a boolean'')"

definition parseProfile ::
  "'fs sched_env \<Rightarrow> bool \<Rightarrow> body \<Rightarrow> schedule_update \<Rightarrow> schedule_update parsed" where
  "parseProfile E defaults b u =
     (if \<not> (defaults \<or> property b ''profile'' \<noteq> JUndefined) then Inr u
      else
        case (if property b ''profile'' = JUndefined then JStr ''default'' else property b ''profile'') of
          JStr (c # cs) \<Rightarrow>
            (case se_validateProfile E (c # cs) of
               Some e \<Rightarrow> Inl e
             | None \<Rightarrow> Inr (u\<lparr>su_profile := Some (c # cs)\<rparr>))
        | _ \<Rightarrow> VALIDATION_FAILED ''profile must be a non-empty string'')"

definition parseCwd ::
  "'fs sched_env \<Rightarrow> 'fs \<Rightarrow> string \<Rightarrow> bool \<Rightarrow> body \<Rightarrow> schedule_update \<Rightarrow> schedule_update parsed" where
  "parseCwd E fs defaultCwd defaults b u =
     (if \<not> (defaults \<or> property b ''cwd'' \<noteq> JUndefined) then Inr u
      else
        case (if property b ''cwd'' = JUndefined then JStr defaultCwd else property b ''cwd'') of
          JStr (c # cs) \<Rightarrow>
            (let cwd = expandHome E (c # cs) in
             case env_realpathSync E fs cwd of
               Inl e \<Rightarrow> SCHEDULE_INVALID (''cwd must exist: '' @ err_message e)
             | Inr canonical \<Rightarrow> Inr (u\<lparr>su_cwd := Some cwd, su_canonicalCwd := Some canonical\<rparr>))
        | _ \<Rightarrow> VALIDATION_FAILED ''cwd must be a non-empty string'')"

definition parseModel :: "bool \<Rightarrow> body \<Rightarrow> schedule_update \<Rightarrow> schedule_update parsed" where
  "parseModel defaults b u =
     (case property b ''model'' of
        JUndefined \<Rightarrow> Inr (if defaults then u\<lparr>su_model := Some None\<rparr> else u)
      | JNull \<Rightarrow> Inr (u\<lparr>su_model := Some None\<rparr>)
      | JStr m \<Rightarrow> Inr (u\<lparr>su_model := Some (Some m)\<rparr>)
      | _ \<Rightarrow> VALIDATION_FAILED ''model must be a string or null'')"

definition parseReasoning :: "bool \<Rightarrow> body \<Rightarrow> schedule_update \<Rightarrow> schedule_update parsed" where
  "parseReasoning defaults b u =
     (case property b ''reasoning'' of
        JUndefined \<Rightarrow> Inr (if defaults then u\<lparr>su_reasoning := Some None\<rparr> else u)
      | JNull \<Rightarrow> Inr (u\<lparr>su_reasoning := Some None\<rparr>)
      | v \<Rightarrow>
          (case isOneOf v REASONING_EFFORTS of
             Some r \<Rightarrow> Inr (u\<lparr>su_reasoning := Some (Some r)\<rparr>)
           | None \<Rightarrow> VALIDATION_FAILED ''reasoning must be a valid reasoning effort or null''))"

definition parseSandbox :: "bool \<Rightarrow> body \<Rightarrow> schedule_update \<Rightarrow> schedule_update parsed" where
  "parseSandbox defaults b u =
     (if \<not> (defaults \<or> property b ''sandbox'' \<noteq> JUndefined) then Inr u
      else
        case isOneOf (if property b ''sandbox'' = JUndefined then JStr ''workspace-write''
                      else property b ''sandbox'') SANDBOX_MODES of
          Some m \<Rightarrow> Inr (u\<lparr>su_sandbox := Some m\<rparr>)
        | None \<Rightarrow> VALIDATION_FAILED ''sandbox must be a valid sandbox mode'')"

definition parseTimeout :: "bool \<Rightarrow> body \<Rightarrow> schedule_update \<Rightarrow> schedule_update parsed" where
  "parseTimeout defaults b u =
     (if property b ''timeoutMs'' = JUndefined
      then Inr (if defaults then u\<lparr>su_timeoutMs := Some None\<rparr> else u)
      else
        case timeout_of (property b ''timeoutMs'') of
          Some t \<Rightarrow> Inr (u\<lparr>su_timeoutMs := Some t\<rparr>)
        | None \<Rightarrow> SCHEDULE_INVALID ''timeoutMs must be between 1000 and 86400000'')"

definition parseConcurrency :: "bool \<Rightarrow> body \<Rightarrow> schedule_update \<Rightarrow> schedule_update parsed" where
  "parseConcurrency defaults b u =
     (if \<not> (defaults \<or> property b ''concurrencyPolicy'' \<noteq> JUndefined) then Inr u
      else
        case isOneOf (if property b ''concurrencyPolicy'' = JUndefined then JStr ''queue''
                      else property b ''concurrencyPolicy'') CONCURRENCY_POLICIES of
          Some p \<Rightarrow> Inr (u\<lparr>su_concurrencyPolicy := Some p\<rparr>)
        | None \<Rightarrow> SCHEDULE_INVALID ''concurrencyPolicy must be skip or queue'')"

definition parseMisfire :: "bool \<Rightarrow> body \<Rightarrow> schedule_update \<Rightarrow> schedule_update parsed" where
  "parseMisfire defaults b u =
     (if property b ''misfirePolicy'' \<noteq> JUndefined \<and> property b ''misfirePolicy'' \<noteq> JStr ''skip''
      then SCHEDULE_INVALID ''run_once misfire is disabled for desktop-safe scheduler''
      else if defaults \<or> property b ''misfirePolicy'' \<noteq> JUndefined
      then Inr (u\<lparr>su_misfirePolicy := True\<rparr>)
      else Inr u)"

definition parseCommonFields ::
  "'fs sched_env \<Rightarrow> 'fs \<Rightarrow> string \<Rightarrow> bool \<Rightarrow> body \<Rightarrow> schedule_update parsed" where
  "parseCommonFields E fs defaultCwd defaults b =
     and_then (parseName defaults b no_update) (\<lambda>u.
     and_then (parseEnabled defaults b u) (\<lambda>u.
     and_then (parseProfile E defaults b u) (\<lambda>u.
     and_then (parseCwd E fs defaultCwd defaults b u) (\<lambda>u.
     and_then (parseModel defaults b u) (\<lambda>u.
     and_then (parseReasoning defaults b u) (\<lambda>u.
     and_then (parseSandbox defaults b u) (\<lambda>u.
     and_then (parseTimeout defaults b u) (\<lambda>u.
     and_then (parseConcurrency defaults b u) (\<lambda>u.
     parseMisfire defaults b u)))))))))"

section \<open>Requests\<close>

definition validateCronAndTimezone ::
  "'fs sched_env \<Rightarrow> string \<Rightarrow> string \<Rightarrow> ms \<Rightarrow> (err, ms parsed) sum" where
  "validateCronAndTimezone E cron timezone now =
     (if \<not> se_timezoneKnown E timezone
      then Inr (SCHEDULE_INVALID ''timezone must be a valid IANA timezone'')
      else
        case validateCronExpression E cron of
          Some message \<Rightarrow> Inr (SCHEDULE_INVALID (''cron is invalid: '' @ message))
        | None \<Rightarrow> map_sum id Inr (computeNextRunAt E cron timezone now))"

definition prompt_metadata :: "'fs sched_env \<Rightarrow> string \<Rightarrow> string \<times> string" where
  "prompt_metadata E prompt = (env_sha256 E prompt, take 240 (redactText prompt))"

text \<open>
  A created schedule has every common field, so the properties are there to be read (lemma
  \<open>parseCommonFields_complete\<close>). The call of \<open>computeNextRunAt\<close> for the requested time zone is
  not guarded: what it raises leaves the parser as the outer \<open>Inl\<close>.
\<close>

definition insert_of :: "schedule_update \<Rightarrow> string \<Rightarrow> string \<Rightarrow> string \<Rightarrow> string \<times> string \<Rightarrow> ms \<Rightarrow> schedule_insert" where
  "insert_of u cron timezone prompt metadata next =
     \<lparr>si_threadId = None, si_name = the (su_name u), si_cron = cron, si_timezone = timezone,
      si_enabled = the (su_enabled u), si_prompt = prompt, si_promptHash = fst metadata,
      si_promptPreviewRedacted = snd metadata, si_profile = the (su_profile u),
      si_cwd = the (su_cwd u), si_canonicalCwd = the (su_canonicalCwd u),
      si_model = the (su_model u), si_reasoning = the (su_reasoning u),
      si_sandbox = the (su_sandbox u), si_timeoutMs = the (su_timeoutMs u),
      si_concurrencyPolicy = the (su_concurrencyPolicy u),
      si_nextRunAt = (if su_enabled u = Some False then None else Some next)\<rparr>"

definition timezone_of :: "'fs sched_env \<Rightarrow> json \<Rightarrow> string parsed" where
  "timezone_of E v =
     (case v of
        JUndefined \<Rightarrow> Inr (getDefaultTimezone E)
      | JStr s \<Rightarrow> Inr s
      | _ \<Rightarrow> SCHEDULE_INVALID ''timezone must be a valid IANA timezone'')"

definition create_fields ::
  "'fs sched_env \<Rightarrow> 'fs \<Rightarrow> string \<Rightarrow> body \<Rightarrow> (schedule_update \<times> string \<times> string \<times> string) parsed" where
  "create_fields E fs defaultCwd b =
     and_then (parseCommonFields E fs defaultCwd True b) (\<lambda>base.
     and_then (requireString (property b ''cron'') ''cron'') (\<lambda>cron.
     and_then (requireString (property b ''prompt'') ''prompt'') (\<lambda>prompt.
     and_then (timezone_of E (property b ''timezone'')) (\<lambda>timezone.
     Inr (base, cron, prompt, timezone)))))"

definition parseCreateScheduleRequest ::
  "'fs sched_env \<Rightarrow> 'fs \<Rightarrow> ms \<Rightarrow> string \<Rightarrow> json \<Rightarrow> err + schedule_insert parsed" where
  "parseCreateScheduleRequest E fs now defaultCwd body =
     (case body of
        JObj b \<Rightarrow>
          (case create_fields E fs defaultCwd b of
             Inl e \<Rightarrow> Inr (Inl e)
           | Inr (base, cron, prompt, timezone) \<Rightarrow>
               (case validateCronAndTimezone E cron timezone now of
                  Inl e \<Rightarrow> Inl e
                | Inr (Inl e) \<Rightarrow> Inr (Inl e)
                | Inr (Inr next) \<Rightarrow>
                    Inr (Inr (insert_of base cron timezone prompt (prompt_metadata E prompt) next))))
      | _ \<Rightarrow> Inr (VALIDATION_FAILED ''body must be an object''))"

definition parseUpdateScheduleRequest ::
  "'fs sched_env \<Rightarrow> 'fs \<Rightarrow> string \<Rightarrow> json \<Rightarrow> schedule_update parsed" where
  "parseUpdateScheduleRequest E fs defaultCwd body =
     (case body of
        JObj b \<Rightarrow>
          and_then (parseCommonFields E fs defaultCwd False b) (\<lambda>u.
          and_then
            (if property b ''cron'' = JUndefined then Inr u
             else and_then (requireString (property b ''cron'') ''cron'')
                    (\<lambda>cron. Inr (u\<lparr>su_cron := Some cron\<rparr>))) (\<lambda>u.
          and_then
            (if property b ''timezone'' = JUndefined then Inr u
             else and_then (requireString (property b ''timezone'') ''timezone'')
                    (\<lambda>timezone. Inr (u\<lparr>su_timezone := Some timezone\<rparr>))) (\<lambda>u.
          and_then
            (if property b ''prompt'' = JUndefined then Inr u
             else and_then (requireString (property b ''prompt'') ''prompt'')
                    (\<lambda>prompt. Inr (u\<lparr>su_prompt := Some prompt,
                       su_promptHash := Some (fst (prompt_metadata E prompt)),
                       su_promptPreviewRedacted := Some (snd (prompt_metadata E prompt))\<rparr>))) (\<lambda>u.
          and_then
            (case su_cron u of
               None \<Rightarrow> Inr u
             | Some cron \<Rightarrow>
                 (case validateCronExpression E cron of
                    Some message \<Rightarrow> SCHEDULE_INVALID (''cron is invalid: '' @ message)
                  | None \<Rightarrow> Inr u)) (\<lambda>u.
          case su_timezone u of
            None \<Rightarrow> Inr u
          | Some timezone \<Rightarrow>
              if \<not> se_timezoneKnown E timezone
              then SCHEDULE_INVALID ''timezone must be a valid IANA timezone''
              else Inr u)))))
      | _ \<Rightarrow> VALIDATION_FAILED ''body must be an object'')"

section \<open>What an accepted request has\<close>

lemma and_then_Inr: "and_then r f = Inr b \<longleftrightarrow> (\<exists>a. r = Inr a \<and> f a = Inr b)"
  by (cases r) (auto simp: and_then_def)

lemma failed_Inr [simp]: "VALIDATION_FAILED m \<noteq> Inr a" "SCHEDULE_INVALID m \<noteq> Inr a"
  by (simp_all add: VALIDATION_FAILED_def SCHEDULE_INVALID_def)

lemma requireString_Inr: "requireString v f = Inr x \<longleftrightarrow> v = JStr x \<and> x \<noteq> []"
  by (auto simp: requireString_def split: json.splits list.splits)

lemma parseName_Inr:
  "parseName df b u = Inr v \<Longrightarrow>
   \<exists>x. v = u\<lparr>su_name := x\<rparr> \<and>
     (x = su_name u \<and> \<not> df \<and> property b ''name'' = JUndefined \<or>
      (\<exists>n. x = Some n \<and> property b ''name'' = JStr n \<and> n \<noteq> [] \<and> length n \<le> 120))"
  by (auto simp: parseName_def and_then_Inr requireString_Inr intro: exI [of _ "su_name u"] split: if_splits)

lemma parseEnabled_Inr:
  "parseEnabled df b u = Inr v \<Longrightarrow>
   \<exists>x. v = u\<lparr>su_enabled := x\<rparr> \<and>
     (x = su_enabled u \<and> \<not> df \<and> property b ''enabled'' = JUndefined \<or>
      (\<exists>e. x = Some e \<and> (property b ''enabled'' = JBool e \<or> df \<and> e \<and> property b ''enabled'' = JUndefined)))"
  by (auto simp: parseEnabled_def  intro: exI [of _ "su_enabled u"] split: if_splits json.splits)

lemma parseProfile_Inr:
  "parseProfile E df b u = Inr v \<Longrightarrow>
   \<exists>x. v = u\<lparr>su_profile := x\<rparr> \<and>
     (x = su_profile u \<and> \<not> df \<and> property b ''profile'' = JUndefined \<or>
      (\<exists>y. x = Some y \<and> y \<noteq> [] \<and> se_validateProfile E y = None))"
  by (auto simp: parseProfile_def  intro: exI [of _ "su_profile u"] split: if_splits json.splits list.splits option.splits)

lemma parseCwd_Inr:
  "parseCwd E fs dc df b u = Inr v \<Longrightarrow>
   \<exists>x c. v = u\<lparr>su_cwd := x, su_canonicalCwd := c\<rparr> \<and>
     (x = su_cwd u \<and> c = su_canonicalCwd u \<and> \<not> df \<and> property b ''cwd'' = JUndefined \<or>
      (\<exists>y d. x = Some y \<and> c = Some d \<and> env_realpathSync E fs y = Inr d))"
proof -
  assume "parseCwd E fs dc df b u = Inr v"
  then have "v = u \<and> \<not> df \<and> property b ''cwd'' = JUndefined \<or>
      (\<exists>y d. v = u\<lparr>su_cwd := Some y, su_canonicalCwd := Some d\<rparr> \<and> env_realpathSync E fs y = Inr d)"
    by (auto simp: parseCwd_def Let_def split: if_splits json.splits list.splits sum.splits)
  then show ?thesis
  proof
    assume 1: "v = u \<and> \<not> df \<and> property b ''cwd'' = JUndefined"
    then have "v = u\<lparr>su_cwd := su_cwd u, su_canonicalCwd := su_canonicalCwd u\<rparr>" by simp
    with 1 show ?thesis by blast
  qed blast
qed

lemma parseModel_Inr:
  "parseModel df b u = Inr v \<Longrightarrow>
   \<exists>x. v = u\<lparr>su_model := x\<rparr> \<and>
     (x = su_model u \<and> \<not> df \<and> property b ''model'' = JUndefined \<or>
      x \<noteq> None \<and> (df \<or> property b ''model'' \<noteq> JUndefined))"
  by (auto simp: parseModel_def  intro: exI [of _ "su_model u"] split: if_splits json.splits)

lemma parseReasoning_Inr:
  "parseReasoning df b u = Inr v \<Longrightarrow>
   \<exists>x. v = u\<lparr>su_reasoning := x\<rparr> \<and>
     (x = su_reasoning u \<and> \<not> df \<and> property b ''reasoning'' = JUndefined \<or>
      x \<noteq> None \<and> (df \<or> property b ''reasoning'' \<noteq> JUndefined))"
  by (auto simp: parseReasoning_def  intro: exI [of _ "su_reasoning u"] split: if_splits json.splits option.splits)

lemma parseSandbox_Inr:
  "parseSandbox df b u = Inr v \<Longrightarrow>
   \<exists>x. v = u\<lparr>su_sandbox := x\<rparr> \<and>
     (x = su_sandbox u \<and> \<not> df \<and> property b ''sandbox'' = JUndefined \<or>
      x \<noteq> None \<and> (df \<or> property b ''sandbox'' \<noteq> JUndefined))"
  by (auto simp: parseSandbox_def  intro: exI [of _ "su_sandbox u"] split: if_splits option.splits)

lemma parseTimeout_Inr:
  "parseTimeout df b u = Inr v \<Longrightarrow>
   \<exists>x. v = u\<lparr>su_timeoutMs := x\<rparr> \<and>
     (x = su_timeoutMs u \<and> \<not> df \<and> property b ''timeoutMs'' = JUndefined \<or>
      (\<exists>t. x = Some t \<and> (\<forall>n. t = Some n \<longrightarrow> 1000 \<le> n \<and> n \<le> 86400000)))"
  by (auto simp: parseTimeout_def timeout_of_def MIN_TIMEOUT_MS_def MAX_TIMEOUT_MS_def intro: exI [of _ "su_timeoutMs u"] split: if_splits json.splits)

lemma parseConcurrency_Inr:
  "parseConcurrency df b u = Inr v \<Longrightarrow>
   \<exists>x. v = u\<lparr>su_concurrencyPolicy := x\<rparr> \<and>
     (x = su_concurrencyPolicy u \<and> \<not> df \<and> property b ''concurrencyPolicy'' = JUndefined \<or>
      x \<in> {Some CpSkip, Some CpQueue})"
  by (auto simp: parseConcurrency_def isOneOf_def CONCURRENCY_POLICIES_def intro: exI [of _ "su_concurrencyPolicy u"] split: if_splits option.splits json.splits)

lemma parseMisfire_Inr: "parseMisfire df b u = Inr v \<Longrightarrow> \<exists>m. v = u\<lparr>su_misfirePolicy := m\<rparr>"
proof -
  assume "parseMisfire df b u = Inr v"
  then have "v = u \<or> v = u\<lparr>su_misfirePolicy := True\<rparr>"
    unfolding parseMisfire_def by (metis failed_Inr(2) sum.inject(2))
  then show ?thesis
  proof
    assume "v = u"
    then have "v = u\<lparr>su_misfirePolicy := su_misfirePolicy u\<rparr>" by simp
    then show ?thesis by blast
  qed blast
qed

text \<open>The fields of the common part, one fact per field.\<close>

lemma parseCommonFields_Inr:
  assumes "parseCommonFields E fs dc df b = Inr v"
  shows "(case su_name v of
            None \<Rightarrow> \<not> df \<and> property b ''name'' = JUndefined
          | Some n \<Rightarrow> property b ''name'' = JStr n \<and> n \<noteq> [] \<and> length n \<le> 120)"
    and "(case su_enabled v of
            None \<Rightarrow> \<not> df \<and> property b ''enabled'' = JUndefined
          | Some e \<Rightarrow> property b ''enabled'' = JBool e \<or> df \<and> e \<and> property b ''enabled'' = JUndefined)"
    and "(case su_profile v of
            None \<Rightarrow> \<not> df \<and> property b ''profile'' = JUndefined
          | Some x \<Rightarrow> x \<noteq> [] \<and> se_validateProfile E x = None)"
    and "(case su_cwd v of
            None \<Rightarrow> \<not> df \<and> property b ''cwd'' = JUndefined \<and> su_canonicalCwd v = None
          | Some x \<Rightarrow> \<exists>c. su_canonicalCwd v = Some c \<and> env_realpathSync E fs x = Inr c)"
    and "(case su_timeoutMs v of
            None \<Rightarrow> \<not> df \<and> property b ''timeoutMs'' = JUndefined
          | Some None \<Rightarrow> True
          | Some (Some n) \<Rightarrow> 1000 \<le> n \<and> n \<le> 86400000)"
    and "(case su_concurrencyPolicy v of
            None \<Rightarrow> \<not> df \<and> property b ''concurrencyPolicy'' = JUndefined
          | Some p \<Rightarrow> p \<in> {CpSkip, CpQueue})"
    and "su_model v = None \<longleftrightarrow> \<not> df \<and> property b ''model'' = JUndefined"
    and "su_reasoning v = None \<longleftrightarrow> \<not> df \<and> property b ''reasoning'' = JUndefined"
    and "su_sandbox v = None \<longleftrightarrow> \<not> df \<and> property b ''sandbox'' = JUndefined"
    and "su_threadId v = None" "su_cron v = None" "su_timezone v = None" "su_nextRunAt v = None"
      "su_prompt v = None" "su_promptHash v = None" "su_lastRunAt v = None" "su_lastRunId v = None"
      "su_lastStatus v = None"
      "su_pendingTrigger v = None"
proof -
  from assms obtain u1 u2 u3 u4 u5 u6 u7 u8 u9 where
    1: "parseName df b no_update = Inr u1" and 2: "parseEnabled df b u1 = Inr u2" and
    3: "parseProfile E df b u2 = Inr u3" and 4: "parseCwd E fs dc df b u3 = Inr u4" and
    5: "parseModel df b u4 = Inr u5" and 6: "parseReasoning df b u5 = Inr u6" and
    7: "parseSandbox df b u6 = Inr u7" and 8: "parseTimeout df b u7 = Inr u8" and
    9: "parseConcurrency df b u8 = Inr u9" and 10: "parseMisfire df b u9 = Inr v"
    by (auto simp: parseCommonFields_def and_then_Inr)
  from parseName_Inr [OF 1] obtain n where n: "u1 = no_update\<lparr>su_name := n\<rparr>"
    "n = None \<and> \<not> df \<and> property b ''name'' = JUndefined \<or>
     (\<exists>y. n = Some y \<and> property b ''name'' = JStr y \<and> y \<noteq> [] \<and> length y \<le> 120)"
    by (auto simp: no_update_def)
  from parseEnabled_Inr [OF 2] obtain e where e: "u2 = u1\<lparr>su_enabled := e\<rparr>"
    "e = None \<and> \<not> df \<and> property b ''enabled'' = JUndefined \<or>
     (\<exists>y. e = Some y \<and> (property b ''enabled'' = JBool y \<or> df \<and> y \<and> property b ''enabled'' = JUndefined))"
    by (auto simp: n no_update_def)
  from parseProfile_Inr [OF 3] obtain p where p: "u3 = u2\<lparr>su_profile := p\<rparr>"
    "p = None \<and> \<not> df \<and> property b ''profile'' = JUndefined \<or>
     (\<exists>y. p = Some y \<and> y \<noteq> [] \<and> se_validateProfile E y = None)"
    by (auto simp: n e no_update_def)
  from parseCwd_Inr [OF 4] obtain c k where c: "u4 = u3\<lparr>su_cwd := c, su_canonicalCwd := k\<rparr>"
    "c = None \<and> k = None \<and> \<not> df \<and> property b ''cwd'' = JUndefined \<or>
     (\<exists>y d. c = Some y \<and> k = Some d \<and> env_realpathSync E fs y = Inr d)"
    by (auto simp: n e p no_update_def)
  from parseModel_Inr [OF 5] obtain m where m: "u5 = u4\<lparr>su_model := m\<rparr>"
    "m = None \<longleftrightarrow> \<not> df \<and> property b ''model'' = JUndefined"
    by (auto simp: n e p c no_update_def)
  from parseReasoning_Inr [OF 6] obtain r where r: "u6 = u5\<lparr>su_reasoning := r\<rparr>"
    "r = None \<longleftrightarrow> \<not> df \<and> property b ''reasoning'' = JUndefined"
    by (auto simp: n e p c m(1) no_update_def)
  from parseSandbox_Inr [OF 7] obtain x where x: "u7 = u6\<lparr>su_sandbox := x\<rparr>"
    "x = None \<longleftrightarrow> \<not> df \<and> property b ''sandbox'' = JUndefined"
    by (auto simp: n e p c m(1) r(1) no_update_def)
  from parseTimeout_Inr [OF 8] obtain t where t: "u8 = u7\<lparr>su_timeoutMs := t\<rparr>"
    "t = None \<and> \<not> df \<and> property b ''timeoutMs'' = JUndefined \<or>
     (\<exists>y. t = Some y \<and> (\<forall>n. y = Some n \<longrightarrow> 1000 \<le> n \<and> n \<le> 86400000))"
    by (auto simp: n(1) e(1) p(1) c(1) m(1) r(1) x(1) no_update_def)
  from parseConcurrency_Inr [OF 9] obtain q where q: "u9 = u8\<lparr>su_concurrencyPolicy := q\<rparr>"
    "q = None \<and> \<not> df \<and> property b ''concurrencyPolicy'' = JUndefined \<or> q \<in> {Some CpSkip, Some CpQueue}"
    by (auto simp: n(1) e(1) p(1) c(1) m(1) r(1) x(1) t(1) no_update_def)
  from parseMisfire_Inr [OF 10] obtain w where w: "v = u9\<lparr>su_misfirePolicy := w\<rparr>" by blast
  note v = w q(1) t(1) x(1) r(1) m(1) c(1) p(1) e(1) n(1)
  show "case su_name v of None \<Rightarrow> \<not> df \<and> property b ''name'' = JUndefined
      | Some n \<Rightarrow> property b ''name'' = JStr n \<and> n \<noteq> [] \<and> length n \<le> 120"
    using n(2) by (auto simp: v)
  show "case su_enabled v of None \<Rightarrow> \<not> df \<and> property b ''enabled'' = JUndefined
      | Some e \<Rightarrow> property b ''enabled'' = JBool e \<or> df \<and> e \<and> property b ''enabled'' = JUndefined"
    using e(2) by (auto simp: v)
  show "case su_profile v of None \<Rightarrow> \<not> df \<and> property b ''profile'' = JUndefined
      | Some x \<Rightarrow> x \<noteq> [] \<and> se_validateProfile E x = None"
    using p(2) by (auto simp: v)
  show "case su_cwd v of
      None \<Rightarrow> \<not> df \<and> property b ''cwd'' = JUndefined \<and> su_canonicalCwd v = None
    | Some x \<Rightarrow> \<exists>c. su_canonicalCwd v = Some c \<and> env_realpathSync E fs x = Inr c"
    using c(2) by (auto simp: v)
  show "case su_timeoutMs v of None \<Rightarrow> \<not> df \<and> property b ''timeoutMs'' = JUndefined
      | Some None \<Rightarrow> True | Some (Some n) \<Rightarrow> 1000 \<le> n \<and> n \<le> 86400000"
    using t(2) by (auto simp: v split: option.splits)
  show "case su_concurrencyPolicy v of None \<Rightarrow> \<not> df \<and> property b ''concurrencyPolicy'' = JUndefined
      | Some p \<Rightarrow> p \<in> {CpSkip, CpQueue}"
    using q(2) by (auto simp: v)
  show "su_model v = None \<longleftrightarrow> \<not> df \<and> property b ''model'' = JUndefined" using m(2) by (simp add: v)
  show "su_reasoning v = None \<longleftrightarrow> \<not> df \<and> property b ''reasoning'' = JUndefined" using r(2) by (simp add: v)
  show "su_sandbox v = None \<longleftrightarrow> \<not> df \<and> property b ''sandbox'' = JUndefined" using x(2) by (simp add: v)
  show "su_threadId v = None" "su_cron v = None" "su_timezone v = None" "su_nextRunAt v = None"
    "su_prompt v = None" "su_promptHash v = None" "su_lastRunAt v = None" "su_lastRunId v = None"
      "su_lastStatus v = None"
    "su_pendingTrigger v = None"
    by (simp_all add: v no_update_def)
qed

lemma parseCommonFields_facts:
  "parseCommonFields E fs dc False b = Inr v \<Longrightarrow>
   ((su_name v \<noteq> None) = (property b ''name'' \<noteq> JUndefined) \<and>
    (su_enabled v \<noteq> None) = (property b ''enabled'' \<noteq> JUndefined)) \<and>
   ((su_model v = None) = (property b ''model'' = JUndefined) \<and>
    (su_reasoning v = None) = (property b ''reasoning'' = JUndefined) \<and>
    (su_sandbox v = None) = (property b ''sandbox'' = JUndefined)) \<and>
   su_threadId v = None \<and> su_cron v = None \<and> su_timezone v = None \<and> su_nextRunAt v = None \<and>
   su_prompt v = None \<and> su_promptHash v = None \<and> su_lastRunAt v = None \<and> su_lastRunId v = None \<and>
   su_lastStatus v = None \<and> su_pendingTrigger v = None"
  using parseCommonFields_Inr [of E fs dc False b v] by (auto split: option.splits)

lemma create_fields_Inr:
  "create_fields E fs dc b = Inr (u, cron, prompt, timezone) \<Longrightarrow>
   parseCommonFields E fs dc True b = Inr u \<and> cron \<noteq> [] \<and> prompt \<noteq> [] \<and>
   timezone_of E (property b ''timezone'') = Inr timezone"
  by (auto simp: create_fields_def and_then_Inr requireString_Inr)

lemma validateCronAndTimezone_Inr:
  "validateCronAndTimezone E cron timezone now = Inr (Inr upcoming) \<Longrightarrow>
   se_timezoneKnown E timezone \<and> validateCronExpression E cron = None \<and>
   computeNextRunAt E cron timezone now = Inr upcoming"
  by (auto simp: validateCronAndTimezone_def SCHEDULE_INVALID_def split: if_splits option.splits)
     (cases "computeNextRunAt E cron timezone now"; simp)+

text \<open>
  C38. A create request that the parser accepts is a complete and valid schedule: the name has 1 to
  120 characters, the profile passes the profile check, the canonical directory is the real path
  of the directory, a timeout lies between 1 second and 24 hours, the policy is skip or queue,
  the time zone is known, the hash and the preview are those of the prompt, and the next run is
  the one the cron expression gives from now on, or none when the schedule is disabled.
\<close>
theorem parseCreate_valid:
  "parseCreateScheduleRequest E fs now defaultCwd body = Inr (Inr q) \<Longrightarrow>
   si_name q \<noteq> [] \<and> length (si_name q) \<le> 120 \<and>
   se_validateProfile E (si_profile q) = None \<and>
   env_realpathSync E fs (si_cwd q) = Inr (si_canonicalCwd q) \<and>
   (\<forall>n. si_timeoutMs q = Some n \<longrightarrow> 1000 \<le> n \<and> n \<le> 86400000) \<and>
   si_concurrencyPolicy q \<in> {CpSkip, CpQueue} \<and>
   se_timezoneKnown E (si_timezone q) \<and> validateCronExpression E (si_cron q) = None \<and>
   si_prompt q \<noteq> [] \<and> si_promptHash q = env_sha256 E (si_prompt q) \<and>
   si_promptPreviewRedacted q = take 240 (redactText (si_prompt q)) \<and>
   (if si_enabled q then \<exists>upcoming. si_nextRunAt q = Some upcoming \<and>
        computeNextRunAt E (si_cron q) (si_timezone q) now = Inr upcoming
    else si_nextRunAt q = None)"
proof -
  assume "parseCreateScheduleRequest E fs now defaultCwd body = Inr (Inr q)"
  then obtain b u cron prompt timezone upcoming where
    fields: "create_fields E fs defaultCwd b = Inr (u, cron, prompt, timezone)" and
    cron: "validateCronAndTimezone E cron timezone now = Inr (Inr upcoming)" and
    q: "q = insert_of u cron timezone prompt (prompt_metadata E prompt) upcoming"
    by (auto simp: parseCreateScheduleRequest_def split: json.splits sum.splits)
  from create_fields_Inr [OF fields] have common: "parseCommonFields E fs defaultCwd True b = Inr u"
    and "cron \<noteq> []" "prompt \<noteq> []" by auto
  note parts = parseCommonFields_Inr [OF common]
  obtain n where n: "su_name u = Some n" "n \<noteq> []" "length n \<le> 120"
    using parts(1) by (auto split: option.splits)
  obtain e where e: "su_enabled u = Some e" using parts(2) by (auto split: option.splits)
  obtain p where p: "su_profile u = Some p" "se_validateProfile E p = None"
    using parts(3) by (auto split: option.splits)
  obtain c k where c: "su_cwd u = Some c" "su_canonicalCwd u = Some k" "env_realpathSync E fs c = Inr k"
    using parts(4) by (auto split: option.splits)
  obtain t where t: "su_timeoutMs u = Some t" "\<forall>n. t = Some n \<longrightarrow> 1000 \<le> n \<and> n \<le> 86400000"
    using parts(5) by (auto split: option.splits)
  obtain cp where cp: "su_concurrencyPolicy u = Some cp" "cp \<in> {CpSkip, CpQueue}"
    using parts(6) by (auto split: option.splits)
  from validateCronAndTimezone_Inr [OF cron] n e p c t cp \<open>prompt \<noteq> []\<close> show ?thesis
    by (simp add: q insert_of_def prompt_metadata_def)
qed

lemma optional_string:
  "(if property b k = JUndefined then Inr u
    else and_then (requireString (property b k) f) (\<lambda>y. Inr (F y))) = Inr w \<Longrightarrow>
   property b k = JUndefined \<and> w = u \<or> (\<exists>y. property b k = JStr y \<and> w = F y)"
  by (auto simp: and_then_Inr requireString_Inr split: if_splits)

lemma update_checked:
  "(case x of None \<Rightarrow> Inr u | Some cron \<Rightarrow>
      (case m cron of Some message \<Rightarrow> SCHEDULE_INVALID (f message) | None \<Rightarrow> Inr u)) = Inr w \<longleftrightarrow>
   w = u \<and> (\<forall>cron. x = Some cron \<longrightarrow> m cron = None)"
  "(case x of None \<Rightarrow> Inr u | Some zone \<Rightarrow> if \<not> known zone then SCHEDULE_INVALID g else Inr u) = Inr w \<longleftrightarrow>
   w = u \<and> (\<forall>zone. x = Some zone \<longrightarrow> known zone)"
  by (auto split: option.splits if_splits)

text \<open>An accepted update adds at most the texts of the body to the common fields.\<close>

lemma parseUpdate_common:
  assumes "parseUpdateScheduleRequest E fs defaultCwd (JObj b) = Inr u"
  obtains v w x where "parseCommonFields E fs defaultCwd False b = Inr v"
    and "property b ''cron'' = JUndefined \<and> w = v \<or>
         (\<exists>y. property b ''cron'' = JStr y \<and> w = v\<lparr>su_cron := Some y\<rparr>)"
    and "property b ''timezone'' = JUndefined \<and> x = w \<or>
         (\<exists>y. property b ''timezone'' = JStr y \<and> x = w\<lparr>su_timezone := Some y\<rparr>)"
    and "property b ''prompt'' = JUndefined \<and> u = x \<or>
         (\<exists>y. property b ''prompt'' = JStr y \<and> u = x\<lparr>su_prompt := Some y,
            su_promptHash := Some (fst (prompt_metadata E y)),
            su_promptPreviewRedacted := Some (snd (prompt_metadata E y))\<rparr>)"
proof -
  from assms obtain v w x where
    0: "parseCommonFields E fs defaultCwd False b = Inr v" and
    1: "(if property b ''cron'' = JUndefined then Inr v
         else and_then (requireString (property b ''cron'') ''cron'')
                (\<lambda>cron. Inr (v\<lparr>su_cron := Some cron\<rparr>))) = Inr w" and
    2: "(if property b ''timezone'' = JUndefined then Inr w
         else and_then (requireString (property b ''timezone'') ''timezone'')
                (\<lambda>timezone. Inr (w\<lparr>su_timezone := Some timezone\<rparr>))) = Inr x" and
    3: "(if property b ''prompt'' = JUndefined then Inr x
         else and_then (requireString (property b ''prompt'') ''prompt'')
                (\<lambda>prompt. Inr (x\<lparr>su_prompt := Some prompt,
                   su_promptHash := Some (fst (prompt_metadata E prompt)),
                   su_promptPreviewRedacted := Some (snd (prompt_metadata E prompt))\<rparr>))) = Inr u"
    by (auto simp only: parseUpdateScheduleRequest_def and_then_Inr json.case update_checked)
  from that [OF 0 optional_string [OF 1] optional_string [OF 2] optional_string [OF 3]] show thesis .
qed

lemma parseUpdate_keeps_thread:
  assumes "parseUpdateScheduleRequest E fs defaultCwd body = Inr u"
  shows "su_threadId u = None"
proof -
  from assms obtain b where "body = JObj b"
    by (auto simp: parseUpdateScheduleRequest_def split: json.splits)
  with assms have "parseUpdateScheduleRequest E fs defaultCwd (JObj b) = Inr u" by simp
  then show ?thesis
    by (rule parseUpdate_common, elim disjE exE conjE; simp add: parseCommonFields_Inr(10))
qed

text \<open>
  An update request that the parser accepts sets a column exactly when the body has the
  property: nothing absent is filled with a default, and the columns the scheduler keeps (the
  thread, the next run, the last run, the pending trigger) are never set.
\<close>
lemma parseUpdate_fields:
  "parseUpdateScheduleRequest E fs defaultCwd (JObj b) = Inr u \<Longrightarrow>
   (su_name u \<noteq> None) = (property b ''name'' \<noteq> JUndefined) \<and>
   (su_cron u \<noteq> None) = (property b ''cron'' \<noteq> JUndefined) \<and>
   (su_timezone u \<noteq> None) = (property b ''timezone'' \<noteq> JUndefined) \<and>
   (su_enabled u \<noteq> None) = (property b ''enabled'' \<noteq> JUndefined) \<and>
   (su_prompt u \<noteq> None) = (property b ''prompt'' \<noteq> JUndefined) \<and>
   (su_promptHash u \<noteq> None) = (property b ''prompt'' \<noteq> JUndefined) \<and>
   (su_model u \<noteq> None) = (property b ''model'' \<noteq> JUndefined) \<and>
   (su_reasoning u \<noteq> None) = (property b ''reasoning'' \<noteq> JUndefined) \<and>
   (su_sandbox u \<noteq> None) = (property b ''sandbox'' \<noteq> JUndefined) \<and>
   su_threadId u = None \<and> su_nextRunAt u = None \<and> su_lastRunAt u = None \<and> su_lastRunId u = None \<and>
   su_lastStatus u = None \<and> su_pendingTrigger u = None"
  by (erule parseUpdate_common, drule parseCommonFields_facts) (elim disjE exE conjE; simp)

section \<open>Instances\<close>

text \<open>A concrete environment: every minute is a run, but the expression \<^verbatim>\<open>bad\<close> is refused.\<close>

definition sample_sched_env :: "string list sched_env" where
  "sample_sched_env = env.extend sample_env
     \<lparr>se_cronNext = (\<lambda>cron _ t. if cron = ''bad'' then Inl (PlainError ''Invalid cron'') else Inr (Some (t + 60000))),
      se_timezoneKnown = (\<lambda>z. z = ''UTC''), se_localTimezone = ''UTC'',
      se_validateProfile = (\<lambda>p. if p = ''none'' then Some (''CODEX_PROFILE_NOT_FOUND'', p) else None)\<rparr>"

definition sample_body :: json where
  "sample_body = JObj [(''name'', JStr ''Report''), (''cron'', JStr ''* * * * *''), (''prompt'', JStr ''Go'')]"

lemma parseCreate_valid_witness:
  "\<exists>q. parseCreateScheduleRequest sample_sched_env [''/a''] 0 ''/a'' sample_body = Inr (Inr q) \<and>
     length (si_name q) \<le> 120 \<and> env_realpathSync sample_sched_env [''/a''] (si_cwd q) = Inr (si_canonicalCwd q)"
proof -
  let ?r = "parseCreateScheduleRequest sample_sched_env [''/a''] 0 ''/a'' sample_body"
  have "case ?r of Inr (Inr _) \<Rightarrow> True | _ \<Rightarrow> False" by code_simp
  then obtain q where q: "?r = Inr (Inr q)" by (auto split: sum.splits)
  from parseCreate_valid [OF q] q show ?thesis by blast
qed

lemma parseUpdate_fields_witness:
  "\<exists>u. parseUpdateScheduleRequest sample_sched_env [''/a''] ''/a'' sample_body = Inr u \<and>
     su_name u \<noteq> None \<and> su_model u = None \<and> su_nextRunAt u = None"
proof -
  let ?r = "parseUpdateScheduleRequest sample_sched_env [''/a''] ''/a'' sample_body"
  have "case ?r of Inr _ \<Rightarrow> True | _ \<Rightarrow> False" by code_simp
  then obtain u where u: "?r = Inr u" by (auto split: sum.splits)
  from parseUpdate_fields [OF u [unfolded sample_body_def]] have "su_name u \<noteq> None \<and> su_model u = None \<and> su_nextRunAt u = None"
    by (simp add: property_def)
  with u show ?thesis by blast
qed

end
