(* ===== verification/ScheduleCoordinator.thy ===== *)
theory ScheduleCoordinator
  imports ScheduleValidator Threads
begin

text \<open>
  The schedule coordinator, \<^verbatim>\<open>scheduler/coordinator.ts\<close>: schedules are created, changed and deleted
  together with the thread their runs use, in one transaction each, and at the start of the
  daemon the bindings are checked and repaired.

  The coordinator gets the thread manager and the run manager as objects; \<open>thread_ops\<close> and
  \<open>hasActiveRunForThread\<close> are the operations it calls. The locale \<open>schedule_threads\<close> states what
  it needs of the thread manager, and is interpreted by the operations of theory \<open>Threads\<close>.
  \<open>changed\<close> is the callback \<^verbatim>\<open>onSchedulesChanged\<close>.
\<close>

section \<open>Interfaces\<close>

record ('fs, 'x) thread_ops =
  to_createScheduleThread :: "create_thread \<Rightarrow> ('fs, 'x, runtime_thread) io"
  to_getThread :: "thread_id \<Rightarrow> db \<Rightarrow> runtime_thread option"
  to_updateScheduleThread :: "thread_id \<Rightarrow> update_schedule_thread \<Rightarrow> ('fs, 'x, runtime_thread) io"
  to_setPurpose :: "thread_id \<Rightarrow> thread_purpose \<Rightarrow> ('fs, 'x, runtime_thread) io"
  to_archiveScheduleThread :: "thread_id \<Rightarrow> ('fs, 'x, runtime_thread) io"

text \<open>The options of the coordinator\<close>

record ('fs, 'x) coordinator =
  co_env :: "'fs sched_env"
  co_threads :: "('fs, 'x) thread_ops"
  co_hasActiveRun :: "thread_id \<Rightarrow> ('fs, 'x) rt_scheme \<Rightarrow> bool"
  co_defaultCwd :: string
  co_changed :: "('fs, 'x, unit) io"

record agent_actor =
  aa_runId :: run_id
  aa_threadId :: thread_id
  aa_createdBy :: run_creator

section \<open>Errors and checks\<close>

definition schedule_not_found :: err where
  "schedule_not_found = SchedulerError ''SCHEDULE_NOT_FOUND'' ''Schedule not found''"

definition has_active_run :: err where
  "has_active_run = SchedulerError ''SCHEDULE_HAS_ACTIVE_RUN'' ''Schedule has an active run''"

definition requireBoundSchedule :: "schedule_row \<Rightarrow> err + thread_id" where
  "requireBoundSchedule r =
     (case sc_threadId r of
        None \<Rightarrow> Inl (SchedulerError ''INTERNAL_ERROR'' (''Schedule thread binding is missing: '' @ sc_id r))
      | Some t \<Rightarrow> Inr t)"

definition requireSchedule :: "string \<Rightarrow> ('fs, 'x, schedule_row) io" where
  "requireSchedule i = bindE (read_db (getById i)) (someE schedule_not_found)"

definition requireScheduleThread ::
  "('fs, 'x) thread_ops \<Rightarrow> schedule_row \<Rightarrow> ('fs, 'x, runtime_thread) io" where
  "requireScheduleThread T r =
     bindE (someE (SchedulerError ''SCHEDULE_THREAD_MISSING''
              (''Schedule thread binding is missing: '' @ sc_id r)) (sc_threadId r)) (\<lambda>i.
     bindE (read_db (to_getThread T i)) (\<lambda>found.
     bindE (someE (SchedulerError ''SCHEDULE_THREAD_MISSING'' (''Schedule thread is missing: '' @ sc_id r)) found) (\<lambda>t.
     thenE (guardE (th_purpose t = ScheduleTask)
              (SchedulerError ''SCHEDULE_THREAD_MISSING'' (''Schedule thread is missing: '' @ sc_id r)))
     (thenE (guardE (th_status t \<noteq> Archived)
              (SchedulerError ''SCHEDULE_THREAD_ARCHIVED'' (''Schedule thread is archived: '' @ sc_id r)))
     (ret t)))))"

definition requireAgentCreationThread ::
  "('fs, 'x) thread_ops \<Rightarrow> agent_actor \<Rightarrow> ('fs, 'x, runtime_thread) io" where
  "requireAgentCreationThread T a =
     bindE (read_db (to_getThread T (aa_threadId a))) (\<lambda>found.
     bindE (someE (SchedulerError ''SCHEDULE_THREAD_MISSING''
              (''Agent thread is missing: '' @ aa_threadId a)) found) (\<lambda>t.
     thenE (guardE (th_status t \<noteq> Archived)
              (SchedulerError ''SCHEDULE_THREAD_ARCHIVED'' (''Agent thread is archived: '' @ aa_threadId a)))
     (thenE (guardE (th_purpose t \<noteq> ScheduleTask)
              (SchedulerError ''VALIDATION_FAILED'' ''A schedule task thread cannot create another schedule''))
     (ret t))))"

definition hasValidScheduleThread :: "('fs, 'x) thread_ops \<Rightarrow> schedule_row \<Rightarrow> db \<Rightarrow> bool" where
  "hasValidScheduleThread T r d =
     (case sc_threadId r of
        None \<Rightarrow> False
      | Some i \<Rightarrow>
          (case to_getThread T i d of
             None \<Rightarrow> False
           | Some t \<Rightarrow> th_purpose t = ScheduleTask \<and> th_status t = Active))"

definition touchesExecutionConfiguration :: "schedule_update \<Rightarrow> bool" where
  "touchesExecutionConfiguration u \<longleftrightarrow>
     su_cwd u \<noteq> None \<or> su_profile u \<noteq> None \<or> su_model u \<noteq> None \<or> su_reasoning u \<noteq> None \<or>
     su_sandbox u \<noteq> None"

definition touchesThreadConfiguration :: "schedule_update \<Rightarrow> bool" where
  "touchesThreadConfiguration u \<longleftrightarrow>
     su_name u \<noteq> None \<or> su_cwd u \<noteq> None \<or> su_profile u \<noteq> None \<or> su_model u \<noteq> None \<or>
     su_reasoning u \<noteq> None \<or> su_sandbox u \<noteq> None"

definition requiresNextRunRecompute :: "schedule_update \<Rightarrow> bool" where
  "requiresNextRunRecompute u \<longleftrightarrow>
     su_cron u \<noteq> None \<or> su_timezone u \<noteq> None \<or> su_enabled u \<noteq> None"

definition bindingRepairErrorCode :: "err \<Rightarrow> string" where
  "bindingRepairErrorCode e = (case err_code e of Some c \<Rightarrow> c | None \<Rightarrow> ''INTERNAL_ERROR'')"

text \<open>\<^verbatim>\<open>if (!parsed.ok) throw new SchedulerError(parsed.code, parsed.message)\<close>\<close>

definition parsed_value :: "'a parsed \<Rightarrow> err + 'a" where
  "parsed_value r = (case r of Inl (code, message) \<Rightarrow> Inl (SchedulerError code message) | Inr v \<Rightarrow> Inr v)"

section \<open>Creating\<close>

definition schedule_thread_request :: "schedule_insert \<Rightarrow> create_thread" where
  "schedule_thread_request q =
     \<lparr>ct_title = Some (si_name q), ct_cwd = Some (si_cwd q), ct_canonicalCwd = None,
      ct_workspaceMode = Some External, ct_profile = Some (si_profile q), ct_model = si_model q,
      ct_reasoning = si_reasoning q, ct_sandbox = Some (si_sandbox q),
      ct_purpose = Some ScheduleTask, ct_projectId = None, ct_origin = ClaweeCreated,
      ct_enterpriseSubjectId = None\<rparr>"

text \<open>The common end of the creating transactions: thread, schedule and operation.\<close>

definition create_bound ::
  "('fs, 'x) coordinator \<Rightarrow> schedule_insert \<Rightarrow> actor \<Rightarrow> ('fs, 'x, schedule_row) io" where
  "create_bound C q a =
     bindE (to_createScheduleThread (co_threads C) (schedule_thread_request q)) (\<lambda>thread.
     bindE (createSchedule (q\<lparr>si_threadId := Some (th_id thread)\<rparr>)) (\<lambda>schedule.
     bindE (liftE (requireBoundSchedule schedule)) (\<lambda>_.
     bindE (insertOperation (operation (sc_id schedule) OpCreate OsSucceeded) a) (\<lambda>_.
     ret schedule))))"

text \<open>\<^verbatim>\<open>parseCreateScheduleRequest(body, { now: clock.now(), defaultCwd, ... })\<close> and its failure\<close>

definition parse_create ::
  "('fs, 'x) coordinator \<Rightarrow> string \<Rightarrow> json \<Rightarrow> ('fs, 'x, schedule_insert) io" where
  "parse_create C defaultCwd body =
     bindE date_now (\<lambda>now.
     bindE (read_fs (\<lambda>fs. parseCreateScheduleRequest (co_env C) fs now defaultCwd body)) (\<lambda>parsed.
     liftE (parsed_value parsed)))"

definition createManualTransaction :: "('fs, 'x) coordinator \<Rightarrow> json \<Rightarrow> ('fs, 'x, schedule_row) io" where
  "createManualTransaction C body =
     db_transaction
       (bindE (parse_create C (co_defaultCwd C) body) (\<lambda>q. create_bound C q UserActor))"

text \<open>\<open>name_in\<close>: the text of an option of an enumeration\<close>

definition name_in :: "(string \<times> 'a) list \<Rightarrow> 'a \<Rightarrow> json" where
  "name_in options v =
     (case first_where (\<lambda>p. snd p = v) options of Some p \<Rightarrow> JStr (fst p) | None \<Rightarrow> JUndefined)"

definition agentCreateRequest :: "json \<Rightarrow> runtime_thread \<Rightarrow> json" where
  "agentCreateRequest body t =
     (case body of
        JObj b \<Rightarrow>
          JObj [(''name'', property b ''name''), (''cron'', property b ''cron''),
                (''timezone'', property b ''timezone''), (''enabled'', property b ''enabled''),
                (''prompt'', property b ''prompt''),
                (''concurrencyPolicy'', property b ''concurrencyPolicy''),
                (''cwd'', JStr (th_cwd t)), (''profile'', JStr (th_profile t)),
                (''model'', case th_model t of None \<Rightarrow> JNull | Some m \<Rightarrow> JStr m),
                (''reasoning'', case th_reasoning t of None \<Rightarrow> JNull | Some r \<Rightarrow> name_in REASONING_EFFORTS r),
                (''sandbox'', name_in SANDBOX_MODES (th_sandbox t))]
      | _ \<Rightarrow> JObj [])"

definition createFromAgentTransaction ::
  "('fs, 'x) coordinator \<Rightarrow> json \<Rightarrow> agent_actor \<Rightarrow> ('fs, 'x, schedule_row) io" where
  "createFromAgentTransaction C body a =
     db_transaction
       (bindE (requireAgentCreationThread (co_threads C) a) (\<lambda>actorThread.
        bindE (parse_create C (th_cwd actorThread) (agentCreateRequest body actorThread)) (\<lambda>q.
        if th_purpose actorThread = ScheduleDraft then
          bindE (createSchedule (q\<lparr>si_threadId := Some (th_id actorThread)\<rparr>)) (\<lambda>created.
          bindE (liftE (requireBoundSchedule created)) (\<lambda>_.
          bindE (to_setPurpose (co_threads C) (th_id actorThread) ScheduleTask) (\<lambda>_.
          bindE (to_updateScheduleThread (co_threads C) (th_id actorThread)
                   \<lparr>us_title = si_name q, us_cwd = si_cwd q, us_profile = si_profile q,
                    us_model = si_model q, us_reasoning = si_reasoning q, us_sandbox = si_sandbox q\<rparr>) (\<lambda>_.
          bindE (insertOperation (operation (sc_id created) OpCreate OsSucceeded) (AgentActor (aa_runId a))) (\<lambda>_.
          ret created)))))
        else create_bound C q (AgentActor (aa_runId a)))))"

definition createManual :: "('fs, 'x) coordinator \<Rightarrow> json \<Rightarrow> ('fs, 'x, schedule_row) io" where
  "createManual C body =
     bindE (createManualTransaction C body) (\<lambda>schedule. thenE (co_changed C) (ret schedule))"

definition createFromAgent ::
  "('fs, 'x) coordinator \<Rightarrow> json \<Rightarrow> agent_actor \<Rightarrow> ('fs, 'x, schedule_row) io" where
  "createFromAgent C body a =
     bindE (createFromAgentTransaction C body a) (\<lambda>schedule. thenE (co_changed C) (ret schedule))"

section \<open>Changing\<close>

definition next_input ::
  "('fs, 'x) coordinator \<Rightarrow> schedule_row \<Rightarrow> schedule_update \<Rightarrow> ('fs, 'x, schedule_update) io" where
  "next_input C existing u =
     (if requiresNextRunRecompute u then
        if given (su_enabled u) (sc_enabled existing) then
          bindE date_now (\<lambda>now.
          bindE (liftE (computeNextRunAt (co_env C) (given (su_cron u) (sc_cron existing))
                   (given (su_timezone u) (sc_timezone existing)) now)) (\<lambda>next.
          ret (u\<lparr>su_nextRunAt := Some (Some next)\<rparr>)))
        else ret (u\<lparr>su_nextRunAt := Some None\<rparr>)
      else ret u)"

definition updateTransaction ::
  "('fs, 'x) coordinator \<Rightarrow> string \<Rightarrow> json \<Rightarrow> actor \<Rightarrow> ('fs, 'x, schedule_row) io" where
  "updateTransaction C i body a =
     db_transaction
       (bindE (requireSchedule i) (\<lambda>existing.
        bindE (requireScheduleThread (co_threads C) existing) (\<lambda>thread.
        bindE date_now (\<lambda>_.
        bindE (read_fs (\<lambda>fs. Inr (parseUpdateScheduleRequest (co_env C) fs (sc_cwd existing) body))) (\<lambda>parsed.
        bindE (liftE (parsed_value parsed)) (\<lambda>u.
        bindE (gets (co_hasActiveRun C (th_id thread))) (\<lambda>active.
        thenE (guardE (\<not> (touchesExecutionConfiguration u \<and> active)) has_active_run)
        (bindE (next_input C existing u) (\<lambda>nextInput.
         bindE (updateSchedule i nextInput) (\<lambda>result.
         bindE (someE schedule_not_found result) (\<lambda>updated.
         bindE (liftE (requireBoundSchedule updated)) (\<lambda>threadId.
         bindE (if touchesThreadConfiguration u then
                  bindE (to_updateScheduleThread (co_threads C) threadId
                    \<lparr>us_title = sc_name updated, us_cwd = sc_cwd updated, us_profile = sc_profile updated,
                     us_model = sc_model updated, us_reasoning = sc_reasoning updated,
                     us_sandbox = sc_sandbox updated\<rparr>) (\<lambda>_. ret ())
                else ret ()) (\<lambda>_.
         bindE (insertOperation (operation i OpUpdate OsSucceeded) a) (\<lambda>_.
         ret updated))))))))))))))"

definition updateManual :: "('fs, 'x) coordinator \<Rightarrow> string \<Rightarrow> json \<Rightarrow> ('fs, 'x, schedule_row) io" where
  "updateManual C i body =
     bindE (updateTransaction C i body UserActor) (\<lambda>schedule. thenE (co_changed C) (ret schedule))"

definition updateFromAgent ::
  "('fs, 'x) coordinator \<Rightarrow> string \<Rightarrow> json \<Rightarrow> agent_actor \<Rightarrow> ('fs, 'x, schedule_row) io" where
  "updateFromAgent C i body a =
     bindE (updateTransaction C i body (AgentActor (aa_runId a))) (\<lambda>schedule.
     thenE (co_changed C) (ret schedule))"

section \<open>Deleting\<close>

definition disabled :: schedule_update where
  "disabled = no_update\<lparr>su_enabled := Some False, su_nextRunAt := Some None\<rparr>"

definition deleteTransaction :: "('fs, 'x) coordinator \<Rightarrow> string \<Rightarrow> ('fs, 'x, unit) io" where
  "deleteTransaction C i =
     db_transaction
       (bindE (requireSchedule i) (\<lambda>existing.
        bindE (requireScheduleThread (co_threads C) existing) (\<lambda>thread.
        bindE (gets (co_hasActiveRun C (th_id thread))) (\<lambda>active.
        thenE (guardE (\<not> active) has_active_run)
        (bindE (updateSchedule i disabled) (\<lambda>result.
         bindE (someE schedule_not_found result) (\<lambda>_.
         bindE (softDelete i) (\<lambda>deleted.
         thenE (guardE deleted schedule_not_found)
         (bindE (to_archiveScheduleThread (co_threads C) (th_id thread)) (\<lambda>_.
          bindE (insertOperation (operation i OpDelete OsSucceeded) UserActor) (\<lambda>_.
          ret ())))))))))))"

definition deleteSchedule :: "('fs, 'x) coordinator \<Rightarrow> string \<Rightarrow> ('fs, 'x, unit) io" where
  "deleteSchedule C i = thenE (deleteTransaction C i) (co_changed C)"

section \<open>Repairing the bindings\<close>

record repair_result =
  rr_scanned :: nat
  rr_repaired :: nat
  rr_failed :: nat
  rr_unchanged :: nat

definition repair_thread_request :: "schedule_row \<Rightarrow> create_thread" where
  "repair_thread_request r =
     \<lparr>ct_title = Some (sc_name r), ct_cwd = Some (sc_cwd r), ct_canonicalCwd = None,
      ct_workspaceMode = Some External, ct_profile = Some (sc_profile r), ct_model = sc_model r,
      ct_reasoning = sc_reasoning r, ct_sandbox = Some (sc_sandbox r), ct_purpose = Some ScheduleTask,
      ct_projectId = None, ct_origin = ClaweeCreated, ct_enterpriseSubjectId = None\<rparr>"

definition repairBindingTransaction :: "('fs, 'x) coordinator \<Rightarrow> schedule_row \<Rightarrow> ('fs, 'x, unit) io" where
  "repairBindingTransaction C r =
     db_transaction
       (bindE (to_createScheduleThread (co_threads C) (repair_thread_request r)) (\<lambda>thread.
        bindE (updateSchedule (sc_id r) (no_update\<lparr>su_threadId := Some (Some (th_id thread))\<rparr>)) (\<lambda>result.
        bindE (someE schedule_not_found result) (\<lambda>_.
        bindE (insertOperation (operation (sc_id r) OpBindingRepair OsSucceeded) MigrationActor) (\<lambda>_.
        ret ())))))"

definition recordBindingRepairFailureTransaction :: "schedule_row \<Rightarrow> err \<Rightarrow> ('fs, 'x, unit) io" where
  "recordBindingRepairFailureTransaction r e =
     db_transaction
       (bindE (updateSchedule (sc_id r) disabled) (\<lambda>result.
        bindE (someE schedule_not_found result) (\<lambda>_.
        bindE (insertOperation
                 ((operation (sc_id r) OpBindingRepairFailed OsFailed)
                    \<lparr>oi_errorCode := Some (bindingRepairErrorCode e),
                     oi_errorMessage := Some (err_message e)\<rparr>) MigrationActor) (\<lambda>_.
        ret ()))))"

fun ensureBindingsLoop ::
  "('fs, 'x) coordinator \<Rightarrow> schedule_row list \<Rightarrow> repair_result \<Rightarrow> ('fs, 'x, repair_result) io" where
  "ensureBindingsLoop C [] acc = ret acc"
| "ensureBindingsLoop C (r # rs) acc =
     bindE (read_db (hasValidScheduleThread (co_threads C) r)) (\<lambda>valid.
     if valid then ensureBindingsLoop C rs (acc\<lparr>rr_unchanged := rr_unchanged acc + 1\<rparr>)
     else
       bindE
         (catchE
           (thenE (repairBindingTransaction C r) (ret (acc\<lparr>rr_repaired := rr_repaired acc + 1\<rparr>)))
           (\<lambda>e. thenE (recordBindingRepairFailureTransaction r e)
                  (ret (acc\<lparr>rr_failed := rr_failed acc + 1\<rparr>))))
         (ensureBindingsLoop C rs))"

definition ensureBindings :: "('fs, 'x) coordinator \<Rightarrow> ('fs, 'x, repair_result) io" where
  "ensureBindings C =
     bindE (read_db list_schedules) (\<lambda>schedules.
     bindE (ensureBindingsLoop C schedules
              \<lparr>rr_scanned = length schedules, rr_repaired = 0, rr_failed = 0, rr_unchanged = 0\<rparr>) (\<lambda>result.
     thenE (whenE (rr_repaired result > 0 \<or> rr_failed result > 0) (co_changed C)) (ret result)))"

section \<open>What the coordinator needs of the thread manager\<close>

text \<open>Purpose and status of a thread\<close>

definition thread_info ::
  "('fs, 'x) thread_ops \<Rightarrow> thread_id \<Rightarrow> db \<Rightarrow> (thread_purpose \<times> row_status) option" where
  "thread_info T i d = map_option (\<lambda>t. (th_purpose t, th_status t)) (to_getThread T i d)"

text \<open>Thread \<open>i\<close> is an active schedule task.\<close>

definition task :: "('fs, 'x) thread_ops \<Rightarrow> thread_id \<Rightarrow> db \<Rightarrow> bool" where
  "task T i d \<longleftrightarrow> thread_info T i d = Some (ScheduleTask, Active)"

text \<open>
  The contract: what a thread is does not depend on the schedules; the operations leave the
  schedules and the operations log alone, create threads without touching others, and change
  purpose or status of the addressed thread only.
\<close>

locale schedule_threads =
  fixes T :: "('fs, 'x) thread_ops"
  assumes info_threads: "db_threads d = db_threads d' \<Longrightarrow> thread_info T i d = thread_info T i d'"
    and getThread_id: "to_getThread T i d = Some t \<Longrightarrow> th_id t = i"
    and create_task: "to_createScheduleThread T q s = (Inr t, s') \<Longrightarrow> ct_purpose q = Some ScheduleTask \<Longrightarrow>
          task T (th_id t) (rt_db s')"
    and create_frame: "db_keeps (\<lambda>d. thread_info T i d = Some v) (to_createScheduleThread T q)"
    and update_frame: "db_keeps (\<lambda>d. thread_info T i d = Some v) (to_updateScheduleThread T j uq)"
    and purpose_frame: "i \<noteq> j \<Longrightarrow> db_keeps (\<lambda>d. thread_info T i d = Some v) (to_setPurpose T j p)"
    and purpose_set: "to_setPurpose T i p s = (Inr t, s') \<Longrightarrow> thread_info T i (rt_db s) = Some (p', st) \<Longrightarrow>
          thread_info T i (rt_db s') = Some (p, st)"
    and archive_frame: "i \<noteq> j \<Longrightarrow> db_keeps (\<lambda>d. thread_info T i d = Some v) (to_archiveScheduleThread T j)"
    and schedules_frame:
      "db_keeps (\<lambda>d. P (db_schedules d) (db_operations d)) (to_createScheduleThread T q)"
      "db_keeps (\<lambda>d. P (db_schedules d) (db_operations d)) (to_updateScheduleThread T j uq)"
      "db_keeps (\<lambda>d. P (db_schedules d) (db_operations d)) (to_setPurpose T j p)"
      "db_keeps (\<lambda>d. P (db_schedules d) (db_operations d)) (to_archiveScheduleThread T j)"
    and threads_ok: "db_keeps db_ok (to_createScheduleThread T q)"
      "db_keeps db_ok (to_updateScheduleThread T j uq)" "db_keeps db_ok (to_setPurpose T j p)"
      "db_keeps db_ok (to_archiveScheduleThread T j)"

text \<open>
  Every live schedule is bound to an active schedule task; \<open>bound_except i0\<close> leaves out the
  schedule bound to \<open>i0\<close>.
\<close>

definition bound :: "('fs, 'x) thread_ops \<Rightarrow> db \<Rightarrow> schedule_row \<Rightarrow> bool" where
  "bound T d r \<longleftrightarrow> (\<exists>i. sc_threadId r = Some i \<and> task T i d)"

definition bindings_valid :: "('fs, 'x) thread_ops \<Rightarrow> db \<Rightarrow> bool" where
  "bindings_valid T d \<longleftrightarrow> (\<forall>r \<in> set (live_schedules d). bound T d r)"

text \<open>Bound to its task, or switched off.\<close>

definition settled :: "('fs, 'x) thread_ops \<Rightarrow> db \<Rightarrow> schedule_row \<Rightarrow> bool" where
  "settled T d r \<longleftrightarrow> bound T d r \<or> \<not> sc_enabled r \<and> sc_nextRunAt r = None"

text \<open>
  What one schedule's turn in \<open>ensureBindings\<close> does: schedule \<open>k\<close> ends up settled, the other
  schedules and all tasks are as before.
\<close>

definition turn :: "('fs, 'x) thread_ops \<Rightarrow> string \<Rightarrow> ('fs, 'x) rt_scheme \<Rightarrow> ('fs, 'x) rt_scheme \<Rightarrow> bool" where
  "turn T k s s' \<longleftrightarrow>
     ok_state s' \<and>
     (\<forall>q \<in> set (live_schedules (rt_db s')). sc_id q = k \<longrightarrow> settled T (rt_db s') q) \<and>
     (\<forall>q. sc_id q \<noteq> k \<longrightarrow> (q \<in> set (live_schedules (rt_db s'))) = (q \<in> set (live_schedules (rt_db s)))) \<and>
     (\<forall>i. task T i (rt_db s) \<longrightarrow> task T i (rt_db s'))"

context schedule_threads begin

lemma task_threads: "db_threads d = db_threads d' \<Longrightarrow> task T i d = task T i d'"
  by (simp add: task_def info_threads [of d d'])

lemma bound_threads: "db_threads d = db_threads d' \<Longrightarrow> bound T d r = bound T d' r"
  by (simp add: bound_def task_threads [of d d'])

lemma bound_frames [simp]:
  "bound T (d\<lparr>db_schedules := x\<rparr>) r = bound T d r" "bound T (d\<lparr>db_operations := y\<rparr>) r = bound T d r"
  "task T i (d\<lparr>db_schedules := x\<rparr>) = task T i d" "task T i (d\<lparr>db_operations := y\<rparr>) = task T i d"
  by (rule bound_threads task_threads; simp)+

lemma task_create: "task T i (rt_db s) \<Longrightarrow> task T i (rt_db (snd (to_createScheduleThread T q s)))"
  unfolding task_def by (rule db_keepsD [OF create_frame])

lemma task_update: "task T i (rt_db s) \<Longrightarrow> task T i (rt_db (snd (to_updateScheduleThread T j uq s)))"
  unfolding task_def by (rule db_keepsD [OF update_frame])

lemma same_schedules:
  assumes "db_keeps (\<lambda>d. db_schedules d = db_schedules (rt_db s) \<and> db_operations d = db_operations (rt_db s)) m"
    and "m s = (r, s')"
  shows "db_schedules (rt_db s') = db_schedules (rt_db s)" "live_schedules (rt_db s') = live_schedules (rt_db s)"
  using db_keepsD [OF assms(1), of s] assms(2) by (simp_all add: live_schedules_def)

lemmas create_schedules = same_schedules [OF schedules_frame(1)]
lemmas update_schedules_same = same_schedules [OF schedules_frame(2)]
lemmas purpose_schedules = same_schedules [OF schedules_frame(3)]
lemmas archive_schedules = same_schedules [OF schedules_frame(4)]

text \<open>Adding a schedule bound to a task, recording an operation, updating a schedule.\<close>

lemma bindings_createSchedule:
  assumes "createSchedule q s = (Inr r, s')" and "bindings_valid T (rt_db s)"
    and "si_threadId q = Some i" and "task T i (rt_db s)"
  shows "bindings_valid T (rt_db s')"
proof -
  from createSchedule_Inr [OF assms(1)] have d: "rt_db s' = rt_db s\<lparr>db_schedules := db_schedules (rt_db s) @ [r]\<rparr>"
    and r: "sc_threadId r = Some i" using assms(3) by (auto, metis schedule_row.select_convs(2) schedule_row_of_def)
  from assms(4) r have "bound T (rt_db s) r" by (simp add: bound_def)
  then show ?thesis
    using assms(2) by (auto simp: bindings_valid_def d live_schedules_def)
qed

lemma bindings_insertOperation:
  assumes "insertOperation q a s = (Inr so, s')"
  shows "bindings_valid T (rt_db s') = bindings_valid T (rt_db s)"
  using insertOperation_Inr [OF assms]
  by (auto simp: bindings_valid_def live_schedules_def)

lemma bindings_updateSchedule:
  assumes "updateSchedule i u s = (Inr x, s')" and "su_threadId u = None"
  shows "bindings_valid T (rt_db s) \<Longrightarrow> bindings_valid T (rt_db s')"
proof -
  assume valid: "bindings_valid T (rt_db s)"
  from updateSchedule_Inr [OF assms(1)] obtain now where d: "rt_db s' = (if u = no_update then rt_db s
       else update_schedules (\<lambda>r. sc_id r = i \<and> live r) (\<lambda>r. (updateEntries u r)\<lparr>sc_updatedAt := now\<rparr>) (rt_db s))"
    by auto
  then have th: "db_threads (rt_db s') = db_threads (rt_db s)" by (simp add: update_schedules_def)
  show ?thesis unfolding bindings_valid_def
  proof
    fix r assume "r \<in> set (live_schedules (rt_db s'))"
    then have "sc_threadId r \<in> sc_threadId ` set (live_schedules (rt_db s))"
      using assms(2)
      by (auto simp: d live_schedules_update set_update_where updateEntries_def given_def split: if_splits)
    then obtain r0 where "r0 \<in> set (live_schedules (rt_db s))" "sc_threadId r = sc_threadId r0" by auto
    with valid have "bound T (rt_db s) r" by (auto simp: bindings_valid_def bound_def)
    then show "bound T (rt_db s') r" by (simp add: bound_threads [OF th])
  qed
qed

section \<open>The transactions keep the bindings\<close>

lemma create_bound_valid:
  assumes "create_bound C q a s = (Inr r, s')" and C: "co_threads C = T"
    and "bindings_valid T (rt_db s)"
  shows "bindings_valid T (rt_db s')"
proof -
  from assms(1) C obtain t s1 r' s2 so s3 where
    1: "to_createScheduleThread T (schedule_thread_request q) s = (Inr t, s1)" and
    2: "createSchedule (q\<lparr>si_threadId := Some (th_id t)\<rparr>) s1 = (Inr r', s2)" and
    3: "insertOperation (operation (sc_id r') OpCreate OsSucceeded) a s2 = (Inr so, s')"
    by (auto simp: create_bound_def inr_simps)
  have "task T (th_id t) (rt_db s1)"
    using create_task [OF 1] by (simp add: schedule_thread_request_def)
  moreover have "bindings_valid T (rt_db s1)"
    unfolding bindings_valid_def create_schedules(2) [OF 1]
  proof
    fix r assume "r \<in> set (live_schedules (rt_db s))"
    with assms(3) have "bound T (rt_db s) r" by (simp add: bindings_valid_def)
    then show "bound T (rt_db s1) r"
      using task_create [of _ s "schedule_thread_request q"] by (auto simp: bound_def 1)
  qed
  ultimately show ?thesis
    using bindings_createSchedule [OF 2] bindings_insertOperation [OF 3] by simp
qed

lemma parse_create_state:
  "parse_create C dc body s = (Inr q, s') \<Longrightarrow> rt_db s' = rt_db s"
  by (auto simp: parse_create_def inr_simps)

lemma createManual_keeps:
  assumes "co_threads C = T"
  shows "db_keeps (bindings_valid T) (createManualTransaction C body)"
  unfolding createManualTransaction_def
  by (rule db_transaction_keeps)
     (auto simp: inr_simps dest!: parse_create_state intro: create_bound_valid [OF _ assms])

lemma bindings_mono:
  assumes "live_schedules d' = live_schedules d" and "\<And>i. task T i d \<Longrightarrow> task T i d'"
    and "bindings_valid T d"
  shows "bindings_valid T d'"
  using assms by (fastforce simp: bindings_valid_def bound_def)

lemma createFromAgent_keeps:
  assumes C: "co_threads C = T"
  shows "db_keeps (bindings_valid T) (createFromAgentTransaction C body a)"
  unfolding createFromAgentTransaction_def
proof (rule db_transaction_keeps)
  fix s r s'
  assume valid: "bindings_valid T (rt_db s)"
    and run: "(bindE (requireAgentCreationThread (co_threads C) a) (\<lambda>actorThread.
        bindE (parse_create C (th_cwd actorThread) (agentCreateRequest body actorThread)) (\<lambda>q.
        if th_purpose actorThread = ScheduleDraft then
          bindE (createSchedule (q\<lparr>si_threadId := Some (th_id actorThread)\<rparr>)) (\<lambda>created.
          bindE (liftE (requireBoundSchedule created)) (\<lambda>_.
          bindE (to_setPurpose (co_threads C) (th_id actorThread) ScheduleTask) (\<lambda>_.
          bindE (to_updateScheduleThread (co_threads C) (th_id actorThread)
                   \<lparr>us_title = si_name q, us_cwd = si_cwd q, us_profile = si_profile q,
                    us_model = si_model q, us_reasoning = si_reasoning q, us_sandbox = si_sandbox q\<rparr>) (\<lambda>_.
          bindE (insertOperation (operation (sc_id created) OpCreate OsSucceeded) (AgentActor (aa_runId a))) (\<lambda>_.
          ret created)))))
        else create_bound C q (AgentActor (aa_runId a))))) s = (Inr r, s')"
  then obtain t q s1 where t: "to_getThread T (aa_threadId a) (rt_db s) = Some t" "th_status t \<noteq> Archived"
    "th_purpose t \<noteq> ScheduleTask"
    and s1: "parse_create C (th_cwd t) (agentCreateRequest body t) s = (Inr q, s1)"
    and rest: "(if th_purpose t = ScheduleDraft then
          bindE (createSchedule (q\<lparr>si_threadId := Some (th_id t)\<rparr>)) (\<lambda>created.
          bindE (liftE (requireBoundSchedule created)) (\<lambda>_.
          bindE (to_setPurpose T (th_id t) ScheduleTask) (\<lambda>_.
          bindE (to_updateScheduleThread T (th_id t)
                   \<lparr>us_title = si_name q, us_cwd = si_cwd q, us_profile = si_profile q,
                    us_model = si_model q, us_reasoning = si_reasoning q, us_sandbox = si_sandbox q\<rparr>) (\<lambda>_.
          bindE (insertOperation (operation (sc_id created) OpCreate OsSucceeded) (AgentActor (aa_runId a))) (\<lambda>_.
          ret created)))))
        else create_bound C q (AgentActor (aa_runId a))) s1 = (Inr r, s')"
    unfolding C by (auto simp: requireAgentCreationThread_def inr_simps)
  note db1 = parse_create_state [OF s1]
  let ?i = "th_id t"
  have i: "?i = aa_threadId a" using getThread_id [OF t(1)] .
  show "bindings_valid T (rt_db s')"
  proof (cases "th_purpose t = ScheduleDraft")
    case False
    with rest valid db1 show ?thesis by (auto intro: create_bound_valid [OF _ C])
  next
    case True
    from True rest obtain c s2 t2 s3 t3 s4 so where
      2: "createSchedule (q\<lparr>si_threadId := Some ?i\<rparr>) s1 = (Inr c, s2)" and
      3: "to_setPurpose T ?i ScheduleTask s2 = (Inr t2, s3)" and
      4: "to_updateScheduleThread T ?i \<lparr>us_title = si_name q, us_cwd = si_cwd q, us_profile = si_profile q,
            us_model = si_model q, us_reasoning = si_reasoning q, us_sandbox = si_sandbox q\<rparr> s3 = (Inr t3, s4)" and
      5: "insertOperation (operation (sc_id c) OpCreate OsSucceeded) (AgentActor (aa_runId a)) s4 = (Inr so, s')"
      by (auto simp: inr_simps)
    from createSchedule_Inr [OF 2] have d2: "rt_db s2 = rt_db s\<lparr>db_schedules := db_schedules (rt_db s) @ [c]\<rparr>"
      and c: "sc_threadId c = Some ?i" "sc_deletedAt c = None"
      using db1 by (auto, (metis schedule_row.select_convs(2,25) schedule_row_of_def schedule_insert.select_convs(1)
        schedule_insert.update_convs(1) schedule_insert.surjective)+)
    have "thread_info T ?i (rt_db s2) = thread_info T ?i (rt_db s)" by (rule info_threads) (simp add: d2)
    also have "\<dots> = Some (ScheduleDraft, Active)"
      using t True by (cases "th_status t") (auto simp: thread_info_def i)
    finally have task3: "task T ?i (rt_db s3)"
      using purpose_set [OF 3] by (simp add: task_def)
    have others: "task T j (rt_db s3)" if "task T j (rt_db s)" for j
    proof (cases "j = ?i")
      case False
      from that have "task T j (rt_db s2)" by (simp add: d2)
      then have "task T j (rt_db (snd (to_setPurpose T ?i ScheduleTask s2)))"
        unfolding task_def by (rule db_keepsD [OF purpose_frame [OF False]])
      then show ?thesis by (simp add: 3)
    qed (use task3 in simp)
    have "bindings_valid T (rt_db s3)"
      unfolding bindings_valid_def purpose_schedules(2) [OF 3]
      using valid others task3 c by (auto simp: d2 live_schedules_def bindings_valid_def bound_def; blast)
    then have "bindings_valid T (rt_db s4)"
      using task_update [of _ s3] 4
      by (intro bindings_mono [OF update_schedules_same(2) [OF 4]]) (metis snd_conv)+
    then show ?thesis using bindings_insertOperation [OF 5] by simp
  qed
qed

lemma next_input_Inr:
  "next_input C e u s = (Inr v, s') \<Longrightarrow> su_threadId v = su_threadId u \<and> rt_db s' = rt_db s"
  by (auto simp: next_input_def inr_simps split: if_splits)

lemma update_keeps:
  assumes C: "co_threads C = T"
  shows "db_keeps (bindings_valid T) (updateTransaction C i body a)"
  unfolding updateTransaction_def
proof (rule db_transaction_keeps, goal_cases)
  case (1 s r s')
  then obtain existing t u v s1 x s2 k s3 so where
    u: "parsed_value (parseUpdateScheduleRequest (co_env C) (rt_fs (s\<lparr>rt_tick := Suc (rt_tick s)\<rparr>)) (sc_cwd existing) body) = Inr u" and
    v: "next_input C existing u (s\<lparr>rt_tick := Suc (rt_tick s)\<rparr>) = (Inr v, s1)" and
    2: "updateSchedule i v s1 = (Inr x, s2)" and
    3: "(if touchesThreadConfiguration u then
          bindE (to_updateScheduleThread T k
            \<lparr>us_title = sc_name r, us_cwd = sc_cwd r, us_profile = sc_profile r,
             us_model = sc_model r, us_reasoning = sc_reasoning r, us_sandbox = sc_sandbox r\<rparr>) (\<lambda>_. ret ())
        else ret ()) s2 = (Inr (), s3)" and
    4: "insertOperation (operation i OpUpdate OsSucceeded) a s3 = (Inr so, s')"
    unfolding C by (auto simp: inr_simps requireScheduleThread_def requireSchedule_def)
  from u have "su_threadId u = None"
    by (auto simp: parsed_value_def split: sum.splits intro: parseUpdate_keeps_thread)
  with next_input_Inr [OF v] have v': "su_threadId v = None" "rt_db s1 = rt_db s" by auto
  have valid2: "bindings_valid T (rt_db s2)"
    using bindings_updateSchedule [OF 2 v'(1)] 1 v'(2) by simp
  have "bindings_valid T (rt_db s3)"
  proof (cases "touchesThreadConfiguration u")
    case True
    with 3 obtain t3 where t3: "to_updateScheduleThread T k
            \<lparr>us_title = sc_name r, us_cwd = sc_cwd r, us_profile = sc_profile r,
             us_model = sc_model r, us_reasoning = sc_reasoning r, us_sandbox = sc_sandbox r\<rparr> s2 = (Inr t3, s3)"
      by (auto simp: inr_simps)
    show ?thesis
      using task_update [of _ s2] t3
      by (intro bindings_mono [OF update_schedules_same(2) [OF t3] _ valid2]) (metis snd_conv)
  next
    case False
    with 3 valid2 show ?thesis by (simp add: inr_simps)
  qed
  then show ?case using bindings_insertOperation [OF 4] by simp
qed

lemma delete_keeps:
  assumes C: "co_threads C = T"
  shows "db_keeps (\<lambda>d. db_ok d \<and> bindings_valid T d) (deleteTransaction C i)"
  unfolding deleteTransaction_def
proof (rule db_transaction_keeps, goal_cases)
  case (1 s r s')
  then obtain e k t x s1 s2 t3 s3 so where
    e: "getById i (rt_db s) = Some e" "sc_threadId e = Some k" and t: "to_getThread T k (rt_db s) = Some t" and
    2: "updateSchedule i disabled s = (Inr x, s1)" and
    3: "softDelete i s1 = (Inr True, s2)" and
    4: "to_archiveScheduleThread T (th_id t) s2 = (Inr t3, s3)" and
    5: "insertOperation (operation i OpDelete OsSucceeded) UserActor s3 = (Inr so, s')"
    by (auto simp: inr_simps C requireScheduleThread_def requireSchedule_def)
  have k: "th_id t = k" using getThread_id [OF t] .
  from updateSchedule_Inr [OF 2] 1 obtain now where
    d1: "rt_db s1 = update_schedules (\<lambda>r. sc_id r = i \<and> live r)
          (\<lambda>r. (updateEntries disabled r)\<lparr>sc_updatedAt := now\<rparr>) (rt_db s)"
    and ok1: "ok_state s1"
    by (auto simp: disabled_def no_update_def)
  have valid1: "bindings_valid T (rt_db s1)"
    using 1 by (intro bindings_updateSchedule [OF 2]) (simp_all add: disabled_def no_update_def)
  let ?e = "(updateEntries disabled e)\<lparr>sc_updatedAt := now\<rparr>"
  from getById_Some [OF e(1)] have em: "e \<in> set (live_schedules (rt_db s))" "sc_id e = i" by auto
  then have "?e \<in> (\<lambda>r. (updateEntries disabled r)\<lparr>sc_updatedAt := now\<rparr>) `
      {r \<in> set (live_schedules (rt_db s)). sc_id r = i \<and> live r}"
    by (blast intro: live_mem)
  then have e1: "?e \<in> set (live_schedules (rt_db s1))" "sc_id ?e = i" "sc_threadId ?e = Some k"
    using em e(2) by (simp_all add: d1 live_schedules_update set_update_where)
      (simp add: updateEntries_def disabled_def no_update_def given_def)
  from softDelete_Inr [OF 3] have ok2: "ok_state s2"
    and live2: "live_schedules (rt_db s2) = filter (\<lambda>r. sc_id r \<noteq> i) (live_schedules (rt_db s1))"
    and th2: "db_threads (rt_db s2) = db_threads (rt_db s1)"
    by (auto simp: live_schedules_softDelete) (auto simp: update_schedules_def)
  have "bindings_valid T (rt_db s3)"
    unfolding bindings_valid_def archive_schedules(2) [OF 4]
  proof
    fix r assume r: "r \<in> set (live_schedules (rt_db s2))"
    then have r1: "r \<in> set (live_schedules (rt_db s1))" "sc_id r \<noteq> i" by (auto simp: live2)
    with valid1 obtain j where j: "sc_threadId r = Some j" "task T j (rt_db s1)"
      by (auto simp: bindings_valid_def bound_def)
    have "j \<noteq> k" using bound_thread_unique [OF ok1 r1(1) e1(1)] j(1) e1 r1(2) by auto
    then have "j \<noteq> th_id t" by (simp add: k)
    from j(2) have "task T j (rt_db s2)" by (simp add: task_threads [OF th2])
    with db_keepsD [OF archive_frame [OF \<open>j \<noteq> th_id t\<close>], of s2] 4 have "task T j (rt_db s3)"
      by (simp add: task_def)
    with j show "bound T (rt_db s3) r" by (auto simp: bound_def)
  qed
  moreover have "ok_state s'" using insertOperation_Inr [OF 5] by blast
  ultimately show ?case using bindings_insertOperation [OF 5] by simp
qed

section \<open>The repair settles every schedule\<close>

lemma updated_schedule:
  assumes 1: "updateSchedule k u s = (Inr x, s1)" and 2: "insertOperation q a s1 = (Inr so, s')"
    and settles: "\<And>r now. settled T (rt_db s) ((updateEntries u r)\<lparr>sc_updatedAt := now\<rparr>)"
    and u: "u \<noteq> no_update"
  shows "turn T k s s'"
proof -
  from updateSchedule_Inr [OF 1] u obtain now where
    d1: "rt_db s1 = update_schedules (\<lambda>r. sc_id r = k \<and> live r)
          (\<lambda>r. (updateEntries u r)\<lparr>sc_updatedAt := now\<rparr>) (rt_db s)" by auto
  from insertOperation_Inr [OF 2] have ok: "ok_state s'"
    and d2: "rt_db s' = rt_db s1\<lparr>db_operations := db_operations (rt_db s1) @ [so]\<rparr>" by blast+
  have "live_schedules (rt_db s') = live_schedules (rt_db s1)" by (simp add: d2 live_schedules_def)
  then have l: "set (live_schedules (rt_db s')) =
      (\<lambda>r. (updateEntries u r)\<lparr>sc_updatedAt := now\<rparr>) ` {r \<in> set (live_schedules (rt_db s)). sc_id r = k \<and> live r} \<union>
      {r \<in> set (live_schedules (rt_db s)). \<not> (sc_id r = k \<and> live r)}"
    by (simp add: d1 live_schedules_update set_update_where)
  have th: "db_threads (rt_db s') = db_threads (rt_db s)" by (simp add: d2 d1 update_schedules_def)
  have "settled T (rt_db s') q" if "q \<in> set (live_schedules (rt_db s'))" "sc_id q = k" for q
  proof -
    from that obtain r where "q = (updateEntries u r)\<lparr>sc_updatedAt := now\<rparr>" by (auto simp: l live_mem)
    with settles show ?thesis by (simp add: settled_def bound_threads [OF th])
  qed
  moreover have "(q \<in> set (live_schedules (rt_db s'))) = (q \<in> set (live_schedules (rt_db s)))"
    if "sc_id q \<noteq> k" for q
    using that by (auto simp: l)
  ultimately show ?thesis using ok by (simp add: turn_def task_threads [OF th])
qed

lemma turn_after:
  assumes "turn T k s1 s'" and "live_schedules (rt_db s1) = live_schedules (rt_db s)"
    and "\<And>i. task T i (rt_db s) \<Longrightarrow> task T i (rt_db s1)"
  shows "turn T k s s'"
  using assms by (simp add: turn_def)

lemma repairBinding_turn:
  assumes C: "co_threads C = T" and run: "repairBindingTransaction C r s = (Inr (), s')"
  shows "turn T (sc_id r) s s'"
proof -
  from run obtain t s1 x s2 so where
    1: "to_createScheduleThread T (repair_thread_request r) s = (Inr t, s1)" and
    2: "updateSchedule (sc_id r) (no_update\<lparr>su_threadId := Some (Some (th_id t))\<rparr>) s1 = (Inr x, s2)" and
    3: "insertOperation (operation (sc_id r) OpBindingRepair OsSucceeded) MigrationActor s2 = (Inr so, s')"
    unfolding repairBindingTransaction_def C db_transaction_ok by (auto simp: inr_simps)
  have "task T (th_id t) (rt_db s1)" using create_task [OF 1] by (simp add: repair_thread_request_def)
  then have "turn T (sc_id r) s1 s'"
    by (intro updated_schedule [OF 2 3])
       (auto simp: settled_def bound_def updateEntries_def given_def no_update_def)
  then show ?thesis
    using create_schedules(2) [OF 1] task_create [of _ s "repair_thread_request r"] 1
    by (auto intro: turn_after)
qed

lemma recordFailure_turn:
  assumes "recordBindingRepairFailureTransaction r e s = (Inr (), s')"
  shows "turn T (sc_id r) s s'"
proof -
  from assms obtain x s1 q so where
    1: "updateSchedule (sc_id r) disabled s = (Inr x, s1)" and
    2: "insertOperation q MigrationActor s1 = (Inr so, s')"
    unfolding recordBindingRepairFailureTransaction_def db_transaction_ok by (auto simp: inr_simps)
  show ?thesis
    by (rule updated_schedule [OF 1 2])
       (auto simp: settled_def disabled_def updateEntries_def given_def no_update_def)
qed

lemma loop_turn:
  assumes C: "co_threads C = T" and ok: "ok_state s" and r: "r \<in> set (live_schedules (rt_db s))"
    and run: "ensureBindingsLoop C (r # rs) acc s = (Inr res, s')"
  shows "\<exists>acc' s1. ensureBindingsLoop C rs acc' s1 = (Inr res, s') \<and> turn T (sc_id r) s s1 \<and>
    rr_scanned acc' = rr_scanned acc \<and>
    rr_repaired acc' + rr_failed acc' + rr_unchanged acc' =
      rr_repaired acc + rr_failed acc + rr_unchanged acc + 1"
proof (cases "hasValidScheduleThread T r (rt_db s)")
  case True
  then have "bound T (rt_db s) r"
    by (auto simp: hasValidScheduleThread_def bound_def task_def thread_info_def split: option.splits)
  moreover have "q = r" if "q \<in> set (live_schedules (rt_db s))" "sc_id q = sc_id r" for q
    using that r live_schedules_distinct [OF ok] by (metis distinct_map inj_onD)
  ultimately have "turn T (sc_id r) s s" using ok by (auto simp: turn_def settled_def)
  with run True show ?thesis
    by (intro exI [of _ "acc\<lparr>rr_unchanged := rr_unchanged acc + 1\<rparr>"] exI [of _ s]) (simp add: C run_simps)
next
  case False
  show ?thesis
  proof (cases "repairBindingTransaction C r s")
    case (Pair y s1)
    show ?thesis
    proof (cases y)
      case (Inr z)
      with Pair run False show ?thesis
        by (intro exI [of _ "acc\<lparr>rr_repaired := rr_repaired acc + 1\<rparr>"] exI [of _ s1])
           (simp add: C run_simps repairBinding_turn [OF C])
    next
      case (Inl e)
      note fail = Pair [unfolded Inl]
      have db1: "rt_db s1 = rt_db s"
        using fail unfolding repairBindingTransaction_def by (rule db_transaction_error)
      from run False fail obtain s2 where
        2: "recordBindingRepairFailureTransaction r e s1 = (Inr (), s2)" and
        3: "ensureBindingsLoop C rs (acc\<lparr>rr_failed := rr_failed acc + 1\<rparr>) s2 = (Inr res, s')"
        by (auto simp: C run_simps split: sum.splits prod.splits)
      from recordFailure_turn [OF 2] have "turn T (sc_id r) s s2"
        by (rule turn_after) (simp_all add: db1)
      with 3 show ?thesis by (intro exI [of _ "acc\<lparr>rr_failed := rr_failed acc + 1\<rparr>"] exI [of _ s2]) simp
    qed
  qed
qed

lemma ensureBindingsLoop_settles:
  assumes C: "co_threads C = T"
  shows "ensureBindingsLoop C rs acc s = (Inr res, s') \<Longrightarrow> ok_state s \<Longrightarrow> distinct (map sc_id rs) \<Longrightarrow>
    set rs \<subseteq> set (live_schedules (rt_db s)) \<Longrightarrow>
    \<forall>q \<in> set (live_schedules (rt_db s)). sc_id q \<notin> sc_id ` set rs \<longrightarrow> settled T (rt_db s) q \<Longrightarrow>
    (\<forall>q \<in> set (live_schedules (rt_db s')). settled T (rt_db s') q) \<and>
    rr_scanned res = rr_scanned acc \<and>
    rr_repaired res + rr_failed res + rr_unchanged res =
      rr_repaired acc + rr_failed acc + rr_unchanged acc + length rs"
proof (induction rs arbitrary: acc s)
  case Nil
  then show ?case by (simp add: run_simps)
next
  case (Cons r rs)
  from Cons.prems(4) have r: "r \<in> set (live_schedules (rt_db s))" by simp
  from loop_turn [OF C Cons.prems(2) r Cons.prems(1)] obtain acc' s1 where
    rest: "ensureBindingsLoop C rs acc' s1 = (Inr res, s')" and turn: "turn T (sc_id r) s s1" and
    acc': "rr_scanned acc' = rr_scanned acc"
      "rr_repaired acc' + rr_failed acc' + rr_unchanged acc' =
       rr_repaired acc + rr_failed acc + rr_unchanged acc + 1"
    by blast
  have mono: "settled T (rt_db s) q \<Longrightarrow> settled T (rt_db s1) q" for q
    using turn by (auto simp: turn_def settled_def bound_def)
  have "set rs \<subseteq> set (live_schedules (rt_db s1))"
  proof
    fix x assume x: "x \<in> set rs"
    then have "sc_id x \<noteq> sc_id r" "x \<in> set (live_schedules (rt_db s))"
      using Cons.prems(3,4) by (auto simp: image_iff)
    with turn show "x \<in> set (live_schedules (rt_db s1))" by (simp add: turn_def)
  qed
  moreover have "\<forall>q \<in> set (live_schedules (rt_db s1)). sc_id q \<notin> sc_id ` set rs \<longrightarrow> settled T (rt_db s1) q"
  proof (intro ballI impI)
    fix q assume q: "q \<in> set (live_schedules (rt_db s1))" "sc_id q \<notin> sc_id ` set rs"
    show "settled T (rt_db s1) q"
    proof (cases "sc_id q = sc_id r")
      case True
      with q turn show ?thesis by (simp add: turn_def)
    next
      case False
      with q turn have "q \<in> set (live_schedules (rt_db s))" by (simp add: turn_def)
      with q False Cons.prems(5) show ?thesis by (auto intro: mono)
    qed
  qed
  moreover have "ok_state s1" using turn by (simp add: turn_def)
  ultimately show ?case using Cons.IH [OF rest] Cons.prems(3) acc' by simp
qed

lemma ensureBindings_settles:
  assumes "co_threads C = T" and "ok_state s" and "ensureBindings C s = (Inr res, s')"
    and changed: "\<And>t. rt_db (snd (co_changed C t)) = rt_db t"
  shows "(\<forall>q \<in> set (live_schedules (rt_db s')). settled T (rt_db s') q) \<and>
    rr_scanned res = length (live_schedules (rt_db s)) \<and>
    rr_repaired res + rr_failed res + rr_unchanged res = rr_scanned res"
proof -
  let ?rs = "list_schedules (rt_db s)"
  have rs: "set ?rs = set (live_schedules (rt_db s))" "length ?rs = length (live_schedules (rt_db s))"
    "distinct (map sc_id ?rs)"
    using live_schedules_distinct [OF assms(2)]
    by (simp_all add: list_schedules_def) (simp add: order_desc_def distinct_map)
  have changed': "co_changed C t = (x, t') \<Longrightarrow> rt_db t' = rt_db t" for t x t'
    by (metis changed snd_conv)
  from assms(3) obtain s1 where
    loop: "ensureBindingsLoop C ?rs \<lparr>rr_scanned = length ?rs, rr_repaired = 0, rr_failed = 0, rr_unchanged = 0\<rparr> s
      = (Inr res, s1)" and s': "rt_db s' = rt_db s1"
    by (auto simp: ensureBindings_def inr_simps split: if_splits dest: changed')
  have "\<forall>q \<in> set (live_schedules (rt_db s)). sc_id q \<notin> sc_id ` set ?rs \<longrightarrow> settled T (rt_db s) q"
    by (simp add: rs)
  from ensureBindingsLoop_settles [OF assms(1) loop assms(2) rs(3) _ this] show ?thesis
    by (simp add: rs s')
qed

section \<open>The operations keep constraints and bindings\<close>

lemma transactions_ok:
  assumes C: "co_threads C = T"
  shows "db_keeps db_ok (createManualTransaction C body)"
    and "db_keeps db_ok (createFromAgentTransaction C body ag)"
    and "db_keeps db_ok (updateTransaction C i body a)"
    and "db_keeps db_ok (deleteTransaction C i)"
  unfolding createManualTransaction_def createFromAgentTransaction_def updateTransaction_def
    deleteTransaction_def create_bound_def parse_create_def requireAgentCreationThread_def
    requireSchedule_def requireScheduleThread_def next_input_def C
  by (intro keeps_rules threads_ok)+

lemma operations_keep:
  assumes C: "co_threads C = T" and changed: "db_keeps (\<lambda>d. db_ok d \<and> bindings_valid T d) (co_changed C)"
  shows "db_keeps (\<lambda>d. db_ok d \<and> bindings_valid T d) (createManual C body)"
    and "db_keeps (\<lambda>d. db_ok d \<and> bindings_valid T d) (createFromAgent C body ag)"
    and "db_keeps (\<lambda>d. db_ok d \<and> bindings_valid T d) (updateManual C i body)"
    and "db_keeps (\<lambda>d. db_ok d \<and> bindings_valid T d) (updateFromAgent C i body ag)"
    and "db_keeps (\<lambda>d. db_ok d \<and> bindings_valid T d) (deleteSchedule C i)"
  unfolding createManual_def createFromAgent_def updateManual_def updateFromAgent_def deleteSchedule_def
  by (intro keeps_rules changed db_keeps_conj transactions_ok [OF C] createManual_keeps [OF C]
      createFromAgent_keeps [OF C] update_keeps [OF C] delete_keeps [OF C])+

end

end
