(* ===== verification/ScheduleService.thy ===== *)
theory ScheduleService
  imports RunManager ScheduleCoordinator
begin

text \<open>
  The scheduler service, \<^verbatim>\<open>scheduler/service.ts\<close>: it starts the runs of the schedules, on request
  and from a timer, and decides what becomes of a trigger that is late or finds its thread busy.

  \<^item> \<open>scheduler\<close> is what \<^verbatim>\<open>createSchedulerService\<close> is given. The run manager is known by its two
    operations \<^verbatim>\<open>startRun\<close> and \<^verbatim>\<open>hasActiveRunForThread\<close>; the locale \<open>schedule_runs\<close> of theory
    \<open>ScheduleRefinement\<close> states what the service relies on, and theory \<open>DaemonSchedules\<close> interprets it
    by the run manager of the daemon.
  \<^item> \<open>timers\<close> are the variables of the service: whether it is started, the delay of the timer that is
    set, and whether the queue timer is. They are a field of the state that \<open>ss_timers\<close> reads.
  \<^item> A callback of a timer is one function (\<open>due_timer_fires\<close>, \<open>queue_timer_fires\<close>).
\<close>

section \<open>Interface\<close>

record timers =
  tm_started :: bool
  tm_timer :: "int option" \<comment> \<open>the delay\<close>
  tm_queueTimer :: bool

record ('fs, 'x) scheduler =
  ss_env :: "'fs sched_env"
  ss_startRun :: "create_run \<Rightarrow> ('fs, 'x, created_run) io"
  ss_hasActive :: "thread_id \<Rightarrow> ('fs, 'x) rt_scheme \<Rightarrow> bool"
  ss_graceMs :: "int option"
  ss_rules :: "string list" \<comment> \<open>the first eight lines of the execution prompt, in Chinese\<close>
  ss_labels :: "string \<times> string \<times> string" \<comment> \<open>its labels of the name, the time and the task\<close>
  ss_isoTime :: "ms \<Rightarrow> string"
  ss_timers :: "('fs, 'x) rt_scheme \<Rightarrow> timers"
  ss_setTimers :: "(timers \<Rightarrow> timers) \<Rightarrow> ('fs, 'x) rt_scheme \<Rightarrow> ('fs, 'x) rt_scheme"

definition DEFAULT_TRIGGER_GRACE_MS :: int where "DEFAULT_TRIGGER_GRACE_MS = 30000"

definition MAX_TIMER_DELAY_MS :: int where "MAX_TIMER_DELAY_MS = 2147000000"

definition triggerGraceMs :: "('fs, 'x) scheduler \<Rightarrow> int" where
  "triggerGraceMs S = option_or (ss_graceMs S) DEFAULT_TRIGGER_GRACE_MS"

text \<open>\<^verbatim>\<open>try { m } finally { f }\<close>\<close>

definition finallyE :: "('s, 'e, 'a) act \<Rightarrow> ('s, 'e, unit) act \<Rightarrow> ('s, 'e, 'a) act" where
  "finallyE m f = (\<lambda>s. case m s of (r, s1) \<Rightarrow> (case f s1 of (Inl e, s2) \<Rightarrow> (Inl e, s2) | (Inr _, s2) \<Rightarrow> (r, s2)))"

section \<open>Responses\<close>

record schedule_response =
  sp_id :: string
  sp_threadId :: thread_id
  sp_name :: string
  sp_cron :: string
  sp_timezone :: string
  sp_enabled :: bool
  sp_promptPreviewRedacted :: string
  sp_profile :: string
  sp_cwd :: string
  sp_canonicalCwd :: string
  sp_model :: "string option"
  sp_reasoning :: "reasoning_effort option"
  sp_sandbox :: sandbox_mode
  sp_timeoutMs :: "int option"
  sp_concurrencyPolicy :: concurrency_policy
  sp_nextRunAt :: "ms option"
  sp_lastRunAt :: "ms option"
  sp_lastRunId :: "run_id option"
  sp_lastStatus :: "schedule_last_status option"
  sp_pendingTrigger :: bool
  sp_createdAt :: ms
  sp_updatedAt :: ms

record schedule_detail = schedule_response +
  sd_prompt :: string

record run_now_response =
  rr_run :: "created_run option"
  rr_schedule :: schedule_response
  rr_skipped :: bool
  rr_queued :: bool

text \<open>\<open>t\<close> is the thread of the bound schedule.\<close>

definition toScheduleResponse :: "schedule_row \<Rightarrow> thread_id \<Rightarrow> schedule_response" where
  "toScheduleResponse r t =
     \<lparr>sp_id = sc_id r, sp_threadId = t, sp_name = sc_name r, sp_cron = sc_cron r,
      sp_timezone = sc_timezone r, sp_enabled = sc_enabled r,
      sp_promptPreviewRedacted = sc_promptPreviewRedacted r, sp_profile = sc_profile r,
      sp_cwd = sc_cwd r, sp_canonicalCwd = sc_canonicalCwd r, sp_model = sc_model r,
      sp_reasoning = sc_reasoning r, sp_sandbox = sc_sandbox r, sp_timeoutMs = sc_timeoutMs r,
      sp_concurrencyPolicy = sc_concurrencyPolicy r, sp_nextRunAt = sc_nextRunAt r,
      sp_lastRunAt = sc_lastRunAt r, sp_lastRunId = sc_lastRunId r, sp_lastStatus = sc_lastStatus r,
      sp_pendingTrigger = sc_pendingTrigger r, sp_createdAt = sc_createdAt r, sp_updatedAt = sc_updatedAt r\<rparr>"

definition toScheduleDetailResponse :: "schedule_row \<Rightarrow> thread_id \<Rightarrow> schedule_detail" where
  "toScheduleDetailResponse r t = schedule_response.extend (toScheduleResponse r t) \<lparr>sd_prompt = sc_prompt r\<rparr>"

text \<open>\<^verbatim>\<open>toScheduleResponse(requireBoundSchedule(r))\<close>\<close>

definition bound_response :: "schedule_row \<Rightarrow> ('fs, 'x, schedule_response) io" where
  "bound_response r = bindE (liftE (requireBoundSchedule r)) (\<lambda>t. ret (toScheduleResponse r t))"

section \<open>Timers\<close>

definition set_timers :: "('fs, 'x) scheduler \<Rightarrow> (timers \<Rightarrow> timers) \<Rightarrow> ('fs, 'x, unit) io" where
  "set_timers S f = modify (ss_setTimers S f)"

definition refreshTimer :: "('fs, 'x) scheduler \<Rightarrow> ('fs, 'x, unit) io" where
  "refreshTimer S =
     thenE (set_timers S (\<lambda>t. t\<lparr>tm_timer := None\<rparr>))
     (bindE (gets (\<lambda>s. tm_started (ss_timers S s))) (\<lambda>started.
      if \<not> started then ret ()
      else
        bindE (read_db getNextEnabled) (\<lambda>next.
        case (case next of None \<Rightarrow> None | Some r \<Rightarrow> sc_nextRunAt r) of
          None \<Rightarrow> ret ()
        | Some due \<Rightarrow>
            bindE date_now (\<lambda>now.
            set_timers S (\<lambda>t. t\<lparr>tm_timer := Some (max 0 (min MAX_TIMER_DELAY_MS (due - now)))\<rparr>)))))"

definition refreshQueueTimer :: "('fs, 'x) scheduler \<Rightarrow> ('fs, 'x, unit) io" where
  "refreshQueueTimer S =
     thenE (set_timers S (\<lambda>t. t\<lparr>tm_queueTimer := False\<rparr>))
     (bindE (gets (\<lambda>s. tm_started (ss_timers S s) \<and> listPendingTriggers (rt_db s) \<noteq> [])) (\<lambda>needed.
      whenE needed (set_timers S (\<lambda>t. t\<lparr>tm_queueTimer := True\<rparr>))))"

definition if_started :: "('fs, 'x) scheduler \<Rightarrow> ('fs, 'x, unit) io \<Rightarrow> ('fs, 'x, unit) io" where
  "if_started S m = bindE (gets (\<lambda>s. tm_started (ss_timers S s))) (\<lambda>started. whenE started m)"

definition refreshTimers :: "('fs, 'x) scheduler \<Rightarrow> ('fs, 'x, unit) io" where
  "refreshTimers S = thenE (refreshTimer S) (refreshQueueTimer S)"

definition start_service :: "('fs, 'x) scheduler \<Rightarrow> ('fs, 'x, unit) io" where
  "start_service S = thenE (set_timers S (\<lambda>t. t\<lparr>tm_started := True\<rparr>)) (refreshTimers S)"

definition stop_service :: "('fs, 'x) scheduler \<Rightarrow> ('fs, 'x, unit) io" where
  "stop_service S = set_timers S (\<lambda>t. \<lparr>tm_started = False, tm_timer = None, tm_queueTimer = False\<rparr>)"

section \<open>Triggers\<close>

datatype trigger = RunNow | TimerTrigger | RunQueued

fun trigger_operation :: "trigger \<Rightarrow> schedule_operation" where
  "trigger_operation RunNow = OpRunNow"
| "trigger_operation TimerTrigger = OpTimerTrigger"
| "trigger_operation RunQueued = OpRunQueued"

text \<open>\<^verbatim>\<open>parallel\<close> is a policy of older databases.\<close>

definition resolveConcurrencyPolicy :: "schedule_row \<Rightarrow> concurrency_policy" where
  "resolveConcurrencyPolicy r =
     (if sc_concurrencyPolicy r \<noteq> CpParallel then sc_concurrencyPolicy r else CpQueue)"

definition createScheduleExecutionPrompt :: "('fs, 'x) scheduler \<Rightarrow> schedule_row \<Rightarrow> ms \<Rightarrow> string" where
  "createScheduleExecutionPrompt S r ranAt =
     (case ss_labels S of (name, time, content) \<Rightarrow>
        join_with [CHR 0x0A] (ss_rules S @ [[], name @ sc_name r, time @ ss_isoTime S ranAt, content, sc_prompt r]))"

definition run_request :: "('fs, 'x) scheduler \<Rightarrow> schedule_row \<Rightarrow> thread_id \<Rightarrow> ms \<Rightarrow> create_run" where
  "run_request S r t ranAt =
     \<lparr>rb_prompt = sc_prompt r, rb_executionPrompt = Some (createScheduleExecutionPrompt S r ranAt),
      rb_publicPrompt = Some (sc_prompt r), rb_triggeredAt = Some ranAt, rb_contextItems = [],
      rb_resumeMode = None, rb_createdBy = Some BySchedule, rb_sourceId = Some (sc_id r),
      rb_timeoutMs = sc_timeoutMs r, rb_imagePaths = [], rb_attachmentIds = [],
      rb_submissionMode = None, rb_threadId = Some t, cr_cwd = None, cr_profile = None,
      cr_sandbox = None, cr_model = None, cr_reasoning = None\<rparr>"

text \<open>An operation that failed\<close>

definition failed_operation :: "string \<Rightarrow> schedule_operation \<Rightarrow> err \<Rightarrow> operation_input" where
  "failed_operation i kind e =
     (operation i kind OsFailed)\<lparr>oi_errorCode := Some ''INTERNAL_ERROR'', oi_errorMessage := Some (err_message e)\<rparr>"

definition triggerSchedule ::
  "('fs, 'x) scheduler \<Rightarrow> schedule_row \<Rightarrow> thread_id \<Rightarrow> trigger \<Rightarrow> ms \<Rightarrow> actor \<Rightarrow> ('fs, 'x, run_now_response) io" where
  "triggerSchedule S r t tr ranAt who =
     bindE (catchE (ss_startRun S (run_request S r t ranAt)) (\<lambda>e.
              bindE (insertOperation (failed_operation (sc_id r) (trigger_operation tr) e) who)
                (\<lambda>_. throw (SchedulerError ''INTERNAL_ERROR'' (err_message e))))) (\<lambda>run.
     bindE (recordRun (sc_id r) (cn_id run) ranAt (LsRun (cn_status run))) (\<lambda>x.
     bindE (someE schedule_not_found x) (\<lambda>updated.
     bindE (insertOperation ((operation (sc_id r) (trigger_operation tr) OsSucceeded)\<lparr>oi_runId := Some (cn_id run)\<rparr>) who) (\<lambda>_.
     bindE (bound_response updated) (\<lambda>response.
     ret \<lparr>rr_run = Some run, rr_schedule = response, rr_skipped = False, rr_queued = False\<rparr>)))))"

definition skip_trigger :: "schedule_row \<Rightarrow> actor \<Rightarrow> ('fs, 'x, run_now_response) io" where
  "skip_trigger r who =
     bindE (recordSkipped (sc_id r) LsSkipped) (\<lambda>x.
     bindE (someE schedule_not_found x) (\<lambda>skipped.
     bindE (insertOperation (operation (sc_id r) OpSkipConcurrency OsSkipped) who) (\<lambda>_.
     bindE (bound_response skipped) (\<lambda>response.
     ret \<lparr>rr_run = None, rr_schedule = response, rr_skipped = True, rr_queued = False\<rparr>))))"

definition queue_trigger :: "('fs, 'x) scheduler \<Rightarrow> schedule_row \<Rightarrow> actor \<Rightarrow> ('fs, 'x, run_now_response) io" where
  "queue_trigger S r who =
     bindE (setPendingTrigger (sc_id r) True) (\<lambda>x.
     bindE (someE schedule_not_found x) (\<lambda>_.
     bindE (recordSkipped (sc_id r) (LsRun PQueued)) (\<lambda>y.
     bindE (someE schedule_not_found y) (\<lambda>updated.
     bindE (insertOperation (operation (sc_id r) OpQueueTrigger OsQueued) who) (\<lambda>_.
     thenE (if_started S (refreshQueueTimer S))
     (bindE (bound_response updated) (\<lambda>response.
      ret \<lparr>rr_run = None, rr_schedule = response, rr_skipped = False, rr_queued = True\<rparr>)))))))"

definition handleTrigger ::
  "('fs, 'x) scheduler \<Rightarrow> schedule_row \<Rightarrow> trigger \<Rightarrow> ms \<Rightarrow> actor \<Rightarrow> ('fs, 'x, run_now_response) io" where
  "handleTrigger S r tr ranAt who =
     bindE (liftE (requireBoundSchedule r)) (\<lambda>t.
     bindE (gets (ss_hasActive S t)) (\<lambda>active.
     if tr \<noteq> RunQueued \<and> active \<and> resolveConcurrencyPolicy r = CpSkip then skip_trigger r who
     else if tr \<noteq> RunQueued \<and> active \<and> resolveConcurrencyPolicy r = CpQueue then queue_trigger S r who
     else triggerSchedule S r t tr ranAt who))"

section \<open>The timer\<close>

text \<open>A late trigger is not made up for.\<close>

definition skip_misfire :: "schedule_row \<Rightarrow> ('fs, 'x, unit) io" where
  "skip_misfire r =
     bindE (recordSkipped (sc_id r) LsSkipped) (\<lambda>x.
     bindE (someE schedule_not_found x) (\<lambda>_.
     bindE (insertOperation (operation (sc_id r) OpSkipMisfire OsSkipped) TimerActor) (\<lambda>_. ret ())))"

definition processDueSchedule :: "('fs, 'x) scheduler \<Rightarrow> schedule_row \<Rightarrow> ms \<Rightarrow> ('fs, 'x, unit) io" where
  "processDueSchedule S r now =
     (case sc_nextRunAt r of
        None \<Rightarrow> ret ()
      | Some due \<Rightarrow>
          bindE (liftE (computeNextRunAt (ss_env S) (sc_cron r) (sc_timezone r) now)) (\<lambda>next.
          bindE (updateSchedule (sc_id r) (no_update\<lparr>su_nextRunAt := Some (Some next)\<rparr>)) (\<lambda>x.
          bindE (someE schedule_not_found x) (\<lambda>updated.
          if now - due > triggerGraceMs S then skip_misfire r
          else bindE (handleTrigger S updated TimerTrigger now TimerActor) (\<lambda>_. ret ())))))"

text \<open>\<^verbatim>\<open>error instanceof SchedulerError\<close>\<close>

definition is_scheduler_error :: "err \<Rightarrow> bool" where
  "is_scheduler_error e = (case e of SchedulerError _ _ \<Rightarrow> True | _ \<Rightarrow> False)"

definition recordUnexpectedTimerFailure :: "schedule_row \<Rightarrow> err \<Rightarrow> ('fs, 'x, unit) io" where
  "recordUnexpectedTimerFailure r e =
     (if is_scheduler_error e then ret ()
      else bindE (insertOperation (failed_operation (sc_id r) OpTimerTrigger e) TimerActor) (\<lambda>_. ret ()))"

definition process_due :: "('fs, 'x) scheduler \<Rightarrow> ms \<Rightarrow> schedule_row \<Rightarrow> ('fs, 'x, unit) io" where
  "process_due S now r = catchE (processDueSchedule S r now) (recordUnexpectedTimerFailure r)"

definition processDueSchedules :: "('fs, 'x) scheduler \<Rightarrow> ('fs, 'x, unit) io" where
  "processDueSchedules S =
     bindE date_now (\<lambda>now.
     finallyE
       (bindE (read_db (listDue now)) (\<lambda>due. forE due (process_due S now)))
       (if_started S (refreshTimers S)))"

definition due_timer_fires :: "('fs, 'x) scheduler \<Rightarrow> ('fs, 'x, unit) io" where
  "due_timer_fires S = thenE (set_timers S (\<lambda>t. t\<lparr>tm_timer := None\<rparr>)) (processDueSchedules S)"

section \<open>The queue\<close>

definition recordQueuedTriggerFailure :: "schedule_row \<Rightarrow> err \<Rightarrow> ('fs, 'x, unit) io" where
  "recordQueuedTriggerFailure r e =
     bindE (setPendingTrigger (sc_id r) False) (\<lambda>x.
     bindE (someE schedule_not_found x) (\<lambda>_.
     bindE (recordSkipped (sc_id r) (LsRun PFailed)) (\<lambda>y.
     bindE (someE schedule_not_found y) (\<lambda>_.
     if is_scheduler_error e \<and> err_code e = Some ''INTERNAL_ERROR'' then ret ()
     else bindE (insertOperation (failed_operation (sc_id r) OpRunQueued e) TimerActor) (\<lambda>_. ret ())))))"

definition process_pending :: "('fs, 'x) scheduler \<Rightarrow> schedule_row \<Rightarrow> ('fs, 'x, unit) io" where
  "process_pending S r =
     catchE
       (bindE (liftE (requireBoundSchedule r)) (\<lambda>t.
        bindE (gets (ss_hasActive S t)) (\<lambda>active.
        if active then ret ()
        else bindE date_now (\<lambda>now.
          bindE (handleTrigger S r RunQueued now TimerActor) (\<lambda>_. ret ())))))
       (recordQueuedTriggerFailure r)"

definition processPendingTriggers :: "('fs, 'x) scheduler \<Rightarrow> ('fs, 'x, unit) io" where
  "processPendingTriggers S =
     finallyE
       (bindE (read_db listPendingTriggers) (\<lambda>rows. forE rows (process_pending S)))
       (if_started S (refreshQueueTimer S))"

definition queue_timer_fires :: "('fs, 'x) scheduler \<Rightarrow> ('fs, 'x, unit) io" where
  "queue_timer_fires S = thenE (set_timers S (\<lambda>t. t\<lparr>tm_queueTimer := False\<rparr>)) (processPendingTriggers S)"

section \<open>Requests\<close>

definition runNow :: "('fs, 'x) scheduler \<Rightarrow> string \<Rightarrow> actor \<Rightarrow> ('fs, 'x, run_now_response) io" where
  "runNow S i who =
     bindE (requireSchedule i) (\<lambda>r.
     bindE date_now (\<lambda>now.
     bindE (handleTrigger S r RunNow now who) (\<lambda>response.
     thenE (if_started S (refreshTimers S)) (ret response))))"

fun bound_responses :: "schedule_row list \<Rightarrow> ('fs, 'x, schedule_response list) io" where
  "bound_responses [] = ret []"
| "bound_responses (r # rs) =
     bindE (bound_response r) (\<lambda>p. bindE (bound_responses rs) (\<lambda>ps. ret (p # ps)))"

definition listSchedules :: "('fs, 'x, schedule_response list) io" where
  "listSchedules =
     bindE reconcileLastRunStatuses (\<lambda>_. bindE (read_db list_schedules) bound_responses)"

definition getSchedule :: "string \<Rightarrow> ('fs, 'x, schedule_detail option) io" where
  "getSchedule i =
     bindE reconcileLastRunStatuses (\<lambda>_.
     bindE (read_db (getById i)) (\<lambda>found.
     case found of
       None \<Rightarrow> ret None
     | Some r \<Rightarrow> bindE (liftE (requireBoundSchedule r)) (\<lambda>t. ret (Some (toScheduleDetailResponse r t)))))"

definition service_operations :: "string \<Rightarrow> nat \<Rightarrow> ('fs, 'x, operation_row list) io" where
  "service_operations i limit =
     bindE (requireSchedule i) (\<lambda>_. read_db (listOperations i limit))"

end
