(* ===== verification/DaemonRuns.thy ===== *)
theory DaemonRuns
  imports RunSurroundings RunLiveness ExecutorSlots CapabilityTokens Approvals ScheduleService
begin

text \<open>
  The run manager as the daemon builds it, \<^verbatim>\<open>api/server.ts\<close> lines 574 to 668: it gets the thread
  manager of theory \<open>Threads\<close>, cancels the approvals of theory \<open>Approvals\<close>, asks the executor of
  theory \<open>ExecutorSlots\<close>, and when a run ends revokes the run's capability tokens, theory
  \<open>CapabilityTokens\<close>.

  These functions meet the contracts of theories \<open>RunCallbacks\<close> and \<open>RunSurroundings\<close>
  (\<open>daemon_threads\<close>, \<open>daemon\<close>), so what is proved there holds of the daemon. The memory service and
  the notification service work on tables outside of the model: they read the database, and may fail.
\<close>

section \<open>The composition\<close>

record 'fs daemon_state = "'fs run_state" +
  dm_caps :: cap_store
  dm_approvals :: approval_state
  dm_executor :: "executor option"
  dm_timers :: timers \<comment> \<open>the variables of the scheduler service\<close>

record 'fs daemon_config =
  dc_env :: "'fs env"
  dc_writeFile :: "string \<Rightarrow> 'fs \<Rightarrow> err + 'fs"
  dc_appServer :: bool
  dc_executor :: "rat option option" \<comment> \<open>\<^verbatim>\<open>maxConcurrency\<close>, if there is an executor\<close>
  dc_resumeCapabilityVerified :: bool
  dc_validateProfile :: "string \<Rightarrow> (string \<times> string) option"
  dc_rotationThreshold :: "rat option option"
  dc_timeouts :: "int option \<times> int option \<times> int option"
  dc_prepareContext :: "string \<Rightarrow> thread_id \<Rightarrow> db \<Rightarrow> err + string \<times> context_item list"
  dc_recordContext :: "run_id \<Rightarrow> context_item list \<Rightarrow> db \<Rightarrow> err + unit"
  dc_enqueueRunTerminal :: "run_id \<Rightarrow> db \<Rightarrow> err + unit"
  dc_limitText :: "nat \<Rightarrow> string"
  dc_rotatedText :: string
  dc_contextText :: string

definition daemon_threads :: "'fs env \<Rightarrow> ('fs, 'x) thread_access" where
  "daemon_threads E =
     \<lparr>ta_getThread = getThread E, ta_assertRunnableThread = Some (assertRunnableThread E),
      ta_repairCodexThreadBindings = Some repairCodexThreadBindings, ta_setCodexThreadId = setCodexThreadId\<rparr>"

text \<open>A service that reads the database\<close>

definition service :: "(db \<Rightarrow> err + 'a) \<Rightarrow> ('fs, 'x, 'a) rio" where
  "service f = bindE (read_db f) liftE"

definition revoke_run :: "run_id \<Rightarrow> 'fs daemon_state \<Rightarrow> 'fs daemon_state" where
  "revoke_run i s = s\<lparr>dm_caps := snd (revokeRun i (dm_caps s))\<rparr>"

fun approval_err :: "approval_error \<Rightarrow> err" where
  "approval_err APPROVAL_NOT_FOUND = NodeError ''APPROVAL_NOT_FOUND'' ''Approval not found''"
| "approval_err APPROVAL_SQLITE_CONSTRAINT = NodeError ''SQLITE_CONSTRAINT'' ''constraint failed''"

text \<open>Each approval that is canceled reads the clock.\<close>

definition approval_clock :: "run_id \<Rightarrow> 'fs daemon_state \<Rightarrow> string \<Rightarrow> ms" where
  "approval_clock i s a =
     rt_now s (rt_tick s + length (takeWhile (\<lambda>b. b \<noteq> a) (pending_of i (dm_approvals s))))"

definition cancel_approvals :: "run_id \<Rightarrow> string \<Rightarrow> ('fs daemon_state, err, unit) act" where
  "cancel_approvals i reason = (\<lambda>s.
     (let s' = s\<lparr>rt_tick := rt_tick s + length (pending_of i (dm_approvals s))\<rparr> in
      case Approvals.cancelRun i (Some reason) (approval_clock i s) (dm_approvals s) of
        (Inl e, a) \<Rightarrow> (Inl (approval_err e), s'\<lparr>dm_approvals := a\<rparr>)
      | (Inr _, a) \<Rightarrow> (Inr (), s'\<lparr>dm_approvals := a\<rparr>)))"

definition on_run_terminal :: "'fs daemon_config \<Rightarrow> run_id \<Rightarrow> ('fs daemon_state, err, unit) act" where
  "on_run_terminal D i = thenE (modify (revoke_run i)) (service (dc_enqueueRunTerminal D i))"

definition executor_ready :: "thread_id \<Rightarrow> 'fs daemon_state \<Rightarrow> bool" where
  "executor_ready t s = (case dm_executor s of None \<Rightarrow> True | Some x \<Rightarrow> executor_canStart t x)"

definition daemon_options where
  "daemon_options D =
     \<lparr>op_env = dc_env D, op_writeFile = dc_writeFile D, op_appServer = dc_appServer D,
      op_executor = map_option (\<lambda>v. nat (normalizeMaxConcurrency v)) (dc_executor D),
      op_canStart = executor_ready, op_resumeCapabilityVerified = dc_resumeCapabilityVerified D,
      op_validateProfile = dc_validateProfile D, op_rotationThreshold = dc_rotationThreshold D,
      op_timeoutMs = fst (dc_timeouts D), op_spawnTimeoutMs = fst (snd (dc_timeouts D)),
      op_inactivityTimeoutMs = snd (snd (dc_timeouts D)), op_threads = Some (daemon_threads (dc_env D)),
      op_prepareRotation = Some (\<lambda>prompt t. service (dc_prepareContext D prompt t)),
      op_recordContext = (\<lambda>i items. service (dc_recordContext D i items)),
      op_onRunTerminal = on_run_terminal D, op_cancelApprovals = cancel_approvals,
      op_limitText = dc_limitText D, op_rotatedText = dc_rotatedText D,
      op_contextText = dc_contextText D\<rparr>"

section \<open>The contracts\<close>

lemma quiet_thread_statements [quiet_rules]:
  "quiet (setThreadCodexId i c)"
  unfolding setThreadCodexId_def by (intro quiet_rules)

lemma quiet_repairLoop: "quiet (repairLoop cs acc)"
proof (induction cs acc rule: repairLoop.induct)
  case (2 i codex rest repaired)
  then show ?case unfolding repairLoop.simps by (intro quiet_rules)
qed (simp add: quiet_ret)

lemma quiet_daemon_threads: "quiet_threads (daemon_threads E)"
proof
  fix check i
  assume "ta_assertRunnableThread (daemon_threads E) = Some check"
  then show "quiet (check i)"
    by (auto simp: daemon_threads_def assertRunnableThread_def readThread_def intro!: quiet_rules split: option.splits)
qed (auto simp: daemon_threads_def setCodexThreadId_def repairCodexThreadBindings_def
      intro!: quiet_rules quiet_repairLoop)

lemma quiet_service [quiet_rules]: "quiet (service f)"
  unfolding service_def by (intro quiet_rules)

lemma quiet_on_run_terminal: "quiet (on_run_terminal D i)"
  unfolding on_run_terminal_def
  by (intro quiet_rules quiet_modify) (simp add: same_memory_def active_view_def revoke_run_def)

lemma quiet_cancel_approvals: "quiet (cancel_approvals i reason)"
  by (auto simp: quiet_def cancel_approvals_def Let_def same_memory_def active_view_def split: prod.splits sum.splits)

interpretation daemon: run_callbacks "daemon_options D" for D :: "'fs daemon_config"
  by (rule run_callbacks.intro)
     (auto simp: daemon_options_def quiet_daemon_threads quiet_on_run_terminal quiet_cancel_approvals quiet_service)

text \<open>A property of the two stores around the manager is one of its surroundings.\<close>

definition around :: "(cap_store \<Rightarrow> approval_state \<Rightarrow> bool) \<Rightarrow> 'fs daemon_state \<Rightarrow> bool" where
  "around p s \<longleftrightarrow> p (dm_caps s) (dm_approvals s)"

lemma more_stores:
  "run_state.more s' = run_state.more s \<Longrightarrow> dm_caps s' = dm_caps s \<and> dm_approvals s' = dm_approvals s"
  for s s' :: "'fs daemon_state"
  by (cases s; cases s') simp

lemma around_outside: "outside_property (around p)"
  by (rule outside_property.intro) (auto simp: around_def outside_same_def dest: more_stores)

context outside_property begin

lemma more_service: "keeps P (service f)"
  unfolding service_def by (intro more_rules)

lemma more_thread_functions:
  "keeps P (assertRunnableThread E i)" "keeps P (setCodexThreadId i c)" "keeps P repairCodexThreadBindings"
proof -
  have loop: "keeps P (repairLoop cs acc)" for cs acc
  proof (induction cs acc rule: repairLoop.induct)
    case (2 i codex rest repaired)
    then show ?case unfolding repairLoop.simps by (intro more_rules)
  qed (simp add: keeps_ret)
  show "keeps P (assertRunnableThread E i)" "keeps P (setCodexThreadId i c)" "keeps P repairCodexThreadBindings"
    unfolding assertRunnableThread_def setCodexThreadId_def repairCodexThreadBindings_def readThread_def
    by (intro more_rules loop)+
qed

end

text \<open>A property is kept by the callbacks of the daemon if revoking and canceling keep it.\<close>

lemma daemon_callbacks:
  assumes "outside_property P" and "\<And>i s. P s \<Longrightarrow> P (revoke_run i s)" and "\<And>i reason. keeps P (cancel_approvals i reason)"
  shows "callbacks_keep P (daemon_options D)"
proof -
  note service = outside_property.more_service [OF assms(1)]
    and threads = outside_property.more_thread_functions [OF assms(1)]
  have "keeps P (on_run_terminal D i)" for i
    unfolding on_run_terminal_def by (intro more_rules service keeps_modify assms(2))
  then show ?thesis
    by (intro callbacks_keep.intro callbacks_keep_axioms.intro assms(1))
       (auto simp: daemon_options_def daemon_threads_def threads service assms(3))
qed

text \<open>What revoking and canceling keep\<close>

definition stores_keep :: "(cap_store \<Rightarrow> approval_state \<Rightarrow> bool) \<Rightarrow> bool" where
  "stores_keep p \<longleftrightarrow>
     (\<forall>i c a. p c a \<longrightarrow> p (snd (revokeRun i c)) a) \<and>
     (\<forall>i reason clk c a. p c a \<longrightarrow> p c (snd (Approvals.cancelRun i reason clk a)))"

lemma stores_callbacks:
  assumes "stores_keep p"
  shows "callbacks_keep (around p) (daemon_options D)"
proof (rule daemon_callbacks [OF around_outside])
  show "around p s \<Longrightarrow> around p (revoke_run i s)" for i s
    using assms by (simp add: around_def stores_keep_def revoke_run_def)
  show "keeps (around p) (cancel_approvals i reason)" for i reason
    using assms by (auto simp: around_def keeps_def cancel_approvals_def Let_def stores_keep_def
      split: prod.splits sum.splits dest!: arg_cong [of _ _ snd])
qed

definition stores_ok :: "cap_store \<Rightarrow> approval_state \<Rightarrow> bool" where
  "stores_ok c a \<longleftrightarrow> cap_inv c \<and> ap_inv a"

definition ended :: "run_id \<Rightarrow> cap_store \<Rightarrow> approval_state \<Rightarrow> bool" where
  "ended i c a \<longleftrightarrow> cap_inv c \<and> (\<forall>d. \<not> CapabilityTokens.live c d i)"

interpretation stores: callbacks_keep "around stores_ok" "daemon_options D" for D :: "'fs daemon_config"
  by (rule stores_callbacks) (simp add: stores_keep_def stores_ok_def cap_inv_revokeRun ap_inv_cancelRun)

lemma revokeRun_ended:
  "cap_inv c \<Longrightarrow> \<not> CapabilityTokens.live (snd (revokeRun i c)) d i"
  "cap_inv c \<Longrightarrow> \<not> CapabilityTokens.live c d i \<Longrightarrow> \<not> CapabilityTokens.live (snd (revokeRun j c)) d i"
  using revokeRun_live(1) [OF _ prod.collapse [symmetric], of c] by blast+

interpretation ended: callbacks_keep "around (ended i)" "daemon_options D" for i and D :: "'fs daemon_config"
  by (rule stores_callbacks) (auto simp: stores_keep_def ended_def cap_inv_revokeRun dest: revokeRun_ended)

text \<open>What the executor answers does not change while runs are launched.\<close>

lemma executor_outside: "outside_property (\<lambda>s :: 'fs daemon_state. dm_executor s = x)"
proof (rule outside_property.intro)
  fix s s' :: "'fs daemon_state"
  assume "dm_executor s = x" and "outside_same s s'"
  then show "dm_executor s' = x" by (cases s; cases s') (simp add: outside_same_def)
qed simp

interpretation executor: callbacks_keep "\<lambda>s :: 'fs daemon_state. dm_executor s = x" "daemon_options D"
  for x and D :: "'fs daemon_config"
proof (rule daemon_callbacks [OF executor_outside])
  show "dm_executor s = x \<Longrightarrow> dm_executor (revoke_run i s) = x" for i and s :: "'fs daemon_state"
    by (simp add: revoke_run_def)
  show "keeps (\<lambda>s :: 'fs daemon_state. dm_executor s = x) (cancel_approvals i reason)" for i reason
    by (auto simp: keeps_def cancel_approvals_def Let_def split: prod.splits sum.splits)
qed

lemma daemon_canStart [simp]: "op_canStart (daemon_options D) = executor_ready"
  by (simp add: daemon_options_def)

lemma executor_ready_same: "dm_executor s' = dm_executor s \<Longrightarrow> executor_ready t s' = executor_ready t s"
  by (simp add: executor_ready_def)

lemma daemon_drained:
  fixes s :: "'fs daemon_state"
  assumes "finish_run (daemon_options D) i a f s = (Inr (), s')"
  shows "next_persistent (daemon_options D) s' = None"
proof (rule daemon.finish_run_drained [OF _ _ _ assms])
  fix q t c x y and s s' :: "'fs daemon_state"
  show "op_canStart (daemon_options D) t s' = op_canStart (daemon_options D) t s"
    if "try_launch (daemon_options D) q s = (x, s')"
    unfolding daemon_canStart
    by (rule executor_ready_same) (rule keeps_result [OF executor.more_try_launch refl that])
  show "op_canStart (daemon_options D) t s' = op_canStart (daemon_options D) t s"
    if "resolveRunCompletion c s = (y, s')"
    unfolding daemon_canStart
    by (rule executor_ready_same) (rule keeps_result [OF executor.more_memory(2) refl that])
next
  fix t u q and s s' :: "'fs daemon_state"
  assume "next_of_thread t s = Some (q, s')"
  then have "dm_executor s' = dm_executor s"
    by (auto simp: next_of_thread_def split: option.splits list.splits if_splits)
  then show "op_canStart (daemon_options D) u s' = op_canStart (daemon_options D) u s"
    unfolding daemon_canStart by (rule executor_ready_same)
qed

section \<open>Properties\<close>

text \<open>
  C1. Whatever happens to the run manager, errors included, no run is in two places: it is active
  once, or it waits once, in the queue of the executor or in the queue of one thread; and no two
  active runs belong to the same thread.
\<close>

theorem runs_in_one_place:
  assumes "run_history (daemon_options D) c s"
  shows "distinct (map fst (rm_active s) @ map qr_id (rm_persistentQueue s) @
      concat (map (\<lambda>(t, queue). map qr_id queue) (rm_threadQueues s))) \<and>
    (\<forall>i j a b t. map_of (rm_active s) i = Some a \<longrightarrow> map_of (rm_active s) j = Some b \<longrightarrow>
       rb_threadId (ar_input a) = Some t \<longrightarrow> rb_threadId (ar_input b) = Some t \<longrightarrow> i = j)"
proof
  let ?all = "map fst (rm_active s) @ map qr_id (rm_persistentQueue s) @
      concat (map (\<lambda>(t, queue). map qr_id queue) (rm_threadQueues s))"
  have "mset (concat (map (\<lambda>(t, queue). map qr_id queue) m)) = thread_ids m" for m
    by (induction m) (auto simp: queue_ids_def)
  then have "mset ?all = RunInvariants.live s"
    by (simp add: RunInvariants.live_def queue_ids_def active_view_def case_prod_beta o_def)
  moreover have "count (RunInvariants.live s) i \<le> 1" for i
    using daemon.history_sound [OF assms] by (simp add: sound_def base_def one_place_def)
  ultimately show "distinct ?all" by (intro count_distinct) simp
next
  show "\<forall>i j a b t. map_of (rm_active s) i = Some a \<longrightarrow> map_of (rm_active s) j = Some b \<longrightarrow>
       rb_threadId (ar_input a) = Some t \<longrightarrow> rb_threadId (ar_input b) = Some t \<longrightarrow> i = j"
    using daemon.one_run_per_thread [OF assms] by blast
qed

text \<open>
  C9. The executor's limit holds at all times: with an executor, at most \<^verbatim>\<open>maxConcurrency\<close> of the
  active runs are its runs, and never more than 10; without one, none is.
\<close>

theorem executor_limit:
  assumes "run_history (daemon_options D) c s"
  shows "length (filter (\<lambda>(i, a). ar_persistent a) (rm_active s)) \<le>
      (case dc_executor D of None \<Rightarrow> 0 | Some v \<Rightarrow> nat (normalizeMaxConcurrency v)) \<and>
    length (filter (\<lambda>(i, a). ar_persistent a) (rm_active s)) \<le> 10"
proof -
  have "places (daemon_options D) = (case dc_executor D of None \<Rightarrow> 0 | Some v \<Rightarrow> nat (normalizeMaxConcurrency v))"
    by (simp add: places_def daemon_options_def split: option.splits)
  moreover have "(case dc_executor D of None \<Rightarrow> 0 | Some v \<Rightarrow> nat (normalizeMaxConcurrency v)) \<le> 10"
    using normalizeMax_range by (auto simp: nat_le_iff split: option.splits)
  ultimately show ?thesis using daemon.executor_bound [OF assms] by simp
qed

text \<open>
  C2. A run that ends hands its thread and its place over. In a history in which nothing has raised, let
  the last handler of a run return. Then the run is no longer active; if runs still wait in the queue of
  its thread then the manager is closing or another run of the thread is active already; and if a run
  still waits in the queue of the executor then the manager is closing, the executor has all the runs
  that it may have, another run of the waiting run's thread is active, or the executor does not take the
  thread.
\<close>

theorem ended_run_hands_over:
  assumes "run_history (daemon_options D) True s" and "map_of (rm_active s) i = Some a"
    and "ar_finishing a = Some f" and "finish_run (daemon_options D) i a f s = (Inr (), s')"
    and "rb_threadId (ar_input a) = Some t"
  shows "map_of (rm_active s') i = None \<and>
    (map_of (rm_threadQueues s') t = None \<or> rm_closing s' \<or>
     (\<exists>j b. j \<noteq> i \<and> map_of (rm_runningThread s') t = Some j \<and> map_of (rm_active s') j = Some b \<and>
        rb_threadId (ar_input b) = Some t)) \<and>
    (\<forall>v q u. dc_executor D = Some v \<longrightarrow> q \<in> set (rm_persistentQueue s') \<longrightarrow> rb_threadId (qr_input q) = Some u \<longrightarrow>
       rm_closing s' \<or>
       nat (normalizeMaxConcurrency v) \<le> length (filter (\<lambda>(j, b). ar_persistent b) (rm_active s')) \<or>
       (\<exists>j b. map_of (rm_active s') j = Some b \<and> rb_threadId (ar_input b) = Some u) \<or> \<not> executor_ready u s')"
proof -
  have history: "run_history (daemon_options D) True s'" by (rule daemon.finish_run_history [OF assms(1-4)])
  have "rm_closing s' \<or> nat (normalizeMaxConcurrency v) \<le> length (filter (\<lambda>(j, b). ar_persistent b) (rm_active s')) \<or>
       (\<exists>j b. map_of (rm_active s') j = Some b \<and> rb_threadId (ar_input b) = Some u) \<or> \<not> executor_ready u s'"
    if "dc_executor D = Some v" and "q \<in> set (rm_persistentQueue s')" and "rb_threadId (qr_input q) = Some u" for v q u
  proof -
    have "op_executor (daemon_options D) = Some (nat (normalizeMaxConcurrency v))"
      by (simp add: daemon_options_def that(1))
    from daemon.executor_waits [OF history daemon_drained [OF assms(4)] this _ that(2,3)]
    show ?thesis unfolding daemon_canStart by blast
  qed
  then show ?thesis using daemon.finish_run_hands_over [OF assms] by blast
qed

text \<open>
  C11. The launching functions end. Of each of the four that call each other, every call has exactly one
  result by the rules of the evaluation relation, which have no stack and no error of an exhausted one:
  the result that the model computes with the depth that \<open>stack_for\<close> reads off the queues, or with any
  larger one. So no sequence of refused and launched runs goes on for ever.
\<close>

theorem launching_terminates:
  fixes s :: "'fs daemon_state"
  shows "(\<forall>x. start_yields (daemon_options D) q s x \<longleftrightarrow> x = startExistingRun (stack_for s + n) (daemon_options D) q s) \<and>
    (\<forall>x. complete_yields (daemon_options D) t i s x \<longleftrightarrow> x = completeThreadRun (stack_for s + n) (daemon_options D) t i s) \<and>
    (\<forall>x. persistent_yields (daemon_options D) s x \<longleftrightarrow> x = startNextPersistentRuns (stack_for s + n) (daemon_options D) s) \<and>
    (\<forall>x. thread_yields (daemon_options D) u s x \<longleftrightarrow> x = startNextQueuedThreadRun (stack_for s + n) (daemon_options D) u s)"
proof (intro conjI allI)
  fix x and y
  show "start_yields (daemon_options D) q s x \<longleftrightarrow> x = startExistingRun (stack_for s + n) (daemon_options D) q s"
    by (rule daemon.yields_computed(1))
  show "complete_yields (daemon_options D) t i s y \<longleftrightarrow> y = completeThreadRun (stack_for s + n) (daemon_options D) t i s"
    by (rule daemon.yields_computed(2))
  show "persistent_yields (daemon_options D) s y \<longleftrightarrow> y = startNextPersistentRuns (stack_for s + n) (daemon_options D) s"
    by (rule daemon.yields_computed(3))
  show "thread_yields (daemon_options D) u s y \<longleftrightarrow> y = startNextQueuedThreadRun (stack_for s + n) (daemon_options D) u s"
    by (rule daemon.yields_computed(4))
qed

text \<open>
  C7. The end of a run ends its tokens: when the last handler of a run returns, no capability token
  of the run is left, and no token shows a grant of it, whatever runs were started in its place.
\<close>

theorem ended_run_loses_tokens:
  fixes s :: "'fs daemon_state"
  assumes "cap_reach dg (dm_caps s)" and "finish_run (daemon_options D) i a f s = (Inr (), s')"
  shows "(\<forall>d. \<not> CapabilityTokens.live (dm_caps s') d i) \<and>
    (\<forall>dg' now tok g c. inspect dg' now tok (dm_caps s') = (Inr g, c) \<longrightarrow> g_runId g \<noteq> i)"
proof -
  let ?R = "daemon_options D"
  obtain n s1 s2 s3 s4 where s1: "write_file ?R (ar_runDir a) ''diagnostics.json'' s = (Inr (), s1)"
    and s2: "date_now s1 = (Inr n, s2)"
    and s3: "updateRunStatus i ((run_status (fi_status f) (internal_of (fi_status f)))
        \<lparr>us_terminationReason := Some (fi_reason f), us_exitCode := fi_exitCode f,
         us_signal := fi_signal f, us_errorCode := fi_errorCode f,
         us_errorMessage := fi_errorMessage f, us_endedAt := Some n\<rparr>) s2 = (Inr (), s3)"
    and s4: "notifyRunTerminal ?R i s3 = (Inr (), s4)"
    and rest: "thenE (modify (\<lambda>s. s\<lparr>rm_active := map_del i (rm_active s)\<rparr>))
      (thenE (whenE (rb_threadId (ar_input a) \<noteq> None) (setRunQueueState i QNone))
      (thenE (with_stack (\<lambda>n. completeThreadRun n ?R (rb_threadId (ar_input a)) i))
        (resolveRunCompletion (created_run_of i (ar_input a) (fi_status f))))) s4 = (Inr (), s')"
    using assms(2) unfolding finish_run_def bindE_Inr thenE_Inr by blast
  have ok: "around (\<lambda>c a. cap_inv c) s" by (simp add: around_def reach_inv [OF assms(1)])
  note same = outside_property.more_statements [OF around_outside [of "\<lambda>c a. cap_inv c"]]
    outside_property.more_io [OF around_outside [of "\<lambda>c a. cap_inv c"]]
  have "around (\<lambda>c a. cap_inv c) s1" by (rule keeps_result [OF same(7) ok s1])
  then have "around (\<lambda>c a. cap_inv c) s2" by (rule keeps_result [OF same(12) _ s2])
  then have "around (\<lambda>c a. cap_inv c) s3" by (rule keeps_result [OF same(2) _ s3])
  then have "cap_inv (dm_caps s3)" by (simp add: around_def)
  moreover have "dm_caps s4 = snd (revokeRun i (dm_caps s3))"
    using s4 by (auto simp: notifyRunTerminal_def swallow_def daemon_options_def on_run_terminal_def service_def
      run_simps revoke_run_def split: sum.splits)
  ultimately have "around (ended i) s4"
    by (auto simp: around_def ended_def cap_inv_revokeRun revokeRun_ended)
  then have "around (ended i) s'" by (rule keeps_result [OF ended.more_after_terminal _ rest])
  then have "ended i (dm_caps s') (dm_approvals s')" by (simp add: around_def)
  then show ?thesis using inspect_live unfolding ended_def by blast
qed

section \<open>Witnesses\<close>

definition sample_config :: "string list daemon_config" where
  "sample_config =
     \<lparr>dc_env = sample_env, dc_writeFile = (\<lambda>_ fs. Inr fs), dc_appServer = False, dc_executor = Some (Some 3),
      dc_resumeCapabilityVerified = True, dc_validateProfile = (\<lambda>_. None), dc_rotationThreshold = None,
      dc_timeouts = (None, None, None), dc_prepareContext = (\<lambda>p _ _. Inr (p, [])),
      dc_recordContext = (\<lambda>_ _ _. Inr ()), dc_enqueueRunTerminal = (\<lambda>_ _. Inr ()),
      dc_limitText = (\<lambda>_. []), dc_rotatedText = [], dc_contextText = []\<rparr>"

definition sample_options where
  "sample_options = daemon_options sample_config"

definition sample_daemon :: "string list daemon_state" where
  "sample_daemon =
     rt.extend (sample_rt (empty_db\<lparr>db_projects := [sample_project ''a'' 0],
         db_threads := [sample_thread ''t3'' None (Some ''a'')]\<rparr>))
       \<lparr>rm_active = [], rm_resolvers = [], rm_resolved = [], rm_threadQueues = [], rm_persistentQueue = [],
        rm_runningThread = [], rm_runningPersistent = [], rm_submissions = 0, rm_closing = False,
        rm_cancelSignals = [], rm_published = [], rm_canceling = [], dm_caps = ex_store,
        dm_approvals = ex_approvals, dm_executor = Some (PoolExecutor sample_pool),
        dm_timers = \<lparr>tm_started = True, tm_timer = None, tm_queueTimer = False\<rparr>\<rparr>"

text \<open>The life of one run, from the start of the manager to the end of the run\<close>

definition sample_ends :: "string list daemon_state \<Rightarrow> active_run \<Rightarrow> bool" where
  "sample_ends s b =
     (case ar_finishing b of
        None \<Rightarrow> False | Some f \<Rightarrow> fst (finish_run sample_options ''run_'' b f s) = Inr ())"

definition sample_reports :: "string list daemon_state \<Rightarrow> active_run \<Rightarrow> bool" where
  "sample_reports s a =
     (case process_report sample_options ''run_'' a (ExecExit (sample_exit 1)) 0 s of
        (Inl _, _) \<Rightarrow> False
      | (Inr _, s2) \<Rightarrow>
          (case map_of (rm_active s2) ''run_'' of
             None \<Rightarrow> False | Some b \<Rightarrow> rb_threadId (ar_input b) = Some ''t3'' \<and> sample_ends s2 b))"

definition sample_starts :: "string list daemon_state \<Rightarrow> bool" where
  "sample_starts s =
     (case startRun sample_options (sample_request (Some ''t3'') run_creator.ByApi) s of
        (Inl _, _) \<Rightarrow> False
      | (Inr _, s1) \<Rightarrow>
          (case map_of (rm_active s1) ''run_'' of
             None \<Rightarrow> False | Some a \<Rightarrow> ar_finishing a = None \<and> sample_reports s1 a))"

lemma sample_life:
  "case createRunManager sample_options sample_daemon of (Inl _, _) \<Rightarrow> False | (Inr _, s0) \<Rightarrow> sample_starts s0"
  by code_simp

lemma sample_history:
  obtains s1 a s2 b f s3 where "run_history sample_options True s1" and "map_of (rm_active s1) ''run_'' = Some a"
    and "run_history sample_options True s2" and "map_of (rm_active s2) ''run_'' = Some b"
    and "ar_finishing b = Some f" and "rb_threadId (ar_input b) = Some ''t3''"
    and "finish_run sample_options ''run_'' b f s2 = (Inr (), s3)"
proof -
  obtain s0 where s0: "createRunManager sample_options sample_daemon = (Inr (), s0)" and "sample_starts s0"
    using sample_life by (auto split: prod.splits sum.splits)
  then obtain c s1 a where s1: "startRun sample_options (sample_request (Some ''t3'') run_creator.ByApi) s0 = (Inr c, s1)"
    and a: "map_of (rm_active s1) ''run_'' = Some a" "ar_finishing a = None" and "sample_reports s1 a"
    by (auto simp: sample_starts_def split: prod.splits sum.splits option.splits)
  then obtain s2 b where s2: "process_report sample_options ''run_'' a (ExecExit (sample_exit 1)) 0 s1 = (Inr (), s2)"
    and b: "map_of (rm_active s2) ''run_'' = Some b" "rb_threadId (ar_input b) = Some ''t3''" and "sample_ends s2 b"
    by (auto simp: sample_reports_def split: prod.splits sum.splits option.splits)
  then obtain f s3 where f: "ar_finishing b = Some f" "finish_run sample_options ''run_'' b f s2 = (Inr (), s3)"
    by (auto simp: sample_ends_def split: option.splits) (metis prod.collapse)
  have "fresh_manager sample_daemon" "inj (rt_ids sample_daemon)"
    by (auto simp: fresh_manager_def sample_daemon_def sample_rt_def rt.defs inj_on_def dest: arg_cong [of _ _ length])
  then have "run_history sample_options True s0" using s0 by (rule history_start)
  then have h1: "run_history sample_options (True \<and> error_of (Inr c) = None) s1"
    by (rule history_step) (rule step_start [OF s1])
  then have h2: "run_history sample_options ((True \<and> error_of (Inr c) = None) \<and> error_of (Inr ()) = (None :: err option)) s2"
    by (rule history_step) (rule step_report [OF a s2])
  show ?thesis using that [OF _ a(1) _ b(1) f(1) b(2) f(2)] h1 h2 by simp
qed

lemma runs_in_one_place_witness:
  "\<exists>s :: string list daemon_state. map_of (rm_active s) ''run_'' \<noteq> None \<and> distinct (map fst (rm_active s))"
proof -
  obtain s1 :: "string list daemon_state" and a where "run_history sample_options True s1"
    and "map_of (rm_active s1) ''run_'' = Some a"
    by (rule sample_history)
  moreover from this have "distinct (map fst (rm_active s1))"
    using runs_in_one_place [of sample_config True s1] by (simp add: sample_options_def)
  ultimately show ?thesis by (intro exI [of _ s1]) simp
qed

lemma executor_limit_witness:
  "\<exists>s :: string list daemon_state. map_of (rm_active s) ''run_'' \<noteq> None \<and>
     length (filter (\<lambda>(i, a). ar_persistent a) (rm_active s)) \<le> 3"
proof -
  have "nat (normalizeMaxConcurrency (Some 3)) = 3" by code_simp
  moreover obtain s1 :: "string list daemon_state" and a where "run_history sample_options True s1"
    and "map_of (rm_active s1) ''run_'' = Some a"
    by (rule sample_history)
  ultimately show ?thesis
    using executor_limit [of sample_config True s1] by (auto simp: sample_options_def sample_config_def)
qed

lemma ended_run_hands_over_witness:
  "\<exists>(s :: string list daemon_state) b f s'. finish_run sample_options ''run_'' b f s = (Inr (), s') \<and>
     map_of (rm_active s) ''run_'' = Some b \<and> map_of (rm_active s') ''run_'' = None"
proof -
  obtain s2 :: "string list daemon_state" and b f s3 where "run_history sample_options True s2"
    and "map_of (rm_active s2) ''run_'' = Some b" "ar_finishing b = Some f" "rb_threadId (ar_input b) = Some ''t3''"
    and "finish_run sample_options ''run_'' b f s2 = (Inr (), s3)"
    by (rule sample_history)
  then show ?thesis using ended_run_hands_over [of sample_config s2 "''run_''"] unfolding sample_options_def by blast
qed

lemma ended_run_loses_tokens_witness:
  "CapabilityTokens.live (dm_caps sample_daemon) ''clwcap_a'' ''r'' \<and>
   (\<exists>a f s'. finish_run sample_options ''r'' a f sample_daemon = (Inr (), s') \<and>
      \<not> CapabilityTokens.live (dm_caps s') ''clwcap_a'' ''r'')"
proof -
  let ?a = "sample_active (Some ''t3'') run_creator.ByApi NewThread"
  let ?f = "\<lparr>fi_status = PSucceeded, fi_reason = TCompleted, fi_exitCode = None, fi_signal = None,
    fi_errorCode = None, fi_errorMessage = None, fi_notices = []\<rparr>"
  have caps: "dm_caps sample_daemon = ex_store" by (simp add: sample_daemon_def rt.defs)
  have "fst (finish_run sample_options ''r'' ?a ?f sample_daemon) = Inr ()" by code_simp
  then obtain s' where "finish_run sample_options ''r'' ?a ?f sample_daemon = (Inr (), s')" by (metis prod.collapse)
  moreover have "cap_reach id (dm_caps sample_daemon)" unfolding caps by (rule ex_store_reach)
  ultimately have "\<exists>a f s'. finish_run sample_options ''r'' a f sample_daemon = (Inr (), s') \<and>
      \<not> CapabilityTokens.live (dm_caps s') ''clwcap_a'' ''r''"
    using ended_run_loses_tokens unfolding sample_options_def by blast
  moreover have "CapabilityTokens.live (dm_caps sample_daemon) ''clwcap_a'' ''r''"
    unfolding caps by code_simp
  ultimately show ?thesis by blast
qed

end
