(* ===== verification/ScheduleRefinement.thy ===== *)
theory ScheduleRefinement
  imports ScheduleService
begin

text \<open>
  The scheduler service refines an abstract scheduler. The abstract state (\<open>view\<close>) has the schedules
  without the times of their last change, and the log of their operations. What becomes of a trigger
  is an \<open>outcome\<close>, computed by \<open>decide\<close>, with its effect on the row of the schedule (\<open>after\<close>) and the
  entries it logs (\<open>logged\<close>); a pass of a timer is a sequence of these steps (\<open>due_pass\<close>, \<open>pending_pass\<close>).

  \<^item> \<open>moves i f l s s'\<close>: the code goes from \<open>s\<close> to \<open>s'\<close>, the abstract scheduler changes schedule \<open>i\<close> by
    \<open>f\<close> and logs \<open>l\<close>.
  \<^item> The locale \<open>schedule_runs\<close> states what the service relies on: starting a run and setting a timer
    do not touch the tables of the scheduler.
\<close>

section \<open>The abstract view\<close>

text \<open>
  A schedule without the time of its last change, and the log of operations without ids, times,
  actors and error texts
\<close>

definition erase :: "schedule_row \<Rightarrow> schedule_row" where
  "erase r = r\<lparr>sc_updatedAt := 0\<rparr>"

definition plan :: "db \<Rightarrow> string \<Rightarrow> schedule_row option" where
  "plan d i = map_option erase (getById i d)"

type_synonym entry = "schedule_operation \<times> operation_status \<times> run_id option"

definition op_log :: "db \<Rightarrow> (string \<times> entry) list" where
  "op_log d = map (\<lambda>so. (so_scheduleId so, so_operation so, so_status so, so_runId so)) (db_operations d)"

text \<open>What becomes of a trigger; \<open>Started\<close> names the run and its status.\<close>

datatype outcome =
    CronFailed err | Misfired | Unbound | SkippedBusy | QueuedBusy | StartFailed err
  | Started run_id public_status

fun after :: "ms \<Rightarrow> outcome \<Rightarrow> schedule_row \<Rightarrow> schedule_row" where
  "after now Misfired r = r\<lparr>sc_lastStatus := Some LsSkipped\<rparr>"
| "after now SkippedBusy r = r\<lparr>sc_lastStatus := Some LsSkipped\<rparr>"
| "after now QueuedBusy r = r\<lparr>sc_lastStatus := Some (LsRun PQueued), sc_pendingTrigger := True\<rparr>"
| "after now (Started i st) r =
     r\<lparr>sc_lastRunAt := Some now, sc_lastRunId := Some i, sc_lastStatus := Some (LsRun st),
       sc_pendingTrigger := False\<rparr>"
| "after now _ r = r"

fun logged :: "trigger \<Rightarrow> outcome \<Rightarrow> entry list" where
  "logged tr (CronFailed e) = (if is_scheduler_error e then [] else [(trigger_operation tr, OsFailed, None)])"
| "logged tr Misfired = [(OpSkipMisfire, OsSkipped, None)]"
| "logged tr Unbound = []"
| "logged tr SkippedBusy = [(OpSkipConcurrency, OsSkipped, None)]"
| "logged tr QueuedBusy = [(OpQueueTrigger, OsQueued, None)]"
| "logged tr (StartFailed e) = [(trigger_operation tr, OsFailed, None)]"
| "logged tr (Started i st) = [(trigger_operation tr, OsSucceeded, Some i)]"

text \<open>The decision for a bound schedule, in the state in which it is made\<close>

definition decide ::
  "('fs, 'x) scheduler \<Rightarrow> schedule_row \<Rightarrow> trigger \<Rightarrow> ms \<Rightarrow> ('fs, 'x) rt_scheme \<Rightarrow> outcome" where
  "decide S r tr now s =
     (case sc_threadId r of
        None \<Rightarrow> Unbound
      | Some t \<Rightarrow>
          if tr \<noteq> RunQueued \<and> ss_hasActive S t s then
            (if sc_concurrencyPolicy r = CpSkip then SkippedBusy else QueuedBusy)
          else (case fst (ss_startRun S (run_request S r t now) s) of
                  Inl e \<Rightarrow> StartFailed e
                | Inr run \<Rightarrow> Started (cn_id run) (cn_status run)))"

text \<open>The decision of the timer: the time of the next trigger, if the expression gives one, and the outcome\<close>

definition decide_due ::
  "('fs, 'x) scheduler \<Rightarrow> ms \<Rightarrow> schedule_row \<Rightarrow> ('fs, 'x) rt_scheme \<Rightarrow> ms option \<times> outcome" where
  "decide_due S now r s =
     (case computeNextRunAt (ss_env S) (sc_cron r) (sc_timezone r) now of
        Inl e \<Rightarrow> (None, CronFailed e)
      | Inr next \<Rightarrow>
          (Some next,
           if now - the (sc_nextRunAt r) > triggerGraceMs S then Misfired
           else decide S r TimerTrigger now
             (snd (updateSchedule (sc_id r) (no_update\<lparr>su_nextRunAt := Some (Some next)\<rparr>) s))))"

fun after_due :: "ms \<Rightarrow> ms option \<times> outcome \<Rightarrow> schedule_row \<Rightarrow> schedule_row" where
  "after_due now (None, out) r = after now out r"
| "after_due now (Some next, out) r = after now out (r\<lparr>sc_nextRunAt := Some next\<rparr>)"

text \<open>The abstract step: schedule \<open>i\<close> changes by \<open>f\<close>, and \<open>l\<close> is logged.\<close>

definition abstract_step ::
  "string \<Rightarrow> (schedule_row \<Rightarrow> schedule_row) \<Rightarrow> entry list \<Rightarrow>
   (string \<Rightarrow> schedule_row option) \<times> (string \<times> entry) list \<Rightarrow>
   (string \<Rightarrow> schedule_row option) \<times> (string \<times> entry) list" where
  "abstract_step i f l = (\<lambda>(p, l0). (p(i := map_option f (p i)), l0 @ map (Pair i) l))"

definition view :: "db \<Rightarrow> (string \<Rightarrow> schedule_row option) \<times> (string \<times> entry) list" where
  "view d = (plan d, op_log d)"

section \<open>The statements on the view\<close>

text \<open>The constraints hold, and \<^verbatim>\<open>nanoid\<close> gives ids that no operation has.\<close>

definition ids_ok :: "('fs, 'x) rt_scheme \<Rightarrow> bool" where
  "ids_ok s \<longleftrightarrow> inj (rt_ids s) \<and>
     (\<forall>n \<ge> rt_nextId s. ''schop_'' @ rt_ids s n \<notin> so_id ` set (db_operations (rt_db s)))"

abbreviation ready_state :: "('fs, 'x) rt_scheme \<Rightarrow> bool" where
  "ready_state s \<equiv> ok_state s \<and> ids_ok s"

definition schedule_frame :: "('fs, 'x) rt_scheme \<Rightarrow> ('fs, 'x) rt_scheme \<Rightarrow> bool" where
  "schedule_frame s s' \<longleftrightarrow>
     db_schedules (rt_db s') = db_schedules (rt_db s) \<and> db_operations (rt_db s') = db_operations (rt_db s) \<and>
     rt_ids s' = rt_ids s \<and> rt_nextId s \<le> rt_nextId s' \<and> (ok_state s \<longrightarrow> ok_state s')"

text \<open>\<open>moves i f l s s'\<close>: from a ready state \<open>s\<close>, the abstract step leads to the ready state \<open>s'\<close>.\<close>

definition moves where
  "moves i f l s s' \<longleftrightarrow>
     (ready_state s \<longrightarrow> ready_state s') \<and> view (rt_db s') = abstract_step i f l (view (rt_db s))"

lemma getById_view: "map_option erase (getById i d) = plan d i"
  by (simp add: plan_def)

lemma moves_trans: "moves i f l s s1 \<Longrightarrow> moves i g l' s1 s2 \<Longrightarrow> moves i (g \<circ> f) (l @ l') s s2"
  by (auto simp: moves_def abstract_step_def view_def option.map_comp)

lemma moves_frame: "schedule_frame s s' \<Longrightarrow> moves i id [] s s'"
  by (auto simp: moves_def abstract_step_def view_def schedule_frame_def ids_ok_def plan_def op_log_def getById_def
      option.map_id)

lemma frame_trans: "schedule_frame s s1 \<Longrightarrow> schedule_frame s1 s2 \<Longrightarrow> schedule_frame s s2"
  by (auto simp: schedule_frame_def)

lemma frame_refl [simp]: "schedule_frame s s"
  by (simp add: schedule_frame_def)

lemma erase_updateEntries [simp]: "erase ((updateEntries u r)\<lparr>sc_updatedAt := now\<rparr>) = updateEntries u (erase r)"
  by (simp add: erase_def updateEntries_def)

lemma getById_update:
  "getById j (update_schedules (\<lambda>r. sc_id r = i \<and> live r) (\<lambda>r. (updateEntries u r)\<lparr>sc_updatedAt := now\<rparr>) d) =
   map_option (\<lambda>r. if j = i then (updateEntries u r)\<lparr>sc_updatedAt := now\<rparr> else r) (getById j d)"
proof -
  let ?f = "\<lambda>r. (updateEntries u r)\<lparr>sc_updatedAt := now\<rparr>"
  have "first_where (\<lambda>r. sc_id r = j \<and> live r) (update_where (\<lambda>r. sc_id r = i \<and> live r) ?f (db_schedules d)) =
      map_option (\<lambda>r. if sc_id r = i \<and> live r then ?f r else r) (first_where (\<lambda>r. sc_id r = j \<and> live r) (db_schedules d))"
    by (rule first_where_update) simp
  also have "\<dots> = map_option (\<lambda>r. if j = i then ?f r else r) (first_where (\<lambda>r. sc_id r = j \<and> live r) (db_schedules d))"
    by (intro option.map_cong0) (auto dest: first_where_Some)
  finally show ?thesis by (simp add: getById_def update_schedules_def)
qed

lemma db_ok_update_schedules:
  assumes "db_ok d" and "\<And>r. sc_id (f r) = sc_id r \<and> sc_threadId (f r) = sc_threadId r \<and> sc_deletedAt (f r) = sc_deletedAt r"
  shows "db_ok (update_schedules p f d)"
proof -
  have "map sc_id (update_where p f t) = map sc_id t" "map sc_threadId (update_where p f t) = map sc_threadId t" for t
    using assms(2) by (simp_all add: map_update_where)
  moreover have "sc_id ` set (update_where p f t) = sc_id ` set t" for t
    using assms(2) by (metis (no_types, lifting) list.set_map map_update_where)
  moreover have "live_schedules (update_schedules p f d) = update_where p f (live_schedules d)"
    using assms(2) by (simp add: live_schedules_update)
  ultimately show ?thesis
    using assms(1) by (simp add: db_ok_iff) (simp add: update_schedules_def)
qed

text \<open>An update that does not touch the thread succeeds.\<close>

lemma updateSchedule_moves:
  assumes "ready_state s" and "getById i (rt_db s) = Some r" and "su_threadId u = None" and "u \<noteq> no_update"
  obtains r' s' where "updateSchedule i u s = (Inr (Some r'), s')" and "moves i (updateEntries u) [] s s'"
    and "getById i (rt_db s') = Some r'" and "erase r' = updateEntries u (erase r)" and "rt_ids s' = rt_ids s"
proof -
  let ?now = "rt_now s (rt_tick s)"
  let ?d = "update_schedules (\<lambda>r. sc_id r = i \<and> live r) (\<lambda>r. (updateEntries u r)\<lparr>sc_updatedAt := ?now\<rparr>) (rt_db s)"
  let ?s = "s\<lparr>rt_tick := Suc (rt_tick s), rt_db := ?d\<rparr>"
  have ok: "db_ok ?d"
    using assms by (intro db_ok_update_schedules) (auto simp: updateEntries_def given_def)
  have new: "getById i ?d = Some ((updateEntries u r)\<lparr>sc_updatedAt := ?now\<rparr>)"
    using assms(2) by (simp add: getById_update)
  have run: "updateSchedule i u s = (Inr (Some ((updateEntries u r)\<lparr>sc_updatedAt := ?now\<rparr>)), ?s)"
    using assms(4) ok new by (simp add: updateSchedule_def run_simps db_ok_def)
  have "plan ?d = (plan (rt_db s))(i := map_option (updateEntries u) (plan (rt_db s) i))"
    by (auto simp: plan_def getById_update option.map_comp comp_def fun_eq_iff)
  then have "moves i (updateEntries u) [] s ?s"
    using assms(1) ok by (simp add: moves_def view_def abstract_step_def ids_ok_def op_log_def)
      (simp add: update_schedules_def)
  then show ?thesis by (rule that [OF run _ _ erase_updateEntries]) (simp_all add: new)
qed

text \<open>An operation of a schedule that exists can be logged.\<close>

lemma insertOperation_moves:
  assumes "ready_state s" and "getById (oi_scheduleId q) (rt_db s) = Some r"
  obtains so s' where "insertOperation q who s = (Inr so, s')"
    and "moves (oi_scheduleId q) id [(oi_operation q, oi_status q, oi_runId q)] s s'"
    and "\<And>i. getById i (rt_db s') = getById i (rt_db s)"
proof -
  let ?i = "''schop_'' @ rt_ids s (rt_nextId s)"
  let ?row = "operation_row_of ?i (rt_now s (rt_tick s)) q who"
  let ?d = "rt_db s\<lparr>db_operations := db_operations (rt_db s) @ [?row]\<rparr>"
  let ?s = "s\<lparr>rt_nextId := Suc (rt_nextId s), rt_tick := Suc (rt_tick s), rt_db := ?d\<rparr>"
  have row: "so_id ?row = ?i" "so_scheduleId ?row = oi_scheduleId q" by (simp_all add: operation_row_of_def)
  have "oi_scheduleId q \<in> sc_id ` set (db_schedules (rt_db s))"
    using getById_Some [OF assms(2)] by (force simp: live_schedules_def)
  moreover have fresh: "?i \<notin> so_id ` set (db_operations (rt_db s))" using assms(1) by (auto simp: ids_ok_def)
  ultimately have ok: "db_ok ?d" using assms(1) row by (simp add: db_ok_iff live_schedules_def)
  have "insertOperation q who s = (Inr ?row, ?s)"
    using ok by (simp add: insertOperation_def run_simps db_ok_def Let_def)
  moreover have "ids_ok ?s"
  proof -
    have "rt_ids s n \<noteq> rt_ids s (rt_nextId s)" if "Suc (rt_nextId s) \<le> n" for n
      using assms(1) that by (auto simp: ids_ok_def inj_eq)
    then show ?thesis using assms(1) row by (auto simp: ids_ok_def)
  qed
  moreover have "plan ?d = plan (rt_db s)" by (simp add: plan_def getById_def fun_eq_iff)
  then have "view ?d = abstract_step (oi_scheduleId q) id [(oi_operation q, oi_status q, oi_runId q)] (view (rt_db s))"
    by (simp add: view_def abstract_step_def op_log_def option.map_id operation_row_of_def)
  ultimately show ?thesis using ok by (intro that [of ?row ?s]) (simp_all add: moves_def getById_def)
qed

lemma frame_getById: "schedule_frame s s' \<Longrightarrow> getById i (rt_db s') = getById i (rt_db s)"
  by (simp add: schedule_frame_def getById_def)

lemma frame_ready: "schedule_frame s s' \<Longrightarrow> ready_state s \<Longrightarrow> ready_state s'"
  using moves_frame by (auto simp: moves_def)

lemma frame_view: "schedule_frame s s' \<Longrightarrow> view (rt_db s') = view (rt_db s)"
  by (simp add: schedule_frame_def view_def plan_def op_log_def getById_def fun_eq_iff)

lemma frame_lists:
  assumes "schedule_frame s s'"
  shows "getNextEnabled (rt_db s') = getNextEnabled (rt_db s)"
    and "listPendingTriggers (rt_db s') = listPendingTriggers (rt_db s)"
    and "live_schedules (rt_db s') = live_schedules (rt_db s)"
  using assms by (simp_all add: schedule_frame_def getNextEnabled_def listPendingTriggers_def live_schedules_def)

lemma moves_ready: "moves i f l s s' \<Longrightarrow> ready_state s \<Longrightarrow> ready_state s'"
  by (simp add: moves_def)

text \<open>The updates of the service, as functions of the row\<close>

lemma update_functions:
  "updateEntries (no_update\<lparr>su_pendingTrigger := Some b\<rparr>) = (\<lambda>r. r\<lparr>sc_pendingTrigger := b\<rparr>)"
  "updateEntries (no_update\<lparr>su_lastStatus := Some st\<rparr>) = (\<lambda>r. r\<lparr>sc_lastStatus := st\<rparr>)"
  "updateEntries (no_update\<lparr>su_nextRunAt := Some n\<rparr>) = (\<lambda>r. r\<lparr>sc_nextRunAt := n\<rparr>)"
  "updateEntries (no_update\<lparr>su_lastRunAt := Some ranAt, su_lastRunId := Some j, su_lastStatus := Some st,
       su_pendingTrigger := Some b\<rparr>) =
     (\<lambda>r. r\<lparr>sc_lastRunAt := ranAt, sc_lastRunId := j, sc_lastStatus := st, sc_pendingTrigger := b\<rparr>)"
  by (simp_all add: fun_eq_iff updateEntries_def given_def no_update_def)

lemma updates_something:
  "no_update\<lparr>su_pendingTrigger := Some b\<rparr> \<noteq> no_update" "no_update\<lparr>su_lastStatus := Some st\<rparr> \<noteq> no_update"
  "no_update\<lparr>su_nextRunAt := Some n\<rparr> \<noteq> no_update"
  "no_update\<lparr>su_lastRunAt := Some ranAt, su_lastRunId := Some j, su_lastStatus := Some st,
     su_pendingTrigger := Some b\<rparr> \<noteq> no_update"
  "su_threadId no_update = None"
  by (simp_all add: no_update_def)

lemma erase_fields: "erase r' = erase r \<Longrightarrow> sc_threadId r' = sc_threadId r \<and> sc_id r' = sc_id r"
  by (cases r; cases r') (simp add: erase_def)

text \<open>A statement of the service on a schedule that exists: \<open>g\<close> is its effect on the row.\<close>

definition statement ::
  "string \<Rightarrow> (schedule_row \<Rightarrow> schedule_row) \<Rightarrow> ('fs, 'x, schedule_row option) io \<Rightarrow> bool" where
  "statement i g m \<longleftrightarrow>
     (\<forall>s r. ready_state s \<longrightarrow> getById i (rt_db s) = Some r \<longrightarrow>
        (\<exists>r' s'. m s = (Inr (Some r'), s') \<and> moves i g [] s s' \<and> getById i (rt_db s') = Some r' \<and>
           erase r' = g (erase r)))"

lemma statements:
  "statement i (\<lambda>r. r\<lparr>sc_pendingTrigger := b\<rparr>) (setPendingTrigger i b)"
  "statement i (\<lambda>r. r\<lparr>sc_lastStatus := Some st\<rparr>) (recordSkipped i st)"
  "statement i (\<lambda>r. r\<lparr>sc_nextRunAt := n\<rparr>) (updateSchedule i (no_update\<lparr>su_nextRunAt := Some n\<rparr>))"
  "statement i (\<lambda>r. r\<lparr>sc_lastRunAt := Some ranAt, sc_lastRunId := Some j, sc_lastStatus := Some st, sc_pendingTrigger := False\<rparr>)
     (recordRun i j ranAt st)"
proof -
  have update: "statement i g (updateSchedule i u)"
    if "updateEntries u = g" "su_threadId u = None" "u \<noteq> no_update" for u g
    unfolding statement_def using updateSchedule_moves that by metis
  show "statement i (\<lambda>r. r\<lparr>sc_pendingTrigger := b\<rparr>) (setPendingTrigger i b)"
    unfolding setPendingTrigger_def by (rule update [OF update_functions(1)]) (simp_all add: updates_something)
  show "statement i (\<lambda>r. r\<lparr>sc_lastStatus := Some st\<rparr>) (recordSkipped i st)"
    unfolding recordSkipped_def by (rule update [OF update_functions(2)]) (simp_all add: updates_something)
  show "statement i (\<lambda>r. r\<lparr>sc_nextRunAt := n\<rparr>) (updateSchedule i (no_update\<lparr>su_nextRunAt := Some n\<rparr>))"
    by (rule update [OF update_functions(3)]) (simp_all add: updates_something)
  show "statement i (\<lambda>r. r\<lparr>sc_lastRunAt := Some ranAt, sc_lastRunId := Some j, sc_lastStatus := Some st, sc_pendingTrigger := False\<rparr>)
       (recordRun i j ranAt st)"
    unfolding recordRun_def by (rule update [OF update_functions(4)]) (simp_all add: updates_something)
qed

lemma statementE:
  assumes "statement i g m" and "ready_state s" and "getById i (rt_db s) = Some r"
  obtains r' s' where "m s = (Inr (Some r'), s')" and "moves i g [] s s'"
    and "getById i (rt_db s') = Some r'" and "erase r' = g (erase r)" and "ready_state s'"
proof -
  obtain r' s' where step: "m s = (Inr (Some r'), s')" "moves i g [] s s'" "getById i (rt_db s') = Some r'"
    "erase r' = g (erase r)"
    using assms unfolding statement_def by blast
  then show ?thesis using that moves_ready [OF step(2) assms(2)] by blast
qed

text \<open>An operation is logged.\<close>

lemma logs:
  assumes "ready_state s" and "getById i (rt_db s) = Some r" and "oi_scheduleId q = i"
  obtains so s' where "insertOperation q who s = (Inr so, s')"
    and "moves i id [(oi_operation q, oi_status q, oi_runId q)] s s'" and "getById i (rt_db s') = Some r"
    and "ready_state s'"
proof -
  obtain so s' where step: "insertOperation q who s = (Inr so, s')"
    "moves (oi_scheduleId q) id [(oi_operation q, oi_status q, oi_runId q)] s s'"
    "\<And>i. getById i (rt_db s') = getById i (rt_db s)"
    using insertOperation_moves [OF assms(1)] assms(2,3) by metis
  then show ?thesis using that assms moves_ready [OF step(2) assms(1)] by auto
qed

lemma operation_parts:
  "oi_scheduleId (operation i k st) = i" "oi_operation (operation i k st) = k"
  "oi_status (operation i k st) = st" "oi_runId (operation i k st) = None"
  "oi_scheduleId (failed_operation i k e) = i" "oi_operation (failed_operation i k e) = k"
  "oi_status (failed_operation i k e) = OsFailed" "oi_runId (failed_operation i k e) = None"
  by (simp_all add: operation_def failed_operation_def)

lemma requireBound_simps:
  "sc_threadId r = Some t \<Longrightarrow> requireBoundSchedule r = Inr t"
  "sc_threadId r = None \<Longrightarrow> \<exists>m. requireBoundSchedule r = Inl (SchedulerError ''INTERNAL_ERROR'' m)"
  by (simp_all add: requireBoundSchedule_def)

text \<open>A stored schedule looks like the one a handler has read.\<close>

lemma stored:
  assumes "plan (rt_db s) i = Some (erase r)"
  obtains r0 where "getById i (rt_db s) = Some r0" and "erase r0 = erase r"
  using assms by (auto simp: plan_def)

lemma after_functions:
  "after now SkippedBusy = (\<lambda>r. r\<lparr>sc_lastStatus := Some LsSkipped\<rparr>)"
  "after now Misfired = (\<lambda>r. r\<lparr>sc_lastStatus := Some LsSkipped\<rparr>)"
  "after now QueuedBusy = (\<lambda>r. r\<lparr>sc_lastStatus := Some (LsRun PQueued)\<rparr>) \<circ> (\<lambda>r. r\<lparr>sc_pendingTrigger := True\<rparr>)"
  "after now (Started i st) = (\<lambda>r. r\<lparr>sc_lastRunAt := Some now, sc_lastRunId := Some i,
     sc_lastStatus := Some (LsRun st), sc_pendingTrigger := False\<rparr>)"
  "after now Unbound = id" "after now (StartFailed e) = id" "after now (CronFailed e) = id"
  by (simp_all add: fun_eq_iff)

lemma erased_thread:
  "erase r1 = after now out (erase r0) \<Longrightarrow> erase r0 = erase r \<Longrightarrow> sc_threadId r1 = sc_threadId r"
  by (cases r1; cases r0; cases r; cases out) (simp_all add: erase_def)

section \<open>Triggers refine the decision\<close>

text \<open>The response, or the error, to a trigger with outcome \<open>out\<close>\<close>

definition answers :: "db \<Rightarrow> string \<Rightarrow> outcome \<Rightarrow> err + run_now_response \<Rightarrow> bool" where
  "answers d i out x =
     (case out of
        Unbound \<Rightarrow> (\<exists>m. x = Inl (SchedulerError ''INTERNAL_ERROR'' m))
      | StartFailed e \<Rightarrow> x = Inl (SchedulerError ''INTERNAL_ERROR'' (err_message e))
      | _ \<Rightarrow> (\<exists>r t p. getById i d = Some r \<and> sc_threadId r = Some t \<and> x = Inr p \<and>
               rr_schedule p = toScheduleResponse r t \<and>
               map_option (\<lambda>c. (cn_id c, cn_status c)) (rr_run p) = (case out of Started j st \<Rightarrow> Some (j, st) | _ \<Rightarrow> None) \<and>
               rr_skipped p = (out = SkippedBusy) \<and> rr_queued p = (out = QueuedBusy)))"

locale schedule_runs =
  fixes S :: "('fs, 'x) scheduler"
  assumes startRun_frame: "ss_startRun S q s = (x, s') \<Longrightarrow> schedule_frame s s'"
    and timers_frame: "schedule_frame s (ss_setTimers S f s)"

context schedule_runs begin

lemma refreshQueueTimer_runs: "\<exists>s'. refreshQueueTimer S s = (Inr (), s') \<and> schedule_frame s s'"
  using frame_trans [OF timers_frame timers_frame] timers_frame
  by (simp add: refreshQueueTimer_def set_timers_def run_simps)

lemma refreshTimer_runs: "\<exists>s'. refreshTimer S s = (Inr (), s') \<and> schedule_frame s s'"
proof -
  let ?s1 = "ss_setTimers S (\<lambda>t. t\<lparr>tm_timer := None\<rparr>) s"
  have tick: "schedule_frame ?s1 (?s1\<lparr>rt_tick := Suc (rt_tick ?s1)\<rparr>)" by (simp add: schedule_frame_def)
  have 1: "schedule_frame s ?s1" by (rule timers_frame)
  have 2: "schedule_frame s (ss_setTimers S f (?s1\<lparr>rt_tick := Suc (rt_tick ?s1)\<rparr>))" for f
    by (rule frame_trans [OF frame_trans [OF 1 tick] timers_frame])
  show ?thesis
    using 1 2 by (auto simp: refreshTimer_def set_timers_def run_simps split: option.splits)
qed

lemma if_started_runs:
  assumes "\<And>s. \<exists>s'. m s = (Inr (), s') \<and> schedule_frame s s'"
  obtains s' where "if_started S m s = (Inr (), s')" and "schedule_frame s s'"
  using assms [of s] that by (cases "tm_started (ss_timers S s)") (auto simp: if_started_def run_simps)

lemma refresh_runs:
  "\<exists>s'. refreshQueueTimer S s = (Inr (), s') \<and> schedule_frame s s'"
  "\<exists>s'. refreshTimers S s = (Inr (), s') \<and> schedule_frame s s'"
proof -
  show "\<exists>s'. refreshQueueTimer S s = (Inr (), s') \<and> schedule_frame s s'" by (rule refreshQueueTimer_runs)
  obtain s1 where "refreshTimer S s = (Inr (), s1)" "schedule_frame s s1" using refreshTimer_runs by blast
  moreover obtain s2 where "refreshQueueTimer S s1 = (Inr (), s2)" "schedule_frame s1 s2"
    using refreshQueueTimer_runs by blast
  ultimately show "\<exists>s'. refreshTimers S s = (Inr (), s') \<and> schedule_frame s s'"
    by (auto simp: refreshTimers_def run_simps intro: frame_trans)
qed

end

context schedule_runs begin

lemma skip_trigger_moves:
  assumes "ready_state s" and "plan (rt_db s) (sc_id r) = Some (erase r)" and "sc_threadId r = Some t"
  obtains x s' where "skip_trigger r who s = (x, s')"
    and "moves (sc_id r) (after now SkippedBusy) (logged tr SkippedBusy) s s'"
    and "answers (rt_db s') (sc_id r) SkippedBusy x"
proof -
  let ?i = "sc_id r"
  let ?q = "operation ?i OpSkipConcurrency OsSkipped"
  obtain r0 where r0: "getById ?i (rt_db s) = Some r0" "erase r0 = erase r" by (rule stored [OF assms(2)])
  obtain r1 s1 where 1: "recordSkipped ?i LsSkipped s = (Inr (Some r1), s1)"
    "moves ?i (after now SkippedBusy) [] s s1" "getById ?i (rt_db s1) = Some r1"
    "erase r1 = after now SkippedBusy (erase r0)" "ready_state s1"
    by (rule statementE [OF statements(2) assms(1) r0(1)]) (simp add: after_functions)
  obtain so s2 where 2: "insertOperation ?q who s1 = (Inr so, s2)"
    "moves ?i id [(OpSkipConcurrency, OsSkipped, None)] s1 s2" "getById ?i (rt_db s2) = Some r1"
    by (rule logs [OF 1(5) 1(3), of ?q who]) (simp_all add: operation_parts)
  have "sc_threadId r1 = Some t" using erased_thread [OF 1(4) r0(2)] assms(3) by simp
  then show ?thesis
    using that 1(1) 2 moves_trans [OF 1(2) 2(2)]
    by (simp add: skip_trigger_def run_simps bound_response_def requireBound_simps answers_def)
qed

lemma queue_trigger_moves:
  assumes "ready_state s" and "plan (rt_db s) (sc_id r) = Some (erase r)" and "sc_threadId r = Some t"
  obtains x s' where "queue_trigger S r who s = (x, s')"
    and "moves (sc_id r) (after now QueuedBusy) (logged tr QueuedBusy) s s'"
    and "answers (rt_db s') (sc_id r) QueuedBusy x"
proof -
  let ?i = "sc_id r"
  let ?q = "operation ?i OpQueueTrigger OsQueued"
  obtain r0 where r0: "getById ?i (rt_db s) = Some r0" "erase r0 = erase r" by (rule stored [OF assms(2)])
  obtain r1 s1 where 1: "setPendingTrigger ?i True s = (Inr (Some r1), s1)"
    "moves ?i (\<lambda>r. r\<lparr>sc_pendingTrigger := True\<rparr>) [] s s1" "getById ?i (rt_db s1) = Some r1"
    "erase r1 = (erase r0)\<lparr>sc_pendingTrigger := True\<rparr>" "ready_state s1"
    by (rule statementE [OF statements(1) assms(1) r0(1)])
  obtain r2 s2 where 2: "recordSkipped ?i (LsRun PQueued) s1 = (Inr (Some r2), s2)"
    "moves ?i (\<lambda>r. r\<lparr>sc_lastStatus := Some (LsRun PQueued)\<rparr>) [] s1 s2" "getById ?i (rt_db s2) = Some r2"
    "erase r2 = (erase r1)\<lparr>sc_lastStatus := Some (LsRun PQueued)\<rparr>" "ready_state s2"
    by (rule statementE [OF statements(2) 1(5) 1(3)])
  obtain so s3 where 3: "insertOperation ?q who s2 = (Inr so, s3)"
    "moves ?i id [(OpQueueTrigger, OsQueued, None)] s2 s3" "getById ?i (rt_db s3) = Some r2"
    by (rule logs [OF 2(5) 2(3), of ?q who]) (simp_all add: operation_parts)
  obtain s4 where 4: "if_started S (refreshQueueTimer S) s3 = (Inr (), s4)" "schedule_frame s3 s4"
    by (rule if_started_runs [OF refresh_runs(1)])
  have "erase r2 = after now QueuedBusy (erase r0)" using 1(4) 2(4) by simp
  then have "sc_threadId r2 = Some t" using erased_thread [OF _ r0(2)] assms(3) by metis
  moreover have "moves ?i (after now QueuedBusy) (logged tr QueuedBusy) s s4"
    using moves_trans [OF moves_trans [OF moves_trans [OF 1(2) 2(2)] 3(2)] moves_frame [OF 4(2)]]
    by (simp add: after_functions)
  moreover have "getById ?i (rt_db s4) = Some r2" using 3(3) frame_getById [OF 4(2)] by simp
  ultimately show ?thesis
    using that 1(1) 2(1) 3(1) 4(1)
    by (simp add: queue_trigger_def run_simps bound_response_def requireBound_simps answers_def)
qed

lemma triggerSchedule_moves:
  assumes "ready_state s" and "plan (rt_db s) (sc_id r) = Some (erase r)" and "sc_threadId r = Some t"
    and "out = (case fst (ss_startRun S (run_request S r t now) s) of
                  Inl e \<Rightarrow> StartFailed e | Inr run \<Rightarrow> Started (cn_id run) (cn_status run))"
  obtains x s' where "triggerSchedule S r t tr now who s = (x, s')"
    and "moves (sc_id r) (after now out) (logged tr out) s s'" and "answers (rt_db s') (sc_id r) out x"
proof -
  let ?i = "sc_id r"
  obtain y s1 where 1: "ss_startRun S (run_request S r t now) s = (y, s1)" by fastforce
  then have frame: "schedule_frame s s1" by (rule startRun_frame)
  then have ready: "ready_state s1" and there: "plan (rt_db s1) ?i = Some (erase r)"
    using assms(1,2) frame_ready [OF frame] frame_getById [OF frame] by (simp_all add: plan_def)
  obtain r0 where r0: "getById ?i (rt_db s1) = Some r0" "erase r0 = erase r" by (rule stored [OF there])
  show ?thesis
  proof (cases y)
    case (Inl e)
    let ?q = "failed_operation ?i (trigger_operation tr) e"
    obtain so s2 where 2: "insertOperation ?q who s1 = (Inr so, s2)"
      "moves ?i id [(trigger_operation tr, OsFailed, None)] s1 s2"
      by (rule logs [OF ready r0(1), of ?q who]) (simp_all add: operation_parts)
    have "out = StartFailed e" using assms(4) 1 Inl by simp
    then show ?thesis
      using that 1 2(1) Inl moves_trans [OF moves_frame [OF frame] 2(2)]
      by (simp add: triggerSchedule_def run_simps answers_def after_functions)
  next
    case (Inr run)
    let ?q = "(operation ?i (trigger_operation tr) OsSucceeded)\<lparr>oi_runId := Some (cn_id run)\<rparr>"
    let ?out = "Started (cn_id run) (cn_status run)"
    obtain r1 s2 where 2: "recordRun ?i (cn_id run) now (LsRun (cn_status run)) s1 = (Inr (Some r1), s2)"
      "moves ?i (after now ?out) [] s1 s2" "getById ?i (rt_db s2) = Some r1"
      "erase r1 = after now ?out (erase r0)" "ready_state s2"
      by (rule statementE [OF statements(4) ready r0(1)]) (simp add: after_functions)
    obtain so s3 where 3: "insertOperation ?q who s2 = (Inr so, s3)"
      "moves ?i id [(trigger_operation tr, OsSucceeded, Some (cn_id run))] s2 s3" "getById ?i (rt_db s3) = Some r1"
      by (rule logs [OF 2(5) 2(3), of ?q who]) (simp_all add: operation_parts)
    have "sc_threadId r1 = Some t" using erased_thread [OF 2(4) r0(2)] assms(3) by simp
    moreover have "out = ?out" using assms(4) 1 Inr by simp
    ultimately show ?thesis
      using that 1 2(1) 3 Inr moves_trans [OF moves_trans [OF moves_frame [OF frame] 2(2)] 3(2)]
      by (simp add: triggerSchedule_def run_simps bound_response_def requireBound_simps answers_def)
  qed
qed

lemma handleTrigger_run:
  assumes "sc_threadId r = Some t"
  shows "handleTrigger S r tr now who s =
      (if tr \<noteq> RunQueued \<and> ss_hasActive S t s then
         (if sc_concurrencyPolicy r = CpSkip then skip_trigger r who s else queue_trigger S r who s)
       else triggerSchedule S r t tr now who s)"
  using assms by (cases "sc_concurrencyPolicy r")
    (auto simp: handleTrigger_def run_simps requireBound_simps resolveConcurrencyPolicy_def)

text \<open>A trigger does what \<open>decide\<close> says.\<close>

lemma handleTrigger_moves:
  assumes "ready_state s" and "plan (rt_db s) (sc_id r) = Some (erase r)" and "out = decide S r tr now s"
  obtains x s' where "handleTrigger S r tr now who s = (x, s')"
    and "moves (sc_id r) (after now out) (logged tr out) s s'" and "answers (rt_db s') (sc_id r) out x"
proof (cases "sc_threadId r")
  case None
  then show ?thesis
    using that assms(3) requireBound_simps(2) [OF None] moves_frame [OF frame_refl [of s]]
    by (auto simp: handleTrigger_def run_simps decide_def answers_def after_functions)
next
  case (Some t)
  note run = handleTrigger_run [OF Some, of tr now who s]
  consider (skip) "tr \<noteq> RunQueued \<and> ss_hasActive S t s" "sc_concurrencyPolicy r = CpSkip" "out = SkippedBusy"
    | (queue) "tr \<noteq> RunQueued \<and> ss_hasActive S t s" "sc_concurrencyPolicy r \<noteq> CpSkip" "out = QueuedBusy"
    | (start) "\<not> (tr \<noteq> RunQueued \<and> ss_hasActive S t s)"
        "out = (case fst (ss_startRun S (run_request S r t now) s) of
                  Inl e \<Rightarrow> StartFailed e | Inr run \<Rightarrow> Started (cn_id run) (cn_status run))"
    using assms(3) Some by (auto simp: decide_def split: if_splits)
  then show ?thesis
  proof cases
    case skip
    then show ?thesis using run that skip_trigger_moves [OF assms(1,2) Some] by metis
  next
    case queue
    then show ?thesis using run that queue_trigger_moves [OF assms(1,2) Some] by metis
  next
    case start
    then show ?thesis using run that triggerSchedule_moves [OF assms(1,2) Some start(2)] by metis
  qed
qed

end

section \<open>The timer refines the decisions\<close>

lemma after_due_functions:
  "after_due now (None, out) = after now out"
  "after_due now (Some next, out) = after now out \<circ> (\<lambda>r. r\<lparr>sc_nextRunAt := Some next\<rparr>)"
  by (simp_all add: fun_eq_iff)

lemma decide_same:
  assumes "erase r1 = (erase r0)\<lparr>sc_nextRunAt := n\<rparr>" and "erase r0 = erase r"
  shows "decide S r1 tr now s = decide S r tr now s"
proof -
  have "sc_id r1 = sc_id r" "sc_threadId r1 = sc_threadId r" "sc_name r1 = sc_name r" "sc_prompt r1 = sc_prompt r"
    "sc_timeoutMs r1 = sc_timeoutMs r" "sc_concurrencyPolicy r1 = sc_concurrencyPolicy r"
    using assms by (cases r1; cases r0; cases r; simp add: erase_def)+
  then show ?thesis
    by (cases "sc_threadId r") (simp_all add: decide_def run_request_def createScheduleExecutionPrompt_def)
qed

text \<open>The answer to a trigger raises only errors of the scheduler, which the timer does not record again.\<close>

lemma answers_quiet: "answers d i out (Inl e) \<Longrightarrow> is_scheduler_error e"
  by (auto simp: answers_def is_scheduler_error_def split: outcome.splits)

context schedule_runs begin

lemma process_due_moves:
  assumes "ready_state s" and "plan (rt_db s) (sc_id r) = Some (erase r)" and "sc_nextRunAt r = Some due"
    and "c = decide_due S now r s"
  obtains s' where "process_due S now r s = (Inr (), s')"
    and "moves (sc_id r) (after_due now c) (logged TimerTrigger (snd c)) s s'"
proof (cases "computeNextRunAt (ss_env S) (sc_cron r) (sc_timezone r) now")
  case (Inl e)
  let ?i = "sc_id r" and ?q = "failed_operation (sc_id r) OpTimerTrigger e"
  obtain r0 where r0: "getById ?i (rt_db s) = Some r0" by (rule stored [OF assms(2)])
  obtain so s' where "insertOperation ?q TimerActor s = (Inr so, s')"
    "moves ?i id [(OpTimerTrigger, OsFailed, None)] s s'"
    by (rule logs [OF assms(1) r0, of ?q TimerActor]) (simp_all add: operation_parts)
  then show ?thesis
    using that Inl assms(3,4) moves_frame [OF frame_refl [of s]]
    by (cases "is_scheduler_error e") (auto simp: process_due_def processDueSchedule_def run_simps
      recordUnexpectedTimerFailure_def decide_due_def after_functions after_due_functions)
next
  case (Inr upcoming)
  let ?i = "sc_id r" and ?u = "no_update\<lparr>su_nextRunAt := Some (Some upcoming)\<rparr>"
  obtain r0 where r0: "getById ?i (rt_db s) = Some r0" "erase r0 = erase r" by (rule stored [OF assms(2)])
  obtain r1 s1 where 1: "updateSchedule ?i ?u s = (Inr (Some r1), s1)"
    "moves ?i (\<lambda>r. r\<lparr>sc_nextRunAt := Some upcoming\<rparr>) [] s s1" "getById ?i (rt_db s1) = Some r1"
    "erase r1 = (erase r0)\<lparr>sc_nextRunAt := Some upcoming\<rparr>" "ready_state s1"
    by (rule statementE [OF statements(3) assms(1) r0(1)])
  have r1: "sc_id r1 = ?i" "plan (rt_db s1) (sc_id r1) = Some (erase r1)"
    using getById_Some [OF 1(3)] 1(3) by (auto simp: plan_def)
  show ?thesis
  proof (cases "now - due > triggerGraceMs S")
    case True
    let ?q = "operation ?i OpSkipMisfire OsSkipped"
    obtain r2 s2 where 2: "recordSkipped ?i LsSkipped s1 = (Inr (Some r2), s2)"
      "moves ?i (after now Misfired) [] s1 s2" "getById ?i (rt_db s2) = Some r2" "ready_state s2"
      by (rule statementE [OF statements(2) 1(5) 1(3)]) (simp add: after_functions)
    obtain so s3 where 3: "insertOperation ?q TimerActor s2 = (Inr so, s3)"
      "moves ?i id [(OpSkipMisfire, OsSkipped, None)] s2 s3"
      by (rule logs [OF 2(4) 2(3), of ?q TimerActor]) (simp_all add: operation_parts)
    show ?thesis
      using that True Inr assms(3,4) 1(1) 2(1) 3(1)
        moves_trans [OF moves_trans [OF 1(2) 2(2)] 3(2)]
      by (simp add: process_due_def processDueSchedule_def run_simps skip_misfire_def decide_due_def after_due_functions)
  next
    case False
    let ?out = "decide S r1 TimerTrigger now s1"
    obtain x s2 where 2: "handleTrigger S r1 TimerTrigger now TimerActor s1 = (x, s2)"
      "moves ?i (after now ?out) (logged TimerTrigger ?out) s1 s2" "answers (rt_db s2) ?i ?out x"
      by (rule handleTrigger_moves [OF 1(5) r1(2) refl, where who = TimerActor]) (simp add: r1(1))
    have "process_due S now r s = (Inr (), s2)"
      using False Inr assms(3) 1(1) 2(1) answers_quiet 2(3)
      by (cases x) (auto simp: process_due_def processDueSchedule_def run_simps recordUnexpectedTimerFailure_def)
    moreover have "c = (Some upcoming, ?out)"
      using assms(3,4) False Inr 1(1) decide_same [OF 1(4) r0(2), of S TimerTrigger now s1] by (simp add: decide_due_def)
    ultimately show ?thesis
      using that moves_trans [OF 1(2) 2(2)] by (simp add: after_due_functions)
  qed
qed

end

section \<open>A pass over the due schedules\<close>

text \<open>The abstract pass: the decisions \<open>c\<close> about the due schedules, one after the other\<close>

definition abstract_pass where
  "abstract_pass f l rcs = fold (\<lambda>(r, c). abstract_step (sc_id r) (f c) (l c)) rcs"

definition due_pass where
  "due_pass now = abstract_pass (after_due now) (\<lambda>c. logged TimerTrigger (snd c))"

text \<open>The choices of a loop: each is made in the state that the steps before have left.\<close>

fun choices :: "('r \<Rightarrow> 's \<Rightarrow> 'c) \<Rightarrow> ('r \<Rightarrow> 's \<Rightarrow> 'a \<times> 's) \<Rightarrow> 'r list \<Rightarrow> 's \<Rightarrow> 'c list" where
  "choices g m [] s = []"
| "choices g m (r # rs) s = g r s # choices g m rs (snd (m r s))"

definition due_choices ::
  "('fs, 'x) scheduler \<Rightarrow> ms \<Rightarrow> schedule_row list \<Rightarrow> ('fs, 'x) rt_scheme \<Rightarrow> (ms option \<times> outcome) list" where
  "due_choices S now = choices (decide_due S now) (process_due S now)"

text \<open>
  The abstract pass over the queue: a schedule waits for its thread (\<open>None\<close>), or its trigger leaves
  the queue, at the time that the choice names.
\<close>

fun after_pending :: "ms \<times> outcome option \<Rightarrow> schedule_row \<Rightarrow> schedule_row" where
  "after_pending (now, None) r = r"
| "after_pending (now, Some (Started i st)) r = after now (Started i st) r"
| "after_pending (now, Some _) r = r\<lparr>sc_pendingTrigger := False, sc_lastStatus := Some (LsRun PFailed)\<rparr>"

definition logged_pending :: "ms \<times> outcome option \<Rightarrow> entry list" where
  "logged_pending c = (case snd c of None \<Rightarrow> [] | Some out \<Rightarrow> logged RunQueued out)"

definition decide_pending ::
  "('fs, 'x) scheduler \<Rightarrow> schedule_row \<Rightarrow> ('fs, 'x) rt_scheme \<Rightarrow> ms \<times> outcome option" where
  "decide_pending S r s =
     (case sc_threadId r of
        None \<Rightarrow> (0, Some Unbound)
      | Some t \<Rightarrow>
          if ss_hasActive S t s then (0, None)
          else (rt_now s (rt_tick s),
                Some (decide S r RunQueued (rt_now s (rt_tick s)) (s\<lparr>rt_tick := Suc (rt_tick s)\<rparr>))))"

definition pending_pass where
  "pending_pass = abstract_pass after_pending logged_pending"

definition pending_choices ::
  "('fs, 'x) scheduler \<Rightarrow> schedule_row list \<Rightarrow> ('fs, 'x) rt_scheme \<Rightarrow> (ms \<times> outcome option) list" where
  "pending_choices S = choices (decide_pending S) (process_pending S)"

lemma length_choices [simp]: "length (choices g m rs s) = length rs"
  by (induction rs arbitrary: s) simp_all

lemma choices_from: "(r, c) \<in> set (zip rs (choices g m rs s)) \<Longrightarrow> \<exists>s1. c = g r s1"
  by (induction rs arbitrary: s) auto

lemma moves_other: "moves i f l s s' \<Longrightarrow> j \<noteq> i \<Longrightarrow> plan (rt_db s') j = plan (rt_db s) j"
  by (simp add: moves_def view_def abstract_step_def)

lemma moves_view: "moves i f l s s' \<Longrightarrow> view (rt_db s') = abstract_step i f l (view (rt_db s))"
  by (simp add: moves_def)

text \<open>A loop over schedules\<close>

lemma loop_moves:
  assumes "\<And>r s. r \<in> set rs \<Longrightarrow> ready_state s \<Longrightarrow> plan (rt_db s) (sc_id r) = Some (erase r) \<Longrightarrow>
      \<exists>s'. m r s = (Inr (), s') \<and> moves (sc_id r) (f (g r s)) (l (g r s)) s s'"
    and "ready_state s" and "distinct (map sc_id rs)"
    and "\<And>r. r \<in> set rs \<Longrightarrow> plan (rt_db s) (sc_id r) = Some (erase r)"
  shows "\<exists>s'. forE rs m s = (Inr (), s') \<and> ready_state s' \<and>
    view (rt_db s') = abstract_pass f l (zip rs (choices g m rs s)) (view (rt_db s))"
  using assms
proof (induction rs arbitrary: s)
  case Nil
  then show ?case by (simp add: run_simps abstract_pass_def)
next
  case (Cons r rs)
  obtain s1 where 1: "m r s = (Inr (), s1)" "moves (sc_id r) (f (g r s)) (l (g r s)) s s1"
    using Cons.prems(1) [of r s] Cons.prems(2,4) by auto
  have ready: "ready_state s1" by (rule moves_ready [OF 1(2) Cons.prems(2)])
  have "plan (rt_db s1) (sc_id r') = Some (erase r')" if "r' \<in> set rs" for r'
    using moves_other [OF 1(2), of "sc_id r'"] Cons.prems(3,4) that by (auto simp: image_iff)
  then obtain s2 where "forE rs m s1 = (Inr (), s2)" "ready_state s2"
    "view (rt_db s2) = abstract_pass f l (zip rs (choices g m rs s1)) (view (rt_db s1))"
    using Cons.IH [OF _ ready] Cons.prems(1,3) by auto
  then show ?case using 1 by (simp add: run_simps moves_view abstract_pass_def)
qed

lemma listed_plan:
  assumes "db_ok d" and "r \<in> set (live_schedules d)"
  shows "plan d (sc_id r) = Some (erase r)"
  using getById_live [OF assms] by (simp add: plan_def)

lemma listed_facts:
  assumes "db_ok d"
  shows "distinct (map sc_id (order_asc k (filter p (db_schedules d))))"
    and "r \<in> set (order_asc k (filter p (db_schedules d))) \<Longrightarrow> (\<And>r. p r \<Longrightarrow> live r) \<Longrightarrow>
      plan d (sc_id r) = Some (erase r)"
proof -
  show "distinct (map sc_id (order_asc k (filter p (db_schedules d))))"
    using assms by (auto simp: db_ok_iff order_asc_def distinct_map inj_on_def)
  assume "r \<in> set (order_asc k (filter p (db_schedules d)))" and "\<And>r. p r \<Longrightarrow> live r"
  then show "plan d (sc_id r) = Some (erase r)"
    by (intro listed_plan [OF assms]) (auto simp: live_schedules_def live_def)
qed

lemma listDue_facts:
  assumes "db_ok d"
  shows "distinct (map sc_id (listDue now d))"
    and "r \<in> set (listDue now d) \<Longrightarrow> plan d (sc_id r) = Some (erase r)"
    and "r \<in> set (listDue now d) \<Longrightarrow> \<exists>due. sc_nextRunAt r = Some due \<and> due \<le> now"
  unfolding listDue_def by (rule listed_facts [OF assms], erule listed_facts [OF assms]) auto

lemma listPending_facts:
  assumes "db_ok d"
  shows "distinct (map sc_id (listPendingTriggers d))"
    and "r \<in> set (listPendingTriggers d) \<Longrightarrow> plan d (sc_id r) = Some (erase r)"
  unfolding listPendingTriggers_def by (rule listed_facts [OF assms], erule listed_facts [OF assms]) auto

context schedule_runs begin

text \<open>The timer, on a ready state: the pass over the schedules that are due now\<close>

lemma processDueSchedules_moves:
  assumes "ready_state s" and "now = rt_now s (rt_tick s)" and "s0 = s\<lparr>rt_tick := Suc (rt_tick s)\<rparr>"
    and "due = listDue now (rt_db s)"
  obtains s' where "processDueSchedules S s = (Inr (), s')" and "ready_state s'"
    and "view (rt_db s') = due_pass now (zip due (due_choices S now due s0)) (view (rt_db s))"
proof -
  have ready: "ready_state s0" using assms(1,3) by (simp add: ids_ok_def)
  note rows = listDue_facts [where d = "rt_db s" and now = now, folded assms(4)]
  have "\<exists>s'. forE due (process_due S now) s0 = (Inr (), s') \<and> ready_state s' \<and>
      view (rt_db s') = abstract_pass (after_due now) (\<lambda>c. logged TimerTrigger (snd c))
        (zip due (choices (decide_due S now) (process_due S now) due s0)) (view (rt_db s0))"
  proof (rule loop_moves [OF _ ready])
    fix r and s1 :: "('fs, 'x) rt_scheme"
    assume "r \<in> set due" and there: "ready_state s1" "plan (rt_db s1) (sc_id r) = Some (erase r)"
    then obtain tm where "sc_nextRunAt r = Some tm" using rows(3) assms(1) by blast
    then show "\<exists>s'. process_due S now r s1 = (Inr (), s') \<and>
        moves (sc_id r) (after_due now (decide_due S now r s1)) (logged TimerTrigger (snd (decide_due S now r s1))) s1 s'"
      using process_due_moves [OF there _ refl] by metis
  qed (use rows(1,2) assms(1,3) in auto)
  then obtain s1 where loop: "forE due (process_due S now) s0 = (Inr (), s1)" "ready_state s1"
    "view (rt_db s1) = due_pass now (zip due (due_choices S now due s0)) (view (rt_db s))"
    using assms(3) by (auto simp: due_pass_def due_choices_def)
  obtain s2 where 2: "if_started S (refreshTimers S) s1 = (Inr (), s2)" "schedule_frame s1 s2"
    by (rule if_started_runs [OF refresh_runs(2)])
  have "processDueSchedules S s = (Inr (), s2)"
    using loop(1) 2(1) assms(2-4) by (simp add: processDueSchedules_def run_simps finallyE_def)
  then show ?thesis using that loop(3) frame_ready [OF 2(2) loop(2)] frame_view [OF 2(2)] by simp
qed

end

section \<open>A pass over the queue\<close>

lemma stored_failure:
  assumes "ready_state s" and "plan (rt_db s) (sc_id r) = Some p"
    and "is_scheduler_error e" and "err_code e = Some ''INTERNAL_ERROR''"
  obtains s' where "recordQueuedTriggerFailure r e s = (Inr (), s')"
    and "moves (sc_id r) (\<lambda>r. r\<lparr>sc_pendingTrigger := False, sc_lastStatus := Some (LsRun PFailed)\<rparr>) [] s s'"
proof -
  let ?i = "sc_id r"
  obtain r0 where r0: "getById ?i (rt_db s) = Some r0" using assms(2) by (auto simp: plan_def)
  obtain r1 s1 where 1: "setPendingTrigger ?i False s = (Inr (Some r1), s1)"
    "moves ?i (\<lambda>r. r\<lparr>sc_pendingTrigger := False\<rparr>) [] s s1" "getById ?i (rt_db s1) = Some r1" "ready_state s1"
    by (rule statementE [OF statements(1) assms(1) r0])
  obtain r2 s2 where 2: "recordSkipped ?i (LsRun PFailed) s1 = (Inr (Some r2), s2)"
    "moves ?i (\<lambda>r. r\<lparr>sc_lastStatus := Some (LsRun PFailed)\<rparr>) [] s1 s2"
    by (rule statementE [OF statements(2) 1(4) 1(3)])
  show ?thesis
    using that assms(3,4) 1(1) 2(1) moves_trans [OF 1(2) 2(2)]
    by (simp add: recordQueuedTriggerFailure_def run_simps comp_def)
qed

lemma after_pending_functions:
  "after_pending (now, None) = id"
  "after_pending (now, Some (Started i st)) = after now (Started i st)"
  "after_pending (now, Some (StartFailed e)) =
     (\<lambda>r. r\<lparr>sc_pendingTrigger := False, sc_lastStatus := Some (LsRun PFailed)\<rparr>) \<circ> after now (StartFailed e)"
  "after_pending (now, Some Unbound) =
     (\<lambda>r. r\<lparr>sc_pendingTrigger := False, sc_lastStatus := Some (LsRun PFailed)\<rparr>)"
  by (simp_all add: fun_eq_iff)

context schedule_runs begin

lemma process_pending_moves:
  assumes "ready_state s" and "plan (rt_db s) (sc_id r) = Some (erase r)"
    and "c = decide_pending S r s"
  obtains s' where "process_pending S r s = (Inr (), s')" and "moves (sc_id r) (after_pending c) (logged_pending c) s s'"
proof (cases "sc_threadId r")
  case None
  then obtain m where m: "requireBoundSchedule r = Inl (SchedulerError ''INTERNAL_ERROR'' m)"
    using requireBound_simps(2) by blast
  let ?e = "SchedulerError ''INTERNAL_ERROR'' m"
  obtain s' where "recordQueuedTriggerFailure r ?e s = (Inr (), s')"
    "moves (sc_id r) (\<lambda>r. r\<lparr>sc_pendingTrigger := False, sc_lastStatus := Some (LsRun PFailed)\<rparr>) [] s s'"
    by (rule stored_failure [OF assms(1,2), of ?e]) (simp_all add: is_scheduler_error_def)
  then show ?thesis
    using that None m assms(3)
    by (simp add: decide_pending_def process_pending_def run_simps after_pending_functions logged_pending_def)
next
  case (Some t)
  show ?thesis
  proof (cases "ss_hasActive S t s")
    case True
    then show ?thesis
      using that Some assms(3) moves_frame [OF frame_refl [of s]]
      by (simp add: decide_pending_def process_pending_def run_simps requireBound_simps after_pending_functions logged_pending_def)
  next
    case False
    let ?now = "rt_now s (rt_tick s)" and ?s0 = "s\<lparr>rt_tick := Suc (rt_tick s)\<rparr>"
    let ?out = "decide S r RunQueued ?now ?s0"
    have 0: "schedule_frame s ?s0" by (simp add: schedule_frame_def)
    obtain x s1 where 1: "handleTrigger S r RunQueued ?now TimerActor ?s0 = (x, s1)"
      "moves (sc_id r) (after ?now ?out) (logged RunQueued ?out) ?s0 s1" "answers (rt_db s1) (sc_id r) ?out x"
      using handleTrigger_moves [of ?s0 r ?out RunQueued ?now TimerActor] frame_ready [OF 0 assms(1)] assms(2)
        by auto
    have moves1: "moves (sc_id r) (after ?now ?out) (logged RunQueued ?out) s s1"
      using moves_trans [OF moves_frame [OF 0] 1(2)] by simp
    have c: "c = (?now, Some ?out)" using assms(3) Some False by (simp add: decide_pending_def)
    consider (failed) e where "?out = StartFailed e" | (started) i st where "?out = Started i st"
      using Some by (cases "fst (ss_startRun S (run_request S r t ?now) ?s0)") (simp_all add: decide_def)
    then show ?thesis
    proof cases
      case failed
      let ?e = "SchedulerError ''INTERNAL_ERROR'' (err_message e)"
      have x: "x = Inl ?e" using 1(3) failed by (simp add: answers_def)
      have "plan (rt_db s1) (sc_id r) = Some (after ?now ?out (erase r))"
        using moves_view [OF moves1] assms(2) by (simp add: view_def abstract_step_def)
      then obtain s2 where 2: "recordQueuedTriggerFailure r ?e s1 = (Inr (), s2)"
        "moves (sc_id r) (\<lambda>r. r\<lparr>sc_pendingTrigger := False, sc_lastStatus := Some (LsRun PFailed)\<rparr>) [] s1 s2"
        by (rule stored_failure [OF moves_ready [OF moves1 assms(1)], of r _ ?e]) (simp_all add: is_scheduler_error_def)
      show ?thesis
        using that c Some False 1(1) x 2(1) failed moves_trans [OF moves1 2(2)]
        by (simp add: process_pending_def run_simps requireBound_simps after_pending_functions logged_pending_def)
    next
      case started
      then obtain p where "x = Inr p" using 1(3) by (auto simp: answers_def)
      then show ?thesis
        using that c Some False 1(1) started moves1
        by (simp add: process_pending_def run_simps requireBound_simps after_pending_functions logged_pending_def)
    qed
  qed
qed

text \<open>The queue timer, on a ready state: the pass over the triggers in the queue\<close>

lemma processPendingTriggers_moves:
  assumes "ready_state s" and "rows = listPendingTriggers (rt_db s)"
  obtains s' where "processPendingTriggers S s = (Inr (), s')" and "ready_state s'"
    and "view (rt_db s') = pending_pass (zip rows (pending_choices S rows s)) (view (rt_db s))"
proof -
  note facts = listPending_facts [where d = "rt_db s", folded assms(2)]
  have "\<exists>s'. forE rows (process_pending S) s = (Inr (), s') \<and> ready_state s' \<and>
      view (rt_db s') = abstract_pass after_pending logged_pending
        (zip rows (choices (decide_pending S) (process_pending S) rows s)) (view (rt_db s))"
  proof (rule loop_moves [OF _ assms(1)])
    fix r and s1 :: "('fs, 'x) rt_scheme"
    assume there: "ready_state s1" "plan (rt_db s1) (sc_id r) = Some (erase r)"
    show "\<exists>s'. process_pending S r s1 = (Inr (), s') \<and>
        moves (sc_id r) (after_pending (decide_pending S r s1)) (logged_pending (decide_pending S r s1)) s1 s'"
      using process_pending_moves [OF there refl] by metis
  qed (use facts assms in auto)
  then obtain s1 where loop: "forE rows (process_pending S) s = (Inr (), s1)" "ready_state s1"
    "view (rt_db s1) = pending_pass (zip rows (pending_choices S rows s)) (view (rt_db s))"
    by (auto simp: pending_pass_def pending_choices_def)
  obtain s2 where 2: "if_started S (refreshQueueTimer S) s1 = (Inr (), s2)" "schedule_frame s1 s2"
    by (rule if_started_runs [OF refresh_runs(1)])
  have "processPendingTriggers S s = (Inr (), s2)"
    using loop(1) 2(1) assms(2) by (simp add: processPendingTriggers_def run_simps finallyE_def)
  then show ?thesis using that loop(3) frame_ready [OF 2(2) loop(2)] frame_view [OF 2(2)] by simp
qed

text \<open>A request to run a schedule\<close>

lemma runNow_moves:
  assumes "ready_state s" and "getById i (rt_db s) = Some r" and "now = rt_now s (rt_tick s)"
    and "out = decide S r RunNow now (s\<lparr>rt_tick := Suc (rt_tick s)\<rparr>)"
  obtains x s' where "runNow S i who s = (x, s')" and "moves i (after now out) (logged RunNow out) s s'"
    and "answers (rt_db s') i out x"
proof -
  let ?s0 = "s\<lparr>rt_tick := Suc (rt_tick s)\<rparr>"
  have 0: "schedule_frame s ?s0" by (simp add: schedule_frame_def)
  have i: "sc_id r = i" using getById_Some [OF assms(2)] by simp
  obtain x s1 where 1: "handleTrigger S r RunNow now who ?s0 = (x, s1)"
    "moves (sc_id r) (after now out) (logged RunNow out) ?s0 s1" "answers (rt_db s1) (sc_id r) out x"
    using handleTrigger_moves [of ?s0 r out RunNow now who] frame_ready [OF 0 assms(1)] assms(2,4) i
    by (auto simp: plan_def)
  have moves1: "moves i (after now out) (logged RunNow out) s s1"
    using moves_trans [OF moves_frame [OF 0] 1(2)] i by simp
  obtain s2 where 2: "if_started S (refreshTimers S) s1 = (Inr (), s2)" "schedule_frame s1 s2"
    by (rule if_started_runs [OF refresh_runs(2)])
  show ?thesis
  proof (cases x)
    case (Inl e)
    then show ?thesis
      using that 1 i assms(2,3) moves1 by (simp add: runNow_def requireSchedule_def run_simps)
  next
    case (Inr p)
    then have "runNow S i who s = (x, s2)"
      using 1(1) 2(1) assms(2,3) by (simp add: runNow_def requireSchedule_def run_simps)
    moreover have "moves i (after now out) (logged RunNow out) s s2"
      using moves_trans [OF moves1 moves_frame [OF 2(2)]] by simp
    moreover have "answers (rt_db s2) i out x"
      using 1(3) unfolding i answers_def frame_getById [OF 2(2)] .
    ultimately show ?thesis by (rule that)
  qed
qed

end

section \<open>What a pass leaves\<close>

lemma pass_other:
  "i \<notin> sc_id ` set (map fst rcs) \<Longrightarrow>
   fst (abstract_pass f l rcs v) i = fst v i"
  by (induction rcs arbitrary: v) (auto simp: abstract_pass_def abstract_step_def split: prod.splits)

lemma pass_plan:
  assumes "distinct (map (sc_id \<circ> fst) rcs)" and "(r, c) \<in> set rcs"
  shows "fst (abstract_pass f l rcs v) (sc_id r) = map_option (f c) (fst v (sc_id r))"
  using assms
proof (induction rcs arbitrary: v)
  case (Cons x rcs)
  obtain r' c' where x: "x = (r', c')" by fastforce
  let ?v = "abstract_step (sc_id r') (f c') (l c') v"
  show ?case
  proof (cases "(r, c) = x")
    case True
    then have "sc_id r \<notin> sc_id ` set (map fst rcs)" using Cons.prems(1) x by (auto simp: image_iff)
    from pass_other [OF this, of f l ?v] show ?thesis
      using True x by (simp add: abstract_pass_def abstract_step_def split: prod.splits)
  next
    case False
    then have "(r, c) \<in> set rcs" "sc_id r \<noteq> sc_id r'" using Cons.prems x by (auto simp: image_iff)
    then show ?thesis
      using Cons.IH [of ?v] Cons.prems(1) x by (simp add: abstract_pass_def abstract_step_def split: prod.splits)
  qed
qed simp

lemma pass_log:
  "snd (abstract_pass f l rcs v) =
   snd v @ concat (map (\<lambda>(r, c). map (Pair (sc_id r)) (l c)) rcs)"
  by (induction rcs arbitrary: v) (auto simp: abstract_pass_def abstract_step_def split: prod.splits)

lemma zip_distinct: "distinct (map sc_id rs) \<Longrightarrow> distinct (map (sc_id \<circ> fst) (zip rs cs))"
proof (induction rs arbitrary: cs)
  case (Cons r rs)
  then show ?case by (cases cs) (auto simp: image_iff dest!: set_zip_leftD)
qed simp

text \<open>The row of a schedule after a pass\<close>

lemma pass_row:
  assumes "distinct (map sc_id rs)" and "r \<in> set rs" and "plan d (sc_id r) = Some (erase r)"
    and "view d' = abstract_pass f l (zip rs (choices g m rs s)) (view d)"
  obtains s1 where "plan d' (sc_id r) = Some (f (g r s1) (erase r))"
    and "Pair (sc_id r) ` set (l (g r s1)) \<subseteq> set (op_log d')"
proof -
  let ?cs = "choices g m rs s"
  obtain n where n: "n < length rs" "rs ! n = r" using assms(2) by (metis in_set_conv_nth)
  then have there: "(r, ?cs ! n) \<in> set (zip rs ?cs)" by (force simp: set_zip)
  then obtain s1 where c: "?cs ! n = g r s1" using choices_from by metis
  have "fst (view d') (sc_id r) = Some (f (?cs ! n) (erase r))"
    using pass_plan [OF zip_distinct [OF assms(1)] there, of f l "view d"] assms(3)
    unfolding assms(4) by (simp add: view_def)
  moreover have "Pair (sc_id r) ` set (l (?cs ! n)) \<subseteq> set (snd (view d'))"
    unfolding assms(4) pass_log using there by auto
  ultimately show ?thesis using that [of s1] c by (simp add: view_def)
qed

context schedule_runs begin

text \<open>After a pass of the timer no schedule is due at the time of the pass, if its expression works.\<close>

lemma due_left:
  assumes "ready_state s" and "now = rt_now s (rt_tick s)" and "processDueSchedules S s = (x, s')"
    and later: "\<And>c z t. computeNextRunAt (ss_env S) c z now = Inr t \<Longrightarrow> now < t"
    and "r \<in> set (listDue now (rt_db s'))"
  shows "\<exists>e. computeNextRunAt (ss_env S) (sc_cron r) (sc_timezone r) now = Inl e"
proof -
  let ?due = "listDue now (rt_db s)" and ?i = "sc_id r"
  let ?cs = "due_choices S now ?due (s\<lparr>rt_tick := Suc (rt_tick s)\<rparr>)"
  obtain s1 where run: "processDueSchedules S s = (Inr (), s1)" "ready_state s1"
    and pass: "view (rt_db s1) = due_pass now (zip ?due ?cs) (view (rt_db s))"
    by (rule processDueSchedules_moves [OF assms(1,2) refl refl])
  have ready': "ready_state s'" using run assms(3) by simp
  have view: "view (rt_db s') = abstract_pass (after_due now) (\<lambda>c. logged TimerTrigger (snd c))
      (zip ?due ?cs) (view (rt_db s))"
    using run(1) pass assms(3) by (simp add: due_pass_def)
  have r: "plan (rt_db s') ?i = Some (erase r)" using listDue_facts(2) [OF _ assms(5)] ready' by blast
  obtain due where due: "sc_nextRunAt r = Some due" "due \<le> now" "sc_enabled r" "live r"
    using assms(5) by (auto simp: listDue_def)
  show ?thesis
  proof (cases "?i \<in> sc_id ` set ?due")
    case False
    then have "?i \<notin> sc_id ` set (map fst (zip ?due ?cs))" by (auto dest: set_zip_leftD)
    then have "plan (rt_db s) ?i = Some (erase r)"
      using r pass_other [of ?i "zip ?due ?cs" "after_due now" "\<lambda>c. logged TimerTrigger (snd c)" "view (rt_db s)"]
      unfolding view [symmetric] by (simp add: view_def)
    then obtain r0 where r0: "getById ?i (rt_db s) = Some r0" "erase r0 = erase r" by (rule stored)
    then have "sc_nextRunAt r0 = Some due" "sc_enabled r0" using due by (cases r0; cases r; simp add: erase_def)+
    then have "r0 \<in> set ?due"
      using getById_Some [OF r0(1)] due(2) by (auto simp: listDue_def live_schedules_def live_def)
    then show ?thesis using False getById_Some [OF r0(1)] by (auto simp: image_iff)
  next
    case True
    then obtain r0 where r0: "r0 \<in> set ?due" "sc_id r0 = ?i" by (auto simp: image_iff)
    obtain s2 where "plan (rt_db s') ?i = Some (after_due now (decide_due S now r0 s2) (erase r0))"
      using pass_row [OF listDue_facts(1) r0(1) listDue_facts(2) view [unfolded due_choices_def]] assms(1) r0 by metis
    then obtain c where c: "c = decide_due S now r0 s2" "plan (rt_db s') ?i = Some (after_due now c (erase r0))" by blast
    have erased: "erase r = after_due now c (erase r0)" using r c(2) by simp
    then have same: "sc_cron r = sc_cron r0" "sc_timezone r = sc_timezone r0"
      by (cases c; cases "fst c"; cases "snd c"; cases r; cases r0; simp add: erase_def)+
    show ?thesis
    proof (cases "computeNextRunAt (ss_env S) (sc_cron r0) (sc_timezone r0) now")
      case (Inl e)
      then show ?thesis using same by simp
    next
      case (Inr t)
      then obtain out where "c = (Some t, out)" using c(1) by (simp add: decide_due_def)
      then have "sc_nextRunAt r = Some t"
        using erased by (cases out; cases r; cases r0; simp add: erase_def)
      then show ?thesis using due(1,2) later [OF Inr] by simp
    qed
  qed
qed

text \<open>After a pass of the queue timer a trigger still waits, or it has led to a run, or to a failure.\<close>

lemma pending_left:
  assumes "ready_state s" and "processPendingTriggers S s = (x, s')" and "r \<in> set (listPendingTriggers (rt_db s))"
  obtains r' where "getById (sc_id r) (rt_db s') = Some r'"
    and "erase r' = erase r \<and> sc_threadId r \<noteq> None \<or>
      \<not> sc_pendingTrigger r' \<and> sc_lastStatus r' = Some (LsRun PFailed) \<or>
      \<not> sc_pendingTrigger r' \<and> (\<exists>j. sc_lastRunId r' = Some j \<and>
         (sc_id r, OpRunQueued, OsSucceeded, Some j) \<in> set (op_log (rt_db s')))"
proof -
  let ?rows = "listPendingTriggers (rt_db s)"
  obtain s1 where run: "processPendingTriggers S s = (Inr (), s1)"
    and pass: "view (rt_db s1) = pending_pass (zip ?rows (pending_choices S ?rows s)) (view (rt_db s))"
    by (rule processPendingTriggers_moves [OF assms(1) refl])
  have view: "view (rt_db s') = abstract_pass after_pending logged_pending
      (zip ?rows (choices (decide_pending S) (process_pending S) ?rows s)) (view (rt_db s))"
    using run pass assms(2) by (simp add: pending_pass_def pending_choices_def)
  obtain s2 where c: "plan (rt_db s') (sc_id r) = Some (after_pending (decide_pending S r s2) (erase r))"
    "Pair (sc_id r) ` set (logged_pending (decide_pending S r s2)) \<subseteq> set (op_log (rt_db s'))"
    using pass_row [OF listPending_facts(1) assms(3) listPending_facts(2) view] assms(1,3) by metis
  obtain r' where r': "getById (sc_id r) (rt_db s') = Some r'" "erase r' = after_pending (decide_pending S r s2) (erase r)"
    using c(1) by (auto simp: plan_def)
  obtain now d where d: "decide_pending S r s2 = (now, d)" by fastforce
  show ?thesis
  proof (rule that [OF r'(1)], cases d)
    case None
    then show "erase r' = erase r \<and> sc_threadId r \<noteq> None \<or>
      \<not> sc_pendingTrigger r' \<and> sc_lastStatus r' = Some (LsRun PFailed) \<or>
      \<not> sc_pendingTrigger r' \<and> (\<exists>j. sc_lastRunId r' = Some j \<and>
         (sc_id r, OpRunQueued, OsSucceeded, Some j) \<in> set (op_log (rt_db s')))"
      using r'(2) d by (auto simp: decide_pending_def split: option.splits if_splits)
  next
    case (Some out)
    then show "erase r' = erase r \<and> sc_threadId r \<noteq> None \<or>
      \<not> sc_pendingTrigger r' \<and> sc_lastStatus r' = Some (LsRun PFailed) \<or>
      \<not> sc_pendingTrigger r' \<and> (\<exists>j. sc_lastRunId r' = Some j \<and>
         (sc_id r, OpRunQueued, OsSucceeded, Some j) \<in> set (op_log (rt_db s')))"
      using r'(2) d c(2) by (cases out; cases r'; cases r) (simp_all add: erase_def logged_pending_def)
  qed
qed

end

end
