(* ===== verification/ScheduleTimers.thy ===== *)
theory ScheduleTimers
  imports ScheduleRefinement
begin

text \<open>
  The timers of the scheduler service: after every operation of the service the timer and the queue
  timer are set exactly if there is something to wait for (\<open>armed\<close>). The locale \<open>schedule_timers\<close>
  extends \<open>schedule_runs\<close> by what the service relies on for this.
\<close>

section \<open>The timers stay set\<close>

text \<open>
  While the service is started the timer is set exactly if a schedule waits for a time, with a delay
  that \<^verbatim>\<open>setTimeout\<close> takes, and the queue timer exactly if a trigger is in the queue; when it is
  stopped, neither is.
\<close>

definition timer_right :: "timers \<Rightarrow> db \<Rightarrow> bool" where
  "timer_right t d \<longleftrightarrow>
     (case tm_timer t of None \<Rightarrow> True | Some delay \<Rightarrow> 0 \<le> delay \<and> delay \<le> MAX_TIMER_DELAY_MS) \<and>
     (tm_timer t \<noteq> None \<longleftrightarrow> tm_started t \<and> (\<exists>r \<in> set (live_schedules d). sc_enabled r \<and> sc_nextRunAt r \<noteq> None))"

definition queue_right :: "timers \<Rightarrow> db \<Rightarrow> bool" where
  "queue_right t d \<longleftrightarrow>
     (tm_queueTimer t \<longleftrightarrow> tm_started t \<and> (\<exists>r \<in> set (live_schedules d). sc_enabled r \<and> sc_pendingTrigger r))"

definition armed :: "('fs, 'x) scheduler \<Rightarrow> ('fs, 'x) rt_scheme \<Rightarrow> bool" where
  "armed S s \<longleftrightarrow> timer_right (ss_timers S s) (rt_db s) \<and> queue_right (ss_timers S s) (rt_db s)"

text \<open>What the service keeps: the constraints hold, and the timers are set right.\<close>

definition watchful :: "('fs, 'x) scheduler \<Rightarrow> ('fs, 'x) rt_scheme \<Rightarrow> bool" where
  "watchful S s \<longleftrightarrow> ready_state s \<and> armed S s"

lemma first_where_ex: "(\<exists>r. first_where p t = Some r) \<longleftrightarrow> (\<exists>r \<in> set t. p r)"
  using first_where_None [of p t] by (metis not_None_eq)

lemma getNextEnabled_iff:
  "(\<exists>r. getNextEnabled d = Some r) \<longleftrightarrow> (\<exists>r \<in> set (live_schedules d). sc_enabled r \<and> sc_nextRunAt r \<noteq> None)"
  "getNextEnabled d = Some r \<Longrightarrow> sc_nextRunAt r \<noteq> None"
proof -
  show "(\<exists>r. getNextEnabled d = Some r) \<longleftrightarrow> (\<exists>r \<in> set (live_schedules d). sc_enabled r \<and> sc_nextRunAt r \<noteq> None)"
    unfolding getNextEnabled_def first_where_ex by (auto simp: live_schedules_def live_def)
  show "getNextEnabled d = Some r \<Longrightarrow> sc_nextRunAt r \<noteq> None"
    unfolding getNextEnabled_def by (drule first_where_Some) auto
qed

lemma listPending_iff:
  "listPendingTriggers d \<noteq> [] \<longleftrightarrow> (\<exists>r \<in> set (live_schedules d). sc_enabled r \<and> sc_pendingTrigger r)"
  unfolding listPendingTriggers_def set_empty [symmetric] by (auto simp: live_schedules_def live_def)

text \<open>What a schedule shows on the view is what its row shows.\<close>

lemma live_plan:
  assumes "db_ok d" and "\<And>r. p (erase r) = p r"
  shows "(\<exists>r \<in> set (live_schedules d). p r) \<longleftrightarrow> (\<exists>i r. plan d i = Some r \<and> p r)"
proof
  assume "\<exists>r \<in> set (live_schedules d). p r"
  then obtain r where "r \<in> set (live_schedules d)" "p r" by blast
  then show "\<exists>i r. plan d i = Some r \<and> p r" using listed_plan [OF assms(1)] assms(2) by blast
next
  assume "\<exists>i r. plan d i = Some r \<and> p r"
  then obtain i r where "getById i d = Some r" "p (erase r)" by (auto simp: plan_def)
  then show "\<exists>r \<in> set (live_schedules d). p r" using getById_Some assms(2) by blast
qed

text \<open>A computation on the base of the state leaves the fields around it alone.\<close>

definition around_only :: "(('fs, 'x) rt_scheme \<Rightarrow> bool) \<Rightarrow> bool" where
  "around_only P \<longleftrightarrow> (\<forall>s s'. rt.more s' = rt.more s \<longrightarrow> P s \<longrightarrow> P s')"

lemma around_io:
  assumes "around_only P"
  shows "keeps P date_now" and "keeps P nanoid" and "keeps P (read_db q)" and "keeps P (write_db f)"
  using assms by (auto simp: around_only_def keeps_def date_now_def nanoid_def read_db_def write_db_def run_simps
      split: option.splits)

lemma around_statements:
  assumes "around_only P"
  shows "keeps P (updateSchedule i u)" and "keeps P (insertOperation q who)"
    and "keeps P (setPendingTrigger i b)" and "keeps P (recordSkipped i st)" and "keeps P (recordRun i j t rs)"
proof -
  note io = around_io [OF assms]
  show update: "keeps P (updateSchedule i u)" for i u
    unfolding updateSchedule_def by (intro keeps_rules io)
  show "keeps P (insertOperation q who)"
    unfolding insertOperation_def Let_def by (intro keeps_rules io)
  show "keeps P (setPendingTrigger i b)" "keeps P (recordSkipped i st)" "keeps P (recordRun i j t rs)"
    unfolding setPendingTrigger_def recordSkipped_def recordRun_def by (rule update)+
qed

lemma keeps_finallyE:
  assumes "keeps P m" and "keeps P f"
  shows "keeps P (finallyE m f)"
proof (rule keepsI)
  fix s
  assume "P s"
  obtain r s1 where m: "m s = (r, s1)" by (cases "m s")
  obtain x s2 where f: "f s1 = (x, s2)" by (cases "f s1")
  have "P s1" by (rule keeps_result [OF assms(1) \<open>P s\<close> m])
  then have "P s2" by (rule keeps_result [OF assms(2) _ f])
  then show "P (snd (finallyE m f s))" using m f by (cases x) (simp_all add: finallyE_def)
qed

locale schedule_timers = schedule_runs S for S :: "('fs, 'x) scheduler" +
  assumes timers_set: "ss_timers S (ss_setTimers S f s) = f (ss_timers S s)"
    and timers_around: "rt.more s' = rt.more s \<Longrightarrow> ss_timers S s' = ss_timers S s"
    and startRun_timers: "ss_startRun S q s = (x, s') \<Longrightarrow> ss_timers S s' = ss_timers S s"

context schedule_timers begin

text \<open>A property of the timers that a run of the queue timer keeps, such as whether the service is started\<close>

lemma timers_property: "around_only (\<lambda>s. p (ss_timers S s))"
  unfolding around_only_def
proof (intro allI impI)
  fix s s' :: "('fs, 'x) rt_scheme"
  assume "rt.more s' = rt.more s" and "p (ss_timers S s)"
  then show "p (ss_timers S s')" using timers_around [of s' s] by simp
qed

lemmas timers_rules = keeps_rules around_io [OF timers_property] around_statements [OF timers_property]

lemma keeps_startRun: "keeps (\<lambda>s. p (ss_timers S s)) (ss_startRun S q)"
proof (rule keepsI)
  fix s
  assume "p (ss_timers S s)"
  moreover obtain x s' where "ss_startRun S q s = (x, s')" by (cases "ss_startRun S q s")
  ultimately show "p (ss_timers S (snd (ss_startRun S q s)))" using startRun_timers [of q s x s'] by simp
qed

lemma keeps_set: "(\<And>t. p t \<Longrightarrow> p (f t)) \<Longrightarrow> keeps (\<lambda>s. p (ss_timers S s)) (set_timers S f)"
  by (simp add: keeps_def set_timers_def run_simps timers_set)

lemma keeps_if_started: "keeps P m \<Longrightarrow> keeps P (if_started S m)"
  unfolding if_started_def by (intro keeps_rules)

text \<open>The queue timer is set only while the service is started.\<close>

definition queue_free :: "(timers \<Rightarrow> bool) \<Rightarrow> bool" where
  "queue_free p \<longleftrightarrow> (\<forall>t. p t \<longrightarrow> p (t\<lparr>tm_queueTimer := False\<rparr>) \<and> (tm_started t \<longrightarrow> p (t\<lparr>tm_queueTimer := True\<rparr>)))"

lemma keeps_triggerSchedule: "keeps (\<lambda>s. p (ss_timers S s)) (triggerSchedule S r t tr now who)"
  unfolding triggerSchedule_def bound_response_def by (intro timers_rules keeps_startRun)

lemma keeps_handleTrigger:
  assumes "queue_free p"
  shows "keeps (\<lambda>s. p (ss_timers S s)) (handleTrigger S r tr now who)"
proof -
  have queue: "keeps (\<lambda>s. p (ss_timers S s)) (refreshQueueTimer S)"
    using assms by (auto intro!: keepsI simp: refreshQueueTimer_def set_timers_def run_simps timers_set queue_free_def)
  have response: "keeps (\<lambda>s. p (ss_timers S s)) (bound_response r)" for r
    unfolding bound_response_def by (intro keeps_rules)
  show ?thesis
    unfolding handleTrigger_def skip_trigger_def queue_trigger_def
    by (intro timers_rules queue response keeps_triggerSchedule keeps_if_started)
qed

lemma keeps_passes:
  assumes "queue_free p"
  shows "keeps (\<lambda>s. p (ss_timers S s)) (process_due S now r)"
    and "keeps (\<lambda>s. p (ss_timers S s)) (process_pending S r)"
proof -
  note trigger = keeps_handleTrigger [OF assms]
  show "keeps (\<lambda>s. p (ss_timers S s)) (process_due S now r)"
    unfolding process_due_def processDueSchedule_def skip_misfire_def recordUnexpectedTimerFailure_def
    by (cases "sc_nextRunAt r") (auto intro!: timers_rules trigger)
  show "keeps (\<lambda>s. p (ss_timers S s)) (process_pending S r)"
    unfolding process_pending_def recordQueuedTriggerFailure_def by (intro timers_rules trigger)
qed

text \<open>What the refreshing functions leave\<close>

lemma refreshQueueTimer_right:
  assumes "refreshQueueTimer S s = (Inr (), s')"
  shows "queue_right (ss_timers S s') (rt_db s')" and "tm_started (ss_timers S s') = tm_started (ss_timers S s)"
    and "tm_timer (ss_timers S s') = tm_timer (ss_timers S s)" and "live_schedules (rt_db s') = live_schedules (rt_db s)"
proof -
  note lists = frame_lists [OF timers_frame]
  show "queue_right (ss_timers S s') (rt_db s')" "tm_started (ss_timers S s') = tm_started (ss_timers S s)"
    "tm_timer (ss_timers S s') = tm_timer (ss_timers S s)" "live_schedules (rt_db s') = live_schedules (rt_db s)"
    using assms by (auto simp: refreshQueueTimer_def set_timers_def run_simps timers_set queue_right_def lists
      simp flip: listPending_iff split: if_splits)
qed

lemma refreshTimer_right:
  assumes "refreshTimer S s = (Inr (), s')"
  shows "timer_right (ss_timers S s') (rt_db s')" and "tm_started (ss_timers S s') = tm_started (ss_timers S s)"
    and "tm_queueTimer (ss_timers S s') = tm_queueTimer (ss_timers S s)"
    and "live_schedules (rt_db s') = live_schedules (rt_db s)"
proof -
  let ?s1 = "ss_setTimers S (\<lambda>t. t\<lparr>tm_timer := None\<rparr>) s"
  note lists = frame_lists [OF timers_frame]
  have later: "ss_timers S (?s1\<lparr>rt_tick := n\<rparr>) = ss_timers S ?s1" for n by (rule timers_around) simp
  consider "\<not> tm_started (ss_timers S s)" "s' = ?s1" | "getNextEnabled (rt_db s) = None" "s' = ?s1"
    | r due where "tm_started (ss_timers S s)" "getNextEnabled (rt_db s) = Some r" "sc_nextRunAt r = Some due"
        "s' = ss_setTimers S (\<lambda>t. t\<lparr>tm_timer := Some (max 0 (min MAX_TIMER_DELAY_MS (due - rt_now ?s1 (rt_tick ?s1))))\<rparr>)
          (?s1\<lparr>rt_tick := Suc (rt_tick ?s1)\<rparr>)"
    using assms getNextEnabled_iff(2) [of "rt_db s"]
    by (auto simp: refreshTimer_def set_timers_def run_simps timers_set lists split: if_splits option.splits)
  then have "timer_right (ss_timers S s') (rt_db s') \<and> tm_started (ss_timers S s') = tm_started (ss_timers S s) \<and>
    tm_queueTimer (ss_timers S s') = tm_queueTimer (ss_timers S s) \<and> live_schedules (rt_db s') = live_schedules (rt_db s)"
  proof cases
    case 1
    then show ?thesis by (simp add: timer_right_def timers_set lists)
  next
    case 2
    then show ?thesis using getNextEnabled_iff(1) [of "rt_db s"] by (simp add: timer_right_def timers_set lists)
  next
    case 3
    then have "\<exists>r \<in> set (live_schedules (rt_db s)). sc_enabled r \<and> sc_nextRunAt r \<noteq> None"
      using getNextEnabled_iff(1) [of "rt_db s"] by blast
    then show ?thesis
      unfolding 3(4) using 3(1) by (simp add: timer_right_def timers_set later lists MAX_TIMER_DELAY_MS_def)
  qed
  then show "timer_right (ss_timers S s') (rt_db s')" "tm_started (ss_timers S s') = tm_started (ss_timers S s)"
    "tm_queueTimer (ss_timers S s') = tm_queueTimer (ss_timers S s)"
    "live_schedules (rt_db s') = live_schedules (rt_db s)"
    by blast+
qed

lemma refreshTimers_armed:
  assumes "refreshTimers S s = (Inr (), s')"
  shows "armed S s'"
proof -
  obtain s1 where 1: "refreshTimer S s = (Inr (), s1)" and 2: "refreshQueueTimer S s1 = (Inr (), s')"
    using assms unfolding refreshTimers_def thenE_Inr by blast
  show ?thesis
    using refreshTimer_right [OF 1] refreshQueueTimer_right [OF 2] by (simp add: armed_def timer_right_def)
qed

end

section \<open>The operations keep the timers set\<close>

text \<open>A schedule waits for a time, on the view.\<close>

definition waits_for_time :: "(string \<Rightarrow> schedule_row option) \<times> (string \<times> entry) list \<Rightarrow> bool" where
  "waits_for_time v \<longleftrightarrow> (\<exists>i r. fst v i = Some r \<and> sc_enabled r \<and> sc_nextRunAt r \<noteq> None)"

lemma waits_for_time_view:
  "db_ok d \<Longrightarrow> waits_for_time (view d) \<longleftrightarrow> (\<exists>r \<in> set (live_schedules d). sc_enabled r \<and> sc_nextRunAt r \<noteq> None)"
  by (subst live_plan) (simp_all add: waits_for_time_def view_def erase_def)

lemma after_pending_waits:
  "sc_enabled (after_pending c r) = sc_enabled r \<and> sc_nextRunAt (after_pending c r) = sc_nextRunAt r"
  by (cases "(c, r)" rule: after_pending.cases) simp_all

lemma pending_step_waits: "waits_for_time (abstract_step i (after_pending c) l v) = waits_for_time v"
proof -
  obtain p l0 where v: "v = (p, l0)" by fastforce
  have "(\<exists>r. (p(i := map_option (after_pending c) (p i))) j = Some r \<and> sc_enabled r \<and> sc_nextRunAt r \<noteq> None) \<longleftrightarrow>
      (\<exists>r. p j = Some r \<and> sc_enabled r \<and> sc_nextRunAt r \<noteq> None)" for j
    by (auto simp: after_pending_waits)
  then show ?thesis by (simp add: waits_for_time_def abstract_step_def v)
qed

lemma pending_pass_waits: "waits_for_time (pending_pass rcs v) = waits_for_time v"
  unfolding pending_pass_def abstract_pass_def by (induction rcs arbitrary: v) (simp_all add: case_prod_beta pending_step_waits)

lemma timer_right_same:
  "timer_right t d \<Longrightarrow> tm_timer t' = tm_timer t \<Longrightarrow> tm_started t' = tm_started t \<Longrightarrow> db_ok d \<Longrightarrow> db_ok d' \<Longrightarrow>
   waits_for_time (view d') = waits_for_time (view d) \<Longrightarrow> timer_right t' d'"
  by (simp add: timer_right_def waits_for_time_view)

lemma same_plan_armed:
  assumes "armed S s" and "ss_timers S s' = ss_timers S s" and "db_ok (rt_db s)" and "db_ok (rt_db s')"
    and "plan (rt_db s') = plan (rt_db s)"
  shows "armed S s'"
proof -
  have "(\<exists>r \<in> set (live_schedules (rt_db s')). sc_enabled r \<and> sc_pendingTrigger r) \<longleftrightarrow>
      (\<exists>r \<in> set (live_schedules (rt_db s)). sc_enabled r \<and> sc_pendingTrigger r)"
    using assms(3-5) by (simp add: live_plan erase_def)
  moreover have "waits_for_time (view (rt_db s')) = waits_for_time (view (rt_db s))"
    using assms(5) by (simp add: waits_for_time_def view_def)
  ultimately show ?thesis
    using assms timer_right_same [of "ss_timers S s" "rt_db s"] by (simp add: armed_def queue_right_def)
qed

lemma stopped_armed: "\<not> tm_started t \<Longrightarrow> timer_right t d \<and> queue_right t d \<longleftrightarrow> tm_timer t = None \<and> \<not> tm_queueTimer t"
  by (auto simp: timer_right_def queue_right_def)

context schedule_timers begin

lemma refreshTimers_ready:
  assumes "ready_state s" and "refreshTimers S s = (x, s')"
  shows "ready_state s'" and "armed S s'"
proof -
  obtain s1 where "refreshTimers S s = (Inr (), s1)" "schedule_frame s s1" using refresh_runs(2) by blast
  then show "ready_state s'" "armed S s'"
    using assms frame_ready refreshTimers_armed by auto
qed

lemma start_armed: "keeps (watchful S) (start_service S)"
proof (rule keepsI)
  fix s
  assume "watchful S s"
  then have "ready_state (ss_setTimers S (\<lambda>t. t\<lparr>tm_started := True\<rparr>) s)" using frame_ready [OF timers_frame] by (simp add: watchful_def)
  then show "watchful S (snd (start_service S s))"
    using refreshTimers_ready [OF _ prod.collapse [symmetric]]
    by (simp add: watchful_def start_service_def set_timers_def run_simps)
qed

lemma stop_armed: "keeps (watchful S) (stop_service S)"
proof (rule keepsI)
  fix s
  assume "watchful S s"
  then show "watchful S (snd (stop_service S s))"
    using frame_ready [OF timers_frame]
    by (simp add: watchful_def stop_service_def set_timers_def run_simps armed_def timers_set stopped_armed)
qed

lemma due_timer_fires_armed:
  assumes "ready_state s" and "armed S s" and "due_timer_fires S s = (x, s')"
  shows "ready_state s'" and "armed S s'"
proof -
  let ?s0 = "ss_setTimers S (\<lambda>t. t\<lparr>tm_timer := None\<rparr>) s" and ?started = "tm_started (ss_timers S s)"
  have ready: "ready_state ?s0" by (rule frame_ready [OF timers_frame assms(1)])
  have run: "processDueSchedules S ?s0 = (x, s')"
    using assms(3) by (simp add: due_timer_fires_def set_timers_def run_simps)
  obtain s1 where "processDueSchedules S ?s0 = (Inr (), s1)" "ready_state s1"
    by (rule processDueSchedules_moves [OF ready refl refl refl])
  then show "ready_state s'" using run by simp
  have "x = Inr ()" using run \<open>processDueSchedules S ?s0 = (Inr (), s1)\<close> by simp
  let ?now = "rt_now ?s0 (rt_tick ?s0)" and ?s1 = "?s0\<lparr>rt_tick := Suc (rt_tick ?s0)\<rparr>"
  obtain y s2 where loop: "forE (listDue ?now (rt_db ?s0)) (process_due S ?now) ?s1 = (y, s2)"
    by (cases "forE (listDue ?now (rt_db ?s0)) (process_due S ?now) ?s1")
  have last: "if_started S (refreshTimers S) s2 = (Inr (), s')"
    using run loop \<open>x = Inr ()\<close>
    by (cases "if_started S (refreshTimers S) s2")
      (auto simp: processDueSchedules_def run_simps finallyE_def split: sum.splits)
  have kept: "keeps (\<lambda>s. p (ss_timers S s)) (forE (listDue ?now (rt_db ?s0)) (process_due S ?now))"
    if "queue_free p" for p
    by (intro keeps_forE keeps_passes(1) that)
  have s1: "ss_timers S ?s1 = (ss_timers S s)\<lparr>tm_timer := None\<rparr>"
    using timers_around [of ?s1 ?s0] by (simp add: timers_set)
  show "armed S s'"
  proof (cases ?started)
    case True
    have "tm_started (ss_timers S s2)"
      using keeps_result [OF kept [of tm_started] _ loop] s1 True by (simp add: queue_free_def)
    then show ?thesis using last refreshTimers_armed by (simp add: if_started_def run_simps)
  next
    case False
    let ?p = "\<lambda>t. \<not> tm_started t \<and> tm_timer t = None \<and> \<not> tm_queueTimer t"
    have "?p (ss_timers S s2)"
      using keeps_result [OF kept [of ?p] _ loop] s1 False assms(2) stopped_armed [OF False]
      by (simp add: queue_free_def armed_def)
    then show ?thesis using last by (simp add: if_started_def run_simps armed_def stopped_armed)
  qed
qed

lemma queue_timer_armed:
  assumes "ready_state s" and "armed S s" and "queue_timer_fires S s = (x, s')"
  shows "ready_state s'" and "armed S s'"
proof -
  let ?s0 = "ss_setTimers S (\<lambda>t. t\<lparr>tm_queueTimer := False\<rparr>) s" and ?rows = "listPendingTriggers (rt_db s)"
  have rows: "listPendingTriggers (rt_db ?s0) = ?rows" by (rule frame_lists [OF timers_frame])
  have ready: "ready_state ?s0" by (rule frame_ready [OF timers_frame assms(1)])
  have run: "processPendingTriggers S ?s0 = (x, s')"
    using assms(3) by (simp add: queue_timer_fires_def set_timers_def run_simps)
  obtain s1 where moved: "processPendingTriggers S ?s0 = (Inr (), s1)" "ready_state s1"
    "view (rt_db s1) = pending_pass (zip ?rows (pending_choices S ?rows ?s0)) (view (rt_db ?s0))"
    using processPendingTriggers_moves [OF ready rows [symmetric]] .
  then have x: "x = Inr ()" and ready': "ready_state s'"
    and pass: "view (rt_db s') = pending_pass (zip ?rows (pending_choices S ?rows ?s0)) (view (rt_db ?s0))"
    using run by simp_all
  have waits: "waits_for_time (view (rt_db s')) = waits_for_time (view (rt_db s))"
    using pass frame_view [OF timers_frame] by (simp add: pending_pass_waits)
  obtain y s2 where loop: "forE ?rows (process_pending S) ?s0 = (y, s2)"
    by (cases "forE ?rows (process_pending S) ?s0")
  have last: "if_started S (refreshQueueTimer S) s2 = (Inr (), s')"
    using run loop x rows
    by (cases "if_started S (refreshQueueTimer S) s2")
      (auto simp: processPendingTriggers_def run_simps finallyE_def split: sum.splits)
  have s0: "ss_timers S ?s0 = (ss_timers S s)\<lparr>tm_queueTimer := False\<rparr>" by (rule timers_set)
  have kept: "p (ss_timers S s2)" if "queue_free p" "p (ss_timers S ?s0)" for p
    by (rule keeps_result [OF keeps_forE [OF keeps_passes(2) [OF that(1)]] that(2) loop])
  have same: "tm_timer (ss_timers S s2) = tm_timer (ss_timers S s)" "tm_started (ss_timers S s2) = tm_started (ss_timers S s)"
    using kept [of "\<lambda>t. tm_timer t = tm_timer (ss_timers S s) \<and> tm_started t = tm_started (ss_timers S s)"] s0
    by (simp_all add: queue_free_def)
  have right: "timer_right (ss_timers S s') (rt_db s')"
    if "tm_timer (ss_timers S s') = tm_timer (ss_timers S s)" "tm_started (ss_timers S s') = tm_started (ss_timers S s)"
    using assms(1,2) ready' waits that timer_right_same [of "ss_timers S s" "rt_db s"] by (simp add: armed_def)
  have "armed S s'"
  proof (cases "tm_started (ss_timers S s)")
    case True
    then have "refreshQueueTimer S s2 = (Inr (), s')" using last same by (simp add: if_started_def run_simps)
    from refreshQueueTimer_right [OF this] show ?thesis using right same by (simp add: armed_def)
  next
    case False
    then have "s' = s2" using last same by (simp add: if_started_def run_simps)
    moreover have "\<not> tm_queueTimer (ss_timers S s2)"
      using kept [of "\<lambda>t. \<not> tm_started t \<and> \<not> tm_queueTimer t"] s0 False by (simp add: queue_free_def)
    ultimately show ?thesis using right same False by (simp add: armed_def queue_right_def)
  qed
  with ready' show "ready_state s'" "armed S s'" by blast+
qed

text \<open>A trigger that raises leaves the timers.\<close>

lemma handleTrigger_raises:
  assumes "ready_state s" and "plan (rt_db s) (sc_id r) = Some (erase r)" and "handleTrigger S r tr now who s = (Inl e, s')"
  shows "ss_timers S s' = ss_timers S s"
proof (cases "sc_threadId r")
  case None
  then show ?thesis using assms(3) requireBound_simps(2) [OF None] by (auto simp: handleTrigger_def run_simps)
next
  case (Some t)
  have "skip_trigger r who s \<noteq> (Inl e, s')"
    by (rule skip_trigger_moves [OF assms(1,2) Some, of who]) (auto simp: answers_def)
  moreover have "queue_trigger S r who s \<noteq> (Inl e, s')"
    by (rule queue_trigger_moves [OF assms(1,2) Some, of who]) (auto simp: answers_def)
  ultimately have "triggerSchedule S r t tr now who s = (Inl e, s')"
    using assms(3) handleTrigger_run [OF Some, of tr now who s] by (metis (full_types))
  then show ?thesis
    using keeps_result [OF keeps_triggerSchedule [of "\<lambda>u. u = ss_timers S s"] refl] by blast
qed

lemma runNow_armed:
  assumes "ready_state s" and "armed S s" and "runNow S i who s = (x, s')"
  shows "ready_state s'" and "armed S s'"
proof -
  let ?now = "rt_now s (rt_tick s)" and ?s0 = "s\<lparr>rt_tick := Suc (rt_tick s)\<rparr>"
  have "ready_state s' \<and> armed S s'"
  proof (cases "getById i (rt_db s)")
    case None
    then show ?thesis using assms by (simp add: runNow_def requireSchedule_def run_simps)
  next
    case (Some r)
    let ?out = "decide S r RunNow ?now ?s0"
    have moves: "moves i (after ?now ?out) (logged RunNow ?out) s s'" and answer: "answers (rt_db s') i ?out x"
      using runNow_moves [OF assms(1) Some refl refl, of who] assms(3) by auto
    have ready': "ready_state s'" by (rule moves_ready [OF moves assms(1)])
    obtain y s1 where 1: "handleTrigger S r RunNow ?now who ?s0 = (y, s1)"
      by (cases "handleTrigger S r RunNow ?now who ?s0")
    obtain s2 where 2: "if_started S (refreshTimers S) s1 = (Inr (), s2)"
      by (rule if_started_runs [OF refresh_runs(2)])
    have s0: "ready_state ?s0" "plan (rt_db ?s0) (sc_id r) = Some (erase r)" "ss_timers S ?s0 = ss_timers S s"
      using assms(1) getById_Some [OF Some] Some timers_around [of ?s0 s] by (auto simp: ids_ok_def plan_def)
    show ?thesis
    proof (cases y)
      case (Inl e)
      then have "x = Inl e" "s' = s1"
        using assms(3) Some 1 by (auto simp: runNow_def requireSchedule_def run_simps)
      then have "ss_timers S s' = ss_timers S s"
        using handleTrigger_raises [OF s0(1,2), of RunNow ?now who e s1] 1 Inl s0(3) by simp
      moreover have "after ?now ?out = id"
        using answer \<open>x = Inl e\<close> by (cases ?out) (auto simp: answers_def after_functions)
      then have "plan (rt_db s') = plan (rt_db s)"
        using moves_view [OF moves] by (simp add: view_def abstract_step_def option.map_id)
      ultimately show ?thesis using same_plan_armed assms(1,2) ready' by blast
    next
      case (Inr p)
      then have s': "s' = s2" using assms(3) Some 1 2 by (simp add: runNow_def requireSchedule_def run_simps)
      have kept: "q (ss_timers S s1)" if "queue_free q" "q (ss_timers S s)" for q
        using keeps_result [OF keeps_handleTrigger [OF that(1)] _ 1] that(2) s0(3) by simp
      show ?thesis
      proof (cases "tm_started (ss_timers S s)")
        case True
        then have "tm_started (ss_timers S s1)" using kept [of tm_started] by (simp add: queue_free_def)
        then show ?thesis using ready' s' 2 refreshTimers_armed by (simp add: if_started_def run_simps)
      next
        case False
        let ?q = "\<lambda>t. \<not> tm_started t \<and> tm_timer t = None \<and> \<not> tm_queueTimer t"
        have "?q (ss_timers S s1)"
          using kept [of ?q] False assms(2) stopped_armed [OF False] by (simp add: queue_free_def armed_def)
        then show ?thesis using ready' s' 2 by (simp add: if_started_def run_simps armed_def stopped_armed)
      qed
    qed
  qed
  then show "ready_state s'" "armed S s'" by blast+
qed

lemma service_armed:
  "keeps (watchful S) (due_timer_fires S)"
  "keeps (watchful S) (queue_timer_fires S)"
  "keeps (watchful S) (runNow S i who)"
  using due_timer_fires_armed [OF _ _ prod.collapse [symmetric]] queue_timer_armed [OF _ _ prod.collapse [symmetric]]
    runNow_armed [OF _ _ prod.collapse [symmetric]]
  by (auto intro!: keepsI simp: watchful_def)

text \<open>\<^verbatim>\<open>refreshTimer\<close> sets the timer right even if it was not, and leaves the queue timer.\<close>

lemma refreshTimer_armed:
  assumes "ready_state s"
  shows "ready_state (snd (refreshTimer S s))" and "timer_right (ss_timers S (snd (refreshTimer S s))) (rt_db (snd (refreshTimer S s)))"
    and "armed S s \<Longrightarrow> armed S (snd (refreshTimer S s))"
proof -
  obtain s' where run: "refreshTimer S s = (Inr (), s')" and frame: "schedule_frame s s'" using refreshTimer_runs by blast
  show "ready_state (snd (refreshTimer S s))" using frame_ready [OF frame assms] run by simp
  show "timer_right (ss_timers S (snd (refreshTimer S s))) (rt_db (snd (refreshTimer S s)))"
    using refreshTimer_right(1) [OF run] run by simp
  show "armed S (snd (refreshTimer S s))" if "armed S s"
    using that refreshTimer_right [OF run] run by (simp add: armed_def queue_right_def)
qed

lemma start_ready:
  assumes "ready_state s"
  shows "ready_state (snd (start_service S s))"
proof -
  have "ready_state (ss_setTimers S (\<lambda>t. t\<lparr>tm_started := True\<rparr>) s)" by (rule frame_ready [OF timers_frame assms])
  then show ?thesis
    using refreshTimers_ready(1) [OF _ prod.collapse [symmetric]] by (simp add: start_service_def set_timers_def run_simps)
qed

lemma start_arms:
  assumes "ready_state s"
  shows "armed S (snd (start_service S s))" and "tm_started (ss_timers S (snd (start_service S s)))"
proof -
  let ?s0 = "ss_setTimers S (\<lambda>t. t\<lparr>tm_started := True\<rparr>) s"
  obtain s' where run: "refreshTimers S ?s0 = (Inr (), s')" using refresh_runs(2) by blast
  then obtain s1 where 1: "refreshTimer S ?s0 = (Inr (), s1)" and 2: "refreshQueueTimer S s1 = (Inr (), s')"
    unfolding refreshTimers_def thenE_Inr by blast
  have start: "start_service S s = (Inr (), s')" using run by (simp add: start_service_def set_timers_def run_simps)
  show "armed S (snd (start_service S s))" using refreshTimers_armed [OF run] start by simp
  show "tm_started (ss_timers S (snd (start_service S s)))"
    using start refreshTimer_right(2) [OF 1] refreshQueueTimer_right(2) [OF 2] by (simp add: timers_set)
qed

text \<open>Reading schedules, which first takes over the final status of finished runs\<close>

lemma read_armed:
  assumes "ready_state s \<and> armed S s" and "rt.more s' = rt.more s" and "rt_ids s' = rt_ids s" and "rt_nextId s' = rt_nextId s"
    and "rt_db s' = rt_db s \<or> ok_state s' \<and> rt_db s' = reconcile_rows now (rt_db s)"
  shows "ready_state s' \<and> armed S s'"
proof -
  have timers: "ss_timers S s' = ss_timers S s" by (rule timers_around) (rule assms(2))
  have rows: "(\<exists>r \<in> set (live_schedules (reconcile_rows now d)). p r) \<longleftrightarrow> (\<exists>r \<in> set (live_schedules d). p r)"
    if status: "\<And>r st t. p (r\<lparr>sc_lastStatus := st, sc_updatedAt := t\<rparr>) = p r" for p d
  proof -
    let ?f = "\<lambda>r. if reconcilable d r
      then r\<lparr>sc_lastStatus := map_option (\<lambda>run. LsRun (rn_publicStatus run)) (finished_last_run d r), sc_updatedAt := now\<rparr> else r"
    have f: "p (?f r) = p r" "sc_deletedAt (?f r) = sc_deletedAt r" for r using status by simp_all
    have "live_schedules (reconcile_rows now d) = map ?f (live_schedules d)"
      by (simp add: live_schedules_def reconcile_rows_def update_where_def filter_map o_def f(2))
    moreover have "(\<exists>r \<in> set (map ?f xs). p r) \<longleftrightarrow> (\<exists>r \<in> set xs. p r)" for xs
      using f(1) unfolding set_map bex_simps by blast
    ultimately show ?thesis by simp
  qed
  have waits: "(\<exists>r \<in> set (live_schedules (rt_db s')). p r) \<longleftrightarrow> (\<exists>r \<in> set (live_schedules (rt_db s)). p r)"
    if "\<And>r st t. p (r\<lparr>sc_lastStatus := st, sc_updatedAt := t\<rparr>) = p r" for p
    using assms(5) by (elim disjE conjE) (simp_all only: rows [OF that])
  have "armed S s'" using assms(1) by (simp add: armed_def timer_right_def queue_right_def timers waits)
  moreover have "db_operations (rt_db s') = db_operations (rt_db s)" using assms(5) by (auto simp: reconcile_rows_def)
  ultimately show ?thesis using assms(1,3-5) by (auto simp: ids_ok_def)
qed

lemma reading_keeps:
  "keeps (watchful S) date_now" "keeps (watchful S) (read_db q)" "keeps (watchful S) (write_db (reconcile_rows now))"
proof -
  show "keeps (watchful S) date_now"
  proof (rule keepsI)
    fix s assume "watchful S s"
    then show "watchful S (snd (date_now s))"
      using read_armed [of s "snd (date_now s)"] by (simp add: date_now_def watchful_def)
  qed
  show "keeps (watchful S) (read_db q)" unfolding read_db_def by (intro keeps_rules)
  show "keeps (watchful S) (write_db (reconcile_rows now))"
  proof (rule keepsI)
    fix s assume w: "watchful S s"
    show "watchful S (snd (write_db (reconcile_rows now) s))"
    proof (cases "db_check (reconcile_rows now (rt_db s))")
      case None
      then have ok: "db_ok (reconcile_rows now (rt_db s))" by (simp add: db_ok_def)
      have "ready_state (s\<lparr>rt_db := reconcile_rows now (rt_db s)\<rparr>) \<and> armed S (s\<lparr>rt_db := reconcile_rows now (rt_db s)\<rparr>)"
        by (rule read_armed [where now = now]) (use w ok in \<open>auto simp: watchful_def\<close>)
      then show ?thesis using None by (simp add: write_db_def watchful_def)
    qed (use w in \<open>simp add: write_db_def\<close>)
  qed
qed

lemma refreshTimer_keeps: "keeps (watchful S) (refreshTimer S)"
  by (rule keepsI) (simp add: watchful_def refreshTimer_armed)

lemma requests_armed:
  "keeps (watchful S) listSchedules" "keeps (watchful S) (getSchedule i)" "keeps (watchful S) (service_operations i limit)"
proof -
  have responses: "keeps (watchful S) (bound_responses rs)" for rs
    by (induction rs) (auto simp: bound_response_def intro!: keeps_rules)
  have reconcile: "keeps (watchful S) reconcileLastRunStatuses"
    unfolding reconcileLastRunStatuses_def by (intro keeps_rules reading_keeps)
  show "keeps (watchful S) listSchedules" "keeps (watchful S) (service_operations i limit)"
    unfolding listSchedules_def service_operations_def requireSchedule_def
    by (intro keeps_rules reading_keeps reconcile responses)+
  show "keeps (watchful S) (getSchedule i)"
    unfolding getSchedule_def
    by (intro keeps_bindE reconcile reading_keeps) (auto intro!: keeps_rules split: option.splits)
qed

end

end
