(* ===== verification/ScheduleBindings.thy ===== *)
theory ScheduleBindings
  imports ScheduleCoordinator
begin

text \<open>
  The schedule coordinator over the thread manager of theory \<open>Threads\<close>: the manager's operations
  meet the contract \<open>schedule_threads\<close>, so a live schedule always has its own active thread,
  whatever sequence of requests arrives, and the start of the daemon settles the schedules of
  an older database.
\<close>

section \<open>The thread manager meets the contract\<close>

definition thread_manager :: "('fs, 'e) env_scheme \<Rightarrow> ('fs, 'x) thread_ops" where
  "thread_manager E =
     \<lparr>to_createScheduleThread = createScheduleThread E, to_getThread = getThread E,
      to_updateScheduleThread = updateScheduleThread E, to_setPurpose = setPurpose E,
      to_archiveScheduleThread = archiveScheduleThread E\<rparr>"

definition row_of :: "thread_id \<Rightarrow> db \<Rightarrow> thread_row option" where
  "row_of i d = first_where (\<lambda>t. th_id t = i) (db_threads d)"

lemma mapThreadRow_simps [simp]:
  "th_id (mapThreadRow E j) = th_id (fst j)" "th_purpose (mapThreadRow E j) = th_purpose (fst j)"
  "th_status (mapThreadRow E j) = th_status (fst j)"
  by (simp_all add: mapThreadRow_def thread_row.defs)

lemma first_where_join:
  "map_option fst (first_where (\<lambda>j. th_id (fst j) = i) (concat (map (join_thread d) ts))) =
   first_where (\<lambda>t. th_id t = i) ts"
proof (induction ts)
  case Nil
  then show ?case by (simp add: first_where_def)
next
  case (Cons t ts)
  obtain j js where j: "join_thread d t = j # js"
    using join_thread_nonempty [of d t] by (cases "join_thread d t") auto
  have fst: "\<forall>k \<in> set (join_thread d t). fst k = t" by (auto dest: fst_join_thread)
  show ?case
  proof (cases "th_id t = i")
    case True
    with j fst show ?thesis by (simp add: first_where_def)
  next
    case False
    with fst have "first_where (\<lambda>j. th_id (fst j) = i) (join_thread d t) = None"
      by (simp add: first_where_None)
    with False Cons show ?thesis by (simp add: first_where_append) (simp add: first_where_def)
  qed
qed

lemma getThreadRow_row: "map_option fst (getThreadRow i d) = row_of i d"
  by (simp add: getThreadRow_def threadSelect_def first_where_join row_of_def)

lemma thread_info_row:
  "thread_info (thread_manager E) i d = map_option (\<lambda>t. (th_purpose t, th_status t)) (row_of i d)"
  by (simp add: thread_info_def thread_manager_def getThread_def option.map_comp comp_def
      flip: getThreadRow_row)

text \<open>\<open>info i d\<close>: purpose and status in the table\<close>

definition info :: "thread_id \<Rightarrow> db \<Rightarrow> (thread_purpose \<times> row_status) option" where
  "info i d = map_option (\<lambda>t. (th_purpose t, th_status t)) (row_of i d)"

lemma first_where_map_id:
  "(\<And>t. th_id (f t) = th_id t) \<Longrightarrow>
   first_where (\<lambda>t. th_id t = i) (update_where q f ts) =
   map_option (\<lambda>t. if q t then f t else t) (first_where (\<lambda>t. th_id t = i) ts)"
  by (induction ts) (auto simp: first_where_def update_where_def)

lemma info_update:
  assumes "\<And>t. th_id (f t) = th_id t"
    and "\<And>d t. q d t \<Longrightarrow> th_id t = i \<Longrightarrow> th_purpose (f t) = th_purpose t \<and> th_status (f t) = th_status t"
  shows "info i (update_threads q f d) = info i d"
proof (cases "row_of i d")
  case None
  then show ?thesis by (simp add: info_def row_of_def update_threads_def first_where_map_id assms(1))
next
  case (Some t)
  then have "th_id t = i" by (auto simp: row_of_def dest: first_where_Some)
  with Some show ?thesis
    by (auto simp: info_def row_of_def update_threads_def first_where_map_id assms)
qed

lemma info_keeps_update:
  assumes "\<And>t. th_id (f t) = th_id t"
    and "\<And>d t. q d t \<Longrightarrow> th_id t = i \<Longrightarrow> th_purpose (f t) = th_purpose t \<and> th_status (f t) = th_status t"
  shows "db_keeps (\<lambda>d. info i d = Some v) (write_db (update_threads q f))"
  by (rule db_keeps_write) (simp add: info_update assms)

lemma info_statements [keeps_rules]:
  "db_keeps (\<lambda>d. info i d = Some v) (insertThread row)"
  "db_keeps (\<lambda>d. info i d = Some v) (updateThreadRow j title model reasoning pinned)"
  "db_keeps (\<lambda>d. info i d = Some v) (updateThreadSandbox j sandbox)"
  "db_keeps (\<lambda>d. info i d = Some v) (updateScheduleThreadRow j ti cwd ca pr mo re sa)"
  "db_keeps (\<lambda>d. info i d = Some v) (setThreadCodexId j codex)"
  "db_keeps (\<lambda>d. info i d = Some v) (touchThreadRow j)"
  "db_keeps (\<lambda>d. info i d = Some v) (assignProjectRow j p)"
  "i \<noteq> j \<Longrightarrow> db_keeps (\<lambda>d. info i d = Some v) (setThreadPurpose j purpose)"
  "i \<noteq> j \<Longrightarrow> db_keeps (\<lambda>d. info i d = Some v) (archiveThreadRow j)"
proof -
  show "db_keeps (\<lambda>d. info i d = Some v) (insertThread row)"
    unfolding insertThread_def
    by (intro keeps_rules db_keeps_write) (auto simp: info_def row_of_def first_where_append)
qed (unfold updateThreadRow_def updateThreadSandbox_def updateScheduleThreadRow_def setThreadCodexId_def
      touchThreadRow_def setThreadPurpose_def archiveThreadRow_def assignProjectRow_def,
     (intro keeps_rules info_keeps_update; simp add: archived_thread_def)+)


lemma info_create [keeps_rules]: "db_keeps (\<lambda>d. info i d = Some v) (createRuntimeThread E q)"
  by (auto simp: createRuntimeThread_def readThread_def Let_def intro!: keeps_rules)

text \<open>The created thread is the one the table has under the new id.\<close>

lemma insertThread_Inr:
  "insertThread row s = (Inr u, s') \<Longrightarrow>
   \<exists>now. rt_db s' = rt_db s\<lparr>db_threads := db_threads (rt_db s) @
     [row\<lparr>th_createdAt := now, th_updatedAt := now, th_archivedAt := None, th_pinnedAt := None\<rparr>]\<rparr> \<and> ok_state s'"
  by (auto simp: insertThread_def inr_simps sql_now_def)

lemma createRuntimeThread_steps:
  assumes "createRuntimeThread E q s = (Inr t, s')"
  shows "\<exists>i cwd canonical s1. insertThread (new_thread_row E i cwd canonical q) s1 = (Inr (), s') \<and>
    getThread E i (rt_db s') = Some t"
  using assms by (simp add: createRuntimeThread_def inr_simps Let_def readThread_def) blast

lemma createRuntimeThread_Inr:
  assumes "createRuntimeThread E q s = (Inr t, s')"
  shows "info (th_id t) (rt_db s') = Some (option_or (ct_purpose q) Conversation, Active)"
proof -
  from createRuntimeThread_steps [OF assms] obtain i cwd canonical s1 where
    ins: "insertThread (new_thread_row E i cwd canonical q) s1 = (Inr (), s')" and
    t: "getThread E i (rt_db s') = Some t" by blast
  let ?row = "\<lambda>now. (new_thread_row E i cwd canonical q)\<lparr>th_createdAt := now, th_updatedAt := now,
           th_archivedAt := None, th_pinnedAt := None\<rparr>"
  from insertThread_Inr [OF ins] obtain now where ok: "ok_state s'" and
    db: "rt_db s' = rt_db s1\<lparr>db_threads := db_threads (rt_db s1) @ [?row now]\<rparr>" by blast
  have "row_of i (rt_db s') = Some (?row now)"
    unfolding row_of_def
  proof (rule first_where_key)
    show "distinct (map th_id (db_threads (rt_db s')))" using ok by (simp add: db_ok_iff)
    show "?row now \<in> set (db_threads (rt_db s'))" by (simp add: db)
  qed (simp_all add: new_thread_row_def)
  moreover have "th_id t = i"
    using t by (auto simp: getThread_def dest: getThreadRow_Some)
  ultimately show ?thesis by (simp add: info_def new_thread_row_def)
qed

text \<open>The operations leave the schedules alone and keep the constraints.\<close>

lemma thread_writes [keeps_rules]:
  "db_keeps (\<lambda>d. P (db_schedules d) (db_operations d)) (write_db (update_threads q f))"
  by (rule db_keeps_write) (simp add: update_threads_def)

lemma insertThread_frame [keeps_rules]:
  "db_keeps (\<lambda>d. P (db_schedules d) (db_operations d)) (insertThread row)"
  unfolding insertThread_def by (intro keeps_rules db_keeps_write) simp

lemmas thread_ops =
  createScheduleThread_def createThread_def createConversationThread_def createRuntimeThread_def
  updateScheduleThread_def setPurpose_def archiveScheduleThread_def archiveThread_def
  updateThread_def assignProject_def setCodexThreadId_def touchThread_def readThread_def
  getRequiredThread_def insertThread_def updateScheduleThreadRow_def setThreadPurpose_def
  archiveThreadRow_def updateThreadRow_def updateThreadSandbox_def assignProjectRow_def
  setThreadCodexId_def touchThreadRow_def

lemma thread_ops_schedules [keeps_rules]:
  "db_keeps (\<lambda>d. P (db_schedules d) (db_operations d)) (createScheduleThread E q)"
  "db_keeps (\<lambda>d. P (db_schedules d) (db_operations d)) (updateScheduleThread E j uq)"
  "db_keeps (\<lambda>d. P (db_schedules d) (db_operations d)) (setPurpose E j p)"
  "db_keeps (\<lambda>d. P (db_schedules d) (db_operations d)) (archiveScheduleThread E j)"
  "db_keeps (\<lambda>d. P (db_schedules d) (db_operations d)) (createConversationThread E cq)"
  "db_keeps (\<lambda>d. P (db_schedules d) (db_operations d)) (createThread E q)"
  "db_keeps (\<lambda>d. P (db_schedules d) (db_operations d)) (archiveThread E j)"
  "db_keeps (\<lambda>d. P (db_schedules d) (db_operations d)) (updateThread E j ut)"
  "db_keeps (\<lambda>d. P (db_schedules d) (db_operations d)) (assignProject E j pj)"
  "db_keeps (\<lambda>d. P (db_schedules d) (db_operations d)) (setCodexThreadId j codex)"
  "db_keeps (\<lambda>d. P (db_schedules d) (db_operations d)) (touchThread j)"
  by (auto simp: thread_ops Let_def intro!: keeps_rules db_keeps_write split: option.splits bool.splits)

lemma thread_ops_ok [keeps_rules]:
  "db_keeps db_ok (createScheduleThread E q)" "db_keeps db_ok (updateScheduleThread E j uq)"
  "db_keeps db_ok (setPurpose E j p)" "db_keeps db_ok (archiveScheduleThread E j)"
  "db_keeps db_ok (createConversationThread E cq)" "db_keeps db_ok (createThread E q)"
  "db_keeps db_ok (archiveThread E j)" "db_keeps db_ok (updateThread E j ut)"
  "db_keeps db_ok (assignProject E j pj)" "db_keeps db_ok (setCodexThreadId j codex)"
  "db_keeps db_ok (touchThread j)"
  by (auto simp: thread_ops Let_def intro!: keeps_rules split: option.splits bool.splits)

lemma thread_ops_info [keeps_rules]:
  "db_keeps (\<lambda>d. info i d = Some v) (createScheduleThread E q)"
  "db_keeps (\<lambda>d. info i d = Some v) (updateScheduleThread E j uq)"
  "i \<noteq> j \<Longrightarrow> db_keeps (\<lambda>d. info i d = Some v) (setPurpose E j p)"
  "i \<noteq> j \<Longrightarrow> db_keeps (\<lambda>d. info i d = Some v) (archiveScheduleThread E j)"
  "db_keeps (\<lambda>d. info i d = Some v) (createConversationThread E cq)"
  "db_keeps (\<lambda>d. info i d = Some v) (createThread E q)"
  "i \<noteq> j \<Longrightarrow> db_keeps (\<lambda>d. info i d = Some v) (archiveThread E j)"
  "db_keeps (\<lambda>d. info i d = Some v) (updateThread E j ut)"
  "db_keeps (\<lambda>d. info i d = Some v) (assignProject E j pj)"
  "db_keeps (\<lambda>d. info i d = Some v) (setCodexThreadId j codex)"
  "db_keeps (\<lambda>d. info i d = Some v) (touchThread j)"
  unfolding createScheduleThread_def createThread_def createConversationThread_def
    updateScheduleThread_def setPurpose_def archiveScheduleThread_def archiveThread_def
    updateThread_def assignProject_def setCodexThreadId_def touchThread_def readThread_def
    getRequiredThread_def
  by (auto simp: Let_def intro!: keeps_rules split: option.splits bool.splits)

lemma info_getThreadRow:
  "info i d = map_option (\<lambda>j. (th_purpose (fst j), th_status (fst j))) (getThreadRow i d)"
  by (simp add: info_def option.map_comp comp_def flip: getThreadRow_row)

lemma setPurpose_info:
  assumes "setPurpose E i p s = (Inr t, s')" and "info i (rt_db s) = Some (p', st)"
  shows "info i (rt_db s') = Some (p, st)"
proof -
  from assms(1) obtain now where d: "rt_db s' = update_threads (\<lambda>_ r. th_id r = i)
       (\<lambda>r. r\<lparr>th_purpose := p, th_updatedAt := now\<rparr>) (rt_db s)"
    by (auto simp: setPurpose_def getRequiredThread_def setThreadPurpose_def readThread_def inr_simps sql_now_def)
  from assms(2) obtain r where r: "row_of i (rt_db s) = Some r" "th_status r = st" by (auto simp: info_def)
  then have "th_id r = i" by (auto simp: row_of_def dest: first_where_Some)
  with r show ?thesis
    by (simp add: d info_def row_of_def update_threads_def first_where_map_id)
qed

lemma thread_info_manager [simp]: "thread_info (thread_manager E) i d = info i d"
  by (simp add: thread_info_row info_def)

lemma thread_manager_simps [simp]:
  "to_createScheduleThread (thread_manager E) = createScheduleThread E"
  "to_getThread (thread_manager E) = getThread E"
  "to_updateScheduleThread (thread_manager E) = updateScheduleThread E"
  "to_setPurpose (thread_manager E) = setPurpose E"
  "to_archiveScheduleThread (thread_manager E) = archiveScheduleThread E"
  by (simp_all add: thread_manager_def)

lemma info_threads: "db_threads d = db_threads d' \<Longrightarrow> info i d = info i d'"
  by (simp add: info_def row_of_def)

lemma getThread_id: "getThread E i d = Some t \<Longrightarrow> th_id t = i"
  by (auto simp: getThread_def dest: getThreadRow_Some)

lemma createScheduleThread_info:
  "createScheduleThread E q s = (Inr t, s') \<Longrightarrow> ct_purpose q = Some ScheduleTask \<Longrightarrow>
   info (th_id t) (rt_db s') = Some (ScheduleTask, Active)"
  unfolding createScheduleThread_def by (drule createRuntimeThread_Inr) (simp add: option_or_def)

interpretation tm: schedule_threads "thread_manager E"
  by (unfold_locales; unfold thread_info_manager thread_manager_simps task_def)
     (erule info_threads | erule getThread_id | erule (1) createScheduleThread_info |
      erule (1) setPurpose_info | rule thread_ops_schedules thread_ops_ok |
      (rule thread_ops_info, assumption?))+

section \<open>Live schedules keep their threads\<close>

text \<open>
  A request that reaches the daemon: an operation of the coordinator, or of the thread manager
  as the HTTP routes offer it.
\<close>

inductive schedule_step ::
  "('fs, 'e) env_scheme \<Rightarrow> ('fs, 'x) coordinator \<Rightarrow> ('fs, 'x) rt_scheme \<Rightarrow> ('fs, 'x) rt_scheme \<Rightarrow> bool"
  for E C where
  createManual: "schedule_step E C s (snd (createManual C body s))"
| createFromAgent: "schedule_step E C s (snd (createFromAgent C body a s))"
| updateManual: "schedule_step E C s (snd (updateManual C i body s))"
| updateFromAgent: "schedule_step E C s (snd (updateFromAgent C i body a s))"
| deleteSchedule: "schedule_step E C s (snd (deleteSchedule C i s))"
| createConversation: "schedule_step E C s (snd (createConversationThread E cq s))"
| createThread: "schedule_step E C s (snd (createThread E q s))"
| updateThread: "schedule_step E C s (snd (updateThread E j ut s))"
| archiveThread: "schedule_step E C s (snd (archiveThread E j s))"
| deleteThread: "schedule_step E C s (snd (deleteThread j s))"
| assignProject: "schedule_step E C s (snd (assignProject E j projectId s))"
| setCodexThreadId: "schedule_step E C s (snd (setCodexThreadId j codex s))"
| touchThread: "schedule_step E C s (snd (touchThread j s))"

lemma info_archive_task:
  "db_keeps (\<lambda>d. info i d = Some (ScheduleTask, st)) (archiveThread E j)"
proof (cases "i = j")
  case True
  show ?thesis
    unfolding db_keeps_def
  proof (rule keepsI)
    fix s :: "('a, 'b) rt_scheme" assume inf: "info i (rt_db s) = Some (ScheduleTask, st)"
    then obtain row where "getThreadRow j (rt_db s) = Some row" "th_purpose (fst row) = ScheduleTask"
      unfolding True info_getThreadRow by auto
    then have "snd (archiveThread E j s) = s" by (simp add: archiveThread_def getRequiredThread_def run_simps)
    with inf show "info i (rt_db (snd (archiveThread E j s))) = Some (ScheduleTask, st)" by simp
  qed
qed (rule keeps_rules)

lemma first_where_filter:
  "i \<noteq> j \<Longrightarrow> first_where (\<lambda>t. th_id t = i) (filter (\<lambda>t. th_id t \<noteq> j) ts) = first_where (\<lambda>t. th_id t = i) ts"
  by (induction ts) (auto simp: first_where_def)

lemma deleteThreadRow_frames:
  "i \<noteq> j \<Longrightarrow> db_keeps (\<lambda>d. info i d = Some v) (deleteThreadRow j)"
  "db_keeps (\<lambda>d. P (db_schedules d) (db_operations d)) (deleteThreadRow j)"
  "db_keeps db_ok (deleteThreadRow j)"
  unfolding deleteThreadRow_def
  by (intro keeps_rules db_keeps_write;
      simp add: delete_thread_rows_def Let_def info_def row_of_def first_where_filter)+

lemma deleteThread_frames [keeps_rules]:
  "db_keeps (\<lambda>d. P (db_schedules d) (db_operations d)) (deleteThread j)"
  "db_keeps db_ok (deleteThread j)"
  unfolding deleteThread_def getRequiredThread_def
  by (intro keeps_rules deleteThreadRow_frames)+

lemma info_delete_task:
  "db_keeps (\<lambda>d. info i d = Some (ScheduleTask, st)) (deleteThread j)"
proof (cases "i = j")
  case True
  show ?thesis
    unfolding db_keeps_def
  proof (rule keepsI)
    fix s :: "('a, 'b) rt_scheme" assume inf: "info i (rt_db s) = Some (ScheduleTask, st)"
    then obtain row where "getThreadRow j (rt_db s) = Some row" "th_purpose (fst row) = ScheduleTask"
      unfolding True info_getThreadRow by auto
    then have "snd (deleteThread j s) = s" by (simp add: deleteThread_def getRequiredThread_def run_simps)
    with inf show "info i (rt_db (snd (deleteThread j s))) = Some (ScheduleTask, st)" by simp
  qed
next
  case False
  show ?thesis
    unfolding deleteThread_def getRequiredThread_def
    by (intro keeps_rules deleteThreadRow_frames False)
qed

text \<open>A thread operation that keeps schedule tasks and schedules keeps the bindings.\<close>

lemma thread_op_sound:
  fixes m :: "('fs, 'x, 'a) io" and E :: "('fs, 'e) env_scheme"
  assumes "\<And>i. db_keeps (\<lambda>d. info i d = Some (ScheduleTask, Active)) m"
    and "\<And>S. db_keeps (\<lambda>d. db_schedules d = S) m" and "db_keeps db_ok m"
  shows "db_keeps (\<lambda>d. db_ok d \<and> bindings_valid (thread_manager E :: ('fs, 'x) thread_ops) d) m"
  unfolding db_keeps_def
proof (rule keepsI)
  let ?T = "thread_manager E :: ('fs, 'x) thread_ops"
  fix s :: "('fs, 'x) rt_scheme"
  assume s: "db_ok (rt_db s) \<and> bindings_valid ?T (rt_db s)"
  have "db_schedules (rt_db (snd (m s))) = db_schedules (rt_db s)"
    by (rule db_keepsD [OF assms(2)]) simp
  then have live: "live_schedules (rt_db (snd (m s))) = live_schedules (rt_db s)"
    by (simp add: live_schedules_def)
  have "task ?T i (rt_db s) \<Longrightarrow> task ?T i (rt_db (snd (m s)))" for i
    using db_keepsD [OF assms(1)] by (simp add: task_def)
  then have "bindings_valid ?T (rt_db (snd (m s)))"
    using s live by (auto simp: bindings_valid_def bound_def)
  with s db_keepsD [OF assms(3)] show
    "db_ok (rt_db (snd (m s))) \<and> bindings_valid ?T (rt_db (snd (m s)))" by simp
qed

lemmas http_thread_ops_sound =
  thread_op_sound [OF thread_ops_info(5) thread_ops_schedules(5) [where P = "\<lambda>x _. x = S" for S] thread_ops_ok(5)]
  thread_op_sound [OF thread_ops_info(6) thread_ops_schedules(6) [where P = "\<lambda>x _. x = S" for S] thread_ops_ok(6)]
  thread_op_sound [OF thread_ops_info(8) thread_ops_schedules(8) [where P = "\<lambda>x _. x = S" for S] thread_ops_ok(8)]
  thread_op_sound [OF info_archive_task thread_ops_schedules(7) [where P = "\<lambda>x _. x = S" for S] thread_ops_ok(7)]
  thread_op_sound [OF info_delete_task deleteThread_frames(1) [where P = "\<lambda>x _. x = S" for S] deleteThread_frames(2)]
  thread_op_sound [OF thread_ops_info(9) thread_ops_schedules(9) [where P = "\<lambda>x _. x = S" for S] thread_ops_ok(9)]
  thread_op_sound [OF thread_ops_info(10) thread_ops_schedules(10) [where P = "\<lambda>x _. x = S" for S] thread_ops_ok(10)]
  thread_op_sound [OF thread_ops_info(11) thread_ops_schedules(11) [where P = "\<lambda>x _. x = S" for S] thread_ops_ok(11)]

lemma schedule_step_sound:
  assumes step: "schedule_step E C s s'" and C: "co_threads C = thread_manager E"
    and changed: "\<And>t. rt_db (snd (co_changed C t)) = rt_db t"
    and s: "ok_state s \<and> bindings_valid (co_threads C) (rt_db s)"
  shows "ok_state s' \<and> bindings_valid (co_threads C) (rt_db s')"
proof -
  have ch: "db_keeps P (co_changed C)" for P by (simp add: db_keeps_def keeps_def changed)
  note ops = tm.operations_keep [OF C ch]
  note s' = s [unfolded C]
  from step show ?thesis
    unfolding C
    by cases (hypsubst, rule ops [THEN db_keepsD, OF s'] http_thread_ops_sound [THEN db_keepsD, OF s'])+
qed

text \<open>The bindings, read from the tables.\<close>

definition bound_row :: "db \<Rightarrow> schedule_row \<Rightarrow> bool" where
  "bound_row d r \<longleftrightarrow>
     (\<exists>t \<in> set (db_threads d). sc_threadId r = Some (th_id t) \<and> th_purpose t = ScheduleTask \<and> th_status t = Active)"

lemma info_rows:
  assumes "db_ok d"
  shows "info i d = Some (p, st) \<longleftrightarrow>
    (\<exists>t \<in> set (db_threads d). th_id t = i \<and> th_purpose t = p \<and> th_status t = st)"
proof
  assume "info i d = Some (p, st)"
  then show "\<exists>t \<in> set (db_threads d). th_id t = i \<and> th_purpose t = p \<and> th_status t = st"
    by (auto simp: info_def row_of_def dest: first_where_Some)
next
  assume "\<exists>t \<in> set (db_threads d). th_id t = i \<and> th_purpose t = p \<and> th_status t = st"
  then obtain t where t: "t \<in> set (db_threads d)" "th_id t = i" "th_purpose t = p" "th_status t = st" by blast
  have "row_of i d = Some t"
    unfolding row_of_def
    by (rule first_where_key [where k = th_id]) (use assms t in \<open>simp_all add: db_ok_iff\<close>)
  with t show "info i d = Some (p, st)" by (simp add: info_def)
qed

lemma bound_manager: "db_ok d \<Longrightarrow> bound (thread_manager E) d r = bound_row d r"
  by (auto simp: bound_def task_def info_rows bound_row_def)

lemma schedule_steps_sound:
  assumes steps: "(schedule_step E C)\<^sup>*\<^sup>* s s'" and C: "co_threads C = thread_manager E"
    and changed: "\<And>t. rt_db (snd (co_changed C t)) = rt_db t"
    and s: "ok_state s \<and> bindings_valid (co_threads C) (rt_db s)"
  shows "ok_state s' \<and> bindings_valid (co_threads C) (rt_db s')"
  using steps
proof (induction rule: rtranclp_induct)
  case base
  show ?case by (rule s)
next
  case (step t t')
  show ?case by (rule schedule_step_sound [OF step.hyps(2) C changed step.IH])
qed

text \<open>
  C26. A live schedule always has its own thread: whatever requests reach the daemon, in any
  order and whether they succeed or fail (creating, changing and deleting schedules by the user
  or by an agent, and the operations on threads the HTTP routes offer, archiving and deleting
  included), every schedule that is not deleted is bound to an existing, active thread of
  purpose schedule task, and two live schedules never share one.
\<close>
theorem schedule_bindings_kept:
  "(schedule_step E C)\<^sup>*\<^sup>* s s' \<Longrightarrow> co_threads C = thread_manager E \<Longrightarrow>
   (\<And>t. rt_db (snd (co_changed C t)) = rt_db t) \<Longrightarrow>
   ok_state s \<Longrightarrow> \<forall>r \<in> set (live_schedules (rt_db s)). bound_row (rt_db s) r \<Longrightarrow>
   (\<forall>r \<in> set (live_schedules (rt_db s')). bound_row (rt_db s') r) \<and>
   inj_on sc_threadId (set (live_schedules (rt_db s')))"
proof -
  assume steps: "(schedule_step E C)\<^sup>*\<^sup>* s s'" and C: "co_threads C = thread_manager E"
    and changed: "\<And>t. rt_db (snd (co_changed C t)) = rt_db t"
    and s: "ok_state s" "\<forall>r \<in> set (live_schedules (rt_db s)). bound_row (rt_db s) r"
  from s have "ok_state s \<and> bindings_valid (co_threads C) (rt_db s)"
    by (simp add: bindings_valid_def C bound_manager)
  from schedule_steps_sound [OF steps C changed this]
  have s': "ok_state s'" "\<forall>r \<in> set (live_schedules (rt_db s')). bound_row (rt_db s') r"
    by (auto simp: bindings_valid_def C bound_manager)
  moreover have "inj_on sc_threadId (set (live_schedules (rt_db s')))"
    by (rule inj_onI) (use s' in \<open>fastforce simp: bound_row_def intro: bound_thread_unique\<close>)
  ultimately show ?thesis by blast
qed

text \<open>
  C27. The repair at the start of the daemon leaves no loose schedule: from any database that
  meets its constraints, when \<open>ensureBindings\<close> returns, every live schedule is bound to an
  active schedule task or is switched off (disabled, with no next run), and the result counts
  every scanned schedule exactly once as repaired, failed or unchanged.
\<close>
theorem ensureBindings_complete:
  "ensureBindings C s = (Inr res, s') \<Longrightarrow> co_threads C = thread_manager E \<Longrightarrow> ok_state s \<Longrightarrow>
   (\<And>t. rt_db (snd (co_changed C t)) = rt_db t) \<Longrightarrow>
   (\<forall>q \<in> set (live_schedules (rt_db s')).
      (\<exists>i. sc_threadId q = Some i \<and> info i (rt_db s') = Some (ScheduleTask, Active)) \<or>
      \<not> sc_enabled q \<and> sc_nextRunAt q = None) \<and>
   rr_scanned res = length (live_schedules (rt_db s)) \<and>
   rr_repaired res + rr_failed res + rr_unchanged res = rr_scanned res"
proof -
  assume run: "ensureBindings C s = (Inr res, s')" and C: "co_threads C = thread_manager E"
    and ok: "ok_state s" and changed: "\<And>t. rt_db (snd (co_changed C t)) = rt_db t"
  from tm.ensureBindings_settles [OF C ok run changed] show ?thesis
    by (simp add: settled_def bound_def task_def)
qed

text \<open>The archived thread in the table\<close>

lemma archiveScheduleThread_Inr:
  assumes "archiveScheduleThread E i s = (Inr t, s')"
  shows "\<exists>r \<in> set (db_threads (rt_db s')). th_id r = i \<and> th_purpose r = ScheduleTask \<and> th_status r = Archived"
proof -
  from assms obtain j now where j: "getThreadRow i (rt_db s) = Some j" "th_purpose (fst j) = ScheduleTask"
    and d: "rt_db s' = update_threads (\<lambda>_ r. th_id r = i) (archived_thread now) (rt_db s)"
    by (auto simp: archiveScheduleThread_def getRequiredThread_def archiveThreadRow_def readThread_def
        inr_simps sql_now_def)
  from j have "fst j \<in> set (db_threads (rt_db s))" "th_id (fst j) = i"
    by (auto dest: getThreadRow_Some)
  with j(2) show ?thesis
    by (intro bexI [of _ "archived_thread now (fst j)"])
       (auto simp: d update_threads_def set_update_where archived_thread_def)
qed

text \<open>The steps of a deletion that succeeds, and what they leave in the database\<close>

lemma deleteTransaction_steps:
  assumes "deleteTransaction C i s = (Inr u, s')" and C: "co_threads C = thread_manager E"
  obtains e k x s1 s2 t3 s3 so where
    "e \<in> set (live_schedules (rt_db s))" "sc_id e = i" "sc_threadId e = Some k" "\<not> co_hasActiveRun C k s"
    "updateSchedule i disabled s = (Inr x, s1)" "softDelete i s1 = (Inr True, s2)"
    "archiveScheduleThread E k s2 = (Inr t3, s3)"
    "insertOperation (operation i OpDelete OsSucceeded) UserActor s3 = (Inr so, s')"
proof -
  from assms(1) [unfolded deleteTransaction_def db_transaction_ok] obtain e k t x s1 s2 t3 s3 so where
    e: "getById i (rt_db s) = Some e" "sc_threadId e = Some k" and
    t: "getThread E k (rt_db s) = Some t" and active: "\<not> co_hasActiveRun C (th_id t) s" and
    2: "updateSchedule i disabled s = (Inr x, s1)" and
    3: "softDelete i s1 = (Inr True, s2)" and
    4: "archiveScheduleThread E (th_id t) s2 = (Inr t3, s3)" and
    5: "insertOperation (operation i OpDelete OsSucceeded) UserActor s3 = (Inr so, s')"
    by (auto simp: inr_simps C requireScheduleThread_def requireSchedule_def)
  have "th_id t = k" using getThread_id [OF t] .
  with that getById_Some [OF e(1)] e(2) active 2 3 4 5 show thesis by blast
qed

lemma remove_updated:
  assumes "\<And>r. sc_id (f r) = sc_id r"
  shows "filter (\<lambda>r. sc_id r \<noteq> i) (update_where (\<lambda>r. sc_id r = i \<and> live r) f rs) = filter (\<lambda>r. sc_id r \<noteq> i) rs"
  using assms by (induction rs) (auto simp: update_where_def)

lemma deleted_live:
  assumes 2: "updateSchedule i disabled s = (Inr x, s1)" and 3: "softDelete i s1 = (Inr True, s2)"
  shows "live_schedules (rt_db s2) = filter (\<lambda>r. sc_id r \<noteq> i) (live_schedules (rt_db s))"
    and "db_operations (rt_db s2) = db_operations (rt_db s)"
proof -
  from updateSchedule_Inr [OF 2] obtain now where
    d1: "rt_db s1 = update_schedules (\<lambda>r. sc_id r = i \<and> live r)
          (\<lambda>r. (updateEntries disabled r)\<lparr>sc_updatedAt := now\<rparr>) (rt_db s)"
    by (auto simp: disabled_def no_update_def)
  from softDelete_Inr [OF 3] obtain now' where
    d2: "rt_db s2 = update_schedules (\<lambda>r. sc_id r = i \<and> live r)
      (\<lambda>r. r\<lparr>sc_deletedAt := Some now', sc_updatedAt := now'\<rparr>) (rt_db s1)" by blast
  show "live_schedules (rt_db s2) = filter (\<lambda>r. sc_id r \<noteq> i) (live_schedules (rt_db s))"
    unfolding d2 live_schedules_softDelete d1
    by (simp add: live_schedules_update remove_updated)
  show "db_operations (rt_db s2) = db_operations (rt_db s)"
    by (simp add: d2 d1 update_schedules_def)
qed

lemma deleteTransaction_database:
  assumes 2: "updateSchedule i disabled s = (Inr x, s1)" and 3: "softDelete i s1 = (Inr True, s2)"
    and 4: "archiveScheduleThread E k s2 = (Inr t3, s3)"
    and 5: "insertOperation (operation i OpDelete OsSucceeded) UserActor s3 = (Inr so, s')"
  shows "live_schedules (rt_db s') = filter (\<lambda>r. sc_id r \<noteq> i) (live_schedules (rt_db s))"
    and "db_operations (rt_db s') = db_operations (rt_db s) @ [so]"
    and "so_scheduleId so = i \<and> so_operation so = OpDelete \<and> so_status so = OsSucceeded"
    and "\<exists>t \<in> set (db_threads (rt_db s')). th_id t = k \<and> th_purpose t = ScheduleTask \<and> th_status t = Archived"
proof -
  from db_keepsD [OF thread_ops_schedules(4) [where P = "\<lambda>S so. S = db_schedules (rt_db s2) \<and> so = db_operations (rt_db s2)"], of s2 E k] 4
  have same3: "db_schedules (rt_db s3) = db_schedules (rt_db s2)" "db_operations (rt_db s3) = db_operations (rt_db s2)"
    by simp_all
  note ins = insertOperation_Inr [OF 5]
  note d5 = conjunct1 [OF ins]
  have so: "\<exists>a b. so = operation_row_of a b (operation i OpDelete OsSucceeded) UserActor"
    by (intro exI) (rule conjunct2 [OF conjunct2 [OF ins]])
  show "live_schedules (rt_db s') = filter (\<lambda>r. sc_id r \<noteq> i) (live_schedules (rt_db s))"
    using deleted_live(1) [OF 2 3] by (simp add: live_schedules_def d5 same3)
  show "db_operations (rt_db s') = db_operations (rt_db s) @ [so]"
    using deleted_live(2) [OF 2 3] by (simp add: d5 same3)
  show "so_scheduleId so = i \<and> so_operation so = OpDelete \<and> so_status so = OsSucceeded"
    using so by (auto simp: operation_row_of_def operation_def)
  show "\<exists>t \<in> set (db_threads (rt_db s')). th_id t = k \<and> th_purpose t = ScheduleTask \<and> th_status t = Archived"
    using archiveScheduleThread_Inr [OF 4] by (simp add: d5)
qed

text \<open>
  C28. Deleting a schedule is all or nothing: a refused request leaves the whole database as it
  was; otherwise the schedule had its own thread without an active run, the schedule and nothing
  else leaves the live schedules, its thread is archived, and one \<^verbatim>\<open>delete\<close> operation of it is
  recorded.
\<close>
theorem deleteTransaction_outcome:
  "co_threads C = thread_manager E \<Longrightarrow>
   (case deleteTransaction C i s of
      (Inl e, s') \<Rightarrow> rt_db s' = rt_db s
    | (Inr _, s') \<Rightarrow>
        (\<exists>r k so. r \<in> set (live_schedules (rt_db s)) \<and> sc_id r = i \<and> sc_threadId r = Some k \<and>
           \<not> co_hasActiveRun C k s \<and>
           live_schedules (rt_db s') = filter (\<lambda>q. sc_id q \<noteq> i) (live_schedules (rt_db s)) \<and>
           (\<exists>t \<in> set (db_threads (rt_db s')). th_id t = k \<and> th_purpose t = ScheduleTask \<and> th_status t = Archived) \<and>
           db_operations (rt_db s') = db_operations (rt_db s) @ [so] \<and>
           so_scheduleId so = i \<and> so_operation so = OpDelete \<and> so_status so = OsSucceeded))"
proof -
  assume C: "co_threads C = thread_manager E"
  show ?thesis
  proof (cases "deleteTransaction C i s")
    case (Pair res s')
    show ?thesis
    proof (cases res)
      case (Inl e)
      with Pair show ?thesis unfolding deleteTransaction_def by (simp add: db_transaction_error)
    next
      case (Inr u)
      with Pair have "deleteTransaction C i s = (Inr u, s')" by simp
      then obtain e k x s1 s2 t3 s3 so where
        e: "e \<in> set (live_schedules (rt_db s))" "sc_id e = i" "sc_threadId e = Some k" "\<not> co_hasActiveRun C k s"
        and steps: "updateSchedule i disabled s = (Inr x, s1)" "softDelete i s1 = (Inr True, s2)"
          "archiveScheduleThread E k s2 = (Inr t3, s3)"
          "insertOperation (operation i OpDelete OsSucceeded) UserActor s3 = (Inr so, s')"
        using C by (rule deleteTransaction_steps)
      from e deleteTransaction_database [OF steps] show ?thesis
        unfolding Pair Inr prod.case sum.case by blast
    qed
  qed
qed

section \<open>Instances\<close>

definition sample_coordinator :: "(string list, unit) coordinator" where
  "sample_coordinator =
     \<lparr>co_env = sample_sched_env, co_threads = thread_manager sample_sched_env,
      co_hasActiveRun = (\<lambda>_ _. False), co_defaultCwd = ''/a'', co_changed = ret ()\<rparr>"

lemma sample_coordinator_simps [simp]:
  "co_threads sample_coordinator = thread_manager sample_sched_env"
  "rt_db (snd (co_changed sample_coordinator t)) = rt_db t"
  by (simp_all add: sample_coordinator_def run_simps)

text \<open>A first schedule, created over the empty database\<close>

definition sample_created :: "string list rt" where
  "sample_created = snd (createManual sample_coordinator sample_body (sample_rt empty_db))"

lemma sample_empty: "ok_state (sample_rt empty_db)" "live_schedules (rt_db (sample_rt empty_db)) = []"
  unfolding db_ok_def sample_rt_def rt.simps by code_simp+

lemma schedule_bindings_kept_witness:
  "\<exists>r. live_schedules (rt_db sample_created) = [r] \<and> bound_row (rt_db sample_created) r"
proof -
  have "length (live_schedules (rt_db sample_created)) = 1" by code_simp
  then obtain r where r: "live_schedules (rt_db sample_created) = [r]"
    by (metis One_nat_def length_0_conv length_Suc_conv)
  have "schedule_step sample_sched_env sample_coordinator (sample_rt empty_db) sample_created"
    unfolding sample_created_def by (rule schedule_step.createManual)
  from schedule_bindings_kept [OF r_into_rtranclp, OF this] sample_empty r show ?thesis by simp
qed

definition sample_loose :: "string list rt" where
  "sample_loose = sample_created\<lparr>rt_db := (rt_db sample_created)\<lparr>db_threads := []\<rparr>\<rparr>"

lemma ensureBindings_complete_witness:
  "\<exists>res s'. ensureBindings sample_coordinator sample_loose = (Inr res, s') \<and> rr_scanned res = 1 \<and>
     (\<forall>q \<in> set (live_schedules (rt_db s')).
        (\<exists>i. sc_threadId q = Some i \<and> info i (rt_db s') = Some (ScheduleTask, Active)) \<or>
        \<not> sc_enabled q \<and> sc_nextRunAt q = None)"
proof -
  let ?run = "ensureBindings sample_coordinator sample_loose"
  have "case fst ?run of Inl _ \<Rightarrow> False | Inr _ \<Rightarrow> True" by code_simp
  then obtain res s' where run: "?run = (Inr res, s')" by (cases ?run) (auto split: sum.splits)
  have ok: "ok_state sample_loose" unfolding db_ok_def by code_simp
  have "length (live_schedules (rt_db sample_loose)) = 1" by code_simp
  with ensureBindings_complete [OF run _ ok, where E = sample_sched_env] run show ?thesis by simp
qed

lemma deleteTransaction_outcome_witness:
  "\<exists>s'. deleteTransaction sample_coordinator (sc_id (hd (live_schedules (rt_db sample_created)))) sample_created = (Inr (), s') \<and>
     map sc_id (live_schedules (rt_db s')) = []"
proof -
  let ?i = "sc_id (hd (live_schedules (rt_db sample_created)))"
  let ?run = "deleteTransaction sample_coordinator ?i sample_created"
  have "case fst ?run of Inl _ \<Rightarrow> False | Inr _ \<Rightarrow> True" by code_simp
  then obtain s' where run: "?run = (Inr (), s')" by (cases ?run) (auto split: sum.splits)
  have "filter (\<lambda>x. x \<noteq> ?i) (map sc_id (live_schedules (rt_db sample_created))) = []" by code_simp
  then have "map sc_id (filter (\<lambda>q. sc_id q \<noteq> ?i) (live_schedules (rt_db sample_created))) = []"
    by (simp add: filter_map comp_def)
  with deleteTransaction_outcome [where C = sample_coordinator and E = sample_sched_env and i = ?i and s = sample_created] run show ?thesis by auto
qed

end
