(* ===== verification/DaemonSchedules.thy ===== *)
theory DaemonSchedules
  imports DaemonRuns ScheduleTimers ScheduleBindings
begin

text \<open>
  The scheduler service as the daemon builds it, \<^verbatim>\<open>api/server.ts\<close> lines 671 to 687: it starts its runs
  with the run manager of theory \<open>DaemonRuns\<close>, which leaves the tables and the timers of the scheduler
  alone (the interpretation \<open>service\<close>).
\<close>

section \<open>The composition\<close>

text \<open>The texts of the execution prompt, and \<^verbatim>\<open>toISOString\<close>\<close>

type_synonym schedule_texts = "string list \<times> (string \<times> string \<times> string) \<times> (ms \<Rightarrow> string)"

definition daemon_scheduler ::
  "'fs sched_env \<Rightarrow> schedule_texts \<Rightarrow> 'fs daemon_config \<Rightarrow> ('fs, _) scheduler" where
  "daemon_scheduler E X D =
     \<lparr>ss_env = E, ss_startRun = startRun (daemon_options D), ss_hasActive = hasActiveRunForThread,
      ss_graceMs = None, ss_rules = fst X, ss_labels = fst (snd X), ss_isoTime = snd (snd X),
      ss_timers = (\<lambda>s :: 'fs daemon_state. dm_timers s),
      ss_setTimers = (\<lambda>f s. s\<lparr>dm_timers := f (dm_timers s)\<rparr>)\<rparr>"

lemma daemon_scheduler_simps [simp]:
  "ss_env (daemon_scheduler E X D) = E"
  "ss_startRun (daemon_scheduler E X D) = startRun (daemon_options D)"
  "ss_hasActive (daemon_scheduler E X D) = hasActiveRunForThread"
  "ss_timers (daemon_scheduler E X D) s = dm_timers s"
  "ss_setTimers (daemon_scheduler E X D) f s = s\<lparr>dm_timers := f (dm_timers s)\<rparr>"
  "triggerGraceMs (daemon_scheduler E X D) = 30000"
  by (simp_all add: daemon_scheduler_def triggerGraceMs_def DEFAULT_TRIGGER_GRACE_MS_def option_or_def)

section \<open>The contracts\<close>

lemma frame_outside: "outside_property (schedule_frame s0)"
  by (rule outside_property.intro) (auto simp: schedule_frame_def outside_same_def)

lemma frame_callbacks:
  fixes s0 :: "'fs daemon_state"
  shows "callbacks_keep (schedule_frame s0) (daemon_options D)"
proof (rule daemon_callbacks [OF frame_outside])
  show "schedule_frame s0 s \<Longrightarrow> schedule_frame s0 (revoke_run i s)" for i and s :: "'fs daemon_state"
    by (simp add: schedule_frame_def revoke_run_def)
  show "keeps (schedule_frame s0) (cancel_approvals i reason)" for i reason
    by (auto simp: keeps_def cancel_approvals_def Let_def schedule_frame_def split: prod.splits sum.splits)
qed

lemma timers_outside: "outside_property (\<lambda>s :: 'fs daemon_state. dm_timers s = t)"
proof (rule outside_property.intro)
  fix s s' :: "'fs daemon_state"
  assume "dm_timers s = t" and "outside_same s s'"
  then show "dm_timers s' = t" by (cases s; cases s') (simp add: outside_same_def)
qed simp

lemma timers_callbacks:
  fixes D :: "'fs daemon_config"
  shows "callbacks_keep (\<lambda>s. dm_timers s = t) (daemon_options D)"
proof (rule daemon_callbacks [OF timers_outside])
  show "dm_timers s = t \<Longrightarrow> dm_timers (revoke_run i s) = t" for i and s :: "'fs daemon_state"
    by (simp add: revoke_run_def)
  show "keeps (\<lambda>s :: 'fs daemon_state. dm_timers s = t) (cancel_approvals i reason)" for i reason
    by (auto simp: keeps_def cancel_approvals_def Let_def split: prod.splits sum.splits)
qed

interpretation service: schedule_timers "daemon_scheduler E X D" for E X and D :: "'fs daemon_config"
proof
  fix q s x f and s' :: "'fs daemon_state"
  assume "ss_startRun (daemon_scheduler E X D) q s = (x, s')"
  then have run: "startRun (daemon_options D) q s = (x, s')" by simp
  show "schedule_frame s s'"
    by (rule keeps_result [OF callbacks_keep.more_startRun [OF frame_callbacks] frame_refl run])
  show "ss_timers (daemon_scheduler E X D) s' = ss_timers (daemon_scheduler E X D) s"
    using keeps_result [OF callbacks_keep.more_startRun [OF timers_callbacks] refl run] by simp
next
  fix s s' :: "'fs daemon_state" and f
  show "schedule_frame s (ss_setTimers (daemon_scheduler E X D) f s)" by (simp add: schedule_frame_def)
  show "ss_timers (daemon_scheduler E X D) (ss_setTimers (daemon_scheduler E X D) f s) =
      f (ss_timers (daemon_scheduler E X D) s)" by simp
  assume "rt.more s' = rt.more s"
  then show "ss_timers (daemon_scheduler E X D) s' = ss_timers (daemon_scheduler E X D) s"
    by (cases s; cases s') simp
qed

section \<open>Properties\<close>

text \<open>
  C4. The timer refines the abstract scheduler. From a state in which the constraints hold, its pass
  always returns, and the schedules and the log of operations change by exactly the choices made for
  the due schedules, one after the other: the expression fails, the trigger is too late, the schedule
  is unbound, its thread is busy and the trigger is skipped or queued, the run cannot be started, or it
  is. So one schedule that fails does not stop the others, and nothing else changes.
\<close>

theorem timer_refines_choices:
  fixes s :: "'fs daemon_state"
  assumes "ready_state s" and "processDueSchedules (daemon_scheduler E X D) s = (x, s')"
    and "now = rt_now s (rt_tick s)" and "due = listDue now (rt_db s)"
    and "cs = due_choices (daemon_scheduler E X D) now due (s\<lparr>rt_tick := Suc (rt_tick s)\<rparr>)"
  shows "x = Inr () \<and> ready_state s' \<and> view (rt_db s') = due_pass now (zip due cs) (view (rt_db s))"
proof -
  obtain s1 where "processDueSchedules (daemon_scheduler E X D) s = (Inr (), s1)" "ready_state s1"
    "view (rt_db s1) = due_pass now (zip due cs) (view (rt_db s))"
    unfolding assms(5) by (rule service.processDueSchedules_moves [OF assms(1,3) refl assms(4)])
  then show ?thesis using assms(2) by simp
qed

text \<open>
  C14. No schedule is triggered twice for one time: if the next run that an expression gives is later
  than now, then after the pass of the timer no schedule is due at the time of the pass any more,
  except one whose expression gives no next run.
\<close>

theorem nothing_stays_due:
  fixes s :: "'fs daemon_state"
  assumes "ready_state s" and "now = rt_now s (rt_tick s)"
    and "processDueSchedules (daemon_scheduler E X D) s = (x, s')"
    and "\<And>c z t. computeNextRunAt E c z now = Inr t \<Longrightarrow> now < t"
    and "r \<in> set (listDue now (rt_db s'))"
  shows "\<exists>e. computeNextRunAt E (sc_cron r) (sc_timezone r) now = Inl e"
  using service.due_left [OF assms(1-3) _ assms(5)] assms(4) by simp

text \<open>
  C15. A queued trigger is not lost. After a pass over the queue, each trigger that was in it still
  waits, its schedule unchanged and bound to a thread; or it has left the queue and the last status
  is a failure; or it has left the queue, and the run it has started is the last run of the schedule
  and in the log.
\<close>

theorem queued_trigger_kept:
  fixes s :: "'fs daemon_state"
  assumes "ready_state s" and "processPendingTriggers (daemon_scheduler E X D) s = (x, s')"
    and "r \<in> set (listPendingTriggers (rt_db s))"
  shows "\<exists>r'. getById (sc_id r) (rt_db s') = Some r' \<and>
    (erase r' = erase r \<and> sc_threadId r \<noteq> None \<or>
     \<not> sc_pendingTrigger r' \<and> sc_lastStatus r' = Some (LsRun PFailed) \<or>
     \<not> sc_pendingTrigger r' \<and> (\<exists>j. sc_lastRunId r' = Some j \<and>
        (sc_id r, OpRunQueued, OsSucceeded, Some j) \<in> set (op_log (rt_db s'))))"
  by (rule service.pending_left [OF assms]) blast

text \<open>
  C13. A request to run a schedule now does what \<open>decide\<close> says of the state it finds: a busy thread
  means that the trigger is skipped or queued, as the policy of the schedule says, otherwise the run
  manager is asked for a run; the schedule and the log change accordingly, and the response tells
  the outcome. A schedule that does not exist is refused, and nothing changes.
\<close>

theorem runNow_outcome:
  fixes s :: "'fs daemon_state"
  assumes "ready_state s" and "runNow (daemon_scheduler E X D) i who s = (x, s')" and "now = rt_now s (rt_tick s)"
  shows "case getById i (rt_db s) of
      None \<Rightarrow> x = Inl schedule_not_found \<and> s' = s
    | Some r \<Rightarrow>
        (let out = decide (daemon_scheduler E X D) r RunNow now (s\<lparr>rt_tick := Suc (rt_tick s)\<rparr>) in
         view (rt_db s') = abstract_step i (after now out) (logged RunNow out) (view (rt_db s)) \<and>
         answers (rt_db s') i out x)"
proof (cases "getById i (rt_db s)")
  case None
  then show ?thesis using assms(2) by (simp add: runNow_def requireSchedule_def run_simps)
next
  case (Some r)
  let ?out = "decide (daemon_scheduler E X D) r RunNow now (s\<lparr>rt_tick := Suc (rt_tick s)\<rparr>)"
  obtain x1 s1 where "runNow (daemon_scheduler E X D) i who s = (x1, s1)"
    "moves i (after now ?out) (logged RunNow ?out) s s1" "answers (rt_db s1) i ?out x1"
    by (rule service.runNow_moves [OF assms(1) Some assms(3) refl])
  then show ?thesis using assms(2) Some moves_view by (simp add: Let_def)
qed

text \<open>
  C5. The scheduler does not fall asleep by what it does itself. The operations that the service exports
  (starting and stopping it, refreshing its timer, listing schedules, reading one or its operations, a
  request to run one) and its two timers keep this (\<open>watchful\<close>, \<open>armed\<close>): while the service is started,
  its timer is set exactly if an enabled schedule has a next run, with a delay between 0 and the largest
  one that \<^verbatim>\<open>setTimeout\<close> takes, and its queue timer is set exactly if a trigger is in the queue; a stopped
  service has no timer. Starting the service brings this about in any state in which the constraints
  hold. When others change the schedules they call \<^verbatim>\<open>refreshTimer\<close>, which sets the timer right in any
  such state; of the queue timer nothing is said then.
\<close>

theorem service_stays_armed:
  fixes D :: "'fs daemon_config"
  shows "keeps (watchful (daemon_scheduler E X D)) (start_service (daemon_scheduler E X D)) \<and>
    keeps (watchful (daemon_scheduler E X D)) (stop_service (daemon_scheduler E X D)) \<and>
    keeps (watchful (daemon_scheduler E X D)) (refreshTimer (daemon_scheduler E X D)) \<and>
    keeps (watchful (daemon_scheduler E X D)) listSchedules \<and>
    keeps (watchful (daemon_scheduler E X D)) (getSchedule i) \<and>
    keeps (watchful (daemon_scheduler E X D)) (service_operations i limit) \<and>
    keeps (watchful (daemon_scheduler E X D)) (runNow (daemon_scheduler E X D) i who) \<and>
    keeps (watchful (daemon_scheduler E X D)) (due_timer_fires (daemon_scheduler E X D)) \<and>
    keeps (watchful (daemon_scheduler E X D)) (queue_timer_fires (daemon_scheduler E X D)) \<and>
    (\<forall>s. ready_state s \<longrightarrow>
       watchful (daemon_scheduler E X D) (snd (start_service (daemon_scheduler E X D) s)) \<and>
       tm_started (dm_timers (snd (start_service (daemon_scheduler E X D) s))) \<and>
       timer_right (dm_timers (snd (refreshTimer (daemon_scheduler E X D) s))) (rt_db (snd (refreshTimer (daemon_scheduler E X D) s))))"
proof (intro conjI allI impI)
  fix s :: "'fs daemon_state"
  assume ready: "ready_state s"
  show "watchful (daemon_scheduler E X D) (snd (start_service (daemon_scheduler E X D) s))"
    using service.start_ready [OF ready] service.start_arms(1) [OF ready] by (simp add: watchful_def)
  show "tm_started (dm_timers (snd (start_service (daemon_scheduler E X D) s)))"
    using service.start_arms(2) [OF ready] by simp
  show "timer_right (dm_timers (snd (refreshTimer (daemon_scheduler E X D) s))) (rt_db (snd (refreshTimer (daemon_scheduler E X D) s)))"
    using service.refreshTimer_armed(2) [OF ready] by simp
qed (rule service.start_armed service.stop_armed service.refreshTimer_keeps service.requests_armed service.service_armed)+

section \<open>Witnesses\<close>

definition sample_schedule :: schedule_row where
  "sample_schedule =
     \<lparr>sc_id = ''s1'', sc_threadId = Some ''t3'', sc_name = ''Report'', sc_cron = ''* * * * *'',
      sc_timezone = ''UTC'', sc_enabled = True, sc_prompt = ''Go'', sc_promptHash = ''h'',
      sc_promptPreviewRedacted = ''Go'', sc_profile = ''p'', sc_cwd = ''/a'', sc_canonicalCwd = ''/a'',
      sc_model = None, sc_reasoning = None, sc_sandbox = WorkspaceWrite, sc_timeoutMs = None,
      sc_concurrencyPolicy = CpQueue, sc_nextRunAt = Some 0, sc_lastRunAt = None, sc_lastRunId = None,
      sc_lastStatus = None, sc_pendingTrigger = True, sc_createdAt = 0, sc_updatedAt = 0,
      sc_deletedAt = None\<rparr>"

definition sample_scheduled :: "string list daemon_state" where
  "sample_scheduled = sample_daemon\<lparr>rt_db := (rt_db sample_daemon)\<lparr>db_schedules := [sample_schedule]\<rparr>\<rparr>"

definition sample_service where
  "sample_service = daemon_scheduler sample_sched_env ([], ([], [], []), \<lambda>_. []) sample_config"

lemma sample_scheduled_ready: "ready_state sample_scheduled"
proof -
  have "ok_state sample_scheduled" unfolding db_ok_def by code_simp
  then show ?thesis
    by (auto simp: ids_ok_def sample_scheduled_def sample_daemon_def sample_rt_def rt.defs empty_db_def inj_on_def
      dest: arg_cong [of _ _ length])
qed

lemma sample_listed:
  "listDue 0 (rt_db sample_scheduled) = [sample_schedule]" "listPendingTriggers (rt_db sample_scheduled) = [sample_schedule]"
  "getById ''s1'' (rt_db sample_scheduled) = Some sample_schedule" "rt_now sample_scheduled (rt_tick sample_scheduled) = 0"
  by code_simp+

lemma timer_refines_choices_witness:
  "\<exists>s' cs. processDueSchedules sample_service sample_scheduled = (Inr (), s') \<and> length cs = 1 \<and>
     view (rt_db s') = due_pass 0 (zip [sample_schedule] cs) (view (rt_db sample_scheduled))"
proof -
  let ?cs = "due_choices sample_service 0 [sample_schedule] (sample_scheduled\<lparr>rt_tick := Suc (rt_tick sample_scheduled)\<rparr>)"
  obtain x s' where run: "processDueSchedules sample_service sample_scheduled = (x, s')" by fastforce
  have "length ?cs = 1" by (simp add: due_choices_def)
  then show ?thesis
    using timer_refines_choices [OF sample_scheduled_ready run [unfolded sample_service_def] refl refl refl] run
    unfolding sample_listed sample_service_def by blast
qed

lemma service_stays_armed_witness:
  "armed sample_service (snd (start_service sample_service sample_scheduled)) \<and>
   tm_timer (dm_timers (snd (start_service sample_service sample_scheduled))) = Some 0 \<and>
   tm_queueTimer (dm_timers (snd (start_service sample_service sample_scheduled)))"
proof -
  have "watchful sample_service (snd (start_service sample_service sample_scheduled))"
    unfolding sample_service_def using service_stays_armed sample_scheduled_ready by blast
  moreover have "tm_timer (dm_timers (snd (start_service sample_service sample_scheduled))) = Some 0 \<and>
      tm_queueTimer (dm_timers (snd (start_service sample_service sample_scheduled)))"
    by code_simp
  ultimately show ?thesis by (simp add: watchful_def)
qed

lemma nothing_stays_due_witness:
  "filter (\<lambda>r. sc_cron r \<noteq> ''bad'')
     (listDue 0 (rt_db (snd (processDueSchedules sample_service sample_scheduled)))) = []"
proof -
  let ?run = "processDueSchedules sample_service sample_scheduled"
  have "sc_cron r = ''bad''" if "r \<in> set (listDue 0 (rt_db (snd ?run)))" for r
  proof -
    have "computeNextRunAt sample_sched_env c z 0 = Inr t \<Longrightarrow> 0 < t" for c z t
      by (auto simp: computeNextRunAt_def sample_sched_env_def env.defs split: if_splits)
    then have "\<exists>e. computeNextRunAt sample_sched_env (sc_cron r) (sc_timezone r) 0 = Inl e"
      using that nothing_stays_due [OF sample_scheduled_ready sample_listed(4) [symmetric]
          prod.collapse [of ?run, symmetric, unfolded sample_service_def]]
      unfolding sample_service_def by blast
    then show "sc_cron r = ''bad''"
      by (auto simp: computeNextRunAt_def sample_sched_env_def env.defs split: if_splits)
  qed
  then show ?thesis by (simp add: filter_empty_conv)
qed

lemma queued_trigger_kept_witness:
  "\<exists>r'. getById ''s1'' (rt_db (snd (processPendingTriggers sample_service sample_scheduled))) = Some r'"
proof -
  have "sc_id sample_schedule = ''s1''" by (simp add: sample_schedule_def)
  then show ?thesis
    using queued_trigger_kept [OF sample_scheduled_ready prod.collapse [symmetric], of sample_schedule] sample_listed(2)
    unfolding sample_service_def by fastforce
qed

lemma runNow_outcome_witness:
  "answers (rt_db (snd (runNow sample_service ''s1'' UserActor sample_scheduled))) ''s1''
     (decide sample_service sample_schedule RunNow 0 (sample_scheduled\<lparr>rt_tick := Suc (rt_tick sample_scheduled)\<rparr>))
     (fst (runNow sample_service ''s1'' UserActor sample_scheduled))"
  using runNow_outcome [OF sample_scheduled_ready prod.collapse [symmetric] sample_listed(4) [symmetric], of _ _ _ "''s1''"]
  by (simp add: sample_listed(3) Let_def sample_service_def)

end
