(* ===== verification/EventNormalizer.thy ===== *)
theory EventNormalizer
  imports CodexArgs
begin

text \<open>
  The normalizer of the events that Codex reports, \<^verbatim>\<open>events/normalizer.ts\<close>: it turns a line of
  \<^verbatim>\<open>codex exec\<close> or a notification of the app server, of which nothing is known, into an event of the
  protocol.

  \<^item> \<open>envelope\<close> is \<^verbatim>\<open>AgentEventEnvelope\<close>; the payload is the JSON object that the code writes.
  \<^item> \<open>ty\<close> are the types that \<^verbatim>\<open>protocol/src/events.ts\<close> uses for payloads, \<open>has_type\<close> decides whether a value
    has one, and \<open>payload_type\<close> is the payload type of an event type. The main theorem is that every
    event of the normalizers has a payload of its type.
  \<^item> \<open>normalizer_texts\<close> are the literals in Chinese.
\<close>

section \<open>Reading unknown values\<close>

type_synonym json_record = "(string \<times> json) list"

definition record_of :: "json \<Rightarrow> json_record option" where
  "record_of v = (case v of JObj r \<Rightarrow> Some r | _ \<Rightarrow> None)"

text \<open>\<^verbatim>\<open>r?.k\<close>\<close>

definition field_of :: "json_record option \<Rightarrow> string \<Rightarrow> json" where
  "field_of r k =
     (case r of None \<Rightarrow> JUndefined | Some kvs \<Rightarrow> (case map_of kvs k of None \<Rightarrow> JUndefined | Some v \<Rightarrow> v))"

definition stringValue :: "json \<Rightarrow> string option" where
  "stringValue v = (case v of JStr s \<Rightarrow> Some s | _ \<Rightarrow> None)"

definition numberValue :: "json \<Rightarrow> rat option" where
  "numberValue v = (case v of JNum q \<Rightarrow> Some q | _ \<Rightarrow> None)"

definition string_or :: "json \<Rightarrow> string \<Rightarrow> string" where
  "string_or v s = (case stringValue v of None \<Rightarrow> s | Some t \<Rightarrow> t)"

fun firstStringValue :: "json_record \<Rightarrow> string list \<Rightarrow> string option" where
  "firstStringValue r [] = None"
| "firstStringValue r (k # ks) =
     (case stringValue (field_of (Some r) k) of
        Some v \<Rightarrow> if js_trim v \<noteq> [] then Some v else firstStringValue r ks
      | None \<Rightarrow> firstStringValue r ks)"

text \<open>\<^verbatim>\<open>v ?? vs\<close>\<close>

fun nullish :: "json \<Rightarrow> json list \<Rightarrow> json" where
  "nullish v [] = v"
| "nullish v (w # ws) = (if v = JNull \<or> v = JUndefined then nullish w ws else v)"

definition optional_string :: "string \<Rightarrow> string option \<Rightarrow> json_record" where
  "optional_string k x = (case x of None \<Rightarrow> [] | Some s \<Rightarrow> [(k, JStr s)])"

definition number_or_undefined :: "json \<Rightarrow> json" where
  "number_or_undefined v = (case numberValue v of None \<Rightarrow> JUndefined | Some q \<Rightarrow> JNum q)"

definition string_or_undefined :: "json \<Rightarrow> json" where
  "string_or_undefined v = (case stringValue v of None \<Rightarrow> JUndefined | Some s \<Rightarrow> JStr s)"

section \<open>Parts of events\<close>

definition normalizeFileChangeKind :: "json \<Rightarrow> string" where
  "normalizeFileChangeKind v =
     (if v = JStr ''add'' then ''add'' else if v = JStr ''modify'' then ''modify''
      else if v = JStr ''delete'' then ''delete'' else ''unknown'')"

definition normalizeFileChangeStatus :: "json \<Rightarrow> string" where
  "normalizeFileChangeStatus v =
     (if v = JStr ''in_progress'' then ''in_progress'' else if v = JStr ''completed'' then ''completed''
      else if v = JStr ''failed'' then ''failed'' else ''unknown'')"

definition change_record :: "json \<Rightarrow> json_record" where
  "change_record v = (case record_of v of None \<Rightarrow> [] | Some r \<Rightarrow> r)"

definition extractFileChanges :: "json \<Rightarrow> json" where
  "extractFileChanges v =
     (case v of
        JArr xs \<Rightarrow> JArr (map (\<lambda>c.
          JObj [(''path'', JStr (string_or (field_of (Some (change_record c)) ''path'') [])),
                (''kind'', JStr (normalizeFileChangeKind (field_of (Some (change_record c)) ''kind'')))]) xs)
      | _ \<Rightarrow> JArr [])"

lemma size_field: "v = field_of (Some r) k \<Longrightarrow> size v < size (JObj r)"
proof -
  have "(k', w) \<in> set r \<Longrightarrow> size w < size (JObj r)" for k' w
    by (induction r) auto
  moreover have "map_of r k = Some w \<Longrightarrow> (k, w) \<in> set r" for w by (rule map_of_SomeD)
  ultimately show "v = field_of (Some r) k \<Longrightarrow> size v < size (JObj r)"
    by (auto simp: field_of_def split: option.splits)
qed

lemma nullish_cases: "nullish v ws \<in> set (v # ws)"
  by (induction v ws rule: nullish.induct) auto

function (sequential) extractReasoningSummary :: "json \<Rightarrow> string option" where
  "extractReasoningSummary (JStr s) = (if js_trim s = [] then None else Some (js_trim s))"
| "extractReasoningSummary (JArr xs) =
     (let parts = filter (\<lambda>p. p \<noteq> []) (concat (map (\<lambda>x. case extractReasoningSummary x of None \<Rightarrow> [] | Some p \<Rightarrow> [p]) xs))
      in if parts = [] then None else Some (join_with [CHR 0x0A, CHR 0x0A] parts))"
| "extractReasoningSummary (JObj r) =
     (case firstStringValue r [''text'', ''summary_text'', ''content'', ''message''] of
        Some t \<Rightarrow> Some t
      | None \<Rightarrow> extractReasoningSummary
          (nullish (field_of (Some r) ''summary'')
            [field_of (Some r) ''summaries'', field_of (Some r) ''content'', field_of (Some r) ''parts'']))"
| "extractReasoningSummary _ = None"
  by pat_completeness auto

termination
proof (relation "measure size")
  show "x \<in> set xs \<Longrightarrow> (x, JArr xs) \<in> measure size" for x xs
    by (induction xs) auto
  show "(nullish (field_of (Some r) ''summary'')
      [field_of (Some r) ''summaries'', field_of (Some r) ''content'', field_of (Some r) ''parts''], JObj r) \<in> measure size" for r
    using nullish_cases [of "field_of (Some r) ''summary''"
        "[field_of (Some r) ''summaries'', field_of (Some r) ''content'', field_of (Some r) ''parts'']"] size_field
    by auto
qed simp

definition isReasoningItemType :: "string option \<Rightarrow> bool" where
  "isReasoningItemType t \<longleftrightarrow>
     t \<in> {Some ''reasoning'', Some ''reasoning_summary'', Some ''agent_reasoning'', Some ''thinking''}"

definition extractAppServerFileChanges :: "json \<Rightarrow> json" where
  "extractAppServerFileChanges v =
     (case v of
        JArr xs \<Rightarrow> JArr (map (\<lambda>c.
          JObj [(''path'', JStr (case firstStringValue (change_record c) [''path'', ''filePath''] of None \<Rightarrow> [] | Some p \<Rightarrow> p)),
                (''kind'', JStr (normalizeFileChangeKind (field_of (Some (change_record c)) ''kind'')))]) xs)
      | _ \<Rightarrow> JArr [])"

definition normalizeAppServerFileChangeStatus :: "json \<Rightarrow> string" where
  "normalizeAppServerFileChangeStatus v =
     (if v = JStr ''inProgress'' then ''in_progress'' else if v = JStr ''completed'' then ''completed''
      else if v = JStr ''failed'' \<or> v = JStr ''declined'' then ''failed'' else ''unknown'')"

definition mcp_text :: "json \<Rightarrow> string list" where
  "mcp_text b =
     (case record_of b of
        None \<Rightarrow> []
      | Some r \<Rightarrow> if field_of (Some r) ''type'' \<noteq> JStr ''text'' then []
                  else (case stringValue (field_of (Some r) ''text'') of None \<Rightarrow> [] | Some t \<Rightarrow> [t]))"

definition extractMcpTextContent :: "json \<Rightarrow> string" where
  "extractMcpTextContent v =
     (case v of JArr bs \<Rightarrow> join_with [CHR 0x0A] (concat (map mcp_text bs)) | _ \<Rightarrow> [])"

definition appServerErrorMessage :: "json_record option \<Rightarrow> string" where
  "appServerErrorMessage params =
     (let p = (case params of None \<Rightarrow> [] | Some r \<Rightarrow> r);
          error = (case record_of (field_of params ''error'') of None \<Rightarrow> [] | Some r \<Rightarrow> r)
      in case firstStringValue p [''message''] of
           Some m \<Rightarrow> m
         | None \<Rightarrow>
             (case firstStringValue error [''message'', ''additionalDetails''] of
                Some m \<Rightarrow> m
              | None \<Rightarrow> (case firstStringValue p [''additionalDetails''] of
                          Some m \<Rightarrow> m | None \<Rightarrow> ''Codex app-server error'')))"

text \<open>The expression \<^verbatim>\<open>/Reconnecting\.\.\.\s*(\d+\/\d+)/i\<close> and its group\<close>

definition reconnect_here :: "string \<Rightarrow> string option" where
  "reconnect_here s =
     (if map lower_char (take 15 s) \<noteq> ''reconnecting...'' then None
      else
        let rest = dropWhile js_space (drop 15 s);
            first = takeWhile is_digit rest;
            second = takeWhile is_digit (drop 1 (dropWhile is_digit rest))
        in if first \<noteq> [] \<and> take 1 (dropWhile is_digit rest) = ''/'' \<and> second \<noteq> []
           then Some (first @ ''/'' @ second) else None)"

fun reconnectProgress :: "string \<Rightarrow> string option" where
  "reconnectProgress [] = None"
| "reconnectProgress (c # s) =
     (case reconnect_here (c # s) of Some p \<Rightarrow> Some p | None \<Rightarrow> reconnectProgress s)"

section \<open>The normalizers\<close>

record envelope =
  av_id :: string
  av_runId :: run_id
  av_seq :: nat
  av_ts :: ms
  av_type :: string
  av_payload :: json
  av_normalizerVersion :: nat
  av_rawEventId :: string

record normalizer_texts =
  nt_mcpRunning :: string
  nt_reconnecting :: string
  nt_reconnectingAt :: "string \<Rightarrow> string"

definition fallbackEventId :: "run_id \<Rightarrow> nat \<Rightarrow> string" where
  "fallbackEventId i seq = i @ '':'' @ nat_text seq"

text \<open>\<^verbatim>\<open>{ ...baseEnvelope(input), type, rawEventId, payload: { type, ...body } }\<close>\<close>

definition envelope_of :: "run_id \<Rightarrow> nat \<Rightarrow> ms \<Rightarrow> string \<Rightarrow> string \<Rightarrow> json_record \<Rightarrow> envelope" where
  "envelope_of i seq now rawId t body =
     \<lparr>av_id = ''evt_'' @ i @ ''_'' @ nat_text seq, av_runId = i, av_seq = seq, av_ts = now, av_type = t,
      av_payload = JObj ((''type'', JStr t) # body), av_normalizerVersion = 1, av_rawEventId = rawId\<rparr>"

definition tool_result_fields :: "string \<Rightarrow> string \<Rightarrow> rat option \<Rightarrow> json_record" where
  "tool_result_fields callId output exitCode =
     [(''toolCallId'', JStr callId), (''output'', JStr output),
      (''exitCode'', case exitCode of None \<Rightarrow> JNull | Some q \<Rightarrow> JNum q), (''isError'', JBool (exitCode \<noteq> Some 0))]"

definition normalizeCodexEvent :: "run_id \<Rightarrow> nat \<Rightarrow> ms \<Rightarrow> json \<Rightarrow> envelope" where
  "normalizeCodexEvent i seq now value =
     (let raw = record_of value;
          t = stringValue (field_of raw ''type'');
          rawId = string_or (field_of raw ''id'') (string_or (field_of raw ''thread_id'') (fallbackEventId i seq));
          event = envelope_of i seq now rawId;
          itemRecord = record_of (field_of raw ''item'');
          itemType = stringValue (field_of itemRecord ''type'');
          unknown = event ''unknown_event''
            ((''rawEventId'', JStr (fallbackEventId i seq)) # optional_string ''codexType'' t)
      in if t = Some ''thread.started'' then event ''status'' [(''label'', JStr ''initializing'')]
         else if t = Some ''turn.started'' then event ''status'' [(''label'', JStr ''running'')]
         else if t = Some ''error'' then
           event ''error''
             [(''code'', JStr ''CODEX_STREAM_ERROR''),
              (''message'', JStr (case firstStringValue (the raw) [''message'', ''error''] of
                 None \<Rightarrow> ''Codex stream error'' | Some m \<Rightarrow> m)),
              (''details'', JObj [(''raw'', value)])]
         else
           case itemRecord of
             None \<Rightarrow> if t = Some ''turn.completed'' then event ''status'' [(''label'', JStr ''finalizing'')] else unknown
           | Some it \<Rightarrow>
               let summary = extractReasoningSummary (nullish (field_of itemRecord ''summary'')
                     [field_of itemRecord ''summaries'', field_of itemRecord ''text'',
                      field_of itemRecord ''content'', field_of itemRecord ''parts'']);
                   callId = string_or (field_of itemRecord ''id'') (fallbackEventId i seq)
               in if t = Some ''item.completed'' \<and> itemType = Some ''error'' then
                    event ''diagnostic''
                      [(''code'', JStr ''CODEX_ITEM_ERROR''), (''severity'', JStr ''warning''),
                       (''message'', JStr (case firstStringValue it [''message'', ''text'', ''content''] of
                          None \<Rightarrow> ''Codex item error'' | Some m \<Rightarrow> m)),
                       (''details'', JObj [(''raw'', JObj it)])]
                  else if t = Some ''item.completed'' \<and> isReasoningItemType itemType \<and> summary \<noteq> None then
                    event ''reasoning_summary''
                      [(''text'', JStr (the summary)), (''format'', JStr ''plain_text''), (''delivery'', JStr ''summary'')]
                  else if t = Some ''item.completed'' \<and> itemType = Some ''agent_message'' then
                    event ''assistant_message''
                      [(''text'', JStr (string_or (field_of itemRecord ''text'') [])), (''format'', JStr ''plain_text''),
                       (''delivery'', JStr ''message'')]
                  else if t = Some ''item.started'' \<and> itemType = Some ''command_execution'' then
                    event ''tool_use''
                      [(''toolCallId'', JStr callId), (''name'', JStr ''command_execution''),
                       (''input'', JObj (optional_string ''command'' (stringValue (field_of itemRecord ''command'')) @
                          [(''raw'', JObj it)]))]
                  else if t = Some ''item.completed'' \<and> itemType = Some ''command_execution'' then
                    event ''tool_result'' (tool_result_fields callId
                      (string_or (field_of itemRecord ''aggregated_output'') []) (numberValue (field_of itemRecord ''exit_code'')))
                  else if t = Some ''item.completed'' \<and> itemType = Some ''file_change'' then
                    event ''file_change''
                      [(''changes'', extractFileChanges (field_of itemRecord ''changes'')),
                       (''status'', JStr (normalizeFileChangeStatus (field_of itemRecord ''status'')))]
                  else if t = Some ''turn.completed'' then event ''status'' [(''label'', JStr ''finalizing'')]
                  else unknown)"

definition app_item_event ::
  "(string \<Rightarrow> json_record \<Rightarrow> envelope) \<Rightarrow> string \<Rightarrow> string option \<Rightarrow> json_record \<Rightarrow> envelope option" where
  "app_item_event event callId0 kind it =
     (let f = field_of (Some it);
          callId = string_or (f ''id'') callId0;
          itemType = stringValue (f ''type'');
          status = stringValue (f ''status'')
      in if kind = Some ''item/completed'' \<and> itemType = Some ''agentMessage'' then
           Some (event ''assistant_message''
             [(''text'', JStr (string_or (f ''text'') [])), (''format'', JStr ''plain_text''), (''delivery'', JStr ''message'')])
         else if kind = Some ''item/completed'' \<and> itemType = Some ''reasoning'' then
           Some (event ''reasoning_summary''
             [(''text'', JStr (case extractReasoningSummary (f ''summary'') of None \<Rightarrow> [] | Some t \<Rightarrow> t)),
              (''format'', JStr ''plain_text''), (''delivery'', JStr ''summary'')])
         else if kind = Some ''item/started'' \<and> itemType = Some ''commandExecution'' then
           Some (event ''tool_use''
             [(''toolCallId'', JStr callId), (''name'', JStr ''command_execution''),
              (''input'', JObj (optional_string ''command'' (stringValue (f ''command'')) @ [(''raw'', JObj it)]))])
         else if kind = Some ''item/completed'' \<and> itemType = Some ''commandExecution'' then
           Some (event ''tool_result''
             (tool_result_fields callId (string_or (f ''aggregatedOutput'') []) (numberValue (f ''exitCode''))))
         else if kind = Some ''item/started'' \<and> itemType = Some ''mcpToolCall'' then
           Some (event ''tool_use''
             [(''toolCallId'', JStr callId),
              (''name'', JStr (string_or (f ''server'') ''mcp'' @ ''__'' @ string_or (f ''tool'') ''unknown'')),
              (''input'', JObj [(''arguments'', f ''arguments'')])])
         else if kind = Some ''item/completed'' \<and> itemType = Some ''mcpToolCall'' \<and>
                 (status = Some ''completed'' \<or> status = Some ''failed'') then
           let failed = (status = Some ''failed''); result = record_of (f ''result''); error = record_of (f ''error'') in
           Some (event ''tool_result''
             [(''toolCallId'', JStr callId),
              (''output'', JStr (if failed then string_or (field_of error ''message'') ''MCP tool call failed''
                                 else extractMcpTextContent (field_of result ''content''))),
              (''response'', field_of result ''structuredContent''), (''isError'', JBool failed),
              (''durationMs'', number_or_undefined (f ''durationMs''))])
         else if kind = Some ''item/completed'' \<and> itemType = Some ''fileChange'' then
           Some (event ''file_change''
             [(''changes'', extractAppServerFileChanges (f ''changes'')),
              (''status'', JStr (normalizeAppServerFileChangeStatus (f ''status'')))])
         else None)"

text \<open>\<^verbatim>\<open>details: { raw: params }\<close>, where \<^verbatim>\<open>params\<close> may be undefined\<close>

definition raw_details :: "json_record option \<Rightarrow> json" where
  "raw_details params = JObj [(''raw'', case params of None \<Rightarrow> JUndefined | Some r \<Rightarrow> JObj r)]"

definition app_error_event ::
  "normalizer_texts \<Rightarrow> (string \<Rightarrow> json_record \<Rightarrow> envelope) \<Rightarrow> json_record option \<Rightarrow> envelope" where
  "app_error_event X event params =
     (let message = appServerErrorMessage params; progress = reconnectProgress message in
      if progress \<noteq> None \<or> field_of params ''willRetry'' = JBool True then
        event ''diagnostic''
          [(''code'', JStr ''CODEX_STREAM_RETRYING''), (''severity'', JStr ''warning''),
           (''message'', JStr (case progress of None \<Rightarrow> nt_reconnecting X | Some p \<Rightarrow> nt_reconnectingAt X p)),
           (''details'', raw_details params)]
      else
        event ''error''
          [(''code'', JStr ''CODEX_STREAM_ERROR''), (''message'', JStr message), (''details'', raw_details params)])"

definition normalizeAppServerEvent :: "normalizer_texts \<Rightarrow> run_id \<Rightarrow> nat \<Rightarrow> ms \<Rightarrow> json \<Rightarrow> envelope" where
  "normalizeAppServerEvent X i seq now value =
     (let raw = record_of value;
          kind = stringValue (field_of raw ''method'');
          params = record_of (field_of raw ''params'');
          itemRecord = record_of (field_of params ''item'');
          rawId = string_or (field_of itemRecord ''id'')
            (case firstStringValue (case params of None \<Rightarrow> [] | Some r \<Rightarrow> r) [''itemId'', ''turnId'', ''threadId''] of
               None \<Rightarrow> fallbackEventId i seq | Some t \<Rightarrow> t);
          event = envelope_of i seq now rawId;
          total = record_of (field_of (record_of (field_of params ''tokenUsage'')) ''total'')
      in if kind = Some ''turn/started'' then event ''status'' [(''label'', JStr ''running'')]
         else if kind = Some ''turn/completed'' then event ''status'' [(''label'', JStr ''finalizing'')]
         else
           case (case itemRecord of None \<Rightarrow> None | Some it \<Rightarrow> app_item_event event (fallbackEventId i seq) kind it) of
             Some e \<Rightarrow> e
           | None \<Rightarrow>
               if kind = Some ''item/mcpToolCall/progress'' then
                 event ''diagnostic''
                   [(''code'', JStr ''MCP_TOOL_PROGRESS''), (''severity'', JStr ''info''),
                    (''message'', JStr (string_or (field_of params ''message'') (nt_mcpRunning X))),
                    (''details'', JObj [(''itemId'', string_or_undefined (field_of params ''itemId'')),
                       (''threadId'', string_or_undefined (field_of params ''threadId'')),
                       (''turnId'', string_or_undefined (field_of params ''turnId''))])]
               else if kind = Some ''thread/tokenUsage/updated'' then
                 event ''usage''
                   [(''inputTokens'', number_or_undefined (field_of total ''inputTokens'')),
                    (''cachedInputTokens'', number_or_undefined (field_of total ''cachedInputTokens'')),
                    (''outputTokens'', number_or_undefined (field_of total ''outputTokens'')),
                    (''reasoningOutputTokens'', number_or_undefined (field_of total ''reasoningOutputTokens'')),
                    (''source'', JStr ''stream_cumulative'')]
               else if kind \<in> {Some ''warning'', Some ''configWarning'', Some ''guardianWarning''} then
                 event ''diagnostic''
                   [(''code'', JStr ''CODEX_WARNING''), (''severity'', JStr ''warning''),
                    (''message'', JStr (case firstStringValue (case params of None \<Rightarrow> [] | Some r \<Rightarrow> r) [''message''] of
                       None \<Rightarrow> ''Codex warning'' | Some m \<Rightarrow> m)),
                    (''details'', raw_details params)]
               else if kind = Some ''error'' then app_error_event X event params
               else event ''unknown_event'' ((''rawEventId'', JStr rawId) # optional_string ''codexType'' kind))"

section \<open>The payload types of the protocol\<close>

datatype ty =
    TyString | TyNumber | TyBool | TyNull | TyAny | TyRecord
  | TyLiteral string
  | TyList ty
  | TyUnion "ty list"
  | TyObject "(string \<times> bool \<times> ty) list" \<comment> \<open>name, whether optional, type\<close>

text \<open>An optional property may be absent or undefined; an object has no other properties.\<close>

fun has_type :: "ty \<Rightarrow> json \<Rightarrow> bool" where
  "has_type TyString v \<longleftrightarrow> (case v of JStr s \<Rightarrow> True | _ \<Rightarrow> False)"
| "has_type TyNumber v \<longleftrightarrow> (case v of JNum q \<Rightarrow> True | _ \<Rightarrow> False)"
| "has_type TyBool v \<longleftrightarrow> (case v of JBool b \<Rightarrow> True | _ \<Rightarrow> False)"
| "has_type TyNull v \<longleftrightarrow> v = JNull"
| "has_type TyAny v \<longleftrightarrow> True"
| "has_type TyRecord v \<longleftrightarrow> (case v of JObj r \<Rightarrow> True | _ \<Rightarrow> False)"
| "has_type (TyLiteral s) v \<longleftrightarrow> v = JStr s"
| "has_type (TyList t) v \<longleftrightarrow> (case v of JArr vs \<Rightarrow> list_all (has_type t) vs | _ \<Rightarrow> False)"
| "has_type (TyUnion ts) v \<longleftrightarrow> list_ex (\<lambda>t. has_type t v) ts"
| "has_type (TyObject fs) v \<longleftrightarrow>
     (case v of
        JObj r \<Rightarrow>
          list_all (\<lambda>(k, optional, t).
            case map_of r k of None \<Rightarrow> optional | Some w \<Rightarrow> optional \<and> w = JUndefined \<or> has_type t w) fs \<and>
          set (map fst r) \<subseteq> set (map fst fs)
      | _ \<Rightarrow> False)"

definition literals :: "string list \<Rightarrow> ty" where
  "literals ss = TyUnion (map TyLiteral ss)"

definition approval_type :: ty where
  "approval_type = TyObject
     [(''id'', False, TyString), (''runId'', False, TyString),
      (''threadId'', True, TyUnion [TyString, TyNull]),
      (''codexThreadId'', True, TyUnion [TyString, TyNull]), (''turnId'', False, TyString),
      (''itemId'', False, TyString), (''requestId'', False, TyString),
      (''kind'', False, literals [''command_execution'', ''file_change'', ''permissions'']),
      (''status'', False, literals [''pending'', ''approved'', ''rejected'', ''expired'', ''canceled'']),
      (''risk'', False, literals [''medium'', ''high'']), (''title'', False, TyString),
      (''summary'', False, TyString), (''details'', False, TyRecord),
      (''requestedAt'', False, TyString), (''expiresAt'', False, TyString),
      (''resolvedAt'', True, TyUnion [TyString, TyNull]),
      (''resolutionReason'', True, TyUnion [TyString, TyNull])]"

definition payload_type :: "string \<Rightarrow> ty option" where
  "payload_type t = map_option (\<lambda>fs. TyObject ((''type'', False, TyLiteral t) # fs)) (map_of
     [(''status'', [(''label'', False, literals [''queued'', ''initializing'', ''running'', ''canceling'', ''finalizing'']),
        (''threadId'', True, TyString), (''codexThreadId'', True, TyString)]),
      (''schedule_trigger'', [(''prompt'', False, TyString), (''triggeredAt'', False, TyString)]),
      (''reasoning_summary'', [(''text'', False, TyString), (''format'', False, TyLiteral ''plain_text''),
        (''delivery'', False, literals [''summary'', ''delta''])]),
      (''assistant_message'', [(''text'', False, TyString), (''format'', False, TyLiteral ''plain_text''),
        (''delivery'', False, literals [''message'', ''delta''])]),
      (''tool_use'', [(''toolCallId'', False, TyString), (''name'', False, TyString),
        (''input'', False, TyObject [(''command'', True, TyString), (''args'', True, TyList TyString),
           (''arguments'', True, TyAny), (''raw'', True, TyAny)])]),
      (''tool_result'', [(''toolCallId'', False, TyString), (''output'', False, TyString), (''response'', True, TyAny),
        (''exitCode'', True, TyUnion [TyNumber, TyNull]), (''isError'', False, TyBool), (''durationMs'', True, TyNumber)]),
      (''file_change'', [(''changes'', False, TyList (TyObject [(''path'', False, TyString),
           (''kind'', False, literals [''add'', ''modify'', ''delete'', ''unknown''])])),
        (''status'', False, literals [''in_progress'', ''completed'', ''failed'', ''unknown''])]),
      (''usage'', [(''inputTokens'', True, TyNumber), (''cachedInputTokens'', True, TyNumber),
        (''outputTokens'', True, TyNumber), (''reasoningOutputTokens'', True, TyNumber),
        (''source'', False, literals [''stream_cumulative'', ''rollout_best_effort''])]),
      (''diagnostic'', [(''code'', False, TyString), (''severity'', False, literals [''info'', ''warning'', ''error'']),
        (''message'', False, TyString), (''details'', True, TyRecord)]),
      (''approval'', [(''approval'', False, approval_type)]),
      (''error'', [(''code'', False, TyString), (''message'', False, TyString), (''details'', True, TyRecord)]),
      (''unknown_event'', [(''rawEventId'', False, TyString), (''codexType'', True, TyString)]),
      (''done'', [(''status'', False, literals [''succeeded'', ''failed'', ''canceled'']),
        (''terminationReason'', False, literals [''completed'', ''user_canceled'', ''timeout'', ''spawn_timeout'',
           ''inactivity_timeout'', ''spawn_failed'', ''codex_exit_non_zero'', ''stream_error'', ''daemon_restart'',
           ''process_kill_failed''])])] t)"

text \<open>An event that a normalizer may give: its payload has the type of its kind, and it is none of the
  daemon's own events.\<close>

definition codex_event :: "run_id \<Rightarrow> nat \<Rightarrow> envelope \<Rightarrow> bool" where
  "codex_event i seq e \<longleftrightarrow>
     av_runId e = i \<and> av_seq e = seq \<and>
     av_type e \<notin> {''done'', ''schedule_trigger'', ''approval''} \<and>
     (case payload_type (av_type e) of None \<Rightarrow> False | Some t \<Rightarrow> has_type t (av_payload e))"

section \<open>Every event has its type\<close>

named_theorems event_rules

lemma event_if [event_rules]:
  "codex_event i seq e1 \<Longrightarrow> codex_event i seq e2 \<Longrightarrow> codex_event i seq (if b then e1 else e2)"
  by simp

lemma event_option [event_rules]:
  "codex_event i seq e1 \<Longrightarrow> (\<And>a. x = Some a \<Longrightarrow> codex_event i seq (f a)) \<Longrightarrow>
   codex_event i seq (case x of None \<Rightarrow> e1 | Some a \<Rightarrow> f a)"
  by (cases x) simp_all

lemma codex_event_of:
  "codex_event i seq (envelope_of i seq now rawId t body) \<longleftrightarrow>
   t \<notin> {''done'', ''schedule_trigger'', ''approval''} \<and>
   (case payload_type t of None \<Rightarrow> False | Some ty \<Rightarrow> has_type ty (JObj ((''type'', JStr t) # body)))"
  by (cases "payload_type t") (simp_all add: codex_event_def envelope_of_def)

lemma has_optional_number: "number_or_undefined v = JUndefined \<or> (\<exists>q. number_or_undefined v = JNum q)"
  by (simp add: number_or_undefined_def split: option.splits)

lemma change_kind: "normalizeFileChangeKind v \<in> {''add'', ''modify'', ''delete'', ''unknown''}"
  by (simp add: normalizeFileChangeKind_def)

lemma change_status:
  "normalizeFileChangeStatus v \<in> {''in_progress'', ''completed'', ''failed'', ''unknown''}"
  "normalizeAppServerFileChangeStatus v \<in> {''in_progress'', ''completed'', ''failed'', ''unknown''}"
  by (simp_all add: normalizeFileChangeStatus_def normalizeAppServerFileChangeStatus_def)

lemma changes_typed:
  "has_type (TyList (TyObject [(''path'', False, TyString),
     (''kind'', False, literals [''add'', ''modify'', ''delete'', ''unknown''])])) (extractFileChanges v)"
  "has_type (TyList (TyObject [(''path'', False, TyString),
     (''kind'', False, literals [''add'', ''modify'', ''delete'', ''unknown''])])) (extractAppServerFileChanges v)"
  using change_kind
  by (auto simp: extractFileChanges_def extractAppServerFileChanges_def list_all_iff literals_def split: json.splits)

text \<open>The events that the normalizers write\<close>

lemma written_events [event_rules]:
  "l \<in> {''initializing'', ''running'', ''finalizing''} \<Longrightarrow>
     codex_event i seq (envelope_of i seq now rawId ''status'' [(''label'', JStr l)])"
  "codex_event i seq (envelope_of i seq now rawId ''error''
     [(''code'', JStr c), (''message'', JStr m), (''details'', JObj d)])"
  "sev \<in> {''info'', ''warning''} \<Longrightarrow> codex_event i seq (envelope_of i seq now rawId ''diagnostic''
     [(''code'', JStr c), (''severity'', JStr sev), (''message'', JStr m), (''details'', JObj d)])"
  "codex_event i seq (envelope_of i seq now rawId ''reasoning_summary''
     [(''text'', JStr m), (''format'', JStr ''plain_text''), (''delivery'', JStr ''summary'')])"
  "codex_event i seq (envelope_of i seq now rawId ''assistant_message''
     [(''text'', JStr m), (''format'', JStr ''plain_text''), (''delivery'', JStr ''message'')])"
  "codex_event i seq (envelope_of i seq now rawId ''tool_use''
     [(''toolCallId'', JStr c), (''name'', JStr n), (''input'', JObj (optional_string ''command'' x @ [(''raw'', v)]))])"
  "codex_event i seq (envelope_of i seq now rawId ''tool_use''
     [(''toolCallId'', JStr c), (''name'', JStr n), (''input'', JObj [(''arguments'', v)])])"
  "codex_event i seq (envelope_of i seq now rawId ''tool_result'' (tool_result_fields c out q))"
  "codex_event i seq (envelope_of i seq now rawId ''tool_result''
     [(''toolCallId'', JStr c), (''output'', JStr out), (''response'', v), (''isError'', JBool b),
      (''durationMs'', number_or_undefined w)])"
  "codex_event i seq (envelope_of i seq now rawId ''unknown_event''
     ((''rawEventId'', JStr c) # optional_string ''codexType'' x))"
  by (auto simp: codex_event_of payload_type_def literals_def optional_string_def tool_result_fields_def
      number_or_undefined_def split: option.splits)

lemma written_changes [event_rules]:
  "codex_event i seq (envelope_of i seq now rawId ''file_change''
     [(''changes'', extractFileChanges v), (''status'', JStr (normalizeFileChangeStatus w))])"
  "codex_event i seq (envelope_of i seq now rawId ''file_change''
     [(''changes'', extractAppServerFileChanges v), (''status'', JStr (normalizeAppServerFileChangeStatus w))])"
  using change_status [of w] changes_typed [of v]
  by (auto simp: codex_event_of payload_type_def literals_def simp del: has_type.simps(8))

lemma written_usage [event_rules]:
  "codex_event i seq (envelope_of i seq now rawId ''usage''
     [(''inputTokens'', number_or_undefined a), (''cachedInputTokens'', number_or_undefined b),
      (''outputTokens'', number_or_undefined c), (''reasoningOutputTokens'', number_or_undefined d),
      (''source'', JStr ''stream_cumulative'')])"
  by (auto simp: codex_event_of payload_type_def literals_def number_or_undefined_def split: option.splits)

lemma app_item_event_typed:
  "app_item_event (envelope_of i seq now rawId) c kind it = Some e \<Longrightarrow> codex_event i seq e"
  by (auto simp: app_item_event_def Let_def intro!: event_rules split: if_splits)

lemma app_item_typed:
  "(case x of None \<Rightarrow> None | Some it \<Rightarrow> app_item_event (envelope_of i seq now rawId) c kind it) = Some e \<Longrightarrow>
   codex_event i seq e"
  by (cases x) (simp_all add: app_item_event_typed)

lemma app_error_event_typed: "codex_event i seq (app_error_event X (envelope_of i seq now rawId) params)"
  unfolding app_error_event_def Let_def raw_details_def by (intro event_rules) simp

text \<open>
  C16. Every event that the normalizers give, whatever Codex or the app server has sent, is an event of
  the run and the place it was asked for, and its payload has the type that the protocol gives to its
  kind. It is never one of the events that only the daemon may write: the end of a run, an approval,
  the trigger of a schedule.
\<close>

theorem normalized_events_typed:
  "codex_event i seq (normalizeCodexEvent i seq now value) \<and>
   codex_event i seq (normalizeAppServerEvent X i seq now value)"
proof
  show "codex_event i seq (normalizeCodexEvent i seq now value)"
    unfolding normalizeCodexEvent_def Let_def by (intro event_rules) simp_all
  show "codex_event i seq (normalizeAppServerEvent X i seq now value)"
    unfolding normalizeAppServerEvent_def Let_def raw_details_def
    by (intro event_rules app_error_event_typed; (erule app_item_typed | simp))
qed

end
