(* ===== verification/BoundedBuffers.thy ===== *)
theory BoundedBuffers
  imports ClaweePrelude
begin

text \<open>
  The buffers between the pipes of a process and the daemon, \<^verbatim>\<open>codex/bounded-buffer.ts\<close>: the last bytes
  of a text, the last lines of a log, and the lines of a stream that arrives in chunks.

  A text is the list of its code points, so that lengths in bytes (UTF-8) are those of the code. The
  main theorem says that the frames which \<open>push\<close> delivers do not depend on how the stream was cut into
  chunks, except for a frame of exactly the largest size that ends in a carriage return.
\<close>

section \<open>Texts and bytes\<close>

type_synonym js_text = "nat list"

definition utf8 :: "nat \<Rightarrow> nat list" where
  "utf8 c =
     (if c < 0x80 then [c]
      else if c < 0x800 then [0xC0 + c div 64, 0x80 + c mod 64]
      else if c < 0x10000 then [0xE0 + c div 4096, 0x80 + c div 64 mod 64, 0x80 + c mod 64]
      else [0xF0 + c div 262144, 0x80 + c div 4096 mod 64, 0x80 + c div 64 mod 64, 0x80 + c mod 64])"

text \<open>\<^verbatim>\<open>Buffer.from\<close> and \<^verbatim>\<open>Buffer.byteLength\<close>\<close>

definition utf8_bytes :: "js_text \<Rightarrow> nat list" where
  "utf8_bytes s = concat (map utf8 s)"

definition byteLength :: "js_text \<Rightarrow> nat" where
  "byteLength s = length (utf8_bytes s)"

definition continuation :: "nat \<Rightarrow> bool" where
  "continuation b \<longleftrightarrow> 0x80 \<le> b \<and> b < 0xC0"

text \<open>
  \<^verbatim>\<open>Buffer.toString('utf8')\<close> on the end of an encoded text: a byte of a character that was cut is
  U+FFFD.
\<close>

fun utf8_text :: "nat list \<Rightarrow> js_text" where
  "utf8_text [] = []"
| "utf8_text (b # bs) =
     (if b < 0x80 then b # utf8_text bs
      else case bs of
          c # cs \<Rightarrow>
            if 0xC2 \<le> b \<and> b < 0xE0 \<and> continuation c then ((b - 0xC0) * 64 + (c - 0x80)) # utf8_text cs
            else (case cs of
                d # ds \<Rightarrow>
                  if 0xE0 \<le> b \<and> b < 0xF0 \<and> continuation c \<and> continuation d then
                    ((b - 0xE0) * 4096 + (c - 0x80) * 64 + (d - 0x80)) # utf8_text ds
                  else (case ds of
                      e # es \<Rightarrow>
                        if 0xF0 \<le> b \<and> continuation c \<and> continuation d \<and> continuation e then
                          ((b - 0xF0) * 262144 + (c - 0x80) * 4096 + (d - 0x80) * 64 + (e - 0x80)) # utf8_text es
                        else 0xFFFD # utf8_text bs
                    | [] \<Rightarrow> 0xFFFD # utf8_text bs)
              | [] \<Rightarrow> 0xFFFD # utf8_text bs)
        | [] \<Rightarrow> [0xFFFD])"

lemma byteLength_append [simp]: "byteLength (s @ t) = byteLength s + byteLength t"
  by (simp add: byteLength_def utf8_bytes_def)

lemma byteLength_Nil [simp]: "byteLength [] = 0"
  by (simp add: byteLength_def utf8_bytes_def)

lemma byteLength_single: "c < 0x80 \<Longrightarrow> byteLength [c] = 1"
  by (simp add: byteLength_def utf8_bytes_def utf8_def)

section \<open>Texts and lines\<close>

record truncation =
  tr_truncated :: bool
  tr_droppedItems :: nat
  tr_droppedBytes :: nat

record text_buffer =
  tb_value :: js_text
  tb_droppedBytes :: nat

definition text_append :: "nat \<Rightarrow> js_text \<Rightarrow> text_buffer \<Rightarrow> text_buffer" where
  "text_append maxBytes chunk b =
     (let combined = utf8_bytes (tb_value b @ chunk) in
      if length combined \<le> maxBytes then b\<lparr>tb_value := tb_value b @ chunk\<rparr>
      else b\<lparr>tb_droppedBytes := tb_droppedBytes b + (length combined - maxBytes),
             tb_value := utf8_text (drop (length combined - maxBytes) combined)\<rparr>)"

definition text_truncation :: "text_buffer \<Rightarrow> truncation" where
  "text_truncation b = \<lparr>tr_truncated = tb_droppedBytes b > 0, tr_droppedItems = 0, tr_droppedBytes = tb_droppedBytes b\<rparr>"

record line_buffer =
  lb_values :: "(js_text \<times> nat) list"
  lb_totalBytes :: nat
  lb_droppedItems :: nat
  lb_droppedBytes :: nat

text \<open>The loop of \<^verbatim>\<open>append\<close>\<close>

fun drop_lines :: "nat \<Rightarrow> nat \<Rightarrow> (js_text \<times> nat) list \<Rightarrow> nat \<Rightarrow> nat \<Rightarrow> nat \<Rightarrow> line_buffer" where
  "drop_lines maxLines maxBytes [] held items bytes =
     \<lparr>lb_values = [], lb_totalBytes = held, lb_droppedItems = items, lb_droppedBytes = bytes\<rparr>"
| "drop_lines maxLines maxBytes ((l, n) # vs) held items bytes =
     (if length ((l, n) # vs) > maxLines \<or> held > maxBytes
      then drop_lines maxLines maxBytes vs (held - n) (Suc items) (bytes + n)
      else \<lparr>lb_values = (l, n) # vs, lb_totalBytes = held, lb_droppedItems = items, lb_droppedBytes = bytes\<rparr>)"

definition line_append :: "nat \<Rightarrow> nat \<Rightarrow> js_text \<Rightarrow> line_buffer \<Rightarrow> line_buffer" where
  "line_append maxLines maxBytes line b =
     drop_lines maxLines maxBytes (lb_values b @ [(line, byteLength line)]) (lb_totalBytes b + byteLength line)
       (lb_droppedItems b) (lb_droppedBytes b)"

definition line_lines :: "line_buffer \<Rightarrow> js_text list" where
  "line_lines b = map fst (lb_values b)"

definition line_truncation :: "line_buffer \<Rightarrow> truncation" where
  "line_truncation b =
     \<lparr>tr_truncated = lb_droppedItems b > 0, tr_droppedItems = lb_droppedItems b, tr_droppedBytes = lb_droppedBytes b\<rparr>"

section \<open>Frames\<close>

record frame_buffer =
  fb_buffer :: js_text
  fb_dropping :: bool
  fb_droppedItems :: nat
  fb_droppedBytes :: nat

definition new_frame_buffer :: frame_buffer where
  "new_frame_buffer = \<lparr>fb_buffer = [], fb_dropping = False, fb_droppedItems = 0, fb_droppedBytes = 0\<rparr>"

text \<open>\<^verbatim>\<open>s.split('\n')\<close>\<close>

fun split_lines :: "js_text \<Rightarrow> js_text list" where
  "split_lines [] = [[]]"
| "split_lines (c # s) =
     (if c = 10 then [] # split_lines s
      else (case split_lines s of [] \<Rightarrow> [[c]] | l # ls \<Rightarrow> (c # l) # ls))"

definition strip_cr :: "js_text \<Rightarrow> js_text" where
  "strip_cr l = (if l \<noteq> [] \<and> last l = 13 then butlast l else l)"

fun take_frames :: "nat \<Rightarrow> js_text list \<Rightarrow> frame_buffer \<Rightarrow> js_text list \<times> frame_buffer" where
  "take_frames maxBytes [] b = ([], b)"
| "take_frames maxBytes (l # ls) b =
     (let line = strip_cr l in
      if byteLength line > maxBytes then
        take_frames maxBytes ls (b\<lparr>fb_droppedItems := Suc (fb_droppedItems b),
          fb_droppedBytes := fb_droppedBytes b + byteLength line\<rparr>)
      else (case take_frames maxBytes ls b of (lines, b') \<Rightarrow> (line # lines, b')))"

text \<open>The part of \<^verbatim>\<open>push\<close> after the end of a dropped frame\<close>

definition push_frames :: "nat \<Rightarrow> js_text \<Rightarrow> frame_buffer \<Rightarrow> js_text list \<times> frame_buffer" where
  "push_frames maxBytes input b =
     (let frames = split_lines (fb_buffer b @ input);
          (lines, b1) = take_frames maxBytes (butlast frames) (b\<lparr>fb_buffer := last frames\<rparr>)
      in if byteLength (fb_buffer b1) > maxBytes then
           (lines, b1\<lparr>fb_droppedItems := Suc (fb_droppedItems b1),
              fb_droppedBytes := fb_droppedBytes b1 + byteLength (fb_buffer b1), fb_buffer := [], fb_dropping := True\<rparr>)
         else (lines, b1))"

definition push :: "nat \<Rightarrow> js_text \<Rightarrow> frame_buffer \<Rightarrow> js_text list \<times> frame_buffer" where
  "push maxBytes chunk b =
     (if fb_dropping b then
        if 10 \<notin> set chunk then ([], b\<lparr>fb_droppedBytes := fb_droppedBytes b + byteLength chunk\<rparr>)
        else
          (let n = length (takeWhile (\<lambda>c. c \<noteq> 10) chunk) in
           push_frames maxBytes (drop (Suc n) chunk)
             (b\<lparr>fb_droppedBytes := fb_droppedBytes b + byteLength (take (Suc n) chunk), fb_dropping := False\<rparr>))
      else push_frames maxBytes chunk b)"

definition flush_frames :: "frame_buffer \<Rightarrow> js_text option \<times> frame_buffer" where
  "flush_frames b =
     (if fb_dropping b \<or> fb_buffer b = [] then (None, b) else (Some (fb_buffer b), b\<lparr>fb_buffer := []\<rparr>))"

definition frame_truncation :: "frame_buffer \<Rightarrow> truncation" where
  "frame_truncation b =
     \<lparr>tr_truncated = fb_droppedItems b > 0, tr_droppedItems = fb_droppedItems b, tr_droppedBytes = fb_droppedBytes b\<rparr>"

fun push_all :: "nat \<Rightarrow> js_text list \<Rightarrow> frame_buffer \<Rightarrow> js_text list \<times> frame_buffer" where
  "push_all maxBytes [] b = ([], b)"
| "push_all maxBytes (chunk # chunks) b =
     (case push maxBytes chunk b of (lines, b1) \<Rightarrow>
        (case push_all maxBytes chunks b1 of (rest, b2) \<Rightarrow> (lines @ rest, b2)))"

section \<open>Frames do not depend on the chunks\<close>

text \<open>The frames of a whole text\<close>

definition kept :: "nat \<Rightarrow> js_text list \<Rightarrow> js_text list" where
  "kept maxBytes ls = filter (\<lambda>l. byteLength l \<le> maxBytes) (map strip_cr ls)"

definition frames_of :: "nat \<Rightarrow> js_text \<Rightarrow> js_text list" where
  "frames_of maxBytes s = kept maxBytes (butlast (split_lines s))"

lemma split_lines_nonempty [simp]: "split_lines s \<noteq> []"
  by (cases s) (auto split: list.splits)

lemma split_lines_append:
  "split_lines (s @ t) = butlast (split_lines s) @ split_lines (last (split_lines s) @ t)"
proof (induction s)
  case (Cons c s)
  show ?case
  proof (cases "c = 10")
    case False
    obtain l ls where s: "split_lines s = l # ls" by (cases "split_lines s") auto
    show ?thesis
    proof (cases ls)
      case Nil
      then show ?thesis using False Cons s by (cases "split_lines (l @ t)") auto
    next
      case (Cons l' ls')
      then show ?thesis using False \<open>split_lines (s @ t) = _\<close> s by simp
    qed
  qed (use Cons in simp)
qed simp

lemma split_lines_none: "10 \<notin> set s \<Longrightarrow> split_lines s = [s]"
  by (induction s) auto

lemma take_frames_kept:
  "fst (take_frames m ls b) = kept m ls" "fb_buffer (snd (take_frames m ls b)) = fb_buffer b"
  "fb_dropping (snd (take_frames m ls b)) = fb_dropping b"
  by (induction m ls b rule: take_frames.induct) (auto simp: kept_def Let_def split: prod.splits)

text \<open>The state of the buffer, after the text \<open>t\<close>\<close>

definition buffered :: "nat \<Rightarrow> js_text \<Rightarrow> frame_buffer \<Rightarrow> bool" where
  "buffered m t b \<longleftrightarrow>
     (if fb_dropping b then fb_buffer b = [] \<and> byteLength (last (split_lines t)) > m
      else fb_buffer b = last (split_lines t) \<and> byteLength (fb_buffer b) \<le> m)"

text \<open>A frame at the limit, whose last byte is a carriage return\<close>

definition at_limit :: "nat \<Rightarrow> js_text \<Rightarrow> bool" where
  "at_limit m l \<longleftrightarrow> l \<noteq> [] \<and> last l = 13 \<and> byteLength l = Suc m"

lemma long_frame:
  assumes "byteLength l > m" and "\<not> at_limit m l"
  shows "byteLength (strip_cr l) > m"
proof (cases "l \<noteq> [] \<and> last l = 13")
  case True
  then have "byteLength l = byteLength (butlast l) + byteLength [13]"
    by (metis append_butlast_last_id byteLength_append)
  then show ?thesis using True assms by (simp add: strip_cr_def at_limit_def byteLength_single)
next
  case False
  then have "strip_cr l = l" by (auto simp: strip_cr_def)
  then show ?thesis using assms(1) by simp
qed

lemma push_frames_result:
  assumes "\<not> fb_dropping b"
  shows "fst (push_frames m input b) = kept m (butlast (split_lines (fb_buffer b @ input)))"
    and "buffered m (fb_buffer b @ input) (snd (push_frames m input b))"
  using assms take_frames_kept [of m "butlast (split_lines (fb_buffer b @ input))" "b\<lparr>fb_buffer := last (split_lines (fb_buffer b @ input))\<rparr>"]
  by (auto simp: push_frames_def Let_def buffered_def split: prod.splits)

lemma buffered_suffix:
  "buffered m (last (split_lines t) @ c) b \<Longrightarrow> buffered m (t @ c) b"
  by (auto simp: buffered_def split_lines_append [of t c] split: if_splits)

lemma last_line: "10 \<notin> set (last (split_lines s))"
  by (induction s) (auto split: list.splits if_splits)

lemma split_lines_newline: "10 \<notin> set l \<Longrightarrow> split_lines (l @ 10 # s) = l # split_lines s"
  by (induction l) auto

lemma push_step:
  assumes "buffered m t b" and "\<And>l. l \<in> set (butlast (split_lines (t @ c))) \<Longrightarrow> \<not> at_limit m l"
  shows "fst (push m c b) = kept m (butlast (split_lines (last (split_lines t) @ c)))"
    and "buffered m (t @ c) (snd (push m c b))"
proof -
  let ?L = "last (split_lines t)"
  have "fst (push m c b) = kept m (butlast (split_lines (?L @ c))) \<and> buffered m (?L @ c) (snd (push m c b))"
  proof (cases "fb_dropping b")
    case False
    then show ?thesis
      using assms(1) push_frames_result [OF False, of m c] by (simp add: push_def buffered_def)
  next
    case True
    then have b: "fb_buffer b = []" "byteLength ?L > m" using assms(1) by (simp_all add: buffered_def)
    show ?thesis
    proof (cases "10 \<in> set c")
      case False
      then have "split_lines (?L @ c) = [?L @ c]" using last_line by (intro split_lines_none) auto
      then show ?thesis using True False b by (simp add: push_def buffered_def kept_def)
    next
      case newline: True
      then obtain pre rest where c: "c = pre @ 10 # rest" "10 \<notin> set pre" by (metis split_list_first)
      have taken: "takeWhile (\<lambda>x. x \<noteq> 10) c = pre" unfolding c(1) using c(2) by (subst takeWhile_append2) auto
      have lines: "split_lines (?L @ c) = (?L @ pre) # split_lines rest"
        using split_lines_newline [of "?L @ pre" rest] last_line [of t] c by simp
      then have "?L @ pre \<in> set (butlast (split_lines (t @ c)))"
        by (simp add: split_lines_append [of t c] butlast_append)
      then have "byteLength (strip_cr (?L @ pre)) > m" using assms(2) b(2) by (intro long_frame) simp_all
      then have kept: "kept m (butlast (split_lines (?L @ c))) = kept m (butlast (split_lines rest))"
        unfolding lines by (simp add: kept_def)
      have "last (split_lines (?L @ c)) = last (split_lines rest)" unfolding lines by simp
      moreover note push_frames_result [of "b\<lparr>fb_droppedBytes := fb_droppedBytes b +
          byteLength (take (Suc (length pre)) c), fb_dropping := False\<rparr>" m rest]
      ultimately show ?thesis using True newline b(1) kept taken c(1)
        by (auto simp: push_def Let_def buffered_def split: if_splits)
    qed
  qed
  then show "fst (push m c b) = kept m (butlast (split_lines (?L @ c)))" "buffered m (t @ c) (snd (push m c b))"
    using buffered_suffix by blast+
qed

lemma push_all_frames:
  assumes "buffered m t b" and "\<And>l. l \<in> set (butlast (split_lines (t @ concat cs))) \<Longrightarrow> \<not> at_limit m l"
  shows "frames_of m t @ fst (push_all m cs b) = frames_of m (t @ concat cs) \<and>
    buffered m (t @ concat cs) (snd (push_all m cs b))"
  using assms
proof (induction cs arbitrary: t b)
  case Nil
  then show ?case by simp
next
  case (Cons c cs)
  have "set (butlast (split_lines (t @ c))) \<subseteq> set (butlast (split_lines (t @ c @ concat cs)))"
    using split_lines_append [of "t @ c" "concat cs"] by (simp add: butlast_append)
  then have limit: "\<not> at_limit m l" if "l \<in> set (butlast (split_lines (t @ c)))" for l
    using Cons.prems(2) that by auto
  have step: "fst (push m c b) = kept m (butlast (split_lines (last (split_lines t) @ c)))"
    "buffered m (t @ c) (snd (push m c b))"
    by (rule push_step [OF Cons.prems(1)], erule limit)+
  have "frames_of m t @ fst (push m c b) = frames_of m (t @ c)"
    by (simp add: step(1) frames_of_def kept_def split_lines_append [of t c] butlast_append)
  then show ?case
    using Cons.IH [OF step(2)] Cons.prems(2) by (simp add: case_prod_beta) (metis append.assoc)
qed

text \<open>
  C21. The frames that the buffer delivers are those of the whole stream, in order, however the
  stream was cut into chunks: the lines, without a carriage return at their end, that have at most
  \<^verbatim>\<open>maxFrameBytes\<close> bytes; and what it holds back is the beginning of the last line, if that can still become
  one. This needs that no line is one carriage return longer than the limit.
\<close>

theorem frames_of_chunks:
  assumes "\<And>l. l \<in> set (butlast (split_lines (concat chunks))) \<Longrightarrow> \<not> at_limit maxBytes l"
    and "push_all maxBytes chunks new_frame_buffer = (frames, b)"
  shows "frames = frames_of maxBytes (concat chunks) \<and>
    (if fb_dropping b then byteLength (last (split_lines (concat chunks))) > maxBytes
     else fb_buffer b = last (split_lines (concat chunks)))"
proof -
  have "buffered maxBytes [] new_frame_buffer" by (simp add: buffered_def new_frame_buffer_def)
  from push_all_frames [OF this, of chunks] show ?thesis
    using assms by (auto simp: frames_of_def kept_def buffered_def split: if_splits)
qed

lemma frames_of_chunks_witness:
  "fst (push_all 3 [[65, 66], [67, 10, 65, 66, 67], [68, 69, 10], [66, 13], [10, 65]] new_frame_buffer) =
     [[65, 66, 67], [66]]"
proof -
  let ?chunks = "[[65, 66], [67, 10, 65, 66, 67], [68, 69, 10], [66, 13], [10, 65]] :: js_text list"
  have "list_all (\<lambda>l. \<not> at_limit 3 l) (butlast (split_lines (concat ?chunks)))" by code_simp
  then have "fst (push_all 3 ?chunks new_frame_buffer) = frames_of 3 (concat ?chunks)"
    using frames_of_chunks [OF _ prod.collapse [symmetric], of ?chunks 3] unfolding list_all_iff by blast
  also have "\<dots> = [[65, 66, 67], [66]]" by code_simp
  finally show ?thesis .
qed

text \<open>The limit matters: a frame of three bytes and \<^verbatim>\<open>\r\n\<close> is dropped if the chunk ends in between.\<close>

lemma frame_at_limit_depends:
  "fst (push_all 3 [[65, 66, 67, 13, 10]] new_frame_buffer) = [[65, 66, 67]]"
  "fst (push_all 3 [[65, 66, 67, 13], [10]] new_frame_buffer) = []"
  by code_simp+

end
