(* ===== verification/AppServerClient.thy ===== *)
theory AppServerClient
  imports EventNormalizer BoundedBuffers
begin

text \<open>
  The client of a Codex app server, \<^verbatim>\<open>codex/app-server-client.ts\<close>: requests and responses over the pipes
  of a process that is started when it is needed.

  \<^item> \<open>client\<close> has the variables of \<^verbatim>\<open>createCodexAppServerClient\<close> and everything that it has started: the
    processes, and a promise for each call of \<^verbatim>\<open>sendRequest\<close> or \<^verbatim>\<open>request\<close>. A promise of \<^verbatim>\<open>request\<close> waits for
    the promise of the process's first request, \<^verbatim>\<open>initialize\<close>, and then for its own response.
  \<^item> An entry of \<open>ap_pending\<close> stands for its timer too, which is set and cleared with it.
  \<^item> What happens to a client is a \<open>client_step\<close>: a call, the continuation of a call that waited, or an
    event of the process. That writing fails, now or later, is an event of its own.
  \<^item> \<open>JSON.parse\<close>, \<open>String\<close> of a number and the redaction are parameters.

  The main theorem: no request is lost, and none is answered twice.
\<close>

section \<open>State\<close>

datatype client_error =
    ClientClosed
  | NotRunning
  | InvalidJson
  | TimedOut string
  | WriteFailed string
  | ProcessError string
  | ProcessClosed string string \<comment> \<open>the reason and the end of the error output\<close>
  | ResponseError string "rat option"

datatype promise =
    WaitsForInit nat \<comment> \<open>for the process\<close>
  | Sent nat string \<comment> \<open>the process and the id of the request\<close>
  | Answered "client_error + json"

record call =
  rq_method :: string
  rq_params :: json
  rq_promise :: promise

record app_process =
  ap_pending :: "(string, nat \<times> string) assoc" \<comment> \<open>id, call and method\<close>
  ap_init :: nat \<comment> \<open>the call of \<^verbatim>\<open>initialize\<close>\<close>
  ap_initialized :: bool \<comment> \<open>its continuation has run\<close>
  ap_nextRequestId :: nat
  ap_stdoutFrames :: frame_buffer
  ap_stderr :: text_buffer
  ap_settled :: bool
  ap_stdinDestroyed :: bool
  ap_killed :: bool
  ap_written :: "json list"

record client =
  cl_processState :: "nat option"
  cl_closing :: bool
  cl_procs :: "app_process list"
  cl_calls :: "call list"

record client_env =
  ce_parse :: "js_text \<Rightarrow> json option"
  ce_numberText :: "rat \<Rightarrow> string"
  ce_redactTail :: "js_text \<Rightarrow> string" \<comment> \<open>\<^verbatim>\<open>redactText(text).trim().slice(-8192)\<close>\<close>
  ce_blank :: "js_text \<Rightarrow> bool" \<comment> \<open>\<^verbatim>\<open>line.trim().length === 0\<close>\<close>

definition new_client :: client where
  "new_client = \<lparr>cl_processState = None, cl_closing = False, cl_procs = [], cl_calls = []\<rparr>"

definition upd_proc :: "nat \<Rightarrow> (app_process \<Rightarrow> app_process) \<Rightarrow> client \<Rightarrow> client" where
  "upd_proc p f c = c\<lparr>cl_procs := (cl_procs c)[p := f (cl_procs c ! p)]\<rparr>"

definition set_promise :: "nat \<Rightarrow> promise \<Rightarrow> client \<Rightarrow> client" where
  "set_promise n x c = c\<lparr>cl_calls := (cl_calls c)[n := (cl_calls c ! n)\<lparr>rq_promise := x\<rparr>]\<rparr>"

definition promise_of :: "client \<Rightarrow> nat \<Rightarrow> promise" where
  "promise_of c n = rq_promise (cl_calls c ! n)"

section \<open>Operations\<close>

definition session_id :: "nat \<Rightarrow> string" where
  "session_id k = ''clawee_sessions_'' @ nat_text k"

definition sendRequest :: "nat \<Rightarrow> nat \<Rightarrow> client \<Rightarrow> client" where
  "sendRequest p n c =
     (let s = cl_procs c ! p; q = cl_calls c ! n; k = Suc (ap_nextRequestId s); i = session_id k in
      if ap_settled s \<or> ap_stdinDestroyed s then set_promise n (Answered (Inl NotRunning)) c
      else set_promise n (Sent p i)
        (upd_proc p (\<lambda>s. s\<lparr>ap_nextRequestId := k, ap_pending := map_put i (n, rq_method q) (ap_pending s),
           ap_written := ap_written s @
             [JObj [(''id'', JStr i), (''method'', JStr (rq_method q)), (''params'', rq_params q)]]\<rparr>) c))"

definition sendNotification :: "nat \<Rightarrow> string \<Rightarrow> client \<Rightarrow> client" where
  "sendNotification p m =
     upd_proc p (\<lambda>s. if ap_settled s \<or> ap_stdinDestroyed s then s
       else s\<lparr>ap_written := ap_written s @ [JObj [(''method'', JStr m)]]\<rparr>)"

definition failProcess :: "nat \<Rightarrow> client_error \<Rightarrow> bool \<Rightarrow> client \<Rightarrow> client" where
  "failProcess p e kill c =
     (let s = cl_procs c ! p in
      if ap_settled s then c
      else
        fold (\<lambda>(i, n, m). set_promise n (Answered (Inl e))) (ap_pending s)
          (upd_proc p (\<lambda>s. s\<lparr>ap_settled := True, ap_pending := [], ap_killed := ap_killed s \<or> kill\<rparr>)
            (c\<lparr>cl_processState := (if cl_processState c = Some p then None else cl_processState c)\<rparr>)))"

text \<open>A broken pipe is ignored: the process is about to close.\<close>

definition handleWriteFailure :: "nat \<Rightarrow> bool \<Rightarrow> string \<Rightarrow> client \<Rightarrow> client" where
  "handleWriteFailure p brokenPipe message c =
     (if brokenPipe then c else failProcess p (WriteFailed message) True c)"

definition initialize_params :: json where
  "initialize_params =
     JObj [(''clientInfo'', JObj [(''name'', JStr ''clawee-agent''), (''title'', JStr ''Clawee Agent''),
             (''version'', JStr ''0.1.0'')]),
           (''capabilities'', JObj [(''experimentalApi'', JBool True), (''requestAttestation'', JBool False)])]"

definition spawn_process :: "client \<Rightarrow> nat \<times> client" where
  "spawn_process c =
     (let p = length (cl_procs c); n = length (cl_calls c) in
      (p, sendRequest p n
        (c\<lparr>cl_processState := Some p,
           cl_procs := cl_procs c @
             [\<lparr>ap_pending = [], ap_init = n, ap_initialized = False, ap_nextRequestId = 0,
               ap_stdoutFrames = new_frame_buffer, ap_stderr = \<lparr>tb_value = [], tb_droppedBytes = 0\<rparr>,
               ap_settled = False, ap_stdinDestroyed = False, ap_killed = False, ap_written = []\<rparr>],
           cl_calls := cl_calls c @
             [\<lparr>rq_method = ''initialize'', rq_params = initialize_params, rq_promise = WaitsForInit p\<rparr>]\<rparr>)))"

text \<open>\<^verbatim>\<open>ensureProcess\<close>, with the process that is used\<close>

definition ensureProcess :: "client \<Rightarrow> nat \<times> client" where
  "ensureProcess c =
     (case cl_processState c of
        Some p \<Rightarrow> if \<not> ap_settled (cl_procs c ! p) then (p, c) else spawn_process c
      | None \<Rightarrow> spawn_process c)"

text \<open>\<^verbatim>\<open>request\<close>, up to its \<^verbatim>\<open>await\<close>, and what follows when the process is initialized or has failed\<close>

definition request_call :: "string \<Rightarrow> json \<Rightarrow> client \<Rightarrow> client" where
  "request_call m params c =
     (if cl_closing c then
        c\<lparr>cl_calls := cl_calls c @ [\<lparr>rq_method = m, rq_params = params, rq_promise = Answered (Inl ClientClosed)\<rparr>]\<rparr>
      else
        (case ensureProcess c of (p, c1) \<Rightarrow>
           c1\<lparr>cl_calls := cl_calls c1 @ [\<lparr>rq_method = m, rq_params = params, rq_promise = WaitsForInit p\<rparr>]\<rparr>))"

definition request_continues :: "nat \<Rightarrow> nat \<Rightarrow> client \<Rightarrow> client" where
  "request_continues p n c =
     (case promise_of c (ap_init (cl_procs c ! p)) of
        Answered (Inl e) \<Rightarrow> set_promise n (Answered (Inl e)) c
      | _ \<Rightarrow> sendRequest p n c)"

definition init_continues :: "nat \<Rightarrow> client \<Rightarrow> client" where
  "init_continues p c = upd_proc p (\<lambda>s. s\<lparr>ap_initialized := True\<rparr>) (sendNotification p ''initialized'' c)"

text \<open>The answer to a request of the server, which the client does not support\<close>

definition unsupported :: "json \<Rightarrow> string \<Rightarrow> json" where
  "unsupported i m =
     JObj [(''id'', i), (''error'', JObj [(''code'', JNum (- 32601)), (''message'', JStr (''Unsupported server request: '' @ m))])]"

definition response_of :: "json_record \<Rightarrow> client_error + json" where
  "response_of r =
     (case field_of (Some r) ''error'' of
        JObj e \<Rightarrow> Inl (ResponseError (string_or (field_of (Some e) ''message'') ''Codex app-server request failed'')
                   (numberValue (field_of (Some e) ''code'')))
      | _ \<Rightarrow> Inr (field_of (Some r) ''result''))"

definition handle_id :: "nat \<Rightarrow> json_record \<Rightarrow> json \<Rightarrow> string \<Rightarrow> client \<Rightarrow> client" where
  "handle_id p r i key c =
     (case map_of (ap_pending (cl_procs c ! p)) key of
        None \<Rightarrow>
          (case field_of (Some r) ''method'' of
             JStr m \<Rightarrow> upd_proc p (\<lambda>s. s\<lparr>ap_written := ap_written s @ [unsupported i m]\<rparr>) c
           | _ \<Rightarrow> c)
      | Some (n, m) \<Rightarrow>
          set_promise n (Answered (response_of r)) (upd_proc p (\<lambda>s. s\<lparr>ap_pending := map_del key (ap_pending s)\<rparr>) c))"

definition handleMessage :: "client_env \<Rightarrow> nat \<Rightarrow> json \<Rightarrow> client \<Rightarrow> client" where
  "handleMessage E p v c =
     (case v of
        JObj r \<Rightarrow>
          (case field_of (Some r) ''id'' of
             JStr s \<Rightarrow> handle_id p r (JStr s) s c
           | JNum q \<Rightarrow> handle_id p r (JNum q) (ce_numberText E q) c
           | _ \<Rightarrow> c)
      | _ \<Rightarrow> c)"

fun handle_lines :: "client_env \<Rightarrow> nat \<Rightarrow> js_text list \<Rightarrow> client \<Rightarrow> client" where
  "handle_lines E p [] c = c"
| "handle_lines E p (l # ls) c =
     (if ce_blank E l then handle_lines E p ls c
      else (case ce_parse E l of
              None \<Rightarrow> failProcess p InvalidJson True c
            | Some v \<Rightarrow> handle_lines E p ls (handleMessage E p v c)))"

definition on_stdout :: "client_env \<Rightarrow> nat \<Rightarrow> js_text \<Rightarrow> client \<Rightarrow> client" where
  "on_stdout E p chunk c =
     (case push 1048576 chunk (ap_stdoutFrames (cl_procs c ! p)) of (lines, b) \<Rightarrow>
        handle_lines E p lines (upd_proc p (\<lambda>s. s\<lparr>ap_stdoutFrames := b\<rparr>) c))"

definition on_stderr :: "nat \<Rightarrow> js_text \<Rightarrow> client \<Rightarrow> client" where
  "on_stderr p chunk = upd_proc p (\<lambda>s. s\<lparr>ap_stderr := text_append 65536 chunk (ap_stderr s)\<rparr>)"

definition on_close :: "client_env \<Rightarrow> nat \<Rightarrow> string \<Rightarrow> client \<Rightarrow> client" where
  "on_close E p reason c =
     failProcess p (ProcessClosed reason (ce_redactTail E (tb_value (ap_stderr (cl_procs c ! p))))) False c"

text \<open>\<^verbatim>\<open>close\<close>, up to its \<^verbatim>\<open>await\<close>\<close>

definition client_close :: "client \<Rightarrow> client" where
  "client_close c =
     (let c1 = c\<lparr>cl_closing := True, cl_processState := None\<rparr> in
      case cl_processState c of
        None \<Rightarrow> c1
      | Some p \<Rightarrow> if ap_settled (cl_procs c ! p) then c1 else upd_proc p (\<lambda>s. s\<lparr>ap_killed := True\<rparr>) c1)"

section \<open>What happens to a client\<close>

inductive client_step :: "client_env \<Rightarrow> client \<Rightarrow> client \<Rightarrow> bool" for E where
  step_request: "client_step E c (request_call m params c)"
| step_continue: "client_step E c (request_continues p n c)"
    if "n < length (cl_calls c)" and "promise_of c n = WaitsForInit p"
      and "promise_of c (ap_init (cl_procs c ! p)) = Answered r" and "isl r \<or> ap_initialized (cl_procs c ! p)"
| step_initialized: "client_step E c (init_continues p c)"
    if "p < length (cl_procs c)" and "promise_of c (ap_init (cl_procs c ! p)) = Answered (Inr v)"
| step_stdout: "client_step E c (on_stdout E p chunk c)" if "p < length (cl_procs c)"
| step_stderr: "client_step E c (on_stderr p chunk c)" if "p < length (cl_procs c)"
| step_timeout: "client_step E c (failProcess p (TimedOut m) True c)"
    if "p < length (cl_procs c)" and "map_of (ap_pending (cl_procs c ! p)) i = Some (n, m)"
| step_write_failure: "client_step E c (handleWriteFailure p brokenPipe message c)" if "p < length (cl_procs c)"
| step_stdin_destroyed: "client_step E c (upd_proc p (\<lambda>s. s\<lparr>ap_stdinDestroyed := True\<rparr>) c)" if "p < length (cl_procs c)"
| step_error: "client_step E c (failProcess p (ProcessError message) True c)" if "p < length (cl_procs c)"
| step_closed: "client_step E c (on_close E p reason c)" if "p < length (cl_procs c)"
| step_close: "client_step E c (client_close c)"

inductive client_history :: "client_env \<Rightarrow> client \<Rightarrow> bool" for E where
  history_new: "client_history E new_client"
| history_next: "client_history E c \<Longrightarrow> client_step E c c' \<Longrightarrow> client_history E c'"

section \<open>Consistent clients\<close>

definition proc_ok :: "client \<Rightarrow> nat \<Rightarrow> bool" where
  "proc_ok c p \<longleftrightarrow>
     (let s = cl_procs c ! p in
      (ap_settled s \<longrightarrow> ap_pending s = []) \<and>
      (\<forall>i n m. map_of (ap_pending s) i = Some (n, m) \<longrightarrow> n < length (cl_calls c) \<and> promise_of c n = Sent p i) \<and>
      (\<forall>i \<in> fst ` set (ap_pending s). \<exists>k \<le> ap_nextRequestId s. i = session_id k) \<and> keys_distinct (ap_pending s) \<and>
      ap_init s < length (cl_calls c) \<and>
      (case promise_of c (ap_init s) of WaitsForInit q \<Rightarrow> False | Sent q i \<Rightarrow> q = p | Answered r \<Rightarrow> True))"

definition call_ok :: "client \<Rightarrow> nat \<Rightarrow> bool" where
  "call_ok c n \<longleftrightarrow>
     (case promise_of c n of
        WaitsForInit p \<Rightarrow> p < length (cl_procs c)
      | Sent p i \<Rightarrow> p < length (cl_procs c) \<and> (\<exists>m. map_of (ap_pending (cl_procs c ! p)) i = Some (n, m))
      | Answered r \<Rightarrow> True)"

definition client_ok :: "client \<Rightarrow> bool" where
  "client_ok c \<longleftrightarrow>
     (\<forall>p < length (cl_procs c). proc_ok c p) \<and> (\<forall>n < length (cl_calls c). call_ok c n) \<and>
     (\<forall>p. cl_processState c = Some p \<longrightarrow> p < length (cl_procs c) \<and> \<not> ap_settled (cl_procs c ! p))"

text \<open>A step leads from consistent clients to consistent ones, and keeps the answers.\<close>

definition advances :: "client \<Rightarrow> client \<Rightarrow> bool" where
  "advances c c' \<longleftrightarrow>
     (client_ok c \<longrightarrow>
        client_ok c' \<and> length (cl_procs c) \<le> length (cl_procs c') \<and> length (cl_calls c) \<le> length (cl_calls c') \<and>
        (\<forall>n r. n < length (cl_calls c) \<longrightarrow> promise_of c n = Answered r \<longrightarrow> promise_of c' n = Answered r))"

lemma advances_refl [simp]: "advances c c"
  by (simp add: advances_def)

lemma advances_trans: "advances c c1 \<Longrightarrow> advances c1 c2 \<Longrightarrow> advances c c2"
  by (force simp: advances_def)

lemma advancesI:
  "(client_ok c \<Longrightarrow> client_ok c') \<Longrightarrow> length (cl_procs c') = length (cl_procs c) \<Longrightarrow>
   length (cl_calls c') = length (cl_calls c) \<Longrightarrow>
   (\<And>n r. client_ok c \<Longrightarrow> n < length (cl_calls c) \<Longrightarrow> promise_of c n = Answered r \<Longrightarrow> promise_of c' n = Answered r) \<Longrightarrow>
   advances c c'"
  by (simp add: advances_def)

lemma client_simps [simp]:
  "length (cl_procs (upd_proc p f c)) = length (cl_procs c)" "cl_calls (upd_proc p f c) = cl_calls c"
  "cl_processState (upd_proc p f c) = cl_processState c" "promise_of (upd_proc p f c) n = promise_of c n"
  "cl_procs (set_promise n x c) = cl_procs c" "length (cl_calls (set_promise n x c)) = length (cl_calls c)"
  "cl_processState (set_promise n x c) = cl_processState c"
  by (simp_all add: upd_proc_def set_promise_def promise_of_def)

lemma proc_of_upd: "p < length (cl_procs c) \<Longrightarrow> cl_procs (upd_proc p f c) ! q = (if q = p then f (cl_procs c ! p) else cl_procs c ! q)"
  by (simp add: upd_proc_def)

lemma promise_of_set: "n < length (cl_calls c) \<Longrightarrow> promise_of (set_promise n x c) k = (if k = n then x else promise_of c k)"
  by (simp add: promise_of_def set_promise_def nth_list_update)

text \<open>What a process or a call needs in order to stay consistent\<close>

lemma proc_ok_kept:
  assumes "proc_ok c p"
    and "ap_pending (cl_procs c' ! p) = ap_pending (cl_procs c ! p)" "ap_init (cl_procs c' ! p) = ap_init (cl_procs c ! p)"
      "ap_nextRequestId (cl_procs c' ! p) = ap_nextRequestId (cl_procs c ! p)"
      "ap_settled (cl_procs c' ! p) = ap_settled (cl_procs c ! p)"
    and "length (cl_calls c) \<le> length (cl_calls c')"
    and sent: "\<And>n i. n < length (cl_calls c) \<Longrightarrow> promise_of c n = Sent p i \<Longrightarrow> promise_of c' n = Sent p i"
    and "\<And>n r. n < length (cl_calls c) \<Longrightarrow> promise_of c n = Answered r \<Longrightarrow> promise_of c' n = Answered r"
  shows "proc_ok c' p"
proof -
  have "case promise_of c' n of WaitsForInit q \<Rightarrow> False | Sent q i \<Rightarrow> q = p | Answered r \<Rightarrow> True"
    if "n < length (cl_calls c)"
      and "case promise_of c n of WaitsForInit q \<Rightarrow> False | Sent q i \<Rightarrow> q = p | Answered r \<Rightarrow> True" for n
    using that assms(8) [OF that(1)] sent [OF that(1)] by (cases "promise_of c n") auto
  moreover have "n < length (cl_calls c') \<and> promise_of c' n = Sent p i"
    if "map_of (ap_pending (cl_procs c ! p)) i = Some (n, m)" for n i m
    using that assms(1,6) sent unfolding proc_ok_def Let_def by (meson less_le_trans)
  ultimately show ?thesis
    using assms(1,6) unfolding proc_ok_def Let_def assms(2-5) by (meson less_le_trans)
qed

lemma call_ok_kept:
  assumes "call_ok c n" and "promise_of c' n = promise_of c n" and "length (cl_procs c) \<le> length (cl_procs c')"
    and "\<And>p i m. p < length (cl_procs c) \<Longrightarrow> promise_of c n = Sent p i \<Longrightarrow>
      map_of (ap_pending (cl_procs c ! p)) i = Some (n, m) \<Longrightarrow> map_of (ap_pending (cl_procs c' ! p)) i = Some (n, m)"
  shows "call_ok c' n"
  using assms unfolding call_ok_def by (cases "promise_of c n") auto

text \<open>Changes that do not concern the requests\<close>

lemma neutral_advances:
  assumes "p < length (cl_procs c)"
    and "\<And>s. ap_pending (f s) = ap_pending s \<and> ap_init (f s) = ap_init s \<and>
      ap_nextRequestId (f s) = ap_nextRequestId s \<and> ap_settled (f s) = ap_settled s"
  shows "advances c (upd_proc p f c)"
proof (rule advancesI)
  assume ok: "client_ok c"
  have "proc_ok (upd_proc p f c) q = proc_ok c q" for q
    using assms by (simp add: proc_ok_def proc_of_upd Let_def)
  moreover have "call_ok (upd_proc p f c) n = call_ok c n" for n
    using assms by (simp add: call_ok_def proc_of_upd split: promise.splits)
  ultimately show "client_ok (upd_proc p f c)" using ok assms by (simp add: client_ok_def proc_of_upd)
qed simp_all

lemma dropped_advances: "advances c (c\<lparr>cl_closing := b, cl_processState := None\<rparr>)"
proof (rule advancesI)
  let ?c = "c\<lparr>cl_closing := b, cl_processState := None\<rparr>"
  assume ok: "client_ok c"
  have "promise_of ?c = promise_of c" by (rule ext) (simp add: promise_of_def)
  then have "proc_ok ?c = proc_ok c" "call_ok ?c = call_ok c" 
    by (simp_all add: fun_eq_iff proc_ok_def call_ok_def split: promise.splits)
  then show "client_ok ?c" using ok by (simp add: client_ok_def)
qed (simp_all add: promise_of_def)

text \<open>A call that waits is neither pending nor the first one of a process.\<close>

lemma waiting_call:
  assumes "client_ok c" and "promise_of c n = WaitsForInit q" and "p < length (cl_procs c)"
  shows "map_of (ap_pending (cl_procs c ! p)) i \<noteq> Some (n, m)" and "ap_init (cl_procs c ! p) \<noteq> n"
proof -
  have "proc_ok c p" using assms(1,3) by (simp add: client_ok_def)
  then have sent: "map_of (ap_pending (cl_procs c ! p)) i = Some (n, m) \<Longrightarrow> promise_of c n = Sent p i"
    and "\<not> (case promise_of c (ap_init (cl_procs c ! p)) of WaitsForInit q \<Rightarrow> True | Sent q i \<Rightarrow> False | Answered r \<Rightarrow> False)"
    by (auto simp: proc_ok_def Let_def split: promise.splits)
  then show "ap_init (cl_procs c ! p) \<noteq> n" using assms(2) by auto
  show "map_of (ap_pending (cl_procs c ! p)) i \<noteq> Some (n, m)" using sent assms(2) by auto
qed

lemma refused_advances:
  assumes "n < length (cl_calls c)" and "promise_of c n = WaitsForInit q"
  shows "advances c (set_promise n (Answered r) c)"
proof (rule advancesI)
  let ?c = "set_promise n (Answered r) c"
  assume ok: "client_ok c"
  have "proc_ok ?c p" if "p < length (cl_procs c)" for p
  proof -
    have "proc_ok c p" using ok that by (simp add: client_ok_def)
    then show ?thesis
      using waiting_call [OF ok assms(2) that] assms(1) unfolding proc_ok_def Let_def
      by (auto simp: promise_of_set)
  qed
  moreover have "call_ok ?c k" if "k < length (cl_calls c)" for k
    using ok that assms(1) by (auto simp: client_ok_def call_ok_def promise_of_set split: promise.splits)
  ultimately show "client_ok ?c" using ok by (simp add: client_ok_def)
qed (use assms in \<open>auto simp: promise_of_set\<close>)

lemma session_id_inj [simp]: "session_id j = session_id k \<longleftrightarrow> j = k"
  by (simp add: session_id_def)

lemma sendRequest_advances:
  assumes "n < length (cl_calls c)" and "promise_of c n = WaitsForInit p" and "p < length (cl_procs c)"
  shows "advances c (sendRequest p n c)"
proof (cases "ap_settled (cl_procs c ! p) \<or> ap_stdinDestroyed (cl_procs c ! p)")
  case True
  then have "sendRequest p n c = set_promise n (Answered (Inl NotRunning)) c"
    unfolding sendRequest_def Let_def by (rule if_P)
  then show ?thesis using refused_advances [OF assms(1,2)] by simp
next
  case False
  let ?s = "cl_procs c ! p" and ?c = "sendRequest p n c"
  let ?i = "session_id (Suc (ap_nextRequestId ?s))"
  have procs: "q \<noteq> p \<Longrightarrow> cl_procs ?c ! q = cl_procs c ! q"
    and s: "ap_pending (cl_procs ?c ! p) = map_put ?i (n, rq_method (cl_calls c ! n)) (ap_pending ?s)"
      "ap_init (cl_procs ?c ! p) = ap_init ?s" "ap_nextRequestId (cl_procs ?c ! p) = Suc (ap_nextRequestId ?s)"
      "ap_settled (cl_procs ?c ! p) = ap_settled ?s"
    and promises: "promise_of ?c k = (if k = n then Sent p ?i else promise_of c k)"
    and same: "cl_processState ?c = cl_processState c" "length (cl_procs ?c) = length (cl_procs c)"
      "length (cl_calls ?c) = length (cl_calls c)" for q k
    using False assms by (simp_all add: sendRequest_def Let_def proc_of_upd promise_of_set)
  show ?thesis
  proof (rule advancesI)
    assume ok: "client_ok c"
    have sp: "proc_ok c p" using ok assms(3) by (simp add: client_ok_def)
    then have new: "?i \<notin> fst ` set (ap_pending ?s)" unfolding proc_ok_def Let_def by auto
    have "proc_ok ?c q" if "q < length (cl_procs c)" for q
    proof (cases "q = p")
      case True
      then show ?thesis
        using sp new waiting_call [OF ok assms(2,3)] assms(1) False unfolding proc_ok_def Let_def
        by (auto simp: s promises same split: promise.splits)
    next
      case False
      have "proc_ok c q" using ok that by (simp add: client_ok_def)
      then show ?thesis
        using waiting_call [OF ok assms(2) that] assms(1) procs [of q] False unfolding proc_ok_def Let_def
        by (auto simp: promises same split: promise.splits)
    qed
    moreover have "call_ok ?c k" if "k < length (cl_calls c)" for k
    proof (cases "k = n")
      case True
      then show ?thesis using assms(3) by (simp add: call_ok_def promises s same)
    next
      case False
      have "call_ok c k" using ok that by (simp add: client_ok_def)
      moreover have "map_of (ap_pending ?s) ?i = None" using new by (simp add: map_of_eq_None_iff)
      moreover have "map_of (ap_pending (cl_procs ?c ! q)) j = Some (k, m)"
        if "map_of (ap_pending (cl_procs c ! q)) j = Some (k, m)" for q j m
        using that calculation(2) by (cases "q = p") (auto simp: s procs)
      ultimately show ?thesis
        using False by (elim call_ok_kept) (simp_all add: promises same)
    qed
    moreover have "ap_settled (cl_procs ?c ! q) = ap_settled (cl_procs c ! q)" for q
      by (cases "q = p") (simp_all add: s procs)
    ultimately show "client_ok ?c" using ok unfolding client_ok_def same by blast
  qed (use assms(1,2) promises same in auto)
qed

text \<open>Starting a process: its first request is sent at once.\<close>

lemma spawn_process_eq:
  "spawn_process c =
     (length (cl_procs c),
      c\<lparr>cl_processState := Some (length (cl_procs c)),
        cl_procs := cl_procs c @
          [\<lparr>ap_pending = [(session_id 1, length (cl_calls c), ''initialize'')], ap_init = length (cl_calls c),
            ap_initialized = False, ap_nextRequestId = 1,
            ap_stdoutFrames = new_frame_buffer, ap_stderr = \<lparr>tb_value = [], tb_droppedBytes = 0\<rparr>,
            ap_settled = False, ap_stdinDestroyed = False, ap_killed = False,
            ap_written = [JObj [(''id'', JStr (session_id 1)), (''method'', JStr ''initialize''),
              (''params'', initialize_params)]]\<rparr>],
        cl_calls := cl_calls c @
          [\<lparr>rq_method = ''initialize'', rq_params = initialize_params,
            rq_promise = Sent (length (cl_procs c)) (session_id 1)\<rparr>]\<rparr>)"
  by (simp add: spawn_process_def sendRequest_def upd_proc_def set_promise_def Let_def)

lemma spawn_advances: "advances c (snd (spawn_process c))"
proof -
  obtain c' where c': "c' = snd (spawn_process c)" by simp
  define P N where "P = length (cl_procs c)" and "N = length (cl_calls c)"
  have promises: "promise_of c' k = (if k = N then Sent P (session_id 1) else promise_of c k)" if "k \<le> N" for k
    using that by (simp add: c' spawn_process_eq promise_of_def nth_append P_def N_def)
  have old: "q < P \<Longrightarrow> cl_procs c' ! q = cl_procs c ! q"
    and s: "ap_pending (cl_procs c' ! P) = [(session_id 1, N, ''initialize'')]" "ap_init (cl_procs c' ! P) = N"
      "ap_nextRequestId (cl_procs c' ! P) = 1" "\<not> ap_settled (cl_procs c' ! P)"
    and sizes: "length (cl_procs c') = Suc P" "length (cl_calls c') = Suc N" "cl_processState c' = Some P" for q
    by (simp_all add: c' spawn_process_eq nth_append P_def N_def)
  have "client_ok c'" if ok: "client_ok c"
  proof -
    have "proc_ok c' q" if "q < P" for q
    proof -
      have "proc_ok c q" using ok that by (simp add: client_ok_def P_def)
      then show ?thesis
        by (rule proc_ok_kept) (simp_all add: old [OF that] promises sizes flip: N_def)
    qed
    moreover have "proc_ok c' P"
      using s promises [of N] by (auto simp: proc_ok_def Let_def sizes keys_distinct_def)
    moreover have "call_ok c' k" if "k < N" for k
    proof -
      have "call_ok c k" using ok that by (simp add: client_ok_def N_def)
      then show ?thesis using that
        by (elim call_ok_kept) (simp_all add: old promises sizes flip: P_def)
    qed
    moreover have "call_ok c' N" using promises [of N] s by (simp add: call_ok_def sizes)
    ultimately show ?thesis using s(4) by (auto simp: client_ok_def sizes less_Suc_eq)
  qed
  then show ?thesis using promises sizes by (simp add: advances_def flip: c' P_def N_def)
qed

lemma ensureProcess_advances: "advances c (snd (ensureProcess c))"
  using spawn_advances by (simp add: ensureProcess_def split: option.splits)

lemma ensureProcess_known: "client_ok c \<Longrightarrow> fst (ensureProcess c) < length (cl_procs (snd (ensureProcess c)))"
  by (auto simp: ensureProcess_def client_ok_def spawn_process_eq split: option.splits)

lemma new_call_advances:
  assumes "case x of WaitsForInit p \<Rightarrow> client_ok c \<longrightarrow> p < length (cl_procs c) | Sent p i \<Rightarrow> False | Answered r \<Rightarrow> True"
  shows "advances c (c\<lparr>cl_calls := cl_calls c @ [\<lparr>rq_method = m, rq_params = params, rq_promise = x\<rparr>]\<rparr>)"
proof -
  let ?c = "c\<lparr>cl_calls := cl_calls c @ [\<lparr>rq_method = m, rq_params = params, rq_promise = x\<rparr>]\<rparr>"
  have old: "promise_of ?c k = promise_of c k" if "k < length (cl_calls c)" for k
    using that by (simp add: promise_of_def nth_append)
  have new: "promise_of ?c (length (cl_calls c)) = x" by (simp add: promise_of_def)
  have "client_ok ?c" if ok: "client_ok c"
  proof -
    have "proc_ok ?c q" if "q < length (cl_procs c)" for q
    proof -
      have "proc_ok c q" using ok that by (simp add: client_ok_def)
      then show ?thesis unfolding proc_ok_def Let_def by (auto simp: old less_Suc_eq)
    qed
    moreover have "call_ok ?c k" if "k < Suc (length (cl_calls c))" for k
    proof (cases "k = length (cl_calls c)")
      case True
      then show ?thesis using assms ok new by (auto simp: call_ok_def split: promise.splits)
    next
      case False
      then have "k < length (cl_calls c)" using that by simp
      then show ?thesis using ok by (auto simp: client_ok_def call_ok_def old split: promise.splits)
    qed
    ultimately show ?thesis using ok by (simp add: client_ok_def)
  qed
  then show ?thesis using old by (simp add: advances_def)
qed

lemma request_call_advances: "advances c (request_call m params c)"
proof (cases "cl_closing c")
  case True
  then show ?thesis by (simp add: request_call_def new_call_advances)
next
  case False
  obtain p c1 where e: "ensureProcess c = (p, c1)" by force
  have "advances c c1" using ensureProcess_advances [of c] e by simp
  show ?thesis
  proof (cases "client_ok c")
    case True
    have "p < length (cl_procs c1)" using ensureProcess_known [OF True] e by simp
    then have "advances c1 (c1\<lparr>cl_calls := cl_calls c1 @ [\<lparr>rq_method = m, rq_params = params, rq_promise = WaitsForInit p\<rparr>]\<rparr>)"
      by (simp add: new_call_advances)
    then show ?thesis using advances_trans \<open>advances c c1\<close> False e by (simp add: request_call_def)
  qed (simp add: advances_def)
qed

lemma request_continues_advances:
  assumes "n < length (cl_calls c)" and "promise_of c n = WaitsForInit p"
  shows "advances c (request_continues p n c)"
proof (cases "client_ok c")
  case True
  then have "call_ok c n" using assms(1) by (simp add: client_ok_def)
  then have "p < length (cl_procs c)" using assms(2) by (simp add: call_ok_def)
  then show ?thesis
    using sendRequest_advances [OF assms] refused_advances [OF assms]
    by (simp add: request_continues_def split: promise.splits sum.splits)
qed (simp add: advances_def)

text \<open>Some pending requests of a process, the ones that are not kept, are answered and removed.\<close>

lemma keys_distinct_filter [simp]: "keys_distinct m \<Longrightarrow> keys_distinct (filter f m)"
  by (simp add: keys_distinct_def distinct_map_filter)

lemma pendingD:
  assumes "client_ok c" and "p < length (cl_procs c)" and "(i, n, m) \<in> set (ap_pending (cl_procs c ! p))"
  shows "n < length (cl_calls c)" and "promise_of c n = Sent p i"
    and "(i', n, m') \<in> set (ap_pending (cl_procs c ! p)) \<Longrightarrow> i' = i \<and> m' = m"
proof -
  have ok: "proc_ok c p" using assms(1,2) by (simp add: client_ok_def)
  then have d: "keys_distinct (ap_pending (cl_procs c ! p))" by (simp add: proc_ok_def Let_def)
  have sent: "k < length (cl_calls c) \<and> promise_of c k = Sent p j"
    if "(j, k, l) \<in> set (ap_pending (cl_procs c ! p))" for j k l
    using that ok keys_distinct_get [OF d, of j "(k, l)"] by (auto simp: proc_ok_def Let_def)
  show "n < length (cl_calls c)" "promise_of c n = Sent p i" using sent assms(3) by blast+
  show "i' = i \<and> m' = m" if e: "(i', n, m') \<in> set (ap_pending (cl_procs c ! p))"
    using sent [OF e] sent [OF assms(3)] keys_distinct_get [OF d, of i "(n, m)"] keys_distinct_get [OF d, of i "(n, m')"]
      e assms(3) by auto
qed

lemma answers_advance:
  assumes p: "p < length (cl_procs c)"
    and same: "length (cl_procs c') = length (cl_procs c)" "length (cl_calls c') = length (cl_calls c)"
    and others: "\<And>q. q \<noteq> p \<Longrightarrow> cl_procs c' ! q = cl_procs c ! q"
    and s: "ap_pending (cl_procs c' ! p) = filter keep (ap_pending (cl_procs c ! p))"
      "ap_init (cl_procs c' ! p) = ap_init (cl_procs c ! p)"
      "ap_nextRequestId (cl_procs c' ! p) = ap_nextRequestId (cl_procs c ! p)"
    and settled: "ap_settled (cl_procs c' ! p) \<Longrightarrow> client_ok c \<Longrightarrow> ap_pending (cl_procs c' ! p) = []"
    and promises: "\<And>k. client_ok c \<Longrightarrow> promise_of c' k =
      (if \<exists>i m. (i, k, m) \<in> set (ap_pending (cl_procs c ! p)) \<and> \<not> keep (i, k, m) then Answered r else promise_of c k)"
    and state: "\<And>q. cl_processState c' = Some q \<Longrightarrow>
      cl_processState c = Some q \<and> (ap_settled (cl_procs c' ! q) \<longrightarrow> ap_settled (cl_procs c ! q))"
  shows "advances c c'"
proof (rule advancesI)
  assume ok: "client_ok c"
  let ?xs = "ap_pending (cl_procs c ! p)"
  have pok: "proc_ok c p" using ok p by (simp add: client_ok_def)
  then have d: "keys_distinct ?xs" by (simp add: proc_ok_def Let_def)
  note pending = pendingD [OF ok p]
  have elsewhere: "promise_of c' k = promise_of c k" if "\<And>i. promise_of c k \<noteq> Sent p i" for k
    using promises [OF ok, of k] pending(2) that by auto
  have "proc_ok c' q" if "q < length (cl_procs c)" "q \<noteq> p" for q
  proof -
    have "proc_ok c q" using ok that by (simp add: client_ok_def)
    then show ?thesis by (rule proc_ok_kept) (simp_all add: others that same elsewhere)
  qed
  moreover have "proc_ok c' p"
  proof -
    have "n < length (cl_calls c) \<and> promise_of c' n = Sent p i" if "map_of (filter keep ?xs) i = Some (n, m)" for i n m
    proof -
      have m: "(i, n, m) \<in> set ?xs" "keep (i, n, m)" using that d by (auto simp: keys_distinct_get)
      have "\<not> (\<exists>j l. (j, n, l) \<in> set ?xs \<and> \<not> keep (j, n, l))" using pending(3) [OF m(1)] m(2) by blast
      then show ?thesis using promises [OF ok, of n] pending(1,2) [OF m(1)] by simp
    qed
    moreover have "case promise_of c' (ap_init (cl_procs c ! p)) of WaitsForInit q \<Rightarrow> False | Sent q i \<Rightarrow> q = p | Answered r \<Rightarrow> True"
      using pok promises [OF ok, of "ap_init (cl_procs c ! p)"] by (auto simp: proc_ok_def Let_def)
    ultimately show ?thesis
      using pok settled ok d by (auto simp: proc_ok_def Let_def s same)
  qed
  moreover have "call_ok c' k" if "k < length (cl_calls c)" for k
  proof -
    have c: "call_ok c k" using ok that by (simp add: client_ok_def)
    show ?thesis
    proof (cases "\<exists>i m. (i, k, m) \<in> set ?xs \<and> \<not> keep (i, k, m)")
      case True
      then show ?thesis using promises [OF ok, of k] by (simp add: call_ok_def)
    next
      case False
      then have "map_of (filter keep ?xs) i = Some (k, m)" if "map_of ?xs i = Some (k, m)" for i m
        using that d by (auto simp: keys_distinct_get)
      then have "map_of (ap_pending (cl_procs c' ! q)) i = Some (k, m)"
        if "map_of (ap_pending (cl_procs c ! q)) i = Some (k, m)" for q i m
        using that by (cases "q = p") (simp_all add: s others)
      moreover have "promise_of c' k = promise_of c k" using promises [OF ok, of k] False by meson
      ultimately show ?thesis using c same by (elim call_ok_kept) simp_all
    qed
  qed
  moreover have "q < length (cl_procs c) \<and> \<not> ap_settled (cl_procs c' ! q)" if "cl_processState c' = Some q" for q
    using ok state [OF that] by (auto simp: client_ok_def)
  ultimately show "client_ok c'" unfolding client_ok_def same by blast
next
  fix n r' assume "client_ok c" "promise_of c n = Answered r'"
  then show "promise_of c' n = Answered r'" using promises [of n] pendingD(2) [OF _ p] by auto
qed (simp_all add: same)

lemma handle_id_advances:
  assumes p: "p < length (cl_procs c)"
  shows "advances c (handle_id p r i key c)"
proof (cases "map_of (ap_pending (cl_procs c ! p)) key")
  case None
  then show ?thesis by (auto simp: handle_id_def p split: json.splits intro!: neutral_advances)
next
  case (Some e)
  obtain n m where e: "e = (n, m)" by (cases e)
  let ?c = "handle_id p r i key c"
  have c': "?c = set_promise n (Answered (response_of r)) (upd_proc p (\<lambda>s. s\<lparr>ap_pending := map_del key (ap_pending s)\<rparr>) c)"
    using Some e by (simp add: handle_id_def)
  show ?thesis
  proof (rule answers_advance [where p = p and keep = "\<lambda>x. fst x \<noteq> key" and r = "response_of r"])
    show "ap_pending (cl_procs ?c ! p) = []" if "ap_settled (cl_procs ?c ! p)" "client_ok c"
      using that p by (auto simp: c' proc_of_upd client_ok_def proc_ok_def Let_def map_del_def)
    show "promise_of ?c k = (if \<exists>i m. (i, k, m) \<in> set (ap_pending (cl_procs c ! p)) \<and> \<not> fst (i, k, m) \<noteq> key
        then Answered (response_of r) else promise_of c k)" if ok: "client_ok c" for k
    proof -
      have "proc_ok c p" using ok p by (simp add: client_ok_def)
      then have "(key, k, l) \<in> set (ap_pending (cl_procs c ! p)) \<longleftrightarrow> k = n \<and> l = m" for l
        using Some e keys_distinct_get [of "ap_pending (cl_procs c ! p)" key "(k, l)"]
        by (auto simp: proc_ok_def Let_def)
      moreover have "n < length (cl_calls c)"
        using pendingD(1) [OF ok p map_of_SomeD] Some e by auto
      ultimately show ?thesis by (auto simp: c' promise_of_set)
    qed
  qed (simp_all add: p c' proc_of_upd map_del_def)
qed

text \<open>All pending requests fail.\<close>

lemma fold_set_promise:
  "\<forall>e \<in> set xs. fst (snd e) < length (cl_calls c) \<Longrightarrow>
   promise_of (fold (\<lambda>(i, n, m). set_promise n x) xs c) k =
     (if \<exists>i m. (i, k, m) \<in> set xs then x else promise_of c k) \<and>
   cl_procs (fold (\<lambda>(i, n, m). set_promise n x) xs c) = cl_procs c \<and>
   length (cl_calls (fold (\<lambda>(i, n, m). set_promise n x) xs c)) = length (cl_calls c) \<and>
   cl_processState (fold (\<lambda>(i, n, m). set_promise n x) xs c) = cl_processState c"
proof (induction xs arbitrary: c)
  case (Cons e xs)
  obtain i n m where e: "e = (i, n, m)" by (cases e)
  have "n < length (cl_calls c)" using Cons.prems e by simp
  then show ?case using Cons.IH [of "set_promise n x c"] Cons.prems by (auto simp: e promise_of_set)
qed simp

lemma fail_unless_settled:
  assumes p: "p < length (cl_procs c)" and ok: "client_ok c" and running: "\<not> ap_settled (cl_procs c ! p)"
  shows "promise_of (failProcess p e kill c) k =
      (if \<exists>i m. (i, k, m) \<in> set (ap_pending (cl_procs c ! p)) then Answered (Inl e) else promise_of c k)"
    and "cl_procs (failProcess p e kill c) = (cl_procs c)
      [p := (cl_procs c ! p)\<lparr>ap_settled := True, ap_pending := [], ap_killed := ap_killed (cl_procs c ! p) \<or> kill\<rparr>]"
    and "length (cl_calls (failProcess p e kill c)) = length (cl_calls c)"
    and "cl_processState (failProcess p e kill c) = (if cl_processState c = Some p then None else cl_processState c)"
proof -
  define c1 where "c1 = upd_proc p (\<lambda>s. s\<lparr>ap_settled := True, ap_pending := [], ap_killed := ap_killed s \<or> kill\<rparr>)
    (c\<lparr>cl_processState := (if cl_processState c = Some p then None else cl_processState c)\<rparr>)"
  have c1: "promise_of c1 k = promise_of c k" "length (cl_calls c1) = length (cl_calls c)"
    "cl_processState c1 = (if cl_processState c = Some p then None else cl_processState c)"
    "cl_procs c1 = (cl_procs c)
      [p := (cl_procs c ! p)\<lparr>ap_settled := True, ap_pending := [], ap_killed := ap_killed (cl_procs c ! p) \<or> kill\<rparr>]" for k
    by (simp_all add: c1_def upd_proc_def promise_of_def)
  have f: "failProcess p e kill c = fold (\<lambda>(i, n, m). set_promise n (Answered (Inl e))) (ap_pending (cl_procs c ! p)) c1"
    using running by (simp only: failProcess_def Let_def c1_def if_False)
  have "\<forall>e \<in> set (ap_pending (cl_procs c ! p)). fst (snd e) < length (cl_calls c1)"
    using pendingD(1) [OF ok p] by (auto simp: c1(2))
  note folded = fold_set_promise [OF this]
  show "promise_of (failProcess p e kill c) k =
      (if \<exists>i m. (i, k, m) \<in> set (ap_pending (cl_procs c ! p)) then Answered (Inl e) else promise_of c k)"
    unfolding f using folded [THEN conjunct1] by (simp only: c1)
  show "cl_procs (failProcess p e kill c) = (cl_procs c)
      [p := (cl_procs c ! p)\<lparr>ap_settled := True, ap_pending := [], ap_killed := ap_killed (cl_procs c ! p) \<or> kill\<rparr>]"
    "length (cl_calls (failProcess p e kill c)) = length (cl_calls c)"
    "cl_processState (failProcess p e kill c) = (if cl_processState c = Some p then None else cl_processState c)"
    unfolding f using folded [THEN conjunct2] by (simp_all only: c1)
qed

lemma failProcess_advances:
  assumes p: "p < length (cl_procs c)"
  shows "advances c (failProcess p e kill c)"
proof (cases "ap_settled (cl_procs c ! p) \<or> \<not> client_ok c")
  case True
  then show ?thesis by (auto simp: failProcess_def advances_def)
next
  case False
  then have "client_ok c" "\<not> ap_settled (cl_procs c ! p)" by simp_all
  note f = fail_unless_settled [OF p this]
  show ?thesis
    by (rule answers_advance [where p = p and keep = "\<lambda>x. False" and r = "Inl e"])
      (simp_all add: p f split: if_splits)
qed

lemma failProcess_sizes [simp]:
  "client_ok c \<Longrightarrow> p < length (cl_procs c) \<Longrightarrow> length (cl_procs (failProcess p e kill c)) = length (cl_procs c)"
  using fail_unless_settled(2) by (cases "ap_settled (cl_procs c ! p)") (auto simp: failProcess_def)

lemma sendNotification_advances: "p < length (cl_procs c) \<Longrightarrow> advances c (sendNotification p m c)"
  unfolding sendNotification_def by (rule neutral_advances) simp_all

lemma init_continues_advances:
  assumes "p < length (cl_procs c)"
  shows "advances c (init_continues p c)"
  unfolding init_continues_def
  by (rule advances_trans [OF sendNotification_advances [OF assms] neutral_advances])
    (simp_all add: assms sendNotification_def)

lemma handle_id_procs [simp]: "length (cl_procs (handle_id p r i key c)) = length (cl_procs c)"
  by (simp add: handle_id_def split: option.splits json.splits)

lemma handleMessage_advances:
  assumes "p < length (cl_procs c)"
  shows "advances c (handleMessage E p v c)" and "length (cl_procs (handleMessage E p v c)) = length (cl_procs c)"
  using assms by (simp_all add: handleMessage_def handle_id_advances split: json.splits)

lemma handle_lines_advances:
  "p < length (cl_procs c) \<Longrightarrow> advances c (handle_lines E p ls c)"
proof (induction E p ls c rule: handle_lines.induct)
  case (2 E p l ls c)
  show ?case
  proof (cases "ce_blank E l")
    case False
    show ?thesis
    proof (cases "ce_parse E l")
      case None
      then show ?thesis using False failProcess_advances [OF 2(3)] by simp
    next
      case (Some v)
      note m = handleMessage_advances [OF 2(3), of E v]
      have "p < length (cl_procs (handleMessage E p v c))" using 2(3) by (simp add: m(2))
      from 2(2) [OF False Some this] m(1) have "advances c (handle_lines E p ls (handleMessage E p v c))"
        by (rule advances_trans [rotated])
      then show ?thesis by (simp add: False Some)
    qed
  qed (simp add: 2)
qed simp

lemma on_stdout_advances:
  assumes "p < length (cl_procs c)"
  shows "advances c (on_stdout E p chunk c)"
proof -
  obtain ls b where b: "push 1048576 chunk (ap_stdoutFrames (cl_procs c ! p)) = (ls, b)" by fastforce
  have "advances c (upd_proc p (\<lambda>s. s\<lparr>ap_stdoutFrames := b\<rparr>) c)" by (rule neutral_advances [OF assms]) simp
  then show ?thesis
    unfolding on_stdout_def b prod.case by (rule advances_trans) (simp add: handle_lines_advances assms)
qed

lemma advances_if_ok: "(client_ok c \<Longrightarrow> advances c c') \<Longrightarrow> advances c c'"
  by (auto simp: advances_def)

lemma client_close_advances: "advances c (client_close c)"
proof (rule advances_if_ok)
  assume ok: "client_ok c"
  note drop = dropped_advances [of c True]
  show "advances c (client_close c)"
  proof (cases "cl_processState c")
    case None
    then show ?thesis using drop by (simp add: client_close_def)
  next
    case (Some p)
    then have "p < length (cl_procs c)" "\<not> ap_settled (cl_procs c ! p)" using ok by (simp_all add: client_ok_def)
    then have "client_close c = upd_proc p (\<lambda>s. s\<lparr>ap_killed := True\<rparr>) (c\<lparr>cl_closing := True, cl_processState := None\<rparr>)"
      using Some by (simp add: client_close_def)
    moreover have "advances (c\<lparr>cl_closing := True, cl_processState := None\<rparr>) \<dots>"
      by (rule neutral_advances) (simp_all add: \<open>p < length (cl_procs c)\<close>)
    ultimately show ?thesis using advances_trans [OF drop] by metis
  qed
qed

lemma step_advances: "client_step E c c' \<Longrightarrow> advances c c'"
proof (induction rule: client_step.induct)
  case (step_stderr c p chunk)
  then show ?case unfolding on_stderr_def by (rule neutral_advances) simp
next
  case (step_stdin_destroyed c p)
  then show ?case by (rule neutral_advances) simp
qed (simp_all add: request_call_advances request_continues_advances init_continues_advances on_stdout_advances
    failProcess_advances handleWriteFailure_def on_close_def client_close_advances)

section \<open>No request is lost\<close>

lemma history_ok: "client_history E c \<Longrightarrow> client_ok c"
proof (induction rule: client_history.induct)
  case history_new
  then show ?case by (simp add: client_ok_def new_client_def)
next
  case (history_next c c')
  then show ?case using step_advances [of E c c'] by (simp add: advances_def)
qed

lemma sent_call:
  assumes "client_ok c" and "n < length (cl_calls c)" and "promise_of c n = Sent p i"
  obtains m where "p < length (cl_procs c)" "map_of (ap_pending (cl_procs c ! p)) i = Some (n, m)"
    "\<not> ap_settled (cl_procs c ! p)"
proof -
  have "call_ok c n" using assms(1,2) by (simp add: client_ok_def)
  then obtain m where m: "p < length (cl_procs c)" "map_of (ap_pending (cl_procs c ! p)) i = Some (n, m)"
    using assms(3) by (auto simp: call_ok_def)
  then have "proc_ok c p" using assms(1) by (simp add: client_ok_def)
  then have "\<not> ap_settled (cl_procs c ! p)" using m(2) by (auto simp: proc_ok_def Let_def)
  then show ?thesis using m that by blast
qed

text \<open>
  When the server answers \<^verbatim>\<open>initialize\<close> with an error, the process is kept: every later request fails with
  that error too, until the process ends.
\<close>

lemma failed_initialize_stays:
  fixes m :: string and params :: json
  assumes "cl_processState c = Some p" and "\<not> ap_settled (cl_procs c ! p)" and "\<not> cl_closing c"
    and "ap_init (cl_procs c ! p) < length (cl_calls c)"
    and "promise_of c (ap_init (cl_procs c ! p)) = Answered (Inl e)"
  defines "n \<equiv> length (cl_calls c)" and "c1 \<equiv> request_call m params c"
  shows "promise_of c1 n = WaitsForInit p"
    and "promise_of (request_continues p n c1) n = Answered (Inl e)"
    and "cl_processState (request_continues p n c1) = Some p"
proof -
  have c1: "c1 = c\<lparr>cl_calls := cl_calls c @ [\<lparr>rq_method = m, rq_params = params, rq_promise = WaitsForInit p\<rparr>]\<rparr>"
    using assms(1-3) by (simp add: c1_def request_call_def ensureProcess_def)
  then show "promise_of c1 n = WaitsForInit p" by (simp add: n_def promise_of_def)
  have "promise_of c1 (ap_init (cl_procs c1 ! p)) = Answered (Inl e)"
    using assms(4,5) by (simp add: c1 promise_of_def nth_append)
  then have "request_continues p n c1 = set_promise n (Answered (Inl e)) c1" by (simp add: request_continues_def)
  then show "promise_of (request_continues p n c1) n = Answered (Inl e)"
    "cl_processState (request_continues p n c1) = Some p"
    using assms(1) by (simp_all add: c1 n_def promise_of_set)
qed

text \<open>
  C20. At every moment of its life, an app-server client accounts for each of its calls. A call that has
  been answered keeps its answer, whatever happens next. A call whose request has been sent is pending at a
  process that runs, under its own id; the response with this id answers it, and when the process fails for
  any reason (closed, timed out, wrote invalid JSON), the call fails with that reason. A call that waits
  for a process waits for an \<^verbatim>\<open>initialize\<close> request that is itself pending there or answered.
\<close>

theorem no_request_lost:
  assumes "client_history E c" and "client_step E c c'" and "n < length (cl_calls c)"
  shows "n < length (cl_calls c') \<and>
    (case promise_of c n of
       Answered r \<Rightarrow> promise_of c' n = Answered r
     | Sent p i \<Rightarrow>
         p < length (cl_procs c) \<and> \<not> ap_settled (cl_procs c ! p) \<and>
         map_option fst (map_of (ap_pending (cl_procs c ! p)) i) = Some n \<and>
         promise_of (handle_id p r (JStr i) i c) n = Answered (response_of r) \<and>
         promise_of (failProcess p e kill c) n = Answered (Inl e)
     | WaitsForInit p \<Rightarrow>
         p < length (cl_procs c) \<and>
         (case promise_of c (ap_init (cl_procs c ! p)) of
            Answered r \<Rightarrow> True
          | Sent q i \<Rightarrow> q = p \<and> \<not> ap_settled (cl_procs c ! p)
          | WaitsForInit q \<Rightarrow> False))"
proof -
  have ok: "client_ok c" by (rule history_ok [OF assms(1)])
  have a: "advances c c'" by (rule step_advances [OF assms(2)])
  show ?thesis
  proof (cases "promise_of c n")
    case (WaitsForInit p)
    have "call_ok c n" using ok assms(3) by (simp add: client_ok_def)
    then have p: "p < length (cl_procs c)" using WaitsForInit by (simp add: call_ok_def)
    then have init: "proc_ok c p" using ok by (simp add: client_ok_def)
    let ?i = "ap_init (cl_procs c ! p)"
    have kind: "?i < length (cl_calls c)"
      "case promise_of c ?i of WaitsForInit q \<Rightarrow> False | Sent q i \<Rightarrow> q = p | Answered r \<Rightarrow> True"
      using init by (simp_all add: proc_ok_def Let_def)
    have "\<not> ap_settled (cl_procs c ! p)" if "promise_of c ?i = Sent p i" for i
      by (rule sent_call [OF ok kind(1) that])
    then have "case promise_of c ?i of
        Answered r \<Rightarrow> True | Sent q i \<Rightarrow> q = p \<and> \<not> ap_settled (cl_procs c ! p) | WaitsForInit q \<Rightarrow> False"
      using kind(2) by (cases "promise_of c ?i") simp_all
    then show ?thesis using WaitsForInit a ok assms(3) p by (simp add: advances_def)
  next
    case (Sent p i)
    obtain m where m: "p < length (cl_procs c)" "map_of (ap_pending (cl_procs c ! p)) i = Some (n, m)"
      "\<not> ap_settled (cl_procs c ! p)" by (rule sent_call [OF ok assms(3) Sent])
    have "promise_of (handle_id p r (JStr i) i c) n = Answered (response_of r)"
      using m assms(3) by (simp add: handle_id_def promise_of_set)
    moreover have "promise_of (failProcess p e kill c) n = Answered (Inl e)"
      using fail_unless_settled(1) [OF m(1) ok m(3)] map_of_SomeD [OF m(2)] by auto
    ultimately show ?thesis using Sent m a ok assms(3) by (simp add: advances_def)
  next
    case (Answered r)
    then show ?thesis using a ok assms(3) by (simp add: advances_def)
  qed
qed

lemma no_request_lost_witness:
  "promise_of (request_call ''model/list'' JNull new_client) 0 = Sent 0 ''clawee_sessions_1'' \<and>
   promise_of (failProcess 0 (ProcessError ''gone'') True (request_call ''model/list'' JNull new_client)) 0 =
     Answered (Inl (ProcessError ''gone''))"
proof -
  let ?E = "\<lparr>ce_parse = \<lambda>t. None, ce_numberText = \<lambda>q. [], ce_redactTail = \<lambda>t. [], ce_blank = \<lambda>t. False\<rparr>"
  let ?c = "request_call ''model/list'' JNull new_client"
  have history: "client_history ?E ?c" by (rule history_next [OF history_new step_request])
  have c: "promise_of ?c 0 = Sent 0 (session_id 1)" "0 < length (cl_calls ?c)"
    by (simp_all add: request_call_def ensureProcess_def spawn_process_eq new_client_def promise_of_def)
  have "session_id 1 = ''clawee_sessions_1''" by code_simp
  then show ?thesis
    using no_request_lost [OF history step_close c(2), of _ "ProcessError ''gone''" True] c(1) by simp
qed

end
