(* ===== verification/AppServerHost.thy ===== *)
theory AppServerHost
  imports AppServerClient
begin

text \<open>
  The host of a Codex app server, \<^verbatim>\<open>codex/app-server-host-2026-07-28.ts\<close>: one process that carries out the
  turns of runs, one after the other.

  \<^item> \<open>host\<close> has the variables of \<^verbatim>\<open>createCodexAppServerHost\<close>, and all that it has started: requests, writes
    and jobs. A \<open>host_request\<close> holds both promises that \<^verbatim>\<open>request\<close> chains, the one of the write and the one of
    the response; \<open>request_outcome\<close> is what the caller sees. A job holds the local state of \<^verbatim>\<open>executeJob\<close> and the point
    where it waits.
  \<^item> What can happen is a \<open>host_step\<close>: a call, an event of the process, a timer, the end of a callback, or the
    continuation of something that has waited. Frames are handled one at a time, and each may wait for the
    callback \<^verbatim>\<open>onNotification\<close>.
  \<^item> The callbacks are known by whether they are given, and by their errors; the timers by whether they are
    set. \<^verbatim>\<open>JSON.parse\<close> and the instructions for Codex, in Chinese, are parameters.
\<close>

section \<open>State\<close>

datatype host_phase = HostStarting | HostReady | HostTurnActive | HostClosing | HostFailed | HostClosed

datatype job_stage =
    Acquiring | ThreadStarting | McpRefreshing | McpWaiting | TurnPreparing | TurnStarting | TurnStartWritten
  | TurnIsActive | Interrupting | Settled

datatype mcp_status = McpStarting | McpReady | McpFailed | McpCancelled

datatype turn_outcome = OutcomeCompleted | OutcomeInterrupted | OutcomeFailed

datatype approval_answer = AnswerApproved | AnswerRejected | AnswerExpired | AnswerCanceled

text \<open>\<^verbatim>\<open>CodexAppServerTurnInput\<close>; of timers and callbacks, whether they are given\<close>

record turn_input =
  ti_cwd :: string
  ti_sandbox :: sandbox_mode
  ti_model :: "string option"
  ti_reasoning :: "reasoning_effort option"
  ti_prompt :: string
  ti_imagePaths :: "string list"
  ti_codexThreadId :: "string option"
  ti_timeout :: bool
  ti_inactivityTimeout :: bool
  ti_serverDeployment :: bool
  ti_manifestKey :: "string option"
  ti_gate :: bool
  ti_approvals :: bool

record host_result =
  ht_threadId :: string
  ht_turnId :: string
  ht_turnStatus :: turn_outcome
  ht_stderr :: js_text
  ht_canceled :: bool \<comment> \<open>\<^verbatim>\<open>terminationReason\<close>\<close>
  ht_stderrTruncation :: truncation
  ht_framesTruncation :: truncation

text \<open>Where \<^verbatim>\<open>executeJob\<close> waits; the numbers are those of requests.\<close>

datatype await_point =
    AtInitialize | AtGate | AtThread nat | AtThreadStarted | AtReload nat | AtMcp | AtTurn nat | AtEnd

record host_job =
  hj_input :: turn_input
  hj_stderr :: text_buffer
  hj_threadId :: "string option"
  hj_turnId :: "string option"
  hj_cancelRequested :: bool
  hj_interruptRequested :: bool
  hj_turnStartWritten :: bool
  hj_stage :: job_stage
  hj_statuses :: "(string, (string, mcp_status) assoc) assoc"
  hj_timeout :: bool
  hj_inactivityTimeout :: bool
  hj_result :: "(string + host_result) option" \<comment> \<open>\<open>None\<close> until it is settled\<close>
  hj_at :: await_point

text \<open>What a request is for, and the write of a message\<close>

datatype request_use = UseInitialize | UseThread | UseReload | UseTurn | UseInterrupt

record host_request =
  hq_method :: string
  hq_params :: json
  hq_generation :: nat
  hq_use :: request_use
  hq_written :: bool
  hq_error :: "string option"
  hq_response :: "(string + json) option"

datatype write_use = ForRequest nat | ForInitialized | ForElicitation | ForReply json bool \<comment> \<open>whether in the \<^verbatim>\<open>try\<close>\<close>

record host_write =
  hw_message :: json
  hw_use :: write_use
  hw_outcome :: "(string + unit) option"
  hw_handled :: bool

record approval_call =
  ac_id :: json
  ac_method :: string
  ac_params :: json_record
  ac_job :: nat

text \<open>The \<^verbatim>\<open>await\<close> within the handling of a frame\<close>

datatype handling = Notifying json_record nat | Replying nat

record host =
  ho_state :: host_phase
  ho_pending :: "(string, nat) assoc"
  ho_requests :: "host_request list"
  ho_writes :: "host_write list"
  ho_jobs :: "host_job list"
  ho_active :: "nat option"
  ho_lastManifestKey :: "string option"
  ho_gatePassed :: bool
  ho_initialized :: "(string + unit) option"
  ho_spawnTimeout :: bool
  ho_started :: "(string + unit) option"
  ho_frames :: frame_buffer
  ho_chunks :: "js_text list"
  ho_lines :: "js_text list"
  ho_handling :: "handling option"
  ho_rest :: "js_text option" \<comment> \<open>\<^verbatim>\<open>finalFrame\<close>, until it is handled\<close>
  ho_final :: bool
  ho_exited :: bool
  ho_stdinGone :: bool
  ho_approvals :: "approval_call list"
  ho_killed :: bool
  ho_closeCalled :: bool
  ho_lifecycle :: "(string \<times> nat option) list"

record host_env =
  hx_parse :: "js_text \<Rightarrow> json option"
  hx_blank :: "js_text \<Rightarrow> bool"
  hx_instructions :: "bool \<Rightarrow> string" \<comment> \<open>\<^verbatim>\<open>claweeDeveloperInstructions\<close>\<close>

definition upd_job :: "nat \<Rightarrow> (host_job \<Rightarrow> host_job) \<Rightarrow> host \<Rightarrow> host" where
  "upd_job g f h = h\<lparr>ho_jobs := (ho_jobs h)[g := f (ho_jobs h ! g)]\<rparr>"

definition upd_request :: "nat \<Rightarrow> (host_request \<Rightarrow> host_request) \<Rightarrow> host \<Rightarrow> host" where
  "upd_request k f h = h\<lparr>ho_requests := (ho_requests h)[k := f (ho_requests h ! k)]\<rparr>"

definition upd_write :: "nat \<Rightarrow> (host_write \<Rightarrow> host_write) \<Rightarrow> host \<Rightarrow> host" where
  "upd_write w f h = h\<lparr>ho_writes := (ho_writes h)[w := f (ho_writes h ! w)]\<rparr>"

definition host_emitLifecycle :: "string \<Rightarrow> nat option \<Rightarrow> host \<Rightarrow> host" where
  "host_emitLifecycle event generation h = h\<lparr>ho_lifecycle := ho_lifecycle h @ [(event, generation)]\<rparr>"

section \<open>Settling and failing\<close>

definition job_settled :: "nat \<Rightarrow> host \<Rightarrow> bool" where
  "job_settled g h \<longleftrightarrow> hj_result (ho_jobs h ! g) \<noteq> None"

text \<open>\<^verbatim>\<open>rejectPending\<close> and \<^verbatim>\<open>rejectGeneration\<close>\<close>

definition reject_requests :: "(nat \<Rightarrow> bool) \<Rightarrow> string \<Rightarrow> host \<Rightarrow> host" where
  "reject_requests sel e h =
     (let rejected = filter (\<lambda>(i, k). sel (hq_generation (ho_requests h ! k))) (ho_pending h) in
      h\<lparr>ho_pending := filter (\<lambda>(i, k). \<not> sel (hq_generation (ho_requests h ! k))) (ho_pending h),
        ho_requests := map (\<lambda>k. let q = ho_requests h ! k in
            if k \<in> snd ` set rejected then q\<lparr>hq_response := Some (Inl e)\<rparr> else q) [0 ..< length (ho_requests h)]\<rparr>)"

definition rejectPending :: "string \<Rightarrow> host \<Rightarrow> host" where
  "rejectPending = reject_requests (\<lambda>generation. True)"

definition rejectGeneration :: "nat \<Rightarrow> string \<Rightarrow> host \<Rightarrow> host" where
  "rejectGeneration generation = reject_requests (\<lambda>n. n = generation)"

definition rejectWrites :: "string \<Rightarrow> host \<Rightarrow> host" where
  "rejectWrites e h =
     h\<lparr>ho_writes := map (\<lambda>w. if hw_outcome w = None then w\<lparr>hw_outcome := Some (Inl e)\<rparr> else w) (ho_writes h)\<rparr>"

definition rejectStarted :: "string \<Rightarrow> host \<Rightarrow> host" where
  "rejectStarted e h = h\<lparr>ho_started := (case ho_started h of None \<Rightarrow> Some (Inl e) | Some r \<Rightarrow> Some r)\<rparr>"

definition settle_job :: "nat \<Rightarrow> string + host_result \<Rightarrow> host \<Rightarrow> host" where
  "settle_job g r =
     upd_job g (\<lambda>j. j\<lparr>hj_result := Some r, hj_stage := Settled, hj_timeout := False, hj_inactivityTimeout := False\<rparr>)"

definition settleJobResult :: "nat \<Rightarrow> host_result \<Rightarrow> host \<Rightarrow> host" where
  "settleJobResult g r h =
     (if job_settled g h then h
      else (settle_job g (Inr r) h)
        \<lparr>ho_active := (if ho_active h = Some g then None else ho_active h),
         ho_state := (if ho_state h = HostTurnActive then HostReady else ho_state h)\<rparr>)"

text \<open>The generation of job \<open>g\<close> is \<open>Suc g\<close>.\<close>

definition settleJobError :: "nat \<Rightarrow> string \<Rightarrow> bool \<Rightarrow> host \<Rightarrow> host" where
  "settleJobError g e reusable h =
     (if job_settled g h then h
      else (rejectGeneration (Suc g) e (settle_job g (Inl e) h))
        \<lparr>ho_active := (if ho_active h = Some g then None else ho_active h),
         ho_state := (if reusable \<and> ho_state h = HostTurnActive then HostReady else ho_state h)\<rparr>)"

definition settle_active :: "string \<Rightarrow> host \<Rightarrow> host" where
  "settle_active e h = (case ho_active h of None \<Rightarrow> h | Some g \<Rightarrow> settleJobError g e False h)"

definition failHost :: "string \<Rightarrow> host \<Rightarrow> host" where
  "failHost e h =
     (if ho_state h \<in> {HostClosed, HostClosing, HostFailed} then h
      else settle_active e (rejectPending e (rejectWrites e (rejectStarted e
        (h\<lparr>ho_state := HostFailed, ho_spawnTimeout := False, ho_killed := True\<rparr>)))))"

section \<open>Writing\<close>

definition writeMessage :: "json \<Rightarrow> write_use \<Rightarrow> host \<Rightarrow> host" where
  "writeMessage message use h =
     (let unavailable = ''Codex app-server stdin is unavailable''; gone = (ho_state h = HostClosed \<or> ho_stdinGone h);
          h1 = h\<lparr>ho_writes := ho_writes h @ [\<lparr>hw_message = message, hw_use = use,
            hw_outcome = (if gone then Some (Inl unavailable) else None), hw_handled = False\<rparr>]\<rparr>
      in if gone then failHost unavailable h1 else h1)"

definition host_id :: "nat \<Rightarrow> string" where
  "host_id k = ''clawee_'' @ nat_text (Suc k)"

definition send_request :: "string \<Rightarrow> json \<Rightarrow> nat \<Rightarrow> request_use \<Rightarrow> host \<Rightarrow> host" where
  "send_request method params generation use h =
     (let k = length (ho_requests h) in
      writeMessage (JObj [(''id'', JStr (host_id k)), (''method'', JStr method), (''params'', params)]) (ForRequest k)
        (h\<lparr>ho_pending := map_put (host_id k) k (ho_pending h),
           ho_requests := ho_requests h @
             [\<lparr>hq_method = method, hq_params = params, hq_generation = generation, hq_use = use, hq_written = False,
               hq_error = None, hq_response = None\<rparr>]\<rparr>))"

text \<open>What the caller of \<^verbatim>\<open>request\<close> waits for\<close>

definition request_outcome :: "host_request \<Rightarrow> (string + json) option" where
  "request_outcome q = (case hq_error q of Some e \<Rightarrow> Some (Inl e) | None \<Rightarrow> if hq_written q then hq_response q else None)"

definition current :: "nat \<Rightarrow> host \<Rightarrow> bool" where
  "current g h \<longleftrightarrow> \<not> job_settled g h \<and> ho_active h = Some g"

text \<open>The call back of \<^verbatim>\<open>stdin.write\<close>\<close>

definition write_callback :: "nat \<Rightarrow> string option \<Rightarrow> host \<Rightarrow> host" where
  "write_callback w error h =
     (case error of
        Some e \<Rightarrow> failHost e (if hw_outcome (ho_writes h ! w) = None
                            then upd_write w (\<lambda>x. x\<lparr>hw_outcome := Some (Inl e)\<rparr>) h else h)
      | None \<Rightarrow> if hw_outcome (ho_writes h ! w) = None then upd_write w (\<lambda>x. x\<lparr>hw_outcome := Some (Inr ())\<rparr>) h else h)"

definition break_request :: "nat \<Rightarrow> string \<Rightarrow> host \<Rightarrow> host" where
  "break_request k e h =
     failHost e (upd_request k (\<lambda>q. q\<lparr>hq_error := Some e\<rparr>) (h\<lparr>ho_pending := map_del (host_id k) (ho_pending h)\<rparr>))"

text \<open>\<open>callback\<close> is the error that \<^verbatim>\<open>onTurnStartWritten\<close> throws, if it does.\<close>

definition request_written :: "nat \<Rightarrow> string option \<Rightarrow> host \<Rightarrow> host" where
  "request_written k callback h =
     (let q = ho_requests h ! k; g = hq_generation q - 1 in
      if hq_use q \<noteq> UseTurn then upd_request k (\<lambda>q. q\<lparr>hq_written := True\<rparr>) h
      else if \<not> current g h then break_request k ''Codex app-server job is no longer active'' h
      else
        let h1 = upd_job g (\<lambda>j. j\<lparr>hj_turnStartWritten := True, hj_stage := TurnStartWritten\<rparr>) h in
        case callback of
          Some e \<Rightarrow> break_request k e h1
        | None \<Rightarrow> upd_request k (\<lambda>q. q\<lparr>hq_written := True\<rparr>) h1)"

definition error_reply :: "json \<Rightarrow> int \<Rightarrow> string \<Rightarrow> json" where
  "error_reply i code message =
     JObj [(''id'', i), (''error'', JObj [(''code'', JNum (of_int code)), (''message'', JStr message)])]"

text \<open>A frame, or what follows it, throws: for the last frame, after the process has closed, nothing comes of it.\<close>

definition stdout_throws :: "string \<Rightarrow> host \<Rightarrow> host" where
  "stdout_throws e h =
     (let h1 = h\<lparr>ho_lines := [], ho_handling := None\<rparr> in if ho_final h then h1 else failHost e h1)"

text \<open>What follows the promise of \<^verbatim>\<open>writeMessage\<close>\<close>

definition write_continues :: "nat \<Rightarrow> string + unit \<Rightarrow> string option \<Rightarrow> host \<Rightarrow> host" where
  "write_continues w r callback h0 =
     (let h = upd_write w (\<lambda>x. x\<lparr>hw_handled := True\<rparr>) h0 in
      case hw_use (ho_writes h0 ! w) of
        ForRequest k \<Rightarrow> (case r of Inl e \<Rightarrow> break_request k e h | Inr _ \<Rightarrow> request_written k callback h)
      | ForInitialized \<Rightarrow>
          (case r of
             Inl e \<Rightarrow> failHost e (h\<lparr>ho_initialized := Some (Inl e)\<rparr>)
           | Inr _ \<Rightarrow> host_emitLifecycle ''process_initialized'' None
               (h\<lparr>ho_initialized := Some (Inr ()), ho_state := (if ho_state h = HostStarting then HostReady else ho_state h)\<rparr>))
      | ForElicitation \<Rightarrow>
          if ho_handling h = Some (Replying w)
          then (case r of Inl e \<Rightarrow> stdout_throws e h | Inr _ \<Rightarrow> h\<lparr>ho_handling := None\<rparr>) else h
      | ForReply i inTry \<Rightarrow>
          (case r of
             Inr _ \<Rightarrow> h
           | Inl e \<Rightarrow> if inTry then writeMessage (error_reply i (- 32000) e) (ForReply i False) h else failHost e h))"

section \<open>Jobs\<close>

fun text_includes :: "string \<Rightarrow> string \<Rightarrow> bool" where
  "text_includes [] t \<longleftrightarrow> t = []"
| "text_includes (c # s) t \<longleftrightarrow> take (length t) (c # s) = t \<or> text_includes s t"

text \<open>The \<^verbatim>\<open>catch\<close> of \<^verbatim>\<open>executeJob\<close>\<close>

definition job_fails :: "nat \<Rightarrow> string \<Rightarrow> host \<Rightarrow> host" where
  "job_fails g e h =
     (let j = ho_jobs h ! g; h1 = upd_job g (\<lambda>j. j\<lparr>hj_at := AtEnd\<rparr>) h in
      if \<not> current g h then h1
      else if hj_turnStartWritten j \<or> hj_stage j = McpRefreshing \<or> text_includes e ''response is missing'' then failHost e h1
      else settleJobError g e True h1)"

definition CANCELED_BEFORE_TURN :: string where
  "CANCELED_BEFORE_TURN = ''Codex app-server run canceled before turn start''"

definition approvalPolicy :: "sandbox_mode \<Rightarrow> string" where
  "approvalPolicy sandbox = (if sandbox = DangerFullAccess then ''never'' else ''on-request'')"

definition string_or_null :: "string option \<Rightarrow> json" where
  "string_or_null x = (case x of None \<Rightarrow> JNull | Some s \<Rightarrow> JStr s)"

definition normalizeReasoning :: "reasoning_effort option \<Rightarrow> json" where
  "normalizeReasoning r =
     (case r of None \<Rightarrow> JNull | Some x \<Rightarrow> if x = RDefault then JNull else JStr (reasoning_text x))"

text \<open>A request of a job, after which the job waits at the point \<open>at_point\<close>\<close>

definition job_request ::
  "nat \<Rightarrow> string \<Rightarrow> json \<Rightarrow> request_use \<Rightarrow> (nat \<Rightarrow> await_point) \<Rightarrow> host \<Rightarrow> host" where
  "job_request g method params use at_point h =
     send_request method params (Suc g) use (upd_job g (\<lambda>j. j\<lparr>hj_at := at_point (length (ho_requests h))\<rparr>) h)"

definition thread_params :: "host_env \<Rightarrow> turn_input \<Rightarrow> json" where
  "thread_params X i =
     JObj ((case ti_codexThreadId i of None \<Rightarrow> [] | Some t \<Rightarrow> [(''threadId'', JStr t)]) @
       [(''cwd'', JStr (ti_cwd i)), (''developerInstructions'', JStr (hx_instructions X (ti_serverDeployment i))),
        (''model'', string_or_null (ti_model i)), (''sandbox'', JStr (sandbox_text (ti_sandbox i))),
        (''approvalPolicy'', JStr (approvalPolicy (ti_sandbox i))), (''approvalsReviewer'', JStr ''user'')] @
       (if ti_codexThreadId i = None then [(''serviceName'', JStr ''clawee-agent'')] else []))"

definition job_thread :: "host_env \<Rightarrow> nat \<Rightarrow> host \<Rightarrow> host" where
  "job_thread X g h =
     (let i = hj_input (ho_jobs h ! g) in
      job_request g (if ti_codexThreadId i = None then ''thread/start'' else ''thread/resume'') (thread_params X i)
        UseThread AtThread (upd_job g (\<lambda>j. j\<lparr>hj_stage := ThreadStarting\<rparr>) h))"

definition turn_params :: "host_job \<Rightarrow> json" where
  "turn_params j =
     (let i = hj_input j in
      JObj [(''threadId'', string_or_undefined (string_or_null (hj_threadId j))),
        (''input'', JArr (JObj [(''type'', JStr ''text''), (''text'', JStr (ti_prompt i)), (''text_elements'', JArr [])] #
           map (\<lambda>path. JObj [(''type'', JStr ''localImage''), (''path'', JStr path)]) (ti_imagePaths i))),
        (''cwd'', JStr (ti_cwd i)), (''model'', string_or_null (ti_model i)),
        (''effort'', normalizeReasoning (ti_reasoning i)),
        (''approvalPolicy'', JStr (approvalPolicy (ti_sandbox i))), (''approvalsReviewer'', JStr ''user'')])"

text \<open>From the stage \<^verbatim>\<open>turn_preparing\<close> to the next \<^verbatim>\<open>await\<close>\<close>

definition job_turn :: "nat \<Rightarrow> host \<Rightarrow> host" where
  "job_turn g h =
     (if hj_cancelRequested (ho_jobs h ! g)
      then job_fails g CANCELED_BEFORE_TURN (upd_job g (\<lambda>j. j\<lparr>hj_stage := TurnPreparing\<rparr>) h)
      else job_request g ''turn/start'' (turn_params (ho_jobs h ! g)) UseTurn AtTurn
        (upd_job g (\<lambda>j. j\<lparr>hj_stage := TurnStarting\<rparr>) h))"

definition pendingMcpStartupNames :: "host_job \<Rightarrow> string list" where
  "pendingMcpStartupNames j =
     (case hj_threadId j of
        None \<Rightarrow> []
      | Some t \<Rightarrow>
          (case map_of (hj_statuses j) t of
             None \<Rightarrow> []
           | Some statuses \<Rightarrow> map fst (filter (\<lambda>(name, st). st = McpStarting \<or> st = McpCancelled) statuses)))"

definition job_mcp :: "nat \<Rightarrow> host \<Rightarrow> host" where
  "job_mcp g h =
     (if pendingMcpStartupNames (ho_jobs h ! g) \<noteq> []
      then upd_job g (\<lambda>j. j\<lparr>hj_stage := McpWaiting, hj_at := AtMcp\<rparr>) h else job_turn g h)"

definition job_refresh :: "nat \<Rightarrow> host \<Rightarrow> host" where
  "job_refresh g h =
     (let j = ho_jobs h ! g; key = ti_manifestKey (hj_input j) in
      if key \<noteq> None \<and> key \<noteq> ho_lastManifestKey h
      then job_request g ''config/mcpServer/reload'' JUndefined UseReload AtReload
        (upd_job g (\<lambda>j. j\<lparr>hj_stage := McpRefreshing,
          hj_statuses := (case hj_threadId j of None \<Rightarrow> hj_statuses j | Some t \<Rightarrow> map_del t (hj_statuses j))\<rparr>) h)
      else job_mcp g h)"

text \<open>\<^verbatim>\<open>passWritableRequestGate\<close>; the gate is open, or it is asked.\<close>

definition job_gate :: "host_env \<Rightarrow> nat \<Rightarrow> host \<Rightarrow> host" where
  "job_gate X g h =
     (if ho_gatePassed h \<or> \<not> ti_gate (hj_input (ho_jobs h ! g)) then job_thread X g h
      else upd_job g (\<lambda>j. j\<lparr>hj_at := AtGate\<rparr>) h)"

text \<open>\<^verbatim>\<open>assertCurrentJob\<close>; a job that is over only ends.\<close>

definition if_current :: "nat \<Rightarrow> (host \<Rightarrow> host) \<Rightarrow> host \<Rightarrow> host" where
  "if_current g f h = (if current g h then f h else upd_job g (\<lambda>j. j\<lparr>hj_at := AtEnd\<rparr>) h)"

definition unless_canceled :: "nat \<Rightarrow> (host \<Rightarrow> host) \<Rightarrow> host \<Rightarrow> host" where
  "unless_canceled g f h =
     (if hj_cancelRequested (ho_jobs h ! g) then job_fails g CANCELED_BEFORE_TURN h else f h)"

text \<open>The continuations of \<^verbatim>\<open>executeJob\<close>, one for each \<^verbatim>\<open>await\<close>\<close>

definition after_initialize :: "host_env \<Rightarrow> nat \<Rightarrow> string + unit \<Rightarrow> host \<Rightarrow> host" where
  "after_initialize X g r h =
     (case r of Inl e \<Rightarrow> job_fails g e h | Inr _ \<Rightarrow> if_current g (unless_canceled g (job_gate X g)) h)"

definition after_gate :: "host_env \<Rightarrow> nat \<Rightarrow> string option \<Rightarrow> host \<Rightarrow> host" where
  "after_gate X g error h =
     (case error of
        Some e \<Rightarrow> job_fails g e h
      | None \<Rightarrow> if_current g (unless_canceled g (job_thread X g)) (h\<lparr>ho_gatePassed := True\<rparr>))"

text \<open>The \<^verbatim>\<open>id\<close> of the \<^verbatim>\<open>thread\<close> or \<^verbatim>\<open>turn\<close> of a response\<close>

definition response_id :: "string \<Rightarrow> json \<Rightarrow> string option" where
  "response_id name v = stringValue (field_of (record_of (field_of (record_of v) name)) ''id'')"

definition after_thread :: "nat \<Rightarrow> string + json \<Rightarrow> host \<Rightarrow> host" where
  "after_thread g r h =
     (case r of
        Inl e \<Rightarrow> job_fails g e h
      | Inr v \<Rightarrow> if_current g (\<lambda>h.
          case response_id ''thread'' v of
            None \<Rightarrow> job_fails g ''Codex app-server response is missing thread.id'' (upd_job g (\<lambda>j. j\<lparr>hj_threadId := None\<rparr>) h)
          | Some t \<Rightarrow> upd_job g (\<lambda>j. j\<lparr>hj_threadId := Some t, hj_at := AtThreadStarted\<rparr>) h) h)"

definition after_started :: "nat \<Rightarrow> string option \<Rightarrow> host \<Rightarrow> host" where
  "after_started g error h = (case error of Some e \<Rightarrow> job_fails g e h | None \<Rightarrow> if_current g (job_refresh g) h)"

definition after_reload :: "nat \<Rightarrow> string + json \<Rightarrow> host \<Rightarrow> host" where
  "after_reload g r h =
     (case r of
        Inl e \<Rightarrow> job_fails g e h
      | Inr _ \<Rightarrow> if_current g (\<lambda>h. job_mcp g (host_emitLifecycle ''mcp_refreshed'' (Some (Suc g))
          (h\<lparr>ho_lastManifestKey := ti_manifestKey (hj_input (ho_jobs h ! g))\<rparr>))) h)"

text \<open>A round of the loop of \<^verbatim>\<open>waitForMcpStartup\<close>; \<open>expired\<close> says that its time is up.\<close>

definition after_mcp :: "nat \<Rightarrow> bool \<Rightarrow> host \<Rightarrow> host" where
  "after_mcp g expired = if_current g (\<lambda>h.
     if hj_cancelRequested (ho_jobs h ! g) \<or> pendingMcpStartupNames (ho_jobs h ! g) = [] then job_turn g h
     else if expired then job_turn g (host_emitLifecycle ''mcp_startup_wait_timed_out'' (Some (Suc g)) h)
     else h)"

definition interruptJob :: "nat \<Rightarrow> host \<Rightarrow> host" where
  "interruptJob g h =
     (case (hj_threadId (ho_jobs h ! g), hj_turnId (ho_jobs h ! g)) of
        (Some t, Some u) \<Rightarrow>
          if \<not> current g h \<or> hj_interruptRequested (ho_jobs h ! g) then h
          else send_request ''turn/interrupt'' (JObj [(''threadId'', JStr t), (''turnId'', JStr u)]) (Suc g) UseInterrupt
            (upd_job g (\<lambda>j. j\<lparr>hj_interruptRequested := True, hj_stage := Interrupting\<rparr>) h)
      | _ \<Rightarrow> h)"

definition after_turn :: "nat \<Rightarrow> string + json \<Rightarrow> host \<Rightarrow> host" where
  "after_turn g r h =
     (case r of
        Inl e \<Rightarrow> job_fails g e h
      | Inr v \<Rightarrow> if_current g (\<lambda>h.
          case response_id ''turn'' v of
            None \<Rightarrow> job_fails g ''Codex app-server response is missing turn.id'' h
          | Some u \<Rightarrow>
              (let h1 = upd_job g (\<lambda>j. j\<lparr>hj_turnId := Some u, hj_stage := TurnIsActive, hj_at := AtEnd\<rparr>) h in
               if hj_cancelRequested (ho_jobs h ! g) then interruptJob g h1 else h1)) h)"

text \<open>\<^verbatim>\<open>run\<close> and the \<^verbatim>\<open>cancel\<close> of what it returns\<close>

definition host_run :: "turn_input \<Rightarrow> host \<Rightarrow> string + host" where
  "host_run i h =
     (if ho_state h \<in> {HostClosing, HostFailed, HostClosed} then Inl ''Codex app-server host is not reusable''
      else if ho_active h \<noteq> None then Inl ''Codex app-server host is busy''
      else Inr (h\<lparr>ho_jobs := ho_jobs h @
          [\<lparr>hj_input = i, hj_stderr = \<lparr>tb_value = [], tb_droppedBytes = 0\<rparr>, hj_threadId = None, hj_turnId = None,
            hj_cancelRequested = False, hj_interruptRequested = False, hj_turnStartWritten = False, hj_stage = Acquiring,
            hj_statuses = [], hj_timeout = ti_timeout i, hj_inactivityTimeout = ti_inactivityTimeout i,
            hj_result = None, hj_at = AtInitialize\<rparr>],
        ho_active := Some (length (ho_jobs h)), ho_state := HostTurnActive\<rparr>))"

definition host_cancel :: "nat \<Rightarrow> host \<Rightarrow> host" where
  "host_cancel g h =
     (if job_settled g h \<or> hj_cancelRequested (ho_jobs h ! g) then h
      else
        let h1 = upd_job g (\<lambda>j. j\<lparr>hj_cancelRequested := True\<rparr>) h in
        if hj_threadId (ho_jobs h ! g) \<noteq> None \<and> hj_turnId (ho_jobs h ! g) \<noteq> None then interruptJob g h1 else h1)"

definition isReusable :: "host \<Rightarrow> bool" where
  "isReusable h \<longleftrightarrow> ho_state h = HostStarting \<or> ho_state h = HostReady"

section \<open>Messages of the process\<close>

definition messageBelongsToJob :: "json_record \<Rightarrow> host_job \<Rightarrow> bool" where
  "messageBelongsToJob message j =
     (case record_of (field_of (Some message) ''params'') of
        None \<Rightarrow> True
      | Some params \<Rightarrow>
          (let threadId = stringValue (field_of (Some params) ''threadId'');
               turnId = (case stringValue (field_of (Some params) ''turnId'') of
                   Some u \<Rightarrow> Some u | None \<Rightarrow> stringValue (field_of (record_of (field_of (Some params) ''turn'')) ''id'')) in
           \<not> (threadId \<noteq> None \<and> hj_threadId j \<noteq> None \<and> threadId \<noteq> hj_threadId j) \<and>
           \<not> (turnId \<noteq> None \<and> hj_turnId j \<noteq> None \<and> turnId \<noteq> hj_turnId j)))"

definition normalizeMcpServerStartupState :: "json \<Rightarrow> mcp_status option" where
  "normalizeMcpServerStartupState v =
     (if v = JStr ''starting'' then Some McpStarting else if v = JStr ''ready'' then Some McpReady
      else if v = JStr ''failed'' then Some McpFailed else if v = JStr ''cancelled'' then Some McpCancelled else None)"

definition recordMcpStartupStatus :: "json_record \<Rightarrow> host_job \<Rightarrow> host_job" where
  "recordMcpStartupStatus message j =
     (let params = record_of (field_of (Some message) ''params'');
          threadId = (case stringValue (field_of params ''threadId'') of Some t \<Rightarrow> Some t | None \<Rightarrow> hj_threadId j) in
      case (threadId, stringValue (field_of params ''name''), normalizeMcpServerStartupState (field_of params ''status'')) of
        (Some t, Some name, Some status) \<Rightarrow>
          if field_of (Some message) ''method'' \<noteq> JStr ''mcpServer/startupStatus/updated'' then j
          else j\<lparr>hj_statuses := map_put t (map_put name status
            (case map_of (hj_statuses j) t of None \<Rightarrow> [] | Some statuses \<Rightarrow> statuses)) (hj_statuses j)\<rparr>
      | _ \<Rightarrow> j)"

definition isApprovalRequest :: "string option \<Rightarrow> json_record \<Rightarrow> bool" where
  "isApprovalRequest m params \<longleftrightarrow>
     m \<in> {Some ''item/commandExecution/requestApproval'', Some ''item/fileChange/requestApproval'',
       Some ''item/permissions/requestApproval''} \<or>
     m = Some ''mcpServer/elicitation/request'' \<and>
     field_of (record_of (field_of (Some params) ''_meta'')) ''codex_approval_kind'' = JStr ''mcp_tool_call''"

definition approvalResponse :: "string \<Rightarrow> approval_answer \<Rightarrow> json_record \<Rightarrow> json" where
  "approvalResponse m decision params =
     (let accepted = (decision = AnswerApproved);
          word = (if accepted then ''accept'' else if decision = AnswerCanceled then ''cancel'' else ''decline'') in
      if m = ''mcpServer/elicitation/request'' then
        JObj [(''action'', JStr word), (''content'', if accepted then JObj [] else JNull), (''_meta'', JNull)]
      else if m = ''item/permissions/requestApproval'' then
        JObj [(''permissions'', if accepted then JObj (change_record (field_of (Some params) ''permissions'')) else JObj []),
              (''scope'', JStr ''turn'')]
      else JObj [(''decision'', JStr word)])"

definition result_reply :: "json \<Rightarrow> json \<Rightarrow> json" where
  "result_reply i result = JObj [(''id'', i), (''result'', result)]"

text \<open>\<^verbatim>\<open>respondToServerRequest\<close>, up to the decision, and after it\<close>

definition respondToServerRequest :: "json \<Rightarrow> string \<Rightarrow> json_record \<Rightarrow> host \<Rightarrow> host" where
  "respondToServerRequest i m params h =
     (let foreign = writeMessage (error_reply i (- 32001) ''Request does not belong to the active turn'') (ForReply i False) h in
      case ho_active h of
        None \<Rightarrow> foreign
      | Some g \<Rightarrow>
          if job_settled g h \<or> \<not> messageBelongsToJob [(''params'', JObj params)] (ho_jobs h ! g) then foreign
          else if approvalPolicy (ti_sandbox (hj_input (ho_jobs h ! g))) = ''never'' then
            writeMessage (result_reply i (approvalResponse m AnswerApproved params)) (ForReply i False) h
          else if \<not> ti_approvals (hj_input (ho_jobs h ! g)) then
            writeMessage (result_reply i (approvalResponse m AnswerRejected params)) (ForReply i False) h
          else h\<lparr>ho_approvals := ho_approvals h @ [\<lparr>ac_id = i, ac_method = m, ac_params = params, ac_job = g\<rparr>]\<rparr>)"

definition approval_decided :: "nat \<Rightarrow> string + approval_answer \<Rightarrow> host \<Rightarrow> host" where
  "approval_decided n r h0 =
     (let a = ho_approvals h0 ! n; h = h0\<lparr>ho_approvals := take n (ho_approvals h0) @ drop (Suc n) (ho_approvals h0)\<rparr> in
      case r of
        Inl e \<Rightarrow> writeMessage (error_reply (ac_id a) (- 32000) e) (ForReply (ac_id a) False) h
      | Inr decision \<Rightarrow>
          if \<not> current (ac_job a) h then
            writeMessage (error_reply (ac_id a) (- 32001) ''Approval request is no longer active'') (ForReply (ac_id a) True) h
          else writeMessage (result_reply (ac_id a) (approvalResponse (ac_method a) decision (ac_params a)))
                 (ForReply (ac_id a) True) h)"

definition request_id :: "json \<Rightarrow> bool" where
  "request_id i \<longleftrightarrow> (case i of JStr s \<Rightarrow> True | JNum q \<Rightarrow> True | _ \<Rightarrow> False)"

definition host_answer :: "json_record \<Rightarrow> string + json" where
  "host_answer r =
     (case field_of (Some r) ''error'' of
        JObj e \<Rightarrow> Inl (string_or (field_of (Some e) ''message'') ''Codex app-server request failed'')
      | _ \<Rightarrow> Inr (field_of (Some r) ''result''))"

definition host_response :: "json \<Rightarrow> json_record \<Rightarrow> host \<Rightarrow> host" where
  "host_response i r h =
     (case i of
        JStr s \<Rightarrow>
          (case map_of (ho_pending h) s of
             None \<Rightarrow> h
           | Some k \<Rightarrow> upd_request k (\<lambda>q. q\<lparr>hq_response := Some (host_answer r)\<rparr>)
               (h\<lparr>ho_pending := map_del s (ho_pending h)\<rparr>))
      | _ \<Rightarrow> h)"

text \<open>\<^verbatim>\<open>handleMessage\<close>, up to its \<^verbatim>\<open>await\<close>\<close>

definition host_message :: "json \<Rightarrow> host \<Rightarrow> host" where
  "host_message v h =
     (case v of
        JObj r \<Rightarrow>
          (let i = field_of (Some r) ''id''; m = stringValue (field_of (Some r) ''method'');
               params = record_of (field_of (Some r) ''params'') in
           if request_id i \<and> (map_of r ''result'' \<noteq> None \<or> map_of r ''error'' \<noteq> None) then host_response i r h
           else if request_id i \<and> params \<noteq> None \<and> isApprovalRequest m (the params) then
             respondToServerRequest i (the m) (the params) h
           else if request_id i \<and> params \<noteq> None \<and> m = Some ''mcpServer/elicitation/request'' then
             (writeMessage (result_reply i (approvalResponse (the m) AnswerCanceled (the params))) ForElicitation h)
               \<lparr>ho_handling := Some (Replying (length (ho_writes h)))\<rparr>
           else if m = None then h
           else
             (case ho_active h of
                None \<Rightarrow> h
              | Some g \<Rightarrow>
                  if job_settled g h \<or> \<not> messageBelongsToJob r (ho_jobs h ! g) then h
                  else (upd_job g (recordMcpStartupStatus r) h)\<lparr>ho_handling := Some (Notifying r g)\<rparr>))
      | _ \<Rightarrow> h)"

definition normalizeTurnStatus :: "json \<Rightarrow> turn_outcome option" where
  "normalizeTurnStatus v =
     (if v = JStr ''completed'' then Some OutcomeCompleted else if v = JStr ''interrupted'' then Some OutcomeInterrupted
      else if v = JStr ''failed'' then Some OutcomeFailed else None)"

text \<open>The result of the job whose turn is said to be completed\<close>

definition completion :: "json_record \<Rightarrow> host_job \<Rightarrow> truncation \<Rightarrow> host_result option" where
  "completion r j frames =
     (let turn = record_of (field_of (record_of (field_of (Some r) ''params'')) ''turn'');
          completed = stringValue (field_of turn ''id'') in
      case (normalizeTurnStatus (field_of turn ''status''), hj_threadId j, hj_turnId j) of
        (Some status, Some t, Some u) \<Rightarrow>
          if field_of (Some r) ''method'' \<noteq> JStr ''turn/completed'' \<or> completed \<noteq> Some u then None
          else Some \<lparr>ht_threadId = t, ht_turnId = u, ht_turnStatus = status, ht_stderr = tb_value (hj_stderr j),
            ht_canceled = (hj_cancelRequested j \<or> status = OutcomeInterrupted),
            ht_stderrTruncation = text_truncation (hj_stderr j), ht_framesTruncation = frames\<rparr>
      | _ \<Rightarrow> None)"

text \<open>After \<^verbatim>\<open>onNotification\<close>\<close>

definition host_notified :: "json_record \<Rightarrow> nat \<Rightarrow> string option \<Rightarrow> host \<Rightarrow> host" where
  "host_notified r g error h =
     (case error of
        Some e \<Rightarrow> stdout_throws e h
      | None \<Rightarrow>
          (let h1 = h\<lparr>ho_handling := None\<rparr> in
           case completion r (ho_jobs h ! g) (frame_truncation (ho_frames h)) of
             None \<Rightarrow> h1 | Some result \<Rightarrow> settleJobResult g result h1))"

section \<open>Streams and timers\<close>

definition markActivity :: "host \<Rightarrow> host" where
  "markActivity h =
     (let h1 = h\<lparr>ho_spawnTimeout := False\<rparr> in
      case ho_active h of
        None \<Rightarrow> h1
      | Some g \<Rightarrow> if job_settled g h \<or> \<not> ti_inactivityTimeout (hj_input (ho_jobs h ! g)) then h1
          else upd_job g (\<lambda>j. j\<lparr>hj_inactivityTimeout := True\<rparr>) h1)"

definition stdout_chunk :: "js_text \<Rightarrow> host \<Rightarrow> host" where
  "stdout_chunk chunk h = (let h1 = markActivity h in h1\<lparr>ho_chunks := ho_chunks h1 @ [chunk]\<rparr>)"

text \<open>The next chunk, when the frames of the last one have been handled\<close>

definition take_chunk :: "host \<Rightarrow> host" where
  "take_chunk h =
     (case ho_chunks h of
        [] \<Rightarrow> h
      | c # cs \<Rightarrow> (case push 1048576 c (ho_frames h) of (lines, b) \<Rightarrow> h\<lparr>ho_chunks := cs, ho_lines := lines, ho_frames := b\<rparr>))"

definition take_line :: "host_env \<Rightarrow> host \<Rightarrow> host" where
  "take_line X h =
     (case ho_lines h of
        [] \<Rightarrow> h
      | l # ls \<Rightarrow>
          (let h1 = h\<lparr>ho_lines := ls\<rparr> in
           if hx_blank X l \<and> \<not> ho_final h then h1
           else (case hx_parse X l of
                   None \<Rightarrow> stdout_throws ''Codex app-server emitted invalid JSON'' h1
                 | Some v \<Rightarrow> host_message v h1)))"

definition host_stderr :: "js_text \<Rightarrow> string option \<Rightarrow> host \<Rightarrow> host" where
  "host_stderr chunk error h0 =
     (let h = markActivity h0 in
      case ho_active h of
        None \<Rightarrow> h
      | Some g \<Rightarrow>
          if job_settled g h then h
          else
            let h1 = upd_job g (\<lambda>j. j\<lparr>hj_stderr := text_append 1048576 chunk (hj_stderr j)\<rparr>) h in
            case error of None \<Rightarrow> h1 | Some e \<Rightarrow> failHost e h1)"

text \<open>The process has closed: a rest of its output is handled after all other frames.\<close>

definition process_exits :: "host \<Rightarrow> host" where
  "process_exits h =
     (case flush_frames (ho_frames h) of
        (rest, b) \<Rightarrow> h\<lparr>ho_frames := b, ho_rest := rest, ho_exited := True, ho_stdinGone := True\<rparr>)"

definition take_rest :: "host \<Rightarrow> host" where
  "take_rest h =
     (case ho_rest h of None \<Rightarrow> h | Some l \<Rightarrow> h\<lparr>ho_rest := None, ho_lines := [l], ho_final := True\<rparr>)"

text \<open>Then everything is settled.\<close>

definition process_closed :: "host \<Rightarrow> host" where
  "process_closed h =
     (let e = ''Codex app-server closed before turn completion'';
          h1 = settle_active e (rejectPending e (rejectWrites e (rejectStarted e (h\<lparr>ho_spawnTimeout := False\<rparr>)))) in
      host_emitLifecycle ''process_exited'' None (h1\<lparr>ho_state := HostClosed\<rparr>))"

definition host_close :: "host \<Rightarrow> host" where
  "host_close h =
     (if ho_closeCalled h then h
      else if ho_state h = HostClosed then h\<lparr>ho_closeCalled := True\<rparr>
      else h\<lparr>ho_closeCalled := True, ho_state := HostClosing, ho_spawnTimeout := False, ho_killed := True\<rparr>)"

definition host_initialize_params :: json where
  "host_initialize_params =
     JObj [(''clientInfo'', JObj [(''name'', JStr ''clawee-agent''), (''title'', JStr ''Clawee Agent''),
             (''version'', JStr ''0.1.0'')]),
           (''capabilities'', JObj [(''experimentalApi'', JBool False), (''requestAttestation'', JBool False)])]"

text \<open>\<^verbatim>\<open>createCodexAppServerHost\<close>: whether the process has a pid, and whether there is a spawn timeout\<close>

definition new_host :: "bool \<Rightarrow> bool \<Rightarrow> host" where
  "new_host pid spawnTimeout =
     send_request ''initialize'' host_initialize_params 0 UseInitialize
       \<lparr>ho_state = HostStarting, ho_pending = [], ho_requests = [], ho_writes = [], ho_jobs = [], ho_active = None,
        ho_lastManifestKey = None, ho_gatePassed = False, ho_initialized = None, ho_spawnTimeout = spawnTimeout,
        ho_started = (if pid then Some (Inr ()) else None), ho_frames = new_frame_buffer, ho_chunks = [], ho_lines = [],
        ho_handling = None, ho_rest = None, ho_final = False, ho_exited = False, ho_stdinGone = False, ho_approvals = [],
        ho_killed = False, ho_closeCalled = False, ho_lifecycle = [(''process_started'', None)]\<rparr>"

text \<open>The \<^verbatim>\<open>then\<close> of the initialize request, number 0\<close>

definition initialize_answered :: "string + json \<Rightarrow> host \<Rightarrow> host" where
  "initialize_answered r h =
     (case r of
        Inl e \<Rightarrow> failHost e (h\<lparr>ho_initialized := Some (Inl e)\<rparr>)
      | Inr _ \<Rightarrow> writeMessage (JObj [(''method'', JStr ''initialized'')]) ForInitialized h)"

section \<open>What happens to a host\<close>

inductive host_step :: "host_env \<Rightarrow> host \<Rightarrow> host \<Rightarrow> bool" for X where
  host_runs: "host_step X h h'" if "host_run i h = Inr h'"
| host_cancels: "host_step X h (host_cancel g h)" if "g < length (ho_jobs h)"
| host_closes: "host_step X h (host_close h)"
| callback_written: "host_step X h (write_callback w error h)" if "w < length (ho_writes h)"
| write_handled: "host_step X h (write_continues w r callback h)"
    if "w < length (ho_writes h)" and "hw_outcome (ho_writes h ! w) = Some r" and "\<not> hw_handled (ho_writes h ! w)"
| initialize_done: "host_step X h (initialize_answered r h)"
    if "request_outcome (ho_requests h ! 0) = Some r" and "ho_initialized h = None"
      and "ForInitialized \<notin> set (map hw_use (ho_writes h))"
| resume_initialize: "host_step X h (after_initialize X g r h)"
    if "g < length (ho_jobs h)" and "hj_at (ho_jobs h ! g) = AtInitialize" and "ho_initialized h = Some r"
| resume_gate: "host_step X h (after_gate X g error h)"
    if "g < length (ho_jobs h)" and "hj_at (ho_jobs h ! g) = AtGate"
| resume_thread: "host_step X h (after_thread g r h)"
    if "g < length (ho_jobs h)" and "hj_at (ho_jobs h ! g) = AtThread k" and "request_outcome (ho_requests h ! k) = Some r"
| resume_started: "host_step X h (after_started g error h)"
    if "g < length (ho_jobs h)" and "hj_at (ho_jobs h ! g) = AtThreadStarted"
| resume_reload: "host_step X h (after_reload g r h)"
    if "g < length (ho_jobs h)" and "hj_at (ho_jobs h ! g) = AtReload k" and "request_outcome (ho_requests h ! k) = Some r"
| resume_mcp: "host_step X h (after_mcp g expired h)"
    if "g < length (ho_jobs h)" and "hj_at (ho_jobs h ! g) = AtMcp"
| resume_turn: "host_step X h (after_turn g r h)"
    if "g < length (ho_jobs h)" and "hj_at (ho_jobs h ! g) = AtTurn k" and "request_outcome (ho_requests h ! k) = Some r"
| interrupt_fails: "host_step X h (failHost e h)"
    if "k < length (ho_requests h)" and "hq_use (ho_requests h ! k) = UseInterrupt" and "request_outcome (ho_requests h ! k) = Some (Inl e)"
| stdout_data: "host_step X h (stdout_chunk chunk h)" if "\<not> ho_exited h"
| stdout_chunk_taken: "host_step X h (take_chunk h)" if "ho_lines h = []" and "ho_handling h = None"
| stdout_line_taken: "host_step X h (take_line X h)" if "ho_handling h = None"
| notification_done: "host_step X h (host_notified r g error h)" if "ho_handling h = Some (Notifying r g)" and "g < length (ho_jobs h)"
| approval_done: "host_step X h (approval_decided n answer h)" if "n < length (ho_approvals h)"
| stderr_data: "host_step X h (host_stderr chunk error h)"
| spawn_times_out: "host_step X h (failHost e h)" if "ho_spawnTimeout h"
| job_times_out: "host_step X h (failHost e h)"
    if "ho_active h = Some g" and "hj_timeout (ho_jobs h ! g) \<or> hj_inactivityTimeout (ho_jobs h ! g)"
| process_breaks: "host_step X h (failHost e h)" \<comment> \<open>an error of the process or its input\<close>
| process_spawned: "host_step X h (h\<lparr>ho_started := (case ho_started h of None \<Rightarrow> Some (Inr ()) | Some r \<Rightarrow> Some r)\<rparr>)"
| stdin_ends: "host_step X h (h\<lparr>ho_stdinGone := True\<rparr>)"
| process_exit: "host_step X h (process_exits h)" if "\<not> ho_exited h"
| rest_taken: "host_step X h (take_rest h)"
    if "ho_chunks h = []" and "ho_lines h = []" and "ho_handling h = None"
| process_end: "host_step X h (process_closed h)"
    if "ho_exited h" and "ho_chunks h = []" and "ho_lines h = []" and "ho_handling h = None" and "ho_rest h = None"
      and "ho_state h \<noteq> HostClosed"

inductive host_history :: "host_env \<Rightarrow> host \<Rightarrow> bool" for X where
  host_created: "host_history X (new_host pid spawnTimeout)"
| host_continues: "host_history X h \<Longrightarrow> host_step X h h' \<Longrightarrow> host_history X h'"

end
