(* ===== verification/AppServerInvariant.thy ===== *)
theory AppServerInvariant
  imports AppServerHost RunInvariants
begin

text \<open>
  What holds in every history of an app-server host: its jobs and requests are accounted for, and a run
  starts at most one turn.

  \<^item> \<open>host_ok\<close> is the invariant: \<open>jobs_ok\<close> for the jobs, \<open>pending_ok\<close> for the requests, \<open>turn_ok\<close> for the turn
    of each job.
  \<^item> \<open>host_moves\<close> is what every step does: results, responses and cancellations are final.
  \<^item> \<open>goes h h'\<close> says that a change of \<open>h\<close> to \<open>h'\<close> keeps the one and is the other. Each operation is a chain
    of few changes, so its rule \<open>goes h h1 \<Longrightarrow> goes h (op h1)\<close> follows from theirs.
\<close>

section \<open>The invariant\<close>

definition jobs_ok :: "host \<Rightarrow> bool" where
  "jobs_ok h \<longleftrightarrow>
     (\<forall>g < length (ho_jobs h). hj_result (ho_jobs h ! g) = None \<longrightarrow> ho_active h = Some g) \<and>
     (\<forall>g. ho_active h = Some g \<longrightarrow>
       g < length (ho_jobs h) \<and> hj_result (ho_jobs h ! g) = None \<and> ho_state h \<in> {HostTurnActive, HostClosing}) \<and>
     (ho_state h = HostTurnActive \<longrightarrow> ho_active h \<noteq> None)"

definition unanswered :: "host_request \<Rightarrow> bool" where
  "unanswered q \<longleftrightarrow> hq_response q = None \<and> hq_error q = None"

definition pending_ok :: "host \<Rightarrow> bool" where
  "pending_ok h \<longleftrightarrow>
     keys_distinct (ho_pending h) \<and>
     (\<forall>i k. (i, k) \<in> set (ho_pending h) \<longleftrightarrow>
       k < length (ho_requests h) \<and> i = host_id k \<and> unanswered (ho_requests h ! k)) \<and>
     (ho_state h \<in> {HostFailed, HostClosed} \<longrightarrow> ho_pending h = [])"

text \<open>The requests of one kind that job \<open>g\<close> has made, and the turn that one of them has started\<close>

definition asked :: "request_use \<Rightarrow> nat \<Rightarrow> host \<Rightarrow> nat" where
  "asked use g h = length (filter (\<lambda>q. hq_use q = use \<and> hq_generation q = Suc g) (ho_requests h))"

definition requests_of :: "string \<Rightarrow> nat \<Rightarrow> host \<Rightarrow> nat" where
  "requests_of m g h = length (filter (\<lambda>q. hq_method q = m \<and> hq_generation q = Suc g) (ho_requests h))"

definition turn_answered :: "nat \<Rightarrow> string \<Rightarrow> host \<Rightarrow> bool" where
  "turn_answered g u h \<longleftrightarrow>
     (\<exists>q \<in> set (ho_requests h). hq_use q = UseTurn \<and> hq_generation q = Suc g \<and> hq_written q \<and>
       (\<exists>v. hq_response q = Some (Inr v) \<and> response_id ''turn'' v = Some u))"

definition before_turn :: "await_point \<Rightarrow> bool" where
  "before_turn a \<longleftrightarrow> (case a of AtTurn k \<Rightarrow> False | AtEnd \<Rightarrow> False | _ \<Rightarrow> True)"

definition turn_ok :: "nat \<Rightarrow> host \<Rightarrow> bool" where
  "turn_ok g h \<longleftrightarrow>
     (let j = ho_jobs h ! g in
      asked UseTurn g h \<le> 1 \<and> (before_turn (hj_at j) \<longrightarrow> asked UseTurn g h = 0) \<and>
      (\<forall>k. hj_at j = AtTurn k \<longrightarrow>
        k < length (ho_requests h) \<and> hq_use (ho_requests h ! k) = UseTurn \<and> hq_generation (ho_requests h ! k) = Suc g) \<and>
      (\<forall>u. hj_turnId j = Some u \<longrightarrow> turn_answered g u h) \<and>
      (\<forall>r. hj_result j = Some (Inr r) \<longrightarrow> hj_turnId j = Some (ht_turnId r)) \<and>
      asked UseInterrupt g h \<le> (if hj_interruptRequested j then 1 else 0))"

text \<open>\<open>hq_use\<close> tells the requests apart as their methods do.\<close>

definition use_ok :: "string \<Rightarrow> request_use \<Rightarrow> bool" where
  "use_ok m use \<longleftrightarrow> (use = UseTurn \<longleftrightarrow> m = ''turn/start'') \<and> (use = UseInterrupt \<longleftrightarrow> m = ''turn/interrupt'')"

definition host_ok :: "host \<Rightarrow> bool" where
  "host_ok h \<longleftrightarrow>
     jobs_ok h \<and> pending_ok h \<and> (\<forall>q \<in> set (ho_requests h). hq_generation q \<le> length (ho_jobs h) \<and> use_ok (hq_method q) (hq_use q)) \<and>
     (\<forall>g < length (ho_jobs h). turn_ok g h)"

definition job_kept :: "host_job \<Rightarrow> host_job \<Rightarrow> bool" where
  "job_kept j j' \<longleftrightarrow>
     (hj_result j \<noteq> None \<longrightarrow> hj_result j' = hj_result j) \<and>
     (\<forall>r. hj_result j = None \<and> hj_result j' = Some (Inr r) \<longrightarrow> hj_turnId j' = Some (ht_turnId r)) \<and>
     (hj_cancelRequested j \<longrightarrow> hj_cancelRequested j') \<and>
     (before_turn (hj_at j') \<longrightarrow> before_turn (hj_at j)) \<and>
     (\<forall>k. hj_at j' = AtTurn k \<longrightarrow> hj_at j = AtTurn k) \<and>
     hj_turnId j' = hj_turnId j \<and> hj_interruptRequested j' = hj_interruptRequested j"

definition request_kept :: "host_request \<Rightarrow> host_request \<Rightarrow> bool" where
  "request_kept q q' \<longleftrightarrow>
     hq_method q' = hq_method q \<and> hq_generation q' = hq_generation q \<and> hq_use q' = hq_use q \<and>
     (hq_written q \<longrightarrow> hq_written q') \<and> (hq_response q \<noteq> None \<longrightarrow> hq_response q' = hq_response q)"

definition host_moves :: "host \<Rightarrow> host \<Rightarrow> bool" where
  "host_moves h h' \<longleftrightarrow>
     length (ho_jobs h) \<le> length (ho_jobs h') \<and> length (ho_requests h) \<le> length (ho_requests h') \<and>
     (\<forall>k < length (ho_requests h). request_kept (ho_requests h ! k) (ho_requests h' ! k)) \<and>
     (\<forall>g < length (ho_jobs h).
       (hj_result (ho_jobs h ! g) \<noteq> None \<longrightarrow> hj_result (ho_jobs h' ! g) = hj_result (ho_jobs h ! g)) \<and>
       (hj_cancelRequested (ho_jobs h ! g) \<longrightarrow>
         hj_cancelRequested (ho_jobs h' ! g) \<and> asked UseTurn g h' = asked UseTurn g h))"

definition goes :: "host \<Rightarrow> host \<Rightarrow> bool" where
  "goes h h' \<longleftrightarrow> (host_ok h \<longrightarrow> host_ok h' \<and> host_moves h h')"

lemma job_kept_refl [simp]: "job_kept j j"
  by (auto simp: job_kept_def)

lemma request_kept_refl [simp]: "request_kept q q"
  by (simp add: request_kept_def)

lemma moves_refl [simp]: "host_moves h h"
  by (simp add: host_moves_def)

lemma request_kept_trans: "request_kept q q1 \<Longrightarrow> request_kept q1 q2 \<Longrightarrow> request_kept q q2"
  by (simp add: request_kept_def)

lemma host_moves_trans:
  assumes "host_moves h h1" and "host_moves h1 h2"
  shows "host_moves h h2"
proof -
  have "request_kept (ho_requests h ! k) (ho_requests h2 ! k)" if "k < length (ho_requests h)" for k
    using assms that request_kept_trans unfolding host_moves_def by (meson order_less_le_trans)
  moreover have "hj_result (ho_jobs h2 ! g) = hj_result (ho_jobs h ! g)"
    if "g < length (ho_jobs h)" "hj_result (ho_jobs h ! g) \<noteq> None" for g
    using assms that unfolding host_moves_def by (metis order_less_le_trans)
  moreover have "hj_cancelRequested (ho_jobs h2 ! g) \<and> asked UseTurn g h2 = asked UseTurn g h"
    if "g < length (ho_jobs h)" "hj_cancelRequested (ho_jobs h ! g)" for g
    using assms that unfolding host_moves_def by (metis order_less_le_trans)
  ultimately show ?thesis using assms by (simp add: host_moves_def)
qed

lemma goes_refl [simp, intro]: "goes h h"
  by (simp add: goes_def)

lemma goes_trans: "goes h1 h2 \<Longrightarrow> goes h h1 \<Longrightarrow> goes h h2"
  using host_moves_trans unfolding goes_def by blast

section \<open>Changes\<close>

lemma count_kept: "list_all2 request_kept qs qs' \<Longrightarrow>
    length (filter (\<lambda>q. hq_use q = use \<and> hq_generation q = n) qs') = length (filter (\<lambda>q. hq_use q = use \<and> hq_generation q = n) qs)"
  by (induction rule: list_all2_induct) (auto simp: request_kept_def)

lemma turn_answered_kept:
  assumes "list_all2 request_kept (ho_requests h) (ho_requests h')" and "turn_answered g u h"
  shows "turn_answered g u h'"
proof -
  obtain q v where q: "q \<in> set (ho_requests h)" "hq_use q = UseTurn" "hq_generation q = Suc g" "hq_written q"
      "hq_response q = Some (Inr v)" "response_id ''turn'' v = Some u"
    using assms(2) unfolding turn_answered_def by blast
  obtain k where k: "k < length (ho_requests h)" "ho_requests h ! k = q" using q(1) by (auto simp: in_set_conv_nth)
  have "request_kept q (ho_requests h' ! k)" using assms(1) k by (auto simp: list_all2_conv_all_nth)
  moreover have "ho_requests h' ! k \<in> set (ho_requests h')" using assms(1) k by (simp add: list_all2_conv_all_nth)
  ultimately show ?thesis using q unfolding turn_answered_def request_kept_def by (metis option.distinct(1))
qed

text \<open>A change that makes no request, and whose job and turn stay\<close>

lemma goes_frame:
  assumes "host_ok h \<Longrightarrow> list_all2 job_kept (ho_jobs h) (ho_jobs h')"
    and "host_ok h \<Longrightarrow> list_all2 request_kept (ho_requests h) (ho_requests h')"
    and "host_ok h \<Longrightarrow> jobs_ok h'" and "host_ok h \<Longrightarrow> pending_ok h'"
  shows "goes h h'"
  unfolding goes_def
proof
  assume ok: "host_ok h"
  note J = assms(1) [OF ok] and Q = assms(2) [OF ok]
  have len: "length (ho_jobs h') = length (ho_jobs h)" "length (ho_requests h') = length (ho_requests h)"
    using J Q by (simp_all add: list_all2_lengthD)
  have asked: "asked use g h' = asked use g h" for use g
    unfolding asked_def by (rule count_kept [OF Q])
  have job: "job_kept (ho_jobs h ! g) (ho_jobs h' ! g)" if "g < length (ho_jobs h)" for g
    using J that by (simp add: list_all2_nthD)
  have request: "request_kept (ho_requests h ! k) (ho_requests h' ! k)" if "k < length (ho_requests h)" for k
    using Q that by (simp add: list_all2_nthD)
  have "turn_ok g h'" if g: "g < length (ho_jobs h)" for g
  proof -
    let ?j = "ho_jobs h ! g" and ?j' = "ho_jobs h' ! g"
    have t: "turn_ok g h" using ok g by (simp add: host_ok_def)
    have kept: "job_kept ?j ?j'" by (rule job [OF g])
    have "k < length (ho_requests h') \<and> hq_use (ho_requests h' ! k) = UseTurn \<and> hq_generation (ho_requests h' ! k) = Suc g"
      if "hj_at ?j' = AtTurn k" for k
    proof -
      have at_k: "hj_at ?j = AtTurn k" using kept that by (simp add: job_kept_def)
      then have "k < length (ho_requests h)" "hq_use (ho_requests h ! k) = UseTurn" "hq_generation (ho_requests h ! k) = Suc g"
        using t by (simp_all add: turn_ok_def Let_def)
      then show ?thesis using request [of k] len by (simp add: request_kept_def)
    qed
    moreover have "turn_answered g u h'" if "hj_turnId ?j' = Some u" for u
      using turn_answered_kept [OF Q, of g u] kept t that by (simp add: job_kept_def turn_ok_def Let_def)
    moreover have "hj_turnId ?j' = Some (ht_turnId r)" if "hj_result ?j' = Some (Inr r)" for r
      using kept t that by (cases "hj_result ?j") (simp_all add: job_kept_def turn_ok_def Let_def)
    ultimately show ?thesis using kept t by (simp add: turn_ok_def Let_def asked job_kept_def)
  qed
  moreover have "hq_generation q \<le> length (ho_jobs h') \<and> use_ok (hq_method q) (hq_use q)" if q: "q \<in> set (ho_requests h')" for q
  proof -
    obtain k where k: "k < length (ho_requests h)" "q = ho_requests h' ! k" using q len by (auto simp: in_set_conv_nth)
    then have "hq_generation q = hq_generation (ho_requests h ! k)" "hq_method q = hq_method (ho_requests h ! k)"
      "hq_use q = hq_use (ho_requests h ! k)" using request [of k] by (simp_all add: request_kept_def)
    then show ?thesis using ok k len by (simp add: host_ok_def)
  qed
  ultimately have "host_ok h'" using assms(3,4) [OF ok] len by (simp add: host_ok_def)
  moreover have "host_moves h h'"
    using job request by (simp add: host_moves_def len asked job_kept_def)
  ultimately show "host_ok h' \<and> host_moves h h'" ..
qed


lemma list_all2_update:
  "(\<And>x. P x x) \<Longrightarrow> (k < length xs \<Longrightarrow> P (xs ! k) y) \<Longrightarrow> list_all2 P xs (xs[k := y])"
  by (cases "k < length xs") (auto simp: list_all2_conv_all_nth nth_list_update list_update_beyond)

lemma list_all2_same: "(\<And>x. P x x) \<Longrightarrow> list_all2 P xs xs"
  by (simp add: list_all2_conv_all_nth)

lemma upd_job_simps [simp]:
  "ho_jobs (upd_job g f h) = (ho_jobs h)[g := f (ho_jobs h ! g)]" "ho_requests (upd_job g f h) = ho_requests h"
  "ho_pending (upd_job g f h) = ho_pending h" "ho_active (upd_job g f h) = ho_active h"
  "ho_state (upd_job g f h) = ho_state h"
  by (simp_all add: upd_job_def)

lemma upd_request_simps [simp]:
  "ho_requests (upd_request k f h) = (ho_requests h)[k := f (ho_requests h ! k)]" "ho_jobs (upd_request k f h) = ho_jobs h"
  "ho_pending (upd_request k f h) = ho_pending h" "ho_active (upd_request k f h) = ho_active h"
  "ho_state (upd_request k f h) = ho_state h"
  by (simp_all add: upd_request_def)

lemma upd_write_simps [simp]:
  "ho_requests (upd_write w f h) = ho_requests h" "ho_jobs (upd_write w f h) = ho_jobs h"
  "ho_pending (upd_write w f h) = ho_pending h" "ho_active (upd_write w f h) = ho_active h"
  "ho_state (upd_write w f h) = ho_state h" "ho_lines (upd_write w f h) = ho_lines h"
  by (simp_all add: upd_write_def)

lemma host_id_inj [simp]: "host_id j = host_id k \<longleftrightarrow> j = k"
  by (simp add: host_id_def)

lemma jobs_ok_cong:
  "ho_jobs h' = ho_jobs h \<Longrightarrow> ho_active h' = ho_active h \<Longrightarrow> ho_state h' = ho_state h \<Longrightarrow> jobs_ok h' \<longleftrightarrow> jobs_ok h"
  unfolding jobs_ok_def by (simp only:)

lemma pending_ok_cong:
  "ho_requests h' = ho_requests h \<Longrightarrow> ho_pending h' = ho_pending h \<Longrightarrow> ho_state h' = ho_state h \<Longrightarrow>
    pending_ok h' \<longleftrightarrow> pending_ok h"
  unfolding pending_ok_def by (simp only:)

lemma host_okD:
  assumes "host_ok h"
  shows "jobs_ok h" "pending_ok h"
  using assms by (simp_all add: host_ok_def)

lemma current_job:
  assumes "jobs_ok h" and "current g h"
  shows "g < length (ho_jobs h)" "hj_result (ho_jobs h ! g) = None" "ho_state h = HostTurnActive \<or> ho_state h = HostClosing"
  using assms unfolding jobs_ok_def current_def by blast+

text \<open>What the invariant does not look at\<close>

lemma goes_same:
  assumes "goes h h1" and "ho_jobs h2 = ho_jobs h1" and "ho_requests h2 = ho_requests h1"
    and "ho_pending h2 = ho_pending h1" and "ho_active h2 = ho_active h1" and "ho_state h2 = ho_state h1"
  shows "goes h h2"
proof (rule goes_trans [OF goes_frame assms(1)])
  assume ok: "host_ok h1"
  show "list_all2 job_kept (ho_jobs h1) (ho_jobs h2)" "list_all2 request_kept (ho_requests h1) (ho_requests h2)"
    using assms(2,3) by (simp_all add: list_all2_same)
  show "jobs_ok h2" "pending_ok h2"
    using host_okD [OF ok] jobs_ok_cong [of h2 h1] pending_ok_cong [of h2 h1] assms by simp_all
qed

text \<open>The result and the state of a job aside\<close>

lemma jobs_ok_results:
  assumes "jobs_ok h" and "map hj_result (ho_jobs h') = map hj_result (ho_jobs h)" and "ho_active h' = ho_active h"
    and "ho_state h' = ho_state h"
  shows "jobs_ok h'"
proof -
  have len: "length (ho_jobs h') = length (ho_jobs h)" using assms(2) map_eq_imp_length_eq by blast
  then have "hj_result (ho_jobs h' ! g) = hj_result (ho_jobs h ! g)" if "g < length (ho_jobs h)" for g
    using assms(2) that by (metis nth_map)
  then show ?thesis using assms(1) unfolding jobs_ok_def assms(3,4) len by metis
qed

lemma map_result_update:
  "hj_result j = hj_result (js ! g) \<Longrightarrow> map hj_result (js[g := j]) = map hj_result js"
  by (metis list_update_id map_update)

lemma goes_job:
  assumes "goes h h1" and "job_kept (ho_jobs h1 ! g) (f (ho_jobs h1 ! g))"
    and "hj_result (f (ho_jobs h1 ! g)) = hj_result (ho_jobs h1 ! g)"
  shows "goes h (upd_job g f h1)"
proof (rule goes_trans [OF goes_frame assms(1)])
  assume ok: "host_ok h1"
  show "list_all2 job_kept (ho_jobs h1) (ho_jobs (upd_job g f h1))"
    using assms(2) by (simp add: list_all2_update)
  show "list_all2 request_kept (ho_requests h1) (ho_requests (upd_job g f h1))" by (simp add: list_all2_same)
  show "jobs_ok (upd_job g f h1)"
    using jobs_ok_results [OF host_okD(1) [OF ok]] assms(3) by (simp add: map_result_update)
  show "pending_ok (upd_job g f h1)"
    using pending_ok_cong [of "upd_job g f h1" h1] host_okD(2) [OF ok] by simp
qed

text \<open>A request that is written, that breaks, and that is answered\<close>

lemma goes_written:
  assumes "goes h h1"
  shows "goes h (upd_request k (\<lambda>q. q\<lparr>hq_written := True\<rparr>) h1)" (is "goes h ?h2")
proof (rule goes_trans [OF goes_frame assms(1)])
  assume ok: "host_ok h1"
  show "list_all2 job_kept (ho_jobs h1) (ho_jobs ?h2)" by (simp add: list_all2_same)
  show "list_all2 request_kept (ho_requests h1) (ho_requests ?h2)"
    by (simp add: list_all2_update request_kept_def)
  show "jobs_ok ?h2" using jobs_ok_cong [of ?h2 h1] host_okD(1) [OF ok] by simp
  have "unanswered (ho_requests ?h2 ! n) = unanswered (ho_requests h1 ! n)" for n
    by (cases "n = k"; cases "k < length (ho_requests h1)") (simp_all add: unanswered_def not_less list_update_beyond)
  then show "pending_ok ?h2" using host_okD(2) [OF ok] by (simp add: pending_ok_def del: upd_request_simps(1)) simp
qed

lemma pending_ok_remove:
  assumes "pending_ok h1" and "ho_requests h2 = (ho_requests h1)[k := q]" and "\<not> unanswered q"
    and "ho_pending h2 = map_del (host_id k) (ho_pending h1)" and "ho_state h2 = ho_state h1"
  shows "pending_ok h2"
proof -
  have "(i, n) \<in> set (ho_pending h2) \<longleftrightarrow> n < length (ho_requests h2) \<and> i = host_id n \<and> unanswered (ho_requests h2 ! n)" for i n
    using assms(1,3) unfolding pending_ok_def assms(2,4) map_del_def
    by (cases "n = k"; cases "k < length (ho_requests h1)") auto
  moreover have "ho_pending h1 = [] \<Longrightarrow> ho_pending h2 = []" by (simp add: assms(4) map_del_def)
  ultimately show ?thesis using assms(1,4,5) by (simp add: pending_ok_def)
qed

text \<open>Errors: pending requests are rejected, and the active job is settled.\<close>

lemma failed_ok:
  assumes "jobs_ok h1" and "ho_active h1 = Some g" and "ho_jobs h2 = (ho_jobs h1)[g := j]" and "hj_result j \<noteq> None"
    and "ho_active h2 = None" and "ho_state h2 \<noteq> HostTurnActive"
  shows "jobs_ok h2"
proof -
  have g: "g < length (ho_jobs h1)" and others: "\<And>n. n < length (ho_jobs h1) \<Longrightarrow> hj_result (ho_jobs h1 ! n) = None \<Longrightarrow> n = g"
    using assms(1,2) unfolding jobs_ok_def by auto
  have "hj_result (ho_jobs h2 ! n) \<noteq> None" if "n < length (ho_jobs h2)" for n
  proof (cases "n = g")
    case True
    then show ?thesis using g assms(3,4) by simp
  next
    case False
    then have "ho_jobs h2 ! n = ho_jobs h1 ! n" "n < length (ho_jobs h1)" using that assms(3) by simp_all
    then show ?thesis using others False by metis
  qed
  then show ?thesis using assms(5,6) by (simp add: jobs_ok_def)
qed

lemma rejected_requests:
  "list_all2 request_kept qs (map (\<lambda>k. let q = qs ! k in if P k then q\<lparr>hq_response := Some r\<rparr> else q) [0 ..< length qs])"
  if "\<And>k. k < length qs \<Longrightarrow> P k \<Longrightarrow> hq_response (qs ! k) = None"
  using that by (auto simp: list_all2_conv_all_nth request_kept_def Let_def)

lemma reject_simps [simp]:
  "ho_jobs (reject_requests sel e h) = ho_jobs h" "ho_active (reject_requests sel e h) = ho_active h"
  "ho_state (reject_requests sel e h) = ho_state h"
  "ho_pending (reject_requests sel e h) = filter (\<lambda>(i, k). \<not> sel (hq_generation (ho_requests h ! k))) (ho_pending h)"
  by (simp_all add: reject_requests_def Let_def)

lemma reject_kept:
  assumes "pending_ok h"
  shows "list_all2 request_kept (ho_requests h) (ho_requests (reject_requests sel e h))"
  using assms unfolding reject_requests_def Let_def
  by simp (rule rejected_requests [unfolded Let_def], auto simp: pending_ok_def unanswered_def)

lemma reject_unanswered:
  assumes "pending_ok h" and "k < length (ho_requests h)"
  shows "unanswered (ho_requests (reject_requests sel e h) ! k) \<longleftrightarrow>
    unanswered (ho_requests h ! k) \<and> \<not> sel (hq_generation (ho_requests h ! k))"
proof -
  have P: "(i, k) \<in> set (ho_pending h) \<longleftrightarrow> i = host_id k \<and> unanswered (ho_requests h ! k)" for i
    using assms by (simp add: pending_ok_def)
  have "k \<in> snd ` {p \<in> set (ho_pending h). case p of (i, k) \<Rightarrow> sel (hq_generation (ho_requests h ! k))} \<longleftrightarrow>
      (\<exists>i. (i, k) \<in> set (ho_pending h)) \<and> sel (hq_generation (ho_requests h ! k))"
    by (auto simp: image_iff)
  then have "k \<in> snd ` set (filter (\<lambda>(i, k). sel (hq_generation (ho_requests h ! k))) (ho_pending h)) \<longleftrightarrow>
      unanswered (ho_requests h ! k) \<and> sel (hq_generation (ho_requests h ! k))"
    unfolding P set_filter by blast
  then show ?thesis using assms(2) unfolding reject_requests_def Let_def by (auto simp: unanswered_def)
qed

lemma reject_generation [simp]:
  "k < length (ho_requests h) \<Longrightarrow> hq_generation (ho_requests (reject_requests sel e h) ! k) = hq_generation (ho_requests h ! k)"
  "length (ho_requests (reject_requests sel e h)) = length (ho_requests h)"
  by (simp_all add: reject_requests_def Let_def)

lemma reject_pending_ok:
  assumes "pending_ok h"
  shows "pending_ok (reject_requests sel e h)"
proof -
  have "(i, k) \<in> set (ho_pending (reject_requests sel e h)) \<longleftrightarrow>
      k < length (ho_requests h) \<and> i = host_id k \<and> unanswered (ho_requests (reject_requests sel e h) ! k)" for i k
    using assms reject_unanswered [OF assms, of k sel e] by (auto simp: pending_ok_def)
  then show ?thesis using assms by (simp add: pending_ok_def)
qed

text \<open>What \<open>failHost\<close> and \<open>process_closed\<close> have in common\<close>

definition drop_all :: "string \<Rightarrow> host \<Rightarrow> host" where
  "drop_all e h = settle_active e (rejectPending e (rejectWrites e (rejectStarted e h)))"

lemma reject_others [simp]:
  "ho_jobs (rejectWrites e h) = ho_jobs h" "ho_active (rejectWrites e h) = ho_active h"
  "ho_state (rejectWrites e h) = ho_state h" "ho_pending (rejectWrites e h) = ho_pending h"
  "ho_requests (rejectWrites e h) = ho_requests h"
  "ho_jobs (rejectStarted e h) = ho_jobs h" "ho_active (rejectStarted e h) = ho_active h"
  "ho_state (rejectStarted e h) = ho_state h" "ho_pending (rejectStarted e h) = ho_pending h"
  "ho_requests (rejectStarted e h) = ho_requests h"
  by (simp_all add: rejectWrites_def rejectStarted_def)

lemma job_settled_others [simp]:
  "job_settled g (rejectWrites e h) = job_settled g h" "job_settled g (rejectStarted e h) = job_settled g h"
  "job_settled g (reject_requests sel e h) = job_settled g h"
  by (simp_all add: job_settled_def)

definition failed_job :: "string \<Rightarrow> host_job \<Rightarrow> host_job" where
  "failed_job e j = j\<lparr>hj_result := Some (Inl e), hj_stage := Settled, hj_timeout := False, hj_inactivityTimeout := False\<rparr>"

lemma failed_job_kept: "hj_result j = None \<Longrightarrow> job_kept j (failed_job e j)"
  by (simp add: job_kept_def failed_job_def)

lemma settle_error_eq:
  assumes "\<not> job_settled g h"
  shows "settleJobError g e reusable h =
    (rejectGeneration (Suc g) e (upd_job g (failed_job e) h))
      \<lparr>ho_active := (if ho_active h = Some g then None else ho_active h),
       ho_state := (if reusable \<and> ho_state h = HostTurnActive then HostReady else ho_state h)\<rparr>"
  using assms by (simp add: settleJobError_def settle_job_def failed_job_def [abs_def] rejectGeneration_def)

lemma pending_ok_state:
  "pending_ok h \<Longrightarrow> ho_requests h' = ho_requests h \<Longrightarrow> ho_pending h' = ho_pending h \<Longrightarrow>
    ho_state h' \<in> {HostFailed, HostClosed} \<longrightarrow> ho_pending h = [] \<Longrightarrow> pending_ok h'"
  unfolding pending_ok_def by simp

lemma drop_all_none:
  assumes "ho_active h = None"
  shows "ho_jobs (drop_all e h) = ho_jobs h" "ho_active (drop_all e h) = None" "ho_pending (drop_all e h) = []"
    "ho_requests (drop_all e h) = ho_requests (rejectPending e (rejectWrites e (rejectStarted e h)))"
    "ho_state (drop_all e h) = ho_state h"
  using assms by (simp_all add: drop_all_def settle_active_def rejectPending_def)

lemma drop_all_some:
  assumes "ho_active h = Some g" and "\<not> job_settled g h"
  shows "ho_jobs (drop_all e h) = (ho_jobs h)[g := failed_job e (ho_jobs h ! g)]" "ho_active (drop_all e h) = None"
    "ho_pending (drop_all e h) = []" "ho_state (drop_all e h) = ho_state h"
    "ho_requests (drop_all e h) = ho_requests (reject_requests (\<lambda>n. n = Suc g) e
       (upd_job g (failed_job e) (rejectPending e (rejectWrites e (rejectStarted e h)))))"
  using assms
  by (simp_all add: drop_all_def settle_active_def rejectPending_def settle_error_eq rejectGeneration_def)

lemma goes_drop:
  assumes "goes h h1" and "ho_jobs h0 = ho_jobs h1" and "ho_requests h0 = ho_requests h1"
    and "ho_pending h0 = ho_pending h1" and "ho_active h0 = ho_active h1"
    and "ho_jobs h2 = ho_jobs (drop_all e h0)" and "ho_requests h2 = ho_requests (drop_all e h0)"
    and "ho_pending h2 = ho_pending (drop_all e h0)" and "ho_active h2 = ho_active (drop_all e h0)"
    and "ho_state h2 \<in> {HostFailed, HostClosed}"
  shows "goes h h2"
proof (rule goes_trans [OF goes_frame assms(1)])
  assume ok: "host_ok h1"
  let ?r = "rejectPending e (rejectWrites e (rejectStarted e h0))"
  have p0: "pending_ok (rejectWrites e (rejectStarted e (h0\<lparr>ho_state := ho_state h1\<rparr>)))"
    using pending_ok_cong [of _ h1] host_okD(2) [OF ok] assms(3,4) by simp
  have r: "ho_requests (rejectPending e (rejectWrites e (rejectStarted e (h0\<lparr>ho_state := ho_state h1\<rparr>)))) = ho_requests ?r"
    by (simp add: rejectPending_def reject_requests_def Let_def rejectWrites_def rejectStarted_def)
  have kept: "list_all2 request_kept (ho_requests h1) (ho_requests ?r)"
    using reject_kept [OF p0, of "\<lambda>n. True" e] r assms(3) by (simp add: rejectPending_def)
  have none: "\<not> unanswered (ho_requests ?r ! k)" if "k < length (ho_requests h1)" for k
    using reject_unanswered [OF p0, of k "\<lambda>n. True" e] that r assms(3) by (simp add: rejectPending_def)
  have len: "length (ho_requests ?r) = length (ho_requests h1)" using kept by (simp add: list_all2_lengthD)
  have J: "list_all2 job_kept (ho_jobs h1) (ho_jobs h2) \<and> ho_active h2 = None \<and> ho_pending h2 = [] \<and>
      ho_requests h2 = ho_requests ?r \<and> jobs_ok h2"
  proof (cases "ho_active h1")
    case None
    then have "ho_active h0 = None" using assms(5) by simp
    note eqs = drop_all_none [OF this, of e]
    have "ho_jobs h2 = ho_jobs h1" "ho_active h2 = None" using eqs assms(2,6,9) by simp_all
    moreover have "jobs_ok h2"
      using host_okD(1) [OF ok] assms(10) None calculation unfolding jobs_ok_def by auto
    ultimately show ?thesis using eqs assms(7,8) by (simp add: list_all2_same)
  next
    case (Some g)
    have g: "hj_result (ho_jobs h1 ! g) = None" using host_okD(1) [OF ok] Some unfolding jobs_ok_def by blast
    then have "\<not> job_settled g h0" "ho_active h0 = Some g" using Some assms(2,5) by (simp_all add: job_settled_def)
    note eqs = drop_all_some [OF this(2,1), of e]
    have jobs: "ho_jobs h2 = (ho_jobs h1)[g := failed_job e (ho_jobs h1 ! g)]" "ho_active h2 = None" "ho_pending h2 = []"
      using eqs assms(2,6,8,9) by simp_all
    have "jobs_ok h2"
      by (rule failed_ok [OF host_okD(1) [OF ok] Some jobs(1) _ jobs(2)]) (use assms(10) in \<open>auto simp: failed_job_def\<close>)
    moreover have "list_all2 job_kept (ho_jobs h1) (ho_jobs h2)"
      using jobs(1) failed_job_kept [OF g] by (simp add: list_all2_update)
    moreover have "ho_requests h2 = ho_requests ?r"
      using eqs(5) assms(7) by (simp add: reject_requests_def rejectPending_def Let_def cong: map_cong)
    ultimately show ?thesis using jobs by blast
  qed
  then show "list_all2 job_kept (ho_jobs h1) (ho_jobs h2)" "list_all2 request_kept (ho_requests h1) (ho_requests h2)"
    "jobs_ok h2" using kept by simp_all
  show "pending_ok h2" using J none len by (auto simp: pending_ok_def)
qed

lemma failHost_goes:
  assumes "goes h h1"
  shows "goes h (failHost e h1)"
proof (cases "ho_state h1 \<in> {HostClosed, HostClosing, HostFailed}")
  case True
  then show ?thesis using assms by (simp add: failHost_def)
next
  case False
  let ?h0 = "h1\<lparr>ho_state := HostFailed, ho_spawnTimeout := False, ho_killed := True\<rparr>"
  have "failHost e h1 = drop_all e ?h0" using False by (simp add: failHost_def drop_all_def)
  moreover have "ho_state (drop_all e ?h0) = HostFailed"
    by (cases "ho_active h1"; cases "job_settled (the (ho_active h1)) h1")
      (simp_all add: drop_all_def settle_active_def settleJobError_def rejectPending_def settle_job_def rejectGeneration_def)
  ultimately show ?thesis using goes_drop [OF assms, of ?h0 "failHost e h1" e] by simp
qed

lemma process_closed_goes:
  assumes "goes h h1"
  shows "goes h (process_closed h1)"
  by (rule goes_drop [OF assms, of "h1\<lparr>ho_spawnTimeout := False\<rparr>" _ "''Codex app-server closed before turn completion''"])
    (simp_all add: process_closed_def drop_all_def host_emitLifecycle_def Let_def)

lemma job_error_goes:
  assumes "goes h h1" and "current g h1"
  shows "goes h (settleJobError g e True h1)"
proof (rule goes_trans [OF goes_frame assms(1)])
  let ?h2 = "settleJobError g e True h1"
  assume ok: "host_ok h1"
  have g: "\<not> job_settled g h1" "ho_active h1 = Some g" "hj_result (ho_jobs h1 ! g) = None"
    using assms(2) by (simp_all add: current_def job_settled_def)
  have u: "pending_ok (upd_job g (failed_job e) h1)"
    using pending_ok_cong [of "upd_job g (failed_job e) h1" h1] host_okD(2) [OF ok] by simp
  have eq: "?h2 = (reject_requests (\<lambda>n. n = Suc g) e (upd_job g (failed_job e) h1))
      \<lparr>ho_active := None, ho_state := (if ho_state h1 = HostTurnActive then HostReady else ho_state h1)\<rparr>"
    using g by (simp add: settle_error_eq rejectGeneration_def)
  show "list_all2 job_kept (ho_jobs h1) (ho_jobs ?h2)"
    unfolding eq using failed_job_kept [OF g(3)] by (simp add: list_all2_update)
  show "list_all2 request_kept (ho_requests h1) (ho_requests ?h2)"
    unfolding eq using reject_kept [OF u, of "\<lambda>n. n = Suc g" e] by simp
  show "jobs_ok ?h2"
    by (rule failed_ok [OF host_okD(1) [OF ok] g(2), of _ "failed_job e (ho_jobs h1 ! g)"]) (simp_all add: eq failed_job_def)
  have "pending_ok (reject_requests (\<lambda>n. n = Suc g) e (upd_job g (failed_job e) h1))" by (rule reject_pending_ok [OF u])
  then show "pending_ok ?h2"
    by (rule pending_ok_state)
      (use current_job(3) [OF host_okD(1) [OF ok] assms(2)] in \<open>auto simp: eq split: if_splits\<close>)
qed

text \<open>A turn is completed.\<close>

lemma job_result_goes:
  assumes "goes h h1" and "hj_turnId (ho_jobs h1 ! g) = Some (ht_turnId r)" and "g < length (ho_jobs h1)"
  shows "goes h (settleJobResult g r h1)"
proof (cases "job_settled g h1")
  case True
  then show ?thesis using assms(1) by (simp add: settleJobResult_def)
next
  case False
  let ?h2 = "settleJobResult g r h1"
  let ?f = "\<lambda>j. j\<lparr>hj_result := Some (Inr r), hj_stage := Settled, hj_timeout := False, hj_inactivityTimeout := False\<rparr>"
  have eq: "?h2 = (upd_job g ?f h1)\<lparr>ho_active := (if ho_active h1 = Some g then None else ho_active h1),
      ho_state := (if ho_state h1 = HostTurnActive then HostReady else ho_state h1)\<rparr>"
    using False by (simp add: settleJobResult_def settle_job_def)
  show ?thesis
  proof (rule goes_trans [OF goes_frame assms(1)])
    assume ok: "host_ok h1"
    have none: "hj_result (ho_jobs h1 ! g) = None" using False by (simp add: job_settled_def)
    then have active: "ho_active h1 = Some g" using host_okD(1) [OF ok] assms(3) unfolding jobs_ok_def by blast
    show "list_all2 job_kept (ho_jobs h1) (ho_jobs ?h2)"
      unfolding eq using none assms(2) by (simp add: list_all2_update job_kept_def)
    show "list_all2 request_kept (ho_requests h1) (ho_requests ?h2)" unfolding eq by (simp add: list_all2_same)
    show "jobs_ok ?h2"
      by (rule failed_ok [OF host_okD(1) [OF ok] active, of _ "?f (ho_jobs h1 ! g)"]) (simp_all add: eq active)
    show "pending_ok ?h2"
      by (rule pending_ok_state [OF host_okD(2) [OF ok]])
        (use host_okD(2) [OF ok] in \<open>auto simp: eq pending_ok_def split: if_splits\<close>)
  qed
qed

text \<open>A request breaks, and a response arrives.\<close>

lemma break_goes:
  assumes "goes h h1"
  shows "goes h (break_request k e h1)"
  unfolding break_request_def
proof (rule failHost_goes, rule goes_trans [OF goes_frame assms])
  let ?h2 = "upd_request k (\<lambda>q. q\<lparr>hq_error := Some e\<rparr>) (h1\<lparr>ho_pending := map_del (host_id k) (ho_pending h1)\<rparr>)"
  assume ok: "host_ok h1"
  show "list_all2 job_kept (ho_jobs h1) (ho_jobs ?h2)" by (simp add: list_all2_same)
  show "list_all2 request_kept (ho_requests h1) (ho_requests ?h2)" by (simp add: list_all2_update request_kept_def)
  show "jobs_ok ?h2" using jobs_ok_cong [of ?h2 h1] host_okD(1) [OF ok] by simp
  show "pending_ok ?h2"
    by (rule pending_ok_remove [OF host_okD(2) [OF ok], of _ k "(ho_requests h1 ! k)\<lparr>hq_error := Some e\<rparr>"])
      (simp_all add: unanswered_def)
qed

lemma answered_goes:
  assumes "goes h h1" and "map_of (ho_pending h1) s = Some k"
  shows "goes h (upd_request k (\<lambda>q. q\<lparr>hq_response := Some r\<rparr>) (h1\<lparr>ho_pending := map_del s (ho_pending h1)\<rparr>))"
    (is "goes h ?h2")
proof (rule goes_trans [OF goes_frame assms(1)])
  assume ok: "host_ok h1"
  have k: "s = host_id k" "hq_response (ho_requests h1 ! k) = None"
    using host_okD(2) [OF ok] map_of_SomeD [OF assms(2)] by (simp_all add: pending_ok_def unanswered_def)
  show "list_all2 job_kept (ho_jobs h1) (ho_jobs ?h2)" by (simp add: list_all2_same)
  show "list_all2 request_kept (ho_requests h1) (ho_requests ?h2)" using k by (simp add: list_all2_update request_kept_def)
  show "jobs_ok ?h2" using jobs_ok_cong [of ?h2 h1] host_okD(1) [OF ok] by simp
  show "pending_ok ?h2"
    by (rule pending_ok_remove [OF host_okD(2) [OF ok], of _ k "(ho_requests h1 ! k)\<lparr>hq_response := Some r\<rparr>"])
      (simp_all add: unanswered_def k)
qed

lemma write_goes:
  assumes "goes h h1"
  shows "goes h (writeMessage message use h1)"
  unfolding writeMessage_def Let_def
  by (auto intro!: failHost_goes goes_same [OF assms])

text \<open>A new request of a job that is current\<close>

definition pushed :: "string \<Rightarrow> json \<Rightarrow> nat \<Rightarrow> request_use \<Rightarrow> host \<Rightarrow> host" where
  "pushed method params generation use h =
     h\<lparr>ho_pending := map_put (host_id (length (ho_requests h))) (length (ho_requests h)) (ho_pending h),
       ho_requests := ho_requests h @
         [\<lparr>hq_method = method, hq_params = params, hq_generation = generation, hq_use = use, hq_written = False,
           hq_error = None, hq_response = None\<rparr>]\<rparr>"

lemma send_request_eq:
  "send_request method params generation use h =
     writeMessage (JObj [(''id'', JStr (host_id (length (ho_requests h)))), (''method'', JStr method), (''params'', params)])
       (ForRequest (length (ho_requests h))) (pushed method params generation use h)"
  by (simp add: send_request_def pushed_def Let_def)

definition ask_ok :: "request_use \<Rightarrow> nat \<Rightarrow> host_job \<Rightarrow> host_job \<Rightarrow> bool" where
  "ask_ok use k j j' \<longleftrightarrow>
     hj_result j' = hj_result j \<and> hj_turnId j' = hj_turnId j \<and> hj_cancelRequested j' = hj_cancelRequested j \<and>
     (before_turn (hj_at j') \<longrightarrow> before_turn (hj_at j)) \<and>
     (case use of
        UseTurn \<Rightarrow> before_turn (hj_at j) \<and> hj_at j' = AtTurn k \<and> \<not> hj_cancelRequested j \<and>
          hj_interruptRequested j' = hj_interruptRequested j
      | UseInterrupt \<Rightarrow> hj_at j' = hj_at j \<and> \<not> hj_interruptRequested j \<and> hj_interruptRequested j'
      | _ \<Rightarrow> (\<forall>n. hj_at j' = AtTurn n \<longrightarrow> hj_at j = AtTurn n) \<and> hj_interruptRequested j' = hj_interruptRequested j)"

lemma pushed_simps [simp]:
  "ho_jobs (pushed m params n use h) = ho_jobs h" "ho_active (pushed m params n use h) = ho_active h"
  "ho_state (pushed m params n use h) = ho_state h"
  "ho_requests (pushed m params n use h) = ho_requests h @
     [\<lparr>hq_method = m, hq_params = params, hq_generation = n, hq_use = use, hq_written = False, hq_error = None, hq_response = None\<rparr>]"
  "ho_pending (pushed m params n use h) = map_put (host_id (length (ho_requests h))) (length (ho_requests h)) (ho_pending h)"
  by (simp_all add: pushed_def)

lemma asked_pushed [simp]:
  "asked u g (pushed m params n use h) = asked u g h + (if u = use \<and> n = Suc g then 1 else 0)"
  by (simp add: asked_def)

lemma asked_upd_job [simp]: "asked u g (upd_job n f h) = asked u g h"
  by (simp add: asked_def)

lemma pushed_pending_ok:
  assumes "pending_ok h" and "ho_state h \<notin> {HostFailed, HostClosed}"
  shows "pending_ok (pushed m params n use h)"
proof -
  have fresh: "host_id (length (ho_requests h)) \<notin> fst ` set (ho_pending h)" using assms(1) by (auto simp: pending_ok_def)
  show ?thesis
    using assms by (auto simp: pending_ok_def map_put_absent [OF fresh] nth_append unanswered_def less_Suc_eq)
      (simp_all add: map_put_absent [OF fresh, symmetric])
qed

lemma pushed_turn_ok:
  assumes "turn_ok n h" and "ho_jobs h' ! n = j" and "\<And>u. asked u n h' = asked u n h"
    and "ho_requests h' = ho_requests h @ [q]" and "hj_at j = hj_at (ho_jobs h ! n)"
    and "hj_turnId j = hj_turnId (ho_jobs h ! n)" and "hj_result j = hj_result (ho_jobs h ! n)"
    and "hj_interruptRequested j = hj_interruptRequested (ho_jobs h ! n)"
  shows "turn_ok n h'"
proof -
  have "turn_answered n u h \<Longrightarrow> turn_answered n u h'" for u using assms(4) by (auto simp: turn_answered_def)
  then show ?thesis using assms by (auto simp: turn_ok_def Let_def nth_append)
qed

lemma asked_turn_ok:
  assumes "turn_ok g h" and "ask_ok use (length (ho_requests h)) (ho_jobs h ! g) j" and "ho_jobs h' ! g = j"
    and "ho_requests h' = ho_requests h @ [q]" and "hq_use q = use" and "hq_generation q = Suc g"
  shows "turn_ok g h'"
proof -
  let ?j = "ho_jobs h ! g"
  have asked: "asked u g h' = asked u g h + (if u = use then 1 else 0)" for u
    by (simp add: asked_def assms(4-6))
  have t: "asked UseTurn g h \<le> 1" "before_turn (hj_at ?j) \<longrightarrow> asked UseTurn g h = 0"
      "asked UseInterrupt g h \<le> (if hj_interruptRequested ?j then 1 else 0)"
      "\<And>k. hj_at ?j = AtTurn k \<Longrightarrow> k < length (ho_requests h) \<and> hq_use (ho_requests h ! k) = UseTurn \<and>
        hq_generation (ho_requests h ! k) = Suc g"
      "\<And>u. hj_turnId ?j = Some u \<Longrightarrow> turn_answered g u h"
      "\<And>r. hj_result ?j = Some (Inr r) \<Longrightarrow> hj_turnId ?j = Some (ht_turnId r)"
    using assms(1) by (simp_all add: turn_ok_def Let_def)
  have same: "hj_result j = hj_result ?j" "hj_turnId j = hj_turnId ?j" "before_turn (hj_at j) \<longrightarrow> before_turn (hj_at ?j)"
    using assms(2) by (simp_all add: ask_ok_def)
  have "asked UseTurn g h' \<le> 1" using t(1,2) assms(2) by (cases "use = UseTurn") (simp_all add: asked ask_ok_def)
  moreover have "asked UseTurn g h' = 0" if "before_turn (hj_at j)"
    using that t(2) same(3) assms(2) by (cases "use = UseTurn") (simp_all add: asked ask_ok_def before_turn_def)
  moreover have "asked UseInterrupt g h' \<le> (if hj_interruptRequested j then 1 else 0)"
    using t(3) assms(2) by (cases use) (simp_all add: asked ask_ok_def)
  moreover have "k < length (ho_requests h') \<and> hq_use (ho_requests h' ! k) = UseTurn \<and> hq_generation (ho_requests h' ! k) = Suc g"
    if k: "hj_at j = AtTurn k" for k
  proof (cases "use = UseTurn")
    case True
    then have "k = length (ho_requests h)" using k assms(2) by (simp add: ask_ok_def)
    then show ?thesis using True assms(4-6) by simp
  next
    case False
    then have "hj_at ?j = AtTurn k" using k assms(2) by (cases use) (simp_all add: ask_ok_def)
    then show ?thesis using t(4) [of k] assms(4) by (simp add: nth_append)
  qed
  moreover have "turn_answered g u h'" if "hj_turnId j = Some u" for u
    using t(5) [of u] that same(2) assms(4) by (auto simp: turn_answered_def)
  ultimately show ?thesis using t(6) same(1,2) by (simp add: turn_ok_def Let_def assms(3))
qed

lemma ask_goes:
  assumes "goes h h1" and "use_ok m use" and "current g h1" and "ask_ok use (length (ho_requests h1)) (ho_jobs h1 ! g) (f (ho_jobs h1 ! g))"
  shows "goes h (send_request m params (Suc g) use (upd_job g f h1))"
  unfolding send_request_eq
proof (rule write_goes, rule goes_trans [OF _ assms(1)], unfold goes_def, rule impI)
  let ?h2 = "pushed m params (Suc g) use (upd_job g f h1)"
  let ?j = "ho_jobs h1 ! g" and ?k = "length (ho_requests h1)"
  assume ok: "host_ok h1"
  note g = current_job [OF host_okD(1) [OF ok] assms(3)]
  have ask: "hj_result (f ?j) = hj_result ?j" "hj_turnId (f ?j) = hj_turnId ?j"
      "hj_cancelRequested (f ?j) = hj_cancelRequested ?j" "before_turn (hj_at (f ?j)) \<Longrightarrow> before_turn (hj_at ?j)"
    using assms(4) by (simp_all add: ask_ok_def)
  have "jobs_ok ?h2"
    by (rule jobs_ok_results [OF host_okD(1) [OF ok]]) (simp_all add: map_result_update ask)
  moreover have "pending_ok ?h2"
    using g(3) host_okD(2) [OF ok] by (intro pushed_pending_ok) (auto simp: pending_ok_def)
  moreover have "\<forall>q \<in> set (ho_requests ?h2). hq_generation q \<le> length (ho_jobs ?h2) \<and> use_ok (hq_method q) (hq_use q)"
    using ok g(1) assms(2) by (auto simp: host_ok_def)
  moreover have "turn_ok n ?h2" if n: "n < length (ho_jobs h1)" for n
  proof (cases "n = g")
    case False
    have tn: "turn_ok n h1" using ok n by (simp add: host_ok_def)
    show ?thesis by (rule pushed_turn_ok [OF tn refl]) (simp_all add: False False [symmetric])
  next
    case True
    have tg: "turn_ok g h1" using ok g(1) by (simp add: host_ok_def)
    have "turn_ok g ?h2" by (rule asked_turn_ok [OF tg assms(4)]) (simp add: g(1))+
    then show ?thesis using True by simp
  qed
  ultimately have "host_ok ?h2" by (simp add: host_ok_def)
  moreover have "use = UseTurn \<Longrightarrow> \<not> hj_cancelRequested ?j" using assms(4) by (simp add: ask_ok_def)
  then have "host_moves h1 ?h2" using g(1) by (auto simp: host_moves_def ask(1-3) nth_append nth_list_update)
  ultimately show "host_ok ?h2 \<and> host_moves h1 ?h2" ..
qed

text \<open>The turn gets its id.\<close>

lemma turn_id_goes:
  assumes "goes h h1" and "hj_at (ho_jobs h1 ! g) = AtTurn k" and "request_outcome (ho_requests h1 ! k) = Some (Inr v)"
    and "response_id ''turn'' v = Some u" and "current g h1"
  shows "goes h (upd_job g (\<lambda>j. j\<lparr>hj_turnId := Some u, hj_stage := TurnIsActive, hj_at := AtEnd\<rparr>) h1)" (is "goes h ?h2")
proof (rule goes_trans [OF _ assms(1)], unfold goes_def, rule impI)
  assume ok: "host_ok h1"
  note g = current_job [OF host_okD(1) [OF ok] assms(5)]
  have t: "turn_ok g h1" using ok g(1) by (simp add: host_ok_def)
  have q: "k < length (ho_requests h1)" "hq_use (ho_requests h1 ! k) = UseTurn" "hq_generation (ho_requests h1 ! k) = Suc g"
    using t assms(2) by (simp_all add: turn_ok_def Let_def)
  have "hq_written (ho_requests h1 ! k) \<and> hq_response (ho_requests h1 ! k) = Some (Inr v)"
    using assms(3) by (simp add: request_outcome_def split: option.splits if_splits)
  then have "turn_answered g u ?h2" using q assms(4) nth_mem unfolding turn_answered_def by fastforce
  moreover have "turn_answered n x ?h2 = turn_answered n x h1" for n x by (simp add: turn_answered_def)
  ultimately have "turn_ok n ?h2" if "n < length (ho_jobs h1)" for n
    using ok that g t by (cases "n = g") (simp_all add: turn_ok_def Let_def host_ok_def before_turn_def)
  moreover have "jobs_ok ?h2" by (rule jobs_ok_results [OF host_okD(1) [OF ok]]) (simp_all add: map_result_update)
  moreover have "pending_ok ?h2" using host_okD(2) [OF ok] by (simp add: pending_ok_def)
  moreover have "host_moves h1 ?h2" using g(1) by (simp add: host_moves_def nth_list_update)
  ultimately show "host_ok ?h2 \<and> host_moves h1 ?h2" using ok by (simp add: host_ok_def)
qed

text \<open>A new job, and the states of the host\<close>

lemma run_goes:
  assumes "host_run i h = Inr h'"
  shows "goes h h'"
  unfolding goes_def
proof
  assume ok: "host_ok h"
  obtain j where h': "h' = h\<lparr>ho_jobs := ho_jobs h @ [j], ho_active := Some (length (ho_jobs h)), ho_state := HostTurnActive\<rparr>"
    and idle: "ho_active h = None" "ho_state h \<notin> {HostClosing, HostFailed, HostClosed}"
    and j: "hj_result j = None" "hj_turnId j = None" "hj_at j = AtInitialize"
    using assms unfolding host_run_def by (auto split: if_splits)
  have "hj_result (ho_jobs h ! g) \<noteq> None" if "g < length (ho_jobs h)" for g
    using host_okD(1) [OF ok] that idle(1) unfolding jobs_ok_def by auto
  then have "jobs_ok h'" by (auto simp: jobs_ok_def h' j nth_append less_Suc_eq)
  moreover have "pending_ok h'" using host_okD(2) [OF ok] by (simp add: pending_ok_def h')
  moreover have gen: "\<forall>q \<in> set (ho_requests h). hq_generation q \<le> length (ho_jobs h) \<and> use_ok (hq_method q) (hq_use q)" using ok by (simp add: host_ok_def)
  moreover have asked: "asked u g h' = asked u g h" for u g by (simp add: asked_def h')
  moreover have "turn_ok g h'" if "g < length (ho_jobs h')" for g
  proof (cases "g = length (ho_jobs h)")
    case True
    have "asked u g h = 0" for u using gen True by (auto simp: asked_def filter_empty_conv)
    then show ?thesis by (simp add: turn_ok_def Let_def asked j h' True) (simp add: asked_def)
  next
    case False
    then have g: "g < length (ho_jobs h)" using that by (simp add: h')
    then have "turn_ok g h" using ok by (simp add: host_ok_def)
    moreover have "turn_answered g u h' = turn_answered g u h" for u by (simp add: turn_answered_def h')
    moreover have "ho_jobs h' ! g = ho_jobs h ! g" "ho_requests h' = ho_requests h" using g by (simp_all add: h' nth_append)
    ultimately show ?thesis by (simp add: turn_ok_def Let_def asked)
  qed
  ultimately have "host_ok h'" by (auto simp: host_ok_def h')
  moreover have "host_moves h h'" by (simp add: host_moves_def asked) (simp add: h' nth_append)
  ultimately show "host_ok h' \<and> host_moves h h'" ..
qed

lemma state_goes:
  assumes "goes h h1" and "ho_jobs h2 = ho_jobs h1" and "ho_requests h2 = ho_requests h1"
    and "ho_pending h2 = ho_pending h1" and "ho_active h2 = ho_active h1"
    and "ho_state h2 = HostClosing \<or> ho_state h1 = HostStarting \<and> ho_state h2 = HostReady"
  shows "goes h h2"
proof (rule goes_trans [OF goes_frame assms(1)])
  assume ok: "host_ok h1"
  show "list_all2 job_kept (ho_jobs h1) (ho_jobs h2)" "list_all2 request_kept (ho_requests h1) (ho_requests h2)"
    using assms(2,3) by (simp_all add: list_all2_same)
  have none: "ho_active h1 = Some g" if "g < length (ho_jobs h1)" "hj_result (ho_jobs h1 ! g) = None" for g
    using host_okD(1) [OF ok] that unfolding jobs_ok_def by blast
  have active: "g < length (ho_jobs h1) \<and> hj_result (ho_jobs h1 ! g) = None \<and> ho_state h1 \<in> {HostTurnActive, HostClosing}"
    if "ho_active h1 = Some g" for g using host_okD(1) [OF ok] that unfolding jobs_ok_def by blast
  have "ho_state h2 \<noteq> HostTurnActive" "ho_active h1 \<noteq> None \<Longrightarrow> ho_state h2 = HostClosing" using active assms(6) by auto
  then show "jobs_ok h2" using none active unfolding jobs_ok_def assms(2,5) by blast
  show "pending_ok h2" by (rule pending_ok_state [OF host_okD(2) [OF ok] assms(3,4)]) (use assms(6) in auto)
qed

lemma close_goes: "goes h (host_close h)"
  unfolding host_close_def
  by (auto intro: goes_same [OF goes_refl] state_goes [OF goes_refl])

lemma new_host_ok: "host_ok (new_host pid spawnTimeout)"
proof -
  let ?h = "new_host pid spawnTimeout"
  have "ho_jobs ?h = [] \<and> ho_active ?h = None \<and> ho_state ?h = HostStarting \<and> ho_pending ?h = [(host_id 0, 0)] \<and>
      (\<exists>q. ho_requests ?h = [q] \<and> hq_generation q = 0 \<and> unanswered q \<and> use_ok (hq_method q) (hq_use q))"
    by (simp add: new_host_def send_request_eq writeMessage_def Let_def pushed_def unanswered_def use_ok_def)
  then show ?thesis by (auto simp: host_ok_def jobs_ok_def pending_ok_def keys_distinct_def)
qed

section \<open>Operations\<close>

lemma upd_job_current [simp]:
  assumes "hj_result (f (ho_jobs h ! g)) = hj_result (ho_jobs h ! g)"
  shows "current n (upd_job g f h) \<longleftrightarrow> current n h"
  using assms by (cases "n = g"; cases "g < length (ho_jobs h)") (simp_all add: current_def job_settled_def list_update_beyond)

lemma quiet_goes:
  assumes "goes h h1" and "hj_result (f (ho_jobs h1 ! g)) = hj_result (ho_jobs h1 ! g)"
    and "hj_turnId (f (ho_jobs h1 ! g)) = hj_turnId (ho_jobs h1 ! g)"
    and "hj_interruptRequested (f (ho_jobs h1 ! g)) = hj_interruptRequested (ho_jobs h1 ! g)"
    and "hj_cancelRequested (ho_jobs h1 ! g) \<Longrightarrow> hj_cancelRequested (f (ho_jobs h1 ! g))"
    and "hj_at (f (ho_jobs h1 ! g)) = hj_at (ho_jobs h1 ! g) \<or> hj_at (f (ho_jobs h1 ! g)) = AtEnd \<or>
      before_turn (hj_at (ho_jobs h1 ! g)) \<and> before_turn (hj_at (f (ho_jobs h1 ! g)))"
  shows "goes h (upd_job g f h1)"
proof (rule goes_job [OF assms(1)])
  show "hj_result (f (ho_jobs h1 ! g)) = hj_result (ho_jobs h1 ! g)" by (rule assms(2))
  show "job_kept (ho_jobs h1 ! g) (f (ho_jobs h1 ! g))"
    using assms(2-6) by (auto simp: job_kept_def before_turn_def)
qed

lemma stage_goes:
  "goes h h1 \<Longrightarrow> goes h (upd_job g (\<lambda>j. j\<lparr>hj_stage := x\<rparr>) h1)"
  "goes h h1 \<Longrightarrow> goes h (upd_job g (\<lambda>j. j\<lparr>hj_at := AtEnd\<rparr>) h1)"
  by (erule quiet_goes; simp)+

lemma job_fails_goes:
  assumes "goes h h1"
  shows "goes h (job_fails g e h1)"
proof -
  have "current g (upd_job g (\<lambda>j. j\<lparr>hj_at := AtEnd\<rparr>) h1) = current g h1" by simp
  then show ?thesis
    using stage_goes(2) [OF assms, of g] by (simp add: job_fails_def Let_def failHost_goes job_error_goes)
qed

lemma if_current_goes:
  "goes h h1 \<Longrightarrow> (current g h1 \<Longrightarrow> goes h (f h1)) \<Longrightarrow> goes h (if_current g f h1)"
  by (simp add: if_current_def stage_goes)

lemma unless_canceled_goes:
  "goes h h1 \<Longrightarrow> goes h (f h1) \<Longrightarrow> goes h (unless_canceled g f h1)"
  by (simp add: unless_canceled_def job_fails_goes)

text \<open>A job that waits before its turn, and is current\<close>

definition goes_on :: "nat \<Rightarrow> host \<Rightarrow> bool" where
  "goes_on g h \<longleftrightarrow> current g h \<and> g < length (ho_jobs h) \<and> before_turn (hj_at (ho_jobs h ! g))"

lemma goes_on_upd [simp]:
  assumes "hj_result (f (ho_jobs h ! g)) = hj_result (ho_jobs h ! g)" and "hj_at (f (ho_jobs h ! g)) = hj_at (ho_jobs h ! g)"
  shows "goes_on g (upd_job g f h) \<longleftrightarrow> goes_on g h"
  using assms unfolding goes_on_def by auto

lemma goes_on_same:
  "ho_jobs h' = ho_jobs h \<Longrightarrow> ho_active h' = ho_active h \<Longrightarrow> goes_on g h' \<longleftrightarrow> goes_on g h"
  by (simp add: goes_on_def current_def job_settled_def)

lemma job_request_goes:
  assumes "goes h h1" and "goes_on g h1" and "use_ok m use"
    and "use = UseTurn \<Longrightarrow> \<not> hj_cancelRequested (ho_jobs h1 ! g)"
    and "use \<noteq> UseInterrupt" and "use = UseTurn \<Longrightarrow> at_point = AtTurn"
    and "use \<noteq> UseTurn \<Longrightarrow> (\<forall>k n. at_point k \<noteq> AtTurn n)"
  shows "goes h (job_request g m params use at_point h1)"
  unfolding job_request_def
proof (rule ask_goes [OF assms(1,3)])
  show "current g h1" using assms(2) by (simp add: goes_on_def)
  show "ask_ok use (length (ho_requests h1)) (ho_jobs h1 ! g) ((ho_jobs h1 ! g)\<lparr>hj_at := at_point (length (ho_requests h1))\<rparr>)"
    using assms by (cases use) (simp_all add: ask_ok_def goes_on_def before_turn_def)
qed

lemma job_thread_goes:
  assumes "goes h h1" and "goes_on g h1"
  shows "goes h (job_thread X g h1)"
  unfolding job_thread_def Let_def
  by (rule job_request_goes) (use assms in \<open>simp_all add: stage_goes use_ok_def\<close>)

lemma job_turn_goes:
  assumes "goes h h1" and "goes_on g h1"
  shows "goes h (job_turn g h1)"
proof (cases "hj_cancelRequested (ho_jobs h1 ! g)")
  case True
  then show ?thesis by (simp add: job_turn_def job_fails_goes stage_goes assms(1))
next
  case False
  then have "\<not> hj_cancelRequested (ho_jobs (upd_job g (\<lambda>j. j\<lparr>hj_stage := TurnStarting\<rparr>) h1) ! g)"
    using assms(2) by (simp add: goes_on_def)
  then show ?thesis
    using False by (simp add: job_turn_def) (rule job_request_goes, simp_all add: stage_goes use_ok_def assms)
qed

lemma job_mcp_goes:
  assumes "goes h h1" and "goes_on g h1"
  shows "goes h (job_mcp g h1)"
proof -
  have "goes h (upd_job g (\<lambda>j. j\<lparr>hj_stage := McpWaiting, hj_at := AtMcp\<rparr>) h1)"
    by (rule quiet_goes [OF assms(1)]) (use assms(2) in \<open>simp_all add: goes_on_def before_turn_def\<close>)
  then show ?thesis using job_turn_goes [OF assms] by (simp add: job_mcp_def)
qed

lemma job_refresh_goes:
  assumes "goes h h1" and "goes_on g h1"
  shows "goes h (job_refresh g h1)"
proof -
  have "goes h (job_request g ''config/mcpServer/reload'' JUndefined UseReload AtReload
      (upd_job g (\<lambda>j. j\<lparr>hj_stage := McpRefreshing, hj_statuses := s j\<rparr>) h1))" for s
    by (rule job_request_goes) (use assms in \<open>simp_all add: quiet_goes use_ok_def\<close>)
  then show ?thesis using job_mcp_goes [OF assms] by (simp add: job_refresh_def Let_def)
qed

lemma job_gate_goes:
  assumes "goes h h1" and "goes_on g h1"
  shows "goes h (job_gate X g h1)"
proof -
  have "goes h (upd_job g (\<lambda>j. j\<lparr>hj_at := AtGate\<rparr>) h1)"
    by (rule quiet_goes [OF assms(1)]) (use assms(2) in \<open>simp_all add: goes_on_def before_turn_def\<close>)
  then show ?thesis using job_thread_goes [OF assms] by (simp add: job_gate_def)
qed

lemma waiting_goes_on:
  "current g h \<Longrightarrow> g < length (ho_jobs h) \<Longrightarrow> before_turn (hj_at (ho_jobs h ! g)) \<Longrightarrow> goes_on g h"
  by (simp add: goes_on_def)

lemma after_initialize_goes:
  assumes "g < length (ho_jobs h)" and "hj_at (ho_jobs h ! g) = AtInitialize"
  shows "goes h (after_initialize X g r h)"
  using assms
  by (auto simp: after_initialize_def before_turn_def split: sum.split
      intro!: job_fails_goes if_current_goes unless_canceled_goes job_gate_goes waiting_goes_on)

lemma after_gate_goes:
  assumes "g < length (ho_jobs h)" and "hj_at (ho_jobs h ! g) = AtGate"
  shows "goes h (after_gate X g error h)"
proof -
  have "goes h (h\<lparr>ho_gatePassed := True\<rparr>)" by (rule goes_same [OF goes_refl]) simp_all
  then show ?thesis
    using assms
    by (auto simp: after_gate_def before_turn_def split: option.split
        intro!: job_fails_goes if_current_goes unless_canceled_goes job_thread_goes waiting_goes_on)
qed

text \<open>The thread of a job is not looked at.\<close>

lemma after_thread_goes:
  assumes "g < length (ho_jobs h)" and "hj_at (ho_jobs h ! g) = AtThread k"
  shows "goes h (after_thread g r h)"
proof -
  have "goes h (upd_job g (\<lambda>j. j\<lparr>hj_threadId := None\<rparr>) h)" by (rule quiet_goes) simp_all
  moreover have "goes h (upd_job g (\<lambda>j. j\<lparr>hj_threadId := Some t, hj_at := AtThreadStarted\<rparr>) h)" for t
    by (rule quiet_goes) (simp_all add: assms before_turn_def)
  ultimately show ?thesis
    by (auto simp: after_thread_def split: sum.split option.split intro!: job_fails_goes if_current_goes)
qed

lemma after_started_goes:
  assumes "g < length (ho_jobs h)" and "hj_at (ho_jobs h ! g) = AtThreadStarted"
  shows "goes h (after_started g error h)"
  using assms
  by (auto simp: after_started_def before_turn_def split: option.split
      intro!: job_fails_goes if_current_goes job_refresh_goes waiting_goes_on)

lemma after_reload_goes:
  assumes "g < length (ho_jobs h)" and "hj_at (ho_jobs h ! g) = AtReload k"
  shows "goes h (after_reload g r h)"
proof -
  let ?h1 = "host_emitLifecycle ''mcp_refreshed'' (Some (Suc g)) (h\<lparr>ho_lastManifestKey := ti_manifestKey (hj_input (ho_jobs h ! g))\<rparr>)"
  have "goes h ?h1" by (rule goes_same [OF goes_refl]) (simp_all add: host_emitLifecycle_def)
  moreover have "current g h \<Longrightarrow> goes_on g ?h1"
    using assms by (simp add: goes_on_def current_def job_settled_def host_emitLifecycle_def before_turn_def)
  ultimately show ?thesis
    by (auto simp: after_reload_def split: sum.split intro!: job_fails_goes if_current_goes job_mcp_goes)
qed

lemma after_mcp_goes:
  assumes "g < length (ho_jobs h)" and "hj_at (ho_jobs h ! g) = AtMcp"
  shows "goes h (after_mcp g expired h)"
proof -
  let ?h1 = "host_emitLifecycle ''mcp_startup_wait_timed_out'' (Some (Suc g)) h"
  have "goes h ?h1" by (rule goes_same [OF goes_refl]) (simp_all add: host_emitLifecycle_def)
  moreover have "current g h \<Longrightarrow> goes_on g h" using assms by (simp add: goes_on_def before_turn_def)
  moreover have "goes_on g ?h1 = goes_on g h" by (rule goes_on_same) (simp_all add: host_emitLifecycle_def)
  ultimately show ?thesis
    by (auto simp: after_mcp_def intro!: if_current_goes job_turn_goes)
qed

lemma interrupt_goes:
  assumes "goes h h1"
  shows "goes h (interruptJob g h1)"
proof -
  let ?f = "\<lambda>j. j\<lparr>hj_interruptRequested := True, hj_stage := Interrupting\<rparr>"
  have "goes h (send_request ''turn/interrupt'' params (Suc g) UseInterrupt (upd_job g ?f h1))"
    if "current g h1" "\<not> hj_interruptRequested (ho_jobs h1 ! g)" for params
    by (rule ask_goes [OF assms _ that(1)]) (simp_all add: ask_ok_def use_ok_def that(2))
  then show ?thesis using assms by (auto simp: interruptJob_def split: option.split)
qed

lemma after_turn_goes:
  assumes "hj_at (ho_jobs h ! g) = AtTurn k" and "request_outcome (ho_requests h ! k) = Some r"
  shows "goes h (after_turn g r h)"
proof -
  have "goes h (upd_job g (\<lambda>j. j\<lparr>hj_turnId := Some u, hj_stage := TurnIsActive, hj_at := AtEnd\<rparr>) h)"
    if "r = Inr v" "response_id ''turn'' v = Some u" "current g h" for v u
    by (rule turn_id_goes [OF goes_refl assms(1) _ that(2,3)]) (simp add: assms(2) that(1))
  then show ?thesis
    by (auto simp: after_turn_def Let_def split: sum.split option.split
        intro!: job_fails_goes if_current_goes interrupt_goes)
qed

lemma cancel_goes: "goes h (host_cancel g h)"
proof -
  have "goes h (upd_job g (\<lambda>j. j\<lparr>hj_cancelRequested := True\<rparr>) h)" by (rule quiet_goes) simp_all
  then show ?thesis by (auto simp: host_cancel_def Let_def intro!: interrupt_goes)
qed

lemma write_callback_goes: "goes h (write_callback w error h)"
proof -
  have "goes h (upd_write w f h)" for f by (rule goes_same [OF goes_refl]) simp_all
  then show ?thesis by (auto simp: write_callback_def split: option.split intro!: failHost_goes)
qed

lemma request_written_goes:
  assumes "goes h h1"
  shows "goes h (request_written k callback h1)"
proof -
  have "goes h (upd_job g (\<lambda>j. j\<lparr>hj_turnStartWritten := True, hj_stage := TurnStartWritten\<rparr>) h1)" for g
    by (rule quiet_goes [OF assms]) simp_all
  then show ?thesis
    using assms
    by (auto simp: request_written_def Let_def split: option.split intro!: goes_written break_goes)
qed

lemma stdout_throws_goes:
  assumes "goes h h1"
  shows "goes h (stdout_throws e h1)"
proof -
  have "goes h (h1\<lparr>ho_lines := [], ho_handling := None\<rparr>)" by (rule goes_same [OF assms]) simp_all
  then show ?thesis by (auto simp: stdout_throws_def Let_def intro!: failHost_goes)
qed

lemma initialized_goes:
  assumes "goes h h1"
  shows "goes h (host_emitLifecycle e n
    (h1\<lparr>ho_initialized := Some r, ho_state := (if ho_state h1 = HostStarting then HostReady else ho_state h1)\<rparr>))"
proof (cases "ho_state h1 = HostStarting")
  case True
  then show ?thesis by (intro state_goes [OF assms]) (simp_all add: host_emitLifecycle_def)
next
  case False
  then show ?thesis by (intro goes_same [OF assms]) (simp_all add: host_emitLifecycle_def)
qed

lemma write_continues_goes: "goes h (write_continues w r callback h)"
proof -
  let ?h = "upd_write w (\<lambda>x. x\<lparr>hw_handled := True\<rparr>) h"
  have h: "goes h ?h" by (rule goes_same [OF goes_refl]) simp_all
  have rest: "goes h (?h\<lparr>ho_initialized := x\<rparr>)" "goes h (?h\<lparr>ho_handling := None\<rparr>)" for x
    by (rule goes_same [OF h]; simp)+
  show ?thesis
  proof (cases "hw_use (ho_writes h ! w)")
    case (ForRequest k)
    then show ?thesis
      using h by (cases r) (simp_all add: write_continues_def Let_def break_goes request_written_goes)
  next
    case ForInitialized
    then show ?thesis
      using rest initialized_goes [OF h] by (cases r) (simp_all add: write_continues_def Let_def failHost_goes)
  next
    case ForElicitation
    then show ?thesis
      using h rest by (cases r) (simp_all add: write_continues_def Let_def stdout_throws_goes)
  next
    case (ForReply i inTry)
    then show ?thesis
      using h by (cases r) (simp_all add: write_continues_def Let_def write_goes failHost_goes)
  qed
qed

lemma initialize_answered_goes: "goes h (initialize_answered r h)"
proof -
  have "goes h (h\<lparr>ho_initialized := x\<rparr>)" for x by (rule goes_same [OF goes_refl]) simp_all
  then show ?thesis by (auto simp: initialize_answered_def split: sum.split intro!: failHost_goes write_goes)
qed

lemma approval_asked_goes:
  assumes "goes h h1"
  shows "goes h (respondToServerRequest i m params h1)"
proof -
  have "goes h (h1\<lparr>ho_approvals := x\<rparr>)" for x by (rule goes_same [OF assms]) simp_all
  then show ?thesis
    using assms by (auto simp: respondToServerRequest_def Let_def split: option.split intro!: write_goes)
qed

lemma approval_decided_goes: "goes h (approval_decided n r h)"
proof -
  have "goes h (h\<lparr>ho_approvals := x\<rparr>)" for x by (rule goes_same [OF goes_refl]) simp_all
  then show ?thesis by (auto simp: approval_decided_def Let_def split: sum.split intro!: write_goes)
qed

lemma host_response_goes:
  assumes "goes h h1"
  shows "goes h (host_response i r h1)"
  using assms answered_goes [OF assms]
  by (auto simp: host_response_def split: json.split option.split)

lemma mcp_status_same [simp]:
  "hj_result (recordMcpStartupStatus r j) = hj_result j" "hj_turnId (recordMcpStartupStatus r j) = hj_turnId j"
  "hj_interruptRequested (recordMcpStartupStatus r j) = hj_interruptRequested j"
  "hj_cancelRequested (recordMcpStartupStatus r j) = hj_cancelRequested j"
  "hj_at (recordMcpStartupStatus r j) = hj_at j"
  by (simp_all add: recordMcpStartupStatus_def Let_def split: option.split)

lemma host_message_goes:
  assumes "goes h h1"
  shows "goes h (host_message v h1)"
proof -
  have "goes h ((upd_job g (recordMcpStartupStatus r) h1)\<lparr>ho_handling := x\<rparr>)" for g r x
    by (rule goes_same [OF quiet_goes [OF assms]]) simp_all
  moreover have "goes h ((writeMessage m use h1)\<lparr>ho_handling := x\<rparr>)" for m use x
    by (rule goes_same [OF write_goes [OF assms]]) simp_all
  ultimately show ?thesis
    using assms
    by (auto simp: host_message_def Let_def simp del: not_None_eq split: json.split option.split
        intro!: host_response_goes approval_asked_goes)
qed

lemma take_line_goes: "goes h (take_line X h)"
proof -
  have "goes h (h\<lparr>ho_lines := ls\<rparr>)" for ls by (rule goes_same [OF goes_refl]) simp_all
  then show ?thesis
    by (auto simp: take_line_def Let_def split: list.split option.split intro!: stdout_throws_goes host_message_goes)
qed

lemma completion_turn: "completion r j frames = Some x \<Longrightarrow> hj_turnId j = Some (ht_turnId x)"
  by (auto simp: completion_def Let_def split: option.splits if_splits)

lemma notified_goes:
  assumes "g < length (ho_jobs h)"
  shows "goes h (host_notified r g error h)"
proof -
  have h: "goes h (h\<lparr>ho_handling := None\<rparr>)" by (rule goes_same [OF goes_refl]) simp_all
  have "goes h (settleJobResult g x (h\<lparr>ho_handling := None\<rparr>))"
    if "completion r (ho_jobs h ! g) (frame_truncation (ho_frames h)) = Some x" for x
    by (rule job_result_goes [OF h]) (use completion_turn [OF that] assms in simp_all)
  then show ?thesis
    using h by (auto simp: host_notified_def Let_def split: option.split intro!: stdout_throws_goes)
qed

lemma activity_goes: "goes h (markActivity h)"
proof -
  have h1: "goes h (h\<lparr>ho_spawnTimeout := False\<rparr>)" by (rule goes_same [OF goes_refl]) simp_all
  have "goes h (upd_job g (\<lambda>j. j\<lparr>hj_inactivityTimeout := True\<rparr>) (h\<lparr>ho_spawnTimeout := False\<rparr>))" for g
    by (rule quiet_goes [OF h1]) simp_all
  then show ?thesis using h1 by (auto simp: markActivity_def Let_def split: option.split)
qed

lemma stdout_chunk_goes: "goes h (stdout_chunk chunk h)"
  unfolding stdout_chunk_def Let_def by (rule goes_same [OF activity_goes]) simp_all

lemma take_chunk_goes: "goes h (take_chunk h)"
  unfolding take_chunk_def by (auto split: list.split prod.split intro!: goes_same [OF goes_refl])

lemma host_stderr_goes: "goes h (host_stderr chunk error h)"
proof -
  have "goes h (upd_job g (\<lambda>j. j\<lparr>hj_stderr := text_append 1048576 chunk (hj_stderr j)\<rparr>) (markActivity h))" for g
    by (rule quiet_goes [OF activity_goes]) simp_all
  then show ?thesis
    by (auto simp: host_stderr_def Let_def split: option.split intro!: failHost_goes activity_goes)
qed

lemma exit_goes: "goes h (process_exits h)" "goes h (take_rest h)"
  unfolding process_exits_def take_rest_def by (auto split: prod.split option.split intro!: goes_same [OF goes_refl])

lemma step_goes: "host_step X h h' \<Longrightarrow> goes h h'"
  by (induction rule: host_step.induct)
    (auto intro: run_goes cancel_goes close_goes write_callback_goes write_continues_goes initialize_answered_goes
      after_initialize_goes after_gate_goes after_thread_goes after_started_goes after_reload_goes after_mcp_goes
      after_turn_goes failHost_goes stdout_chunk_goes take_chunk_goes take_line_goes notified_goes approval_decided_goes
      host_stderr_goes exit_goes process_closed_goes goes_same [OF goes_refl])

lemma host_history_ok: "host_history X h \<Longrightarrow> host_ok h"
proof (induction rule: host_history.induct)
  case (host_created pid spawnTimeout)
  show ?case by (rule new_host_ok)
next
  case (host_continues h h')
  then show ?case using step_goes [of X h h'] by (simp add: goes_def)
qed

lemma step_moves: "host_history X h \<Longrightarrow> host_step X h h' \<Longrightarrow> host_moves h h'"
  using host_history_ok step_goes unfolding goes_def by blast

lemma requests_asked:
  assumes "host_ok h"
  shows "requests_of ''turn/start'' g h = asked UseTurn g h" "requests_of ''turn/interrupt'' g h = asked UseInterrupt g h"
proof -
  have "hq_method q = ''turn/start'' \<longleftrightarrow> hq_use q = UseTurn" "hq_method q = ''turn/interrupt'' \<longleftrightarrow> hq_use q = UseInterrupt"
    if "q \<in> set (ho_requests h)" for q
    using assms that by (simp_all add: host_ok_def use_ok_def)
  then show "requests_of ''turn/start'' g h = asked UseTurn g h" "requests_of ''turn/interrupt'' g h = asked UseInterrupt g h"
    unfolding requests_of_def asked_def by (simp_all cong: filter_cong)
qed

end
