(* ===== verification/AppServerJobs.thy ===== *)
theory AppServerJobs
  imports AppServerInvariant
begin

text \<open>
  What an app-server host promises: jobs and requests are accounted for, and a run starts at most one turn.
  \<open>play\<close> computes a history from a list of events; a sample of it is the witness of the theorems, and shows
  that the error of a late interrupt request ends the next run.
\<close>

section \<open>Playing a history\<close>

text \<open>Some of what can happen, as a function of the host, so that a history can be computed\<close>

datatype host_act =
    ActRun turn_input | ActCancel nat | ActWritten nat | ActHandled nat | ActInitialized | ActResume nat
  | ActOutput js_text | ActChunk | ActLine | ActNotified | ActInterruptFails nat

definition resume :: "host_env \<Rightarrow> nat \<Rightarrow> host \<Rightarrow> host option" where
  "resume X g h =
     (case hj_at (ho_jobs h ! g) of
        AtInitialize \<Rightarrow> map_option (\<lambda>r. after_initialize X g r h) (ho_initialized h)
      | AtGate \<Rightarrow> Some (after_gate X g None h)
      | AtThread k \<Rightarrow> map_option (\<lambda>r. after_thread g r h) (request_outcome (ho_requests h ! k))
      | AtThreadStarted \<Rightarrow> Some (after_started g None h)
      | AtReload k \<Rightarrow> map_option (\<lambda>r. after_reload g r h) (request_outcome (ho_requests h ! k))
      | AtMcp \<Rightarrow> Some (after_mcp g False h)
      | AtTurn k \<Rightarrow> map_option (\<lambda>r. after_turn g r h) (request_outcome (ho_requests h ! k))
      | AtEnd \<Rightarrow> None)"

fun act :: "host_env \<Rightarrow> host_act \<Rightarrow> host \<Rightarrow> host option" where
  "act X (ActRun i) h = (case host_run i h of Inl e \<Rightarrow> None | Inr h' \<Rightarrow> Some h')"
| "act X (ActCancel g) h = (if g < length (ho_jobs h) then Some (host_cancel g h) else None)"
| "act X (ActWritten w) h = (if w < length (ho_writes h) then Some (write_callback w None h) else None)"
| "act X (ActHandled w) h =
     (if w < length (ho_writes h) \<and> \<not> hw_handled (ho_writes h ! w)
      then map_option (\<lambda>r. write_continues w r None h) (hw_outcome (ho_writes h ! w)) else None)"
| "act X ActInitialized h =
     (if ho_initialized h = None \<and> list_all (\<lambda>w. hw_use w \<noteq> ForInitialized) (ho_writes h)
      then map_option (\<lambda>r. initialize_answered r h) (request_outcome (ho_requests h ! 0)) else None)"
| "act X (ActResume g) h = (if g < length (ho_jobs h) then resume X g h else None)"
| "act X (ActOutput chunk) h = (if ho_exited h then None else Some (stdout_chunk chunk h))"
| "act X ActChunk h = (if ho_lines h = [] \<and> ho_handling h = None then Some (take_chunk h) else None)"
| "act X ActLine h = (if ho_handling h = None then Some (take_line X h) else None)"
| "act X ActNotified h =
     (case ho_handling h of
        Some (Notifying r g) \<Rightarrow> if g < length (ho_jobs h) then Some (host_notified r g None h) else None
      | _ \<Rightarrow> None)"
| "act X (ActInterruptFails k) h =
     (if k < length (ho_requests h) \<and> hq_use (ho_requests h ! k) = UseInterrupt
      then case request_outcome (ho_requests h ! k) of Some (Inl e) \<Rightarrow> Some (failHost e h) | _ \<Rightarrow> None else None)"

lemma resume_step: "g < length (ho_jobs h) \<Longrightarrow> resume X g h = Some h' \<Longrightarrow> host_step X h h'"
  by (cases "hj_at (ho_jobs h ! g)")
    (auto simp: resume_def intro: resume_initialize resume_gate resume_thread resume_started resume_reload resume_mcp
      resume_turn)

lemma act_step: "act X a h = Some h' \<Longrightarrow> host_step X h h'"
proof (induction X a h rule: act.induct)
  case (5 X h)
  then have "ForInitialized \<notin> set (map hw_use (ho_writes h))" by (auto simp: list_all_iff split: if_splits)
  then show ?case using 5 by (auto intro!: initialize_done split: if_splits)
next
  case (10 X h)
  then show ?case by (auto intro!: notification_done split: option.splits handling.splits if_splits)
next
  case (11 X k h)
  then show ?case by (auto intro!: interrupt_fails split: option.splits sum.splits if_splits)
qed (auto intro: host_step.intros resume_step split: if_splits sum.splits)

fun play :: "host_env \<Rightarrow> host_act list \<Rightarrow> host \<Rightarrow> host option" where
  "play X [] h = Some h"
| "play X (a # as) h = (case act X a h of None \<Rightarrow> None | Some h' \<Rightarrow> play X as h')"

lemma play_history: "host_history X h \<Longrightarrow> play X as h = Some h' \<Longrightarrow> host_history X h'"
  by (induction X as h rule: play.induct) (auto split: option.splits intro: host_continues act_step)


section \<open>A sample\<close>

definition sample_turn :: turn_input where
  "sample_turn =
     \<lparr>ti_cwd = ''/w'', ti_sandbox = WorkspaceWrite, ti_model = None, ti_reasoning = None, ti_prompt = ''hi'',
      ti_imagePaths = [], ti_codexThreadId = None, ti_timeout = True, ti_inactivityTimeout = False,
      ti_serverDeployment = False, ti_manifestKey = None, ti_gate = False, ti_approvals = True\<rparr>"

definition sample_frames :: "(js_text \<times> json) list" where
  "sample_frames =
     [([65], JObj [(''id'', JStr ''clawee_1''), (''result'', JObj [])]),
      ([66], JObj [(''id'', JStr ''clawee_2''), (''result'', JObj [(''thread'', JObj [(''id'', JStr ''t'')])])]),
      ([67], JObj [(''id'', JStr ''clawee_3''), (''result'', JObj [(''turn'', JObj [(''id'', JStr ''u'')])])]),
      ([68], JObj [(''method'', JStr ''turn/completed''),
        (''params'', JObj [(''turn'', JObj [(''id'', JStr ''u''), (''status'', JStr ''completed'')])])]),
      ([69], JObj [(''id'', JStr ''clawee_4''), (''error'', JObj [(''message'', JStr ''no turn'')])])]"

definition sample_env :: host_env where
  "sample_env = \<lparr>hx_parse = map_of sample_frames, hx_blank = (\<lambda>t. t = []), hx_instructions = (\<lambda>server. [])\<rparr>"

definition sample_write :: "nat \<Rightarrow> host_act list" where
  "sample_write w = [ActWritten w, ActHandled w]"

definition one_turn :: "host_act list" where
  "one_turn = ActRun sample_turn # sample_write 0 @ [ActOutput [65, 10, 66, 10, 67, 10, 68, 10, 69, 10], ActChunk, ActLine, ActInitialized] @
     sample_write 1 @ [ActResume 0] @ sample_write 2 @ [ActLine, ActResume 0, ActResume 0] @ sample_write 3 @ [ActLine, ActResume 0]"

definition late_error :: "host_act list" where
  "late_error = [ActCancel 0] @ sample_write 4 @ [ActLine, ActNotified, ActRun sample_turn, ActLine]"



named_theorems act_defs


lemmas [act_defs] = sample_env_def sample_frames_def sample_turn_def sample_write_def one_turn_def late_error_def
  new_host_def send_request_eq pushed_def writeMessage_def Let_def host_run_def write_callback_def write_continues_def
  upd_write_def upd_job_def upd_request_def request_written_def current_def job_settled_def stdout_chunk_def markActivity_def take_chunk_def
  take_line_def host_message_def request_id_def host_response_def host_answer_def string_or_def field_of_def record_of_def stringValue_def map_del_def
  initialize_answered_def request_outcome_def resume_def after_initialize_def if_current_def unless_canceled_def job_gate_def job_thread_def
  job_request_def after_thread_def response_id_def after_started_def job_refresh_def job_mcp_def pendingMcpStartupNames_def
  job_turn_def after_turn_def host_cancel_def interruptJob_def messageBelongsToJob_def recordMcpStartupStatus_def host_notified_def
  completion_def settleJobResult_def settle_job_def normalizeTurnStatus_def host_emitLifecycle_def

lemma bytes_few [simp]: "byteLength (c # s) = length (utf8 c) + byteLength s"
  by (simp add: byteLength_def utf8_bytes_def)

lemma sample_push [act_defs]:
  "push 1048576 [65, 10, 66, 10, 67, 10, 68, 10, 69, 10] new_frame_buffer = ([[65], [66], [67], [68], [69]], new_frame_buffer)"
  by (simp add: push_def push_frames_def new_frame_buffer_def strip_cr_def utf8_def Let_def)


lemma sample_created: "host_history sample_env (new_host True False)"
  by (rule host_created)

lemma sample_ids [act_defs]:
  "host_id 0 = ''clawee_1''" "host_id (Suc 0) = ''clawee_2''" "host_id (Suc (Suc 0)) = ''clawee_3''"
  "host_id (Suc (Suc (Suc 0))) = ''clawee_4''"
  by code_simp+

lemma sample_turn_played:
  "map_option (\<lambda>h. (length (ho_jobs h), ho_active h, ho_state h, hj_turnId (ho_jobs h ! 0), hj_result (ho_jobs h ! 0)))
     (play sample_env one_turn (new_host True False)) =
   Some (1, Some 0, HostTurnActive, Some ''u'', None)"
  by (simp add: act_defs)

lemma sample_late_played:
  "map_option (\<lambda>h. (map (map_option isl \<circ> hj_result) (ho_jobs h), ho_active h, ho_state h, length (ho_requests h),
       hj_cancelRequested (ho_jobs h ! 0), hq_use (ho_requests h ! 3), request_outcome (ho_requests h ! 3)))
     (play sample_env (one_turn @ late_error) (new_host True False)) =
   Some ([Some False, None], Some 1, HostTurnActive, 4, True, UseInterrupt, Some (Inl ''no turn''))"
  by (simp add: act_defs)

section \<open>Jobs and requests are accounted for\<close>

text \<open>Errors reach the active job, and every request that waits.\<close>

lemma drop_all_result:
  assumes "jobs_ok h" and "ho_active h = Some g"
  shows "hj_result (ho_jobs (drop_all e h) ! g) = Some (Inl e)"
proof -
  have g: "g < length (ho_jobs h)" "hj_result (ho_jobs h ! g) = None" using assms unfolding jobs_ok_def by blast+
  then have "\<not> job_settled g h" by (simp add: job_settled_def)
  then show ?thesis using drop_all_some(1) [OF assms(2), of e] g(1) by (simp add: failed_job_def)
qed

lemma reject_nothing: "ho_pending h = [] \<Longrightarrow> ho_requests (reject_requests sel e h) = ho_requests h"
  by (simp add: reject_requests_def Let_def map_nth)

lemma drop_all_requests:
  assumes "jobs_ok h"
  shows "ho_requests (drop_all e h) = ho_requests (reject_requests (\<lambda>n. True) e h)"
proof -
  have same: "ho_requests (rejectPending e (rejectWrites e (rejectStarted e h))) = ho_requests (reject_requests (\<lambda>n. True) e h)"
    by (simp add: rejectPending_def reject_requests_def Let_def)
  show ?thesis
  proof (cases "ho_active h")
    case None
    then show ?thesis using drop_all_none(4) [OF None] same by simp
  next
    case (Some g)
    then have "hj_result (ho_jobs h ! g) = None" using assms unfolding jobs_ok_def by blast
    then have "\<not> job_settled g h" by (simp add: job_settled_def)
    note eq = drop_all_some(5) [OF Some this, of e]
    let ?r = "rejectPending e (rejectWrites e (rejectStarted e h))"
    have "ho_pending (upd_job g (failed_job e) ?r) = []" by (simp add: rejectPending_def)
    then show ?thesis by (simp only: eq same reject_nothing upd_job_simps)
  qed
qed

lemma drop_all_response:
  assumes "host_ok h" and "k < length (ho_requests h)" and "unanswered (ho_requests h ! k)"
  shows "hq_response (ho_requests (drop_all e h) ! k) = Some (Inl e)"
proof -
  have "(host_id k, k) \<in> set (ho_pending h)" using host_okD(2) [OF assms(1)] assms(2,3) by (simp add: pending_ok_def)
  then have "k \<in> snd ` set (ho_pending h)" by force
  then show ?thesis
    using drop_all_requests [OF host_okD(1) [OF assms(1)], of e] assms(2)
    by (simp add: reject_requests_def Let_def filter_id_conv case_prod_beta)
qed

lemma failHost_drops:
  assumes "ho_state h \<notin> {HostClosed, HostClosing, HostFailed}"
  shows "failHost e h = drop_all e (h\<lparr>ho_state := HostFailed, ho_spawnTimeout := False, ho_killed := True\<rparr>)"
  using assms by (simp add: failHost_def drop_all_def)

lemma drop_all_fields:
  "ho_jobs (drop_all e (h\<lparr>ho_state := x, ho_spawnTimeout := y, ho_killed := z\<rparr>)) = ho_jobs (drop_all e h)"
  "ho_requests (drop_all e (h\<lparr>ho_state := x, ho_spawnTimeout := y, ho_killed := z\<rparr>)) = ho_requests (drop_all e h)"
  by (simp_all add: drop_all_def settle_active_def settleJobError_def rejectPending_def rejectGeneration_def settle_job_def
      reject_requests_def Let_def job_settled_def split: option.split)

lemma process_closed_drops:
  "ho_jobs (process_closed h) = ho_jobs (drop_all ''Codex app-server closed before turn completion'' h)"
  "ho_requests (process_closed h) = ho_requests (drop_all ''Codex app-server closed before turn completion'' h)"
  by (simp_all add: process_closed_def drop_all_def host_emitLifecycle_def Let_def settle_active_def settleJobError_def
      rejectPending_def rejectGeneration_def settle_job_def reject_requests_def job_settled_def split: option.split)

text \<open>
  C10. In every history of an app-server host, each of its jobs is accounted for. The outcome of a job that
  has ended never changes. A job that has not ended is the active one: the host is not reusable, it takes no
  second run, an error of the host ends the job with this error unless the host is being closed, and when
  the process has closed the job has failed.
\<close>

theorem host_jobs_accounted:
  assumes "host_history X h" and "host_step X h h'" and "g < length (ho_jobs h)"
  shows "g < length (ho_jobs h') \<and>
    (case hj_result (ho_jobs h ! g) of
       Some r \<Rightarrow> hj_result (ho_jobs h' ! g) = Some r
     | None \<Rightarrow>
         ho_active h = Some g \<and> \<not> isReusable h \<and> isl (host_run i h) \<and>
         (ho_state h = HostClosing \<or>
          ho_state h = HostTurnActive \<and> hj_result (ho_jobs (failHost e h) ! g) = Some (Inl e)) \<and>
         hj_result (ho_jobs (process_closed h) ! g) = Some (Inl ''Codex app-server closed before turn completion''))"
proof -
  have ok: "jobs_ok h" using host_history_ok [OF assms(1)] by (simp add: host_ok_def)
  have m: "host_moves h h'" by (rule step_moves [OF assms(1,2)])
  show ?thesis
  proof (cases "hj_result (ho_jobs h ! g)")
    case None
    then have active: "ho_active h = Some g" using ok assms(3) unfolding jobs_ok_def by blast
    then have st: "ho_state h = HostTurnActive \<or> ho_state h = HostClosing" using ok unfolding jobs_ok_def by blast
    have "hj_result (ho_jobs (failHost e h) ! g) = Some (Inl e)" if "ho_state h = HostTurnActive"
      using drop_all_result [OF ok active, of e] that by (simp add: failHost_drops drop_all_fields)
    then show ?thesis
      using None active st m assms(3) drop_all_result [OF ok active]
      by (auto simp: process_closed_drops isReusable_def host_run_def host_moves_def)
  next
    case (Some r)
    then show ?thesis using m assms(3) by (simp add: host_moves_def)
  qed
qed

lemma sample_turn_host:
  obtains h where "host_history sample_env h" "length (ho_jobs h) = 1" "ho_active h = Some 0" "ho_state h = HostTurnActive"
    "hj_turnId (ho_jobs h ! 0) = Some ''u''" "hj_result (ho_jobs h ! 0) = None"
  using sample_turn_played play_history [OF sample_created]
  by (cases "play sample_env one_turn (new_host True False)") auto

lemma host_jobs_accounted_witness:
  "\<exists>h. host_history sample_env h \<and> ho_active h = Some 0 \<and> hj_result (ho_jobs (failHost ''gone'' h) ! 0) = Some (Inl ''gone'')"
proof -
  obtain h where h: "host_history sample_env h" "length (ho_jobs h) = 1" "ho_active h = Some 0" "ho_state h = HostTurnActive"
      "hj_turnId (ho_jobs h ! 0) = Some ''u''" "hj_result (ho_jobs h ! 0) = None"
    by (rule sample_turn_host)
  have "host_step sample_env h (host_close h)" by (rule host_closes)
  then show ?thesis using host_jobs_accounted [OF h(1), of "host_close h" 0 sample_turn "''gone''"] h by auto
qed

text \<open>
  C17. In every history of an app-server host, each of its requests is accounted for. A response is final. A
  request without one has failed to be written, or is pending under its own id: then the host has neither
  failed nor closed, the message with this id answers it, an error of the host rejects it unless the host is
  being closed, and when the process has closed it is rejected.
\<close>

theorem host_requests_accounted:
  assumes "host_history X h" and "host_step X h h'" and "k < length (ho_requests h)"
  shows "k < length (ho_requests h') \<and>
    (case hq_response (ho_requests h ! k) of
       Some r \<Rightarrow> hq_response (ho_requests h' ! k) = Some r
     | None \<Rightarrow>
         hq_error (ho_requests h ! k) \<noteq> None \<or>
         map_of (ho_pending h) (host_id k) = Some k \<and> ho_state h \<notin> {HostFailed, HostClosed} \<and>
         hq_response (ho_requests (host_response (JStr (host_id k)) r h) ! k) = Some (host_answer r) \<and>
         (ho_state h = HostClosing \<or> hq_response (ho_requests (failHost e h) ! k) = Some (Inl e)) \<and>
         hq_response (ho_requests (process_closed h) ! k) = Some (Inl ''Codex app-server closed before turn completion''))"
proof -
  have ok: "host_ok h" by (rule host_history_ok [OF assms(1)])
  have m: "host_moves h h'" by (rule step_moves [OF assms(1,2)])
  show ?thesis
  proof (cases "hq_response (ho_requests h ! k) = None \<and> hq_error (ho_requests h ! k) = None")
    case True
    then have u: "unanswered (ho_requests h ! k)" by (simp add: unanswered_def)
    have p: "(host_id k, k) \<in> set (ho_pending h)" "keys_distinct (ho_pending h)"
      using host_okD(2) [OF ok] u assms(3) by (simp_all add: pending_ok_def)
    then have get: "map_of (ho_pending h) (host_id k) = Some k" by (simp add: keys_distinct_get)
    have st: "ho_state h \<notin> {HostFailed, HostClosed}" using host_okD(2) [OF ok] p(1) unfolding pending_ok_def by auto
    have "hq_response (ho_requests (failHost e h) ! k) = Some (Inl e)" if "ho_state h \<noteq> HostClosing"
      using drop_all_response [OF ok assms(3) u, of e] that st by (simp add: failHost_drops drop_all_fields)
    then show ?thesis
      using True get st m assms(3) drop_all_response [OF ok assms(3) u]
      by (auto simp: process_closed_drops host_response_def host_moves_def)
  next
    case False
    then show ?thesis using m assms(3) by (cases "hq_response (ho_requests h ! k)") (auto simp: host_moves_def request_kept_def)
  qed
qed

lemma host_requests_accounted_witness:
  "hq_response (ho_requests (host_response (JStr ''clawee_1'') [(''result'', JNull)] (new_host True False)) ! 0) = Some (Inr JNull)"
proof -
  have h: "host_history sample_env (new_host True False)" "host_step sample_env (new_host True False) (host_close (new_host True False))"
    by (rule sample_created, rule host_closes)
  have q: "0 < length (ho_requests (new_host True False))" "hq_response (ho_requests (new_host True False) ! 0) = None"
    "hq_error (ho_requests (new_host True False) ! 0) = None"
    by (simp_all add: act_defs)
  have "host_answer [(''result'', JNull)] = Inr JNull" by code_simp
  then show ?thesis
    using host_requests_accounted [OF h q(1), of "[(''result'', JNull)]" "[]"] q(2,3) sample_ids(1) by simp
qed

section \<open>One turn\<close>

text \<open>
  C8. A run of an app-server host sends \<^verbatim>\<open>turn/start\<close> at most once, and never after it has been canceled, and
  \<^verbatim>\<open>turn/interrupt\<close> at most once. It has succeeded only if its \<^verbatim>\<open>turn/start\<close> has been written and answered,
  and its result names the turn of that answer.
\<close>

theorem turn_started_once:
  assumes "host_history X h" and "host_step X h h'" and "g < length (ho_jobs h)"
  shows "requests_of ''turn/start'' g h \<le> 1 \<and> requests_of ''turn/interrupt'' g h \<le> 1 \<and>
    (hj_cancelRequested (ho_jobs h ! g) \<longrightarrow> requests_of ''turn/start'' g h' = requests_of ''turn/start'' g h) \<and>
    (\<forall>r. hj_result (ho_jobs h ! g) = Some (Inr r) \<longrightarrow>
      (\<exists>q \<in> set (ho_requests h). hq_method q = ''turn/start'' \<and> hq_generation q = Suc g \<and> hq_written q \<and>
        (\<exists>v. hq_response q = Some (Inr v) \<and> response_id ''turn'' v = Some (ht_turnId r))))"
proof -
  have ok: "host_ok h" by (rule host_history_ok [OF assms(1)])
  have ok': "host_ok h'" by (rule host_history_ok [OF host_continues [OF assms(1,2)]])
  have m: "host_moves h h'" by (rule step_moves [OF assms(1,2)])
  have t: "turn_ok g h" using ok assms(3) by (simp add: host_ok_def)
  note by_method = requests_asked [OF ok] requests_asked [OF ok']
  have "\<exists>q \<in> set (ho_requests h). hq_method q = ''turn/start'' \<and> hq_generation q = Suc g \<and> hq_written q \<and>
      (\<exists>v. hq_response q = Some (Inr v) \<and> response_id ''turn'' v = Some (ht_turnId r))"
    if "hj_result (ho_jobs h ! g) = Some (Inr r)" for r
  proof -
    have "turn_answered g (ht_turnId r) h" using t that by (simp add: turn_ok_def Let_def)
    then obtain q v where q: "q \<in> set (ho_requests h)" "hq_use q = UseTurn" "hq_generation q = Suc g" "hq_written q"
        "hq_response q = Some (Inr v)" "response_id ''turn'' v = Some (ht_turnId r)"
      unfolding turn_answered_def by blast
    moreover have "hq_method q = ''turn/start''" using ok q(1,2) by (simp add: host_ok_def use_ok_def)
    ultimately show ?thesis by blast
  qed
  moreover have "asked UseTurn g h \<le> 1" "asked UseInterrupt g h \<le> 1"
    using t by (simp_all add: turn_ok_def Let_def split: if_splits)
  moreover have "hj_cancelRequested (ho_jobs h ! g) \<Longrightarrow> asked UseTurn g h' = asked UseTurn g h"
    using m assms(3) by (simp add: host_moves_def)
  ultimately show ?thesis unfolding by_method by blast
qed

lemma turn_started_once_witness:
  "\<exists>h. host_history sample_env h \<and> hj_turnId (ho_jobs h ! 0) = Some ''u'' \<and> requests_of ''turn/start'' 0 h \<le> 1"
proof -
  obtain h where h: "host_history sample_env h" "length (ho_jobs h) = 1" "ho_active h = Some 0" "ho_state h = HostTurnActive"
      "hj_turnId (ho_jobs h ! 0) = Some ''u''" "hj_result (ho_jobs h ! 0) = None"
    by (rule sample_turn_host)
  have "host_step sample_env h (host_close h)" by (rule host_closes)
  then have "requests_of ''turn/start'' 0 h \<le> 1" using turn_started_once [OF h(1), of "host_close h" 0] h(2) by auto
  then show ?thesis using h(1,5) by blast
qed

text \<open>
  A run that is canceled while its turn ends has completed, and a second run is active; then the error of the
  \<^verbatim>\<open>turn/interrupt\<close> of the first one arrives, \<^verbatim>\<open>interruptJob\<close> fails the host, and the second run fails with it.
\<close>

lemma late_interrupt_fails_next_run:
  "\<exists>h h'. host_history sample_env h \<and> host_step sample_env h h' \<and>
     map (map_option isl \<circ> hj_result) (ho_jobs h) = [Some False, None] \<and> hj_cancelRequested (ho_jobs h ! 0) \<and>
     hj_result (ho_jobs h' ! 1) = Some (Inl ''no turn'') \<and> ho_state h' = HostFailed"
proof -
  obtain h where played: "play sample_env (one_turn @ late_error) (new_host True False) = Some h"
    and h: "ho_active h = Some 1" "ho_state h = HostTurnActive" "map (map_option isl \<circ> hj_result) (ho_jobs h) = [Some False, None]"
      "hj_cancelRequested (ho_jobs h ! 0)"
    and q: "3 < length (ho_requests h)" "hq_use (ho_requests h ! 3) = UseInterrupt"
      "request_outcome (ho_requests h ! 3) = Some (Inl ''no turn'')"
    using sample_late_played by (cases "play sample_env (one_turn @ late_error) (new_host True False)") auto
  have history: "host_history sample_env h" by (rule play_history [OF sample_created played])
  have "host_step sample_env h (failHost ''no turn'' h)" by (rule interrupt_fails [OF q])
  moreover have "hj_result (ho_jobs (failHost ''no turn'' h) ! 1) = Some (Inl ''no turn'')"
    using drop_all_result [of h 1 "''no turn''"] host_history_ok [OF history] h(1,2)
    by (simp add: failHost_drops drop_all_fields host_ok_def)
  moreover have "ho_state (failHost ''no turn'' h) = HostFailed"
    using h(1,2) by (cases "job_settled 1 h")
      (simp_all add: failHost_def settle_active_def settleJobError_def rejectPending_def settle_job_def rejectGeneration_def)
  ultimately show ?thesis
    by (intro exI [of _ h] exI [of _ "failHost ''no turn'' h"] conjI) (rule history h(3,4), assumption?)+
qed

end
