(* ===== verification/OrderedLog.thy ===== *)
theory OrderedLog
  imports BoundedBuffers CodexArgs
begin

text \<open>
  The log writer of a run, \<^verbatim>\<open>runs/ordered-log-writer.ts\<close>: appends to the files of a directory that are
  carried out one after the other, with a bound on the bytes that wait.

  \<^item> \<open>log_writer\<close> has the variables of \<^verbatim>\<open>createOrderedLogWriter\<close>. The promise chain \<^verbatim>\<open>tail\<close> is the list of the
    tasks that were chained to it, \<open>lw_tasks\<close>, and the number of those that have ended, \<open>lw_next\<close>; a task
    that has ended holds what its promise was settled with.
  \<^item> \<open>lw_files\<close> are the bytes that were appended to each file since the writer was created. An append that
    fails may have written a part of its content.
  \<^item> Durations and clock readings are arguments. A drain that waits has the number of tasks it waits for.
\<close>

section \<open>State\<close>

datatype log_failure_kind = WriteFailure | BackpressureFailure

record log_failure =
  lf_file :: string
  lf_message :: string
  lf_at :: ms
  lf_kind :: log_failure_kind

datatype log_error =
    OrderedLogBackpressureError int nat nat \<comment> \<open>queued, incoming and allowed bytes\<close>
  | OrderedLogWriterClosedError
  | InvalidFileName string

fun log_error_text :: "log_error \<Rightarrow> string" where
  "log_error_text (OrderedLogBackpressureError queued incoming allowed) =
     ''Run log queue limit exceeded: '' @ int_text queued @ '' + '' @ nat_text incoming @ '' > '' @ nat_text allowed @ '' bytes''"
| "log_error_text OrderedLogWriterClosedError = ''Run log writer is closed''"
| "log_error_text (InvalidFileName file) = ''Run log file name is invalid: '' @ file"

text \<open>The error of a write, and how many bytes it has written before\<close>

type_synonym write_result = "(string \<times> nat) option"

record log_task =
  lt_file :: string
  lt_content :: js_text
  lt_result :: "write_result option" \<comment> \<open>\<open>None\<close> while it waits or runs\<close>

record log_metrics =
  lm_queuedBytes :: int
  lm_peakQueuedBytes :: int
  lm_highWaterMarkBytes :: nat
  lm_maxQueuedBytes :: nat
  lm_highWaterMarkHits :: nat
  lm_backpressureRejects :: nat
  lm_writesAttempted :: nat
  lm_writesCompleted :: nat
  lm_bytesWritten :: nat
  lm_totalWriteDurationMs :: rat
  lm_maxWriteDurationMs :: rat
  lm_drainCount :: nat
  lm_totalDrainDurationMs :: rat
  lm_maxDrainDurationMs :: rat
  lm_failures :: "log_failure list"
  lm_closed :: bool

record log_writer = log_metrics +
  lw_tasks :: "log_task list"
  lw_next :: nat
  lw_drains :: "(nat \<times> rat) list" \<comment> \<open>the tasks to wait for and the start\<close>
  lw_files :: "string \<Rightarrow> nat list"

text \<open>With the value of \<^verbatim>\<open>failureCount\<close>\<close>

definition getMetrics :: "log_writer \<Rightarrow> nat \<times> log_metrics" where
  "getMetrics w = (length (lm_failures w), log_metrics.truncate w)"

definition DEFAULT_HIGH_WATER_MARK_BYTES :: nat where
  "DEFAULT_HIGH_WATER_MARK_BYTES = 1024 * 1024"

definition DEFAULT_MAX_QUEUED_BYTES :: nat where
  "DEFAULT_MAX_QUEUED_BYTES = 8 * 1024 * 1024"

definition createOrderedLogWriter :: "nat option \<Rightarrow> nat option \<Rightarrow> string + log_writer" where
  "createOrderedLogWriter highWaterMark maxQueued =
     (let high = (case highWaterMark of None \<Rightarrow> DEFAULT_HIGH_WATER_MARK_BYTES | Some n \<Rightarrow> n);
          most = (case maxQueued of None \<Rightarrow> DEFAULT_MAX_QUEUED_BYTES | Some n \<Rightarrow> n) in
      if high \<le> 0 \<or> most < high then Inl ''Run log queue limits are invalid''
      else Inr \<lparr>lm_queuedBytes = 0, lm_peakQueuedBytes = 0, lm_highWaterMarkBytes = high, lm_maxQueuedBytes = most,
        lm_highWaterMarkHits = 0, lm_backpressureRejects = 0, lm_writesAttempted = 0, lm_writesCompleted = 0,
        lm_bytesWritten = 0, lm_totalWriteDurationMs = 0, lm_maxWriteDurationMs = 0, lm_drainCount = 0,
        lm_totalDrainDurationMs = 0, lm_maxDrainDurationMs = 0, lm_failures = [], lm_closed = False,
        lw_tasks = [], lw_next = 0, lw_drains = [], lw_files = (\<lambda>f. [])\<rparr>)"

section \<open>Operations\<close>

definition recordFailure :: "string \<Rightarrow> string \<Rightarrow> ms \<Rightarrow> log_failure_kind \<Rightarrow> log_writer \<Rightarrow> log_writer" where
  "recordFailure file message now kind w =
     w\<lparr>lm_failures := lm_failures w @ [\<lparr>lf_file = file, lf_message = message, lf_at = now, lf_kind = kind\<rparr>]\<rparr>"

text \<open>\<^verbatim>\<open>/^[A-Za-z0-9._-]+$/\<close>\<close>

definition file_char :: "char \<Rightarrow> bool" where
  "file_char c \<longleftrightarrow>
     CHR ''A'' \<le> c \<and> c \<le> CHR ''Z'' \<or> CHR ''a'' \<le> c \<and> c \<le> CHR ''z'' \<or> CHR ''0'' \<le> c \<and> c \<le> CHR ''9'' \<or>
     c = CHR ''.'' \<or> c = CHR ''_'' \<or> c = CHR ''-''"

definition valid_file :: "string \<Rightarrow> bool" where
  "valid_file file \<longleftrightarrow> file \<noteq> [] \<and> list_all file_char file"

text \<open>\<^verbatim>\<open>append\<close>: the error that its promise is rejected with at once, or the number of the task\<close>

definition log_append :: "string \<Rightarrow> js_text \<Rightarrow> ms \<Rightarrow> log_writer \<Rightarrow> (log_error + nat) \<times> log_writer" where
  "log_append file content now w =
     (if lm_closed w then (Inl OrderedLogWriterClosedError, w)
      else if \<not> valid_file file then (Inl (InvalidFileName file), w)
      else
        let nextQueuedBytes = lm_queuedBytes w + int (byteLength content) in
        if nextQueuedBytes > int (lm_maxQueuedBytes w) then
          let error = OrderedLogBackpressureError (lm_queuedBytes w) (byteLength content) (lm_maxQueuedBytes w) in
          (Inl error, recordFailure file (log_error_text error) now BackpressureFailure
             (w\<lparr>lm_backpressureRejects := lm_backpressureRejects w + 1\<rparr>))
        else
          (Inr (length (lw_tasks w)),
           w\<lparr>lm_writesAttempted := lm_writesAttempted w + 1, lm_queuedBytes := nextQueuedBytes,
             lm_peakQueuedBytes := max (lm_peakQueuedBytes w) nextQueuedBytes,
             lm_highWaterMarkHits :=
               (if nextQueuedBytes \<ge> int (lm_highWaterMarkBytes w) then lm_highWaterMarkHits w + 1 else lm_highWaterMarkHits w),
             lw_tasks := lw_tasks w @ [\<lparr>lt_file = file, lt_content = content, lt_result = None\<rparr>]\<rparr>))"

text \<open>What a write with this result has appended\<close>

definition written :: "js_text \<Rightarrow> write_result \<Rightarrow> nat list" where
  "written content r = (case r of None \<Rightarrow> utf8_bytes content | Some (_, n) \<Rightarrow> take n (utf8_bytes content))"

text \<open>The end of the \<^verbatim>\<open>appendFile\<close> that runs\<close>

definition write_ends :: "write_result \<Rightarrow> rat \<Rightarrow> ms \<Rightarrow> log_writer \<Rightarrow> log_writer" where
  "write_ends r durationMs now w =
     (let t = lw_tasks w ! lw_next w; file = lt_file t; bytes = byteLength (lt_content t);
          w1 = w\<lparr>lw_files := (lw_files w)(file := lw_files w file @ written (lt_content t) r)\<rparr>;
          w2 = (case r of
                  None \<Rightarrow> w1\<lparr>lm_writesCompleted := lm_writesCompleted w1 + 1, lm_bytesWritten := lm_bytesWritten w1 + bytes\<rparr>
                | Some (message, _) \<Rightarrow> recordFailure file message now WriteFailure w1)
      in w2\<lparr>lm_totalWriteDurationMs := lm_totalWriteDurationMs w2 + durationMs,
            lm_maxWriteDurationMs := max (lm_maxWriteDurationMs w2) durationMs,
            lm_queuedBytes := lm_queuedBytes w2 - int bytes,
            lw_tasks := (lw_tasks w2)[lw_next w2 := t\<lparr>lt_result := Some r\<rparr>],
            lw_next := Suc (lw_next w2)\<rparr>)"

text \<open>\<^verbatim>\<open>drain\<close> up to its \<^verbatim>\<open>await\<close>, and after it\<close>

definition log_drain :: "rat \<Rightarrow> log_writer \<Rightarrow> log_writer" where
  "log_drain startedAt w =
     w\<lparr>lm_drainCount := lm_drainCount w + 1, lw_drains := lw_drains w @ [(length (lw_tasks w), startedAt)]\<rparr>"

definition drain_ends :: "nat \<Rightarrow> rat \<Rightarrow> log_writer \<Rightarrow> log_writer" where
  "drain_ends i now w =
     (let durationMs = now - snd (lw_drains w ! i) in
      w\<lparr>lm_totalDrainDurationMs := lm_totalDrainDurationMs w + durationMs,
        lm_maxDrainDurationMs := max (lm_maxDrainDurationMs w) durationMs,
        lw_drains := take i (lw_drains w) @ drop (Suc i) (lw_drains w)\<rparr>)"

definition log_close :: "rat \<Rightarrow> log_writer \<Rightarrow> log_writer" where
  "log_close startedAt w = log_drain startedAt (w\<lparr>lm_closed := True\<rparr>)"

inductive log_step :: "log_writer \<Rightarrow> log_writer \<Rightarrow> bool" where
  step_append: "log_step w (snd (log_append file content now w))"
| step_written: "log_step w (write_ends r durationMs now w)" if "lw_next w < length (lw_tasks w)"
| step_drain: "log_step w (log_drain startedAt w)"
| step_drained: "log_step w (drain_ends i now w)" if "i < length (lw_drains w)" and "fst (lw_drains w ! i) \<le> lw_next w"
| step_close: "log_step w (log_close startedAt w)"

inductive log_history :: "log_writer \<Rightarrow> bool" where
  history_new: "log_history w" if "createOrderedLogWriter highWaterMark maxQueued = Inr w"
| history_next: "log_history w \<Longrightarrow> log_step w w' \<Longrightarrow> log_history w'"

section \<open>Invariants\<close>

text \<open>What a task has written, and the bytes it counts for while it waits\<close>

definition task_output :: "log_task \<Rightarrow> nat list" where
  "task_output t = (case lt_result t of None \<Rightarrow> [] | Some r \<Rightarrow> written (lt_content t) r)"

definition task_bytes :: "log_task \<Rightarrow> nat" where
  "task_bytes t = byteLength (lt_content t)"

text \<open>The tasks that have ended and those that wait\<close>

definition log_split :: "log_writer \<Rightarrow> log_task list \<Rightarrow> log_task list \<Rightarrow> bool" where
  "log_split w ended waiting \<longleftrightarrow>
     lw_tasks w = ended @ waiting \<and> length ended = lw_next w \<and>
     list_all (\<lambda>t. lt_result t \<noteq> None) ended \<and> list_all (\<lambda>t. lt_result t = None) waiting \<and>
     (\<forall>f. lw_files w f = concat (map task_output (filter (\<lambda>t. lt_file t = f) ended))) \<and>
     lm_queuedBytes w = int (sum_list (map task_bytes waiting)) \<and>
     lm_writesCompleted w = length (filter (\<lambda>t. lt_result t = Some None) ended) \<and>
     lm_bytesWritten w = sum_list (map task_bytes (filter (\<lambda>t. lt_result t = Some None) ended)) \<and>
     length (lm_failures w) = lm_backpressureRejects w + length (filter (\<lambda>t. lt_result t \<noteq> Some None) ended)"

definition log_bounds :: "log_writer \<Rightarrow> bool" where
  "log_bounds w \<longleftrightarrow>
     lm_writesAttempted w = length (lw_tasks w) \<and> lm_queuedBytes w \<le> lm_peakQueuedBytes w \<and>
     lm_peakQueuedBytes w \<le> int (lm_maxQueuedBytes w) \<and> list_all (\<lambda>d. fst d \<le> length (lw_tasks w)) (lw_drains w)"

definition log_ok :: "log_writer \<Rightarrow> bool" where
  "log_ok w \<longleftrightarrow> (\<exists>ended waiting. log_split w ended waiting) \<and> log_bounds w"

lemma new_writer_ok: "createOrderedLogWriter highWaterMark maxQueued = Inr w \<Longrightarrow> log_ok w"
  by (auto simp: createOrderedLogWriter_def Let_def log_ok_def log_split_def log_bounds_def split: if_splits)

text \<open>The three ways that an append goes\<close>

lemma log_append_cases:
  obtains (refused) e where "log_append file content now w = (Inl e, w)" "lm_closed w \<or> \<not> valid_file file"
  | (full) e m where "log_append file content now w =
        (Inl e, recordFailure file m now BackpressureFailure (w\<lparr>lm_backpressureRejects := lm_backpressureRejects w + 1\<rparr>))"
      "lm_queuedBytes w + int (byteLength content) > int (lm_maxQueuedBytes w)"
  | (queued) n where "log_append file content now w = (Inr (length (lw_tasks w)),
        w\<lparr>lm_writesAttempted := lm_writesAttempted w + 1, lm_queuedBytes := lm_queuedBytes w + int (byteLength content),
          lm_peakQueuedBytes := max (lm_peakQueuedBytes w) (lm_queuedBytes w + int (byteLength content)),
          lm_highWaterMarkHits := n,
          lw_tasks := lw_tasks w @ [\<lparr>lt_file = file, lt_content = content, lt_result = None\<rparr>]\<rparr>)"
      "\<not> lm_closed w" "valid_file file" "lm_queuedBytes w + int (byteLength content) \<le> int (lm_maxQueuedBytes w)"
  unfolding log_append_def Let_def by (cases "lm_closed w"; cases "valid_file file"; force)


lemma log_append_ok:
  assumes "log_ok w"
  shows "log_ok (snd (log_append file content now w))"
proof -
  obtain d q where s: "log_split w d q" and b: "log_bounds w" using assms by (auto simp: log_ok_def)
  show ?thesis
  proof (cases rule: log_append_cases [of "file" "content" "now" "w"])
    case (refused e)
    then show ?thesis using assms by simp
  next
    case (full e m)
    have "log_split (snd (log_append file content now w)) d q" using s by (simp add: full log_split_def recordFailure_def)
    moreover have "log_bounds (snd (log_append file content now w))"
      using b by (simp add: full log_bounds_def recordFailure_def)
    ultimately show ?thesis by (auto simp: log_ok_def)
  next
    case (queued n)
    have "log_split (snd (log_append file content now w)) d (q @ [\<lparr>lt_file = file, lt_content = content, lt_result = None\<rparr>])"
      using s by (simp add: queued(1) log_split_def task_bytes_def)
    moreover have "log_bounds (snd (log_append file content now w))"
      using b queued(4) by (auto simp: queued(1) log_bounds_def list_all_iff)
    ultimately show ?thesis by (auto simp: log_ok_def)
  qed
qed

lemma log_write_ok:
  assumes "log_ok w" and "lw_next w < length (lw_tasks w)"
  shows "log_ok (write_ends r durationMs now w)"
proof -
  obtain d q where s: "log_split w d q" and b: "log_bounds w" using assms(1) by (auto simp: log_ok_def)
  obtain t q' where q: "q = t # q'" using s assms(2) by (cases q) (auto simp: log_split_def)
  let ?w = "write_ends r durationMs now w" and ?t = "t\<lparr>lt_result := Some r\<rparr>"
  have t: "lw_tasks w ! lw_next w = t" using s by (auto simp: log_split_def q nth_append)
  have "lw_tasks ?w = d @ ?t # q'"
    using s by (auto simp: log_split_def q write_ends_def Let_def recordFailure_def nth_append list_update_append
        split: option.splits)
  moreover have "lw_files ?w = (lw_files w)(lt_file t := lw_files w (lt_file t) @ written (lt_content t) r)"
    "lw_next ?w = Suc (lw_next w)" "lm_queuedBytes ?w = lm_queuedBytes w - int (byteLength (lt_content t))"
    by (auto simp: write_ends_def Let_def t recordFailure_def split: option.splits)
  moreover have "lm_writesCompleted ?w = lm_writesCompleted w + (if r = None then 1 else 0)"
    "lm_bytesWritten ?w = lm_bytesWritten w + (if r = None then byteLength (lt_content t) else 0)"
    "length (lm_failures ?w) = length (lm_failures w) + (if r = None then 0 else 1)"
    "lm_backpressureRejects ?w = lm_backpressureRejects w"
    by (auto simp: write_ends_def Let_def t recordFailure_def split: option.splits)
  ultimately have "log_split ?w (d @ [?t]) q'"
    using s unfolding log_split_def by (simp add: q task_output_def task_bytes_def)
  moreover have "log_bounds ?w"
  proof -
    have "lm_writesAttempted ?w = lm_writesAttempted w" "length (lw_tasks ?w) = length (lw_tasks w)"
      "lm_queuedBytes ?w \<le> lm_queuedBytes w" "lm_peakQueuedBytes ?w = lm_peakQueuedBytes w"
      "lm_maxQueuedBytes ?w = lm_maxQueuedBytes w" "lw_drains ?w = lw_drains w"
      by (auto simp: write_ends_def Let_def recordFailure_def split: option.splits)
    then show ?thesis using b by (simp add: log_bounds_def)
  qed
  ultimately show ?thesis by (auto simp: log_ok_def)
qed

lemma log_step_ok: "log_step w w' \<Longrightarrow> log_ok w \<Longrightarrow> log_ok w'"
proof (induction rule: log_step.induct)
  case (step_drained i w now)
  then show ?case
    by (auto simp: drain_ends_def Let_def log_ok_def log_split_def log_bounds_def list_all_iff
        dest: in_set_takeD in_set_dropD)
qed (simp_all add: log_append_ok log_write_ok, auto simp: log_drain_def log_close_def log_ok_def log_split_def log_bounds_def)

lemma log_history_ok: "log_history w \<Longrightarrow> log_ok w"
  by (induction rule: log_history.induct) (auto simp: new_writer_ok log_step_ok)

section \<open>The order of the log\<close>

definition log_entry :: "log_task \<Rightarrow> string \<times> js_text" where
  "log_entry t = (lt_file t, lt_content t)"

text \<open>A step keeps the entries and the results so far; a writer that is closed takes no more entries.\<close>

lemma step_keeps_tasks:
  assumes "log_step w w'" and "lw_next w \<le> length (lw_tasks w)"
  shows "take (length (lw_tasks w)) (map log_entry (lw_tasks w')) = map log_entry (lw_tasks w)"
    and "take (lw_next w) (lw_tasks w') = take (lw_next w) (lw_tasks w)"
    and "lm_closed w \<Longrightarrow> lm_closed w' \<and> length (lw_tasks w') = length (lw_tasks w)"
proof -
  have "take (length (lw_tasks w)) (map log_entry (lw_tasks w')) = map log_entry (lw_tasks w) \<and>
    take (lw_next w) (lw_tasks w') = take (lw_next w) (lw_tasks w) \<and>
    (lm_closed w \<longrightarrow> lm_closed w' \<and> length (lw_tasks w') = length (lw_tasks w))"
    using assms
  proof (induction rule: log_step.induct)
    case (step_append w "file" content now)
    then show ?case
      by (cases rule: log_append_cases [of "file" "content" "now" "w"]) (auto simp: recordFailure_def)
  next
    case (step_written w r durationMs now)
    then show ?case
      by (auto simp: write_ends_def Let_def recordFailure_def log_entry_def map_update
          split: option.splits intro!: nth_equalityI simp: nth_list_update)
  qed (simp_all add: log_drain_def log_close_def drain_ends_def Let_def)
  then show "take (length (lw_tasks w)) (map log_entry (lw_tasks w')) = map log_entry (lw_tasks w)"
    "take (lw_next w) (lw_tasks w') = take (lw_next w) (lw_tasks w)"
    "lm_closed w \<Longrightarrow> lm_closed w' \<and> length (lw_tasks w') = length (lw_tasks w)" by blast+
qed

lemma ok_split: "log_ok w \<Longrightarrow> log_split w (take (lw_next w) (lw_tasks w)) (drop (lw_next w) (lw_tasks w)) \<and> lw_next w \<le> length (lw_tasks w)"
  by (auto simp: log_ok_def log_split_def)

text \<open>
  C25. The log of a run is written in order. A file holds what the appends to it have written, one
  after the other in the order of the calls, of the appends that have ended; the others wait in this
  order, and nothing that was written or settled changes later. An append is taken exactly if the
  writer is open, the name is valid and the bytes that wait stay within the limit, which they always
  do; a failure is recorded for each append that is refused for its size or whose write fails.
\<close>

theorem log_in_order:
  assumes "log_history w"
  shows "lw_files w f = concat (map task_output (filter (\<lambda>t. lt_file t = f) (take (lw_next w) (lw_tasks w)))) \<and>
    list_all (\<lambda>t. lt_result t \<noteq> None) (take (lw_next w) (lw_tasks w)) \<and>
    list_all (\<lambda>t. lt_result t = None) (drop (lw_next w) (lw_tasks w)) \<and>
    lm_queuedBytes w = int (sum_list (map task_bytes (drop (lw_next w) (lw_tasks w)))) \<and>
    lm_queuedBytes w \<le> int (lm_maxQueuedBytes w) \<and>
    length (lm_failures w) = lm_backpressureRejects w +
      length (filter (\<lambda>t. lt_result t \<noteq> Some None) (take (lw_next w) (lw_tasks w))) \<and>
    (fst (log_append file content now w) = Inr (length (lw_tasks w)) \<longleftrightarrow>
       \<not> lm_closed w \<and> valid_file file \<and> lm_queuedBytes w + int (byteLength content) \<le> int (lm_maxQueuedBytes w)) \<and>
    (log_step w w' \<longrightarrow>
       take (length (lw_tasks w)) (map log_entry (lw_tasks w')) = map log_entry (lw_tasks w) \<and>
       take (lw_next w) (lw_tasks w') = take (lw_next w) (lw_tasks w))"
proof -
  have ok: "log_ok w" by (rule log_history_ok [OF assms])
  note s = ok_split [OF ok]
  have "lm_queuedBytes w \<le> int (lm_maxQueuedBytes w)" using ok by (simp add: log_ok_def log_bounds_def)
  moreover have "fst (log_append file content now w) = Inr (length (lw_tasks w)) \<longleftrightarrow>
      \<not> lm_closed w \<and> valid_file file \<and> lm_queuedBytes w + int (byteLength content) \<le> int (lm_maxQueuedBytes w)"
    by (simp add: log_append_def Let_def)
  ultimately show ?thesis using s step_keeps_tasks(1,2) [of w w'] by (simp add: log_split_def)
qed

definition sample_log :: log_writer where
  "sample_log = projr (createOrderedLogWriter (Some 4) (Some 8))"

lemma log_in_order_witness:
  "lw_files (write_ends None 1 0 (snd (log_append ''a.log'' [65, 66] 0 sample_log))) ''a.log'' = [65, 66] \<and>
   fst (log_append ''a.log'' [65, 66, 67] 0 (snd (log_append ''a.log'' [65, 66] 0 sample_log))) = Inr 1"
proof -
  let ?w = "snd (log_append ''a.log'' [65, 66] 0 sample_log)"
  have start: "log_history sample_log"
    by (rule history_new [of "Some 4" "Some 8"]) (simp add: sample_log_def createOrderedLogWriter_def)
  have w: "lw_tasks ?w = [\<lparr>lt_file = ''a.log'', lt_content = [65, 66], lt_result = None\<rparr>]" "lw_next ?w = 0"
    "lm_queuedBytes ?w = 2" "\<not> lm_closed ?w" "lm_maxQueuedBytes ?w = 8"
    by code_simp+
  have h: "log_history ?w" by (rule history_next [OF start step_append])
  have "log_history (write_ends None 1 0 ?w)" by (rule history_next [OF h step_written]) (simp add: w)
  from log_in_order [OF this, of "''a.log''"]
  have "lw_files (write_ends None 1 0 ?w) ''a.log'' =
      concat (map task_output (filter (\<lambda>t. lt_file t = ''a.log'') (take (lw_next (write_ends None 1 0 ?w)) (lw_tasks (write_ends None 1 0 ?w)))))"
    by blast
  moreover have "lw_tasks (write_ends None 1 0 ?w) = [\<lparr>lt_file = ''a.log'', lt_content = [65, 66], lt_result = Some None\<rparr>]"
    "lw_next (write_ends None 1 0 ?w) = 1"
    by (simp_all add: write_ends_def Let_def w)
  moreover have "task_output \<lparr>lt_file = ''a.log'', lt_content = [65, 66], lt_result = Some None\<rparr> = [65, 66]" by code_simp
  moreover have "valid_file ''a.log''" "byteLength [65, 66, 67] = 3" by code_simp+
  ultimately show ?thesis using log_in_order [OF h, of "''a.log''" "''a.log''" "[65, 66, 67]" 0] w by simp
qed

end
