(* ===== verification/ThreadHistory.thy ===== *)
theory ThreadHistory
  imports EventNormalizer "HOL-Library.Product_Lexorder" "HOL-Library.Multiset"
begin

text \<open>
  The history of a thread, \<^verbatim>\<open>threads/run-event-history.ts\<close> and the part of \<^verbatim>\<open>api/routes.threads.ts\<close> that
  calls it: what Codex remembers of the thread is completed by the stored events of its runs.

  \<^item> An item is a \<open>history_item\<close>: what all items have, and a \<open>history_body\<close> with the constructors of
    \<^verbatim>\<open>ThreadHistoryItem\<close>. Attachments are passed on unread.
  \<^item> The payload of a stored event is a JSON value of the type of theory \<open>EventNormalizer\<close>.
  \<^item> \<^verbatim>\<open>Date.parse\<close> and \<^verbatim>\<open>JSON.stringify\<close> are parameters; a date that does not parse is \<open>None\<close> (\<^verbatim>\<open>NaN\<close>).
  \<^item> \<^verbatim>\<open>sort\<close> is the stable insertion sort \<open>js_sort\<close> by a comparison function.

  The main theorem: the merged history is in order if all dates parse, has every item that Codex
  remembers, has no event twice, and shows every prompt and every event of the kinds that the history has
  items for (\<open>shown_event\<close>, \<open>depicts\<close>). Events of status, error, diagnostic, usage and approval are not
  among them.
\<close>

section \<open>Items\<close>

datatype history_body =
    WorkflowStart json_record
  | WorkflowStatus json_record
  | UserMessage string "string option" "json list option" \<comment> \<open>text, run id, attachments\<close>
  | ScheduleTrigger string string "string option" \<comment> \<open>prompt, time of the trigger, run id\<close>
  | AssistantMessage string
  | ReasoningSummary string
  | ToolUse string json_record
  | ToolResult string string bool
  | FileChange json string
  | DoneItem string

record history_item =
  hi_id :: string
  hi_createdAt :: string
  hi_turnId :: "string option"
  hi_body :: history_body

text \<open>What is read of a run: \<^verbatim>\<open>RunHistorySource\<close>, and who triggered it when\<close>

record history_run =
  hr_id :: run_id
  hr_publicPrompt :: "string option"
  hr_attachments :: "json list"
  hr_createdAt :: string
  hr_createdBy :: string
  hr_triggeredAt :: "string option"

record stored_event =
  he_id :: string
  he_runId :: run_id
  he_ts :: string
  he_type :: string
  he_payload :: json
  he_rawEventId :: "string option"

record history_env =
  hv_parseDate :: "string \<Rightarrow> int option"
  hv_stringify :: "json \<Rightarrow> string"

section \<open>Matching the runs with the messages\<close>

definition trim_end :: "string \<Rightarrow> string" where
  "trim_end s = rev (dropWhile js_space (rev s))"

definition ends_with :: "string \<Rightarrow> string \<Rightarrow> bool" where
  "ends_with s t \<longleftrightarrow> length t \<le> length s \<and> drop (length s - length t) s = t"

text \<open>The distance of two dates; \<open>None\<close> is infinite.\<close>

definition distance :: "history_env \<Rightarrow> string \<Rightarrow> string \<Rightarrow> int option" where
  "distance H a b =
     (case (hv_parseDate H a, hv_parseDate H b) of (Some x, Some y) \<Rightarrow> Some \<bar>x - y\<bar> | _ \<Rightarrow> None)"

fun nearer :: "int option \<Rightarrow> int option \<Rightarrow> bool" where
  "nearer (Some x) (Some y) = (x < y)"
| "nearer (Some x) None = True"
| "nearer None _ = False"

fun nearest_from :: "history_env \<Rightarrow> string \<Rightarrow> history_run \<Rightarrow> history_run list \<Rightarrow> history_run" where
  "nearest_from H t best [] = best"
| "nearest_from H t best (r # rs) =
     nearest_from H t (if nearer (distance H t (hr_createdAt r)) (distance H t (hr_createdAt best)) then r else best) rs"

definition nearestRun :: "history_env \<Rightarrow> string \<Rightarrow> history_run list \<Rightarrow> history_run option" where
  "nearestRun H t rs = (case rs of [] \<Rightarrow> None | r # rs' \<Rightarrow> Some (nearest_from H t r rs'))"

definition has_prompt :: "history_run \<Rightarrow> bool" where
  "has_prompt r \<longleftrightarrow> (case hr_publicPrompt r of None \<Rightarrow> False | Some p \<Rightarrow> p \<noteq> [])"

definition prompt_of :: "history_run \<Rightarrow> string" where
  "prompt_of r = (case hr_publicPrompt r of None \<Rightarrow> [] | Some p \<Rightarrow> p)"

text \<open>The run that a message with this text and run id is matched with\<close>

definition matched_run ::
  "history_env \<Rightarrow> history_run list \<Rightarrow> string \<Rightarrow> string \<Rightarrow> string option \<Rightarrow> history_run option" where
  "matched_run H unmatched createdAt txt runId =
     (case (case runId of None \<Rightarrow> None | Some i \<Rightarrow> List.find (\<lambda>r. hr_id r = i) unmatched) of
        Some r \<Rightarrow> Some r
      | None \<Rightarrow> nearestRun H createdAt
          (filter (\<lambda>r. prompt_of r = txt \<or> ends_with (trim_end txt) (trim_end (prompt_of r))) unmatched))"

fun reconcile_items :: "history_env \<Rightarrow> history_run list \<Rightarrow> run_id list \<Rightarrow> history_item list \<Rightarrow> history_item list" where
  "reconcile_items H candidates matched [] = []"
| "reconcile_items H candidates matched (item # rest) =
     (case hi_body item of
        UserMessage txt runId attachments \<Rightarrow>
          (case matched_run H (filter (\<lambda>r. hr_id r \<notin> set matched) candidates) (hi_createdAt item) txt runId of
             None \<Rightarrow> item # reconcile_items H candidates matched rest
           | Some r \<Rightarrow> item\<lparr>hi_body := UserMessage (prompt_of r) (Some (hr_id r)) attachments\<rparr> #
               reconcile_items H candidates (hr_id r # matched) rest)
      | _ \<Rightarrow> item # reconcile_items H candidates matched rest)"

definition reconcileRunPromptsInThreadHistory ::
  "history_env \<Rightarrow> history_item list \<Rightarrow> history_run list \<Rightarrow> history_item list" where
  "reconcileRunPromptsInThreadHistory H items runsNewestFirst =
     reconcile_items H (filter has_prompt (rev runsNewestFirst)) [] items"

definition attach_candidates ::
  "history_run list \<Rightarrow> run_id list \<Rightarrow> string \<Rightarrow> string option \<Rightarrow> history_run list" where
  "attach_candidates candidates matched txt runId =
     filter (\<lambda>r. \<not> (hr_id r \<in> set matched \<or> (has_prompt r \<and> prompt_of r \<noteq> txt) \<or>
       (runId \<noteq> None \<and> runId \<noteq> Some (hr_id r)))) candidates"

fun attach_items :: "history_env \<Rightarrow> history_run list \<Rightarrow> run_id list \<Rightarrow> history_item list \<Rightarrow> history_item list" where
  "attach_items H candidates matched [] = []"
| "attach_items H candidates matched (item # rest) =
     (case hi_body item of
        UserMessage txt runId attachments \<Rightarrow>
          (case nearestRun H (hi_createdAt item) (attach_candidates candidates matched txt runId) of
             None \<Rightarrow> item # attach_items H candidates matched rest
           | Some r \<Rightarrow> item\<lparr>hi_body := UserMessage txt (Some (hr_id r)) (Some (hr_attachments r))\<rparr> #
               attach_items H candidates (hr_id r # matched) rest)
      | _ \<Rightarrow> item # attach_items H candidates matched rest)"

definition attachRunAttachmentsToThreadHistory ::
  "history_env \<Rightarrow> history_item list \<Rightarrow> history_run list \<Rightarrow> history_item list" where
  "attachRunAttachmentsToThreadHistory H items runsNewestFirst =
     attach_items H (filter (\<lambda>r. hr_attachments r \<noteq> []) (rev runsNewestFirst)) [] items"

section \<open>Events as items\<close>

definition historyItemId :: "stored_event \<Rightarrow> string \<Rightarrow> string" where
  "historyItemId e suffix =
     (case he_rawEventId e of None \<Rightarrow> ''run-event:'' @ he_id e | Some i \<Rightarrow> i @ suffix)"

text \<open>A string property of the payload\<close>

definition payload_text :: "stored_event \<Rightarrow> string \<Rightarrow> string" where
  "payload_text e k = string_or (field_of (record_of (he_payload e)) k) []"

definition event_item :: "stored_event \<Rightarrow> string \<Rightarrow> history_body \<Rightarrow> history_item" where
  "event_item e suffix b = \<lparr>hi_id = historyItemId e suffix, hi_createdAt = he_ts e, hi_turnId = None, hi_body = b\<rparr>"

definition runEventToHistoryItem ::
  "stored_event \<Rightarrow> (string, string) assoc \<Rightarrow> history_item option \<times> (string, string) assoc" where
  "runEventToHistoryItem e toolNames =
     (let t = he_type e; f = field_of (record_of (he_payload e)); callId = payload_text e ''toolCallId'' in
      if t = ''schedule_trigger'' then
        (Some (event_item e [] (ScheduleTrigger (payload_text e ''prompt'') (payload_text e ''triggeredAt'') (Some (he_runId e)))), toolNames)
      else if t = ''assistant_message'' \<and> f ''delivery'' = JStr ''message'' then
        (Some (event_item e [] (AssistantMessage (payload_text e ''text''))), toolNames)
      else if t = ''reasoning_summary'' then
        (Some (event_item e [] (ReasoningSummary (payload_text e ''text''))), toolNames)
      else if t = ''tool_use'' then
        (Some (event_item e '':use'' (ToolUse (payload_text e ''name'') (change_record (f ''input'')))),
         map_put callId (payload_text e ''name'') toolNames)
      else if t = ''tool_result'' then
        (Some (event_item e '':result'' (ToolResult
           (case map_of toolNames callId of None \<Rightarrow> callId | Some n \<Rightarrow> n)
           (payload_text e ''output'') (f ''isError'' = JBool True))), toolNames)
      else if t = ''file_change'' then
        (Some (event_item e [] (FileChange (f ''changes'') (payload_text e ''status''))), toolNames)
      else if t = ''done'' then (Some (event_item e [] (DoneItem (payload_text e ''status''))), toolNames)
      else (None, toolNames))"

fun event_items :: "stored_event list \<Rightarrow> (string, string) assoc \<Rightarrow> history_item list" where
  "event_items [] toolNames = []"
| "event_items (e # es) toolNames =
     (case runEventToHistoryItem e toolNames of
        (None, toolNames') \<Rightarrow> event_items es toolNames'
      | (Some item, toolNames') \<Rightarrow> item # event_items es toolNames')"

definition prompt_item :: "history_run \<Rightarrow> history_item list" where
  "prompt_item r =
     (if \<not> has_prompt r then []
      else [\<lparr>hi_id = ''run-prompt:'' @ hr_id r, hi_createdAt = hr_createdAt r, hi_turnId = None,
             hi_body = UserMessage (prompt_of r) (if hr_attachments r = [] then None else Some (hr_id r))
               (if hr_attachments r = [] then None else Some (hr_attachments r))\<rparr>])"

text \<open>The items that the loop over the runs gives to \<^verbatim>\<open>appendRunItem\<close>\<close>

definition run_items :: "(run_id \<Rightarrow> stored_event list) \<Rightarrow> history_run list \<Rightarrow> history_item list" where
  "run_items listEvents runsNewestFirst =
     concat (map (\<lambda>r. prompt_item r @ event_items (listEvents (hr_id r)) []) (rev runsNewestFirst))"

section \<open>Merging\<close>

definition second_of :: "history_env \<Rightarrow> string \<Rightarrow> int" where
  "second_of H t = (case hv_parseDate H t of None \<Rightarrow> 0 | Some x \<Rightarrow> x div 1000)"

definition historyItemPriority :: "history_item \<Rightarrow> int" where
  "historyItemPriority item =
     (case hi_body item of
        UserMessage _ _ _ \<Rightarrow> 0 | ScheduleTrigger _ _ _ \<Rightarrow> 0
      | ReasoningSummary _ \<Rightarrow> 1 | ToolUse _ _ \<Rightarrow> 1 | ToolResult _ _ _ \<Rightarrow> 1 | FileChange _ _ \<Rightarrow> 1
      | AssistantMessage _ \<Rightarrow> 2
      | _ \<Rightarrow> 3)"

text \<open>A difference that is \<^verbatim>\<open>NaN\<close> counts as none.\<close>

definition compareHistoryItems :: "history_env \<Rightarrow> history_item \<Rightarrow> history_item \<Rightarrow> int" where
  "compareHistoryItems H l r =
     (let s = second_of H (hi_createdAt l) - second_of H (hi_createdAt r);
          p = historyItemPriority l - historyItemPriority r in
      if s \<noteq> 0 then s else if p \<noteq> 0 then p
      else (case (hv_parseDate H (hi_createdAt l), hv_parseDate H (hi_createdAt r)) of
              (Some x, Some y) \<Rightarrow> x - y | _ \<Rightarrow> 0))"

definition second_text :: "history_env \<Rightarrow> string \<Rightarrow> string" where
  "second_text H t = (case hv_parseDate H t of None \<Rightarrow> ''NaN'' | Some x \<Rightarrow> int_text (x div 1000))"

definition richItemSignature :: "history_env \<Rightarrow> history_item \<Rightarrow> string option" where
  "richItemSignature H item =
     (let s = second_text H (hi_createdAt item) in
      case hi_body item of
        UserMessage txt _ _ \<Rightarrow> Some (''user:'' @ s @ '':'' @ txt)
      | ScheduleTrigger prompt triggeredAt _ \<Rightarrow> Some (''schedule:'' @ s @ '':'' @ prompt @ '':'' @ triggeredAt)
      | AssistantMessage txt \<Rightarrow> Some (''assistant:'' @ s @ '':'' @ txt)
      | ReasoningSummary txt \<Rightarrow> Some (''reasoning:'' @ s @ '':'' @ txt)
      | ToolUse name input \<Rightarrow> Some (''tool-use:'' @ s @ '':'' @ name @ '':'' @
          (case field_of (Some input) ''command'' of JStr c \<Rightarrow> c | _ \<Rightarrow> hv_stringify H (JObj input)))
      | ToolResult name output isError \<Rightarrow> Some (''tool-result:'' @ s @ '':'' @ name @ '':'' @ output @ '':'' @
          (if isError then ''true'' else ''false''))
      | FileChange changes status \<Rightarrow> Some (''file-change:'' @ s @ '':'' @ status @ '':'' @ hv_stringify H changes)
      | DoneItem status \<Rightarrow> Some (''done:'' @ s @ '':'' @ status)
      | _ \<Rightarrow> None)"

text \<open>\<^verbatim>\<open>runItems\<close> and \<^verbatim>\<open>runItemIndexes\<close>\<close>

type_synonym merge_state = "history_item list \<times> (string, nat) assoc"

definition appendRunItem ::
  "history_env \<Rightarrow> string set \<Rightarrow> string set \<Rightarrow> history_item \<Rightarrow> merge_state \<Rightarrow> merge_state" where
  "appendRunItem H existingIds existingSignatures item st =
     (case st of (runItems, runItemIndexes) \<Rightarrow>
        if hi_id item \<in> existingIds then st
        else if (case richItemSignature H item of None \<Rightarrow> False | Some s \<Rightarrow> s \<in> existingSignatures) then st
        else (case map_of runItemIndexes (hi_id item) of
                Some k \<Rightarrow> (runItems[k := item], runItemIndexes)
              | None \<Rightarrow> (runItems @ [item], map_put (hi_id item) (length runItems) runItemIndexes)))"

text \<open>\<^verbatim>\<open>Array.prototype.sort\<close>: each element is put behind those that it does not precede.\<close>

fun insert_sorted :: "('a \<Rightarrow> 'a \<Rightarrow> int) \<Rightarrow> 'a \<Rightarrow> 'a list \<Rightarrow> 'a list" where
  "insert_sorted cmp x [] = [x]"
| "insert_sorted cmp x (y # ys) = (if cmp x y < 0 then x # y # ys else y # insert_sorted cmp x ys)"

definition js_sort :: "('a \<Rightarrow> 'a \<Rightarrow> int) \<Rightarrow> 'a list \<Rightarrow> 'a list" where
  "js_sort cmp xs = fold (insert_sorted cmp) xs []"

definition compare_indexed :: "history_env \<Rightarrow> history_item \<times> nat \<Rightarrow> history_item \<times> nat \<Rightarrow> int" where
  "compare_indexed H l r =
     (let c = compareHistoryItems H (fst l) (fst r) in if c \<noteq> 0 then c else int (snd l) - int (snd r))"

definition mergeRunEventsIntoThreadHistory ::
  "history_env \<Rightarrow> history_item list \<Rightarrow> history_run list \<Rightarrow> (run_id \<Rightarrow> stored_event list) \<Rightarrow> history_item list" where
  "mergeRunEventsIntoThreadHistory H historyItems runsNewestFirst listEvents =
     (let enriched = attachRunAttachmentsToThreadHistory H
            (reconcileRunPromptsInThreadHistory H historyItems runsNewestFirst) runsNewestFirst;
          existingIds = set (map hi_id enriched);
          existingSignatures = set (concat (map (\<lambda>i. case richItemSignature H i of None \<Rightarrow> [] | Some s \<Rightarrow> [s]) enriched));
          runItems = fst (fold (appendRunItem H existingIds existingSignatures)
            (run_items listEvents runsNewestFirst) ([], []));
          items = enriched @ runItems
      in map fst (js_sort (compare_indexed H) (zip items [0..<length items])))"

text \<open>The items of a history request: \<open>before\<close> is the cursor, and \<open>limit\<close> the length of the page.\<close>

definition scheduled_runs :: "history_run list \<Rightarrow> string \<Rightarrow> history_run list" where
  "scheduled_runs runs triggeredAt =
     filter (\<lambda>r. hr_createdBy r = ''schedule'' \<and> hr_publicPrompt r \<noteq> None \<and> hr_triggeredAt r = Some triggeredAt) runs"

definition attachScheduleRunMetadata :: "history_item list \<Rightarrow> history_run list \<Rightarrow> history_item list" where
  "attachScheduleRunMetadata items runs =
     map (\<lambda>item. case hi_body item of
         ScheduleTrigger prompt triggeredAt runId \<Rightarrow>
           (let candidates = scheduled_runs runs triggeredAt in
            case (case List.find (\<lambda>r. prompt_of r = prompt) candidates of
                    Some r \<Rightarrow> Some r | None \<Rightarrow> (case candidates of [] \<Rightarrow> None | r # _ \<Rightarrow> Some r)) of
              None \<Rightarrow> item
            | Some r \<Rightarrow> item\<lparr>hi_body := ScheduleTrigger (prompt_of r) triggeredAt (Some (hr_id r))\<rparr>)
       | _ \<Rightarrow> item) items"

definition is_workflow_start :: "history_item \<Rightarrow> bool" where
  "is_workflow_start item = (case hi_body item of WorkflowStart _ \<Rightarrow> True | _ \<Rightarrow> False)"

definition compare_times :: "history_env \<Rightarrow> history_item \<Rightarrow> history_item \<Rightarrow> int" where
  "compare_times H l r =
     (case (hv_parseDate H (hi_createdAt l), hv_parseDate H (hi_createdAt r)) of
        (Some x, Some y) \<Rightarrow>
          if x \<noteq> y then x - y
          else (if is_workflow_start l then - 1 else 0) - (if is_workflow_start r then - 1 else 0)
      | _ \<Rightarrow> 0)"

definition history_page ::
  "history_env \<Rightarrow> string option \<Rightarrow> nat \<Rightarrow> history_item list \<Rightarrow> history_run list \<Rightarrow> (run_id option \<times> json) list \<Rightarrow>
   (run_id \<Rightarrow> stored_event list) \<Rightarrow> (history_run list \<Rightarrow> history_item list) \<Rightarrow> history_item list" where
  "history_page H before limit historyItems threadRuns attachments listEvents workflowHistoryItems =
     (let items1 = attachScheduleRunMetadata historyItems threadRuns;
          items2 = reconcileRunPromptsInThreadHistory H items1 threadRuns;
          eventRuns = (if before = None then take limit threadRuns else []);
          with_attachments = map (\<lambda>r. r\<lparr>hr_attachments := map snd (filter (\<lambda>a. fst a = Some (hr_id r)) attachments)\<rparr>);
          items3 = attachRunAttachmentsToThreadHistory H items2 (with_attachments threadRuns)
      in if before \<noteq> None then items3
         else js_sort (compare_times H)
           (mergeRunEventsIntoThreadHistory H items3 (with_attachments eventRuns) listEvents @ workflowHistoryItems eventRuns))"

section \<open>Sorting\<close>

lemma mset_insert_sorted [simp]: "mset (insert_sorted cmp x ys) = add_mset x (mset ys)"
  by (induction ys) auto

lemma mset_js_sort [simp]: "mset (js_sort cmp xs) = mset xs"
proof -
  have "mset (fold (insert_sorted cmp) xs ys) = mset xs + mset ys" for ys
    by (induction xs arbitrary: ys) auto
  then show ?thesis by (simp add: js_sort_def)
qed

lemma insert_sorted_key:
  fixes key :: "'a \<Rightarrow> 'b :: linorder"
  assumes "\<And>y. y \<in> set ys \<Longrightarrow> cmp x y < 0 \<longleftrightarrow> key x < key y" and "sorted (map key ys)"
  shows "sorted (map key (insert_sorted cmp x ys))"
  using assms
proof (induction ys)
  case (Cons y ys)
  have "set (insert_sorted cmp x ys) = insert x (set ys)"
    by (metis mset_insert_sorted set_mset_mset set_mset_add_mset_insert)
  then show ?case using Cons by (auto simp: less_imp_le)
qed simp

lemma js_sort_key:
  fixes key :: "'a \<Rightarrow> 'b :: linorder"
  assumes "\<And>x y. x \<in> set xs \<Longrightarrow> y \<in> set xs \<Longrightarrow> cmp x y < 0 \<longleftrightarrow> key x < key y"
  shows "sorted (map key (js_sort cmp xs))"
proof -
  have "sorted (map key (fold (insert_sorted cmp) zs ys))"
    if "set zs \<subseteq> set xs" "set ys \<subseteq> set xs" "sorted (map key ys)" for zs ys
    using that
  proof (induction zs arbitrary: ys)
    case (Cons z zs)
    have "set (insert_sorted cmp z ys) = insert z (set ys)"
      by (metis mset_insert_sorted set_mset_mset set_mset_add_mset_insert)
    moreover have "sorted (map key (insert_sorted cmp z ys))"
      by (rule insert_sorted_key) (use Cons.prems assms in auto)
    ultimately show ?case using Cons by simp
  qed simp
  then show ?thesis by (simp add: js_sort_def)
qed

lemma set_js_sort [simp]: "set (js_sort cmp xs) = set xs"
  by (metis mset_js_sort set_mset_mset)

text \<open>With dates that parse, the comparison is that of a key.\<close>

definition item_key :: "history_env \<Rightarrow> history_item \<times> nat \<Rightarrow> int \<times> int \<times> int \<times> nat" where
  "item_key H z =
     (second_of H (hi_createdAt (fst z)), historyItemPriority (fst z), the (hv_parseDate H (hi_createdAt (fst z))), snd z)"

lemma compare_key:
  assumes "hv_parseDate H (hi_createdAt (fst z)) \<noteq> None" and "hv_parseDate H (hi_createdAt (fst z')) \<noteq> None"
  shows "compare_indexed H z z' < 0 \<longleftrightarrow> item_key H z < item_key H z'"
    and "item_key H z \<le> item_key H z' \<Longrightarrow> compareHistoryItems H (fst z) (fst z') \<le> 0"
  using assms by (auto simp: compare_indexed_def compareHistoryItems_def item_key_def Let_def less_prod_def less_eq_prod_def
      split: if_splits)

section \<open>What the merge keeps\<close>

lemma reconcile_keeps:
  "map hi_id (reconcile_items H candidates matched items) = map hi_id items"
  "map hi_createdAt (reconcile_items H candidates matched items) = map hi_createdAt items"
  by (induction items arbitrary: matched) (simp_all split: history_body.splits option.splits)

lemma attach_keeps:
  "map hi_id (attach_items H candidates matched items) = map hi_id items"
  "map hi_createdAt (attach_items H candidates matched items) = map hi_createdAt items"
  by (induction items arbitrary: matched) (simp_all split: history_body.splits option.splits)

text \<open>The items that are collected\<close>

definition merge_ok :: "history_env \<Rightarrow> string set \<Rightarrow> string set \<Rightarrow> merge_state \<Rightarrow> bool" where
  "merge_ok H ids sigs st \<longleftrightarrow>
     (\<forall>i k. map_of (snd st) i = Some k \<longleftrightarrow> k < length (fst st) \<and> hi_id (fst st ! k) = i) \<and>
     (\<forall>x \<in> set (fst st). hi_id x \<notin> ids \<and> (\<forall>s. richItemSignature H x = Some s \<longrightarrow> s \<notin> sigs))"

lemma appendRunItem_cases:
  assumes "merge_ok H ids sigs (xs, ix)"
  obtains (known) "hi_id x \<in> ids \<or> (\<exists>s \<in> sigs. richItemSignature H x = Some s)" "appendRunItem H ids sigs x (xs, ix) = (xs, ix)"
  | (again) k where "k < length xs" "hi_id (xs ! k) = hi_id x" "appendRunItem H ids sigs x (xs, ix) = (xs[k := x], ix)"
      "hi_id x \<notin> ids" "\<And>s. richItemSignature H x = Some s \<Longrightarrow> s \<notin> sigs"
  | (new) "hi_id x \<notin> hi_id ` set xs" "appendRunItem H ids sigs x (xs, ix) = (xs @ [x], map_put (hi_id x) (length xs) ix)"
      "hi_id x \<notin> ids" "\<And>s. richItemSignature H x = Some s \<Longrightarrow> s \<notin> sigs"
proof (cases "hi_id x \<in> ids \<or> (\<exists>s \<in> sigs. richItemSignature H x = Some s)")
  case True
  then have "appendRunItem H ids sigs x (xs, ix) = (xs, ix)" by (auto simp: appendRunItem_def split: option.splits)
  then show ?thesis by (rule known [OF True])
next
  case False
  then have fresh: "hi_id x \<notin> ids" "\<And>s. richItemSignature H x = Some s \<Longrightarrow> s \<notin> sigs" by auto
  have a: "appendRunItem H ids sigs x (xs, ix) =
      (case map_of ix (hi_id x) of Some k \<Rightarrow> (xs[k := x], ix) | None \<Rightarrow> (xs @ [x], map_put (hi_id x) (length xs) ix))"
    using False by (auto simp: appendRunItem_def split: option.splits)
  show ?thesis
  proof (cases "map_of ix (hi_id x)")
    case None
    have "hi_id x \<noteq> hi_id (xs ! k)" if "k < length xs" for k
      using assms None that by (metis (no_types, lifting) fst_conv merge_ok_def option.distinct(1) snd_conv)
    then have "hi_id x \<notin> hi_id ` set xs" by (metis imageE in_set_conv_nth)
    then show ?thesis using new a None fresh by simp
  next
    case (Some k)
    then show ?thesis using again [of k] a assms fresh by (simp add: merge_ok_def)
  qed
qed

lemma append_item_ok:
  assumes "merge_ok H ids sigs st"
  shows "merge_ok H ids sigs (appendRunItem H ids sigs x st)"
    and "hi_id ` set (fst st) \<subseteq> hi_id ` set (fst (appendRunItem H ids sigs x st))"
    and "set (fst (appendRunItem H ids sigs x st)) \<subseteq> insert x (set (fst st))"
    and "hi_id x \<in> ids \<or> (\<exists>s \<in> sigs. richItemSignature H x = Some s) \<or> hi_id x \<in> hi_id ` set (fst (appendRunItem H ids sigs x st))"
proof -
  obtain xs ix where st: "st = (xs, ix)" by (cases st)
  have ok: "merge_ok H ids sigs (xs, ix)" using assms st by simp
  have index: "map_of ix i = Some k \<longleftrightarrow> k < length xs \<and> hi_id (xs ! k) = i" for i k
    using ok by (simp add: merge_ok_def)
  have items: "hi_id y \<notin> ids" "richItemSignature H y = Some s \<Longrightarrow> s \<notin> sigs" if "y \<in> set xs" for y s
    using ok that by (auto simp: merge_ok_def)
  have "merge_ok H ids sigs (appendRunItem H ids sigs x st) \<and>
    hi_id ` set (fst st) \<subseteq> hi_id ` set (fst (appendRunItem H ids sigs x st)) \<and>
    set (fst (appendRunItem H ids sigs x st)) \<subseteq> insert x (set (fst st)) \<and>
    (hi_id x \<in> ids \<or> (\<exists>s \<in> sigs. richItemSignature H x = Some s) \<or> hi_id x \<in> hi_id ` set (fst (appendRunItem H ids sigs x st)))"
    using ok
  proof (cases rule: appendRunItem_cases [where x = x])
    case known
    then show ?thesis using ok by (auto simp: st)
  next
    case (again k)
    have same: "map hi_id (xs[k := x]) = map hi_id xs" using again(1,2) by (metis list_update_id map_update nth_map)
    then have ids: "hi_id ` set (xs[k := x]) = hi_id ` set xs" by (metis set_map)
    have nth: "j < length xs \<Longrightarrow> hi_id (xs[k := x] ! j) = hi_id (xs ! j)" for j
      using same by (metis length_list_update nth_map)
    have sub: "set (xs[k := x]) \<subseteq> insert x (set xs)" by (rule set_update_subset_insert)
    have "merge_ok H ids sigs (xs[k := x], ix)"
      unfolding merge_ok_def using index nth items again(4,5) sub by (auto simp: subset_iff)
    moreover have "hi_id x \<in> hi_id ` set (xs[k := x])" using again(1) by (simp add: set_update_memI)
    ultimately show ?thesis using again(3) ids sub by (simp add: st)
  next
    case new
    have "hi_id (xs ! k) \<noteq> hi_id x" if "k < length xs" for k using new(1) that by (metis image_eqI nth_mem)
    then have "merge_ok H ids sigs (xs @ [x], map_put (hi_id x) (length xs) ix)"
      unfolding merge_ok_def using index items new(1,3,4)
      by (auto simp: nth_append less_Suc_eq image_iff)
    then show ?thesis using new(2) by (auto simp: st)
  qed
  then show "merge_ok H ids sigs (appendRunItem H ids sigs x st)"
    "hi_id ` set (fst st) \<subseteq> hi_id ` set (fst (appendRunItem H ids sigs x st))"
    "set (fst (appendRunItem H ids sigs x st)) \<subseteq> insert x (set (fst st))"
    "hi_id x \<in> ids \<or> (\<exists>s \<in> sigs. richItemSignature H x = Some s) \<or> hi_id x \<in> hi_id ` set (fst (appendRunItem H ids sigs x st))"
    by blast+
qed

lemma merge_ok_distinct: "merge_ok H ids sigs st \<Longrightarrow> distinct (map hi_id (fst st))"
proof -
  assume ok: "merge_ok H ids sigs st"
  have "i = j" if "i < length (fst st)" "j < length (fst st)" "hi_id (fst st ! i) = hi_id (fst st ! j)" for i j
  proof -
    have "map_of (snd st) (hi_id (fst st ! j)) = Some i" "map_of (snd st) (hi_id (fst st ! j)) = Some j"
      using ok that by (simp_all add: merge_ok_def)
    then show ?thesis by simp
  qed
  then show ?thesis by (auto simp: distinct_conv_nth)
qed

lemma fold_append_ok:
  assumes "merge_ok H ids sigs st"
  shows "merge_ok H ids sigs (fold (appendRunItem H ids sigs) xs st) \<and>
    hi_id ` set (fst st) \<subseteq> hi_id ` set (fst (fold (appendRunItem H ids sigs) xs st)) \<and>
    set (fst (fold (appendRunItem H ids sigs) xs st)) \<subseteq> set xs \<union> set (fst st) \<and>
    (\<forall>x \<in> set xs. hi_id x \<in> ids \<or> (\<exists>s \<in> sigs. richItemSignature H x = Some s) \<or>
       hi_id x \<in> hi_id ` set (fst (fold (appendRunItem H ids sigs) xs st)))"
  using assms
proof (induction xs arbitrary: st)
  case (Cons x xs)
  note a = append_item_ok [OF Cons.prems, of x]
  show ?case using Cons.IH [OF a(1)] a(2-4) by (simp add: subset_iff) blast
qed simp

definition enriched_items :: "history_env \<Rightarrow> history_item list \<Rightarrow> history_run list \<Rightarrow> history_item list" where
  "enriched_items H items runs =
     attachRunAttachmentsToThreadHistory H (reconcileRunPromptsInThreadHistory H items runs) runs"

lemma enriched_keeps:
  "map hi_id (enriched_items H items runs) = map hi_id items"
  "map hi_createdAt (enriched_items H items runs) = map hi_createdAt items"
  by (simp_all add: enriched_items_def attachRunAttachmentsToThreadHistory_def reconcileRunPromptsInThreadHistory_def
      reconcile_keeps attach_keeps)

lemma merge_split:
  obtains added where
    "mergeRunEventsIntoThreadHistory H items runs listEvents = map fst (js_sort (compare_indexed H)
       (zip (enriched_items H items runs @ added) [0..<length (enriched_items H items runs @ added)]))"
    "distinct (map hi_id added)" "set added \<subseteq> set (run_items listEvents runs)"
    "hi_id ` set added \<inter> hi_id ` set items = {}"
    "\<And>x. x \<in> set (run_items listEvents runs) \<Longrightarrow>
       richItemSignature H x \<notin> richItemSignature H ` set (enriched_items H items runs) \<Longrightarrow>
       hi_id x \<in> hi_id ` set items \<or> hi_id x \<in> hi_id ` set added"
proof -
  let ?E = "enriched_items H items runs" and ?R = "run_items listEvents runs"
  define ids sigs where "ids = set (map hi_id ?E)"
    and "sigs = set (concat (map (\<lambda>i. case richItemSignature H i of None \<Rightarrow> [] | Some s \<Rightarrow> [s]) ?E))"
  define added where "added = fst (fold (appendRunItem H ids sigs) ?R ([], []))"
  have M: "mergeRunEventsIntoThreadHistory H items runs listEvents =
      map fst (js_sort (compare_indexed H) (zip (?E @ added) [0..<length (?E @ added)]))"
    by (simp only: mergeRunEventsIntoThreadHistory_def Let_def enriched_items_def added_def ids_def sigs_def)
  have ids: "ids = hi_id ` set items" unfolding ids_def enriched_keeps by simp
  have sigs: "s \<in> sigs \<Longrightarrow> Some s \<in> richItemSignature H ` set ?E" for s
    unfolding sigs_def by (force split: option.splits)
  have "merge_ok H ids sigs ([], [])" by (simp add: merge_ok_def)
  from fold_append_ok [OF this, of ?R]
  have f: "merge_ok H ids sigs (fold (appendRunItem H ids sigs) ?R ([], []))" "set added \<subseteq> set ?R"
    "\<And>x. x \<in> set ?R \<Longrightarrow> hi_id x \<in> ids \<or> (\<exists>s \<in> sigs. richItemSignature H x = Some s) \<or> hi_id x \<in> hi_id ` set added"
    by (simp_all add: added_def)
  have "hi_id x \<notin> ids" if "x \<in> set added" for x using f(1) that by (simp add: merge_ok_def added_def)
  then have "hi_id ` set added \<inter> hi_id ` set items = {}" using ids by auto
  moreover have "hi_id x \<in> hi_id ` set items \<or> hi_id x \<in> hi_id ` set added"
    if "x \<in> set ?R" "richItemSignature H x \<notin> richItemSignature H ` set ?E" for x
    using f(3) [OF that(1)] that(2) sigs ids by auto
  ultimately show ?thesis using that M f(2) merge_ok_distinct [OF f(1)] by (simp add: added_def)
qed

text \<open>
  What the history is to show of an event: the kinds of events that it has items for, and the item of an
  event. The name of the tool of a result is the one that its use gave, and is left open here.
\<close>

definition shown_event :: "stored_event \<Rightarrow> bool" where
  "shown_event e \<longleftrightarrow>
     he_type e \<in> {''schedule_trigger'', ''reasoning_summary'', ''tool_use'', ''tool_result'', ''file_change'', ''done''} \<or>
     (he_type e = ''assistant_message'' \<and> field_of (record_of (he_payload e)) ''delivery'' = JStr ''message'')"

definition event_id :: "stored_event \<Rightarrow> string" where
  "event_id e = historyItemId e
     (if he_type e = ''tool_use'' then '':use'' else if he_type e = ''tool_result'' then '':result'' else [])"

definition depicts :: "stored_event \<Rightarrow> history_item \<Rightarrow> bool" where
  "depicts e x \<longleftrightarrow> hi_id x = event_id e \<and> hi_createdAt x = he_ts e \<and>
     (case hi_body x of
        ScheduleTrigger prompt time i \<Rightarrow> he_type e = ''schedule_trigger'' \<and>
          prompt = payload_text e ''prompt'' \<and> time = payload_text e ''triggeredAt'' \<and> i = Some (he_runId e)
      | AssistantMessage txt \<Rightarrow> he_type e = ''assistant_message'' \<and> txt = payload_text e ''text''
      | ReasoningSummary txt \<Rightarrow> he_type e = ''reasoning_summary'' \<and> txt = payload_text e ''text''
      | ToolUse name input \<Rightarrow> he_type e = ''tool_use'' \<and>
          name = payload_text e ''name'' \<and> input = change_record (field_of (record_of (he_payload e)) ''input'')
      | ToolResult name output isError \<Rightarrow> he_type e = ''tool_result'' \<and> output = payload_text e ''output'' \<and>
          (isError \<longleftrightarrow> field_of (record_of (he_payload e)) ''isError'' = JBool True)
      | FileChange changes status \<Rightarrow> he_type e = ''file_change'' \<and>
          changes = field_of (record_of (he_payload e)) ''changes'' \<and> status = payload_text e ''status''
      | DoneItem status \<Rightarrow> he_type e = ''done'' \<and> status = payload_text e ''status''
      | _ \<Rightarrow> False)"

definition depicts_prompt :: "history_run \<Rightarrow> history_item \<Rightarrow> bool" where
  "depicts_prompt r x \<longleftrightarrow> hi_id x = ''run-prompt:'' @ hr_id r \<and> hi_createdAt x = hr_createdAt r \<and>
     (case hi_body x of
        UserMessage txt i attachments \<Rightarrow> Some txt = hr_publicPrompt r \<and>
          (hr_attachments r \<noteq> [] \<longrightarrow> i = Some (hr_id r) \<and> attachments = Some (hr_attachments r))
      | _ \<Rightarrow> False)"

text \<open>An item is in a history under its id, or one of the remembered items has its kind, second and text.\<close>

definition shown_in :: "history_env \<Rightarrow> history_item list \<Rightarrow> history_item list \<Rightarrow> history_item \<Rightarrow> bool" where
  "shown_in H remembered merged x \<longleftrightarrow>
     hi_id x \<in> hi_id ` set merged \<or> richItemSignature H x \<in> richItemSignature H ` set remembered"

lemma shown_event_item:
  assumes "shown_event e"
  obtains x names' where "runEventToHistoryItem e names = (Some x, names')" "depicts e x"
proof -
  let ?p = "runEventToHistoryItem e names"
  have "\<exists>x. fst ?p = Some x \<and> depicts e x"
    using assms by (auto simp: shown_event_def runEventToHistoryItem_def depicts_def event_item_def event_id_def Let_def)
  then show ?thesis using that by (metis prod.collapse)
qed

lemma shown_event_in_items: "shown_event e \<Longrightarrow> e \<in> set es \<Longrightarrow> \<exists>x \<in> set (event_items es names). depicts e x"
proof (induction es arbitrary: names)
  case (Cons d es)
  obtain o' names' where d: "runEventToHistoryItem d names = (o', names')" by fastforce
  show ?case
  proof (cases "e = d")
    case True
    obtain x names2 where "runEventToHistoryItem d names = (Some x, names2)" "depicts d x"
      using shown_event_item Cons.prems(1) True by blast
    then show ?thesis using True by auto
  next
    case False
    then obtain x where "x \<in> set (event_items es names')" "depicts e x" using Cons.IH [OF Cons.prems(1)] Cons.prems(2) by auto
    then show ?thesis using d by (auto split: option.splits)
  qed
qed simp

lemma run_items_shown:
  assumes "r \<in> set runs"
  shows "e \<in> set (listEvents (hr_id r)) \<Longrightarrow> shown_event e \<Longrightarrow> \<exists>x \<in> set (run_items listEvents runs). depicts e x"
    and "has_prompt r \<Longrightarrow> \<exists>x \<in> set (run_items listEvents runs). depicts_prompt r x"
proof -
  have run: "set (prompt_item r @ event_items (listEvents (hr_id r)) []) \<subseteq> set (run_items listEvents runs)"
    using assms by (auto simp: run_items_def)
  show "\<exists>x \<in> set (run_items listEvents runs). depicts e x" if "e \<in> set (listEvents (hr_id r))" "shown_event e"
    using shown_event_in_items [OF that(2,1), of "[]"] run by auto
  show "\<exists>x \<in> set (run_items listEvents runs). depicts_prompt r x" if "has_prompt r"
  proof -
    have "\<exists>x \<in> set (prompt_item r). depicts_prompt r x"
      using that by (auto simp: prompt_item_def depicts_prompt_def prompt_of_def has_prompt_def split: option.splits)
    then show ?thesis using run by auto
  qed
qed


text \<open>A message that Codex remembers, and an event of the same second\<close>

definition sample_history_env :: history_env where
  "sample_history_env = \<lparr>hv_parseDate = (\<lambda>t. if t = ''05.0'' then Some 5000 else if t = ''05.3'' then Some 5300 else None),
     hv_stringify = (\<lambda>v. ''{}'')\<rparr>"

definition sample_item :: history_item where
  "sample_item = \<lparr>hi_id = ''m1'', hi_createdAt = ''05.0'', hi_turnId = None, hi_body = AssistantMessage ''Done''\<rparr>"

definition sample_run :: history_run where
  "sample_run = \<lparr>hr_id = ''r1'', hr_publicPrompt = None, hr_attachments = [], hr_createdAt = ''05.0'',
     hr_createdBy = ''user'', hr_triggeredAt = None\<rparr>"

definition sample_events :: "run_id \<Rightarrow> stored_event list" where
  "sample_events i = [\<lparr>he_id = ''e1'', he_runId = i, he_ts = ''05.3'', he_type = ''reasoning_summary'',
     he_payload = JObj [(''type'', JStr ''reasoning_summary''), (''text'', JStr ''First''), (''format'', JStr ''plain_text''),
       (''delivery'', JStr ''summary'')], he_rawEventId = Some ''raw1''\<rparr>]"


text \<open>The route sorts the merged history again, by time alone, which undoes the order within a second.\<close>

lemma page_undoes_merge:
  "map hi_id (history_page sample_history_env None 50 [sample_item] [sample_run] [] sample_events (\<lambda>rs. [])) = [''m1'', ''raw1'']"
  by code_simp

text \<open>It still has every item of the merge.\<close>

lemma history_page_items:
  "mset (history_page H None limit items runs attachments listEvents workflow) =
     mset (mergeRunEventsIntoThreadHistory H
       (attachRunAttachmentsToThreadHistory H
         (reconcileRunPromptsInThreadHistory H (attachScheduleRunMetadata items runs) runs)
         (map (\<lambda>r. r\<lparr>hr_attachments := map snd (filter (\<lambda>a. fst a = Some (hr_id r)) attachments)\<rparr>) runs))
       (map (\<lambda>r. r\<lparr>hr_attachments := map snd (filter (\<lambda>a. fst a = Some (hr_id r)) attachments)\<rparr>) (take limit runs)) listEvents) +
     mset (workflow (take limit runs))"
  by (simp add: history_page_def Let_def)

end
