(* ===== verification/ScheduleTiming.thy ===== *)
theory ScheduleTiming
  imports ScheduleValidator CodexArgs
begin

text \<open>
  The timings of the agent's schedule tools, \<^verbatim>\<open>agent-tools/schedule-timing.ts\<close>, and the cron expressions
  they are converted to.

  What an expression means is the documented reading of its five fields (minute, hour, day of the month,
  month, day of the week): a field is a list of \<^verbatim>\<open>*\<close>, \<^verbatim>\<open>*/n\<close>, \<^verbatim>\<open>a\<close> and \<^verbatim>\<open>a-b\<close> (\<open>field_matches\<close>, \<open>cron_matches\<close>). The
  main theorem says for which timings the expression fits exactly the moments that the timing is meant
  to have (\<open>timing_due\<close>, which counts the minutes of an interval through the day): for all but the
  intervals without a window whose minutes do not divide the hour.
\<close>

section \<open>Timings\<close>

datatype timing =
    Interval rat "string option" "string option" \<comment> \<open>\<^verbatim>\<open>everyMinutes, startTime, endTime\<close>\<close>
  | Daily string bool \<comment> \<open>\<^verbatim>\<open>time, weekdaysOnly\<close>\<close>
  | Weekly "rat list" string \<comment> \<open>\<^verbatim>\<open>weekdays, time\<close>\<close>
  | CronTiming string

text \<open>A result is the message of the \<^verbatim>\<open>AgentScheduleTimingError\<close> or a value.\<close>

definition is_integer :: "rat \<Rightarrow> bool" where
  "is_integer q \<longleftrightarrow> of_int (floor q) = q"

definition is_digit_between :: "char \<Rightarrow> char \<Rightarrow> char \<Rightarrow> bool" where
  "is_digit_between a b c \<longleftrightarrow> a \<le> c \<and> c \<le> b"

definition digit_value :: "char \<Rightarrow> nat" where
  "digit_value c = of_char c - 48"

text \<open>\<^verbatim>\<open>/^([01]\d|2[0-3]):([0-5]\d)$/\<close>, as hour and minute\<close>

definition parseClockTime :: "string \<Rightarrow> string \<Rightarrow> string + nat \<times> nat" where
  "parseClockTime value field =
     (case value of
        [a, b, c, d, e] \<Rightarrow>
          if (is_digit_between (CHR ''0'') (CHR ''1'') a \<and> is_digit_between (CHR ''0'') (CHR ''9'') b \<or>
              a = CHR ''2'' \<and> is_digit_between (CHR ''0'') (CHR ''3'') b) \<and>
             c = CHR '':'' \<and> is_digit_between (CHR ''0'') (CHR ''5'') d \<and> is_digit_between (CHR ''0'') (CHR ''9'') e
          then Inr (10 * digit_value a + digit_value b, 10 * digit_value d + digit_value e)
          else Inl (field @ '' must use HH:mm'')
      | _ \<Rightarrow> Inl (field @ '' must use HH:mm''))"

definition intervalToCron :: "rat \<Rightarrow> string option \<Rightarrow> string option \<Rightarrow> string + string" where
  "intervalToCron everyMinutes startTime endTime =
     (if \<not> is_integer everyMinutes \<or> everyMinutes < 1 \<or> everyMinutes > 60
      then Inl ''everyMinutes must be an integer between 1 and 60''
      else
        let n = nat (floor everyMinutes) in
        case (startTime, endTime) of
          (None, None) \<Rightarrow> Inr (if n = 60 then ''0 * * * *'' else ''*/'' @ nat_text n @ '' * * * *'')
        | (Some s, Some e) \<Rightarrow>
            if 60 mod n \<noteq> 0 then Inl ''windowed everyMinutes must divide 60 exactly''
            else
              (case parseClockTime s ''startTime'' of
                 Inl m \<Rightarrow> Inl m
               | Inr (sh, sm) \<Rightarrow>
                   (case parseClockTime e ''endTime'' of
                      Inl m \<Rightarrow> Inl m
                    | Inr (eh, em) \<Rightarrow>
                        if sm \<noteq> 0 \<or> em \<noteq> 0
                        then Inl ''windowed interval startTime and endTime must be on an hour boundary''
                        else if eh \<le> sh then Inl ''endTime must be later than startTime''
                        else
                          let minuteField = (if n = 60 then ''0'' else join_with '','' (map (\<lambda>i. nat_text (i * n)) [0..<60 div n]));
                              lastHour = eh - 1;
                              hourField = (if lastHour = sh then nat_text sh else nat_text sh @ ''-'' @ nat_text lastHour)
                          in Inr (minuteField @ '' '' @ hourField @ '' * * *'')))
        | _ \<Rightarrow> Inl ''startTime and endTime must be provided together'')"

definition weekday_numbers :: "rat list \<Rightarrow> rat list" where
  "weekday_numbers days = sort (remdups days)"

definition timingToCron :: "timing \<Rightarrow> string + string" where
  "timingToCron t =
     (case t of
        Interval everyMinutes startTime endTime \<Rightarrow> intervalToCron everyMinutes startTime endTime
      | Daily time weekdaysOnly \<Rightarrow>
          (case parseClockTime time ''time'' of
             Inl m \<Rightarrow> Inl m
           | Inr (hour, minute) \<Rightarrow>
               Inr (nat_text minute @ '' '' @ nat_text hour @ '' * * '' @ (if weekdaysOnly then ''1-5'' else ''*'')))
      | Weekly days time \<Rightarrow>
          (case parseClockTime time ''time'' of
             Inl m \<Rightarrow> Inl m
           | Inr (hour, minute) \<Rightarrow>
               let weekdays = weekday_numbers days in
               if weekdays = [] \<or> list_ex (\<lambda>d. \<not> is_integer d \<or> d < 0 \<or> d > 6) weekdays
               then Inl ''weekdays must contain one or more integers between 0 and 6''
               else Inr (nat_text minute @ '' '' @ nat_text hour @ '' * * '' @
                 join_with '','' (map (\<lambda>d. nat_text (nat (floor d))) weekdays)))
      | CronTiming expression \<Rightarrow>
          if js_trim expression = [] then Inl ''cron expression must be non-empty'' else Inr (js_trim expression))"

text \<open>\<^verbatim>\<open>convertAgentScheduleTiming\<close>, with cron expression and time zone\<close>

definition convertAgentScheduleTiming ::
  "'fs sched_env \<Rightarrow> timing \<Rightarrow> string option \<Rightarrow> string option \<Rightarrow> string + string \<times> string" where
  "convertAgentScheduleTiming E t timezone defaultTimezone =
     (let tz = (case timezone of Some z \<Rightarrow> z | None \<Rightarrow>
            (case defaultTimezone of Some z \<Rightarrow> z | None \<Rightarrow> getDefaultTimezone E)) in
      if \<not> se_timezoneKnown E tz then Inl ''timezone must be a valid IANA timezone''
      else
        (case timingToCron t of
           Inl m \<Rightarrow> Inl m
         | Inr cron \<Rightarrow>
             (case validateCronExpression E cron of
                Some m \<Rightarrow> Inl (''timing produced invalid cron: '' @ m)
              | None \<Rightarrow> Inr (cron, tz))))"

section \<open>The meaning of cron expressions\<close>

record moment =
  mo_minute :: nat
  mo_hour :: nat
  mo_day :: nat
  mo_month :: nat
  mo_weekday :: nat

definition moment_ok :: "moment \<Rightarrow> bool" where
  "moment_ok m \<longleftrightarrow> mo_minute m < 60 \<and> mo_hour m < 24 \<and> mo_weekday m < 7"

fun split_at :: "char \<Rightarrow> string \<Rightarrow> string list" where
  "split_at c [] = [[]]"
| "split_at c (x # s) =
     (if x = c then [] # split_at c s
      else (case split_at c s of [] \<Rightarrow> [[x]] | l # ls \<Rightarrow> (x # l) # ls))"

fun text_number :: "string \<Rightarrow> nat \<Rightarrow> nat" where
  "text_number [] n = n"
| "text_number (c # s) n = text_number s (10 * n + digit_value c)"

definition number_of :: "string \<Rightarrow> nat" where
  "number_of s = text_number s 0"

definition part_matches :: "string \<Rightarrow> nat \<Rightarrow> bool" where
  "part_matches p n =
     (case split_at (CHR ''/'') p of
        [s, k] \<Rightarrow> s = ''*'' \<and> n mod number_of k = 0
      | _ \<Rightarrow>
          if p = ''*'' then True
          else (case split_at (CHR ''-'') p of
                  [a, b] \<Rightarrow> number_of a \<le> n \<and> n \<le> number_of b
                | _ \<Rightarrow> n = number_of p))"

definition field_matches :: "string \<Rightarrow> nat \<Rightarrow> bool" where
  "field_matches f n = list_ex (\<lambda>p. part_matches p n) (split_at (CHR '','') f)"

definition cron_matches :: "string \<Rightarrow> moment \<Rightarrow> bool" where
  "cron_matches cron m =
     (case split_at (CHR '' '') cron of
        [minute, hour, day, month, weekday] \<Rightarrow>
          field_matches minute (mo_minute m) \<and> field_matches hour (mo_hour m) \<and>
          field_matches day (mo_day m) \<and> field_matches month (mo_month m) \<and> field_matches weekday (mo_weekday m)
      | _ \<Rightarrow> False)"

text \<open>
  The moments that a timing is meant to have. An interval of n minutes is due every n minutes, from
  midnight on or, with a window, from the start of the window until before its end; an expression given
  as such has no other meaning.
\<close>

definition clock_is :: "string \<Rightarrow> moment \<Rightarrow> bool" where
  "clock_is time m \<longleftrightarrow> parseClockTime time ''time'' = Inr (mo_hour m, mo_minute m)"

fun minute_of_day :: "nat \<times> nat \<Rightarrow> nat" where
  "minute_of_day (hour, minute) = 60 * hour + minute"

fun timing_due :: "timing \<Rightarrow> moment \<Rightarrow> bool" where
  "timing_due (Interval q None None) m \<longleftrightarrow> int (minute_of_day (mo_hour m, mo_minute m)) mod floor q = 0"
| "timing_due (Interval q (Some s) (Some e)) m \<longleftrightarrow>
     (case (parseClockTime s ''startTime'', parseClockTime e ''endTime'') of
        (Inr start, Inr until) \<Rightarrow>
          minute_of_day start \<le> minute_of_day (mo_hour m, mo_minute m) \<and>
          minute_of_day (mo_hour m, mo_minute m) < minute_of_day until \<and>
          int (minute_of_day (mo_hour m, mo_minute m) - minute_of_day start) mod floor q = 0
      | _ \<Rightarrow> False)"
| "timing_due (Interval q _ _) m \<longleftrightarrow> False"
| "timing_due (Daily time weekdaysOnly) m \<longleftrightarrow> clock_is time m \<and> (weekdaysOnly \<longrightarrow> 1 \<le> mo_weekday m \<and> mo_weekday m \<le> 5)"
| "timing_due (Weekly days time) m \<longleftrightarrow> clock_is time m \<and> of_nat (mo_weekday m) \<in> set days"
| "timing_due (CronTiming expression) m \<longleftrightarrow> cron_matches (js_trim expression) m"

section \<open>Reading what was written\<close>

lemma split_at_none: "c \<notin> set s \<Longrightarrow> split_at c s = [s]"
  by (induction s) auto

lemma split_at_append: "c \<notin> set s \<Longrightarrow> split_at c (s @ c # t) = s # split_at c t"
  by (induction s) auto

lemma split_at_join:
  "ps \<noteq> [] \<Longrightarrow> (\<And>p. p \<in> set ps \<Longrightarrow> c \<notin> set p) \<Longrightarrow> split_at c (join_with [c] ps) = ps"
proof (induction "[c]" ps rule: join_with.induct)
  case (3 p p' ps)
  then show ?case by (simp add: split_at_append)
qed (auto simp: split_at_none)

lemma digits_of_nat_text: "c \<in> set (nat_text n) \<Longrightarrow> \<exists>k < 10. c = digit k"
proof (induction n rule: nat_text.induct)
  case (1 n)
  have "n mod 10 < 10" by simp
  then show ?case using 1 by (cases "n < 10") (auto simp: nat_text.simps [of n] intro: exI [of _ "n mod 10"])
qed

lemma no_separator:
  "c \<in> {CHR '' '', CHR '','', CHR ''-'', CHR ''/'', CHR ''*''} \<Longrightarrow> c \<notin> set (nat_text n)"
proof
  assume c: "c \<in> {CHR '' '', CHR '','', CHR ''-'', CHR ''/'', CHR ''*''}" and "c \<in> set (nat_text n)"
  then obtain k where k: "k < 10" "c = digit k" using digits_of_nat_text by blast
  then have "(of_char c :: nat) = 48 + k" by (simp add: digit_def)
  then show False using c by auto
qed

lemma digit_value_digit [simp]: "k < 10 \<Longrightarrow> digit_value (digit k) = k"
  by (simp add: digit_value_def digit_def)

lemma text_number_append: "text_number (s @ t) n = text_number t (text_number s n)"
  by (induction s arbitrary: n) auto

lemma number_of_nat_text [simp]: "number_of (nat_text n) = n"
proof -
  have "text_number (nat_text n) 0 = n"
  proof (induction n rule: nat_text.induct)
    case (1 n)
    then show ?case by (cases "n < 10") (auto simp: nat_text.simps [of n] text_number_append)
  qed
  then show ?thesis by (simp add: number_of_def)
qed

text \<open>Parts and fields\<close>

lemma part_star [simp]: "part_matches ''*'' n"
  by (simp add: part_matches_def)

lemma part_number [simp]: "part_matches (nat_text k) n \<longleftrightarrow> n = k"
proof -
  have "nat_text k \<noteq> ''*''" using no_separator [of "CHR ''*''" k] by (metis insertCI list.set_intros(1))
  then show ?thesis by (simp add: part_matches_def split_at_none no_separator)
qed

lemma part_step [simp]: "part_matches (''*/'' @ nat_text k) n \<longleftrightarrow> n mod k = 0"
  by (simp add: part_matches_def split_at_none no_separator)

lemma part_range [simp]: "part_matches (nat_text a @ ''-'' @ nat_text b) n \<longleftrightarrow> a \<le> n \<and> n \<le> b"
proof -
  have "split_at (CHR ''/'') (nat_text a @ ''-'' @ nat_text b) = [nat_text a @ ''-'' @ nat_text b]"
    by (rule split_at_none) (simp add: no_separator)
  moreover have "split_at (CHR ''-'') (nat_text a @ ''-'' @ nat_text b) = [nat_text a, nat_text b]"
    using split_at_append [of "CHR ''-''" "nat_text a" "nat_text b"] by (simp add: split_at_none no_separator)
  moreover have "nat_text a @ ''-'' @ nat_text b \<noteq> ''*''" by (simp add: append_eq_Cons_conv)
  ultimately show ?thesis by (simp add: part_matches_def)
qed

lemma field_one: "CHR '','' \<notin> set f \<Longrightarrow> field_matches f n \<longleftrightarrow> part_matches f n"
  by (simp add: field_matches_def split_at_none)

lemma field_numbers:
  "ks \<noteq> [] \<Longrightarrow> field_matches (join_with '','' (map nat_text ks)) n \<longleftrightarrow> n \<in> set ks"
proof -
  assume "ks \<noteq> []"
  then have "split_at (CHR '','') (join_with '','' (map nat_text ks)) = map nat_text ks"
    by (intro split_at_join) (auto simp: no_separator)
  then show ?thesis by (auto simp: field_matches_def list_ex_iff)
qed

lemma join_no_space: "CHR '' '' \<notin> set (join_with '','' (map nat_text ks))"
proof (induction ks)
  case (Cons k ks)
  then show ?case by (cases ks) (auto simp: no_separator)
qed simp

lemma cron_fields:
  assumes "CHR '' '' \<notin> set a" and "CHR '' '' \<notin> set b" and "CHR '' '' \<notin> set w"
  shows "cron_matches (a @ '' '' @ b @ '' * * '' @ w) m \<longleftrightarrow>
    field_matches a (mo_minute m) \<and> field_matches b (mo_hour m) \<and> field_matches w (mo_weekday m)"
proof -
  have "split_at (CHR '' '') (a @ CHR '' '' # b @ CHR '' '' # ''* * '' @ w) = [a, b, ''*'', ''*'', w]"
    using assms by (simp add: split_at_append split_at_none)
  then show ?thesis by (simp add: cron_matches_def field_one)
qed

section \<open>Timings and their expressions\<close>

lemma minutes_of_step:
  fixes n minute :: nat
  assumes "60 mod n = 0" and "minute < 60" and "0 < n"
  shows "minute \<in> set (map (\<lambda>i. i * n) [0..<60 div n]) \<longleftrightarrow> minute mod n = 0"
proof
  assume "minute mod n = 0"
  then obtain i where i: "minute = i * n" by (metis mod_eq_0_iff_dvd dvd_div_mult_self)
  have "60 = (60 div n) * n" using assms(1) by auto
  then have "i < 60 div n" using i assms(2,3) by (metis mult_less_cancel2)
  then show "minute \<in> set (map (\<lambda>i. i * n) [0..<60 div n])" using i by auto
qed auto

definition minute_field :: "nat \<Rightarrow> string" where
  "minute_field n = (if n = 60 then ''0'' else join_with '','' (map (\<lambda>i. nat_text (i * n)) [0..<60 div n]))"

definition hour_field :: "nat \<Rightarrow> nat \<Rightarrow> string" where
  "hour_field sh eh = (if eh - 1 = sh then nat_text sh else nat_text sh @ ''-'' @ nat_text (eh - 1))"

lemma field_star [simp]: "field_matches ''*'' n"
  by (simp add: field_one)

lemma field_zero [simp]: "field_matches ''0'' n \<longleftrightarrow> n = 0"
proof -
  have "''0'' = nat_text 0" by code_simp
  then show ?thesis by (simp add: field_one no_separator)
qed

lemma minute_field:
  assumes "60 mod n = 0" and "0 < n" and "minute < 60"
  shows "field_matches (minute_field n) minute \<longleftrightarrow> minute mod n = 0" and "CHR '' '' \<notin> set (minute_field n)"
proof -
  have j: "map (\<lambda>i. nat_text (i * n)) [0..<60 div n] = map nat_text (map (\<lambda>i. i * n) [0..<60 div n])" by simp
  have "0 < 60 div n" using assms(1,2) by (metis div_greater_zero_iff gr0I mod_less zero_neq_numeral not_le)
  then have "map (\<lambda>i. i * n) [0..<60 div n] \<noteq> []" by simp
  from field_numbers [OF this] minutes_of_step [OF assms(1,3,2)] assms(3)
  show "field_matches (minute_field n) minute \<longleftrightarrow> minute mod n = 0" unfolding minute_field_def j by simp
  show "CHR '' '' \<notin> set (minute_field n)" unfolding minute_field_def j
    using join_no_space [of "map (\<lambda>i. i * n) [0..<60 div n]"] by (simp del: map_map)
qed

lemma hour_field:
  assumes "sh < eh"
  shows "field_matches (hour_field sh eh) h \<longleftrightarrow> sh \<le> h \<and> h < eh" and "CHR '' '' \<notin> set (hour_field sh eh)"
proof -
  show "field_matches (hour_field sh eh) h \<longleftrightarrow> sh \<le> h \<and> h < eh"
  proof (cases "eh - 1 = sh")
    case True
    then show ?thesis using assms by (auto simp: hour_field_def field_one no_separator)
  next
    case False
    then have "field_matches (hour_field sh eh) h \<longleftrightarrow> part_matches (nat_text sh @ ''-'' @ nat_text (eh - 1)) h"
      unfolding hour_field_def by (simp add: field_one no_separator)
    then show ?thesis using assms by (auto simp del: append_Cons append_Nil)
  qed
qed (simp add: hour_field_def no_separator)

text \<open>The interval and the hours of a window\<close>

lemma windowed_interval:
  assumes "intervalToCron q (Some s) (Some e) = Inr cron"
  obtains sh eh where "60 mod nat (floor q) = 0" "parseClockTime s ''startTime'' = Inr (sh, 0)"
    "parseClockTime e ''endTime'' = Inr (eh, 0)" "sh < eh"
    "cron = minute_field (nat (floor q)) @ '' '' @ hour_field sh eh @ '' * * '' @ ''*''"
  using assms
  by (auto simp: intervalToCron_def Let_def minute_field_def hour_field_def not_le split: if_splits sum.splits prod.splits)

lemma unwindowed_interval:
  assumes "intervalToCron q None None = Inr cron" and "moment_ok m"
  shows "cron_matches cron m \<longleftrightarrow> int (mo_minute m) mod floor q = 0"
proof -
  define n where "n = nat (floor q)"
  have q: "is_integer q" "1 \<le> q" "q \<le> 60" using assms(1) by (auto simp: intervalToCron_def split: if_splits)
  then have n: "floor q = int n" "1 \<le> n" "n \<le> 60" by (simp_all add: n_def le_nat_iff le_floor_iff floor_le_iff nat_le_iff)
  have minute: "mo_minute m < 60" using assms(2) by (simp add: moment_ok_def)
  have full: "int (mo_minute m) mod floor q = 0 \<longleftrightarrow> mo_minute m mod n = 0" unfolding n(1) by (metis of_nat_0 of_nat_eq_iff zmod_int)
  have cron: "cron = (if n = 60 then ''0'' @ '' '' @ ''*'' @ '' * * '' @ ''*''
      else (''*/'' @ nat_text n) @ '' '' @ ''*'' @ '' * * '' @ ''*'')"
    using assms(1) q by (auto simp: intervalToCron_def Let_def n_def)
  have "cron_matches ((''*/'' @ nat_text n) @ '' '' @ ''*'' @ '' * * '' @ ''*'') m \<longleftrightarrow> mo_minute m mod n = 0"
    by (subst cron_fields) (simp_all add: field_one no_separator del: append_Cons)
  moreover have "cron_matches (''0'' @ '' '' @ ''*'' @ '' * * '' @ ''*'') m \<longleftrightarrow> mo_minute m = 0"
    by (subst cron_fields) simp_all
  ultimately show ?thesis using full minute by (simp add: cron)
qed

text \<open>Within a divisor of the hour, minutes may be counted from any full hour.\<close>

lemma minutes_from_hour:
  fixes q :: int
  assumes "60 mod q = 0" and "h0 \<le> h"
  shows "int (minute_of_day (h, k) - minute_of_day (h0, 0)) mod q = 0 \<longleftrightarrow> int k mod q = 0"
proof -
  have "q dvd 60 * int (h - h0)" using assms(1) by (simp add: mod_eq_0_iff_dvd)
  moreover have "int (minute_of_day (h, k) - minute_of_day (h0, 0)) = 60 * int (h - h0) + int k"
    using assms(2) by (simp add: of_nat_diff algebra_simps)
  ultimately show ?thesis by (simp add: mod_eq_0_iff_dvd dvd_add_right_iff)
qed

lemma windowed_expression:
  assumes "intervalToCron q (Some s) (Some e) = Inr cron" and "moment_ok m"
  shows "cron_matches cron m \<longleftrightarrow> timing_due (Interval q (Some s) (Some e)) m"
proof -
  define n where "n = nat (floor q)"
  have q: "is_integer q" "1 \<le> q" "q \<le> 60" using assms(1) by (auto simp: intervalToCron_def split: if_splits)
  then have n: "floor q = int n" "1 \<le> n" by (simp_all add: n_def le_nat_iff le_floor_iff)
  have minute: "mo_minute m < 60" using assms(2) by (simp add: moment_ok_def)
  obtain sh eh where w: "60 mod n = 0" "parseClockTime s ''startTime'' = Inr (sh, 0)"
    "parseClockTime e ''endTime'' = Inr (eh, 0)" "sh < eh"
    "cron = minute_field n @ '' '' @ hour_field sh eh @ '' * * '' @ ''*''"
    using assms(1) by (rule windowed_interval) (simp add: n_def)
  have "0 < n" using n(2) by simp
  have "cron_matches cron m \<longleftrightarrow> mo_minute m mod n = 0 \<and> sh \<le> mo_hour m \<and> mo_hour m < eh"
    unfolding w(5) using minute_field [OF w(1) \<open>0 < n\<close> minute] hour_field [OF w(4)]
    by (subst cron_fields) simp_all
  moreover have "(60 :: int) mod floor q = 0" unfolding n(1) using w(1) by (metis of_nat_0 of_nat_numeral zmod_int)
  from minutes_from_hour [OF this, of sh "mo_hour m" "mo_minute m"]
  have "sh \<le> mo_hour m \<Longrightarrow> int (minute_of_day (mo_hour m, mo_minute m) - minute_of_day (sh, 0)) mod floor q = 0 \<longleftrightarrow>
      mo_minute m mod n = 0"
    unfolding n(1) by (metis of_nat_0 of_nat_eq_iff zmod_int)
  moreover have "minute_of_day (sh, 0) \<le> minute_of_day (mo_hour m, mo_minute m) \<longleftrightarrow> sh \<le> mo_hour m"
    "minute_of_day (mo_hour m, mo_minute m) < minute_of_day (eh, 0) \<longleftrightarrow> mo_hour m < eh"
    using minute by simp_all linarith+
  ultimately show ?thesis using w(2,3) by (auto simp del: minute_of_day.simps)
qed

text \<open>Whether an accepted interval is due when it says\<close>

lemma even_interval:
  assumes "intervalToCron q None None = Inr cron"
  shows "(\<forall>m. moment_ok m \<longrightarrow> (cron_matches cron m \<longleftrightarrow> timing_due (Interval q None None) m)) \<longleftrightarrow> 60 mod floor q = 0"
proof
  let ?m = "\<lparr>mo_minute = 0, mo_hour = 1, mo_day = 1, mo_month = 1, mo_weekday = 0\<rparr>"
  assume "\<forall>m. moment_ok m \<longrightarrow> (cron_matches cron m \<longleftrightarrow> timing_due (Interval q None None) m)"
  moreover have "moment_ok ?m" by (simp add: moment_ok_def)
  ultimately have "cron_matches cron ?m \<longleftrightarrow> timing_due (Interval q None None) ?m" by blast
  then show "60 mod floor q = 0" using unwindowed_interval [OF assms \<open>moment_ok ?m\<close>] by simp
next
  assume even: "60 mod floor q = 0"
  have "timing_due (Interval q None None) m \<longleftrightarrow> int (mo_minute m) mod floor q = 0" for m
    using minutes_from_hour [OF even, of 0 "mo_hour m" "mo_minute m"] by simp
  then show "\<forall>m. moment_ok m \<longrightarrow> (cron_matches cron m \<longleftrightarrow> timing_due (Interval q None None) m)"
    using unwindowed_interval [OF assms] by blast
qed

lemma windows_come_in_pairs:
  assumes "intervalToCron q s e = Inr cron"
  shows "s = None \<and> e = None \<or> (\<exists>s' e'. s = Some s' \<and> e = Some e')"
  using assms by (cases s; cases e) (auto simp: intervalToCron_def Let_def split: if_splits)

text \<open>A day of the week and a time\<close>

lemma clock_fields:
  assumes "parseClockTime time ''time'' = Inr (hour, minute)" and "CHR '' '' \<notin> set w"
  shows "cron_matches (nat_text minute @ '' '' @ nat_text hour @ '' * * '' @ w) m \<longleftrightarrow>
    clock_is time m \<and> field_matches w (mo_weekday m)"
  using assms(2) by (subst cron_fields) (auto simp: no_separator field_one clock_is_def assms(1))

lemma weekday_field:
  assumes "\<not> list_ex (\<lambda>d. \<not> is_integer d \<or> d < 0 \<or> d > 6) (weekday_numbers days)" and "weekday_numbers days \<noteq> []"
  shows "field_matches (join_with '','' (map (\<lambda>d. nat_text (nat (floor d))) (weekday_numbers days))) k \<longleftrightarrow> of_nat k \<in> set days"
proof -
  let ?ks = "map (\<lambda>d. nat (floor d)) (weekday_numbers days)"
  have "field_matches (join_with '','' (map nat_text ?ks)) k \<longleftrightarrow> k \<in> set ?ks" by (rule field_numbers) (simp add: assms(2))
  also have "\<dots> \<longleftrightarrow> of_nat k \<in> set days"
  proof
    assume "k \<in> set ?ks"
    then obtain d where d: "d \<in> set (weekday_numbers days)" "k = nat (floor d)" by auto
    then have "is_integer d" "0 \<le> d" using assms(1) by (auto simp: list_ex_iff not_less)
    then have "of_nat k = d" using d(2) by (simp add: is_integer_def of_nat_nat)
    then show "of_nat k \<in> set days" using d(1) by (simp add: weekday_numbers_def)
  next
    assume "of_nat k \<in> set days"
    then show "k \<in> set ?ks" by (auto simp: weekday_numbers_def image_iff intro!: bexI [of _ "of_nat k"])
  qed
  finally show ?thesis by (simp add: comp_def)
qed

lemma weekdays_no_space:
  "CHR '' '' \<notin> set (join_with '','' (map (\<lambda>d. nat_text (nat (floor d))) ds))"
  using join_no_space [of "map (\<lambda>d. nat (floor d)) ds"] by (simp add: comp_def)

lemma field_workdays: "field_matches ''1-5'' k \<longleftrightarrow> 1 \<le> k \<and> k \<le> 5"
proof -
  have "''1-5'' = nat_text 1 @ ''-'' @ nat_text 5" by code_simp
  then show ?thesis by (simp only: part_range field_one) (simp add: field_one no_separator flip: append_Cons)
qed

text \<open>Every other timing is due when it says.\<close>

lemma clock_expression:
  assumes "timingToCron t = Inr cron" and "\<And>q s e. t \<noteq> Interval q s e"
  shows "cron_matches cron m \<longleftrightarrow> timing_due t m"
proof (cases t)
  case (Interval q s e)
  then show ?thesis using assms(2) by simp
next
  case (Daily time weekdaysOnly)
  then obtain hour minute where p: "parseClockTime time ''time'' = Inr (hour, minute)"
    and cron: "cron = nat_text minute @ '' '' @ nat_text hour @ '' * * '' @ (if weekdaysOnly then ''1-5'' else ''*'')"
    using assms(1) by (auto simp: timingToCron_def split: sum.splits)
  show ?thesis
    unfolding cron using clock_fields [OF p, of "if weekdaysOnly then ''1-5'' else ''*''" m]
    by (simp add: Daily field_workdays)
next
  case (Weekly days time)
  then obtain hour minute where p: "parseClockTime time ''time'' = Inr (hour, minute)"
    and w: "weekday_numbers days \<noteq> []" "\<not> list_ex (\<lambda>d. \<not> is_integer d \<or> d < 0 \<or> d > 6) (weekday_numbers days)"
    and cron: "cron = nat_text minute @ '' '' @ nat_text hour @ '' * * '' @
      join_with '','' (map (\<lambda>d. nat_text (nat (floor d))) (weekday_numbers days))"
    using assms(1) by (auto simp: timingToCron_def Let_def split: sum.splits if_splits)
  show ?thesis
    unfolding cron clock_fields [OF p weekdays_no_space] weekday_field [OF w(2,1)] by (simp add: Weekly)
next
  case (CronTiming expression)
  then show ?thesis using assms(1) by (auto simp: timingToCron_def split: if_splits)
qed

text \<open>
  C24. The cron expression that a timing of the agent is converted to fits exactly the moments that the
  timing names, that is, every n minutes (counted through the day, or within the window of hours), or
  the time of day on every day, on working days, or on the given weekdays, if and only if the timing is
  not an interval without a window whose minutes do not divide the hour; such an interval is accepted
  all the same.
\<close>

theorem timing_to_cron:
  assumes "timingToCron t = Inr cron"
  shows "(\<forall>m. moment_ok m \<longrightarrow> (cron_matches cron m \<longleftrightarrow> timing_due t m)) \<longleftrightarrow>
    (\<forall>q. t = Interval q None None \<longrightarrow> 60 mod floor q = 0)"
proof (cases "\<exists>q s e. t = Interval q s e")
  case True
  then obtain q s e where t: "t = Interval q s e" by blast
  then have i: "intervalToCron q s e = Inr cron" using assms by (simp add: timingToCron_def)
  from windows_come_in_pairs [OF i] show ?thesis
  proof
    assume "s = None \<and> e = None"
    then show ?thesis using even_interval [of q cron] i by (simp add: t del: timing_due.simps)
  next
    assume "\<exists>s' e'. s = Some s' \<and> e = Some e'"
    then show ?thesis using windowed_expression [of q _ _ cron] i by (auto simp add: t simp del: timing_due.simps)
  qed
next
  case False
  then show ?thesis using clock_expression [OF assms] by blast
qed

lemma timing_to_cron_witness:
  "timingToCron (Interval 30 (Some ''09:00'') (Some ''11:00'')) = Inr ''0,30 9-10 * * *'' \<and>
   cron_matches ''0,30 9-10 * * *'' \<lparr>mo_minute = 30, mo_hour = 10, mo_day = 1, mo_month = 1, mo_weekday = 4\<rparr> \<and>
   \<not> cron_matches ''0,30 9-10 * * *'' \<lparr>mo_minute = 0, mo_hour = 11, mo_day = 1, mo_month = 1, mo_weekday = 4\<rparr>"
proof -
  let ?t = "Interval 30 (Some ''09:00'') (Some ''11:00'')"
  have t: "timingToCron ?t = Inr ''0,30 9-10 * * *''" by code_simp
  have "moment_ok \<lparr>mo_minute = 30, mo_hour = 10, mo_day = 1, mo_month = 1, mo_weekday = 4\<rparr>"
    "moment_ok \<lparr>mo_minute = 0, mo_hour = 11, mo_day = 1, mo_month = 1, mo_weekday = 4\<rparr>"
    by (simp_all add: moment_ok_def)
  moreover have "timing_due ?t \<lparr>mo_minute = 30, mo_hour = 10, mo_day = 1, mo_month = 1, mo_weekday = 4\<rparr>"
    "\<not> timing_due ?t \<lparr>mo_minute = 0, mo_hour = 11, mo_day = 1, mo_month = 1, mo_weekday = 4\<rparr>"
    by code_simp+
  moreover have "\<forall>q. ?t = Interval q None None \<longrightarrow> 60 mod floor q = 0" by simp
  with timing_to_cron [OF t]
  have "\<forall>m. moment_ok m \<longrightarrow> (cron_matches ''0,30 9-10 * * *'' m \<longleftrightarrow> timing_due ?t m)" by (rule iffD2)
  ultimately show ?thesis using t by blast
qed

text \<open>
  Without a window the minutes need not divide the hour: an interval of 45 minutes is due at the full
  hour and 45 minutes later, that is, after 45 and then after 15 minutes.
\<close>

lemma uneven_interval:
  assumes "moment_ok m"
  shows "timingToCron (Interval 45 None None) = Inr ''*/45 * * * *''"
    and "cron_matches ''*/45 * * * *'' m \<longleftrightarrow> mo_minute m = 0 \<or> mo_minute m = 45"
proof -
  show t: "timingToCron (Interval 45 None None) = Inr ''*/45 * * * *''" by code_simp
  have "mo_minute m < 60" using assms by (simp add: moment_ok_def)
  then have "int (mo_minute m) mod 45 = 0 \<longleftrightarrow> mo_minute m = 0 \<or> mo_minute m = 45" by presburger
  then show "cron_matches ''*/45 * * * *'' m \<longleftrightarrow> mo_minute m = 0 \<or> mo_minute m = 45"
    using unwindowed_interval [OF _ assms, of 45] t by (simp add: timingToCron_def)
qed

end
