(* ===== verification/ActivityEvents.thy ===== *)
theory ActivityEvents
  imports EventNormalizer BoundedBuffers Redaction
begin

text \<open>
  What the enterprise server is told of a run, \<^verbatim>\<open>enterprise/activity-event-projector-2026-08-28.ts\<close>: an event
  is projected to the fields that may leave the computer, secrets are replaced, and long texts are cut.

  \<^item> \<open>activity_event\<close> is \<^verbatim>\<open>EnterpriseActivityEvent\<close>; its payload is a JSON object.
  \<^item> The sizes of JSON texts are parameters (\<open>activity_env\<close>).
  \<^item> Lemma group \<open>clean_simps\<close>: no operation brings back a value under the name of a secret.
\<close>

section \<open>Events\<close>

record activity_event =
  ae_event_id :: string
  ae_run_id :: run_id
  ae_session_id :: string
  ae_turn_id :: string
  ae_sequence :: nat
  ae_occurred_at :: ms
  ae_event_type :: string
  ae_normalizer_version :: nat
  ae_payload :: json_record

record activity_context =
  ac_sessionId :: string
  ac_turnId :: string

text \<open>\<open>ax_requestBytes\<close> is the size of a request with the given events.\<close>

record activity_env =
  ax_encodedBytes :: "activity_event \<Rightarrow> nat"
  ax_requestBytes :: "activity_event list \<Rightarrow> nat"

record registered_run =
  gr_runId :: run_id
  gr_threadId :: "thread_id option"
  gr_prompt :: string
  gr_createdBy :: string
  gr_workspaceName :: string
  gr_createdAt :: ms

record skill_evidence =
  sv_skillId :: string
  sv_skillName :: string
  sv_skillKey :: string
  sv_source :: string
  sv_versionId :: "string option"
  sv_evidence :: string
  sv_invocation :: string

definition supportedTypes :: "string list" where
  "supportedTypes =
     [''status'', ''reasoning_summary'', ''assistant_message'', ''tool_use'', ''tool_result'', ''file_change'',
      ''approval'', ''diagnostic'', ''error'', ''done'', ''run_started'']"

definition secretKeys :: "string list" where
  "secretKeys =
     [''authorization'', ''cookie'', ''token'', ''secret'', ''password'', ''passwd'', ''api_key'', ''apikey'',
      ''credential'', ''access_token'', ''accesstoken'', ''refresh_token'', ''refreshtoken'']"

definition MAX_EVENT_BYTES :: nat where
  "MAX_EVENT_BYTES = 128 * 1024"

definition MAX_CONTENT_BYTES :: nat where
  "MAX_CONTENT_BYTES = 64 * 1024"

definition TRUNCATION_SUFFIX :: string where
  "TRUNCATION_SUFFIX = CHR 0x0A # ''...[TRUNCATED]''"

definition REDACTED :: json where
  "REDACTED = JStr ''[REDACTED]''"

section \<open>Secrets\<close>

definition normalizeKey :: "string \<Rightarrow> string" where
  "normalizeKey k = map (\<lambda>c. if c = CHR ''-'' \<or> js_space c then CHR ''_'' else lower_char c) k"

function (sequential) sanitizeValue :: "string \<Rightarrow> json \<Rightarrow> json" where
  "sanitizeValue k v =
     (if normalizeKey k \<in> set secretKeys then REDACTED
      else case v of
          JStr s \<Rightarrow> JStr (redactText s)
        | JArr xs \<Rightarrow> JArr (map (sanitizeValue []) xs)
        | JObj r \<Rightarrow> JObj (map (\<lambda>(childKey, child). (childKey, sanitizeValue childKey child)) r)
        | _ \<Rightarrow> v)"
  by pat_completeness auto

termination
  by (relation "measure (\<lambda>(k, v). size v)") (auto intro: size_in_list size_in_record)

declare sanitizeValue.simps [simp del]

definition sanitizePayload :: "json_record \<Rightarrow> json_record" where
  "sanitizePayload payload = change_record (sanitizeValue [] (JObj payload))"

section \<open>Long texts\<close>

text \<open>Only the last character of a text that was cut can be U+FFFD; it is removed.\<close>

definition truncateUtf8 :: "string \<Rightarrow> nat \<Rightarrow> string" where
  "truncateUtf8 s maxBytes =
     (let bytes = utf8_bytes (map of_char s); suffixBytes = length (utf8_bytes (map of_char TRUNCATION_SUFFIX)) in
      if length bytes \<le> maxBytes then s
      else map char_of (rev (dropWhile (\<lambda>c. c = 0xFFFD) (rev (utf8_text (take (maxBytes - suffixBytes) bytes))))) @
        TRUNCATION_SUFFIX)"

function (sequential) truncateStrings :: "json \<Rightarrow> nat \<Rightarrow> json" where
  "truncateStrings (JStr s) limit = JStr (truncateUtf8 s limit)"
| "truncateStrings (JArr xs) limit = JArr (map (\<lambda>x. truncateStrings x limit) xs)"
| "truncateStrings (JObj r) limit = JObj (map (\<lambda>(k, x). (k, truncateStrings x limit)) r)"
| "truncateStrings v limit = v"
  by pat_completeness auto

termination
  by (relation "measure (\<lambda>(v, limit). size v)") (auto intro: size_in_list size_in_record)

function (sequential) containsTruncation :: "json \<Rightarrow> bool" where
  "containsTruncation (JStr s) \<longleftrightarrow> drop (length s - length TRUNCATION_SUFFIX) s = TRUNCATION_SUFFIX"
| "containsTruncation (JArr xs) \<longleftrightarrow> list_ex containsTruncation xs"
| "containsTruncation (JObj r) \<longleftrightarrow> list_ex (\<lambda>(k, x). containsTruncation x) r"
| "containsTruncation v \<longleftrightarrow> False"
  by pat_completeness auto

termination
  by (relation "measure size") (auto intro: size_in_list size_in_record)

definition markTruncated :: "activity_event \<Rightarrow> json_record \<Rightarrow> activity_event" where
  "markTruncated e payload =
     e\<lparr>ae_payload := (if containsTruncation (JObj payload) then map_put ''truncated'' (JBool True) payload else payload)\<rparr>"

definition pick :: "json_record \<Rightarrow> string list \<Rightarrow> json_record" where
  "pick r ks = concat (map (\<lambda>k. case map_of r k of None \<Rightarrow> [] | Some v \<Rightarrow> [(k, v)]) ks)"

definition fallbackPayload :: "string \<Rightarrow> json_record \<Rightarrow> json_record" where
  "fallbackPayload ty p =
     (let cut = [(''truncated'', JBool True)] in
      if ty = ''skill_evidence'' then p
      else if ty = ''run_started'' then pick p [''prompt'', ''created_by'', ''workspace_name''] @ cut
      else if ty = ''status'' then pick p [''label''] @ cut
      else if ty = ''assistant_message'' \<or> ty = ''reasoning_summary'' then pick p [''text'', ''format'', ''delivery''] @ cut
      else if ty = ''tool_use'' then pick p [''toolCallId'', ''name''] @ cut
      else if ty = ''tool_result'' then pick p [''toolCallId'', ''exitCode'', ''isError'', ''durationMs''] @ cut
      else if ty = ''file_change'' then [(''changes'', JArr [])] @ pick p [''status''] @ cut
      else if ty = ''approval'' then
        [(''approval'', JObj (case field_of (Some p) ''approval'' of
            JObj a \<Rightarrow> pick a [''id'', ''status'', ''risk'', ''title'', ''summary''] | _ \<Rightarrow> []))] @ cut
      else if ty = ''diagnostic'' then pick p [''code'', ''severity'', ''message''] @ cut
      else if ty = ''error'' then pick p [''code'', ''message''] @ cut
      else pick p [''status'', ''terminationReason''] @ cut)"

text \<open>The loop of \<^verbatim>\<open>fitEvent\<close>: texts get half as long until the event is small enough.\<close>

function fit_loop :: "activity_env \<Rightarrow> activity_event \<Rightarrow> nat \<Rightarrow> activity_event" where
  "fit_loop X e limit =
     (let candidate = markTruncated e (change_record (truncateStrings (JObj (ae_payload e)) limit)) in
      if ax_encodedBytes X candidate > MAX_EVENT_BYTES \<and> limit > 512 then fit_loop X e (limit div 2) else candidate)"
  by pat_completeness auto

termination
  by (relation "measure (\<lambda>(X, e, limit). limit)") simp_all

declare fit_loop.simps [simp del]

definition fitEvent :: "activity_env \<Rightarrow> activity_event \<Rightarrow> activity_event" where
  "fitEvent X e =
     (let candidate = fit_loop X e MAX_CONTENT_BYTES in
      if ax_encodedBytes X candidate > MAX_EVENT_BYTES
      then candidate\<lparr>ae_payload := fallbackPayload (ae_event_type candidate) (ae_payload candidate)\<rparr>
      else candidate)"

section \<open>Projections\<close>

definition projectRunStarted :: "activity_env \<Rightarrow> registered_run \<Rightarrow> activity_event" where
  "projectRunStarted X i =
     fitEvent X
       \<lparr>ae_event_id = ''evt_'' @ gr_runId i @ ''_created'', ae_run_id = gr_runId i,
        ae_session_id = (case gr_threadId i of None \<Rightarrow> gr_runId i | Some t \<Rightarrow> t), ae_turn_id = gr_runId i,
        ae_sequence = 0, ae_occurred_at = gr_createdAt i, ae_event_type = ''run_started'', ae_normalizer_version = 1,
        ae_payload = sanitizePayload
          [(''prompt'', JStr (gr_prompt i)), (''created_by'', JStr (gr_createdBy i)),
           (''workspace_name'', JStr (gr_workspaceName i))]\<rparr>"

text \<open>\<open>None\<close>: a change that is not an object, or changes that are no array, are a \<^verbatim>\<open>TypeError\<close>.\<close>

definition project_changes :: "json \<Rightarrow> json option" where
  "project_changes v =
     (case v of
        JArr xs \<Rightarrow>
          if list_ex (\<lambda>x. x = JNull \<or> x = JUndefined) xs then None
          else Some (JArr (map (\<lambda>x. JObj [(''path'', field_of (record_of x) ''path''), (''kind'', field_of (record_of x) ''kind'')]) xs))
      | _ \<Rightarrow> None)"

text \<open>\<open>Inl ()\<close> is a \<^verbatim>\<open>TypeError\<close>, \<open>Inr None\<close> is \<^verbatim>\<open>undefined\<close>.\<close>

definition projectPayload :: "string \<Rightarrow> json_record \<Rightarrow> unit + json_record option" where
  "projectPayload ty p =
     (if ty = ''status'' then Inr (Some (pick p [''label'', ''threadId'', ''codexThreadId'']))
      else if ty = ''assistant_message'' \<or> ty = ''reasoning_summary'' then Inr (Some (pick p [''text'', ''format'', ''delivery'']))
      else if ty = ''tool_use'' then
        Inr (Some [(''toolCallId'', field_of (Some p) ''toolCallId''), (''name'', field_of (Some p) ''name''),
          (''input'', JObj (map_del ''raw'' (change_record (field_of (Some p) ''input''))))])
      else if ty = ''tool_result'' then
        Inr (Some (pick p [''toolCallId'', ''output'', ''response'', ''exitCode'', ''isError'', ''durationMs'']))
      else if ty = ''file_change'' then
        (case project_changes (field_of (Some p) ''changes'') of
           None \<Rightarrow> Inl ()
         | Some changes \<Rightarrow> Inr (Some [(''changes'', changes), (''status'', field_of (Some p) ''status'')]))
      else if ty = ''approval'' then Inr (Some [(''approval'', field_of (Some p) ''approval'')])
      else if ty = ''diagnostic'' then Inr (Some (pick p [''code'', ''severity'', ''message'', ''details'']))
      else if ty = ''error'' then Inr (Some (pick p [''code'', ''message'', ''details'']))
      else if ty = ''done'' then Inr (Some (pick p [''status'', ''terminationReason'']))
      else Inr None)"

definition projectActivityEvent ::
  "activity_env \<Rightarrow> envelope \<Rightarrow> activity_context \<Rightarrow> unit + activity_event option" where
  "projectActivityEvent X e c =
     (if av_type e \<notin> set supportedTypes then Inr None
      else case projectPayload (av_type e) (change_record (av_payload e)) of
          Inl u \<Rightarrow> Inl u
        | Inr None \<Rightarrow> Inr None
        | Inr (Some payload) \<Rightarrow> Inr (Some (fitEvent X
            \<lparr>ae_event_id = av_id e, ae_run_id = av_runId e, ae_session_id = ac_sessionId c, ae_turn_id = ac_turnId c,
             ae_sequence = av_seq e, ae_occurred_at = av_ts e, ae_event_type = av_type e,
             ae_normalizer_version = av_normalizerVersion e, ae_payload = sanitizePayload payload\<rparr>)))"

definition projectSkillEvidence ::
  "run_id \<Rightarrow> activity_context \<Rightarrow> string \<Rightarrow> nat \<Rightarrow> ms \<Rightarrow> skill_evidence \<Rightarrow> activity_event" where
  "projectSkillEvidence runId c eventId sequence occurredAt v =
     \<lparr>ae_event_id = eventId, ae_run_id = runId, ae_session_id = ac_sessionId c, ae_turn_id = ac_turnId c,
      ae_sequence = sequence, ae_occurred_at = occurredAt, ae_event_type = ''skill_evidence'', ae_normalizer_version = 1,
      ae_payload =
        [(''skill_id'', JStr (sv_skillId v)), (''skill_name'', JStr (sv_skillName v)), (''skill_key'', JStr (sv_skillKey v)),
         (''source'', JStr (sv_source v))] @ optional_string ''version_id'' (sv_versionId v) @
        [(''evidence'', JStr (sv_evidence v)), (''invocation'', JStr (sv_invocation v))]\<rparr>"

lemma fit_loop_type: "ae_event_type (fit_loop X e limit) = ae_event_type e"
  by (induction X e limit rule: fit_loop.induct) (subst fit_loop.simps, simp add: Let_def markTruncated_def)

lemma fit_type [simp]: "ae_event_type (fitEvent X e) = ae_event_type e"
  by (simp add: fitEvent_def Let_def fit_loop_type)

section \<open>No secrets\<close>

text \<open>Under the name of a secret, at any depth, stands nothing but the replacement.\<close>

function (sequential) clean :: "string \<Rightarrow> json \<Rightarrow> bool" where
  "clean k v \<longleftrightarrow>
     (normalizeKey k \<in> set secretKeys \<longrightarrow> v = REDACTED) \<and>
     (case v of
        JArr xs \<Rightarrow> list_all (clean []) xs
      | JObj r \<Rightarrow> list_all (\<lambda>(childKey, child). clean childKey child) r
      | _ \<Rightarrow> True)"
  by pat_completeness auto

termination
  by (relation "measure (\<lambda>(k, v). size v)") (auto intro: size_in_list size_in_record)

declare clean.simps [simp del]

definition clean_record :: "json_record \<Rightarrow> bool" where
  "clean_record r \<longleftrightarrow> list_all (\<lambda>(k, v). clean k v) r"

named_theorems clean_simps

lemma clean_record_simps [clean_simps]:
  "clean_record []" "clean_record (p # r) \<longleftrightarrow> clean (fst p) (snd p) \<and> clean_record r"
  "clean_record (r @ r') \<longleftrightarrow> clean_record r \<and> clean_record r'"
  by (simp_all add: clean_record_def case_prod_beta)

lemma no_secret [clean_simps]: "normalizeKey k \<notin> set secretKeys \<Longrightarrow> clean k (JObj r) \<longleftrightarrow> clean_record r"
  "normalizeKey k \<notin> set secretKeys \<Longrightarrow> clean k (JStr s)" "normalizeKey k \<notin> set secretKeys \<Longrightarrow> clean k (JBool b)"
  "normalizeKey k \<notin> set secretKeys \<Longrightarrow> clean k (JArr xs) \<longleftrightarrow> list_all (clean []) xs"
  by (subst clean.simps, simp add: clean_record_def)+

lemma empty_key [simp]: "normalizeKey [] \<notin> set secretKeys"
  by code_simp

lemma clean_REDACTED [simp]: "clean k REDACTED"
  by (simp add: clean.simps REDACTED_def)

lemma sanitize_clean: "clean k (sanitizeValue k v)"
proof (induction k v rule: sanitizeValue.induct)
  case (1 k v)
  show ?case
  proof (cases "normalizeKey k \<in> set secretKeys")
    case True
    then show ?thesis by (simp add: sanitizeValue.simps)
  next
    case False
    then show ?thesis
    proof (cases v)
      case (JArr xs)
      have "list_all (clean []) (map (sanitizeValue []) xs)" using 1(1) [OF False JArr] by (auto simp: list_all_iff)
      then show ?thesis using False JArr by (simp add: sanitizeValue.simps no_secret)
    next
      case (JObj r)
      have "clean_record (map (\<lambda>(childKey, child). (childKey, sanitizeValue childKey child)) r)"
        using 1(2) [OF False JObj] by (auto simp: clean_record_def list_all_iff)
      then show ?thesis using False JObj by (simp add: sanitizeValue.simps no_secret)
    qed (simp_all add: sanitizeValue.simps clean.simps)
  qed
qed

lemma sanitizePayload_clean: "clean_record (sanitizePayload p)"
  using sanitize_clean [of "[]" "JObj p"]
  by (simp add: sanitizePayload_def sanitizeValue.simps change_record_def record_of_def no_secret)

lemma redacted_stays: "10 \<le> limit \<Longrightarrow> truncateStrings REDACTED limit = REDACTED"
proof -
  have "length (utf8_bytes (map of_char ''[REDACTED]'')) = 10" by code_simp
  then show "10 \<le> limit \<Longrightarrow> truncateStrings REDACTED limit = REDACTED" by (simp add: REDACTED_def truncateUtf8_def)
qed

lemma truncate_clean: "clean k v \<Longrightarrow> 10 \<le> limit \<Longrightarrow> clean k (truncateStrings v limit)"
proof (induction v limit arbitrary: k rule: truncateStrings.induct)
  case (1 s limit)
  then show ?case
    using redacted_stays [of limit] by (cases "JStr s = REDACTED") (simp_all add: clean.simps del: truncateStrings.simps, simp)
next
  case (2 xs limit)
  then show ?case by (auto simp: clean.simps [of k] list_all_iff REDACTED_def)
next
  case (3 r limit)
  then show ?case by (fastforce simp: clean.simps [of k] list_all_iff REDACTED_def)
qed simp_all

lemma truncate_record_clean:
  assumes "clean_record r" and "10 \<le> limit"
  shows "clean_record (change_record (truncateStrings (JObj r) limit))"
  using truncate_clean [of "[]" "JObj r" limit] assms by (simp add: no_secret change_record_def record_of_def)

lemma truncated_key: "normalizeKey ''truncated'' \<notin> set secretKeys" "normalizeKey ''changes'' \<notin> set secretKeys"
  "normalizeKey ''approval'' \<notin> set secretKeys"
  by code_simp+

lemma clean_put: "clean_record r \<Longrightarrow> clean k v \<Longrightarrow> clean_record (map_put k v r)"
  using set_map_put [of k v r] by (auto simp: clean_record_def list_all_iff)

lemma markTruncated_clean: "clean_record p \<Longrightarrow> clean_record (ae_payload (markTruncated e p))"
  by (simp add: markTruncated_def clean_put no_secret truncated_key)

lemma pick_clean: "clean_record r \<Longrightarrow> clean_record (pick r ks)"
  by (induction ks) (auto simp: pick_def clean_record_def list_all_iff dest!: map_of_SomeD [OF sym] split: option.split)

lemma fallback_clean:
  assumes "clean_record p"
  shows "clean_record (fallbackPayload ty p)"
proof -
  have "clean ''approval'' (JObj (case field_of (Some p) ''approval'' of
      JObj a \<Rightarrow> pick a [''id'', ''status'', ''risk'', ''title'', ''summary''] | _ \<Rightarrow> []))"
  proof (cases "field_of (Some p) ''approval''")
    case (JObj a)
    then have "clean ''approval'' (JObj a)"
      using assms by (auto simp: field_of_def clean_record_def list_all_iff dest!: map_of_SomeD split: option.splits)
    then show ?thesis using JObj by (simp add: no_secret truncated_key pick_clean)
  qed (simp_all add: no_secret truncated_key clean_record_simps)
  then show ?thesis
    using assms
    by (simp add: fallbackPayload_def Let_def clean_record_simps pick_clean no_secret truncated_key)
qed

lemma fit_loop_clean: "clean_record (ae_payload e) \<Longrightarrow> 10 \<le> limit \<Longrightarrow> clean_record (ae_payload (fit_loop X e limit))"
proof (induction X e limit rule: fit_loop.induct)
  case (1 X e limit)
  then show ?case
    by (subst fit_loop.simps) (auto simp: Let_def simp del: truncateStrings.simps intro: markTruncated_clean truncate_record_clean)
qed

lemma fit_clean: "clean_record (ae_payload e) \<Longrightarrow> clean_record (ae_payload (fitEvent X e))"
  by (simp add: fitEvent_def Let_def fallback_clean fit_loop_clean MAX_CONTENT_BYTES_def)

lemma run_started_clean: "clean_record (ae_payload (projectRunStarted X i))"
  by (simp add: projectRunStarted_def fit_clean sanitizePayload_clean)

lemma activity_clean: "projectActivityEvent X e c = Inr (Some a) \<Longrightarrow> clean_record (ae_payload a)"
  by (auto simp: projectActivityEvent_def fit_clean sanitizePayload_clean split: if_splits sum.splits option.splits)

lemma evidence_keys:
  "list_all (\<lambda>k. normalizeKey k \<notin> set secretKeys)
     [''skill_id'', ''skill_name'', ''skill_key'', ''source'', ''version_id'', ''evidence'', ''invocation'']"
  by code_simp

lemma evidence_clean: "clean_record (ae_payload (projectSkillEvidence r c i n t v))"
  using evidence_keys
  by (simp add: projectSkillEvidence_def optional_string_def clean_record_simps no_secret split: option.split)

section \<open>No keys\<close>

definition keyless_record :: "json_record \<Rightarrow> bool" where
  "keyless_record r \<longleftrightarrow> keyless (JObj r)"

lemma keyless_record_simps [clean_simps]:
  "keyless_record []" "keyless_record (p # r) \<longleftrightarrow> keyless (snd p) \<and> keyless_record r"
  "keyless_record (r @ r') \<longleftrightarrow> keyless_record r \<and> keyless_record r'"
  by (simp_all add: keyless_record_def case_prod_beta)

lemma keyless_record_iff: "keyless_record r \<longleftrightarrow> (\<forall>(k, v) \<in> set r. keyless v)"
  by (simp add: keyless_record_def list_all_iff)

lemma sanitize_keyless: "keyless (sanitizeValue k v)"
proof (induction k v rule: sanitizeValue.induct)
  case (1 k v)
  have "keyless REDACTED" using REDACTED_TEXT_no_keys by (simp add: REDACTED_def REDACTED_TEXT_def)
  then show ?case
    using 1 by (subst sanitizeValue.simps) (auto simp: redactText_no_keys list_all_iff split: json.split)
qed

lemma sanitizePayload_keyless: "keyless_record (sanitizePayload p)"
  using sanitize_keyless [of "[]" "JObj p"]
  by (simp add: sanitizePayload_def sanitizeValue.simps change_record_def record_of_def keyless_record_def)

text \<open>A text of characters below 256 that is cut between bytes\<close>

lemma utf8_cut:
  assumes "\<forall>c \<in> set cs. c < 256"
  shows "\<exists>j. utf8_text (take k (utf8_bytes cs)) = take j cs \<or> utf8_text (take k (utf8_bytes cs)) = take j cs @ [0xFFFD]"
  using assms
proof (induction cs arbitrary: k)
  case (Cons c cs)
  show ?case
  proof (cases "c < 0x80")
    case True
    then show ?thesis
    proof (cases k)
      case (Suc l)
      obtain j where "utf8_text (take l (utf8_bytes cs)) = take j cs \<or> utf8_text (take l (utf8_bytes cs)) = take j cs @ [0xFFFD]"
        using Cons by auto
      then show ?thesis using True Suc by (intro exI [of _ "Suc j"]) (auto simp: utf8_bytes_def utf8_def)
    qed (auto intro: exI [of _ 0])
  next
    case False
    let ?b = "0xC0 + c div 64" and ?d = "0x80 + c mod 64"
    have bytes: "utf8_bytes (c # cs) = ?b # ?d # utf8_bytes cs" using False Cons.prems by (simp add: utf8_bytes_def utf8_def)
    have two: "0xC2 \<le> ?b" "?b < 0xE0" "continuation ?d" "(?b - 0xC0) * 64 + (?d - 0x80) = c"
      using False Cons.prems by (auto simp: continuation_def)
    consider "k = 0" | "k = 1" | l where "k = Suc (Suc l)" by (metis One_nat_def old.nat.exhaust)
    then show ?thesis
    proof cases
      case 3
      obtain j where "utf8_text (take l (utf8_bytes cs)) = take j cs \<or> utf8_text (take l (utf8_bytes cs)) = take j cs @ [0xFFFD]"
        using Cons by auto
      moreover have "utf8_text (?b # ?d # bs) = c # utf8_text bs" for bs
        using two by (subst utf8_text.simps) simp
      ultimately show ?thesis using 3 by (intro exI [of _ "Suc j"]) (auto simp: bytes)
    qed (auto simp: bytes intro: exI [of _ 0])
  qed
qed (simp add: utf8_bytes_def)

lemma truncate_prefix: "truncateUtf8 s limit = s \<or> (\<exists>j. truncateUtf8 s limit = take j s @ TRUNCATION_SUFFIX)"
proof -
  let ?cs = "map of_char s :: nat list" and ?k = "limit - length (utf8_bytes (map of_char TRUNCATION_SUFFIX))"
  have small: "\<forall>c \<in> set ?cs. c < 256" by auto
  obtain j where j: "utf8_text (take ?k (utf8_bytes ?cs)) = take j ?cs \<or> utf8_text (take ?k (utf8_bytes ?cs)) = take j ?cs @ [0xFFFD]"
    using utf8_cut [OF small] by blast
  have all: "dropWhile (\<lambda>c. c = 0xFFFD) (rev (take j ?cs)) = rev (take j ?cs)"
  proof -
    have "0xFFFD \<notin> set ?cs" using small by fastforce
    then have "0xFFFD \<notin> set (rev (take j ?cs))" using in_set_takeD by fastforce
    then show ?thesis by (cases "rev (take j ?cs)") auto
  qed
  have "map char_of (rev (dropWhile (\<lambda>c. c = 0xFFFD) (rev (utf8_text (take ?k (utf8_bytes ?cs)))))) = take j s"
    using j all by (auto simp: take_map [symmetric] o_def)
  then show ?thesis by (auto simp: truncateUtf8_def Let_def)
qed

lemma truncate_no_keys:
  assumes "no_keys s"
  shows "no_keys (truncateUtf8 s limit)"
proof -
  have suffix: "TRUNCATION_SUFFIX = CHR 0x0A # ''...[TRUNCATED]''" "\<not> key_char (CHR 0x0A)"
    "hd ''clwcap_'' \<notin> set TRUNCATION_SUFFIX" "hd ''sk-'' \<notin> set TRUNCATION_SUFFIX"
    by (simp add: TRUNCATION_SUFFIX_def, code_simp, code_simp, code_simp)
  have "no_keys (take j s @ TRUNCATION_SUFFIX)" for j
    using assms cut_no_key [OF _ key_names(1) suffix(3,1,2)] cut_no_key [OF _ key_names(2) suffix(4,1,2)]
    unfolding no_keys_def by blast
  then show ?thesis using truncate_prefix [of s limit] assms by auto
qed

lemma truncate_keyless: "keyless v \<Longrightarrow> keyless (truncateStrings v limit)"
  by (induction v limit rule: truncateStrings.induct) (auto simp: list_all_iff truncate_no_keys)

lemma pick_keyless: "keyless_record r \<Longrightarrow> keyless_record (pick r ks)"
  by (induction ks) (auto simp: pick_def keyless_record_iff dest!: map_of_SomeD [OF sym] split: option.split)

lemma fallback_keyless:
  assumes "keyless_record p"
  shows "keyless_record (fallbackPayload ty p)"
proof -
  have "keyless (JObj (case field_of (Some p) ''approval'' of
      JObj a \<Rightarrow> pick a [''id'', ''status'', ''risk'', ''title'', ''summary''] | _ \<Rightarrow> []))"
  proof (cases "field_of (Some p) ''approval''")
    case (JObj a)
    have "keyless (field_of (Some p) ''approval'')"
      using assms by (auto simp: field_of_def keyless_record_iff dest!: map_of_SomeD split: option.splits)
    then have "keyless_record a" by (simp add: JObj keyless_record_def)
    then show ?thesis using JObj pick_keyless by (simp add: keyless_record_def)
  qed simp_all
  then show ?thesis
    using assms by (simp add: fallbackPayload_def Let_def keyless_record_simps pick_keyless)
qed

lemma mark_keyless: "keyless_record p \<Longrightarrow> keyless_record (ae_payload (markTruncated e p))"
  using set_map_put [of "''truncated''" "JBool True" p] by (auto simp: markTruncated_def keyless_record_iff)

lemma fit_loop_keyless: "keyless_record (ae_payload e) \<Longrightarrow> keyless_record (ae_payload (fit_loop X e limit))"
proof (induction X e limit rule: fit_loop.induct)
  case (1 X e limit)
  have "keyless_record (change_record (truncateStrings (JObj (ae_payload e)) limit))"
    using truncate_keyless [of "JObj (ae_payload e)" limit] 1(2)
    by (simp add: keyless_record_def change_record_def record_of_def)
  then show ?case
    using 1 by (subst fit_loop.simps) (auto simp: Let_def simp del: truncateStrings.simps intro: mark_keyless)
qed

lemma fit_keyless: "keyless_record (ae_payload e) \<Longrightarrow> keyless_record (ae_payload (fitEvent X e))"
  by (simp add: fitEvent_def Let_def fallback_keyless fit_loop_keyless)

lemma run_started_keyless: "keyless_record (ae_payload (projectRunStarted X i))"
  by (simp add: projectRunStarted_def fit_keyless sanitizePayload_keyless)

lemma activity_keyless: "projectActivityEvent X e c = Inr (Some a) \<Longrightarrow> keyless_record (ae_payload a)"
  by (auto simp: projectActivityEvent_def fit_keyless sanitizePayload_keyless split: if_splits sum.splits option.splits)

text \<open>What may leave the computer; what is reported of skills is sent as it is, and is only this:\<close>

definition evidence_fields :: "string list" where
  "evidence_fields = [''skill_id'', ''skill_name'', ''skill_key'', ''source'', ''version_id'', ''evidence'', ''invocation'']"

definition clean_activity :: "activity_event \<Rightarrow> bool" where
  "clean_activity e \<longleftrightarrow>
     clean_record (ae_payload e) \<and>
     (if ae_event_type e = ''skill_evidence'' then fst ` set (ae_payload e) \<subseteq> set evidence_fields
      else keyless_record (ae_payload e))"

lemma evidence_fields: "fst ` set (ae_payload (projectSkillEvidence r c i n t v)) \<subseteq> set evidence_fields"
  "ae_event_type (projectSkillEvidence r c i n t v) = ''skill_evidence''"
  by (auto simp: projectSkillEvidence_def optional_string_def evidence_fields_def split: option.splits)

lemma no_evidence:
  "ae_event_type (projectRunStarted X i) \<noteq> ''skill_evidence''"
  "projectActivityEvent X e c = Inr (Some a) \<Longrightarrow> ae_event_type a \<noteq> ''skill_evidence''"
proof -
  show "ae_event_type (projectRunStarted X i) \<noteq> ''skill_evidence''" by (simp add: projectRunStarted_def)
  have "''skill_evidence'' \<notin> set supportedTypes" by code_simp
  then show "ae_event_type a \<noteq> ''skill_evidence''" if "projectActivityEvent X e c = Inr (Some a)"
    using that by (auto simp: projectActivityEvent_def split: if_splits sum.splits option.splits)
qed

lemma projected_clean [clean_simps]:
  "clean_activity (projectRunStarted X i)" "clean_activity (projectSkillEvidence r c j n t v)"
  "projectActivityEvent X e c = Inr (Some a) \<Longrightarrow> clean_activity a"
  using run_started_clean run_started_keyless activity_clean activity_keyless evidence_clean no_evidence evidence_fields
  by (simp_all add: clean_activity_def)

end
