(* ===== verification/ActivityReporter.thy ===== *)
theory ActivityReporter
  imports ActivityEvents
begin

text \<open>
  The queue of activity events for the enterprise server, \<^verbatim>\<open>enterprise/activity-reporter-2026-08-28.ts\<close>.

  \<^item> \<open>reporter\<close> has the variables of \<^verbatim>\<open>createEnterpriseActivityReporter\<close>; \<open>drain\<close> is the local state of \<^verbatim>\<open>drain\<close>
    and what it waits for. A timer is known by its delay.
  \<^item> An event in the queue has a number, since \<^verbatim>\<open>indexOf\<close> compares objects. The fields that start with \<open>rp_all\<close>
    record what has happened: the calls of \<^verbatim>\<open>reportAgentActivity\<close> with their tokens, the events that were
    delivered, and those that were given up.
  \<^item> The main theorems: the queue is bounded and its events are on their way; every event is delivered
    once and in order, waits, or was given up for a reason; and no secret is reported. A finding: a batch that
    waits for a retry outlives \<^verbatim>\<open>clear\<close>.
\<close>

section \<open>State\<close>

definition MAX_BATCH_EVENTS :: nat where
  "MAX_BATCH_EVENTS = 20"

definition MAX_BATCH_BYTES :: nat where
  "MAX_BATCH_BYTES = 512 * 1024"

definition MAX_QUEUE_EVENTS :: nat where
  "MAX_QUEUE_EVENTS = 500"

definition MAX_QUEUE_BYTES :: int where
  "MAX_QUEUE_BYTES = 5 * 1024 * 1024"

definition FLUSH_DELAY_MS :: nat where
  "FLUSH_DELAY_MS = 500"

definition RETRY_DELAYS_MS :: "nat list" where
  "RETRY_DELAYS_MS = [1000, 2000, 5000, 10000]"

definition MAX_BATCH_AGE_MS :: ms where
  "MAX_BATCH_AGE_MS = 60000"

record queued_event =
  qe_number :: nat
  qe_event :: activity_event
  qe_bytes :: nat
  qe_enqueuedAt :: ms

datatype drain_point = WaitsForToken | WaitsForReport | WaitsForRetry nat

record drain =
  dr_batch :: "queued_event list"
  dr_retry :: nat
  dr_point :: drain_point

datatype give_up_reason = Overflow | AuthRejected | BatchRejected | BatchDropped | Cleared

record reporter =
  rp_contexts :: "(run_id, activity_context) assoc"
  rp_queue :: "queued_event list"
  rp_queueBytes :: int
  rp_droppedEvents :: nat
  rp_paused :: bool
  rp_closed :: bool
  rp_flushTimer :: "nat option"
  rp_flushWork :: "drain option"
  rp_closing :: bool \<comment> \<open>\<^verbatim>\<open>close\<close> waits\<close>
  rp_next :: nat
  rp_allReports :: "(string \<times> queued_event list) list"
  rp_allDelivered :: "queued_event list"
  rp_allGivenUp :: "(give_up_reason \<times> queued_event list) list"

definition new_reporter :: reporter where
  "new_reporter =
     \<lparr>rp_contexts = [], rp_queue = [], rp_queueBytes = 0, rp_droppedEvents = 0, rp_paused = True, rp_closed = False,
      rp_flushTimer = None, rp_flushWork = None, rp_closing = False, rp_next = 0, rp_allReports = [],
      rp_allDelivered = [], rp_allGivenUp = []\<rparr>"

section \<open>The queue\<close>

definition give_up :: "give_up_reason \<Rightarrow> queued_event list \<Rightarrow> reporter \<Rightarrow> reporter" where
  "give_up why qs s = s\<lparr>rp_allGivenUp := rp_allGivenUp s @ [(why, qs)]\<rparr>"

definition scheduleFlush :: "nat \<Rightarrow> reporter \<Rightarrow> reporter" where
  "scheduleFlush delayMs s =
     (if rp_paused s \<or> rp_closed s then s
      else if rp_flushTimer s \<noteq> None \<and> delayMs \<noteq> 0 then s
      else s\<lparr>rp_flushTimer := Some delayMs\<rparr>)"

text \<open>The loop of \<^verbatim>\<open>enqueueProjected\<close>\<close>

fun drop_oldest :: "queued_event list \<Rightarrow> reporter \<Rightarrow> reporter" where
  "drop_oldest [] s = s\<lparr>rp_queue := []\<rparr>"
| "drop_oldest (q # qs) s =
     (if length (q # qs) > MAX_QUEUE_EVENTS \<or> rp_queueBytes s > MAX_QUEUE_BYTES
      then drop_oldest qs (give_up Overflow [q]
        (s\<lparr>rp_queueBytes := rp_queueBytes s - int (qe_bytes q), rp_droppedEvents := Suc (rp_droppedEvents s)\<rparr>))
      else s\<lparr>rp_queue := q # qs\<rparr>)"

definition enqueueProjected :: "activity_env \<Rightarrow> ms \<Rightarrow> activity_event \<Rightarrow> reporter \<Rightarrow> reporter" where
  "enqueueProjected X now e s =
     (if rp_paused s \<or> rp_closed s then s
      else
        let bytes = ax_encodedBytes X e;
            q = \<lparr>qe_number = rp_next s, qe_event = e, qe_bytes = bytes, qe_enqueuedAt = now\<rparr>;
            s1 = drop_oldest (rp_queue s @ [q]) (s\<lparr>rp_next := Suc (rp_next s), rp_queueBytes := rp_queueBytes s + int bytes\<rparr>)
        in if length (rp_queue s1) \<ge> MAX_BATCH_EVENTS \<or> rp_queueBytes s1 \<ge> int MAX_BATCH_BYTES
           then scheduleFlush 0 s1 else scheduleFlush FLUSH_DELAY_MS s1)"

fun batch_from :: "activity_env \<Rightarrow> queued_event list \<Rightarrow> queued_event list \<Rightarrow> queued_event list" where
  "batch_from X batch [] = batch"
| "batch_from X batch (q # qs) =
     (if length batch \<ge> MAX_BATCH_EVENTS then batch
      else if batch \<noteq> [] \<and> ax_requestBytes X (map qe_event (batch @ [q])) > MAX_BATCH_BYTES then batch
      else batch_from X (batch @ [q]) qs)"

definition nextBatch :: "activity_env \<Rightarrow> queued_event list \<Rightarrow> queued_event list" where
  "nextBatch X = batch_from X []"

definition remove_item :: "queued_event \<Rightarrow> reporter \<Rightarrow> reporter" where
  "remove_item q s =
     (if qe_number q \<in> set (map qe_number (rp_queue s))
      then s\<lparr>rp_queue := filter (\<lambda>p. qe_number p \<noteq> qe_number q) (rp_queue s), rp_queueBytes := rp_queueBytes s - int (qe_bytes q)\<rparr>
      else s)"

definition removeBatch :: "queued_event list \<Rightarrow> reporter \<Rightarrow> reporter" where
  "removeBatch = fold remove_item"

definition clearQueue :: "give_up_reason \<Rightarrow> reporter \<Rightarrow> reporter" where
  "clearQueue why s =
     give_up why (rp_queue s) (s\<lparr>rp_queue := [], rp_queueBytes := 0, rp_contexts := [], rp_flushTimer := None\<rparr>)"

section \<open>Draining\<close>

text \<open>The end of \<^verbatim>\<open>drain\<close>, and its \<^verbatim>\<open>finally\<close> in \<^verbatim>\<open>flush\<close>\<close>

definition drain_over :: "reporter \<Rightarrow> reporter" where
  "drain_over s =
     (let s1 = s\<lparr>rp_flushWork := None\<rparr> in
      if rp_queue s1 \<noteq> [] \<and> \<not> rp_paused s1 \<and> \<not> rp_closed s1 then scheduleFlush FLUSH_DELAY_MS s1 else s1)"

text \<open>The head of the outer loop of \<^verbatim>\<open>drain\<close>\<close>

definition drain_batch :: "activity_env \<Rightarrow> reporter \<Rightarrow> reporter" where
  "drain_batch X s =
     (if rp_queue s \<noteq> [] \<and> \<not> rp_paused s
      then s\<lparr>rp_flushWork := Some \<lparr>dr_batch = nextBatch X (rp_queue s), dr_retry = 0, dr_point = WaitsForToken\<rparr>\<rparr>
      else drain_over s)"

definition flush :: "activity_env \<Rightarrow> reporter \<Rightarrow> reporter" where
  "flush X s = (if rp_flushWork s = None then drain_batch X s else s)"

definition flush_timer_fires :: "activity_env \<Rightarrow> reporter \<Rightarrow> reporter" where
  "flush_timer_fires X s = flush X (s\<lparr>rp_flushTimer := None\<rparr>)"

definition token_arrives :: "string \<Rightarrow> drain \<Rightarrow> reporter \<Rightarrow> reporter" where
  "token_arrives token d s =
     s\<lparr>rp_flushWork := Some (d\<lparr>dr_point := WaitsForReport\<rparr>), rp_allReports := rp_allReports s @ [(token, dr_batch d)]\<rparr>"

definition report_succeeds :: "activity_env \<Rightarrow> drain \<Rightarrow> reporter \<Rightarrow> reporter" where
  "report_succeeds X d s =
     drain_batch X (removeBatch (dr_batch d) (s\<lparr>rp_allDelivered := rp_allDelivered s @ dr_batch d\<rparr>))"

definition retryable :: "nat option \<Rightarrow> bool" where
  "retryable statusCode = (case statusCode of None \<Rightarrow> True | Some c \<Rightarrow> c = 429 \<or> c \<ge> 500)"

definition oldest_at :: "queued_event list \<Rightarrow> ms \<Rightarrow> ms" where
  "oldest_at batch now = (case batch of [] \<Rightarrow> now | q # qs \<Rightarrow> qe_enqueuedAt q)"

text \<open>The \<^verbatim>\<open>catch\<close> of \<^verbatim>\<open>drain\<close>\<close>

definition drain_fails :: "activity_env \<Rightarrow> nat option \<Rightarrow> ms \<Rightarrow> drain \<Rightarrow> reporter \<Rightarrow> reporter" where
  "drain_fails X statusCode now d s =
     (if rp_paused s \<or> rp_closed s then drain_over s
      else if statusCode \<in> {Some 401, Some 403} then drain_over ((clearQueue AuthRejected s)\<lparr>rp_paused := True\<rparr>)
      else if statusCode \<in> {Some 400, Some 413} then
        drain_batch X (removeBatch (dr_batch d) (give_up BatchRejected (dr_batch d) s))
      else if \<not> retryable statusCode \<or> now - oldest_at (dr_batch d) now \<ge> MAX_BATCH_AGE_MS then
        drain_batch X (removeBatch (dr_batch d) (give_up BatchDropped (dr_batch d) s))
      else s\<lparr>rp_flushWork := Some (d\<lparr>dr_retry := Suc (dr_retry d),
        dr_point := WaitsForRetry (RETRY_DELAYS_MS ! min (dr_retry d) 3)\<rparr>)\<rparr>)"

text \<open>After the delay, the head of the inner loop\<close>

definition retry :: "activity_env \<Rightarrow> drain \<Rightarrow> reporter \<Rightarrow> reporter" where
  "retry X d s = (if rp_paused s then drain_batch X s else s\<lparr>rp_flushWork := Some (d\<lparr>dr_point := WaitsForToken\<rparr>)\<rparr>)"

section \<open>Operations\<close>

definition isActive :: "reporter \<Rightarrow> bool" where
  "isActive s \<longleftrightarrow> \<not> rp_paused s \<and> \<not> rp_closed s"

definition registerRun :: "activity_env \<Rightarrow> ms \<Rightarrow> registered_run \<Rightarrow> reporter \<Rightarrow> reporter" where
  "registerRun X now i s =
     (if rp_paused s \<or> rp_closed s then s
      else enqueueProjected X now (projectRunStarted X i)
        (s\<lparr>rp_contexts := map_put (gr_runId i)
            \<lparr>ac_sessionId = (case gr_threadId i of None \<Rightarrow> gr_runId i | Some t \<Rightarrow> t), ac_turnId = gr_runId i\<rparr> (rp_contexts s)\<rparr>))"

text \<open>A \<^verbatim>\<open>TypeError\<close> of the projection leaves \<^verbatim>\<open>enqueue\<close>.\<close>

definition enqueue_event :: "activity_env \<Rightarrow> ms \<Rightarrow> envelope \<Rightarrow> reporter \<Rightarrow> reporter" where
  "enqueue_event X now e s =
     (case map_of (rp_contexts s) (av_runId e) of
        None \<Rightarrow> s
      | Some c \<Rightarrow>
          if rp_paused s \<or> rp_closed s then s
          else (case projectActivityEvent X e c of
              Inl u \<Rightarrow> s
            | Inr projected \<Rightarrow>
                (let s1 = (case projected of None \<Rightarrow> s | Some a \<Rightarrow> enqueueProjected X now a s) in
                 if av_type e = ''done'' then s1\<lparr>rp_contexts := map_del (av_runId e) (rp_contexts s1)\<rparr> else s1)))"

definition recordSkillEvidence ::
  "activity_env \<Rightarrow> ms \<Rightarrow> run_id \<Rightarrow> string \<Rightarrow> nat \<Rightarrow> ms \<Rightarrow> skill_evidence \<Rightarrow> reporter \<Rightarrow> reporter" where
  "recordSkillEvidence X now runId eventId sequence occurredAt v s =
     (case map_of (rp_contexts s) runId of
        None \<Rightarrow> s
      | Some c \<Rightarrow>
          if rp_paused s \<or> rp_closed s then s
          else enqueueProjected X now (projectSkillEvidence runId c eventId sequence occurredAt v) s)"

definition resume_reports :: "reporter \<Rightarrow> reporter" where
  "resume_reports s =
     (if rp_closed s then s
      else let s1 = s\<lparr>rp_paused := False\<rparr> in if rp_queue s1 \<noteq> [] then scheduleFlush 0 s1 else s1)"

definition clear_reports :: "reporter \<Rightarrow> reporter" where
  "clear_reports s = clearQueue Cleared (s\<lparr>rp_paused := True\<rparr>)"

text \<open>\<^verbatim>\<open>close\<close> waits for \<^verbatim>\<open>flush\<close> or half a second, and then ends.\<close>

definition close_begins :: "activity_env \<Rightarrow> reporter \<Rightarrow> reporter" where
  "close_begins X s = (if rp_closed s then s else flush X (s\<lparr>rp_flushTimer := None, rp_closing := True\<rparr>))"

definition close_ends :: "reporter \<Rightarrow> reporter" where
  "close_ends s = clearQueue Cleared (s\<lparr>rp_paused := True, rp_closed := True\<rparr>)"

inductive reporter_step :: "activity_env \<Rightarrow> reporter \<Rightarrow> reporter \<Rightarrow> bool" for X where
  run_registered: "reporter_step X s (registerRun X now i s)"
| event_enqueued: "reporter_step X s (enqueue_event X now e s)"
| evidence_recorded: "reporter_step X s (recordSkillEvidence X now runId eventId sequence occurredAt v s)"
| reports_resumed: "reporter_step X s (resume_reports s)"
| reports_cleared: "reporter_step X s (clear_reports s)"
| flush_due: "reporter_step X s (flush_timer_fires X s)" if "rp_flushTimer s \<noteq> None"
| has_token: "reporter_step X s (token_arrives token d s)" if "rp_flushWork s = Some d" and "dr_point d = WaitsForToken"
| reported: "reporter_step X s (report_succeeds X d s)" if "rp_flushWork s = Some d" and "dr_point d = WaitsForReport"
| failed: "reporter_step X s (drain_fails X statusCode now d s)"
    if "rp_flushWork s = Some d" and "dr_point d = WaitsForToken \<or> dr_point d = WaitsForReport"
| retried: "reporter_step X s (retry X d s)" if "rp_flushWork s = Some d" and "dr_point d = WaitsForRetry delayMs"
| closing: "reporter_step X s (close_begins X s)"
| closed: "reporter_step X s (close_ends s)" if "rp_closing s"

inductive reporter_history :: "activity_env \<Rightarrow> reporter \<Rightarrow> bool" for X where
  reporter_created: "reporter_history X new_reporter"
| reporter_continues: "reporter_history X s \<Longrightarrow> reporter_step X s s' \<Longrightarrow> reporter_history X s'"

section \<open>The invariant\<close>

definition numbers :: "queued_event list \<Rightarrow> nat list" where
  "numbers = map qe_number"

definition total_bytes :: "queued_event list \<Rightarrow> int" where
  "total_bytes qs = (\<Sum>q\<leftarrow>qs. int (qe_bytes q))"

definition clean_event :: "queued_event \<Rightarrow> bool" where
  "clean_event q \<longleftrightarrow> clean_activity (qe_event q)"

text \<open>A request keeps to the limits: at most 20 events, and only a single event may be larger than 512 KB.\<close>

definition batch_fits :: "activity_env \<Rightarrow> queued_event list \<Rightarrow> bool" where
  "batch_fits X b \<longleftrightarrow>
     b \<noteq> [] \<and> length b \<le> MAX_BATCH_EVENTS \<and> (length b = 1 \<or> ax_requestBytes X (map qe_event b) \<le> MAX_BATCH_BYTES) \<and>
     (\<forall>q \<in> set b. clean_event q)"

definition given_up :: "reporter \<Rightarrow> queued_event list" where
  "given_up s = concat (map snd (rp_allGivenUp s))"

definition queue_ok :: "reporter \<Rightarrow> bool" where
  "queue_ok s \<longleftrightarrow>
     rp_queueBytes s = total_bytes (rp_queue s) \<and> length (rp_queue s) \<le> MAX_QUEUE_EVENTS \<and>
     rp_queueBytes s \<le> MAX_QUEUE_BYTES \<and>
     sorted_wrt (<) (numbers (rp_queue s)) \<and> (\<forall>q \<in> set (rp_queue s). qe_number q < rp_next s \<and> clean_event q) \<and>
     (rp_paused s \<longrightarrow> rp_queue s = [] \<and> rp_flushTimer s = None) \<and> (rp_closed s \<longrightarrow> rp_paused s)"

definition past_ok :: "activity_env \<Rightarrow> reporter \<Rightarrow> bool" where
  "past_ok X s \<longleftrightarrow>
     sorted_wrt (<) (numbers (rp_allDelivered s)) \<and> (\<forall>x \<in> set (rp_allDelivered s). qe_number x < rp_next s) \<and>
     (\<forall>x \<in> set (rp_allDelivered s). \<forall>y \<in> set (rp_queue s). qe_number x < qe_number y) \<and>
     {..<rp_next s} \<subseteq> set (numbers (rp_queue s @ rp_allDelivered s @ given_up s)) \<and>
     (\<forall>(token, b) \<in> set (rp_allReports s). batch_fits X b)"

definition batch_ok :: "activity_env \<Rightarrow> queued_event list \<Rightarrow> reporter \<Rightarrow> bool" where
  "batch_ok X b s \<longleftrightarrow>
     batch_fits X b \<and> sorted_wrt (<) (numbers b) \<and> (\<forall>x \<in> set b. qe_number x < rp_next s) \<and>
     (\<forall>x \<in> set (rp_allDelivered s). \<forall>y \<in> set b. qe_number x < qe_number y) \<and>
     (\<forall>x \<in> set b. \<forall>y \<in> set (rp_queue s). y \<in> set b \<or> qe_number x < qe_number y)"

definition work_ok :: "activity_env \<Rightarrow> reporter \<Rightarrow> bool" where
  "work_ok X s \<longleftrightarrow>
     (\<forall>d. rp_flushWork s = Some d \<longrightarrow> batch_ok X (dr_batch d) s) \<and>
     (rp_queue s \<noteq> [] \<longrightarrow> rp_flushTimer s \<noteq> None \<or> rp_flushWork s \<noteq> None)"

definition reporter_ok :: "activity_env \<Rightarrow> reporter \<Rightarrow> bool" where
  "reporter_ok X s \<longleftrightarrow> queue_ok s \<and> past_ok X s \<and> work_ok X s"

lemma total_bytes_simps [simp]:
  "total_bytes [] = 0" "total_bytes (q # qs) = int (qe_bytes q) + total_bytes qs"
  "total_bytes (qs @ rs) = total_bytes qs + total_bytes rs"
  by (simp_all add: total_bytes_def)

lemma numbers_simps [simp]:
  "numbers [] = []" "numbers (q # qs) = qe_number q # numbers qs" "numbers (qs @ rs) = numbers qs @ numbers rs"
  by (simp_all add: numbers_def)

lemma set_numbers [simp]: "set (numbers qs) = qe_number ` set qs"
  by (simp add: numbers_def)

lemma new_reporter_ok: "reporter_ok X new_reporter"
  by (simp add: reporter_ok_def queue_ok_def past_ok_def work_ok_def new_reporter_def given_up_def MAX_QUEUE_BYTES_def)

section \<open>Changes of the queue\<close>

text \<open>The batch is the beginning of the queue.\<close>

lemma batch_from_take:
  assumes "b = [] \<or> batch_fits X b" and "length b \<le> MAX_BATCH_EVENTS" and "\<forall>q \<in> set qs. clean_event q"
  shows "\<exists>n. batch_from X b qs = b @ take n qs \<and> (b @ take n qs = [] \<or> batch_fits X (b @ take n qs)) \<and> (b = [] \<longrightarrow> qs \<noteq> [] \<longrightarrow> 0 < n)"
  using assms
proof (induction X b qs rule: batch_from.induct)
  case (1 X batch)
  then show ?case by (auto intro: exI [of _ 0])
next
  case (2 X batch q qs)
  show ?case
  proof (cases "length batch \<ge> MAX_BATCH_EVENTS \<or> batch \<noteq> [] \<and> ax_requestBytes X (map qe_event (batch @ [q])) > MAX_BATCH_BYTES")
    case True
    then have "batch \<noteq> []" by (auto simp: MAX_BATCH_EVENTS_def)
    then show ?thesis using True 2(2) by (intro exI [of _ 0]) auto
  next
    case False
    then have fits: "batch_fits X (batch @ [q])" using 2(2,4) by (auto simp: batch_fits_def)
    have "\<exists>n. batch_from X (batch @ [q]) qs = (batch @ [q]) @ take n qs \<and>
        ((batch @ [q]) @ take n qs = [] \<or> batch_fits X ((batch @ [q]) @ take n qs)) \<and> (batch @ [q] = [] \<longrightarrow> qs \<noteq> [] \<longrightarrow> 0 < n)"
      by (rule 2(1)) (use False fits 2(4) in \<open>auto simp: batch_fits_def\<close>)
    then obtain n where "batch_from X (batch @ [q]) qs = batch @ q # take n qs" "batch_fits X (batch @ q # take n qs)" by auto
    then show ?thesis using False by (intro exI [of _ "Suc n"]) auto
  qed
qed

lemma nextBatch_take:
  assumes "qs \<noteq> []" and "\<forall>q \<in> set qs. clean_event q"
  obtains n where "nextBatch X qs = take n qs" "batch_fits X (take n qs)"
  using batch_from_take [of "[]" X qs] assms that by (auto simp: nextBatch_def)

lemma filter_absent: "n \<notin> qe_number ` set qs \<Longrightarrow> filter (\<lambda>p. qe_number p \<noteq> n) qs = qs"
  by (induction qs) auto

lemma total_bytes_remove:
  "distinct (numbers qs) \<Longrightarrow> q \<in> set qs \<Longrightarrow> total_bytes (filter (\<lambda>p. qe_number p \<noteq> qe_number q) qs) = total_bytes qs - int (qe_bytes q)"
proof (induction qs)
  case (Cons p qs)
  show ?case
  proof (cases "q = p")
    case True
    then have "filter (\<lambda>p. qe_number p \<noteq> qe_number q) qs = qs" using Cons.prems by (simp add: filter_absent)
    then show ?thesis using True by simp
  next
    case False
    then have "q \<in> set qs" "qe_number p \<noteq> qe_number q" using Cons.prems by auto
    then show ?thesis using Cons by simp
  qed
qed simp

lemma total_bytes_nonneg: "0 \<le> total_bytes qs"
  by (induction qs) simp_all

lemma total_bytes_filter: "total_bytes (filter f qs) \<le> total_bytes qs"
  by (induction qs) simp_all

lemma sorted_numbers_filter: "sorted_wrt (<) (numbers qs) \<Longrightarrow> sorted_wrt (<) (numbers (filter f qs))"
  by (induction qs) auto

lemma sorted_numbers_distinct: "sorted_wrt (<) (numbers qs) \<Longrightarrow> distinct (numbers qs)"
  by (simp add: strict_sorted_iff)

text \<open>\<open>removeBatch\<close> removes what is left of the batch.\<close>

lemma removeBatch_eq:
  assumes "rp_queueBytes s = total_bytes (rp_queue s)" and "distinct (numbers (rp_queue s))"
    and "\<And>x y. x \<in> set b \<Longrightarrow> y \<in> set (rp_queue s) \<Longrightarrow> qe_number x = qe_number y \<Longrightarrow> x = y"
  shows "removeBatch b s =
    s\<lparr>rp_queue := filter (\<lambda>p. qe_number p \<notin> qe_number ` set b) (rp_queue s),
      rp_queueBytes := total_bytes (filter (\<lambda>p. qe_number p \<notin> qe_number ` set b) (rp_queue s))\<rparr>"
  using assms
proof (induction b arbitrary: s)
  case Nil
  then show ?case by (simp add: removeBatch_def)
next
  case (Cons q b)
  let ?rest = "filter (\<lambda>p. qe_number p \<noteq> qe_number q) (rp_queue s)"
  have "remove_item q s = s\<lparr>rp_queue := ?rest, rp_queueBytes := total_bytes ?rest\<rparr>"
  proof (cases "qe_number q \<in> set (map qe_number (rp_queue s))")
    case True
    then have "q \<in> set (rp_queue s)" using Cons.prems(3) by fastforce
    then show ?thesis using True Cons.prems(1) total_bytes_remove [OF Cons.prems(2)] by (simp add: remove_item_def)
  next
    case False
    then have "?rest = rp_queue s" by (simp add: filter_absent)
    then show ?thesis using False Cons.prems(1) by (simp add: remove_item_def)
  qed
  moreover have "distinct (numbers ?rest)" using Cons.prems(2) by (auto simp: numbers_def distinct_map_filter)
  moreover have "filter (\<lambda>p. qe_number p \<notin> qe_number ` set b) ?rest =
      filter (\<lambda>p. qe_number p \<notin> qe_number ` set (q # b)) (rp_queue s)"
    by (simp add: conj_commute)
  ultimately show ?case
    using Cons.IH [of "s\<lparr>rp_queue := ?rest, rp_queueBytes := total_bytes ?rest\<rparr>"] Cons.prems(3)
    by (simp add: removeBatch_def)
qed

lemma drop_oldest_eq:
  assumes "rp_queueBytes s = total_bytes qs"
  obtains n where "drop_oldest qs s =
      s\<lparr>rp_queue := drop n qs, rp_queueBytes := total_bytes (drop n qs), rp_droppedEvents := rp_droppedEvents s + n,
        rp_allGivenUp := rp_allGivenUp s @ map (\<lambda>q. (Overflow, [q])) (take n qs)\<rparr>"
    and "length (drop n qs) \<le> MAX_QUEUE_EVENTS" and "total_bytes (drop n qs) \<le> MAX_QUEUE_BYTES" and "n \<le> length qs"
  using assms
proof (induction qs s arbitrary: thesis rule: drop_oldest.induct)
  case (1 s)
  show ?case by (rule 1(1) [of 0]) (use 1(2) in \<open>simp_all add: MAX_QUEUE_BYTES_def\<close>)
next
  case (2 q qs s)
  show ?case
  proof (cases "length (q # qs) > MAX_QUEUE_EVENTS \<or> rp_queueBytes s > MAX_QUEUE_BYTES")
    case True
    show ?thesis
    proof (rule 2(1) [OF True])
      fix n
      let ?s = "give_up Overflow [q] (s\<lparr>rp_queueBytes := rp_queueBytes s - int (qe_bytes q), rp_droppedEvents := Suc (rp_droppedEvents s)\<rparr>)"
      assume "drop_oldest qs ?s = ?s\<lparr>rp_queue := drop n qs, rp_queueBytes := total_bytes (drop n qs),
          rp_droppedEvents := rp_droppedEvents ?s + n,
          rp_allGivenUp := rp_allGivenUp ?s @ map (\<lambda>q. (Overflow, [q])) (take n qs)\<rparr>"
        and "length (drop n qs) \<le> MAX_QUEUE_EVENTS" "total_bytes (drop n qs) \<le> MAX_QUEUE_BYTES" "n \<le> length qs"
      then show ?thesis using True by (intro 2(2) [of "Suc n"]) (simp_all add: give_up_def)
    qed (use 2(3) in \<open>simp add: give_up_def\<close>)
  next
    case False
    then show ?thesis using 2(3) by (intro 2(2) [of 0]) simp_all
  qed
qed

lemma schedule_fields [simp]:
  "rp_queue (scheduleFlush n s) = rp_queue s" "rp_queueBytes (scheduleFlush n s) = rp_queueBytes s"
  "rp_paused (scheduleFlush n s) = rp_paused s" "rp_closed (scheduleFlush n s) = rp_closed s"
  "rp_flushWork (scheduleFlush n s) = rp_flushWork s" "rp_next (scheduleFlush n s) = rp_next s"
  "rp_allReports (scheduleFlush n s) = rp_allReports s" "rp_allDelivered (scheduleFlush n s) = rp_allDelivered s"
  "rp_allGivenUp (scheduleFlush n s) = rp_allGivenUp s"
  by (simp_all add: scheduleFlush_def)

lemma schedule_armed: "\<not> rp_paused s \<Longrightarrow> \<not> rp_closed s \<Longrightarrow> rp_flushTimer (scheduleFlush n s) \<noteq> None"
  by (auto simp: scheduleFlush_def)

lemma schedule_paused: "rp_paused s \<Longrightarrow> scheduleFlush n s = s"
  by (simp add: scheduleFlush_def)

lemma queue_ok_schedule: "queue_ok s \<Longrightarrow> queue_ok (scheduleFlush n s)"
  by (cases "rp_paused s") (simp_all add: schedule_paused, simp add: queue_ok_def)

lemma past_ok_cong:
  assumes "past_ok X s" and "rp_allDelivered s' = rp_allDelivered s" and "rp_next s' = rp_next s" and "rp_queue s' = rp_queue s"
    and "rp_allGivenUp s' = rp_allGivenUp s" and "rp_allReports s' = rp_allReports s"
  shows "past_ok X s'"
  using assms by (simp add: past_ok_def given_up_def)

lemma batch_ok_cong:
  assumes "batch_ok X b s" and "rp_allDelivered s' = rp_allDelivered s" and "rp_next s' = rp_next s" and "rp_queue s' = rp_queue s"
  shows "batch_ok X b s'"
  using assms by (simp add: batch_ok_def)

lemma drain_over_ok:
  assumes "queue_ok s" and "past_ok X s"
  shows "reporter_ok X (drain_over s)"
proof -
  let ?s = "s\<lparr>rp_flushWork := None\<rparr>"
  have q: "queue_ok ?s" using assms(1) by (simp add: queue_ok_def)
  have p: "past_ok X (drain_over s)" by (rule past_ok_cong [OF assms(2)]) (simp_all add: drain_over_def Let_def)
  have "queue_ok (drain_over s)" using q queue_ok_schedule [OF q] by (simp add: drain_over_def Let_def)
  moreover have "work_ok X (drain_over s)"
  proof (cases "rp_queue s = []")
    case True
    then show ?thesis by (simp add: work_ok_def drain_over_def)
  next
    case False
    then have "\<not> rp_paused s" "\<not> rp_closed s" using assms(1) by (auto simp: queue_ok_def)
    then show ?thesis using False schedule_armed [of ?s FLUSH_DELAY_MS] by (simp add: work_ok_def drain_over_def)
  qed
  ultimately show ?thesis using p by (simp add: reporter_ok_def)
qed

lemma take_before:
  "sorted_wrt (<) (numbers qs) \<Longrightarrow> x \<in> set (take n qs) \<Longrightarrow> y \<in> set qs \<Longrightarrow> y \<in> set (take n qs) \<or> qe_number x < qe_number y"
proof -
  assume sorted: "sorted_wrt (<) (numbers qs)" and x: "x \<in> set (take n qs)" and y: "y \<in> set qs"
  have "set qs = set (take n qs) \<union> set (drop n qs)" by (metis append_take_drop_id set_append)
  moreover have "sorted_wrt (<) (numbers (take n qs @ drop n qs))" using sorted by simp
  ultimately show ?thesis using x y by (auto simp: sorted_wrt_append simp del: append_take_drop_id)
qed

lemma sorted_numbers_take: "sorted_wrt (<) (numbers qs) \<Longrightarrow> sorted_wrt (<) (numbers (take n qs))"
  by (simp add: numbers_def take_map [symmetric] sorted_wrt_take)

lemma sorted_numbers_drop: "sorted_wrt (<) (numbers qs) \<Longrightarrow> sorted_wrt (<) (numbers (drop n qs))"
  by (simp add: numbers_def drop_map [symmetric] sorted_wrt_drop)

lemma drain_batch_ok:
  assumes "queue_ok s" and "past_ok X s"
  shows "reporter_ok X (drain_batch X s)"
proof (cases "rp_queue s \<noteq> [] \<and> \<not> rp_paused s")
  case False
  then have "drain_batch X s = drain_over s" unfolding drain_batch_def by (rule if_not_P)
  then show ?thesis using drain_over_ok [OF assms] by simp
next
  case True
  let ?d = "\<lparr>dr_batch = nextBatch X (rp_queue s), dr_retry = 0, dr_point = WaitsForToken\<rparr>"
  let ?s = "s\<lparr>rp_flushWork := Some ?d\<rparr>"
  have "\<forall>q \<in> set (rp_queue s). clean_event q" using assms(1) by (simp add: queue_ok_def)
  then obtain n where n: "nextBatch X (rp_queue s) = take n (rp_queue s)" "batch_fits X (take n (rp_queue s))"
    using nextBatch_take True by blast
  have sorted: "sorted_wrt (<) (numbers (rp_queue s))" using assms(1) by (simp add: queue_ok_def)
  have "batch_ok X (take n (rp_queue s)) ?s"
    unfolding batch_ok_def
  proof (intro conjI)
    show "\<forall>x \<in> set (take n (rp_queue s)). qe_number x < rp_next ?s"
      using assms(1) by (auto simp: queue_ok_def dest: in_set_takeD)
    show "\<forall>x \<in> set (rp_allDelivered ?s). \<forall>y \<in> set (take n (rp_queue s)). qe_number x < qe_number y"
      using assms(2) by (auto simp: past_ok_def dest: in_set_takeD)
    show "\<forall>x \<in> set (take n (rp_queue s)). \<forall>y \<in> set (rp_queue ?s). y \<in> set (take n (rp_queue s)) \<or> qe_number x < qe_number y"
      using take_before [OF sorted] by simp
  qed (use n sorted sorted_numbers_take in simp_all)
  then have "work_ok X ?s" using n(1) by (simp add: work_ok_def)
  moreover have "queue_ok ?s" using assms(1) by (simp add: queue_ok_def)
  moreover have "past_ok X ?s" by (rule past_ok_cong [OF assms(2)]) simp_all
  ultimately show ?thesis using True by (simp add: drain_batch_def reporter_ok_def)
qed

text \<open>The end of a batch: what remains of it leaves the queue.\<close>

lemma removed_ok:
  assumes "queue_ok s" and "past_ok X s" and "batch_ok X b s"
    and "rp_queue s1 = rp_queue s" and "rp_queueBytes s1 = rp_queueBytes s" and "rp_paused s1 = rp_paused s"
    and "rp_closed s1 = rp_closed s" and "rp_flushTimer s1 = rp_flushTimer s" and "rp_next s1 = rp_next s"
    and "rp_allReports s1 = rp_allReports s"
    and "rp_allDelivered s1 = rp_allDelivered s @ b \<and> given_up s1 = given_up s \<or>
      rp_allDelivered s1 = rp_allDelivered s \<and> given_up s1 = given_up s @ b"
  shows "queue_ok (removeBatch b s1)" and "past_ok X (removeBatch b s1)"
proof -
  let ?rest = "filter (\<lambda>p. qe_number p \<notin> qe_number ` set b) (rp_queue s)"
  have sorted: "sorted_wrt (<) (numbers (rp_queue s))" using assms(1) by (simp add: queue_ok_def)
  have "x = y" if "x \<in> set b" "y \<in> set (rp_queue s)" "qe_number x = qe_number y" for x y
  proof -
    have "y \<in> set b \<or> qe_number x < qe_number y" using assms(3) that(1,2) by (simp add: batch_ok_def)
    then have "y \<in> set b" using that(3) by simp
    moreover have "inj_on qe_number (set b)"
      using assms(3) sorted_numbers_distinct [of b] by (simp add: batch_ok_def numbers_def distinct_map)
    ultimately show ?thesis using that by (auto dest: inj_onD)
  qed
  then have eq: "removeBatch b s1 = s1\<lparr>rp_queue := ?rest, rp_queueBytes := total_bytes ?rest\<rparr>"
    using removeBatch_eq [of s1 b] assms(1,4,5) sorted_numbers_distinct [OF sorted] by (simp add: queue_ok_def)
  have "total_bytes ?rest \<le> MAX_QUEUE_BYTES"
    using assms(1) by (intro order_trans [OF total_bytes_filter]) (simp add: queue_ok_def)
  moreover have "length ?rest \<le> MAX_QUEUE_EVENTS"
    using assms(1) by (intro le_trans [OF length_filter_le]) (simp add: queue_ok_def)
  ultimately show "queue_ok (removeBatch b s1)"
    using assms(1) sorted_numbers_filter [OF sorted]
    unfolding eq by (auto simp: queue_ok_def assms(4-10))
  have b: "sorted_wrt (<) (numbers b)" "\<forall>x \<in> set b. qe_number x < rp_next s"
    "\<forall>x \<in> set (rp_allDelivered s). \<forall>y \<in> set b. qe_number x < qe_number y"
    using assms(3) by (auto simp: batch_ok_def)
  have after: "qe_number x < qe_number y" if "x \<in> set b" "y \<in> set ?rest" for x y
  proof -
    have "y \<in> set b \<or> qe_number x < qe_number y" using assms(3) that by (simp add: batch_ok_def)
    then show ?thesis using that(2) by auto
  qed
  have given: "given_up (removeBatch b s1) = given_up s1" by (simp add: eq given_up_def)
  have "set (rp_queue s) \<subseteq> set ?rest \<union> {p. qe_number p \<in> qe_number ` set b}" by auto
  then have covered: "qe_number ` set (rp_queue s) \<subseteq> qe_number ` set ?rest \<union> qe_number ` set b" by auto
  have past: "sorted_wrt (<) (numbers (rp_allDelivered s))" "\<forall>x \<in> set (rp_allDelivered s). qe_number x < rp_next s"
    "\<forall>x \<in> set (rp_allDelivered s). \<forall>y \<in> set (rp_queue s). qe_number x < qe_number y"
    "{..<rp_next s} \<subseteq> set (numbers (rp_queue s @ rp_allDelivered s @ given_up s))"
    "\<forall>(token, b) \<in> set (rp_allReports s). batch_fits X b"
    using assms(2) by (simp_all add: past_ok_def)
  have account: "{..<rp_next s} \<subseteq> set (numbers (?rest @ rp_allDelivered s1 @ given_up s1))"
    using assms(11)
  proof
    have rest: "{..<rp_next s} \<subseteq> qe_number ` set (rp_queue s) \<union> qe_number ` set (rp_allDelivered s) \<union> qe_number ` set (given_up s)"
      using past(4) by (simp add: image_Un Un_assoc)
    show ?thesis if "rp_allDelivered s1 = rp_allDelivered s @ b \<and> given_up s1 = given_up s"
      unfolding that [THEN conjunct1] that [THEN conjunct2] set_numbers set_append image_Un using rest covered by blast
    show ?thesis if "rp_allDelivered s1 = rp_allDelivered s \<and> given_up s1 = given_up s @ b"
      unfolding that [THEN conjunct1] that [THEN conjunct2] set_numbers set_append image_Un using rest covered by blast
  qed
  have "sorted_wrt (<) (numbers (rp_allDelivered s1))"
    using past(1) b(1,3) assms(11) by (auto simp: sorted_wrt_append)
  moreover have "\<forall>x \<in> set (rp_allDelivered s1). qe_number x < rp_next s" using past(2) b(2) assms(11) by auto
  moreover have "\<forall>x \<in> set (rp_allDelivered s1). \<forall>y \<in> set ?rest. qe_number x < qe_number y" using past(3) after assms(11) by auto
  ultimately show "past_ok X (removeBatch b s1)"
    using account past(5) unfolding past_ok_def given by (simp add: eq assms(9,10))
qed

section \<open>Operations keep the invariant\<close>

text \<open>An event \<open>q\<close> is appended, and the oldest are dropped.\<close>

definition appended :: "queued_event \<Rightarrow> queued_event list \<Rightarrow> reporter \<Rightarrow> reporter \<Rightarrow> bool" where
  "appended q dropped s s' \<longleftrightarrow>
     qe_number q = rp_next s \<and> clean_event q \<and>
     dropped @ rp_queue s' = rp_queue s @ [q] \<and> given_up s' = given_up s @ dropped \<and>
     rp_queueBytes s' = total_bytes (rp_queue s') \<and>
     length (rp_queue s') \<le> MAX_QUEUE_EVENTS \<and> rp_queueBytes s' \<le> MAX_QUEUE_BYTES \<and>
     rp_paused s' = rp_paused s \<and> rp_closed s' = rp_closed s \<and> rp_flushTimer s' = rp_flushTimer s \<and>
     rp_flushWork s' = rp_flushWork s \<and> rp_next s' = Suc (rp_next s) \<and> rp_allDelivered s' = rp_allDelivered s \<and>
     rp_allReports s' = rp_allReports s"

lemma appended_set:
  assumes "appended q dropped s s'"
  shows "set (rp_queue s) \<union> {q} = set dropped \<union> set (rp_queue s')"
proof -
  have "set (dropped @ rp_queue s') = set (rp_queue s @ [q])" using assms by (simp only: appended_def)
  then show ?thesis by simp
qed

lemma appended_in:
  assumes "appended q dropped s s'" and "y \<in> set (rp_queue s')"
  shows "y = q \<or> y \<in> set (rp_queue s)"
  using appended_set [OF assms(1)] assms(2) by auto

lemma appended_queue_ok:
  assumes "appended q dropped s s'" and "queue_ok s" and "\<not> rp_paused s" and "\<not> rp_closed s"
  shows "queue_ok s'"
proof -
  have "sorted_wrt (<) (numbers (rp_queue s @ [q]))"
    using assms(1,2) by (auto simp: queue_ok_def appended_def sorted_wrt_append)
  moreover have "numbers (rp_queue s @ [q]) = numbers dropped @ numbers (rp_queue s')"
    using assms(1) by (simp only: appended_def flip: numbers_simps(3))
  ultimately have sorted: "sorted_wrt (<) (numbers (rp_queue s'))" by (simp only: sorted_wrt_append)
  have "qe_number y < rp_next s' \<and> clean_event y" if y: "y \<in> set (rp_queue s')" for y
  proof (cases "y = q")
    case True
    then show ?thesis using assms(1) by (simp add: appended_def)
  next
    case False
    then have "qe_number y < rp_next s \<and> clean_event y"
      using appended_in [OF assms(1) y] assms(2) by (simp add: queue_ok_def)
    then show ?thesis using assms(1) by (simp add: appended_def)
  qed
  then show ?thesis using sorted assms(1,3,4) by (simp add: queue_ok_def appended_def)
qed

lemma appended_accounted:
  assumes "appended q dropped s s'" and "{..<rp_next s} \<subseteq> set (numbers (rp_queue s @ rp_allDelivered s @ given_up s))"
  shows "{..<rp_next s'} \<subseteq> set (numbers (rp_queue s' @ rp_allDelivered s' @ given_up s'))"
proof -
  have f: "rp_next s' = Suc (rp_next s)" "qe_number q = rp_next s" "given_up s' = given_up s @ dropped"
    "rp_allDelivered s' = rp_allDelivered s" using assms(1) by (simp_all add: appended_def)
  have "qe_number ` (set (rp_queue s) \<union> {q}) = qe_number ` (set dropped \<union> set (rp_queue s'))"
    by (simp only: appended_set [OF assms(1)])
  then have cover: "qe_number ` set (rp_queue s) \<union> {rp_next s} = qe_number ` set dropped \<union> qe_number ` set (rp_queue s')"
    by (simp add: image_Un f(2))
  have "{..<rp_next s'} = {..<rp_next s} \<union> {rp_next s}" using f(1) by auto
  also have "\<dots> \<subseteq> (qe_number ` set (rp_queue s) \<union> {rp_next s}) \<union> qe_number ` set (rp_allDelivered s) \<union> qe_number ` set (given_up s)"
    using assms(2) unfolding set_numbers set_append image_Un by blast
  also have "\<dots> \<subseteq> set (numbers (rp_queue s' @ rp_allDelivered s' @ given_up s'))"
    unfolding cover f(3,4) set_numbers set_append image_Un by blast
  finally show ?thesis .
qed

lemma appended_past_ok:
  assumes "appended q dropped s s'" and "past_ok X s"
  shows "past_ok X s'"
proof -
  have old: "qe_number x < rp_next s" if "x \<in> set (rp_allDelivered s)" for x using assms(2) that by (simp add: past_ok_def)
  have "qe_number x < qe_number y" if x: "x \<in> set (rp_allDelivered s)" and y: "y \<in> set (rp_queue s')" for x y
  proof (cases "y = q")
    case True
    then show ?thesis using old [OF x] assms(1) by (simp add: appended_def)
  next
    case False
    then show ?thesis using appended_in [OF assms(1) y] x assms(2) by (simp add: past_ok_def)
  qed
  moreover have "qe_number x < rp_next s'" if "x \<in> set (rp_allDelivered s)" for x
    using old [OF that] assms(1) by (simp add: appended_def)
  moreover have "{..<rp_next s'} \<subseteq> set (numbers (rp_queue s' @ rp_allDelivered s' @ given_up s'))"
    by (rule appended_accounted [OF assms(1)]) (use assms(2) in \<open>simp add: past_ok_def\<close>)
  moreover have "rp_allDelivered s' = rp_allDelivered s" "rp_allReports s' = rp_allReports s" using assms(1) by (simp_all add: appended_def)
  ultimately show ?thesis using assms(2) unfolding past_ok_def by (intro conjI ballI) simp_all
qed

lemma appended_batch_ok:
  assumes "appended q dropped s s'" and "batch_ok X b s"
  shows "batch_ok X b s'"
proof -
  have old: "qe_number x < rp_next s" if "x \<in> set b" for x using assms(2) that by (simp add: batch_ok_def)
  have "y \<in> set b \<or> qe_number x < qe_number y" if x: "x \<in> set b" and y: "y \<in> set (rp_queue s')" for x y
  proof (cases "y = q")
    case True
    then show ?thesis using old [OF x] assms(1) by (simp add: appended_def)
  next
    case False
    then show ?thesis using appended_in [OF assms(1) y] x assms(2) by (simp add: batch_ok_def)
  qed
  moreover have "qe_number x < rp_next s'" if "x \<in> set b" for x using old [OF that] assms(1) by (simp add: appended_def)
  moreover have "rp_allDelivered s' = rp_allDelivered s" using assms(1) by (simp add: appended_def)
  ultimately show ?thesis using assms(2) unfolding batch_ok_def by (intro conjI ballI) simp_all
qed

lemma enqueueProjected_appends:
  assumes "rp_queueBytes s = total_bytes (rp_queue s)" and "\<not> rp_paused s" and "\<not> rp_closed s" and "clean_activity e"
  obtains q dropped s1 d where "appended q dropped s s1" and "enqueueProjected X now e s = scheduleFlush d s1"
proof -
  define q where "q = \<lparr>qe_number = rp_next s, qe_event = e, qe_bytes = ax_encodedBytes X e, qe_enqueuedAt = now\<rparr>"
  define s0 where "s0 = s\<lparr>rp_next := Suc (rp_next s), rp_queueBytes := rp_queueBytes s + int (ax_encodedBytes X e)\<rparr>"
  have bytes: "rp_queueBytes s0 = total_bytes (rp_queue s @ [q])" using assms(1) by (simp add: s0_def q_def)
  obtain n where n: "drop_oldest (rp_queue s @ [q]) s0 = s0\<lparr>rp_queue := drop n (rp_queue s @ [q]),
      rp_queueBytes := total_bytes (drop n (rp_queue s @ [q])), rp_droppedEvents := rp_droppedEvents s0 + n,
      rp_allGivenUp := rp_allGivenUp s0 @ map (\<lambda>q. (Overflow, [q])) (take n (rp_queue s @ [q]))\<rparr>"
    and small: "length (drop n (rp_queue s @ [q])) \<le> MAX_QUEUE_EVENTS" "total_bytes (drop n (rp_queue s @ [q])) \<le> MAX_QUEUE_BYTES"
    by (rule drop_oldest_eq [OF bytes])
  define s1 where "s1 = drop_oldest (rp_queue s @ [q]) s0"
  have fields: "qe_number q = rp_next s" "clean_event q" using assms(4) by (simp_all add: q_def clean_event_def)
  have "appended q (take n (rp_queue s @ [q])) s s1"
    unfolding appended_def s1_def n using small fields
    by (simp del: drop_append take_append) (simp add: s0_def given_up_def comp_def del: drop_append take_append)
  moreover have "enqueueProjected X now e s = scheduleFlush 0 s1 \<or> enqueueProjected X now e s = scheduleFlush FLUSH_DELAY_MS s1"
    using assms(2,3) by (simp add: enqueueProjected_def Let_def s1_def s0_def q_def)
  ultimately show ?thesis using that by blast
qed

lemma enqueueProjected_ok:
  assumes "reporter_ok X s" and "clean_activity e"
  shows "reporter_ok X (enqueueProjected X now e s)"
proof (cases "rp_paused s \<or> rp_closed s")
  case True
  then have "enqueueProjected X now e s = s" unfolding enqueueProjected_def by (rule if_P)
  then show ?thesis using assms(1) by simp
next
  case False
  have ok: "queue_ok s" "past_ok X s" "work_ok X s" using assms(1) by (simp_all add: reporter_ok_def)
  have bytes: "rp_queueBytes s = total_bytes (rp_queue s)" using ok(1) by (simp add: queue_ok_def)
  have active: "\<not> rp_paused s" "\<not> rp_closed s" using False by simp_all
  obtain q dropped s1 d where a: "appended q dropped s s1" and eq: "enqueueProjected X now e s = scheduleFlush d s1"
    by (rule enqueueProjected_appends [OF bytes active assms(2)])
  have Q: "queue_ok s1" by (rule appended_queue_ok [OF a ok(1)]) (use False in simp_all)
  have "rp_flushTimer (scheduleFlush d s1) \<noteq> None"
    by (rule schedule_armed) (use False a in \<open>simp_all add: appended_def\<close>)
  moreover have "past_ok X (scheduleFlush d s1)" by (rule past_ok_cong [OF appended_past_ok [OF a ok(2)]]) simp_all
  moreover have "batch_ok X b (scheduleFlush d s1)" if "batch_ok X b s" for b
    by (rule batch_ok_cong [OF appended_batch_ok [OF a that]]) simp_all
  moreover have "rp_flushWork s1 = rp_flushWork s" using a by (simp add: appended_def)
  ultimately show ?thesis
    using queue_ok_schedule [OF Q] ok(3) by (simp add: eq reporter_ok_def work_ok_def)
qed

text \<open>An empty queue, when the reporter is paused\<close>

lemma cleared_ok:
  assumes "reporter_ok X s" and "rp_queue s1 = []" and "rp_queueBytes s1 = 0" and "rp_flushTimer s1 = None" and "rp_paused s1"
    and "rp_next s1 = rp_next s" and "rp_allReports s1 = rp_allReports s" and "rp_allDelivered s1 = rp_allDelivered s"
    and "given_up s1 = given_up s @ rp_queue s"
  shows "queue_ok s1" and "past_ok X s1" and "batch_ok X b s \<Longrightarrow> batch_ok X b s1"
proof -
  show "queue_ok s1" using assms(2-5) by (simp add: queue_ok_def MAX_QUEUE_BYTES_def)
  have past: "past_ok X s" using assms(1) by (simp add: reporter_ok_def)
  then have "{..<rp_next s} \<subseteq> set (numbers (rp_allDelivered s @ given_up s @ rp_queue s))" by (auto simp: past_ok_def)
  then show "past_ok X s1" using past unfolding past_ok_def assms(2,6-9) by simp
  show "batch_ok X b s1" if "batch_ok X b s" using that unfolding batch_ok_def assms(2,6,8) by simp
qed

lemma given_up_same [simp]:
  "given_up (s\<lparr>rp_paused := x\<rparr>) = given_up s" "given_up (s\<lparr>rp_closed := x\<rparr>) = given_up s"
  by (simp_all add: given_up_def)

lemma clearQueue_fields [simp]:
  "rp_queue (clearQueue why s) = []" "rp_queueBytes (clearQueue why s) = 0" "rp_flushTimer (clearQueue why s) = None"
  "rp_paused (clearQueue why s) = rp_paused s" "rp_next (clearQueue why s) = rp_next s"
  "rp_allReports (clearQueue why s) = rp_allReports s" "rp_allDelivered (clearQueue why s) = rp_allDelivered s"
  "given_up (clearQueue why s) = given_up s @ rp_queue s" "rp_flushWork (clearQueue why s) = rp_flushWork s"
  by (simp_all add: clearQueue_def give_up_def given_up_def)

lemma clear_ok:
  assumes "reporter_ok X s" and "s1 = clearQueue why (s\<lparr>rp_paused := True\<rparr>) \<or> s1 = clearQueue why (s\<lparr>rp_paused := True, rp_closed := True\<rparr>)"
  shows "reporter_ok X s1"
proof -
  have f: "rp_queue s1 = []" "rp_queueBytes s1 = 0" "rp_flushTimer s1 = None" "rp_paused s1" "rp_next s1 = rp_next s"
    "rp_allReports s1 = rp_allReports s" "rp_allDelivered s1 = rp_allDelivered s" "given_up s1 = given_up s @ rp_queue s"
    "rp_flushWork s1 = rp_flushWork s"
    using assms(2) by auto
  note cleared = cleared_ok [OF assms(1) f(1-8)]
  have "work_ok X s" using assms(1) by (simp add: reporter_ok_def)
  then have "work_ok X s1" using cleared(3) f(1,9) by (simp add: work_ok_def)
  then show ?thesis using cleared(1,2) by (simp add: reporter_ok_def)
qed

lemma contexts_ok: "reporter_ok X s \<Longrightarrow> reporter_ok X (s\<lparr>rp_contexts := c\<rparr>)"
  by (simp add: reporter_ok_def queue_ok_def past_ok_def work_ok_def batch_ok_def given_up_def)

lemma flush_ok: "queue_ok s \<Longrightarrow> past_ok X s \<Longrightarrow> (\<And>d. rp_flushWork s = Some d \<Longrightarrow> batch_ok X (dr_batch d) s) \<Longrightarrow> reporter_ok X (flush X s)"
  by (cases "rp_flushWork s") (simp_all add: flush_def drain_batch_ok, simp add: reporter_ok_def work_ok_def)

lemma token_ok:
  assumes "reporter_ok X s" and "rp_flushWork s = Some d"
  shows "reporter_ok X (token_arrives token d s)"
proof -
  have "batch_fits X (dr_batch d)" using assms by (simp add: reporter_ok_def work_ok_def batch_ok_def)
  then show ?thesis
    using assms by (auto simp: reporter_ok_def work_ok_def batch_ok_def token_arrives_def queue_ok_def past_ok_def given_up_def)
qed

lemma batch_ends_ok:
  assumes "reporter_ok X s" and "rp_flushWork s = Some d"
  shows "reporter_ok X (report_succeeds X d s)"
    and "reporter_ok X (drain_batch X (removeBatch (dr_batch d) (give_up why (dr_batch d) s)))"
proof -
  have ok: "queue_ok s" "past_ok X s" "batch_ok X (dr_batch d) s" using assms by (simp_all add: reporter_ok_def work_ok_def)
  note removed = removed_ok [OF ok]
  show "reporter_ok X (report_succeeds X d s)"
    unfolding report_succeeds_def by (rule drain_batch_ok; rule removed) (simp_all add: given_up_def)
  show "reporter_ok X (drain_batch X (removeBatch (dr_batch d) (give_up why (dr_batch d) s)))"
    by (rule drain_batch_ok; rule removed) (simp_all add: given_up_def give_up_def)
qed

lemma drain_fails_ok:
  assumes "reporter_ok X s" and "rp_flushWork s = Some d"
  shows "reporter_ok X (drain_fails X statusCode now d s)"
proof -
  have ok: "queue_ok s" "past_ok X s" "batch_ok X (dr_batch d) s" using assms by (simp_all add: reporter_ok_def work_ok_def)
  let ?c = "(clearQueue AuthRejected s)\<lparr>rp_paused := True\<rparr>"
  have c1: "queue_ok ?c" by (rule cleared_ok(1) [OF assms(1)]) simp_all
  have c2: "past_ok X ?c" by (rule cleared_ok(2) [OF assms(1)]) simp_all
  have "reporter_ok X (s\<lparr>rp_flushWork := Some (d\<lparr>dr_retry := r, dr_point := p\<rparr>)\<rparr>)" for r p
    using assms by (auto simp: reporter_ok_def work_ok_def batch_ok_def queue_ok_def past_ok_def given_up_def)
  then show ?thesis
    using drain_over_ok [OF ok(1,2)] drain_over_ok [OF c1 c2] batch_ends_ok(2) [OF assms]
    by (simp add: drain_fails_def)
qed

lemma queue_unpaused: "queue_ok s \<Longrightarrow> rp_queue s = [] \<or> \<not> rp_paused s \<and> \<not> rp_closed s"
  by (auto simp: queue_ok_def)

lemma timer_off:
  assumes "reporter_ok X s"
  shows "queue_ok (s\<lparr>rp_flushTimer := None, rp_closing := c\<rparr>)" "past_ok X (s\<lparr>rp_flushTimer := None, rp_closing := c\<rparr>)"
    "rp_flushWork s = Some d \<Longrightarrow> batch_ok X (dr_batch d) (s\<lparr>rp_flushTimer := None, rp_closing := c\<rparr>)"
  using assms by (auto simp: reporter_ok_def queue_ok_def past_ok_def work_ok_def batch_ok_def given_up_def)

lemma flush_now_ok:
  assumes "reporter_ok X s"
  shows "reporter_ok X (flush X (s\<lparr>rp_flushTimer := None, rp_closing := c\<rparr>))"
  by (rule flush_ok [OF timer_off(1,2) [OF assms]]) (use timer_off(3) [OF assms] in simp)

lemma timer_fires_ok: "reporter_ok X s \<Longrightarrow> reporter_ok X (flush_timer_fires X s)"
  using flush_now_ok [of X s "rp_closing s"] by (simp add: flush_timer_fires_def)

lemma close_begins_ok: "reporter_ok X s \<Longrightarrow> reporter_ok X (close_begins X s)"
  using flush_now_ok [of X s True] by (simp add: close_begins_def)

lemma resume_ok:
  assumes "reporter_ok X s"
  shows "reporter_ok X (resume_reports s)"
proof (cases "rp_closed s")
  case True
  then show ?thesis using assms by (simp add: resume_reports_def)
next
  case False
  let ?s = "s\<lparr>rp_paused := False\<rparr>"
  have ok: "queue_ok s" "past_ok X s" "work_ok X s" using assms by (simp_all add: reporter_ok_def)
  have q: "queue_ok ?s" using ok(1) False by (simp add: queue_ok_def)
  have p: "past_ok X ?s" by (rule past_ok_cong [OF ok(2)]) simp_all
  have w: "work_ok X ?s" using ok(3) by (simp add: work_ok_def batch_ok_def)
  have "reporter_ok X (scheduleFlush 0 ?s)"
  proof -
    have "past_ok X (scheduleFlush 0 ?s)" by (rule past_ok_cong [OF p]) simp_all
    moreover have "rp_flushTimer (scheduleFlush 0 ?s) \<noteq> None" by (rule schedule_armed) (use False in simp_all)
    moreover have "batch_ok X b (scheduleFlush 0 ?s)" if "batch_ok X b ?s" for b by (rule batch_ok_cong [OF that]) simp_all
    ultimately show ?thesis using queue_ok_schedule [OF q] w by (simp add: reporter_ok_def work_ok_def)
  qed
  moreover have "reporter_ok X ?s" using q p w by (simp add: reporter_ok_def)
  ultimately show ?thesis using False by (simp add: resume_reports_def Let_def)
qed

lemma retry_ok:
  assumes "reporter_ok X s" and "rp_flushWork s = Some d"
  shows "reporter_ok X (retry X d s)"
proof -
  have ok: "queue_ok s" "past_ok X s" using assms by (simp_all add: reporter_ok_def)
  have "reporter_ok X (s\<lparr>rp_flushWork := Some (d\<lparr>dr_point := p\<rparr>)\<rparr>)" for p
    using assms by (auto simp: reporter_ok_def work_ok_def batch_ok_def queue_ok_def past_ok_def given_up_def)
  then show ?thesis using drain_batch_ok [OF ok] by (simp add: retry_def)
qed

lemma registerRun_ok: "reporter_ok X s \<Longrightarrow> reporter_ok X (registerRun X now i s)"
  by (simp add: registerRun_def enqueueProjected_ok contexts_ok projected_clean)

lemma enqueue_event_ok:
  assumes "reporter_ok X s"
  shows "reporter_ok X (enqueue_event X now e s)"
  using assms
  by (auto simp: enqueue_event_def Let_def projected_clean split: option.split sum.split intro!: contexts_ok enqueueProjected_ok)

lemma evidence_ok: "reporter_ok X s \<Longrightarrow> reporter_ok X (recordSkillEvidence X now r i n t v s)"
  by (simp add: recordSkillEvidence_def enqueueProjected_ok projected_clean split: option.split)

lemma reporter_step_ok: "reporter_step X s s' \<Longrightarrow> reporter_ok X s \<Longrightarrow> reporter_ok X s'"
proof (induction rule: reporter_step.induct)
  case (reports_cleared s)
  then show ?case using clear_ok [of X s "clear_reports s" Cleared] by (simp add: clear_reports_def)
next
  case (closed s)
  then show ?case using clear_ok [of X s "close_ends s" Cleared] by (simp add: close_ends_def)
qed (simp_all add: registerRun_ok enqueue_event_ok evidence_ok resume_ok timer_fires_ok token_ok batch_ends_ok(1)
  drain_fails_ok retry_ok close_begins_ok)

lemma reporter_history_ok: "reporter_history X s \<Longrightarrow> reporter_ok X s"
  by (induction rule: reporter_history.induct) (simp_all add: new_reporter_ok reporter_step_ok)

section \<open>What the reporter promises\<close>

text \<open>
  C22. In every history of the activity reporter the queue has at most 500 events and 5 MB, counted rightly. Its
  events are on their way: while there are any the reporter is active, and a flush is scheduled or running.
  Each event that was accepted waits in the queue, has been delivered, or was given up for a recorded reason;
  events are delivered at most once and in the order in which they were accepted, before all that still wait.
  A request has at most 20 events, and more than 512 KB only with a single event.
\<close>

theorem activity_accounted:
  assumes "reporter_history X s"
  shows "rp_queueBytes s = total_bytes (rp_queue s) \<and> length (rp_queue s) \<le> MAX_QUEUE_EVENTS \<and> rp_queueBytes s \<le> MAX_QUEUE_BYTES \<and>
    (rp_queue s \<noteq> [] \<longrightarrow> isActive s \<and> (rp_flushTimer s \<noteq> None \<or> rp_flushWork s \<noteq> None)) \<and>
    {..<rp_next s} \<subseteq> set (numbers (rp_queue s @ rp_allDelivered s @ given_up s)) \<and>
    sorted_wrt (<) (numbers (rp_allDelivered s)) \<and>
    (\<forall>x \<in> set (rp_allDelivered s). \<forall>y \<in> set (rp_queue s). qe_number x < qe_number y) \<and>
    (\<forall>(token, b) \<in> set (rp_allReports s).
      b \<noteq> [] \<and> length b \<le> MAX_BATCH_EVENTS \<and> (length b = 1 \<or> ax_requestBytes X (map qe_event b) \<le> MAX_BATCH_BYTES))"
proof -
  have ok: "queue_ok s" "past_ok X s" "work_ok X s" using reporter_history_ok [OF assms] by (simp_all add: reporter_ok_def)
  have "\<forall>(token, b) \<in> set (rp_allReports s).
      b \<noteq> [] \<and> length b \<le> MAX_BATCH_EVENTS \<and> (length b = 1 \<or> ax_requestBytes X (map qe_event b) \<le> MAX_BATCH_BYTES)"
    using ok(2) by (fastforce simp: past_ok_def batch_fits_def)
  then show ?thesis
    using ok queue_unpaused [OF ok(1)] by (cases "rp_queue s = []") (simp_all add: queue_ok_def past_ok_def work_ok_def isActive_def)
qed

definition sample_activity_env :: activity_env where
  "sample_activity_env =
     \<lparr>ax_encodedBytes = (\<lambda>e. 1), ax_requestBytes = (\<lambda>es. length es)\<rparr>"

definition sample_registered_run :: registered_run where
  "sample_registered_run =
     \<lparr>gr_runId = ''run_1'', gr_threadId = None, gr_prompt = ''hi'', gr_createdBy = ''api'', gr_workspaceName = ''w'', gr_createdAt = 0\<rparr>"

definition sample_queued :: queued_event where
  "sample_queued =
     \<lparr>qe_number = 0, qe_event = projectRunStarted sample_activity_env sample_registered_run, qe_bytes = 1, qe_enqueuedAt = 0\<rparr>"

text \<open>A run is registered, and its event sent with the token \<open>A\<close>, which fails for now.\<close>

lemma sample_waits:
  obtains s d where "reporter_history sample_activity_env s" "rp_flushWork s = Some d" "dr_point d = WaitsForRetry 1000"
    "dr_batch d = [sample_queued]" "rp_queue s = [sample_queued]" "rp_allReports s = [(''A'', [sample_queued])]" "\<not> rp_closed s"
proof -
  let ?X = sample_activity_env
  let ?s1 = "registerRun ?X 0 sample_registered_run (resume_reports new_reporter)"
  have 1: "reporter_history ?X ?s1"
    by (rule reporter_continues [OF reporter_continues [OF reporter_created reports_resumed] run_registered])
  have s1: "rp_queue ?s1 = [sample_queued]" "rp_flushTimer ?s1 = Some 500" "rp_flushWork ?s1 = None" "\<not> rp_paused ?s1"
    "\<not> rp_closed ?s1" "rp_allReports ?s1 = []"
    by (simp_all add: registerRun_def resume_reports_def new_reporter_def enqueueProjected_def Let_def scheduleFlush_def
        sample_queued_def sample_activity_env_def FLUSH_DELAY_MS_def MAX_QUEUE_EVENTS_def MAX_QUEUE_BYTES_def MAX_BATCH_EVENTS_def
        MAX_BATCH_BYTES_def)
  let ?s2 = "flush_timer_fires ?X ?s1" and ?d = "\<lparr>dr_batch = [sample_queued], dr_retry = 0, dr_point = WaitsForToken\<rparr>"
  have 2: "reporter_history ?X ?s2" by (rule reporter_continues [OF 1 flush_due]) (simp add: s1)
  have s2: "?s2 = ?s1\<lparr>rp_flushTimer := None, rp_flushWork := Some ?d\<rparr>"
    using s1 by (simp add: flush_timer_fires_def flush_def drain_batch_def nextBatch_def MAX_BATCH_EVENTS_def)
  let ?s3 = "token_arrives ''A'' ?d ?s2" and ?d3 = "\<lparr>dr_batch = [sample_queued], dr_retry = 0, dr_point = WaitsForReport\<rparr>"
  have 3: "reporter_history ?X ?s3" by (rule reporter_continues [OF 2 has_token]) (simp_all add: s2)
  have s3: "rp_flushWork ?s3 = Some ?d3" by (simp add: token_arrives_def)
  have "reporter_history ?X (drain_fails ?X (Some 503) 0 ?d3 ?s3)"
    by (rule reporter_continues [OF 3 failed [OF s3]]) simp
  then show ?thesis
    by (rule that [of _ "\<lparr>dr_batch = [sample_queued], dr_retry = Suc 0, dr_point = WaitsForRetry 1000\<rparr>"])
      (simp_all add: drain_fails_def retryable_def oldest_at_def MAX_BATCH_AGE_MS_def RETRY_DELAYS_MS_def
        token_arrives_def s2 s1 sample_queued_def)
qed

lemma activity_accounted_witness:
  "\<exists>s. reporter_history sample_activity_env s \<and> rp_allReports s = [(''A'', [sample_queued])] \<and> length (rp_queue s) \<le> 500 \<and> isActive s"
proof -
  obtain s d where s: "reporter_history sample_activity_env s" "rp_flushWork s = Some d" "dr_point d = WaitsForRetry 1000"
      "dr_batch d = [sample_queued]" "rp_queue s = [sample_queued]" "rp_allReports s = [(''A'', [sample_queued])]" "\<not> rp_closed s"
    by (rule sample_waits)
  show ?thesis using activity_accounted [OF s(1)] s by (auto simp: MAX_QUEUE_EVENTS_def)
qed

text \<open>
  C19. In every history of the activity reporter, no event of a request to the enterprise server holds a value
  under the name of a secret (\<^verbatim>\<open>token\<close>, \<^verbatim>\<open>password\<close>, \<^verbatim>\<open>cookie\<close> and so on), at any depth of its payload: there is
  only the replacement. In an event that is not evidence of skills, no text value at any depth has a word that begins
  like a capability token or a key of OpenAI (\<open>keyless\<close>). Cutting texts and events to their sizes, and the fall-back
  payloads, keep this. The names of properties are sent as they are, so of them this is not said; nor is it
  of the payload of an evidence of skills, which is not redacted, and has no fields but the seven that
  \<open>evidence_fields\<close> lists.
\<close>

theorem activity_redacted:
  assumes "reporter_history X s" and "(token, b) \<in> set (rp_allReports s)" and "q \<in> set b"
  shows "clean_record (ae_payload (qe_event q)) \<and>
    (ae_event_type (qe_event q) \<noteq> ''skill_evidence'' \<longrightarrow> keyless (JObj (ae_payload (qe_event q)))) \<and>
    (ae_event_type (qe_event q) = ''skill_evidence'' \<longrightarrow> fst ` set (ae_payload (qe_event q)) \<subseteq> set evidence_fields)"
proof -
  have "past_ok X s" using reporter_history_ok [OF assms(1)] by (simp add: reporter_ok_def)
  then have "batch_fits X b" using assms(2) by (auto simp: past_ok_def)
  then have "clean_activity (qe_event q)" using assms(3) by (simp add: batch_fits_def clean_event_def)
  then show ?thesis by (auto simp: clean_activity_def keyless_record_def)
qed

lemma activity_redacted_witness:
  "clean_record (ae_payload (qe_event sample_queued)) \<and> keyless (JObj (ae_payload (qe_event sample_queued))) \<and>
   \<not> clean_record [(''Api-Key'', JStr ''k'')] \<and> \<not> keyless (JStr ''a clwcap_b'')"
proof -
  obtain s d where s: "reporter_history sample_activity_env s" "rp_flushWork s = Some d" "dr_point d = WaitsForRetry 1000"
      "dr_batch d = [sample_queued]" "rp_queue s = [sample_queued]" "rp_allReports s = [(''A'', [sample_queued])]" "\<not> rp_closed s"
    by (rule sample_waits)
  have "ae_event_type (qe_event sample_queued) \<noteq> ''skill_evidence''" by (simp add: sample_queued_def projectRunStarted_def)
  moreover have "clean_record (ae_payload (qe_event sample_queued)) \<and>
      (ae_event_type (qe_event sample_queued) \<noteq> ''skill_evidence'' \<longrightarrow> keyless (JObj (ae_payload (qe_event sample_queued)))) \<and>
      (ae_event_type (qe_event sample_queued) = ''skill_evidence'' \<longrightarrow>
        fst ` set (ae_payload (qe_event sample_queued)) \<subseteq> set evidence_fields)"
    by (rule activity_redacted [OF s(1), of "''A''" "[sample_queued]"]) (simp_all add: s)
  moreover have "\<not> clean_record [(''Api-Key'', JStr ''k'')]" "\<not> keyless (JStr ''a clwcap_b'')" by code_simp+
  ultimately show ?thesis by simp
qed

text \<open>
  A finding: a batch that waits for its next try outlives \<^verbatim>\<open>clear\<close>. When the user signs out (\<^verbatim>\<open>clear\<close>) and another
  one signs in (\<^verbatim>\<open>resume\<close>) within the delay, the events of the first are sent with the token of the second.
\<close>

lemma retry_outlives_clear:
  "\<exists>s. reporter_history sample_activity_env s \<and> (Cleared, [sample_queued]) \<in> set (rp_allGivenUp s) \<and>
     rp_allReports s = [(''A'', [sample_queued]), (''B'', [sample_queued])]"
proof -
  let ?X = sample_activity_env
  obtain s d where s: "reporter_history ?X s" "rp_flushWork s = Some d" "dr_point d = WaitsForRetry 1000"
      "dr_batch d = [sample_queued]" "rp_queue s = [sample_queued]" "rp_allReports s = [(''A'', [sample_queued])]" "\<not> rp_closed s"
    by (rule sample_waits)
  let ?s1 = "resume_reports (clear_reports s)"
  have 1: "reporter_history ?X ?s1"
    by (rule reporter_continues [OF reporter_continues [OF s(1) reports_cleared] reports_resumed])
  have s1: "?s1 = (clearQueue Cleared (s\<lparr>rp_paused := True\<rparr>))\<lparr>rp_paused := False\<rparr>"
    using s(7) by (simp add: resume_reports_def clear_reports_def clearQueue_def give_up_def)
  have w: "rp_flushWork ?s1 = Some d" "\<not> rp_paused ?s1" "rp_allReports ?s1 = [(''A'', [sample_queued])]"
    using s(2,6) by (simp_all add: s1)
  have g: "(Cleared, [sample_queued]) \<in> set (rp_allGivenUp ?s1)"
    using s(5) by (simp add: s1 clearQueue_def give_up_def)
  let ?d = "d\<lparr>dr_point := WaitsForToken\<rparr>" and ?s2 = "retry ?X d ?s1"
  have 2: "reporter_history ?X ?s2" by (rule reporter_continues [OF 1 retried [OF w(1) s(3)]])
  have s2: "?s2 = ?s1\<lparr>rp_flushWork := Some ?d\<rparr>" using w(2) by (simp add: retry_def)
  have "reporter_history ?X (token_arrives ''B'' ?d ?s2)" by (rule reporter_continues [OF 2 has_token]) (simp_all add: s2)
  then show ?thesis using w(3) g s(4) by (intro exI [of _ "token_arrives ''B'' ?d ?s2"]) (simp add: token_arrives_def s2)
qed

end
