(* ===== verification/Spec2Isabelle.thy ===== *)
theory Spec2Isabelle
  imports DaemonSchedules AppServerClient AppServerJobs OrderedLog ThreadHistory ScheduleTiming ActivityReporter
begin

text \<open>
  A verification of the local daemon of Clawee, \<^verbatim>\<open>client/apps/daemon/src\<close>. The daemon runs Codex agents
  for the threads of the user: a run is requested by a thread or a schedule, waits until its thread
  and an executor are free, is carried out by a Codex process, may ask for approvals, and ends with
  an outcome that is stored. All state is either in the memory of the daemon, which handles one event
  at a time, or in its SQLite database.

  \<^bold>\<open>The parts and their theories.\<close> Paths are relative to \<^verbatim>\<open>client/apps/daemon/src\<close>.

  \<^item> \<open>ClaweePrelude\<close>: base types, the error-state monad, JavaScript's \<^verbatim>\<open>Map\<close> and \<^verbatim>\<open>trim\<close>, tables, and the
    rules that the proofs about them share. A computation is a function from the state to an error or
    a value and the new state; \<open>transactE\<close> is a transaction of the database.
  \<^item> \<open>Storage\<close> and \<open>Repositories\<close>: the tables of \<^verbatim>\<open>storage/migrations.ts\<close> with their constraints (\<open>db_ok\<close>),
    and the statements of \<^verbatim>\<open>storage/repositories.ts\<close>; the run time state \<open>rt\<close> with clock, ids and files.
  \<^item> \<open>Redaction\<close>: \<^verbatim>\<open>security/redaction.ts\<close> with the meaning of its regular expressions, what is taken out of
    prompts, logs and events before they are stored or sent.
  \<^item> \<open>CapabilityTokens\<close>: \<^verbatim>\<open>agent-tools/capability-token.ts\<close>, what a run may do with the internal tools.
  \<^item> \<open>Approvals\<close>: \<^verbatim>\<open>approvals/manager.ts\<close>, the decisions that a run waits for.
  \<^item> \<open>Projects\<close> and \<open>Threads\<close>: \<^verbatim>\<open>projects/manager.ts\<close> and \<^verbatim>\<open>threads/manager.ts\<close>, over the tables.
  \<^item> \<open>ScheduleRepository\<close>, \<open>ScheduleValidator\<close>, \<open>ScheduleCoordinator\<close>, \<open>ScheduleBindings\<close>: \<^verbatim>\<open>scheduler/repository.ts\<close>,
    \<^verbatim>\<open>validator.ts\<close> with \<^verbatim>\<open>cron.ts\<close>, and \<^verbatim>\<open>coordinator.ts\<close>, whose interface to the threads is a locale that
    \<open>ScheduleBindings\<close> interprets by the operations of \<open>Threads\<close>.
  \<^item> \<open>ScheduleService\<close>, \<open>ScheduleRefinement\<close>, \<open>ScheduleTimers\<close>: \<^verbatim>\<open>scheduler/service.ts\<close>, the abstract scheduler that
    it refines, and the state of its timers.
  \<^item> \<open>CodexArgs\<close>: \<^verbatim>\<open>codex/argv.ts\<close> and the arguments of \<^verbatim>\<open>codex/app-server-host-2026-07-28.ts\<close>.
  \<^item> \<open>RunOutcome\<close>: the decisions of \<^verbatim>\<open>runs/manager.ts\<close> about requests, resume modes and results; \<open>RunManager\<close>:
    all its operations and continuations. \<open>RunCallbacks\<close> has the contract of what the manager is given,
    \<open>RunInvariants\<close> the invariants of its memory, \<open>RunSteps\<close> that each operation keeps them,
    \<open>RunSurroundings\<close> what the manager leaves alone, and \<open>RunLiveness\<close> its launching functions as an
    evaluation relation without a stack, and its progress.
  \<^item> \<open>ExecutorSlots\<close>: \<^verbatim>\<open>runs/persistent-app-server-executor-2026-07-28.ts\<close>, the pool of app servers.
  \<^item> \<open>EventNormalizer\<close>: \<^verbatim>\<open>events/normalizer.ts\<close>, from what Codex writes to the events of the protocol
    (\<^verbatim>\<open>client/packages/protocol/src/events.ts\<close>).
  \<^item> \<open>BoundedBuffers\<close> and \<open>AppServerClient\<close>: \<^verbatim>\<open>codex/bounded-buffer.ts\<close> and \<^verbatim>\<open>codex/app-server-client.ts\<close>, requests
    to a Codex process over its pipes.
  \<^item> \<open>AppServerHost\<close>, \<open>AppServerInvariant\<close>, \<open>AppServerJobs\<close>: \<^verbatim>\<open>codex/app-server-host-2026-07-28.ts\<close>, a Codex process
    that carries out the turns of runs one after the other; its invariant, and what it promises.
  \<^item> \<open>OrderedLog\<close>: \<^verbatim>\<open>runs/ordered-log-writer.ts\<close>, the files that a run writes its events and output to.
  \<^item> \<open>ThreadHistory\<close>: \<^verbatim>\<open>threads/run-event-history.ts\<close> and the history route of \<^verbatim>\<open>api/routes.threads.ts\<close>, what
    Codex remembers of a thread completed by the events of its runs.
  \<^item> \<open>ScheduleTiming\<close>: \<^verbatim>\<open>agent-tools/schedule-timing.ts\<close>, the timings that an agent gives, as cron expressions.
  \<^item> \<open>ActivityEvents\<close> and \<open>ActivityReporter\<close>: \<^verbatim>\<open>enterprise/activity-event-projector-2026-08-28.ts\<close> and
    \<^verbatim>\<open>activity-reporter-2026-08-28.ts\<close>, what the enterprise server is told of the runs, and when.
  \<^item> \<open>DaemonRuns\<close> and \<open>DaemonSchedules\<close>: the composition in \<^verbatim>\<open>api/server.ts\<close>. The run manager gets the thread
    manager, the approvals, the executor and the tokens; the scheduler starts its runs with the run
    manager. Both interpret the locales of the parts, so that what is proved there holds of the daemon.

  \<^bold>\<open>How to read the model.\<close> A \<^verbatim>\<open>class\<close> or closure is a record of its variables, an operation one
  function, a promise that is awaited the end of one function and the beginning of the next. Errors
  that are thrown are values of a sum type, and keep the changes made before. What may happen to a
  component in any order is a step relation (\<open>run_step\<close>, \<open>client_step\<close>, \<open>host_step\<close>, \<open>reporter_step\<close>) or a list of operations, and its
  invariants are proved for all histories. Clock readings and random ids are functions of the number
  of readings, about which nothing is assumed.

  \<^bold>\<open>What is proved.\<close> For the runs: each run is in one place, a thread has at most one run, a run that
  ends hands its thread over to the next and leaves no run in the queue of the executor that could start
  (if nothing has raised), and loses its tokens, launching runs always ends, a run that succeeds has a
  reason to. For tokens and approvals: authorization is sound, decisions are final, each
  waiting promise is settled once. For schedules: the passes of the timers refine an abstract
  scheduler, nothing stays due, no queued trigger is lost, the service's own operations keep its timers
  armed when they have to be, every schedule keeps its thread. For the Codex processes: every event has its
  type, the frames of a stream do not depend on its chunks (unless a line is one carriage return longer
  than the limit), no request is lost, logs are written in order; a host of turns
  accounts for each of its jobs and starts one turn for each at most. For what the user
  sees: the history of a thread is in order and shows the prompts and those events that it has items for,
  and a timing means what its cron expression does, except for intervals that do not divide the hour.
  No word of a redacted text begins like a capability token or a key of OpenAI; the names of the properties
  of JSON values are not redacted. For the enterprise server: the queue of activity events is bounded and
  accounted for, no value under the name of a secret is sent, and no token or key in a text value of an event,
  evidence of skills aside.

  \<^bold>\<open>Fuel.\<close> Only the functions of the run manager that launch runs call each other without a structural
  argument. Their argument \<open>n\<close> is the depth of the call stack that is left; a stack that is used up is an
  error of the model (JavaScript's \<^verbatim>\<open>RangeError\<close>). \<open>stack_for\<close> computes a depth from the queues. That it is
  enough is said by \<open>launching_terminates\<close>: the rules of \<open>start_yields\<close> and its companions evaluate the same
  calls without a stack, they give each call exactly one result, and it is the one that the functions
  compute with this depth or any larger one, since each nested call has taken a run from a queue. The numbers of the model are unbounded where the code's are far below \<open>2^53\<close>
  (milliseconds, bytes, sequence numbers), and fractions where it compares fractions.

  \<^bold>\<open>Parameters.\<close> What is not in the repository is an argument: SHA-256, random bytes, \<^verbatim>\<open>cron-parser\<close>, the time
  zones of \<^verbatim>\<open>Intl\<close>, \<^verbatim>\<open>JSON.parse\<close>, \<^verbatim>\<open>node:path\<close> and \<^verbatim>\<open>node:fs\<close>. Literals in Chinese are arguments too, since strings
  of the model have characters below 256; so are the parts of the daemon whose rules are about such text
  (the title shortener). Closing an app server is assumed to succeed, and spawning a process to return.

  \<^bold>\<open>Not modelled.\<close> Routes and server plumbing (\<^verbatim>\<open>api/routes.*\<close>, \<^verbatim>\<open>main.ts\<close>, \<^verbatim>\<open>startup.ts\<close>): they decode a
  request and call an operation that is modelled. The Codex runner is known
  by what it reports; attachments, memory, search, notifications, feedback, diagnostics, cleanup, the
  Codex runtime home with its migration, sessions, skills, profiles and MCP servers mostly read and
  write files and tables of their own. Of the enterprise part (\<^verbatim>\<open>enterprise/\<close>) only the
  reports of activity are modelled; the rest is requests by HTTP and the parsing of their answers.
  The web application, the desktop shell and the Go server are other programs.
\<close>

end
